(* ===== verification/Prelude.thy ===== *)
theory Prelude
  imports Main "HOL-Library.Sublist"
begin

text \<open>
  Shared vocabulary of the development: the collections the component theories add to, the
  error type of the Go functions that return \<open>(value, error)\<close>, and generic lemmas on
  lists that several components use (splitting at the first match, dropping a prefix,
  searching from the end).
\<close>

subsection \<open>Collections\<close>

named_theorems rune_simps \<open>evaluation of the UTF-8 layer\<close>
named_theorems step_simps \<open>one step of a component's operation, unfolded\<close>
named_theorems inv_intros \<open>preservation of the component invariants\<close>

subsection \<open>Results\<close>

text \<open>
  A Go function returning \<open>(T, error)\<close> is modelled with a sum: \<open>Inl msg\<close> for a
  non-nil error, \<open>Inr v\<close> for the value.
\<close>

type_synonym 'a result = "string + 'a"

definition is_ok :: "'e + 'a \<Rightarrow> bool" where
  "is_ok r = (case r of Inl _ \<Rightarrow> False | Inr _ \<Rightarrow> True)"

lemma is_ok_simps [simp]: "is_ok (Inr v)" "\<not> is_ok (Inl e)"
  by (simp_all add: is_ok_def)

lemma is_ok_iff: "is_ok r \<longleftrightarrow> (\<exists>v. r = Inr v)"
  by (cases r) simp_all

subsection \<open>Lists\<close>

lemma length_dropWhile_less [intro, termination_simp]:
  "dropWhile P xs = y # ys \<Longrightarrow> length ys < length xs"
  by (metis Suc_le_eq length_Cons length_dropWhile_le)

lemma dropWhile_Cons_hd: "dropWhile P xs = y # ys \<Longrightarrow> \<not> P y"
  by (metis hd_dropWhile list.distinct(1) list.sel(1))

lemma dropWhile_append_stop [simp]:
  "\<forall>x \<in> set xs. P x \<Longrightarrow> \<not> P y \<Longrightarrow> dropWhile P (xs @ y # ys) = y # ys"
  by (induction xs) auto

lemma takeWhile_append_stop [simp]:
  "\<forall>x \<in> set xs. P x \<Longrightarrow> \<not> P y \<Longrightarrow> takeWhile P (xs @ y # ys) = xs"
  by (induction xs) auto

lemma takeWhile_neq_append [simp]: "c \<notin> set xs \<Longrightarrow> takeWhile (\<lambda>x. x \<noteq> c) (xs @ c # ys) = xs"
  by (induction xs) auto

lemma dropWhile_neq_append [simp]: "c \<notin> set xs \<Longrightarrow> dropWhile (\<lambda>x. x \<noteq> c) (xs @ c # ys) = c # ys"
  by (induction xs) auto

lemma length_drop_less [termination_simp]: "0 < n \<Longrightarrow> xs \<noteq> [] \<Longrightarrow> length (drop n xs) < length xs"
  by (cases xs) auto

lemma map_idI: "(\<And>x. x \<in> set xs \<Longrightarrow> f x = x) \<Longrightarrow> map f xs = xs"
  by (induction xs) auto

text \<open>The longest suffix of a list whose elements all satisfy a predicate, and the rest.\<close>

definition drop_tail :: "('a \<Rightarrow> bool) \<Rightarrow> 'a list \<Rightarrow> 'a list" where
  "drop_tail P xs = rev (dropWhile P (rev xs))"

definition take_tail :: "('a \<Rightarrow> bool) \<Rightarrow> 'a list \<Rightarrow> 'a list" where
  "take_tail P xs = rev (takeWhile P (rev xs))"

lemma drop_tail_append_take_tail: "drop_tail P xs @ take_tail P xs = xs"
  by (metis drop_tail_def rev_append rev_rev_ident take_tail_def takeWhile_dropWhile_id)

lemma drop_tail_Nil [simp]: "drop_tail P [] = []"
  by (simp add: drop_tail_def)

lemma take_tail_Nil [simp]: "take_tail P [] = []"
  by (simp add: take_tail_def)

lemma length_drop_tail_le [simp]: "length (drop_tail P xs) \<le> length xs"
  by (metis drop_tail_def length_dropWhile_le length_rev)

lemma set_take_tail: "x \<in> set (take_tail P xs) \<Longrightarrow> P x"
  by (auto simp: take_tail_def dest: set_takeWhileD)

lemma drop_tail_last: "drop_tail P xs \<noteq> [] \<Longrightarrow> \<not> P (last (drop_tail P xs))"
  by (simp add: drop_tail_def last_rev hd_dropWhile)

text \<open>Searching an index downwards: the largest \<open>i < n\<close> that satisfies \<open>P\<close>.\<close>

fun find_down :: "(nat \<Rightarrow> bool) \<Rightarrow> nat \<Rightarrow> nat option" where
  "find_down P 0 = None"
| "find_down P (Suc n) = (if P n then Some n else find_down P n)"

lemma find_down_Some: "find_down P n = Some i \<longleftrightarrow> i < n \<and> P i \<and> (\<forall>j. i < j \<and> j < n \<longrightarrow> \<not> P j)"
proof (induction n)
  case 0
  then show ?case by simp
next
  case (Suc n)
  show ?case
  proof (cases "P n")
    case True
    then show ?thesis by (auto simp: less_Suc_eq)
  next
    case False
    with Suc show ?thesis by (auto simp: less_Suc_eq)
  qed
qed

lemma find_down_None: "find_down P n = None \<longleftrightarrow> (\<forall>j < n. \<not> P j)"
  by (induction n) (auto simp: less_Suc_eq)

end
