(* ===== verification/Go_Strings.thy ===== *)
theory Go_Strings
  imports Prelude "HOL-Library.Code_Target_Nat"
begin

text \<open>
  Go's strings and runes, as far as the modelled code uses them. A Go \<open>string\<close> is a
  sequence of bytes and is modelled by Isabelle's \<open>string\<close> (a list of 8-bit
  \<open>char\<close>); a \<open>rune\<close> is a Unicode code point. \<open>runes_of\<close> is the conversion
  \<open>[]rune(s)\<close>, built on \<open>utf8.DecodeRune\<close> with its rejection of overlong forms,
  surrogates and truncated sequences (an invalid byte becomes U+FFFD); \<open>string_of_runes\<close>
  is \<open>string(rs)\<close>, that is \<open>utf8.EncodeRune\<close> rune by rune. Below them are the functions
  of the packages \<open>strings\<close> and \<open>strconv\<close> that the program calls.
\<close>

section \<open>Runes and UTF-8\<close>

type_synonym rune = nat

abbreviation rune_error :: rune where "rune_error \<equiv> 65533"

definition valid_rune :: "rune \<Rightarrow> bool" where
  "valid_rune r \<longleftrightarrow> r < 55296 \<or> (57344 \<le> r \<and> r < 1114112)"

definition is_cont :: "nat \<Rightarrow> bool" where
  "is_cont b \<longleftrightarrow> 128 \<le> b \<and> b < 192"

text \<open>The second byte of a three- or four-byte sequence has a range that depends on the first.\<close>

definition second_ok :: "nat \<Rightarrow> nat \<Rightarrow> bool" where
  "second_ok b0 b1 =
     (if b0 = 224 then 160 \<le> b1 \<and> b1 < 192
      else if b0 = 237 then 128 \<le> b1 \<and> b1 < 160
      else if b0 = 240 then 144 \<le> b1 \<and> b1 < 192
      else if b0 = 244 then 128 \<le> b1 \<and> b1 < 144
      else is_cont b1)"

fun decode_bytes :: "nat list \<Rightarrow> rune \<times> nat" where
  "decode_bytes [] = (rune_error, 0)"
| "decode_bytes (b0 # bs) =
     (if b0 < 128 then (b0, 1)
      else if 194 \<le> b0 \<and> b0 < 224 then
        (case bs of
           b1 # _ \<Rightarrow> if is_cont b1 then ((b0 - 192) * 64 + (b1 - 128), 2) else (rune_error, 1)
         | _ \<Rightarrow> (rune_error, 1))
      else if 224 \<le> b0 \<and> b0 < 240 then
        (case bs of
           b1 # b2 # _ \<Rightarrow>
             if second_ok b0 b1 \<and> is_cont b2
             then ((b0 - 224) * 4096 + (b1 - 128) * 64 + (b2 - 128), 3) else (rune_error, 1)
         | _ \<Rightarrow> (rune_error, 1))
      else if 240 \<le> b0 \<and> b0 < 245 then
        (case bs of
           b1 # b2 # b3 # _ \<Rightarrow>
             if second_ok b0 b1 \<and> is_cont b2 \<and> is_cont b3
             then ((b0 - 240) * 262144 + (b1 - 128) * 4096 + (b2 - 128) * 64 + (b3 - 128), 4)
             else (rune_error, 1)
         | _ \<Rightarrow> (rune_error, 1))
      else (rune_error, 1))"

definition decode_rune :: "string \<Rightarrow> rune \<times> nat" where
  "decode_rune s = decode_bytes (map of_char (take 4 s))"

definition encode_bytes :: "rune \<Rightarrow> nat list" where
  "encode_bytes r0 =
     (let r = (if valid_rune r0 then r0 else rune_error) in
      if r < 128 then [r]
      else if r < 2048 then [192 + r div 64, 128 + r mod 64]
      else if r < 65536 then [224 + r div 4096, 128 + r div 64 mod 64, 128 + r mod 64]
      else [240 + r div 262144, 128 + r div 4096 mod 64, 128 + r div 64 mod 64, 128 + r mod 64])"

definition encode_rune :: "rune \<Rightarrow> string" where
  "encode_rune r = map char_of (encode_bytes r)"

fun runes_of :: "string \<Rightarrow> rune list" where
  "runes_of [] = []"
| "runes_of (c # cs) =
     (case decode_rune (c # cs) of (r, n) \<Rightarrow> r # runes_of (drop (n - 1) cs))"

definition string_of_runes :: "rune list \<Rightarrow> string" where
  "string_of_runes rs = concat (map encode_rune rs)"

text \<open>A string whose bytes survive the conversion to runes and back.\<close>

definition valid_utf8 :: "string \<Rightarrow> bool" where
  "valid_utf8 s \<longleftrightarrow> string_of_runes (runes_of s) = s"

definition ascii :: "string \<Rightarrow> bool" where
  "ascii s \<longleftrightarrow> (\<forall>c \<in> set s. of_char c < (128::nat))"

subsection \<open>Decoding inverts encoding\<close>

lemma of_char_char_of_less [simp]: "n < 256 \<Longrightarrow> of_char (char_of (n::nat)) = n"
  by simp

lemma valid_rune_error [simp]: "valid_rune rune_error"
  by (simp add: valid_rune_def)

lemma div64_bounds: "(r::nat) < 2048 \<Longrightarrow> r div 64 < 32" "(r::nat) < 65536 \<Longrightarrow> r div 4096 < 16"
    "(r::nat) < 1114112 \<Longrightarrow> r div 262144 < 5"
  by linarith+

lemma encode_bytes_less_256: "b \<in> set (encode_bytes r) \<Longrightarrow> b < 256"
  by (auto simp: encode_bytes_def Let_def valid_rune_def split: if_splits)

lemma div_4096: "(r::nat) div 4096 = r div 64 div 64"
  by (simp add: div_mult2_eq [symmetric])

lemma div_262144: "(r::nat) div 262144 = r div 64 div 64 div 64"
  by (simp add: div_mult2_eq [symmetric])

lemma rune_split3: "(r::nat) div 4096 * 4096 + r div 64 mod 64 * 64 + r mod 64 = r"
proof -
  define q where "q = r div 64"
  have "r = 64 * q + r mod 64" by (simp add: q_def)
  moreover have "q = 64 * (q div 64) + q mod 64" by simp
  ultimately show ?thesis unfolding div_4096 q_def [symmetric] by linarith
qed

lemma rune_split4:
  "(r::nat) div 262144 * 262144 + r div 4096 mod 64 * 4096 + r div 64 mod 64 * 64 + r mod 64 = r"
proof -
  define p where "p = r div 4096"
  have "p = 64 * (p div 64) + p mod 64" by simp
  moreover have "r div 262144 = p div 64" by (simp add: p_def div_mult2_eq [symmetric])
  moreover note rune_split3 [of r]
  ultimately show ?thesis unfolding p_def [symmetric] by linarith
qed

lemma second_ok_three:
  assumes "2048 \<le> r" "r < 65536" "valid_rune r"
  shows "second_ok (224 + r div 4096) (128 + r div 64 mod 64)"
proof -
  define q where "q = r div 64"
  have "32 \<le> q" "q < 1024" "q < 864 \<or> 896 \<le> q"
    using assms by (auto simp: q_def valid_rune_def)
  moreover have "q = 64 * (q div 64) + q mod 64" "q mod 64 < 64" by simp_all
  moreover have "q div 64 < 16" using \<open>q < 1024\<close> by linarith
  ultimately show ?thesis
    unfolding div_4096 q_def [symmetric] second_ok_def is_cont_def
    by (cases "q div 64 = 0"; cases "q div 64 = 13") auto
qed

lemma second_ok_four:
  assumes "65536 \<le> r" "r < 1114112"
  shows "second_ok (240 + r div 262144) (128 + r div 4096 mod 64)"
proof -
  define q where "q = r div 4096"
  have "16 \<le> q" "q < 272" using assms by (auto simp: q_def)
  moreover have "r div 262144 = q div 64" by (simp add: q_def div_mult2_eq [symmetric])
  moreover have "q = 64 * (q div 64) + q mod 64" "q mod 64 < 64" by simp_all
  moreover have "q div 64 < 5" using \<open>q < 272\<close> by linarith
  ultimately show ?thesis
    unfolding q_def [symmetric] second_ok_def is_cont_def
    by (cases "q div 64 = 0"; cases "q div 64 = 4") auto
qed

lemma decode_encode_bytes:
  assumes "valid_rune r"
  shows "decode_bytes (encode_bytes r @ bs) = (r, length (encode_bytes r))"
proof -
  consider (one) "r < 128" | (two) "128 \<le> r" "r < 2048" | (three) "2048 \<le> r" "r < 65536"
    | (four) "65536 \<le> r" "r < 1114112"
    using assms by (force simp: valid_rune_def)
  then show ?thesis
  proof cases
    case one
    with assms show ?thesis by (simp add: encode_bytes_def)
  next
    case two
    then have "2 \<le> r div 64" "r div 64 < 32" by linarith+
    with two assms show ?thesis by (simp add: encode_bytes_def is_cont_def)
  next
    case three
    note second_ok_three [OF three assms]
    moreover have "r div 4096 < 16" using three by linarith
    ultimately show ?thesis
      using three assms by (simp add: encode_bytes_def is_cont_def rune_split3)
  next
    case four
    note second_ok_four [OF four]
    moreover have "r div 262144 < 5" using four by linarith
    ultimately show ?thesis
      using four assms by (simp add: encode_bytes_def is_cont_def rune_split4)
  qed
qed

lemma encode_bytes_sanitize: "encode_bytes r = encode_bytes (if valid_rune r then r else rune_error)"
  by (simp add: encode_bytes_def)

lemma encode_bytes_length: "1 \<le> length (encode_bytes r)" "length (encode_bytes r) \<le> 4"
  by (simp_all add: encode_bytes_def Let_def)

lemma encode_rune_not_Nil [simp]: "encode_rune r \<noteq> []"
  using encode_bytes_length(1) [of r] by (auto simp: encode_rune_def)

lemma of_char_encode_rune: "map of_char (encode_rune r) = encode_bytes r"
  unfolding encode_rune_def by (simp add: map_idI encode_bytes_less_256)

lemma decode_encode_rune:
  "decode_rune (encode_rune r @ s) = ((if valid_rune r then r else rune_error), length (encode_rune r))"
proof -
  let ?r = "if valid_rune r then r else rune_error"
  have valid: "valid_rune ?r" by simp
  have len: "length (encode_rune r) = length (encode_bytes ?r)"
    by (simp add: encode_rune_def encode_bytes_sanitize [of r])
  have "length (encode_rune r) \<le> 4"
    using encode_bytes_length(2) [of r] by (simp add: encode_rune_def)
  then have "map of_char (take 4 (encode_rune r @ s)) =
      encode_bytes ?r @ map of_char (take (4 - length (encode_rune r)) s)"
    by (simp add: of_char_encode_rune encode_bytes_sanitize [of r])
  then show ?thesis
    using decode_encode_bytes [OF valid] len by (simp add: decode_rune_def del: if_splits)
qed

lemma runes_of_encode_append:
  "runes_of (encode_rune r @ s) = (if valid_rune r then r else rune_error) # runes_of s"
proof -
  obtain c cs where cs: "encode_rune r = c # cs"
    by (metis encode_rune_not_Nil neq_Nil_conv)
  have "decode_rune (c # cs @ s) = ((if valid_rune r then r else rune_error), length (c # cs))"
    using decode_encode_rune [of r s] cs by simp
  then show ?thesis by (simp add: cs)
qed

lemma string_of_runes_simps [simp]:
  "string_of_runes [] = []"
  "string_of_runes (r # rs) = encode_rune r @ string_of_runes rs"
  "string_of_runes (rs @ rs') = string_of_runes rs @ string_of_runes rs'"
  by (simp_all add: string_of_runes_def)

lemma runes_of_string_of_runes_append:
  "runes_of (string_of_runes rs @ s) =
     map (\<lambda>r. if valid_rune r then r else rune_error) rs @ runes_of s"
  by (induction rs) (simp_all add: runes_of_encode_append)

lemma runes_of_string_of_runes:
  "runes_of (string_of_runes rs) = map (\<lambda>r. if valid_rune r then r else rune_error) rs"
  using runes_of_string_of_runes_append [of rs "[]"] by simp

lemma runes_of_string_of_valid:
  "\<forall>r \<in> set rs. valid_rune r \<Longrightarrow> runes_of (string_of_runes rs) = rs"
  by (simp add: runes_of_string_of_runes map_idI)

lemma length_runes_of_string_of_runes [simp]: "length (runes_of (string_of_runes rs)) = length rs"
  by (simp add: runes_of_string_of_runes)

subsection \<open>ASCII strings\<close>

lemma decode_rune_ascii: "of_char c < (128::nat) \<Longrightarrow> decode_rune (c # cs) = (of_char c, 1)"
  by (simp add: decode_rune_def)

lemma runes_of_ascii_Cons: "of_char c < (128::nat) \<Longrightarrow> runes_of (c # cs) = of_char c # runes_of cs"
  by (simp add: decode_rune_ascii)

lemma runes_of_ascii: "ascii s \<Longrightarrow> runes_of s = map of_char s"
  by (induction s) (simp_all add: ascii_def runes_of_ascii_Cons del: runes_of.simps(2))

lemma encode_rune_ascii: "r < 128 \<Longrightarrow> encode_rune r = [char_of r]"
  by (simp add: encode_rune_def encode_bytes_def valid_rune_def)

lemma string_of_runes_ascii: "ascii s \<Longrightarrow> string_of_runes (map of_char s) = s"
  by (induction s) (simp_all add: ascii_def encode_rune_ascii)

lemma ascii_valid_utf8: "ascii s \<Longrightarrow> valid_utf8 s"
  by (simp add: valid_utf8_def runes_of_ascii string_of_runes_ascii)

lemma valid_utf8_string_of_runes [simp]: "valid_utf8 (string_of_runes rs)"
proof -
  have "encode_rune (if valid_rune r then r else rune_error) = encode_rune r" for r
    by (simp add: encode_rune_def encode_bytes_sanitize [of r])
  then have "string_of_runes (map (\<lambda>r. if valid_rune r then r else rune_error) rs) = string_of_runes rs"
    by (induction rs) simp_all
  then show ?thesis by (simp add: valid_utf8_def runes_of_string_of_runes)
qed

subsection \<open>Decoded runes are valid\<close>

lemma valid_rune_two: "194 \<le> b0 \<Longrightarrow> b0 < 224 \<Longrightarrow> is_cont b1 \<Longrightarrow> valid_rune ((b0 - 192) * 64 + (b1 - 128))"
  unfolding valid_rune_def is_cont_def by linarith

lemma valid_rune_three:
  assumes "224 \<le> b0" "b0 < 240" "second_ok b0 b1" "is_cont b2"
  shows "valid_rune ((b0 - 224) * 4096 + (b1 - 128) * 64 + (b2 - 128))"
proof (cases "b0 = 237")
  case True
  with assms have "b1 < 160" "b2 < 192" by (auto simp: second_ok_def is_cont_def)
  then show ?thesis unfolding valid_rune_def True by linarith
next
  case False
  with assms have "b1 < 192" "b2 < 192" by (auto simp: second_ok_def is_cont_def split: if_splits)
  then show ?thesis using assms(1,2) False by (cases "b0 < 237") (auto simp: valid_rune_def)
qed

lemma valid_rune_four:
  assumes "240 \<le> b0" "b0 < 245" "second_ok b0 b1" "is_cont b2" "is_cont b3"
  shows "valid_rune ((b0 - 240) * 262144 + (b1 - 128) * 4096 + (b2 - 128) * 64 + (b3 - 128))"
proof -
  have b: "b1 < 192" "128 \<le> b1" "b2 < 192" "b3 < 192" "b0 = 240 \<longrightarrow> 144 \<le> b1" "b0 = 244 \<longrightarrow> b1 < 144"
    using assms by (auto simp: second_ok_def is_cont_def split: if_splits)
  then have "57344 \<le> (b0 - 240) * 262144 + (b1 - 128) * 4096"
    using assms(1) by (cases "b0 = 240") auto
  moreover have "(b0 - 240) * 262144 + (b1 - 128) * 4096 + (b2 - 128) * 64 + (b3 - 128) < 1114112"
    using assms(1,2) b by (cases "b0 = 244") auto
  ultimately show ?thesis unfolding valid_rune_def by linarith
qed

lemma decode_bytes_valid: "valid_rune (fst (decode_bytes bs))"
proof (cases bs)
  case Nil
  then show ?thesis by simp
next
  case (Cons b0 t)
  consider "b0 < 128" | "194 \<le> b0" "b0 < 224" | "224 \<le> b0" "b0 < 240" | "240 \<le> b0" "b0 < 245"
    | "\<not> b0 < 128" "\<not> (194 \<le> b0 \<and> b0 < 224)" "\<not> (224 \<le> b0 \<and> b0 < 240)" "\<not> (240 \<le> b0 \<and> b0 < 245)"
    by blast
  then show ?thesis
  proof cases
    case 1
    then show ?thesis by (simp add: Cons valid_rune_def)
  next
    case 2
    then show ?thesis by (simp add: Cons valid_rune_two split: list.split)
  next
    case 3
    then show ?thesis by (simp add: Cons valid_rune_three split: list.split)
  next
    case 4
    then show ?thesis by (simp add: Cons valid_rune_four split: list.split)
  next
    case 5
    then show ?thesis unfolding Cons by (simp only: decode_bytes.simps if_False fst_conv valid_rune_error)
  qed
qed

lemma decode_bytes_small:
  assumes "decode_bytes (b0 # bs) = (r, n)" "r < 128"
  shows "r = b0"
proof (rule ccontr)
  assume "r \<noteq> b0"
  with assms have b0: "\<not> b0 < 128" by auto
  consider "194 \<le> b0" "b0 < 224" | "224 \<le> b0" "b0 < 240" | "240 \<le> b0" "b0 < 245"
    | "\<not> b0 < 128" "\<not> (194 \<le> b0 \<and> b0 < 224)" "\<not> (224 \<le> b0 \<and> b0 < 240)" "\<not> (240 \<le> b0 \<and> b0 < 245)"
    using b0 by blast
  then show False
  proof cases
    case 1
    with assms show False by (auto simp: is_cont_def split: list.splits if_splits)
  next
    case 2
    then have "128 \<le> (b0 - 224) * 4096 + (b1 - 128) * 64" if "second_ok b0 b1" for b1
      using that by (cases "b0 = 224") (auto simp: second_ok_def)
    with 2 assms show False by (fastforce split: list.splits if_splits)
  next
    case 3
    then have "128 \<le> (b0 - 240) * 262144 + (b1 - 128) * 4096" if "second_ok b0 b1" for b1
      using that by (cases "b0 = 240") (auto simp: second_ok_def)
    with 3 assms show False by (fastforce split: list.splits if_splits)
  next
    case 4
    then have "decode_bytes (b0 # bs) = (rune_error, 1)" by (simp only: decode_bytes.simps if_False)
    with assms show False by simp
  qed
qed

lemma small_rune_in_bytes: "r \<in> set (runes_of s) \<Longrightarrow> r < 128 \<Longrightarrow> char_of r \<in> set s"
proof (induction s rule: runes_of.induct)
  case 1
  then show ?case by simp
next
  case (2 c cs)
  obtain q n where q: "decode_rune (c # cs) = (q, n)" by fastforce
  then have "q < 128 \<Longrightarrow> q = of_char c"
    using decode_bytes_small [of "of_char c" "map of_char (take 3 cs)" q n]
    by (simp add: decode_rune_def del: decode_bytes.simps)
  moreover from 2 q have "r = q \<or> char_of r \<in> set (drop (n - 1) cs)" by auto
  ultimately show ?case using 2 in_set_dropD by fastforce
qed

lemma valid_rune_runes_of: "r \<in> set (runes_of s) \<Longrightarrow> valid_rune r"
proof (induction s rule: runes_of.induct)
  case 1
  then show ?case by simp
next
  case (2 c cs)
  have "valid_rune (fst (decode_rune (c # cs)))"
    by (simp add: decode_rune_def decode_bytes_valid del: decode_bytes.simps)
  with 2 show ?case by (cases "decode_rune (c # cs)") auto
qed

lemma runes_of_string_of_runes_of [simp]: "runes_of (string_of_runes (runes_of s)) = runes_of s"
  using runes_of_string_of_valid valid_rune_runes_of by blast

section \<open>The package strings\<close>

abbreviation has_prefix :: "string \<Rightarrow> string \<Rightarrow> bool" where
  "has_prefix s p \<equiv> prefix p s"

abbreviation has_suffix :: "string \<Rightarrow> string \<Rightarrow> bool" where
  "has_suffix s p \<equiv> suffix p s"

definition trim_prefix :: "string \<Rightarrow> string \<Rightarrow> string" where
  "trim_prefix s p = (if has_prefix s p then drop (length p) s else s)"

definition trim_suffix :: "string \<Rightarrow> string \<Rightarrow> string" where
  "trim_suffix s p = (if has_suffix s p then take (length s - length p) s else s)"

text \<open>\<open>strings.Index\<close>, \<open>strings.Contains\<close>, \<open>strings.LastIndex\<close>, \<open>strings.Cut\<close>.\<close>

fun index_of :: "string \<Rightarrow> string \<Rightarrow> nat option" where
  "index_of [] p = (if p = [] then Some 0 else None)"
| "index_of (c # cs) p =
     (if has_prefix (c # cs) p then Some 0 else map_option Suc (index_of cs p))"

definition str_contains :: "string \<Rightarrow> string \<Rightarrow> bool" where
  "str_contains s p = (index_of s p \<noteq> None)"

definition last_index_of :: "string \<Rightarrow> string \<Rightarrow> nat option" where
  "last_index_of s p = map_option (\<lambda>i. length s - length p - i) (index_of (rev s) (rev p))"

definition cut :: "string \<Rightarrow> string \<Rightarrow> string \<times> string \<times> bool" where
  "cut s sep = (case index_of s sep of
      Some i \<Rightarrow> (take i s, drop (i + length sep) s, True)
    | None \<Rightarrow> (s, [], False))"

definition contains_any :: "string \<Rightarrow> string \<Rightarrow> bool" where
  "contains_any s chars = list_ex (\<lambda>c. List.member chars c) s"

text \<open>\<open>strings.Split\<close> on a one-byte separator and \<open>strings.Join\<close>.\<close>

fun split_byte :: "char \<Rightarrow> string \<Rightarrow> string list" where
  "split_byte c [] = [[]]"
| "split_byte c (x # xs) =
     (if x = c then [] # split_byte c xs
      else (case split_byte c xs of [] \<Rightarrow> [[x]] | y # ys \<Rightarrow> (x # y) # ys))"

fun str_join :: "string \<Rightarrow> string list \<Rightarrow> string" where
  "str_join sep [] = []"
| "str_join sep [x] = x"
| "str_join sep (x # y # zs) = x @ sep @ str_join sep (y # zs)"

text \<open>\<open>strings.ReplaceAll\<close> for a non-empty pattern.\<close>

function replace_all :: "string \<Rightarrow> string \<Rightarrow> string \<Rightarrow> string" where
  "replace_all [] old new = []"
| "replace_all (c # cs) old new =
     (if old \<noteq> [] \<and> has_prefix (c # cs) old
      then new @ replace_all (drop (length old) (c # cs)) old new
      else c # replace_all cs old new)"
  by pat_completeness auto
termination
  by (relation "measure (\<lambda>(s, _, _). length s)") (auto simp: neq_Nil_conv)

text \<open>
  \<open>unicode.IsSpace\<close>, and \<open>strings.TrimSpace\<close>, which drops white space from both ends;
  the right end is read with \<open>utf8.DecodeLastRune\<close>, which looks back over at most three
  continuation bytes. \<open>strings.Fields\<close> splits around runs of white space.
\<close>

definition is_space :: "rune \<Rightarrow> bool" where
  "is_space r \<longleftrightarrow>
     (9 \<le> r \<and> r \<le> 13) \<or> r = 32 \<or> r = 133 \<or> r = 160 \<or> r = 5760 \<or> (8192 \<le> r \<and> r \<le> 8202)
     \<or> r = 8232 \<or> r = 8233 \<or> r = 8239 \<or> r = 8287 \<or> r = 12288"

function trim_left :: "string \<Rightarrow> string" where
  "trim_left [] = []"
| "trim_left (c # cs) =
     (case decode_rune (c # cs) of (r, n) \<Rightarrow>
        if is_space r then trim_left (drop (n - 1) cs) else c # cs)"
  by pat_completeness auto
termination
  by (relation "measure length") (auto simp: less_Suc_eq_le)

definition decode_last :: "string \<Rightarrow> rune \<times> nat" where
  "decode_last s = (case rev s of
      [] \<Rightarrow> (rune_error, 0)
    | c # pre \<Rightarrow>
        if of_char c < (128::nat) then (of_char c, 1)
        else
          (let k = length (takeWhile (\<lambda>b. is_cont (of_char b)) (take 3 pre)) in
           case drop k (take 3 pre) of
             [] \<Rightarrow> (rune_error, 1)
           | _ \<Rightarrow>
               (case decode_rune (drop (length s - 2 - k) s) of
                  (r, n) \<Rightarrow> if n = k + 2 then (r, n) else (rune_error, 1))))"

function trim_right :: "string \<Rightarrow> string" where
  "trim_right s =
     (if s = [] then []
      else (case decode_last s of (r, n) \<Rightarrow>
        if is_space r \<and> 0 < n then trim_right (take (length s - n) s) else s))"
  by pat_completeness auto
termination
  by (relation "measure length") auto

declare trim_right.simps [simp del]

definition trim_space :: "string \<Rightarrow> string" where
  "trim_space s = trim_right (trim_left s)"

function fields_from :: "string \<Rightarrow> string \<Rightarrow> string list" where
  "fields_from cur [] = (if cur = [] then [] else [cur])"
| "fields_from cur (c # cs) =
     (case decode_rune (c # cs) of (r, n) \<Rightarrow>
        if is_space r then (if cur = [] then [] else [cur]) @ fields_from [] (drop (n - 1) cs)
        else fields_from (cur @ take n (c # cs)) (drop (n - 1) cs))"
  by pat_completeness auto
termination
  by (relation "measure (\<lambda>(_, s). length s)") (auto simp: less_Suc_eq_le)

definition str_fields :: "string \<Rightarrow> string list" where
  "str_fields s = fields_from [] s"

text \<open>\<open>strings.TrimRight\<close> and \<open>TrimLeft\<close> with an ASCII cut set work byte by byte.\<close>

definition trim_right_set :: "string \<Rightarrow> string \<Rightarrow> string" where
  "trim_right_set s cutset = drop_tail (\<lambda>c. List.member cutset c) s"

definition trim_left_set :: "string \<Rightarrow> string \<Rightarrow> string" where
  "trim_left_set s cutset = dropWhile (\<lambda>c. List.member cutset c) s"

section \<open>The package strconv\<close>

fun digits :: "nat \<Rightarrow> string" where
  "digits n = (if n < 10 then [char_of (48 + n)] else digits (n div 10) @ [char_of (48 + n mod 10)])"

declare digits.simps [simp del]

definition itoa :: "int \<Rightarrow> string" where
  "itoa i = (if i < 0 then CHR ''-'' # digits (nat (- i)) else digits (nat i))"

definition is_digit :: "char \<Rightarrow> bool" where
  "is_digit c \<longleftrightarrow> 48 \<le> (of_char c :: nat) \<and> (of_char c :: nat) \<le> 57"

definition digits_value :: "string \<Rightarrow> int" where
  "digits_value s = foldl (\<lambda>v c. 10 * v + (of_char c - 48)) 0 s"

text \<open>
  \<open>strconv.Atoi\<close>: an optional sign, then at least one decimal digit and nothing else; a value
  outside the 64-bit range is an error (\<open>None\<close>).
\<close>

definition in_int64 :: "int \<Rightarrow> bool" where
  "in_int64 i \<longleftrightarrow> - (2 ^ 63) \<le> i \<and> i < 2 ^ 63"

definition atoi :: "string \<Rightarrow> int option" where
  "atoi s =
     (let (sgn, ds) = (case s of
          c # cs \<Rightarrow> if c = CHR ''-'' then (-1, cs) else if c = CHR ''+'' then (1, cs) else (1, s)
        | [] \<Rightarrow> (1, []))
      in if ds = [] \<or> \<not> list_all is_digit ds then None
         else let v = sgn * digits_value ds in if in_int64 v then Some v else None)"

subsection \<open>Facts about searching and splitting\<close>

lemma index_of_Some: "index_of s p = Some i \<Longrightarrow> i \<le> length s \<and> prefix p (drop i s)"
proof (induction s arbitrary: i)
  case Nil
  then show ?case by (auto split: if_splits)
next
  case (Cons c cs)
  then show ?case by (auto split: if_splits)
qed

lemma index_of_least: "index_of s p = Some i \<Longrightarrow> j < i \<Longrightarrow> \<not> prefix p (drop j s)"
proof (induction s arbitrary: i j)
  case Nil
  then show ?case by (auto split: if_splits)
next
  case (Cons c cs)
  then show ?case by (cases j) (auto split: if_splits)
qed

lemma index_of_None: "index_of s p = None \<longleftrightarrow> \<not> sublist p s"
  by (induction s) (auto simp: sublist_Cons_right)

lemma str_contains_iff [simp]: "str_contains s p \<longleftrightarrow> sublist p s"
  by (simp add: str_contains_def index_of_None)

lemma index_of_bound: "index_of s p = Some i \<Longrightarrow> i + length p \<le> length s"
  using index_of_Some [of s p i] by (auto dest: prefix_length_le)

lemma index_of_byte_not_in: "index_of s [c] = Some i \<Longrightarrow> c \<notin> set (take i s)"
proof (induction s arbitrary: i)
  case Nil
  then show ?case by simp
next
  case (Cons x xs)
  then show ?case by (auto split: if_splits)
qed

lemma index_of_append_byte: "c \<notin> set a \<Longrightarrow> index_of (a @ c # b) [c] = Some (length a)"
  by (induction a) auto

lemma index_of_byte_None: "index_of s [c] = None \<longleftrightarrow> c \<notin> set s"
  by (induction s) auto

lemma split_byte_not_Nil [simp]: "split_byte c s \<noteq> []"
  by (induction s) (auto split: list.split)

lemma split_byte_none: "c \<notin> set s \<Longrightarrow> split_byte c s = [s]"
  by (induction s) auto

lemma split_byte_append: "c \<notin> set a \<Longrightarrow> split_byte c (a @ c # b) = a # split_byte c b"
  by (induction a) auto

lemma join_split_byte [simp]: "str_join [c] (split_byte c s) = s"
proof (induction s)
  case Nil
  then show ?case by simp
next
  case (Cons x xs)
  obtain y ys where y: "split_byte c xs = y # ys"
    by (metis split_byte_not_Nil neq_Nil_conv)
  show ?case
  proof (cases "x = c")
    case True
    with Cons y show ?thesis by simp
  next
    case False
    with Cons y show ?thesis by (cases ys) simp_all
  qed
qed

lemma split_join_byte:
  "parts \<noteq> [] \<Longrightarrow> \<forall>p \<in> set parts. c \<notin> set p \<Longrightarrow> split_byte c (str_join [c] parts) = parts"
proof (induction "[c]" parts rule: str_join.induct)
  case 1
  then show ?case by simp
next
  case (2 x)
  then show ?case by (simp add: split_byte_none)
next
  case (3 x y zs)
  then show ?case by (simp add: split_byte_append)
qed

lemma length_split_byte: "length (split_byte c s) = Suc (count_list s c)"
  by (induction s) (auto split: list.split)

subsection \<open>Numbers\<close>

lemma digits_not_Nil [simp]: "digits n \<noteq> []"
  by (subst digits.simps) simp

lemma of_char_digit: "d < 10 \<Longrightarrow> of_char (char_of (48 + d :: nat)) = (48 + d :: nat)"
  by simp

lemma is_digit_digits: "list_all is_digit (digits n)"
proof (induction n rule: digits.induct)
  case (1 n)
  show ?case
  proof (cases "n < 10")
    case True
    then show ?thesis by (subst digits.simps) (simp add: is_digit_def)
  next
    case False
    have "n mod 10 < 10" by simp
    then have "is_digit (char_of (48 + n mod 10))" by (simp add: is_digit_def)
    with 1 False show ?thesis by (subst digits.simps) simp
  qed
qed

lemma digits_value_append: "digits_value (s @ [c]) = 10 * digits_value s + (of_char c - 48)"
  by (simp add: digits_value_def)

lemma of_char_int: "(of_char c :: int) = int (of_char c)"
  by (rule of_nat_of_char [symmetric])

lemma digits_value_digits [simp]: "digits_value (digits n) = int n"
proof (induction n rule: digits.induct)
  case (1 n)
  show ?case
  proof (cases "n < 10")
    case True
    then show ?thesis
      by (subst digits.simps) (simp add: digits_value_def of_char_int)
  next
    case False
    have "n mod 10 < 10" by simp
    then have "(of_char (char_of (48 + n mod 10)) :: int) = 48 + int (n mod 10)"
      unfolding of_char_int by simp
    with 1 False show ?thesis
      by (subst digits.simps) (simp add: digits_value_append zmod_int zdiv_int)
  qed
qed

lemma digits_hd: "hd (digits n) \<noteq> CHR ''-''" "hd (digits n) \<noteq> CHR ''+''"
  using is_digit_digits [of n] by (cases "digits n"; force simp: is_digit_def)+

theorem atoi_itoa: "in_int64 i \<Longrightarrow> atoi (itoa i) = Some i"
proof -
  assume i: "in_int64 i"
  show ?thesis
  proof (cases "i < 0")
    case True
    with i show ?thesis by (simp add: atoi_def itoa_def is_digit_digits)
  next
    case False
    obtain c cs where cs: "digits (nat i) = c # cs" by (metis digits_not_Nil neq_Nil_conv)
    then have "c \<noteq> CHR ''-''" "c \<noteq> CHR ''+''" using digits_hd [of "nat i"] by auto
    with i False cs is_digit_digits [of "nat i"] digits_value_digits [of "nat i"] show ?thesis
      by (simp add: atoi_def itoa_def)
  qed
qed

subsection \<open>Trimming\<close>

lemma trim_left_id:
  "of_char c < (128::nat) \<Longrightarrow> \<not> is_space (of_char c) \<Longrightarrow> trim_left (c # cs) = c # cs"
  by (simp add: decode_rune_ascii)

lemma trim_right_id:
  "of_char c < (128::nat) \<Longrightarrow> \<not> is_space (of_char c) \<Longrightarrow> trim_right (cs @ [c]) = cs @ [c]"
  by (subst trim_right.simps) (simp add: decode_last_def)

lemma trim_space_id:
  assumes "s \<noteq> []" "\<forall>c \<in> {hd s, last s}. of_char c < (128::nat) \<and> \<not> is_space (of_char c)"
  shows "trim_space s = s"
proof -
  have "trim_left s = s"
    using assms by (cases s) (simp_all add: trim_left_id del: trim_left.simps)
  moreover have "trim_right s = s"
    using assms trim_right_id [of "last s" "butlast s"] by simp
  ultimately show ?thesis by (simp add: trim_space_def)
qed

subsection \<open>Words\<close>

definition plain_word :: "string \<Rightarrow> bool" where
  "plain_word w \<longleftrightarrow> w \<noteq> [] \<and> list_all (\<lambda>c. of_char c < (128::nat) \<and> \<not> is_space (of_char c)) w"

lemma fields_from_word:
  "list_all (\<lambda>c. of_char c < (128::nat) \<and> \<not> is_space (of_char c)) w \<Longrightarrow>
     fields_from cur (w @ s) = fields_from (cur @ w) s"
  by (induction w arbitrary: cur) (simp_all add: decode_rune_ascii)

lemma is_space_blank: "is_space 32" "is_space 9"
  by (simp_all add: is_space_def)

lemma fields_words: "list_all plain_word ws \<Longrightarrow> str_fields (str_join '' '' ws) = ws"
proof (induction ws rule: induct_list012)
  case (3 w v ws)
  have "str_fields (w @ '' '' @ str_join '' '' (v # ws)) = w # str_fields (str_join '' '' (v # ws))"
    using 3(3) by (simp add: str_fields_def plain_word_def fields_from_word decode_rune_ascii is_space_blank)
  then show ?case using 3 by simp
qed (simp_all add: str_fields_def plain_word_def fields_from_word [of _ "[]" "[]", simplified])

text \<open>Trimming on the right stops at an ASCII byte that is no white space.\<close>

lemma decode_last_within:
  assumes "rest \<noteq> []" "w \<noteq> []" "of_char (last w) < (128::nat)"
  shows "snd (decode_last (w @ rest)) \<le> length rest"
proof -
  obtain c pre where c: "rev rest = c # pre" using assms(1) by (cases "rev rest") auto
  then have len: "length rest = Suc (length pre)" by (metis length_Cons length_rev)
  obtain v ws where v: "rev w = v # ws" using assms(2) by (cases "rev w") auto
  then have last: "last w = v" by (metis last_rev rev_rev_ident list.sel(1) hd_rev assms(2))
  let ?t = "take 3 (pre @ v # ws)"
  let ?k = "length (takeWhile (\<lambda>b. is_cont (of_char b)) ?t)"
  have nv: "\<not> is_cont (of_char v)" using assms(3) last by (simp add: is_cont_def)
  have k: "?k \<le> length pre"
  proof -
    have "takeWhile (\<lambda>b. is_cont (of_char b)) ?t = takeWhile (\<lambda>b. is_cont (of_char b)) (take 3 pre @ take (3 - length pre) (v # ws))" by simp
    also have "length \<dots> \<le> length (take 3 pre)"
      using nv length_takeWhile_le [of "\<lambda>b. is_cont (of_char b)" "take 3 pre"]
      by (cases "3 - length pre") (auto simp: takeWhile_append)
    finally show ?thesis by simp
  qed
  have r: "rev (w @ rest) = c # (pre @ v # ws)" using c v by simp
  have dl: "decode_last (w @ rest) = (if of_char c < (128::nat) then (of_char c, 1)
        else case drop ?k ?t of [] \<Rightarrow> (rune_error, 1)
           | _ \<Rightarrow> (case decode_rune (drop (length (w @ rest) - 2 - ?k) (w @ rest)) of
                  (r, n) \<Rightarrow> if n = ?k + 2 then (r, n) else (rune_error, 1)))"
    unfolding decode_last_def r list.case Let_def by (rule refl)
  show ?thesis
  proof (cases "?k = length pre")
    case False
    then show ?thesis unfolding dl using k len by (auto split: list.split prod.split)
  next
    case True
    have "w = butlast w @ [v]" using last assms(2) by (metis append_butlast_last_id)
    then have "drop (length w - 1) (w @ rest) = v # rest"
      using assms(2) by (metis append.assoc append_Cons append_Nil append_eq_conv_conj length_butlast)
    moreover have "length (w @ rest) - 2 - ?k = length w - 1" using True len assms(2) by (cases w) auto
    ultimately have "decode_rune (drop (length (w @ rest) - 2 - ?k) (w @ rest)) = (of_char v, 1)"
      using assms(3) last by (simp add: decode_rune_ascii)
    then show ?thesis unfolding dl using len by (auto split: list.split)
  qed
qed

lemma trim_right_stops:
  assumes w: "w \<noteq> []" "of_char (last w) < (128::nat)" "\<not> is_space (of_char (last w))"
  shows "\<exists>r'. trim_right (w @ rest) = w @ r' \<and> prefix r' rest"
proof (induction "length rest" arbitrary: rest rule: less_induct)
  case less
  show ?case
  proof (cases "rest = []")
    case True
    then show ?thesis using trim_right_id [of "last w" "butlast w"] w by simp
  next
    case False
    obtain r n where rn: "decode_last (w @ rest) = (r, n)" by fastforce
    then have n: "n \<le> length rest" using decode_last_within [OF False w(1,2)] by simp
    show ?thesis
    proof (cases "is_space r \<and> 0 < n")
      case False
      then show ?thesis using rn w(1) by (subst trim_right.simps) auto
    next
      case True
      then have "trim_right (w @ rest) = trim_right (w @ take (length rest - n) rest)"
        using rn w(1) n by (subst trim_right.simps) simp
      moreover have "length (take (length rest - n) rest) < length rest" using True False by (cases rest) auto
      ultimately show ?thesis
        using less(1) [of "take (length rest - n) rest"] take_is_prefix [of "length rest - n" rest]
        by (metis prefix_order.order_trans)
    qed
  qed
qed

lemma set_itoa: "c \<in> set (itoa i) \<Longrightarrow> is_digit c \<or> c = CHR ''-''"
  using is_digit_digits by (auto simp: itoa_def list.pred_set split: if_splits)

lemma itoa_not_Nil [simp]: "itoa i \<noteq> []"
  by (simp add: itoa_def)

lemma trim_space_itoa: "trim_space (itoa i) = itoa i"
proof (rule trim_space_id)
  have "of_char c < (128::nat) \<and> \<not> is_space (of_char c)" if "c \<in> set (itoa i)" for c
    using set_itoa [OF that] by (auto simp: is_digit_def is_space_def)
  then show "\<forall>c \<in> {hd (itoa i), last (itoa i)}. of_char c < (128::nat) \<and> \<not> is_space (of_char c)"
    by simp
qed simp

end
