(* ===== verification/Keys.thy ===== *)
theory Keys
  imports Go_Strings
begin

text \<open>
  \<^verbatim>\<open>shell/internal/term/keys.go\<close>, the decoder of key strokes, and \<open>nextKey\<close> of
  \<^verbatim>\<open>shell/internal/term/editor.go\<close>, which feeds it the bytes of successive reads. Bytes are
  compared by their numbers: 27 is ESC, 126 the tilde, 48 to 57 the digits.
\<close>

section \<open>The decoder\<close>

datatype key_type =
    KeyRune | KeyCtrlA | KeyCtrlB | KeyCtrlC | KeyCtrlD | KeyCtrlE | KeyCtrlF | KeyCtrlR | KeyCtrlU
  | KeyCtrlW | KeyTab | KeyEnter | KeyBackspace | KeyDelete | KeyHome | KeyEnd | KeyUp | KeyDown
  | KeyLeft | KeyRight | KeyEsc | KeyUnknown

record key =
  key_type :: key_type
  key_rune :: rune

abbreviation plain_key :: "key_type \<Rightarrow> key" where
  "plain_key t \<equiv> \<lparr>key_type = t, key_rune = 0\<rparr>"

text \<open>Every decoder returns the key, the bytes consumed and the flag of a complete key.\<close>

type_synonym decoded = "key \<times> nat \<times> bool"

abbreviation incomplete :: decoded where
  "incomplete \<equiv> (plain_key KeyRune, 0, False)"

text \<open>The finals that \<open>ESC [\<close> and \<open>ESC O\<close> share.\<close>

definition arrow_final :: "nat \<Rightarrow> key_type option" where
  "arrow_final b =
     (if b = 65 then Some KeyUp else if b = 66 then Some KeyDown
      else if b = 67 then Some KeyRight else if b = 68 then Some KeyLeft
      else if b = 72 then Some KeyHome else if b = 70 then Some KeyEnd else None)"

definition is_digit_byte :: "nat \<Rightarrow> bool" where
  "is_digit_byte b \<longleftrightarrow> 48 \<le> b \<and> b \<le> 57"

text \<open>The scan of \<open>decodeCSI\<close> for the tilde, from index \<open>i\<close> on; \<open>p\<close> is the first digit.\<close>

fun csi_scan :: "nat \<Rightarrow> nat \<Rightarrow> nat list \<Rightarrow> decoded" where
  "csi_scan p i [] = incomplete"
| "csi_scan p i (b # bs) =
     (if b = 126 then
        (if p = 49 \<or> p = 55 then (plain_key KeyHome, i + 1, True)
         else if p = 52 \<or> p = 56 then (plain_key KeyEnd, i + 1, True)
         else if p = 51 then (plain_key KeyDelete, i + 1, True)
         else (plain_key KeyUnknown, i + 1, True))
      else if b < 48 \<or> 57 < b then (plain_key KeyUnknown, i + 1, True)
      else csi_scan p (i + 1) bs)"

definition decode_csi :: "string \<Rightarrow> decoded" where
  "decode_csi buf =
     (if length buf < 3 then incomplete
      else
        (let b = of_char (buf ! 2) in
         case arrow_final b of
           Some t \<Rightarrow> (plain_key t, 3, True)
         | None \<Rightarrow>
             if is_digit_byte b then csi_scan b 3 (map of_char (drop 3 buf))
             else (plain_key KeyUnknown, 3, True)))"

definition decode_ss3 :: "string \<Rightarrow> decoded" where
  "decode_ss3 buf =
     (if length buf < 3 then incomplete
      else (case arrow_final (of_char (buf ! 2)) of
          Some t \<Rightarrow> (plain_key t, 3, True)
        | None \<Rightarrow> (plain_key KeyUnknown, 3, True)))"

definition decode_escape :: "string \<Rightarrow> decoded" where
  "decode_escape buf =
     (if length buf < 2 then incomplete
      else if buf ! 1 = CHR ''['' then decode_csi buf
      else if buf ! 1 = CHR ''O'' then decode_ss3 buf
      else (plain_key KeyEsc, 1, True))"

definition control_key :: "nat \<Rightarrow> key_type option" where
  "control_key b =
     (if b = 1 then Some KeyCtrlA else if b = 2 then Some KeyCtrlB else if b = 3 then Some KeyCtrlC
      else if b = 4 then Some KeyCtrlD else if b = 5 then Some KeyCtrlE else if b = 6 then Some KeyCtrlF
      else if b = 8 then Some KeyBackspace else if b = 9 then Some KeyTab
      else if b = 10 \<or> b = 13 then Some KeyEnter else if b = 18 then Some KeyCtrlR
      else if b = 21 then Some KeyCtrlU else if b = 23 then Some KeyCtrlW
      else if b = 127 then Some KeyBackspace else None)"

definition decode_key :: "string \<Rightarrow> decoded" where
  "decode_key buf =
     (if buf = [] then incomplete
      else
        (let b = of_char (hd buf) in
         case control_key b of
           Some t \<Rightarrow> (plain_key t, 1, True)
         | None \<Rightarrow>
             if b = 27 then decode_escape buf
             else
               (case decode_rune buf of
                  (r, sz) \<Rightarrow>
                    if r = rune_error \<and> sz \<le> 1 then (plain_key KeyUnknown, 1, True)
                    else (\<lparr>key_type = KeyRune, key_rune = r\<rparr>, sz, True))))"

section \<open>nextKey\<close>

text \<open>
  The input is the list of what successive \<open>Read\<close> calls deliver: bytes and possibly an error.
  After the last of them the input is at its end.
\<close>

datatype io_error = Eof | Read_failed string

type_synonym stdin = "(string \<times> io_error option) list"

function next_key :: "string \<Rightarrow> stdin \<Rightarrow> (io_error + key) \<times> string \<times> stdin" where
  "next_key readBuf inp =
     (case decode_key readBuf of
        (k, n, ok) \<Rightarrow>
          if readBuf \<noteq> [] \<and> ok then (Inr k, drop n readBuf, inp)
          else
            (let rd = (case inp of [] \<Rightarrow> ([], Some Eof) | r # _ \<Rightarrow> r);
                 rest = tl inp;
                 readBuf' = readBuf @ fst rd
             in case snd rd of
                  None \<Rightarrow> next_key readBuf' rest
                | Some e \<Rightarrow>
                    if readBuf' = [] then (Inl e, readBuf', rest)
                    else
                      (case decode_key readBuf' of
                         (k', n', ok') \<Rightarrow>
                           if ok' then (Inr k', drop n' readBuf', rest) else (Inl e, readBuf', rest))))"
  by pat_completeness auto
termination
  by (relation "measure (\<lambda>(_, inp). length inp)") (auto split: list.splits)

declare next_key.simps [simp del]

text \<open>Reading \<open>n\<close> keys one after the other; an error ends it.\<close>

fun read_keys :: "nat \<Rightarrow> string \<Rightarrow> stdin \<Rightarrow> (key list \<times> io_error option) \<times> string \<times> stdin" where
  "read_keys 0 readBuf inp = (([], None), readBuf, inp)"
| "read_keys (Suc n) readBuf inp =
     (case next_key readBuf inp of
        (Inl e, rb, rest) \<Rightarrow> (([], Some e), rb, rest)
      | (Inr k, rb, rest) \<Rightarrow>
          (case read_keys n rb rest of ((ks, e), r) \<Rightarrow> ((k # ks, e), r)))"

section \<open>What the decoder consumes\<close>

lemma decode_bytes_take: "decode_bytes (take 4 bs) = decode_bytes bs"
proof (cases bs)
  case (Cons b0 t)
  then show ?thesis
    by (cases t; cases "tl t"; cases "tl (tl t)") simp_all
qed simp

lemma decode_rune_bytes: "decode_rune s = decode_bytes (map of_char s)"
  unfolding decode_rune_def take_map [symmetric] by (rule decode_bytes_take)

lemma decode_bytes_size: "bs \<noteq> [] \<Longrightarrow> 1 \<le> snd (decode_bytes bs) \<and> snd (decode_bytes bs) \<le> length bs"
  by (cases bs) (simp_all split: list.split)

lemma decode_bytes_append:
  assumes "decode_bytes bs = (r, n)" "bs \<noteq> []" "\<not> (r = rune_error \<and> n \<le> 1)"
  shows "decode_bytes (bs @ zs) = (r, n)"
proof -
  obtain b0 t where bs: "bs = b0 # t" using assms(2) by (cases bs) auto
  consider "b0 < 128" | "194 \<le> b0" "b0 < 224" | "224 \<le> b0" "b0 < 240" | "240 \<le> b0" "b0 < 245"
    | "\<not> b0 < 128" "\<not> (194 \<le> b0 \<and> b0 < 224)" "\<not> (224 \<le> b0 \<and> b0 < 240)" "\<not> (240 \<le> b0 \<and> b0 < 245)"
    by blast
  then show ?thesis
  proof cases
    case 1
    with assms show ?thesis by (simp add: bs)
  next
    case 2
    with assms show ?thesis by (auto simp: bs split: list.splits if_splits)
  next
    case 3
    with assms show ?thesis by (auto simp: bs split: list.splits if_splits)
  next
    case 4
    with assms show ?thesis by (auto simp: bs split: list.splits if_splits)
  next
    case 5
    then have "decode_bytes bs = (rune_error, 1)" unfolding bs by (simp only: decode_bytes.simps if_False)
    with assms show ?thesis by simp
  qed
qed

lemma decode_bytes_truncated:
  assumes "valid_rune r" "encode_bytes r = a @ b" "a \<noteq> []" "b \<noteq> []"
  shows "decode_bytes a = (rune_error, 1)"
proof -
  obtain b0 t where a: "a = b0 # t" using assms(3) by (cases a) auto
  consider (one) "r < 128" | (two) "128 \<le> r" "r < 2048" | (three) "2048 \<le> r" "r < 65536"
    | (four) "65536 \<le> r" "r < 1114112"
    using assms(1) by (force simp: valid_rune_def)
  then show ?thesis
  proof cases
    case one
    with assms a show ?thesis by (auto simp: encode_bytes_def)
  next
    case two
    then have "2 \<le> r div 64" "r div 64 < 32" by linarith+
    with two assms a show ?thesis by (auto simp: encode_bytes_def Cons_eq_append_conv)
  next
    case three
    then have "r div 4096 < 16" by linarith
    with three assms a show ?thesis by (auto simp: encode_bytes_def Cons_eq_append_conv)
  next
    case four
    then have "r div 262144 < 5" by linarith
    with four assms a show ?thesis by (auto simp: encode_bytes_def Cons_eq_append_conv)
  qed
qed

lemma csi_scan_shape:
  "csi_scan p i bs = (k, n, ok) \<Longrightarrow>
     (if ok then i < n \<and> n \<le> i + length bs else (k, n, ok) = incomplete)"
proof (induction bs arbitrary: i)
  case Nil
  then show ?case by auto
next
  case (Cons b bs)
  then show ?case by (fastforce split: if_splits)
qed

lemma csi_scan_append:
  "csi_scan p i bs = (k, n, True) \<Longrightarrow> csi_scan p i (bs @ zs) = (k, n, True)"
  by (induction bs arbitrary: i) (auto split: if_splits)

lemma decode_escape_shape:
  "decode_escape buf = (k, n, ok) \<Longrightarrow>
     (if ok then 1 \<le> n \<and> n \<le> length buf else (k, n, ok) = incomplete)"
  by (auto simp: decode_escape_def decode_csi_def decode_ss3_def Let_def
      split: if_splits option.splits dest!: csi_scan_shape)

lemma decode_escape_append:
  "decode_escape buf = (k, n, True) \<Longrightarrow> decode_escape (buf @ zs) = (k, n, True)"
  by (auto simp: decode_escape_def decode_csi_def decode_ss3_def Let_def nth_append drop_append
      csi_scan_append split: if_splits option.splits)

lemma control_key_27 [simp]: "control_key 27 = None"
  by (simp add: control_key_def)

lemma of_char_27 [simp]: "of_char c = (27::nat) \<longleftrightarrow> c = CHR 0x1B"
proof -
  have "of_char (CHR 0x1B) = (27::nat)" by simp
  then show ?thesis by (metis of_char_eq_iff)
qed

lemma decode_key_shape:
  assumes "decode_key buf = (k, n, ok)"
  shows "if ok then 1 \<le> n \<and> n \<le> length buf
     else (k, n, ok) = incomplete \<and> (buf = [] \<or> hd buf = CHR 0x1B)"
proof (cases buf)
  case Nil
  with assms show ?thesis by (simp add: decode_key_def)
next
  case (Cons c cs)
  have "1 \<le> snd (decode_rune buf) \<and> snd (decode_rune buf) \<le> length buf"
    using decode_bytes_size [of "map of_char buf"] Cons by (simp add: decode_rune_bytes)
  with assms Cons show ?thesis
    by (auto simp: decode_key_def Let_def split: if_splits option.splits prod.splits
        dest!: decode_escape_shape)
qed

text \<open>More input does not change a key that was complete, a truncated rune apart.\<close>

lemma decode_key_append:
  assumes "decode_key buf = (k, n, True)" "key_type k = KeyUnknown \<longrightarrow> hd buf = CHR 0x1B"
  shows "decode_key (buf @ zs) = (k, n, True)"
proof -
  have "buf \<noteq> []" using assms(1) by (auto simp: decode_key_def)
  have "decode_rune (buf @ zs) = decode_rune buf"
    if "\<not> (fst (decode_rune buf) = rune_error \<and> snd (decode_rune buf) \<le> 1)"
    using decode_bytes_append [of "map of_char buf" "fst (decode_rune buf)" "snd (decode_rune buf)" "map of_char zs"]
      that \<open>buf \<noteq> []\<close> by (simp add: decode_rune_bytes)
  with assms \<open>buf \<noteq> []\<close> show ?thesis
    by (cases "control_key (of_char (hd buf))"; cases "decode_rune buf")
      (auto simp: decode_key_def Let_def decode_escape_append split: if_splits)
qed

section \<open>Bytes of the keys\<close>

text \<open>
  What a terminal sends for a key: the arrows, Home and End in their \<open>ESC [\<close> form, Delete with
  the tilde. \<open>KeyEsc\<close> has no encoding of its own: a lone ESC is the start of a sequence.
\<close>

definition key_bytes :: "key \<Rightarrow> string" where
  "key_bytes k =
     (case key_type k of
        KeyRune \<Rightarrow> encode_rune (key_rune k)
      | KeyCtrlA \<Rightarrow> [CHR 0x01] | KeyCtrlB \<Rightarrow> [CHR 0x02] | KeyCtrlC \<Rightarrow> [CHR 0x03] | KeyCtrlD \<Rightarrow> [CHR 0x04]
      | KeyCtrlE \<Rightarrow> [CHR 0x05] | KeyCtrlF \<Rightarrow> [CHR 0x06] | KeyCtrlR \<Rightarrow> [CHR 0x12] | KeyCtrlU \<Rightarrow> [CHR 0x15]
      | KeyCtrlW \<Rightarrow> [CHR 0x17] | KeyTab \<Rightarrow> [CHR 0x09] | KeyEnter \<Rightarrow> [CHR 0x0D] | KeyBackspace \<Rightarrow> [CHR 0x7F]
      | KeyDelete \<Rightarrow> CHR 0x1B # ''[3~'' | KeyHome \<Rightarrow> CHR 0x1B # ''[H'' | KeyEnd \<Rightarrow> CHR 0x1B # ''[F''
      | KeyUp \<Rightarrow> CHR 0x1B # ''[A'' | KeyDown \<Rightarrow> CHR 0x1B # ''[B''
      | KeyRight \<Rightarrow> CHR 0x1B # ''[C'' | KeyLeft \<Rightarrow> CHR 0x1B # ''[D''
      | KeyEsc \<Rightarrow> [] | KeyUnknown \<Rightarrow> [])"

text \<open>The keys with an encoding; a typed rune is a valid one that is not a bound control byte.\<close>

definition key_sendable :: "key \<Rightarrow> bool" where
  "key_sendable k =
     (case key_type k of
        KeyEsc \<Rightarrow> False
      | KeyUnknown \<Rightarrow> False
      | KeyRune \<Rightarrow> valid_rune (key_rune k) \<and> key_rune k \<noteq> 27 \<and> control_key (key_rune k) = None
      | _ \<Rightarrow> key_rune k = 0)"

definition key_ascii :: "key \<Rightarrow> bool" where
  "key_ascii k \<longleftrightarrow> key_rune k < 128"

lemma encode_bytes_first: "128 \<le> r \<Longrightarrow> 194 \<le> hd (encode_bytes r)"
  by (auto simp: encode_bytes_def Let_def)

lemma encode_rune_first: "128 \<le> r \<Longrightarrow> 194 \<le> (of_char (hd (encode_rune r)) :: nat)"
  using encode_bytes_first [of r] of_char_encode_rune [of r] encode_rune_not_Nil [of r]
  by (metis hd_map)

lemma control_key_high: "128 \<le> b \<Longrightarrow> control_key b = None"
  by (simp add: control_key_def)

lemma length_encode_rune_error: "length (encode_rune rune_error) = 3"
  by code_simp

lemma decode_key_rune:
  assumes "valid_rune r" "r \<noteq> 27" "control_key r = None"
  shows "decode_key (encode_rune r @ rest) = (\<lparr>key_type = KeyRune, key_rune = r\<rparr>, length (encode_rune r), True)"
proof -
  let ?b = "of_char (hd (encode_rune r)) :: nat"
  have "control_key ?b = None \<and> ?b \<noteq> 27"
    using assms encode_rune_first [of r] by (cases "r < 128") (auto simp: encode_rune_ascii control_key_high)
  moreover have "decode_rune (encode_rune r @ rest) = (r, length (encode_rune r))"
    using assms(1) by (simp add: decode_encode_rune)
  ultimately show ?thesis
    using length_encode_rune_error by (auto simp: decode_key_def Let_def)
qed

lemma decode_key_bytes:
  assumes "key_sendable k"
  shows "decode_key (key_bytes k @ rest) = (k, length (key_bytes k), True)"
proof -
  have k: "k = \<lparr>key_type = key_type k, key_rune = key_rune k\<rparr>" by simp
  show ?thesis
  proof (cases "key_type k = KeyRune")
    case True
    with assms decode_key_rune [of "key_rune k" rest] k show ?thesis
      by (simp add: key_sendable_def key_bytes_def)
  next
    case False
    then have "k = plain_key (key_type k)" "key_type k \<noteq> KeyEsc" "key_type k \<noteq> KeyUnknown"
      using assms by (auto simp: key_sendable_def split: key_type.splits)
    with False show ?thesis
      by (cases "key_type k")
        (auto simp: key_bytes_def decode_key_def control_key_def decode_escape_def decode_csi_def
          arrow_final_def is_digit_byte_def Let_def)
  qed
qed

lemma key_bytes_not_Nil: "key_sendable k \<Longrightarrow> key_bytes k \<noteq> []"
  by (auto simp: key_sendable_def key_bytes_def split: key_type.splits)

text \<open>Cut short, an ASCII key or an escape sequence is never taken for another key.\<close>

lemma decode_key_cut:
  assumes "key_sendable k" "key_ascii k" "key_bytes k = a @ b" "b \<noteq> []"
  shows "\<not> snd (snd (decode_key a))"
proof (cases "a = []")
  case True
  then show ?thesis by (simp add: decode_key_def)
next
  case False
  then have "1 < length (key_bytes k)" using assms(3,4) by (cases a; cases b) auto
  then have "\<exists>f. key_bytes k = CHR 0x1B # CHR ''['' # [f] \<or> key_bytes k = CHR 0x1B # ''[3~''"
    using assms(1,2)
    by (auto simp: key_sendable_def key_bytes_def key_ascii_def encode_rune_ascii split: key_type.splits)
  then have "a = [CHR 0x1B] \<or> a = CHR 0x1B # ''['' \<or> a = CHR 0x1B # ''[3''"
    using assms(3,4) False by (auto simp: Cons_eq_append_conv append_eq_Cons_conv)
  then show ?thesis
    by (elim disjE)
      (simp_all add: decode_key_def decode_escape_def decode_csi_def Let_def arrow_final_def is_digit_byte_def)
qed

section \<open>Keys across reads\<close>

abbreviation no_errors :: "stdin \<Rightarrow> bool" where
  "no_errors inp \<equiv> list_all (\<lambda>r. snd r = None) inp"

abbreviation pending_bytes :: "string \<Rightarrow> stdin \<Rightarrow> string" where
  "pending_bytes rb inp \<equiv> rb @ concat (map fst inp)"

lemma next_key_ready: "decode_key rb = (k, n, True) \<Longrightarrow> next_key rb inp = (Inr k, drop n rb, inp)"
  by (cases "rb = []") (auto simp: next_key.simps [of rb] decode_key_def)

lemma read_keys_end:
  "read_keys n rb inp = ((ks, None), rb', inp') \<Longrightarrow> next_key rb' inp' = (Inl e, s) \<Longrightarrow>
     read_keys (Suc n) rb inp = ((ks, Some e), s)"
proof (induction n arbitrary: rb inp ks)
  case 0
  then show ?case by (cases s) simp
next
  case (Suc n)
  then obtain k rb1 inp1 where first: "next_key rb inp = (Inr k, rb1, inp1)"
    by (auto split: prod.splits sum.splits)
  with Suc.prems obtain ks' where "read_keys n rb1 inp1 = ((ks', None), rb', inp')" "ks = k # ks'"
    by (auto split: prod.splits)
  with Suc.IH [of rb1 inp1 ks'] Suc.prems(2) have "read_keys (Suc n) rb1 inp1 = ((ks', Some e), s)" by simp
  with first \<open>ks = k # ks'\<close> show ?case by (simp only: read_keys.simps(2) [of "Suc n"]) simp
qed

lemma next_key_delivers:
  assumes "key_sendable k" "key_ascii k"
  shows "pending_bytes rb inp = key_bytes k @ tail \<Longrightarrow> no_errors inp \<Longrightarrow>
     \<exists>rb' inp'. next_key rb inp = (Inr k, rb', inp') \<and> pending_bytes rb' inp' = tail \<and> no_errors inp'"
proof (induction inp arbitrary: rb)
  case Nil
  then show ?case
    using next_key_ready [OF decode_key_bytes [OF assms(1), of tail]] by simp
next
  case (Cons r inp)
  show ?case
  proof (cases "length (key_bytes k) \<le> length rb")
    case True
    then obtain x where rb: "rb = key_bytes k @ x"
      using Cons.prems(1) by (metis append_eq_append_conv_if append_eq_conv_conj)
    then have "pending_bytes x (r # inp) = tail" using Cons.prems(1) by simp
    then show ?thesis
      using next_key_ready [OF decode_key_bytes [OF assms(1), of x]] rb Cons.prems(2) by simp
  next
    case False
    then have "key_bytes k = rb @ drop (length rb) (key_bytes k)"
      using Cons.prems(1) by (metis append_eq_append_conv_if append_take_drop_id nat_le_linear)
    then have "\<not> snd (snd (decode_key rb))"
      using decode_key_cut [OF assms, of rb] False by simp
    then have "next_key rb (r # inp) = next_key (rb @ fst r) inp"
      using Cons.prems(2) by (auto simp: next_key.simps [of rb] split: prod.split)
    with Cons.IH [of "rb @ fst r"] Cons.prems show ?thesis by simp
  qed
qed

lemma read_keys_delivers:
  "list_all (\<lambda>k. key_sendable k \<and> key_ascii k) ks \<Longrightarrow>
     pending_bytes rb inp = concat (map key_bytes ks) @ tail \<Longrightarrow> no_errors inp \<Longrightarrow>
     \<exists>rb' inp'. read_keys (length ks) rb inp = ((ks, None), rb', inp')
       \<and> pending_bytes rb' inp' = tail \<and> no_errors inp'"
proof (induction ks arbitrary: rb inp)
  case Nil
  then show ?case by simp
next
  case (Cons k ks)
  then obtain rb' inp' where next1: "next_key rb inp = (Inr k, rb', inp')"
    and "pending_bytes rb' inp' = concat (map key_bytes ks) @ tail" "no_errors inp'"
    using next_key_delivers [of k rb inp "concat (map key_bytes ks) @ tail"] by auto
  with Cons.IH [of rb' inp'] Cons.prems next1 show ?case by auto
qed

section \<open>Properties\<close>

text \<open>
  C35. \<open>DecodeKey\<close> never stalls and never over-reads: a complete key consumes at least one byte
  and no more than the buffer holds; it reports an incomplete key, consuming nothing, only for an
  empty buffer or one that begins with ESC; and bytes that arrive later do not change a key that
  was already complete, except an incomplete UTF-8 sequence, which is reported as unknown.
\<close>

theorem decode_key_progress:
  assumes "decode_key buf = (k, n, ok)"
  shows "if ok
     then 1 \<le> n \<and> n \<le> length buf
       \<and> (decode_key (buf @ zs) = (k, n, True) \<or> key_type k = KeyUnknown \<and> hd buf \<noteq> CHR 0x1B)
     else n = 0 \<and> (buf = [] \<or> hd buf = CHR 0x1B)"
  using decode_key_shape [OF assms] decode_key_append [of buf k n zs] assms by (auto split: if_splits)

theorem decode_key_progress_witness:
  "decode_key (CHR 0x1B # ''[3~'') = (plain_key KeyDelete, 4, True)
   \<and> decode_key (CHR 0x1B # ''[3~x'') = (plain_key KeyDelete, 4, True)"
proof -
  have eq: "decode_key (CHR 0x1B # ''[3~'') = (plain_key KeyDelete, 4, True)" by code_simp
  from decode_key_progress [OF eq, of "''x''"] eq show ?thesis by simp
qed

text \<open>
  Keys are reassembled across reads: if the bytes of any sequence of ASCII keys, control keys
  and escape sequences arrive cut into reads in any way whatever, reading as many keys delivers
  exactly the sequence, nothing is left over, and the next read reports the end of the input.
\<close>

theorem read_keys_chunked:
  assumes "list_all (\<lambda>k. key_sendable k \<and> key_ascii k) ks"
    and "concat chunks = concat (map key_bytes ks)"
  shows "read_keys (Suc (length ks)) [] (map (\<lambda>c. (c, None)) chunks) = ((ks, Some Eof), [], [])"
proof -
  have end_of_input: "next_key [] inp = (Inl Eof, [], [])" if "pending_bytes [] inp = []" "no_errors inp" for inp
    using that
  proof (induction inp)
    case Nil
    then show ?case by (simp add: next_key.simps decode_key_def)
  next
    case (Cons r inp)
    then show ?case by (simp add: next_key.simps [of _ "r # inp"] decode_key_def)
  qed
  obtain rb' inp' where read: "read_keys (length ks) [] (map (\<lambda>c. (c, None)) chunks) = ((ks, None), rb', inp')"
    and done_: "pending_bytes rb' inp' = []" "no_errors inp'"
    using read_keys_delivers [OF assms(1), of "[]" "map (\<lambda>c. (c, None)) chunks" "[]"] assms(2)
    by (auto simp: comp_def list.pred_set)
  from done_ have "next_key rb' inp' = (Inl Eof, [], [])" using end_of_input by auto
  with read show ?thesis by (rule read_keys_end)
qed

theorem read_keys_chunked_witness:
  "read_keys 3 [] [([CHR 0x1B], None), (''[3'', None), (''~a'', None)] =
     (([plain_key KeyDelete, \<lparr>key_type = KeyRune, key_rune = 97\<rparr>], Some Eof), [], [])"
proof -
  have ok: "list_all (\<lambda>k. key_sendable k \<and> key_ascii k) [plain_key KeyDelete, \<lparr>key_type = KeyRune, key_rune = 97\<rparr>]"
    "concat [[CHR 0x1B], ''[3'', ''~a''] =
       concat (map key_bytes [plain_key KeyDelete, \<lparr>key_type = KeyRune, key_rune = 97\<rparr>])"
    by code_simp+
  from read_keys_chunked [OF ok] show ?thesis by (simp add: numeral_3_eq_3)
qed

text \<open>
  UTF-8 is not reassembled: a character of several bytes whose bytes arrive in two reads is
  lost. The first byte is delivered at once as an unknown key, and the rest of the first part
  stays as undecodable bytes.
\<close>

theorem split_rune_lost:
  assumes "valid_rune r" "encode_rune r = a @ b" "a \<noteq> []" "b \<noteq> []"
  shows "next_key [] ((a, None) # (b, None) # inp) = (Inr (plain_key KeyUnknown), tl a, (b, None) # inp)"
proof -
  have "128 \<le> r" using assms(2-) by (cases a; cases b) (auto simp: encode_rune_ascii not_less [symmetric])
  then have "194 \<le> (of_char (hd a) :: nat)"
    using encode_rune_first [of r] assms(2,3) by simp
  then have first: "control_key (of_char (hd a)) = None" "of_char (hd a) \<noteq> (27::nat)"
    by (auto simp: control_key_high)
  have "encode_bytes r = map of_char a @ map of_char b"
    using assms(2) of_char_encode_rune [of r] by simp
  then have "decode_rune a = (rune_error, 1)"
    using decode_bytes_truncated [OF assms(1), of "map of_char a" "map of_char b"] assms(3,4)
    by (simp add: decode_rune_bytes)
  with first assms(3) have "decode_key a = (plain_key KeyUnknown, 1, True)"
    by (simp add: decode_key_def Let_def)
  with assms(3) show ?thesis
    by (simp add: next_key.simps [of "[]"] next_key.simps [of a] decode_key_def [of "[]"] drop_Suc)
qed

theorem split_rune_lost_witness:
  "next_key [] [([CHR 0xC3], None), ([CHR 0xA9], None)] =
     (Inr (plain_key KeyUnknown), [], [([CHR 0xA9], None)])"
proof -
  have "valid_rune 233" "encode_rune 233 = [CHR 0xC3] @ [CHR 0xA9]" by code_simp+
  from split_rune_lost [OF this, of "[]"] show ?thesis by simp
qed

end
