(* ===== verification/Line_Buffer.thy ===== *)
theory Line_Buffer
  imports Go_Strings
begin

text \<open>
  \<^verbatim>\<open>shell/internal/term/buffer.go\<close>: the rune buffer under the line editor, with one cursor. The
  operations are those of the code on a slice and an index; \<open>split_at_cursor\<close> is the abstract
  buffer they implement, the runes before the cursor (nearest first) and those from it on.
\<close>

section \<open>The buffer and its operations\<close>

record line_buffer =
  buf_runes :: "rune list"
  buf_cursor :: nat

definition new_buffer :: line_buffer where
  "new_buffer = \<lparr>buf_runes = [], buf_cursor = 0\<rparr>"

definition buf_string :: "line_buffer \<Rightarrow> string" where
  "buf_string b = string_of_runes (buf_runes b)"

definition set_text :: "line_buffer \<Rightarrow> string \<Rightarrow> line_buffer" where
  "set_text b s =
     (let rs = runes_of s in
      b\<lparr>buf_runes := rs, buf_cursor := (if length rs < buf_cursor b then length rs else buf_cursor b)\<rparr>)"

definition set_cursor :: "line_buffer \<Rightarrow> int \<Rightarrow> line_buffer" where
  "set_cursor b c =
     (let c0 = (if c < 0 then 0 else c);
          c1 = (if int (length (buf_runes b)) < c0 then int (length (buf_runes b)) else c0)
      in b\<lparr>buf_cursor := nat c1\<rparr>)"

definition buf_clear :: "line_buffer \<Rightarrow> line_buffer" where
  "buf_clear b = b\<lparr>buf_runes := [], buf_cursor := 0\<rparr>"

text \<open>
  \<open>InsertRune\<close>, with the \<open>copy\<close> of the tail one place up: the slice grown by a zero rune, the
  runes from the cursor on moved, the new rune written.
\<close>

definition insert_rune :: "line_buffer \<Rightarrow> rune \<Rightarrow> line_buffer" where
  "insert_rune b r =
     (let rs = buf_runes b; c = buf_cursor b in
      if c = length rs then b\<lparr>buf_runes := rs @ [r], buf_cursor := c + 1\<rparr>
      else
        (let grown = rs @ [0];
             copied = take (c + 1) grown @ take (length grown - (c + 1)) (drop c grown)
         in b\<lparr>buf_runes := copied[c := r], buf_cursor := c + 1\<rparr>))"

definition backspace :: "line_buffer \<Rightarrow> line_buffer" where
  "backspace b =
     (let rs = buf_runes b; c = buf_cursor b in
      if c = 0 then b else b\<lparr>buf_runes := take (c - 1) rs @ drop c rs, buf_cursor := c - 1\<rparr>)"

definition delete_rune :: "line_buffer \<Rightarrow> line_buffer" where
  "delete_rune b =
     (let rs = buf_runes b; c = buf_cursor b in
      if length rs \<le> c then b else b\<lparr>buf_runes := take c rs @ drop (c + 1) rs\<rparr>)"

definition move_left :: "line_buffer \<Rightarrow> line_buffer" where
  "move_left b = (if 0 < buf_cursor b then b\<lparr>buf_cursor := buf_cursor b - 1\<rparr> else b)"

definition move_right :: "line_buffer \<Rightarrow> line_buffer" where
  "move_right b = (if buf_cursor b < length (buf_runes b) then b\<lparr>buf_cursor := buf_cursor b + 1\<rparr> else b)"

definition buf_home :: "line_buffer \<Rightarrow> line_buffer" where
  "buf_home b = b\<lparr>buf_cursor := 0\<rparr>"

definition buf_end :: "line_buffer \<Rightarrow> line_buffer" where
  "buf_end b = b\<lparr>buf_cursor := length (buf_runes b)\<rparr>"

definition kill_to_start :: "line_buffer \<Rightarrow> line_buffer" where
  "kill_to_start b = b\<lparr>buf_runes := drop (buf_cursor b) (buf_runes b), buf_cursor := 0\<rparr>"

definition kill_to_end :: "line_buffer \<Rightarrow> line_buffer" where
  "kill_to_end b = b\<lparr>buf_runes := take (buf_cursor b) (buf_runes b)\<rparr>"

text \<open>The loops \<open>for n > 0 && P(runes[n-1]) { n-- }\<close> and \<open>for i < len && P(runes[i]) { i++ }\<close>.\<close>

fun walk_back :: "(rune \<Rightarrow> bool) \<Rightarrow> rune list \<Rightarrow> nat \<Rightarrow> nat" where
  "walk_back P rs 0 = 0"
| "walk_back P rs (Suc n) = (if P (rs ! n) then walk_back P rs n else Suc n)"

function walk_on :: "(rune \<Rightarrow> bool) \<Rightarrow> rune list \<Rightarrow> nat \<Rightarrow> nat" where
  "walk_on P rs i = (if i < length rs \<and> P (rs ! i) then walk_on P rs (i + 1) else i)"
  by pat_completeness auto
termination by (relation "measure (\<lambda>(P, rs, i). length rs - i)") auto

declare walk_on.simps [simp del]

definition kill_word :: "line_buffer \<Rightarrow> line_buffer" where
  "kill_word b =
     (let rs = buf_runes b; c = buf_cursor b in
      if c = 0 then b
      else
        (let ws_end = walk_back is_space rs c;
             start = walk_back (\<lambda>r. \<not> is_space r) rs ws_end
         in if start = ws_end then b\<lparr>buf_runes := take start rs @ drop c rs, buf_cursor := start\<rparr>
            else b\<lparr>buf_runes := take start rs @ drop ws_end rs, buf_cursor := start\<rparr>))"

definition token_at_cursor :: "line_buffer \<Rightarrow> string \<times> nat \<times> bool" where
  "token_at_cursor b =
     (let rs = buf_runes b; c = buf_cursor b in
      if rs = [] then ([], 0, True)
      else if c = 0 \<or> is_space (rs ! (c - 1)) then ([], c, list_all is_space (take c rs))
      else
        (let start = walk_back (\<lambda>r. \<not> is_space r) rs c;
             stop = walk_on (\<lambda>r. \<not> is_space r) rs c
         in (string_of_runes (take (stop - start) (drop start rs)), start, list_all is_space (take start rs))))"

section \<open>The invariant and the abstract buffer\<close>

definition buf_inv :: "line_buffer \<Rightarrow> bool" where
  "buf_inv b \<longleftrightarrow> buf_cursor b \<le> length (buf_runes b)"

type_synonym split_line = "rune list \<times> rune list"

definition split_at_cursor :: "line_buffer \<Rightarrow> split_line" where
  "split_at_cursor b = (rev (take (buf_cursor b) (buf_runes b)), drop (buf_cursor b) (buf_runes b))"

lemma buf_inv_split:
  assumes "buf_inv b"
  obtains l r where "buf_runes b = l @ r" "buf_cursor b = length l" "split_at_cursor b = (rev l, r)"
  using that [of "take (buf_cursor b) (buf_runes b)" "drop (buf_cursor b) (buf_runes b)"] assms
  by (simp add: buf_inv_def split_at_cursor_def)

lemma split_at_cursor_runes: "buf_runes b = rev (fst (split_at_cursor b)) @ snd (split_at_cursor b)"
  by (simp add: split_at_cursor_def)

lemma split_at_cursor_cursor: "buf_inv b \<Longrightarrow> buf_cursor b = length (fst (split_at_cursor b))"
  by (simp add: split_at_cursor_def buf_inv_def)

text \<open>The commands an editor can give, on the code's buffer and on the abstract one.\<close>

datatype buffer_op =
    Op_insert rune
  | Op_backspace
  | Op_delete
  | Op_left
  | Op_right
  | Op_home
  | Op_end
  | Op_kill_to_start
  | Op_kill_to_end
  | Op_kill_word
  | Op_set_text string
  | Op_set_cursor int
  | Op_clear

fun apply_op :: "line_buffer \<Rightarrow> buffer_op \<Rightarrow> line_buffer" where
  "apply_op b (Op_insert r) = insert_rune b r"
| "apply_op b Op_backspace = backspace b"
| "apply_op b Op_delete = delete_rune b"
| "apply_op b Op_left = move_left b"
| "apply_op b Op_right = move_right b"
| "apply_op b Op_home = buf_home b"
| "apply_op b Op_end = buf_end b"
| "apply_op b Op_kill_to_start = kill_to_start b"
| "apply_op b Op_kill_to_end = kill_to_end b"
| "apply_op b Op_kill_word = kill_word b"
| "apply_op b (Op_set_text s) = set_text b s"
| "apply_op b (Op_set_cursor c) = set_cursor b c"
| "apply_op b Op_clear = buf_clear b"

text \<open>
  The abstract editor. Killing a word removes the word nearest to the left and leaves the blanks
  between it and the cursor, which end up on the right; with no word there, the blanks go.
\<close>

fun split_op :: "split_line \<Rightarrow> buffer_op \<Rightarrow> split_line" where
  "split_op (l, r) (Op_insert x) = (x # l, r)"
| "split_op (l, r) Op_backspace = (tl l, r)"
| "split_op (l, r) Op_delete = (l, tl r)"
| "split_op (l, r) Op_left = (case l of [] \<Rightarrow> (l, r) | x # l' \<Rightarrow> (l', x # r))"
| "split_op (l, r) Op_right = (case r of [] \<Rightarrow> (l, r) | x # r' \<Rightarrow> (x # l, r'))"
| "split_op (l, r) Op_home = ([], rev l @ r)"
| "split_op (l, r) Op_end = (rev r @ l, [])"
| "split_op (l, r) Op_kill_to_start = ([], r)"
| "split_op (l, r) Op_kill_to_end = (l, [])"
| "split_op (l, r) Op_kill_word =
     (let word = dropWhile is_space l in
      if word = [] then ([], r)
      else (dropWhile (\<lambda>x. \<not> is_space x) word, rev (takeWhile is_space l) @ r))"
| "split_op (l, r) (Op_set_text s) =
     (rev (take (length l) (runes_of s)), drop (length l) (runes_of s))"
| "split_op (l, r) (Op_set_cursor c) = (rev (take (nat c) (rev l @ r)), drop (nat c) (rev l @ r))"
| "split_op (l, r) Op_clear = ([], [])"

section \<open>The walking loops\<close>

lemma walk_back_append:
  "walk_back P (l @ r) (length l) = length l - length (takeWhile P (rev l))"
proof (induction l arbitrary: r rule: rev_induct)
  case Nil
  then show ?case by simp
next
  case (snoc x l)
  have "length (takeWhile P (rev l)) \<le> length l"
    using length_takeWhile_le [of P "rev l"] by simp
  with snoc [of "x # r"] show ?case by (simp add: Suc_diff_le nth_append)
qed

lemma walk_back_le: "walk_back P rs n \<le> n"
  by (induction n) auto

lemma walk_back_drop_tail: "walk_back P (l @ r) (length l) = length (drop_tail P l)"
proof -
  have "length (takeWhile P (rev l)) + length (dropWhile P (rev l)) = length l"
    by (metis length_append length_rev takeWhile_dropWhile_id)
  then show ?thesis by (simp add: walk_back_append drop_tail_def)
qed

lemma walk_on_append: "walk_on P (l @ r) (length l) = length l + length (takeWhile P r)"
proof (induction r arbitrary: l)
  case Nil
  then show ?case by (simp add: walk_on.simps)
next
  case (Cons x r)
  from Cons [of "l @ [x]"] show ?case by (simp add: walk_on.simps [of P "l @ x # r"])
qed

section \<open>Each operation on a split buffer\<close>

lemma insert_rune_split:
  "insert_rune \<lparr>buf_runes = l @ r, buf_cursor = length l\<rparr> x =
     \<lparr>buf_runes = l @ x # r, buf_cursor = Suc (length l)\<rparr>"
  by (cases r) (simp_all add: insert_rune_def Let_def list_update_append)

lemma drop_tail_shorter: "xs \<noteq> [] \<Longrightarrow> P (last xs) \<Longrightarrow> length (drop_tail P xs) < length xs"
  by (cases xs rule: rev_cases) (auto simp: drop_tail_def less_Suc_eq_le length_dropWhile_le [THEN order_trans])

lemma kill_word_split:
  fixes l r :: "rune list"
  defines "blanks \<equiv> take_tail is_space l" and "front \<equiv> drop_tail is_space l"
  shows "kill_word \<lparr>buf_runes = l @ r, buf_cursor = length l\<rparr> =
     (if front = [] then \<lparr>buf_runes = r, buf_cursor = 0\<rparr>
      else \<lparr>buf_runes = drop_tail (\<lambda>x. \<not> is_space x) front @ blanks @ r,
            buf_cursor = length (drop_tail (\<lambda>x. \<not> is_space x) front)\<rparr>)"
proof -
  define start where "start = drop_tail (\<lambda>x. \<not> is_space x) front"
  define word where "word = take_tail (\<lambda>x. \<not> is_space x) front"
  have front: "front = start @ word"
    by (simp add: start_def word_def drop_tail_append_take_tail)
  have l: "l = start @ word @ blanks"
    using drop_tail_append_take_tail [of is_space l] front by (simp add: front_def blanks_def)
  have ws: "walk_back is_space (l @ r) (length l) = length front"
    by (simp add: walk_back_drop_tail front_def)
  have st: "walk_back (\<lambda>x. \<not> is_space x) (l @ r) (length front) = length start"
  proof -
    have "l @ r = front @ blanks @ r" using l front by simp
    then show ?thesis unfolding start_def by (simp only: walk_back_drop_tail)
  qed
  have word: "word = [] \<longleftrightarrow> front = []"
  proof (cases "front = []")
    case False
    then have "\<not> is_space (last front)" unfolding front_def by (rule drop_tail_last)
    with False have "length start < length front" unfolding start_def by (intro drop_tail_shorter)
    with False front show ?thesis by auto
  qed (simp add: front)
  show ?thesis
  proof (cases "front = []")
    case True
    with ws st front show ?thesis
      by (cases "l = []") (simp_all add: kill_word_def Let_def)
  next
    case False
    with word have "l \<noteq> []" "length start \<noteq> length front" by (auto simp: l front)
    with False ws st show ?thesis
      by (simp add: kill_word_def Let_def start_def [symmetric]) (simp add: l front)
  qed
qed

lemma apply_op_refines:
  assumes "buf_inv b"
  shows "buf_inv (apply_op b opn) \<and> split_at_cursor (apply_op b opn) = split_op (split_at_cursor b) opn"
proof -
  obtain l r where b: "buf_runes b = l @ r" "buf_cursor b = length l" and split: "split_at_cursor b = (rev l, r)"
    using buf_inv_split [OF assms] by blast
  then have eq: "b = \<lparr>buf_runes = l @ r, buf_cursor = length l\<rparr>" by simp
  note defs = buf_inv_def split_at_cursor_def
  show ?thesis
  proof (cases opn)
    case (Op_insert x)
    with b split show ?thesis by (simp add: eq insert_rune_split) (simp add: defs)
  next
    case Op_backspace
    with b split show ?thesis
      by (cases l rule: rev_cases) (auto simp: defs backspace_def Let_def)
  next
    case Op_left
    with b split show ?thesis by (cases l rule: rev_cases) (auto simp: defs move_left_def)
  next
    case Op_kill_word
    have "dropWhile is_space (rev l) = [] \<longleftrightarrow> drop_tail is_space l = []" by (simp add: drop_tail_def)
    with Op_kill_word split show ?thesis
      by (auto simp: eq kill_word_split Let_def) (auto simp: defs drop_tail_def take_tail_def)
  next
    case (Op_set_cursor c)
    with b split show ?thesis by (auto simp: defs set_cursor_def Let_def)
  qed (use b split in \<open>auto simp: defs delete_rune_def move_right_def buf_home_def buf_end_def
        kill_to_start_def kill_to_end_def set_text_def buf_clear_def Let_def drop_Suc tl_drop
        split: list.split\<close>)
qed

lemma apply_op_inv [inv_intros]: "buf_inv b \<Longrightarrow> buf_inv (apply_op b opn)"
  using apply_op_refines by blast

lemma token_at_cursor_split:
  "token_at_cursor \<lparr>buf_runes = l @ r, buf_cursor = length l\<rparr> =
     (let P = (\<lambda>x. \<not> is_space x) in
      if l = [] \<or> is_space (last l) then (if l = [] \<and> r = [] then ([], 0, True) else ([], length l, list_all is_space l))
      else (string_of_runes (take_tail P l @ takeWhile P r), length (drop_tail P l),
            list_all is_space (drop_tail P l)))"
proof (cases "l = [] \<or> is_space (last l)")
  case True
  then show ?thesis
    by (cases l rule: rev_cases) (auto simp: token_at_cursor_def Let_def nth_append)
next
  case False
  define P where "P = (\<lambda>x. \<not> is_space x)"
  have split: "l = drop_tail P l @ take_tail P l" by (simp add: drop_tail_append_take_tail)
  have down: "walk_back P (l @ r) (length l) = length (drop_tail P l)" by (rule walk_back_drop_tail)
  have forth: "walk_on P (l @ r) (length l) = length l + length (takeWhile P r)" by (rule walk_on_append)
  have "drop (length (drop_tail P l)) l = take_tail P l" "take (length (drop_tail P l)) l = drop_tail P l"
    by (subst (2) split, simp)+
  moreover have "take (length (takeWhile P r)) r = takeWhile P r" by (rule takeWhile_eq_take [symmetric])
  ultimately show ?thesis
    using False down forth by (auto simp: token_at_cursor_def Let_def P_def [symmetric] nth_append last_conv_nth)
qed

section \<open>Properties\<close>

text \<open>
  C31. The cursor buffer implements the split line: any sequence of editor operations run from the
  empty buffer keeps the cursor inside the buffer, so no slice of the code is ever out of range,
  and leaves exactly the runes before and after the cursor that the same operations give on the
  pair of runes to the left and to the right. In particular inserting advances, killing a word
  removes the word and not the blanks after it, and replacing the text clamps the cursor.
\<close>

theorem buffer_refines_split:
  "let b = foldl apply_op new_buffer ops in
   buf_inv b \<and> split_at_cursor b = foldl split_op ([], []) ops
   \<and> buf_string b = string_of_runes (rev (fst (split_at_cursor b)) @ snd (split_at_cursor b))"
proof -
  have "buf_inv (foldl apply_op b ops) \<and>
      split_at_cursor (foldl apply_op b ops) = foldl split_op (split_at_cursor b) ops" if "buf_inv b" for b
    using that by (induction ops arbitrary: b) (simp_all add: apply_op_refines)
  from this [of new_buffer] show ?thesis
    by (simp add: Let_def new_buffer_def buf_inv_def buf_string_def split_at_cursor_runes [symmetric])
      (simp add: split_at_cursor_def)
qed

text \<open>
  \<open>TokenAtCursor\<close>: with the cursor right after a rune that is no blank, the token is the
  longest run of non-blank runes around the cursor, its start is where that run begins, and it is
  the first token exactly when only blanks stand before it; with the cursor at the start or after
  a blank the token is empty, at the cursor.
\<close>

theorem token_at_cursor_spec:
  assumes "buf_inv b" "split_at_cursor b = (rev l, r)"
  shows "token_at_cursor b =
     (if l = [] \<or> is_space (last l) then ([], buf_cursor b, list_all is_space l)
      else (string_of_runes (take_tail (\<lambda>x. \<not> is_space x) l @ takeWhile (\<lambda>x. \<not> is_space x) r),
            length (drop_tail (\<lambda>x. \<not> is_space x) l), list_all is_space (drop_tail (\<lambda>x. \<not> is_space x) l)))"
proof -
  have "b = \<lparr>buf_runes = l @ r, buf_cursor = length l\<rparr>"
    using assms split_at_cursor_runes [of b] split_at_cursor_cursor [of b] by simp
  then show ?thesis by (auto simp: token_at_cursor_split Let_def)
qed

theorem token_at_cursor_spec_witness:
  "token_at_cursor (foldl apply_op new_buffer [Op_set_text ''echo hello'', Op_set_cursor 8]) = (''hello'', 5, False)"
proof -
  have inv: "buf_inv (foldl apply_op new_buffer [Op_set_text ''echo hello'', Op_set_cursor 8])"
    "split_at_cursor (foldl apply_op new_buffer [Op_set_text ''echo hello'', Op_set_cursor 8]) =
       (rev (runes_of ''echo hel''), runes_of ''lo'')"
    by code_simp+
  show ?thesis unfolding token_at_cursor_spec [OF inv] by code_simp
qed

end
