(* ===== verification/Recall.thy ===== *)
theory Recall
  imports Line_Buffer
begin

text \<open>
  Recalling earlier lines: \<^verbatim>\<open>shell/internal/term/history.go\<close> (the history source and the
  navigator behind Up and Down), \<^verbatim>\<open>search.go\<close> (Ctrl-R) and \<^verbatim>\<open>ghost.go\<close> (the suggestion).
  The Go interface \<open>HistorySource\<close> is a record of its three methods over a state of any type;
  the locale \<open>history_laws\<close> states what the clients rely on, and \<open>MemorySource\<close> provides it.
\<close>

section \<open>The history source\<close>

record 's history_source =
  hs_len :: "'s \<Rightarrow> nat"
  hs_at :: "'s \<Rightarrow> nat \<Rightarrow> string"
  hs_append :: "'s \<Rightarrow> string \<Rightarrow> 's"

type_synonym memory_source = "string list"

definition new_memory_source :: "string list \<Rightarrow> memory_source" where
  "new_memory_source initial = initial"

definition memory_len :: "memory_source \<Rightarrow> nat" where
  "memory_len m = length m"

definition memory_at :: "memory_source \<Rightarrow> nat \<Rightarrow> string" where
  "memory_at m i = m ! i"

definition memory_append :: "memory_source \<Rightarrow> string \<Rightarrow> memory_source" where
  "memory_append m line = m @ [line]"

definition memory_history :: "memory_source history_source" where
  "memory_history = \<lparr>hs_len = memory_len, hs_at = memory_at, hs_append = memory_append\<rparr>"

text \<open>What a source shows, oldest line first.\<close>

definition history_lines :: "'s history_source \<Rightarrow> 's \<Rightarrow> string list" where
  "history_lines src s = map (hs_at src s) [0..<hs_len src s]"

lemma length_history_lines [simp]: "length (history_lines src s) = hs_len src s"
  by (simp add: history_lines_def)

lemma history_lines_nth: "i < hs_len src s \<Longrightarrow> history_lines src s ! i = hs_at src s i"
  by (simp add: history_lines_def)

lemma history_lines_memory: "history_lines memory_history m = m"
proof -
  have "memory_at m = (!) m" by (rule ext) (simp add: memory_at_def)
  then show ?thesis by (simp add: history_lines_def memory_history_def memory_len_def map_nth)
qed

section \<open>The navigator\<close>

record history_nav =
  nav_idx :: nat
  nav_stash :: string

definition new_history_nav :: "'s history_source \<Rightarrow> 's \<Rightarrow> history_nav" where
  "new_history_nav src s = \<lparr>nav_idx = hs_len src s, nav_stash = []\<rparr>"

definition nav_set_stash :: "'s history_source \<Rightarrow> 's \<Rightarrow> history_nav \<Rightarrow> string \<Rightarrow> history_nav" where
  "nav_set_stash src s h text = h\<lparr>nav_stash := text, nav_idx := hs_len src s\<rparr>"

definition nav_up :: "'s history_source \<Rightarrow> 's \<Rightarrow> history_nav \<Rightarrow> history_nav \<times> string \<times> bool" where
  "nav_up src s h =
     (if hs_len src s = 0 then (h, [], False)
      else
        (let h' = (if 0 < nav_idx h then h\<lparr>nav_idx := nav_idx h - 1\<rparr> else h)
         in (h', hs_at src s (nav_idx h'), True)))"

definition nav_down :: "'s history_source \<Rightarrow> 's \<Rightarrow> history_nav \<Rightarrow> history_nav \<times> string \<times> bool" where
  "nav_down src s h =
     (let n = hs_len src s in
      if n = 0 then (h, [], False)
      else if n \<le> nav_idx h then (h, [], False)
      else
        (let h' = h\<lparr>nav_idx := nav_idx h + 1\<rparr> in
         if nav_idx h' = n then (h', nav_stash h', True) else (h', hs_at src s (nav_idx h'), True)))"

text \<open>The Up and Down cases of \<open>ReadLine\<close> on the navigator and the buffer.\<close>

definition history_up ::
  "'s history_source \<Rightarrow> 's \<Rightarrow> history_nav \<times> line_buffer \<Rightarrow> history_nav \<times> line_buffer" where
  "history_up src s p =
     (let h0 = (if nav_idx (fst p) = hs_len src s then nav_set_stash src s (fst p) (buf_string (snd p)) else fst p)
      in case nav_up src s h0 of
           (h, line, ok) \<Rightarrow> (h, if ok then buf_end (set_text (snd p) line) else snd p))"

definition history_down ::
  "'s history_source \<Rightarrow> 's \<Rightarrow> history_nav \<times> line_buffer \<Rightarrow> history_nav \<times> line_buffer" where
  "history_down src s p =
     (case nav_down src s (fst p) of
        (h, line, ok) \<Rightarrow> (h, if ok then buf_end (set_text (snd p) line) else snd p))"

section \<open>Reverse search\<close>

text \<open>
  \<open>strings.ToLower\<close>: ASCII letters are mapped directly; the Unicode case table beyond ASCII is
  the parameter \<open>u\<close>. A string that is not ASCII is rewritten rune by rune.
\<close>

definition lower_byte :: "nat \<Rightarrow> nat" where
  "lower_byte b = (if 65 \<le> b \<and> b \<le> 90 then b + 32 else b)"

definition str_to_lower :: "(rune \<Rightarrow> rune) \<Rightarrow> string \<Rightarrow> string" where
  "str_to_lower u s =
     (if list_all (\<lambda>c. of_char c < (128::nat)) s then map (\<lambda>c. char_of (lower_byte (of_char c))) s
      else string_of_runes (map (\<lambda>r. if r < 128 then lower_byte r else u r) (runes_of s)))"

record search =
  srch_query :: "rune list"
  srch_idx :: int

definition new_search :: search where
  "new_search = \<lparr>srch_query = [], srch_idx = - 1\<rparr>"

definition search_hit :: "(rune \<Rightarrow> rune) \<Rightarrow> rune list \<Rightarrow> string \<Rightarrow> bool" where
  "search_hit u q line = str_contains (str_to_lower u line) (str_to_lower u (string_of_runes q))"

definition search_find_from :: "(rune \<Rightarrow> rune) \<Rightarrow> 's history_source \<Rightarrow> 's \<Rightarrow> rune list \<Rightarrow> int \<Rightarrow> int" where
  "search_find_from u src s q start =
     (case find_down (\<lambda>i. search_hit u q (hs_at src s i)) (nat (start + 1)) of
        Some i \<Rightarrow> int i
      | None \<Rightarrow> - 1)"

definition search_current :: "'s history_source \<Rightarrow> 's \<Rightarrow> search \<Rightarrow> string" where
  "search_current src s sr =
     (if srch_idx sr < 0 \<or> srch_query sr = [] then [] else hs_at src s (nat (srch_idx sr)))"

definition search_append_query :: "(rune \<Rightarrow> rune) \<Rightarrow> 's history_source \<Rightarrow> 's \<Rightarrow> search \<Rightarrow> rune \<Rightarrow> search" where
  "search_append_query u src s sr r =
     (let q = srch_query sr @ [r]
      in sr\<lparr>srch_query := q, srch_idx := search_find_from u src s q (int (hs_len src s) - 1)\<rparr>)"

definition search_backspace :: "(rune \<Rightarrow> rune) \<Rightarrow> 's history_source \<Rightarrow> 's \<Rightarrow> search \<Rightarrow> search" where
  "search_backspace u src s sr =
     (if srch_query sr = [] then sr\<lparr>srch_idx := - 1\<rparr>
      else
        (let q = take (length (srch_query sr) - 1) (srch_query sr) in
         if q = [] then sr\<lparr>srch_query := q, srch_idx := - 1\<rparr>
         else sr\<lparr>srch_query := q, srch_idx := search_find_from u src s q (int (hs_len src s) - 1)\<rparr>))"

definition search_next :: "(rune \<Rightarrow> rune) \<Rightarrow> 's history_source \<Rightarrow> 's \<Rightarrow> search \<Rightarrow> search \<times> bool" where
  "search_next u src s sr =
     (if srch_idx sr \<le> 0 \<or> srch_query sr = [] then (sr, False)
      else
        (let nxt = search_find_from u src s (srch_query sr) (srch_idx sr - 1) in
         if nxt < 0 then (sr, False) else (sr\<lparr>srch_idx := nxt\<rparr>, True)))"

section \<open>The ghost suggestion\<close>

fun suggest_loop :: "(nat \<Rightarrow> string) \<Rightarrow> string \<Rightarrow> nat \<Rightarrow> string" where
  "suggest_loop at input 0 = []"
| "suggest_loop at input (Suc i) =
     (let entry = at i in
      if entry = input then []
      else if has_prefix entry input then drop (length input) entry
      else suggest_loop at input i)"

definition suggest :: "'s history_source \<Rightarrow> 's \<Rightarrow> string \<Rightarrow> string" where
  "suggest src s input = (if input = [] then [] else suggest_loop (hs_at src s) input (hs_len src s))"

lemma suggest_loop_find:
  "suggest_loop at input n =
     (case find_down (\<lambda>i. has_prefix (at i) input) n of
        Some i \<Rightarrow> drop (length input) (at i)
      | None \<Rightarrow> [])"
  by (induction n) (auto simp: Let_def)

section \<open>What clients rely on\<close>

locale history_laws =
  fixes src :: "'s history_source"
  assumes len_append: "hs_len src (hs_append src s line) = Suc (hs_len src s)"
    and at_append_old: "i < hs_len src s \<Longrightarrow> hs_at src (hs_append src s line) i = hs_at src s i"
    and at_append_new: "hs_at src (hs_append src s line) (hs_len src s) = line"
begin

lemma lines_append: "history_lines src (hs_append src s line) = history_lines src s @ [line]"
  by (simp add: history_lines_def len_append at_append_new at_append_old)

lemma suggest_last:
  "input \<noteq> [] \<Longrightarrow> suggest src (hs_append src s (input @ rest)) input = rest"
  by (simp add: suggest_def len_append at_append_new Let_def)

lemma search_last:
  "search_hit u q line \<Longrightarrow>
     search_find_from u src (hs_append src s line) q (int (hs_len src (hs_append src s line)) - 1) = int (hs_len src s)"
  by (simp add: search_find_from_def len_append at_append_new nat_add_distrib)

lemma up_last:
  "nav_up src (hs_append src s line) (new_history_nav src (hs_append src s line)) =
     (\<lparr>nav_idx = hs_len src s, nav_stash = []\<rparr>, line, True)"
  by (simp add: nav_up_def new_history_nav_def len_append at_append_new)

end

interpretation memory: history_laws memory_history
  by unfold_locales (simp_all add: memory_history_def memory_len_def memory_at_def memory_append_def nth_append)

section \<open>Walking through history\<close>

datatype walk_key = Walk_up | Walk_down

fun walk_step ::
  "'s history_source \<Rightarrow> 's \<Rightarrow> history_nav \<times> line_buffer \<Rightarrow> walk_key \<Rightarrow> history_nav \<times> line_buffer" where
  "walk_step src s p Walk_up = history_up src s p"
| "walk_step src s p Walk_down = history_down src s p"

text \<open>The abstract walk: a position in the list of the lines and the text being typed.\<close>

fun walk_pos :: "nat \<Rightarrow> nat \<Rightarrow> walk_key \<Rightarrow> nat" where
  "walk_pos n i Walk_up = i - 1"
| "walk_pos n i Walk_down = (if i < n then i + 1 else i)"

definition walk_inv :: "'s history_source \<Rightarrow> 's \<Rightarrow> string \<Rightarrow> nat \<Rightarrow> history_nav \<times> line_buffer \<Rightarrow> bool" where
  "walk_inv src s text i p \<longleftrightarrow>
     nav_idx (fst p) = i \<and> i \<le> hs_len src s
     \<and> (i < hs_len src s \<longrightarrow> nav_stash (fst p) = text)
     \<and> buf_string (snd p) = (history_lines src s @ [text]) ! i"

lemma buf_string_set_text: "valid_utf8 s \<Longrightarrow> buf_string (buf_end (set_text b s)) = s"
  by (simp add: buf_string_def buf_end_def set_text_def Let_def valid_utf8_def)

lemma walk_step_inv:
  assumes "walk_inv src s text i p" "\<forall>l \<in> set (text # history_lines src s). valid_utf8 l"
  shows "walk_inv src s text (walk_pos (hs_len src s) i k) (walk_step src s p k)"
proof -
  obtain h b where p: "p = (h, b)" by (cases p)
  have valid: "valid_utf8 (hs_at src s j)" if "j < hs_len src s" for j
    using assms(2) that history_lines_nth [OF that] nth_mem [of j "history_lines src s"] by auto
  have inv: "nav_idx h = i" "i \<le> hs_len src s" "i < hs_len src s \<longrightarrow> nav_stash h = text"
    "buf_string b = (history_lines src s @ [text]) ! i"
    using assms(1) by (auto simp: walk_inv_def p)
  have shown: "(history_lines src s @ [text]) ! j = (if j < hs_len src s then hs_at src s j else text)"
    if "j \<le> hs_len src s" for j
    using that by (auto simp: nth_append history_lines_nth)
  show ?thesis
  proof (cases k)
    case Walk_up
    with inv shown show ?thesis
      by (cases "hs_len src s = 0"; cases "i = hs_len src s"; cases "i = 0")
        (auto simp: walk_inv_def p history_up_def nav_up_def nav_set_stash_def Let_def
          buf_string_set_text valid)
  next
    case Walk_down
    with inv shown assms(2) show ?thesis
      by (auto simp: walk_inv_def p history_down_def nav_down_def Let_def buf_string_set_text valid)
  qed
qed

section \<open>Searching\<close>

lemma search_find_from_cases:
  assumes "start < int (hs_len src s)"
  shows "let i = search_find_from u src s q start in
    (i = - 1 \<and> (\<forall>j. int j \<le> start \<longrightarrow> \<not> search_hit u q (hs_at src s j)))
    \<or> (0 \<le> i \<and> i \<le> start \<and> search_hit u q (hs_at src s (nat i))
        \<and> (\<forall>j. i < int j \<and> int j \<le> start \<longrightarrow> \<not> search_hit u q (hs_at src s j)))"
proof (cases "find_down (\<lambda>i. search_hit u q (hs_at src s i)) (nat (start + 1))")
  case None
  then have "search_find_from u src s q start = - 1" by (simp add: search_find_from_def)
  with None show ?thesis by (auto simp: find_down_None zless_nat_eq_int_zless)
next
  case (Some i)
  then have "search_find_from u src s q start = int i" by (simp add: search_find_from_def)
  with Some show ?thesis by (auto simp: find_down_Some zless_nat_eq_int_zless)
qed

datatype search_key = Search_rune rune | Search_backspace | Search_next

fun search_step :: "(rune \<Rightarrow> rune) \<Rightarrow> 's history_source \<Rightarrow> 's \<Rightarrow> search \<Rightarrow> search_key \<Rightarrow> search" where
  "search_step u src s sr (Search_rune r) = search_append_query u src s sr r"
| "search_step u src s sr Search_backspace = search_backspace u src s sr"
| "search_step u src s sr Search_next = fst (search_next u src s sr)"

text \<open>
  The state of a search: no match and no hit among the lines at all, or a match inside the source.
\<close>

definition search_inv :: "(rune \<Rightarrow> rune) \<Rightarrow> 's history_source \<Rightarrow> 's \<Rightarrow> search \<Rightarrow> bool" where
  "search_inv u src s sr \<longleftrightarrow>
     (if srch_query sr = [] then srch_idx sr = - 1
      else if srch_idx sr = - 1 then \<forall>j < hs_len src s. \<not> search_hit u (srch_query sr) (hs_at src s j)
      else 0 \<le> srch_idx sr \<and> srch_idx sr < int (hs_len src s)
         \<and> search_hit u (srch_query sr) (hs_at src s (nat (srch_idx sr))))"

lemma search_find_newest_inv:
  "q \<noteq> [] \<Longrightarrow>
     search_inv u src s (sr\<lparr>srch_query := q, srch_idx := search_find_from u src s q (int (hs_len src s) - 1)\<rparr>)"
  using search_find_from_cases [of "int (hs_len src s) - 1" src s u q]
  by (auto simp: search_inv_def Let_def)

lemma search_step_inv [inv_intros]:
  assumes "search_inv u src s sr"
  shows "search_inv u src s (search_step u src s sr k)"
proof (cases k)
  case (Search_rune r)
  then show ?thesis by (simp add: search_append_query_def Let_def search_find_newest_inv)
next
  case Search_backspace
  then show ?thesis
    by (simp add: search_backspace_def Let_def search_find_newest_inv) (auto simp: search_inv_def)
next
  case Search_next
  show ?thesis
  proof (cases "srch_idx sr \<le> 0 \<or> srch_query sr = []")
    case True
    with Search_next assms show ?thesis by (auto simp: search_next_def)
  next
    case False
    then have "srch_idx sr - 1 < int (hs_len src s)" using assms by (auto simp: search_inv_def split: if_splits)
    from search_find_from_cases [OF this, of u "srch_query sr"] False Search_next assms show ?thesis
      by (auto simp: search_next_def search_inv_def Let_def split: if_splits)
  qed
qed

section \<open>Properties\<close>

text \<open>
  Up and Down walk the history: starting from a line the user is typing, any sequence of
  presses leaves the buffer showing the line at the position that the same presses reach in the
  list of the recorded lines with the typed text after them - clamped at the oldest line and at
  the typed text, which comes back unchanged.
\<close>

theorem history_walk_shows:
  assumes "\<forall>l \<in> set (buf_string b # history_lines src s). valid_utf8 l"
  shows "let n = hs_len src s;
             (h, b') = foldl (walk_step src s) (new_history_nav src s, b) keys;
             i = foldl (walk_pos n) n keys
         in nav_idx h = i \<and> i \<le> n \<and> buf_string b' = (history_lines src s @ [buf_string b]) ! i"
proof -
  have "walk_inv src s (buf_string b) (foldl (walk_pos (hs_len src s)) i keys) (foldl (walk_step src s) p keys)"
    if "walk_inv src s (buf_string b) i p" for i p
    using that
  proof (induction keys arbitrary: i p)
    case (Cons k keys)
    then show ?case using walk_step_inv [OF _ assms, of i p k] by simp
  qed simp
  moreover have "walk_inv src s (buf_string b) (hs_len src s) (new_history_nav src s, b)"
    by (simp add: walk_inv_def new_history_nav_def nth_append)
  ultimately show ?thesis by (fastforce simp: walk_inv_def Let_def split: prod.split)
qed

theorem history_walk_shows_witness:
  "let (h, b) = foldl (walk_step memory_history [''ls'', ''pwd'']) (new_history_nav memory_history [''ls'', ''pwd''],
       foldl apply_op new_buffer [Op_set_text ''ec'']) [Walk_up, Walk_up, Walk_up, Walk_down] in
   nav_idx h = 1 \<and> buf_string b = ''pwd''"
proof -
  let ?b = "foldl apply_op new_buffer [Op_set_text ''ec'']" and ?m = "[''ls'', ''pwd'']"
  have "history_lines memory_history ?m = ?m" "hs_len memory_history ?m = 2" "buf_string ?b = ''ec''"
    by (rule history_lines_memory) code_simp+
  moreover have "valid_utf8 ''ls''" "valid_utf8 ''pwd''" "valid_utf8 ''ec''" by code_simp+
  ultimately have "\<forall>l \<in> set (buf_string ?b # history_lines memory_history ?m). valid_utf8 l" by simp
  from history_walk_shows [OF this, of "[Walk_up, Walk_up, Walk_up, Walk_down]"] show ?thesis
    using \<open>history_lines memory_history ?m = ?m\<close> \<open>hs_len memory_history ?m = 2\<close>
    by (simp only: foldl.simps walk_pos.simps) (auto simp: Let_def split: prod.splits)
qed

text \<open>
  Reverse search: after any sequence of typed runes, backspaces and Ctrl-R the search either
  shows nothing - because the query is empty or no recorded line contains it, letters compared
  without case - or the line at an index inside the history that contains the query. Typing or
  erasing a rune restarts at the newest such line, and Ctrl-R moves to the next older one, never
  passing over a match.
\<close>

theorem search_finds:
  assumes sr: "sr = foldl (search_step u src s) new_search keys"
  shows "search_inv u src s sr
    \<and> (\<forall>r j. let sr' = search_append_query u src s sr r in
         0 \<le> srch_idx sr' \<and> srch_idx sr' < int j \<and> j < hs_len src s \<longrightarrow>
           \<not> search_hit u (srch_query sr') (hs_at src s j))
    \<and> (\<forall>sr' j. search_next u src s sr = (sr', True) \<and> srch_idx sr' < int j \<and> int j < srch_idx sr \<longrightarrow>
         \<not> search_hit u (srch_query sr) (hs_at src s j))"
proof (intro conjI allI)
  have "search_inv u src s (foldl (search_step u src s) st keys)" if "search_inv u src s st" for st
    using that by (induction keys arbitrary: st) (auto intro: search_step_inv)
  moreover have "search_inv u src s new_search" by (simp add: search_inv_def new_search_def)
  ultimately show inv: "search_inv u src s sr" using sr by blast
  show "let sr' = search_append_query u src s sr r in
      0 \<le> srch_idx sr' \<and> srch_idx sr' < int j \<and> j < hs_len src s \<longrightarrow>
        \<not> search_hit u (srch_query sr') (hs_at src s j)" for r j
    using search_find_from_cases [of "int (hs_len src s) - 1" src s u "srch_query sr @ [r]"]
    by (auto simp: search_append_query_def Let_def)
  show "search_next u src s sr = (sr', True) \<and> srch_idx sr' < int j \<and> int j < srch_idx sr \<longrightarrow>
      \<not> search_hit u (srch_query sr) (hs_at src s j)" for sr' j
    using inv search_find_from_cases [of "srch_idx sr - 1" src s u "srch_query sr"]
    by (auto simp: search_next_def Let_def search_inv_def split: if_splits)
qed

theorem search_finds_witness:
  "let m = [''LS -l'', ''pwd'', ''ls''];
       sr = foldl (search_step id memory_history m) new_search [Search_rune 108, Search_rune 115, Search_next]
   in srch_idx sr = 0 \<and> search_inv id memory_history m sr"
proof -
  let ?m = "[''LS -l'', ''pwd'', ''ls'']"
  let ?sr = "foldl (search_step id memory_history ?m) new_search [Search_rune 108, Search_rune 115, Search_next]"
  have "srch_idx ?sr = 0" by code_simp
  with search_finds [of ?sr id memory_history ?m "[Search_rune 108, Search_rune 115, Search_next]"]
  show ?thesis unfolding Let_def by blast
qed

text \<open>
  The ghost suggestion is the rest of the newest recorded line that begins with the input,
  and empty when there is none or the input is empty; a line just recorded is therefore suggested
  for each of its non-empty prefixes.
\<close>

theorem suggest_newest:
  "(suggest src s input =
      (if input = [] then []
       else case find_down (\<lambda>i. has_prefix (hs_at src s i) input) (hs_len src s) of
              Some i \<Rightarrow> drop (length input) (hs_at src s i)
            | None \<Rightarrow> []))
   \<and> (p \<noteq> [] \<longrightarrow> suggest memory_history (memory_append m (p @ rest)) p = rest)"
  using memory.suggest_last [of p m rest]
  by (auto simp: suggest_def suggest_loop_find memory_history_def)

theorem suggest_newest_witness:
  "suggest memory_history (memory_append [''git push''] (''git pu'' @ ''ll'')) ''git pu'' = ''ll''"
  by (rule suggest_newest [THEN conjunct2, rule_format]) simp

end
