(* ===== verification/Screen.thy ===== *)
theory Screen
  imports Line_Buffer
begin

text \<open>
  What the editor draws: \<^verbatim>\<open>shell/internal/term/highlight.go\<close>, which cuts a line into coloured
  spans, and \<^verbatim>\<open>shell/internal/term/render.go\<close>, which turns a frame into the bytes of one
  redraw. The tier resolver is a function argument.
\<close>

section \<open>Highlighting\<close>

datatype tier = Tier_ai_intent | Tier_known_binary | Tier_builtin

datatype role =
    Role_default | Role_accent | Role_string | Role_ai_tier_local | Role_ai_tier_cloud | Role_ghost
  | Role_search_prompt

record span =
  span_text :: string
  span_role :: role

abbreviation is_quote :: "rune \<Rightarrow> bool" where
  "is_quote r \<equiv> r = 34 \<or> r = 39"

text \<open>
  The second loop of \<open>Highlight\<close> on the runes that are left: a run of blanks, a quoted string
  with its closing quote if there is one, or a run up to a blank or a quote.
\<close>

function highlight_rest :: "rune list \<Rightarrow> span list" where
  "highlight_rest [] = []"
| "highlight_rest (c # rs) =
     (if is_space c then
        \<lparr>span_text = string_of_runes (c # takeWhile is_space rs), span_role = Role_default\<rparr>
          # highlight_rest (dropWhile is_space rs)
      else if is_quote c then
        (let body = takeWhile (\<lambda>r. r \<noteq> c) rs;
             tail = dropWhile (\<lambda>r. r \<noteq> c) rs
         in \<lparr>span_text = string_of_runes (c # body @ take 1 tail), span_role = Role_string\<rparr>
              # highlight_rest (drop 1 tail))
      else
        \<lparr>span_text = string_of_runes (c # takeWhile (\<lambda>r. \<not> is_space r \<and> \<not> is_quote r) rs),
          span_role = Role_default\<rparr>
          # highlight_rest (dropWhile (\<lambda>r. \<not> is_space r \<and> \<not> is_quote r) rs))"
  by pat_completeness auto
termination
  by (relation "measure length") (auto simp: less_Suc_eq_le length_dropWhile_le intro: le_trans [OF diff_le_self length_dropWhile_le])

definition role_of_tier :: "tier \<Rightarrow> role" where
  "role_of_tier t =
     (case t of
        Tier_builtin \<Rightarrow> Role_accent
      | Tier_known_binary \<Rightarrow> Role_ai_tier_local
      | Tier_ai_intent \<Rightarrow> Role_ai_tier_cloud)"

definition highlight :: "string \<Rightarrow> (string \<Rightarrow> tier) option \<Rightarrow> span list" where
  "highlight line r =
     (if line = [] then []
      else
        (let runes = runes_of line;
             blanks = takeWhile is_space runes;
             after = dropWhile is_space runes;
             lead = (if blanks \<noteq> [] then [\<lparr>span_text = string_of_runes blanks, span_role = Role_default\<rparr>] else [])
         in if after = [] then lead
            else
              (let tok = takeWhile (\<lambda>x. \<not> is_space x) after;
                   tok_role = (case r of None \<Rightarrow> Role_ai_tier_cloud
                                 | Some f \<Rightarrow> role_of_tier (f (string_of_runes tok)))
               in lead @ [\<lparr>span_text = string_of_runes tok, span_role = tok_role\<rparr>]
                    @ highlight_rest (dropWhile (\<lambda>x. \<not> is_space x) after))))"

section \<open>Rendering\<close>

record search_overlay =
  so_query :: string
  so_match :: string

record frame =
  fr_prompt :: string
  fr_line :: string
  fr_cursor :: nat
  fr_ghost :: string
  fr_spans :: "span list"
  fr_search :: "search_overlay option"

abbreviation esc :: string where "esc \<equiv> [CHR 0x1B]"

definition apply_role :: "role \<Rightarrow> string \<Rightarrow> string" where
  "apply_role r text =
     (if text = [] then text
      else
        (case r of
           Role_accent \<Rightarrow> esc @ ''[33m'' @ text @ esc @ ''[0m''
         | Role_string \<Rightarrow> esc @ ''[32m'' @ text @ esc @ ''[0m''
         | Role_ai_tier_local \<Rightarrow> esc @ ''[32m'' @ text @ esc @ ''[0m''
         | Role_ai_tier_cloud \<Rightarrow> esc @ ''[34m'' @ text @ esc @ ''[0m''
         | Role_ghost \<Rightarrow> esc @ ''[2m'' @ text @ esc @ ''[0m''
         | Role_search_prompt \<Rightarrow> esc @ ''[36m'' @ text @ esc @ ''[0m''
         | Role_default \<Rightarrow> text))"

text \<open>\<open>Render\<close>: the bytes written for one frame. 0x60 and 0x27 are the quotes of the search prompt.\<close>

definition render_frame :: "frame \<Rightarrow> string" where
  "render_frame f =
     (let clear = [CHR 0x0D] @ esc @ ''[2K'' in
      case fr_search f of
        Some so \<Rightarrow>
          clear @ ''(reverse-i-search)'' @ [CHR 0x60] @ so_query so @ [CHR 0x27] @ '': '' @ so_match so
      | None \<Rightarrow>
          (let body = (if fr_spans f \<noteq> [] then concat (map (\<lambda>sp. apply_role (span_role sp) (span_text sp)) (fr_spans f))
                       else fr_line f);
               ghost = (if fr_ghost f \<noteq> [] then apply_role Role_ghost (fr_ghost f) else []);
               line_tail = int (length (runes_of (fr_line f))) - int (fr_cursor f);
               total = line_tail + int (length (runes_of (fr_ghost f)));
               caret = (if 0 < total then esc @ ''['' @ itoa total @ ''D'' else [])
           in clear @ fr_prompt f @ body @ ghost @ caret))"

section \<open>The spans of a line\<close>

lemma highlight_rest_text: "concat (map span_text (highlight_rest rs)) = string_of_runes rs"
proof (induction rs rule: highlight_rest.induct)
  case 1
  then show ?case by simp
next
  case (2 c rs)
  have split: "string_of_runes (takeWhile P rs) @ string_of_runes (dropWhile P rs) = string_of_runes rs" for P
    by (metis string_of_runes_simps(3) takeWhile_dropWhile_id)
  have take1: "string_of_runes (take 1 xs) @ string_of_runes (drop 1 xs) = string_of_runes xs" for xs
    by (metis string_of_runes_simps(3) append_take_drop_id)
  show ?case
    using 2 split take1 by (cases "is_space c"; cases "is_quote c") (simp_all add: Let_def del: One_nat_def)
qed

lemma highlight_rest_text_ne: "sp \<in> set (highlight_rest rs) \<Longrightarrow> span_text sp \<noteq> []"
proof (induction rs rule: highlight_rest.induct)
  case (2 c rs)
  then show ?case by (cases "is_space c"; cases "is_quote c") (auto simp: Let_def)
qed simp

lemma string_of_runes_eq_Nil [simp]: "string_of_runes rs = [] \<longleftrightarrow> rs = []"
  by (cases rs) simp_all

lemma highlight_text: "concat (map span_text (highlight line r)) = string_of_runes (runes_of line)"
proof (cases "line = []")
  case False
  have "string_of_runes (takeWhile P xs) @ string_of_runes (dropWhile P xs) = string_of_runes xs" for P xs
    by (metis string_of_runes_simps(3) takeWhile_dropWhile_id)
  from this [of is_space "runes_of line"] this [of "\<lambda>x. \<not> is_space x" "dropWhile is_space (runes_of line)"] False
  show ?thesis
    by (cases "dropWhile is_space (runes_of line) = []") (auto simp: highlight_def Let_def highlight_rest_text)
qed (simp add: highlight_def)

text \<open>What a terminal shows: the bytes without the \<open>ESC [\<close> sequences.\<close>

function shown_text :: "string \<Rightarrow> string" where
  "shown_text [] = []"
| "shown_text (c # cs) =
     (if c = CHR 0x1B then shown_text (drop 1 (dropWhile (\<lambda>x. of_char x < (64::nat)) (drop 1 cs)))
      else c # shown_text cs)"
  by pat_completeness auto
termination
  by (relation "measure length")
    (auto simp: less_Suc_eq_le intro!: le_trans [OF diff_le_self] le_trans [OF length_dropWhile_le])

lemma shown_text_plain: "CHR 0x1B \<notin> set s \<Longrightarrow> shown_text (s @ t) = s @ shown_text t"
  by (induction s) auto

lemma shown_text_csi:
  "\<forall>c \<in> set ps. of_char c < (64::nat) \<Longrightarrow> 64 \<le> (of_char fin :: nat) \<Longrightarrow>
     shown_text (CHR 0x1B # CHR ''['' # ps @ fin # t) = shown_text t"
  by simp

lemma shown_text_role:
  assumes "CHR 0x1B \<notin> set s"
  shows "shown_text (apply_role r s @ t) = s @ shown_text t"
proof -
  have m: "64 \<le> (of_char (CHR ''m'') :: nat)" by simp
  have "shown_text (s @ esc @ ''[0m'' @ t) = s @ shown_text t"
    using shown_text_plain [OF assms] shown_text_csi [OF _ m, of "''0''" t] by simp
  then show ?thesis
    using shown_text_plain [OF assms, of t] shown_text_csi [OF _ m, of "''33''"] shown_text_csi [OF _ m, of "''32''"]
      shown_text_csi [OF _ m, of "''34''"] shown_text_csi [OF _ m, of "''2''"] shown_text_csi [OF _ m, of "''36''"]
    by (cases r) (simp_all add: apply_role_def)
qed

lemma shown_text_spans:
  "CHR 0x1B \<notin> set (concat (map span_text sps)) \<Longrightarrow>
     shown_text (concat (map (\<lambda>sp. apply_role (span_role sp) (span_text sp)) sps) @ t) =
       concat (map span_text sps) @ shown_text t"
  by (induction sps) (auto simp: shown_text_role)

lemma shown_text_caret: "shown_text (esc @ ''['' @ itoa i @ ''D'') = []"
proof -
  have "\<forall>c \<in> set (itoa i). of_char c < (64::nat)"
  proof
    fix c assume "c \<in> set (itoa i)"
    from set_itoa [OF this] show "of_char c < (64::nat)" by (auto simp: is_digit_def)
  qed
  then show ?thesis using shown_text_csi [of "itoa i" "CHR ''D''" "[]"] by simp
qed

section \<open>Properties\<close>

text \<open>
  Highlighting loses nothing: for every resolver the texts of the spans, put together, are the
  line (with each invalid byte replaced, so the line itself when it is valid UTF-8), no span is
  empty, and the first token of the line has the colour of its tier.
\<close>

theorem highlight_spans:
  "concat (map span_text (highlight line r)) = string_of_runes (runes_of line)
   \<and> list_all (\<lambda>sp. span_text sp \<noteq> []) (highlight line r)
   \<and> (let first = takeWhile (\<lambda>x. \<not> is_space x) (dropWhile is_space (runes_of line)) in
      first \<noteq> [] \<longrightarrow>
        \<lparr>span_text = string_of_runes first,
          span_role = (case r of None \<Rightarrow> Role_ai_tier_cloud
                         | Some f \<Rightarrow> role_of_tier (f (string_of_runes first)))\<rparr>
        \<in> set (highlight line r))"
proof (intro conjI)
  show "concat (map span_text (highlight line r)) = string_of_runes (runes_of line)" by (rule highlight_text)
  have "span_text sp \<noteq> []" if "sp \<in> set (highlight line r)" for sp
  proof -
    have "takeWhile (\<lambda>x. \<not> is_space x) (dropWhile is_space (runes_of line)) \<noteq> []"
      if "dropWhile is_space (runes_of line) \<noteq> []"
      using that hd_dropWhile [of is_space "runes_of line"] by (cases "dropWhile is_space (runes_of line)") auto
    with that show ?thesis
      by (auto simp: highlight_def Let_def highlight_rest_text_ne split: if_splits)
  qed
  then show "list_all (\<lambda>sp. span_text sp \<noteq> []) (highlight line r)" by (simp add: list.pred_set)
  have "line \<noteq> [] \<and> dropWhile is_space (runes_of line) \<noteq> []"
    if "takeWhile (\<lambda>x. \<not> is_space x) (dropWhile is_space (runes_of line)) \<noteq> []"
    using that by (metis dropWhile.simps(1) runes_of.simps(1) takeWhile.simps(1))
  then show "let first = takeWhile (\<lambda>x. \<not> is_space x) (dropWhile is_space (runes_of line)) in
      first \<noteq> [] \<longrightarrow>
        \<lparr>span_text = string_of_runes first,
          span_role = (case r of None \<Rightarrow> Role_ai_tier_cloud
                         | Some f \<Rightarrow> role_of_tier (f (string_of_runes first)))\<rparr>
        \<in> set (highlight line r)"
    by (auto simp: Let_def highlight_def simp del: dropWhile_eq_Nil_conv)
qed

theorem highlight_spans_witness:
  "\<lparr>span_text = ''cd'', span_role = Role_accent\<rparr> \<in> set (highlight '' cd x'' (Some (\<lambda>_. Tier_builtin)))"
proof -
  have "takeWhile (\<lambda>x. \<not> is_space x) (dropWhile is_space (runes_of '' cd x'')) = [99, 100]"
    "string_of_runes [99, 100] = ''cd''"
    by code_simp+
  then show ?thesis
    using highlight_spans [of "'' cd x''" "Some (\<lambda>_. Tier_builtin)"]
    by (simp only: Let_def) (simp add: role_of_tier_def)
qed

text \<open>
  One redraw shows the prompt, the line and the ghost text, whatever the colours: with the
  control sequences taken out, the bytes of a frame whose texts hold no escape byte are a carriage
  return, the prompt, the line and the ghost; and they end by moving the caret back by the runes
  after the cursor and those of the ghost, exactly when there are any.
\<close>

theorem render_frame_shows:
  assumes "fr_search f = None" "fr_spans f = highlight (fr_line f) r" "valid_utf8 (fr_line f)"
    and "fr_cursor f \<le> length (runes_of (fr_line f))"
    and "CHR 0x1B \<notin> set (fr_prompt f @ fr_line f @ fr_ghost f)"
  shows "shown_text (render_frame f) = [CHR 0x0D] @ fr_prompt f @ fr_line f @ fr_ghost f
    \<and> (let back_by = length (runes_of (fr_line f)) - fr_cursor f + length (runes_of (fr_ghost f)) in
       0 < back_by \<longrightarrow> has_suffix (render_frame f) (esc @ ''['' @ itoa (int back_by) @ ''D''))"
proof -
  let ?n = "int (length (runes_of (fr_line f))) - int (fr_cursor f) + int (length (runes_of (fr_ghost f)))"
  define caret where "caret = (if 0 < ?n then esc @ ''['' @ itoa ?n @ ''D'' else [])"
  define body where "body = (if fr_spans f \<noteq> [] then concat (map (\<lambda>sp. apply_role (span_role sp) (span_text sp)) (fr_spans f))
                       else fr_line f)"
  define ghost where "ghost = (if fr_ghost f \<noteq> [] then apply_role Role_ghost (fr_ghost f) else [])"
  have spans_text: "concat (map span_text (fr_spans f)) = fr_line f"
    using assms(2,3) by (simp add: highlight_text valid_utf8_def)
  have render: "render_frame f = CHR 0x0D # CHR 0x1B # CHR ''['' # ''2'' @ CHR ''K'' # fr_prompt f @ body @ ghost @ caret"
    using assms(1) by (simp add: render_frame_def Let_def body_def ghost_def caret_def)
  have "shown_text caret = []" using shown_text_caret by (simp add: caret_def)
  moreover have "shown_text (ghost @ t) = fr_ghost f @ shown_text t" for t
    using assms(5) by (simp add: ghost_def shown_text_role)
  moreover have "shown_text (body @ t) = fr_line f @ shown_text t" for t
    using assms(5) spans_text shown_text_spans [of "fr_spans f" t] shown_text_plain [of "fr_line f" t]
    by (simp add: body_def)
  moreover have "shown_text (fr_prompt f @ t) = fr_prompt f @ shown_text t" for t
    using assms(5) by (simp add: shown_text_plain)
  ultimately have "shown_text (render_frame f) = [CHR 0x0D] @ fr_prompt f @ fr_line f @ fr_ghost f"
    unfolding render using shown_text_csi [of "''2''" "CHR ''K''"] by simp
  moreover have "has_suffix (render_frame f) caret"
    unfolding render by (simp add: suffix_def)
  moreover define k where "k = length (runes_of (fr_line f)) - fr_cursor f + length (runes_of (fr_ghost f))"
  moreover have "?n = int k" using assms(4) by (simp add: k_def of_nat_diff)
  then have "caret = (if 0 < k then esc @ ''['' @ itoa (int k) @ ''D'' else [])"
    unfolding caret_def by (simp only: of_nat_0_less_iff)
  ultimately show ?thesis unfolding Let_def k_def [symmetric] by (auto split: if_splits)
qed

theorem render_frame_shows_witness:
  "has_suffix
     (render_frame \<lparr>fr_prompt = ''$ '', fr_line = ''ls'', fr_cursor = 2, fr_ghost = '' -l'',
        fr_spans = highlight ''ls'' None, fr_search = None\<rparr>) (esc @ ''[3D'')"
proof -
  let ?f = "\<lparr>fr_prompt = ''$ '', fr_line = ''ls'', fr_cursor = 2, fr_ghost = '' -l'',
        fr_spans = highlight ''ls'' None, fr_search = None\<rparr>"
  have n: "length (runes_of (fr_line ?f)) - fr_cursor ?f + length (runes_of (fr_ghost ?f)) = 3" "itoa (int 3) = ''3''"
    and ok: "valid_utf8 (fr_line ?f)" "fr_cursor ?f \<le> length (runes_of (fr_line ?f))"
      "CHR 0x1B \<notin> set (fr_prompt ?f @ fr_line ?f @ fr_ghost ?f)"
    by code_simp+
  have "fr_search ?f = None" "fr_spans ?f = highlight (fr_line ?f) None" by simp_all
  from render_frame_shows [OF this ok] show ?thesis unfolding Let_def n by simp
qed

end
