(* ===== verification/Go_Path.thy ===== *)
theory Go_Path
  imports Go_Strings
begin

text \<open>
  The lexical part of Go's \<^verbatim>\<open>path/filepath\<close> on a POSIX host: \<open>IsAbs\<close>, \<open>Clean\<close>, \<open>Join\<close>,
  \<open>Base\<close> and \<open>Dir\<close>, and the clean absolute paths in terms of their components.
\<close>

definition path_is_abs :: "string \<Rightarrow> bool" where
  "path_is_abs s = has_prefix s ''/''"

text \<open>
  One component of \<open>Clean\<close>: \<open>.\<close> and empty components vanish, \<open>..\<close> removes the component
  before it, is dropped at the root and is kept at the start of a relative path. The components
  kept so far are held in reverse.
\<close>

definition clean_step :: "bool \<Rightarrow> string list \<Rightarrow> string \<Rightarrow> string list" where
  "clean_step rooted acc c =
     (if c = [] \<or> c = ''.'' then acc
      else if c = ''..'' then
        (case acc of
           [] \<Rightarrow> if rooted then [] else [c]
         | d # ds \<Rightarrow> if d = ''..'' then c # acc else ds)
      else c # acc)"

definition clean_parts :: "bool \<Rightarrow> string list \<Rightarrow> string list" where
  "clean_parts rooted cs = rev (foldl (clean_step rooted) [] cs)"

definition path_clean :: "string \<Rightarrow> string" where
  "path_clean s =
     (if s = [] then ''.''
      else let rooted = path_is_abs s;
               out = (if rooted then ''/'' else []) @ str_join ''/'' (clean_parts rooted (split_byte CHR ''/'' s))
           in if out = [] then ''.'' else out)"

definition path_join :: "string \<Rightarrow> string \<Rightarrow> string" where
  "path_join a b =
     (if a \<noteq> [] then path_clean (a @ ''/'' @ b)
      else if b \<noteq> [] then path_clean b
      else [])"

text \<open>What \<open>Clean\<close> keeps: no empty and no \<open>.\<close> component, and \<open>..\<close> at the start only.\<close>

lemma split_byte_no_sep: "p \<in> set (split_byte c s) \<Longrightarrow> c \<notin> set p"
proof (induction s arbitrary: p)
  case Nil
  then show ?case by simp
next
  case (Cons x xs)
  obtain y ys where "split_byte c xs = y # ys" by (metis split_byte_not_Nil neq_Nil_conv)
  with Cons show ?case by (cases "x = c") auto
qed

lemma clean_step_rooted:
  "''..'' \<notin> set acc \<Longrightarrow> ''..'' \<notin> set (clean_step True acc c)"
  by (auto simp: clean_step_def split: list.splits)

lemma clean_step_set: "set (clean_step rooted acc c) \<subseteq> insert c (set acc)"
  by (auto simp: clean_step_def split: list.splits)

lemma clean_step_proper:
  "\<forall>d \<in> set acc. d \<noteq> [] \<and> d \<noteq> ''.'' \<Longrightarrow> \<forall>d \<in> set (clean_step rooted acc c). d \<noteq> [] \<and> d \<noteq> ''.''"
  by (cases acc) (simp_all add: clean_step_def)

lemma clean_parts_rooted: "''..'' \<notin> set (clean_parts True cs)"
proof -
  have "''..'' \<notin> set (foldl (clean_step True) acc cs)" if "''..'' \<notin> set acc" for acc
    using that by (induction cs arbitrary: acc) (simp_all add: clean_step_rooted)
  then show ?thesis by (simp add: clean_parts_def)
qed

lemma clean_parts_proper: "c \<in> set (clean_parts rooted cs) \<Longrightarrow> c \<noteq> [] \<and> c \<noteq> ''.'' \<and> c \<in> set cs"
proof -
  have proper: "\<forall>d \<in> set (foldl (clean_step rooted) acc cs). d \<noteq> [] \<and> d \<noteq> ''.''"
    if "\<forall>d \<in> set acc. d \<noteq> [] \<and> d \<noteq> ''.''" for acc
    using that
  proof (induction cs arbitrary: acc)
    case (Cons c cs)
    show ?case using Cons.IH [OF clean_step_proper [OF Cons.prems]] by simp
  qed simp
  have "set (foldl (clean_step rooted) acc cs) \<subseteq> set acc \<union> set cs" for acc
  proof (induction cs arbitrary: acc)
    case (Cons c cs)
    show ?case using Cons.IH [of "clean_step rooted acc c"] clean_step_set [of rooted acc c] by auto
  qed simp
  with proper [of "[]"] show "c \<in> set (clean_parts rooted cs) \<Longrightarrow> c \<noteq> [] \<and> c \<noteq> ''.'' \<and> c \<in> set cs"
    by (fastforce simp: clean_parts_def)
qed

definition path_base :: "string \<Rightarrow> string" where
  "path_base s =
     (if s = [] then ''.''
      else let t = drop_tail (\<lambda>c. c = CHR ''/'') s
           in if t = [] then ''/'' else take_tail (\<lambda>c. c \<noteq> CHR ''/'') t)"

definition path_dir :: "string \<Rightarrow> string" where
  "path_dir s = path_clean (drop_tail (\<lambda>c. c \<noteq> CHR ''/'') s)"

section \<open>Clean absolute paths\<close>

definition proper_name :: "string \<Rightarrow> bool" where
  "proper_name c \<longleftrightarrow> c \<noteq> [] \<and> c \<noteq> ''.'' \<and> c \<noteq> ''..'' \<and> CHR ''/'' \<notin> set c"

definition proper_names :: "string list \<Rightarrow> bool" where
  "proper_names cs \<longleftrightarrow> list_all proper_name cs"

fun path_of :: "string list \<Rightarrow> string" where
  "path_of [] = []"
| "path_of (c # cs) = CHR ''/'' # c @ path_of cs"

lemma path_of_append [simp]: "path_of (cs @ ds) = path_of cs @ path_of ds"
  by (induction cs) auto

lemma proper_names_simps [simp]:
  "proper_names []" "proper_names (c # cs) \<longleftrightarrow> proper_name c \<and> proper_names cs"
  "proper_names (cs @ ds) \<longleftrightarrow> proper_names cs \<and> proper_names ds"
  by (auto simp: proper_names_def)

lemma path_of_Nil_iff [simp]: "path_of cs = [] \<longleftrightarrow> cs = []"
  by (cases cs) auto

lemma split_path_of:
  "proper_names cs \<Longrightarrow> CHR ''/'' \<notin> set c \<Longrightarrow> split_byte CHR ''/'' (c @ path_of cs) = c # cs"
proof (induction cs arbitrary: c)
  case Nil
  then show ?case by (simp add: split_byte_none)
next
  case (Cons d cs)
  then have "CHR ''/'' \<notin> set d" by (simp add: proper_name_def)
  with Cons show ?case by (simp add: split_byte_append)
qed

lemma split_clean_path: "proper_names cs \<Longrightarrow> split_byte CHR ''/'' (path_of cs) = [] # cs"
  using split_path_of [of cs "[]"] by simp

lemma path_of_inj: "proper_names cs \<Longrightarrow> proper_names ds \<Longrightarrow> path_of cs = path_of ds \<longleftrightarrow> cs = ds"
  by (metis list.inject split_clean_path)

lemma clean_parts_proper_names: "proper_names cs \<Longrightarrow> clean_parts True ([] # cs) = cs"
proof -
  have "foldl (clean_step True) acc cs = rev cs @ acc" if "proper_names cs" for acc cs
    using that by (induction cs arbitrary: acc) (auto simp: clean_step_def proper_name_def)
  then show "proper_names cs \<Longrightarrow> clean_parts True ([] # cs) = cs"
    by (simp add: clean_parts_def clean_step_def)
qed

lemma join_path_of: "cs \<noteq> [] \<Longrightarrow> CHR ''/'' # str_join ''/'' cs = path_of cs"
proof (induction cs)
  case (Cons c cs)
  then show ?case by (cases cs) auto
qed simp

lemma path_clean_path_of: "proper_names cs \<Longrightarrow> cs \<noteq> [] \<Longrightarrow> path_clean (path_of cs) = path_of cs"
proof -
  assume ok: "proper_names cs" "cs \<noteq> []"
  have "split_byte CHR ''/'' (path_of cs) = [] # cs" using split_path_of [OF ok(1), of "[]"] by simp
  moreover have "path_is_abs (path_of cs)" using ok(2) by (cases cs) (auto simp: path_is_abs_def)
  ultimately show ?thesis
    using ok join_path_of [OF ok(2)] by (simp add: path_clean_def Let_def clean_parts_proper_names)
qed

lemma path_join_path_of:
  "proper_names cs \<Longrightarrow> cs \<noteq> [] \<Longrightarrow> proper_name c \<Longrightarrow> path_join (path_of cs) c = path_of (cs @ [c])"
  using path_clean_path_of [of "cs @ [c]"] by (simp add: path_join_def)

lemma tail_name:
  "proper_name c \<Longrightarrow> drop_tail (\<lambda>x. x \<noteq> CHR ''/'') (s @ CHR ''/'' # c) = s @ ''/''"
  "proper_name c \<Longrightarrow> take_tail (\<lambda>x. x \<noteq> CHR ''/'') (s @ CHR ''/'' # c) = c"
  by (auto simp: drop_tail_def take_tail_def proper_name_def rev_append)

lemma proper_name_last: "proper_name c \<Longrightarrow> last c \<noteq> CHR ''/''"
  by (auto simp: proper_name_def dest: last_in_set)

lemma path_base_path_of: "proper_name c \<Longrightarrow> path_base (path_of (cs @ [c])) = c"
proof -
  assume ok: "proper_name c"
  then have "drop_tail (\<lambda>x. x = CHR ''/'') (path_of cs @ CHR ''/'' # c) = path_of cs @ CHR ''/'' # c"
    using proper_name_last [OF ok]
    by (cases c rule: rev_cases) (auto simp: drop_tail_def proper_name_def)
  then show ?thesis using ok by (simp add: path_base_def tail_name)
qed

lemma path_dir_path_of:
  "proper_names cs \<Longrightarrow> proper_name c \<Longrightarrow> path_dir (path_of (cs @ [c])) = (if cs = [] then ''/'' else path_of cs)"
proof -
  assume ok: "proper_names cs" "proper_name c"
  have "split_byte CHR ''/'' (path_of cs @ ''/'') = [] # cs @ [[]]" if "cs \<noteq> []"
  proof -
    have "split_byte CHR ''/'' (d @ path_of cs @ ''/'') = d # cs @ [[]]" if "CHR ''/'' \<notin> set d" for d
      using ok(1) that
    proof (induction cs arbitrary: d)
      case Nil
      then show ?case by (simp add: split_byte_append)
    next
      case (Cons e cs)
      then have "CHR ''/'' \<notin> set e" by (simp add: proper_name_def)
      with Cons show ?case by (simp add: split_byte_append)
    qed
    from this [of "[]"] show ?thesis by simp
  qed
  moreover have "clean_parts True ([] # cs @ [[]]) = cs"
    using clean_parts_proper_names [OF ok(1)] by (simp add: clean_parts_def clean_step_def)
  moreover have "path_is_abs (path_of cs @ ''/'')" if "cs \<noteq> []"
    using that by (cases cs) (auto simp: path_is_abs_def)
  moreover have "path_clean ''/'' = ''/''" by code_simp
  ultimately show ?thesis
    using ok join_path_of [of cs] by (auto simp: path_dir_def tail_name path_clean_def Let_def)
qed

end
