(* ===== verification/Complete.thy ===== *)
theory Complete
  imports Go_Path "HOL-Library.List_Lexorder" "HOL-Library.Char_ord"
begin

text \<open>
  \<^verbatim>\<open>shell/internal/term/complete.go\<close>: the completers behind Tab and their composition. Listing
  a directory is the parameter \<open>read_dir\<close> (\<open>None\<close> for an error), the home directory a parameter
  too. \<open>sort.Strings\<close> is \<open>sort\<close> on the byte order of the library's lexicographic instance.
\<close>

section \<open>The completers\<close>

record completion_context =
  cc_token :: string
  cc_first_token :: bool
  cc_line :: string

type_synonym completer = "completion_context \<Rightarrow> string list \<times> bool"

text \<open>An entry of a directory; \<open>Info\<close> may fail, otherwise it gives the permission bits.\<close>

record dir_entry =
  de_name :: string
  de_is_dir :: bool
  de_mode :: "nat option"

type_synonym read_dir = "string \<Rightarrow> dir_entry list option"

definition builtin_names :: "string list" where
  "builtin_names = [''cache'', ''cd'', ''export'', ''restore'', ''stats'', ''theme'', ''undo'']"

definition builtin_complete :: completer where
  "builtin_complete ctx =
     (if \<not> cc_first_token ctx then ([], False)
      else
        (let out = filter (\<lambda>n. has_prefix n (cc_token ctx)) builtin_names in (out, 0 < length out)))"

text \<open>The names kept from one directory: executable files with the token as prefix.\<close>

definition executable_mode :: "nat \<Rightarrow> bool" where
  "executable_mode m \<longleftrightarrow> m div 64 mod 2 = 1 \<or> m div 8 mod 2 = 1 \<or> m mod 2 = 1"

definition binary_names :: "string \<Rightarrow> dir_entry list \<Rightarrow> string list" where
  "binary_names tok entries =
     map de_name (filter (\<lambda>e. \<not> de_is_dir e \<and> has_prefix (de_name e) tok
       \<and> (case de_mode e of None \<Rightarrow> False | Some m \<Rightarrow> executable_mode m)) entries)"

text \<open>The keys of the \<open>seen\<close> map, sorted.\<close>

definition sorted_keys :: "string list \<Rightarrow> string list" where
  "sorted_keys names = sort (remdups names)"

definition binary_complete :: "read_dir \<Rightarrow> string list \<Rightarrow> completer" where
  "binary_complete rd dirs ctx =
     (if \<not> cc_first_token ctx then ([], False)
      else
        (let seen = concat (map (\<lambda>d. case rd d of
                        None \<Rightarrow> []
                      | Some entries \<Rightarrow> binary_names (cc_token ctx) entries) dirs);
             out = sorted_keys seen
         in (out, 0 < length out)))"

text \<open>\<open>resolve\<close>: the directory to list, the prefix to match and what to print before a name.\<close>

definition path_resolve :: "string \<Rightarrow> string \<Rightarrow> string \<Rightarrow> string \<times> string \<times> string" where
  "path_resolve home_env cwd tok =
     (if has_prefix tok ''~/'' then
        (let home = (if home_env = [] then cwd else home_env);
             rest = drop 2 tok
         in case last_index_of rest ''/'' of
              None \<Rightarrow> (home, rest, ''~/'')
            | Some i \<Rightarrow> (path_join home (take i rest), drop (i + 1) rest, ''~/'' @ take (i + 1) rest))
      else if path_is_abs tok then
        (case last_index_of tok ''/'' of
           None \<Rightarrow> ([], tok, [])
         | Some i \<Rightarrow>
             if i = 0 then (''/'', drop 1 tok, ''/'')
             else (take i tok, drop (i + 1) tok, take (i + 1) tok))
      else
        (case last_index_of tok ''/'' of
           None \<Rightarrow> (cwd, tok, [])
         | Some i \<Rightarrow> (path_join cwd (take i tok), drop (i + 1) tok, take (i + 1) tok)))"

definition path_complete :: "read_dir \<Rightarrow> string \<Rightarrow> string \<Rightarrow> completer" where
  "path_complete rd home_env cwd ctx =
     (case path_resolve home_env cwd (cc_token ctx) of
        (dir, pre, display) \<Rightarrow>
          (case rd dir of
             None \<Rightarrow> ([], False)
           | Some entries \<Rightarrow>
               (let out = sort (map (\<lambda>e. display @ de_name e @ (if de_is_dir e then ''/'' else []))
                            (filter (\<lambda>e. has_prefix (de_name e) pre) entries))
                in (out, 0 < length out))))"

definition composite_complete :: "completer list \<Rightarrow> completer" where
  "composite_complete inner ctx =
     (let out = sorted_keys (concat (map (\<lambda>sub. fst (sub ctx)) inner)) in (out, 0 < length out))"

definition default_completer :: "read_dir \<Rightarrow> string \<Rightarrow> string \<Rightarrow> string list \<Rightarrow> completer" where
  "default_completer rd home_env cwd path_dirs =
     composite_complete [builtin_complete, binary_complete rd path_dirs, path_complete rd home_env cwd]"

section \<open>A completer extends the token\<close>

text \<open>The contract of a completer with the editor: every candidate begins with the token.\<close>

locale extending_completer =
  fixes complete :: completer
  assumes extends: "c \<in> set (fst (complete ctx)) \<Longrightarrow> has_prefix c (cc_token ctx)"
begin

lemma candidate_split: "c \<in> set (fst (complete ctx)) \<Longrightarrow> c = cc_token ctx @ drop (length (cc_token ctx)) c"
  using extends [of c ctx] by (auto simp: prefix_def)

end

lemma set_sorted_keys [simp]: "set (sorted_keys names) = set names"
  by (simp add: sorted_keys_def)

lemma sorted_keys_sorted: "sorted (sorted_keys names)" "distinct (sorted_keys names)"
  by (simp_all add: sorted_keys_def)

lemma path_resolve_token:
  assumes eq: "path_resolve home_env cwd tok = (dir, pre, display)"
  shows "display @ pre = tok"
proof (cases "has_prefix tok ''~/''")
  case True
  then obtain rest where "tok = ''~/'' @ rest" by (auto simp: prefix_def)
  with eq show ?thesis by (auto simp: path_resolve_def Let_def split: option.splits)
next
  case False
  show ?thesis
  proof (cases "path_is_abs tok")
    case True
    then obtain rest where "tok = CHR ''/'' # rest" by (auto simp: path_is_abs_def prefix_def)
    with eq True False show ?thesis by (auto simp: path_resolve_def split: option.splits if_splits)
  next
    case rel: False
    with eq False show ?thesis by (auto simp: path_resolve_def split: option.splits)
  qed
qed

lemma composite_candidates:
  "set (fst (composite_complete inner ctx)) = (\<Union>sub \<in> set inner. set (fst (sub ctx)))"
  by (simp add: composite_complete_def Let_def)

lemma path_complete_extends: "c \<in> set (fst (path_complete rd home_env cwd ctx)) \<Longrightarrow> has_prefix c (cc_token ctx)"
proof -
  obtain dir pre display where r: "path_resolve home_env cwd (cc_token ctx) = (dir, pre, display)"
    by (metis prod_cases3)
  assume "c \<in> set (fst (path_complete rd home_env cwd ctx))"
  then obtain name suf where "c = display @ name @ suf" "has_prefix name pre"
    by (auto simp: path_complete_def r Let_def split: option.splits if_splits)
  then show ?thesis using path_resolve_token [OF r] by (metis append.assoc prefix_def)
qed

lemma builtin_complete_extends: "c \<in> set (fst (builtin_complete ctx)) \<Longrightarrow> has_prefix c (cc_token ctx)"
  by (auto simp: builtin_complete_def Let_def split: if_splits)

lemma binary_complete_extends: "c \<in> set (fst (binary_complete rd dirs ctx)) \<Longrightarrow> has_prefix c (cc_token ctx)"
  by (auto simp: binary_complete_def binary_names_def Let_def split: if_splits option.splits)

interpretation default_completion: extending_completer "default_completer rd home_env cwd dirs"
  using path_complete_extends builtin_complete_extends binary_complete_extends
  by unfold_locales (auto simp: default_completer_def composite_candidates)

section \<open>Properties\<close>

text \<open>
  Completing never contradicts what was typed: every candidate of the production completer -
  built-ins, executables on the path, paths - begins with the token under the cursor; the
  candidates are sorted and without duplicates; off the first token only paths are offered; and
  the flag says exactly whether there is a candidate.
\<close>

theorem default_completer_sound:
  "(case default_completer rd home_env cwd dirs ctx of
      (out, some) \<Rightarrow>
        sorted out \<and> distinct out \<and> some = (out \<noteq> [])
        \<and> list_all (\<lambda>c. has_prefix c (cc_token ctx)) out)
   \<and> (\<not> cc_first_token ctx \<longrightarrow>
        set (fst (default_completer rd home_env cwd dirs ctx)) = set (fst (path_complete rd home_env cwd ctx)))"
proof (intro conjI impI)
  have ext: "list_all (\<lambda>c. has_prefix c (cc_token ctx)) (fst (default_completer rd home_env cwd dirs ctx))"
    using default_completion.extends [of _ rd home_env cwd dirs ctx] by (simp add: list.pred_set)
  have "default_completer rd home_env cwd dirs ctx = (sorted_keys names, sorted_keys names \<noteq> [])"
    if "names = concat (map (\<lambda>c. fst (c ctx))
      [builtin_complete, binary_complete rd dirs, path_complete rd home_env cwd])" for names
    using that by (simp only: default_completer_def composite_complete_def Let_def length_greater_0_conv)
  then show "case default_completer rd home_env cwd dirs ctx of
      (out, some) \<Rightarrow>
        sorted out \<and> distinct out \<and> some = (out \<noteq> [])
        \<and> list_all (\<lambda>c. has_prefix c (cc_token ctx)) out"
    using ext by (simp add: sorted_keys_sorted)
  assume "\<not> cc_first_token ctx"
  then show "set (fst (default_completer rd home_env cwd dirs ctx)) = set (fst (path_complete rd home_env cwd ctx))"
    by (simp add: default_completer_def composite_candidates builtin_complete_def binary_complete_def)
qed

definition sample_dir :: read_dir where
  "sample_dir d =
     (if d = ''/bin'' then Some [\<lparr>de_name = ''cat'', de_is_dir = False, de_mode = Some 493\<rparr>,
           \<lparr>de_name = ''cfg'', de_is_dir = False, de_mode = Some 420\<rparr>]
      else if d = ''/h'' then Some [\<lparr>de_name = ''code'', de_is_dir = True, de_mode = Some 493\<rparr>]
      else None)"

theorem default_completer_sound_witness:
  "let first = \<lparr>cc_token = ''c'', cc_first_token = True, cc_line = ''c''\<rparr>;
       later = \<lparr>cc_token = ''c'', cc_first_token = False, cc_line = ''ls c''\<rparr>
   in fst (default_completer sample_dir [] ''/h'' [''/bin''] first) = [''cache'', ''cat'', ''cd'', ''code/'']
      \<and> set (fst (default_completer sample_dir [] ''/h'' [''/bin''] later)) = {''code/''}"
proof -
  let ?later = "\<lparr>cc_token = ''c'', cc_first_token = False, cc_line = ''ls c''\<rparr>"
  have "fst (path_complete sample_dir [] ''/h'' ?later) = [''code/'']" by code_simp
  moreover have "fst (default_completer sample_dir [] ''/h'' [''/bin'']
      \<lparr>cc_token = ''c'', cc_first_token = True, cc_line = ''c''\<rparr>) = [''cache'', ''cat'', ''cd'', ''code/'']"
    by code_simp
  moreover have "\<not> cc_first_token ?later" by simp
  ultimately show ?thesis
    using default_completer_sound [where rd = sample_dir and home_env = "[]" and cwd = "''/h''"
      and dirs = "[''/bin'']" and ctx = ?later]
    by (simp only: Let_def) simp
qed

end
