(* ===== verification/Editor.thy ===== *)
theory Editor
  imports Keys Recall Screen Complete
begin

text \<open>
  \<^verbatim>\<open>shell/internal/term/editor.go\<close>: \<open>ReadLine\<close>, the loop that draws, reads a key and applies it
  to the line. One iteration is \<open>read_step\<close>; the local variables of the Go loop (the pending
  completions, the search and its stash) are fields of the state, so that an iteration is a
  function from state to state. The bytes written to the terminal are collected in \<open>ed_out\<close>.
\<close>

section \<open>Configuration and state\<close>

text \<open>\<open>cf_term\<close> is the raw terminal: absent, or present with the error its \<open>Enter\<close> returns, if any.\<close>

record 's editor_config =
  cf_prompt :: string
  cf_src :: "'s history_source"
  cf_hist :: 's
  cf_lower :: "rune \<Rightarrow> rune"
  cf_resolver :: "string \<Rightarrow> tier"
  cf_completer :: completer
  cf_term :: "string option option"

definition no_resolver :: "string \<Rightarrow> tier" where
  "no_resolver tok = Tier_ai_intent"

definition no_completer :: completer where
  "no_completer ctx = ([], False)"

text \<open>The empty list of completions is the nil slice: the code never keeps an empty one.\<close>

record editor =
  ed_buf :: line_buffer
  ed_nav :: history_nav
  ed_completions :: "string list"
  ed_comp_idx :: nat
  ed_comp_token :: string
  ed_comp_start :: nat
  ed_search :: "search option"
  ed_stash :: string
  ed_out :: string

datatype read_error = Err_interrupt | Err_eof | Err_cancelled | Err_read string | Err_term string

type_synonym outcome = "read_error + string"

abbreviation crlf :: string where "crlf \<equiv> [CHR 0x0D, CHR 0x0A]"

definition draw :: "'s editor_config \<Rightarrow> editor \<Rightarrow> editor" where
  "draw cf ed =
     (let f = (case ed_search ed of
           Some sr \<Rightarrow>
             \<lparr>fr_prompt = [], fr_line = [], fr_cursor = 0, fr_ghost = [], fr_spans = [],
              fr_search = Some \<lparr>so_query = string_of_runes (srch_query sr),
                so_match = search_current (cf_src cf) (cf_hist cf) sr\<rparr>\<rparr>
         | None \<Rightarrow>
             (let line = buf_string (ed_buf ed);
                  ghost = (if buf_cursor (ed_buf ed) = length (buf_runes (ed_buf ed))
                           then suggest (cf_src cf) (cf_hist cf) line else [])
              in \<lparr>fr_prompt = cf_prompt cf, fr_line = line, fr_cursor = buf_cursor (ed_buf ed),
                  fr_ghost = ghost, fr_spans = highlight line (Some (cf_resolver cf)), fr_search = None\<rparr>))
      in ed\<lparr>ed_out := ed_out ed @ render_frame f\<rparr>)"

section \<open>Search mode\<close>

text \<open>\<open>handleSearchKey\<close>: the flags \<open>done\<close> and \<open>accepted\<close>, the line, the search and the editor.\<close>

definition handle_search_key ::
  "'s editor_config \<Rightarrow> editor \<Rightarrow> search \<Rightarrow> key \<Rightarrow> string \<Rightarrow> (bool \<times> bool \<times> string) \<times> search \<times> editor" where
  "handle_search_key cf ed sr k stash =
     (let src = cf_src cf; hist = cf_hist cf in
      case key_type k of
        KeyEnter \<Rightarrow>
          (let m = search_current src hist sr in
           if m = [] then ((True, False, []), sr, ed)
           else ((True, True, m), sr, ed\<lparr>ed_out := ed_out ed @ crlf\<rparr>))
      | KeyCtrlC \<Rightarrow> ((True, False, []), sr, ed)
      | KeyEsc \<Rightarrow> ((True, False, []), sr, ed)
      | KeyCtrlR \<Rightarrow> ((False, False, []), fst (search_next (cf_lower cf) src hist sr), ed)
      | KeyBackspace \<Rightarrow> ((False, False, []), search_backspace (cf_lower cf) src hist sr, ed)
      | KeyRune \<Rightarrow> ((False, False, []), search_append_query (cf_lower cf) src hist sr (key_rune k), ed)
      | _ \<Rightarrow>
          (let m = search_current src hist sr in
           ((True, False, []), sr,
            ed\<lparr>ed_buf := buf_end (set_text (ed_buf ed) (if m \<noteq> [] then m else stash))\<rparr>)))"

definition search_key_step :: "'s editor_config \<Rightarrow> editor \<Rightarrow> search \<Rightarrow> key \<Rightarrow> editor \<times> outcome option" where
  "search_key_step cf ed sr k =
     (case handle_search_key cf ed sr k (ed_stash ed) of
        ((fin, accepted, line), sr', ed') \<Rightarrow>
          if fin then
            (if accepted then (ed', Some (Inr line))
             else (ed'\<lparr>ed_search := None, ed_buf := buf_end (set_text (ed_buf ed') (ed_stash ed'))\<rparr>, None))
          else (ed'\<lparr>ed_search := Some sr'\<rparr>, None))"

section \<open>Tab\<close>

text \<open>
  The Tab case: cycle when the token under the cursor is the candidate written by the last Tab,
  else ask the completer; then replace the token with the chosen candidate.
\<close>

definition tab_step :: "'s editor_config \<Rightarrow> editor \<Rightarrow> editor" where
  "tab_step cf ed =
     (case token_at_cursor (ed_buf ed) of
        (tok, start, is_first) \<Rightarrow>
          (let repeat = (ed_completions ed \<noteq> [] \<and> start = ed_comp_start ed \<and> tok = ed_comp_token ed);
               cands = fst (cf_completer cf \<lparr>cc_token = tok, cc_first_token = is_first,
                                  cc_line = buf_string (ed_buf ed)\<rparr>)
           in if \<not> repeat \<and> cands = [] then ed\<lparr>ed_completions := []\<rparr>
              else
                (let ed1 = (if repeat
                            then ed\<lparr>ed_comp_idx := (ed_comp_idx ed + 1) mod length (ed_completions ed)\<rparr>
                            else ed\<lparr>ed_completions := cands, ed_comp_idx := 0, ed_comp_start := start\<rparr>);
                     chosen = ed_completions ed1 ! ed_comp_idx ed1;
                     runes = buf_runes (ed_buf ed1);
                     old_end = start + length (runes_of tok);
                     new_text = string_of_runes (take start runes) @ chosen @ string_of_runes (drop old_end runes)
                 in ed1\<lparr>ed_buf := set_cursor (set_text (ed_buf ed1) new_text)
                              (int (start + length (runes_of chosen))),
                        ed_comp_token := chosen\<rparr>)))"

section \<open>One key\<close>

definition accept_ghost :: "line_buffer \<Rightarrow> string \<Rightarrow> line_buffer" where
  "accept_ghost b g = buf_end (set_text b (buf_string b @ g))"

definition edit_key :: "'s editor_config \<Rightarrow> editor \<Rightarrow> key \<Rightarrow> editor \<times> outcome option" where
  "edit_key cf ed k =
     (let b = ed_buf ed; src = cf_src cf; hist = cf_hist cf in
      case key_type k of
        KeyEnter \<Rightarrow> (ed\<lparr>ed_out := ed_out ed @ crlf\<rparr>, Some (Inr (buf_string b)))
      | KeyCtrlC \<Rightarrow> (ed\<lparr>ed_out := ed_out ed @ ''^C'' @ crlf\<rparr>, Some (Inl Err_interrupt))
      | KeyCtrlD \<Rightarrow>
          if buf_runes b = [] then (ed\<lparr>ed_out := ed_out ed @ crlf\<rparr>, Some (Inl Err_eof))
          else (ed\<lparr>ed_buf := delete_rune b\<rparr>, None)
      | KeyBackspace \<Rightarrow> (ed\<lparr>ed_buf := backspace b\<rparr>, None)
      | KeyDelete \<Rightarrow> (ed\<lparr>ed_buf := delete_rune b\<rparr>, None)
      | KeyCtrlA \<Rightarrow> (ed\<lparr>ed_buf := buf_home b\<rparr>, None)
      | KeyHome \<Rightarrow> (ed\<lparr>ed_buf := buf_home b\<rparr>, None)
      | KeyCtrlE \<Rightarrow> (ed\<lparr>ed_buf := buf_end b\<rparr>, None)
      | KeyEnd \<Rightarrow> (ed\<lparr>ed_buf := buf_end b\<rparr>, None)
      | KeyCtrlB \<Rightarrow> (ed\<lparr>ed_buf := move_left b\<rparr>, None)
      | KeyLeft \<Rightarrow> (ed\<lparr>ed_buf := move_left b\<rparr>, None)
      | KeyCtrlF \<Rightarrow>
          (let g = suggest src hist (buf_string b) in
           (ed\<lparr>ed_buf := (if g \<noteq> [] then accept_ghost b g else move_right b)\<rparr>, None))
      | KeyRight \<Rightarrow>
          if buf_cursor b = length (buf_runes b) then
            (let g = suggest src hist (buf_string b) in
             (if g \<noteq> [] then ed\<lparr>ed_buf := accept_ghost b g\<rparr> else ed, None))
          else (ed\<lparr>ed_buf := move_right b\<rparr>, None)
      | KeyCtrlU \<Rightarrow> (ed\<lparr>ed_buf := kill_to_start b\<rparr>, None)
      | KeyCtrlW \<Rightarrow> (ed\<lparr>ed_buf := kill_word b\<rparr>, None)
      | KeyUp \<Rightarrow>
          (case history_up src hist (ed_nav ed, b) of (h, b') \<Rightarrow> (ed\<lparr>ed_nav := h, ed_buf := b'\<rparr>, None))
      | KeyDown \<Rightarrow>
          (case history_down src hist (ed_nav ed, b) of (h, b') \<Rightarrow> (ed\<lparr>ed_nav := h, ed_buf := b'\<rparr>, None))
      | KeyTab \<Rightarrow> (tab_step cf ed, None)
      | KeyCtrlR \<Rightarrow> (ed\<lparr>ed_stash := buf_string b, ed_search := Some new_search\<rparr>, None)
      | KeyEsc \<Rightarrow> (ed, None)
      | KeyRune \<Rightarrow> (ed\<lparr>ed_buf := insert_rune b (key_rune k)\<rparr>, None)
      | KeyUnknown \<Rightarrow> (ed, None))"

definition read_step :: "'s editor_config \<Rightarrow> editor \<Rightarrow> key \<Rightarrow> editor \<times> outcome option" where
  "read_step cf ed k =
     (let ed1 = (if key_type k \<noteq> KeyTab \<and> ed_completions ed \<noteq> []
                 then ed\<lparr>ed_completions := [], ed_comp_idx := 0\<rparr> else ed)
      in case ed_search ed1 of
           Some sr \<Rightarrow> search_key_step cf ed1 sr k
         | None \<Rightarrow> edit_key cf ed1 k)"

section \<open>ReadLine\<close>

text \<open>Every key read consumes input, so the loop ends.\<close>

lemma next_key_consumes:
  "next_key rb inp = (Inr k, rb', inp') \<Longrightarrow> length (pending_bytes rb' inp') < length (pending_bytes rb inp)"
proof (induction inp arbitrary: rb)
  case Nil
  obtain q n ok where dk: "decode_key rb = (q, n, ok)" by (metis prod_cases3)
  show ?case
    using Nil decode_key_shape [OF dk] by (auto simp: next_key.simps [of rb] dk split: if_splits)
next
  case (Cons r inp)
  obtain q n ok where dk: "decode_key rb = (q, n, ok)" by (metis prod_cases3)
  obtain q2 n2 ok2 where dk2: "decode_key (rb @ fst r) = (q2, n2, ok2)" by (metis prod_cases3)
  note shape = decode_key_shape [OF dk] decode_key_shape [OF dk2]
  consider (ready) "ok" | (more_input) "\<not> ok" "snd r = None" | (failed) e where "\<not> ok" "snd r = Some e"
    by (cases "snd r") auto
  then show ?case
  proof cases
    case ready
    with Cons.prems shape show ?thesis by (auto simp: next_key.simps [of rb] dk split: if_splits)
  next
    case more_input
    with Cons.prems have "next_key (rb @ fst r) inp = (Inr k, rb', inp')" by (simp add: next_key.simps [of rb] dk)
    from Cons.IH [OF this] show ?thesis by simp
  next
    case failed
    with Cons.prems shape show ?thesis
      by (auto simp: next_key.simps [of rb] dk dk2 Let_def split: if_splits)
  qed
qed

text \<open>\<open>cancelled i\<close>: whether the context is done at the check of the \<open>i\<close>-th iteration.\<close>

function read_line_loop ::
  "'s editor_config \<Rightarrow> (nat \<Rightarrow> bool) \<Rightarrow> nat \<Rightarrow> editor \<Rightarrow> string \<Rightarrow> stdin \<Rightarrow> outcome \<times> editor \<times> string \<times> stdin" where
  "read_line_loop cf cancelled i ed0 rb inp =
     (let ed = draw cf ed0 in
      if cancelled i then (Inl Err_cancelled, ed, rb, inp)
      else
        (case next_key rb inp of
           (Inl Eof, rb', inp') \<Rightarrow>
             (if buf_runes (ed_buf ed) = [] then Inl Err_eof else Inr (buf_string (ed_buf ed)), ed, rb', inp')
         | (Inl (Read_failed e), rb', inp') \<Rightarrow> (Inl (Err_read e), ed, rb', inp')
         | (Inr k, rb', inp') \<Rightarrow>
             (case read_step cf ed k of
                (ed', Some res) \<Rightarrow> (res, ed', rb', inp')
              | (ed', None) \<Rightarrow> read_line_loop cf cancelled (i + 1) ed' rb' inp')))"
  by pat_completeness auto
termination
  by (relation "measure (\<lambda>(cf, c, i, ed, rb, inp). length (pending_bytes rb inp))")
    (auto dest: next_key_consumes [OF sym])

declare read_line_loop.simps [simp del]

datatype tty_event = Tty_enter | Tty_restore

definition fresh_editor :: "'s editor_config \<Rightarrow> line_buffer \<Rightarrow> string \<Rightarrow> editor" where
  "fresh_editor cf b out =
     \<lparr>ed_buf = buf_clear b, ed_nav = new_history_nav (cf_src cf) (cf_hist cf), ed_completions = [],
      ed_comp_idx = 0, ed_comp_token = [], ed_comp_start = 0, ed_search = None, ed_stash = [], ed_out = out\<rparr>"

definition read_line ::
  "'s editor_config \<Rightarrow> (nat \<Rightarrow> bool) \<Rightarrow> line_buffer \<Rightarrow> string \<Rightarrow> string \<Rightarrow> stdin \<Rightarrow>
     (outcome \<times> editor \<times> string \<times> stdin) \<times> tty_event list" where
  "read_line cf cancelled b out rb inp =
     (let ed = fresh_editor cf b out in
      case cf_term cf of
        None \<Rightarrow> (read_line_loop cf cancelled 0 ed rb inp, [])
      | Some (Some e) \<Rightarrow> ((Inl (Err_term e), ed\<lparr>ed_buf := b\<rparr>, rb, inp), [Tty_enter])
      | Some None \<Rightarrow> (read_line_loop cf cancelled 0 ed rb inp, [Tty_enter, Tty_restore]))"

section \<open>Editing keys\<close>

text \<open>The keys that are plain operations of the line buffer.\<close>

definition key_op :: "key \<Rightarrow> buffer_op option" where
  "key_op k =
     (case key_type k of
        KeyRune \<Rightarrow> Some (Op_insert (key_rune k))
      | KeyBackspace \<Rightarrow> Some Op_backspace
      | KeyDelete \<Rightarrow> Some Op_delete
      | KeyCtrlA \<Rightarrow> Some Op_home
      | KeyHome \<Rightarrow> Some Op_home
      | KeyCtrlE \<Rightarrow> Some Op_end
      | KeyEnd \<Rightarrow> Some Op_end
      | KeyCtrlB \<Rightarrow> Some Op_left
      | KeyLeft \<Rightarrow> Some Op_left
      | KeyCtrlU \<Rightarrow> Some Op_kill_to_start
      | KeyCtrlW \<Rightarrow> Some Op_kill_word
      | _ \<Rightarrow> None)"

abbreviation typed_key :: "key \<Rightarrow> bool" where
  "typed_key k \<equiv> key_sendable k \<and> key_ascii k \<and> key_op k \<noteq> None"

lemma read_step_op:
  "ed_search ed = None \<Longrightarrow> key_op k = Some opn \<Longrightarrow>
     \<exists>ed'. read_step cf ed k = (ed', None) \<and> ed_search ed' = None \<and> ed_buf ed' = apply_op (ed_buf ed) opn"
  by (cases "key_type k") (auto simp: key_op_def read_step_def edit_key_def Let_def)

lemma draw_fields [simp]: "ed_buf (draw cf ed) = ed_buf ed" "ed_search (draw cf ed) = ed_search ed"
  by (simp_all add: draw_def Let_def)

lemma read_line_loop_typed:
  "list_all typed_key ks \<Longrightarrow> ed_search ed = None \<Longrightarrow> no_errors inp \<Longrightarrow>
     pending_bytes rb inp = concat (map key_bytes ks) @ [CHR 0x0D] @ tail \<Longrightarrow>
     \<exists>ed' rb' inp'. read_line_loop cf (\<lambda>_. False) i ed rb inp =
       (Inr (buf_string (foldl apply_op (ed_buf ed) (map (\<lambda>k. the (key_op k)) ks))), ed', rb', inp')
       \<and> pending_bytes rb' inp' = tail"
proof (induction ks arbitrary: ed rb inp i)
  case Nil
  have enter: "key_sendable (plain_key KeyEnter)" "key_ascii (plain_key KeyEnter)"
    "key_bytes (plain_key KeyEnter) = [CHR 0x0D]"
    by (simp_all add: key_sendable_def key_ascii_def key_bytes_def)
  with Nil obtain rb' inp' where "next_key rb inp = (Inr (plain_key KeyEnter), rb', inp')"
    "pending_bytes rb' inp' = tail"
    using next_key_delivers [of "plain_key KeyEnter" rb inp tail] by auto
  with Nil(2) show ?case
    by (subst read_line_loop.simps) (simp add: Let_def read_step_def edit_key_def)
next
  case (Cons k ks)
  then obtain rb' inp' where key: "next_key rb inp = (Inr k, rb', inp')"
    and rest: "pending_bytes rb' inp' = concat (map key_bytes ks) @ [CHR 0x0D] @ tail" "no_errors inp'"
    using next_key_delivers [of k rb inp "concat (map key_bytes ks) @ [CHR 0x0D] @ tail"] by auto
  obtain opn where opn: "key_op k = Some opn" using Cons.prems(1) by auto
  obtain ed' where step: "read_step cf (draw cf ed) k = (ed', None)" "ed_search ed' = None"
    "ed_buf ed' = apply_op (ed_buf ed) opn"
    using read_step_op [of "draw cf ed" k opn cf] opn Cons.prems(2) by auto
  have "read_line_loop cf (\<lambda>_. False) i ed rb inp = read_line_loop cf (\<lambda>_. False) (i + 1) ed' rb' inp'"
    using key step by (subst read_line_loop.simps) (simp add: Let_def)
  moreover from Cons.IH [of ed' inp' rb' "i + 1"] Cons.prems(1) rest step
  have "\<exists>ed'' rb'' inp''. read_line_loop cf (\<lambda>_. False) (i + 1) ed' rb' inp' =
      (Inr (buf_string (foldl apply_op (ed_buf ed') (map (\<lambda>k. the (key_op k)) ks))), ed'', rb'', inp'')
      \<and> pending_bytes rb'' inp'' = tail" by simp
  ultimately show ?case using step opn by simp
qed

lemma foldl_apply_op_split:
  "buf_inv b \<Longrightarrow>
     buf_inv (foldl apply_op b ops) \<and> split_at_cursor (foldl apply_op b ops) = foldl split_op (split_at_cursor b) ops"
  by (induction ops arbitrary: b) (simp_all add: apply_op_refines)

section \<open>The state of the editor stays in range\<close>

definition editor_inv :: "'s editor_config \<Rightarrow> editor \<Rightarrow> bool" where
  "editor_inv cf ed \<longleftrightarrow>
     buf_inv (ed_buf ed)
     \<and> nav_idx (ed_nav ed) \<le> hs_len (cf_src cf) (cf_hist cf)
     \<and> (case ed_search ed of None \<Rightarrow> True | Some sr \<Rightarrow> search_inv (cf_lower cf) (cf_src cf) (cf_hist cf) sr)
     \<and> (ed_completions ed = [] \<or> ed_comp_idx ed < length (ed_completions ed))"

lemmas buffer_ops_inv =
  apply_op_inv [of _ "Op_insert r" for r, simplified] apply_op_inv [of _ Op_backspace, simplified]
  apply_op_inv [of _ Op_delete, simplified] apply_op_inv [of _ Op_left, simplified]
  apply_op_inv [of _ Op_right, simplified] apply_op_inv [of _ Op_home, simplified]
  apply_op_inv [of _ Op_end, simplified] apply_op_inv [of _ Op_kill_to_start, simplified]
  apply_op_inv [of _ Op_kill_word, simplified] apply_op_inv [of _ "Op_set_text s" for s, simplified]
  apply_op_inv [of _ "Op_set_cursor c" for c, simplified]

lemma history_up_inv:
  assumes "nav_idx h \<le> hs_len src s" "buf_inv b" "history_up src s (h, b) = (h', b')"
  shows "nav_idx h' \<le> hs_len src s \<and> buf_inv b'"
proof -
  define h0 where "h0 = (if nav_idx h = hs_len src s then nav_set_stash src s h (buf_string b) else h)"
  obtain line ok where up: "nav_up src s h0 = (h', line, ok)" and b': "b' = (if ok then buf_end (set_text b line) else b)"
    using assms(3) unfolding history_up_def fst_conv snd_conv h0_def [symmetric] Let_def
    by (auto split: prod.splits)
  have "nav_idx h0 \<le> hs_len src s" using assms(1) by (simp add: h0_def nav_set_stash_def)
  with up have "nav_idx h' \<le> hs_len src s" by (auto simp: nav_up_def Let_def split: if_splits)
  with b' assms(2) show ?thesis by (simp add: buffer_ops_inv)
qed

lemma history_down_inv:
  assumes "nav_idx h \<le> hs_len src s" "buf_inv b" "history_down src s (h, b) = (h', b')"
  shows "nav_idx h' \<le> hs_len src s \<and> buf_inv b'"
proof -
  obtain line ok where down: "nav_down src s h = (h', line, ok)" and b': "b' = (if ok then buf_end (set_text b line) else b)"
    using assms(3) by (auto simp: history_down_def split: prod.splits)
  from down assms(1) have "nav_idx h' \<le> hs_len src s" by (auto simp: nav_down_def Let_def split: if_splits)
  with b' assms(2) show ?thesis by (simp add: buffer_ops_inv)
qed

lemma tab_step_inv: "editor_inv cf ed \<Longrightarrow> editor_inv cf (tab_step cf ed)"
  by (auto simp: tab_step_def editor_inv_def Let_def buffer_ops_inv split: prod.splits)

lemma edit_key_inv:
  assumes inv: "editor_inv cf ed"
  shows "editor_inv cf (fst (edit_key cf ed k))"
proof -
  have rng: "nav_idx (ed_nav ed) \<le> hs_len (cf_src cf) (cf_hist cf)" "buf_inv (ed_buf ed)"
    using inv by (simp_all add: editor_inv_def)
  have moved: "editor_inv cf (ed\<lparr>ed_nav := h, ed_buf := b\<rparr>)"
    if "nav_idx h \<le> hs_len (cf_src cf) (cf_hist cf) \<and> buf_inv b" for h b
    using inv that by (simp add: editor_inv_def)
  have set_buf: "editor_inv cf (ed\<lparr>ed_buf := b\<rparr>)" if "buf_inv b" for b
    using inv that by (simp add: editor_inv_def)
  show ?thesis
  proof (cases "key_type k")
    case KeyUp
    obtain h b where "history_up (cf_src cf) (cf_hist cf) (ed_nav ed, ed_buf ed) = (h, b)" by fastforce
    with history_up_inv [OF rng this] KeyUp moved show ?thesis by (simp add: edit_key_def)
  next
    case KeyDown
    obtain h b where "history_down (cf_src cf) (cf_hist cf) (ed_nav ed, ed_buf ed) = (h, b)" by fastforce
    with history_down_inv [OF rng this] KeyDown moved show ?thesis by (simp add: edit_key_def)
  next
    case KeyTab
    then show ?thesis by (simp add: edit_key_def tab_step_inv inv)
  next
    case KeyCtrlR
    with inv show ?thesis by (simp add: edit_key_def editor_inv_def search_inv_def new_search_def)
  next
    case KeyEnter
    with inv show ?thesis by (simp add: edit_key_def editor_inv_def)
  next
    case KeyCtrlC
    with inv show ?thesis by (simp add: edit_key_def editor_inv_def)
  next
    case KeyCtrlD
    with inv rng show ?thesis
      by (cases "buf_runes (ed_buf ed) = []")
        (simp add: edit_key_def editor_inv_def, simp add: edit_key_def set_buf buffer_ops_inv)
  qed (simp_all add: edit_key_def Let_def set_buf buffer_ops_inv rng accept_ghost_def inv)
qed

lemma search_key_step_inv:
  assumes "editor_inv cf ed" "ed_search ed = Some sr"
  shows "editor_inv cf (fst (search_key_step cf ed sr k))"
proof -
  have sr: "search_inv (cf_lower cf) (cf_src cf) (cf_hist cf) sr" using assms by (simp add: editor_inv_def)
  note steps = search_step_inv [OF sr, of Search_next] search_step_inv [OF sr, of Search_backspace]
    search_step_inv [OF sr, of "Search_rune (key_rune k)"]
  show ?thesis
    using assms steps
    by (cases "key_type k")
      (auto simp: search_key_step_def handle_search_key_def editor_inv_def Let_def buffer_ops_inv)
qed

lemma read_step_inv [inv_intros]: "editor_inv cf ed \<Longrightarrow> editor_inv cf (fst (read_step cf ed k))"
proof -
  assume inv: "editor_inv cf ed"
  define ed1 where "ed1 = (if key_type k \<noteq> KeyTab \<and> ed_completions ed \<noteq> []
                 then ed\<lparr>ed_completions := [], ed_comp_idx := 0\<rparr> else ed)"
  have "editor_inv cf ed1" using inv by (simp add: ed1_def editor_inv_def)
  then show ?thesis
    unfolding read_step_def Let_def ed1_def [symmetric]
    by (cases "ed_search ed1") (simp_all add: edit_key_inv search_key_step_inv)
qed

lemma token_in_range:
  "buf_inv b \<Longrightarrow> token_at_cursor b = (tok, start, is_first) \<Longrightarrow>
     start \<le> length (buf_runes b) \<and> start + length (runes_of tok) \<le> length (buf_runes b)"
proof -
  assume inv: "buf_inv b" and tok: "token_at_cursor b = (tok, start, is_first)"
  obtain l r where b: "buf_runes b = l @ r" "buf_cursor b = length l" using buf_inv_split [OF inv] by metis
  define P where "P = (\<lambda>x. \<not> is_space x)"
  have "b = \<lparr>buf_runes = l @ r, buf_cursor = length l\<rparr>" using b by simp
  moreover have "length (drop_tail P l) + length (take_tail P l) = length l"
    by (metis drop_tail_append_take_tail length_append)
  moreover have "length (takeWhile P r) \<le> length r" by (rule length_takeWhile_le)
  ultimately show ?thesis
    using tok unfolding token_at_cursor_split P_def [symmetric]
    by (auto simp: token_at_cursor_split Let_def P_def [symmetric] simp del: string_of_runes_simps split: if_splits)
qed

section \<open>Completing a word\<close>

lemma token_around:
  assumes "pre = [] \<or> is_space (last pre)" "post = [] \<or> is_space (hd post)" "\<forall>x \<in> set w. \<not> is_space x" "w \<noteq> []"
  shows "token_at_cursor \<lparr>buf_runes = pre @ w @ post, buf_cursor = length pre + length w\<rparr> =
     (string_of_runes w, length pre, list_all is_space pre)"
proof -
  define P where "P = (\<lambda>x. \<not> is_space x)"
  have tails: "drop_tail P (pre @ w) = pre" "take_tail P (pre @ w) = w"
  proof -
    have "dropWhile P (rev pre) = rev pre" "takeWhile P (rev pre) = []"
      using assms(1) by (cases pre rule: rev_cases; simp add: P_def)+
    moreover have "\<forall>x \<in> set (rev w). P x" using assms(3) by (simp add: P_def)
    ultimately show "drop_tail P (pre @ w) = pre" "take_tail P (pre @ w) = w"
      by (simp_all add: drop_tail_def take_tail_def dropWhile_append takeWhile_append)
  qed
  have "takeWhile P post = []" using assms(2) by (cases post) (auto simp: P_def)
  moreover have "\<not> is_space (last (pre @ w))" using assms(3,4) by simp
  ultimately show ?thesis
    using token_at_cursor_split [of "pre @ w" post] tails assms(4) by (simp add: P_def [symmetric] Let_def)
qed

definition word_candidate :: "string \<Rightarrow> bool" where
  "word_candidate c \<longleftrightarrow> c \<noteq> [] \<and> valid_utf8 c \<and> list_all (\<lambda>x. \<not> is_space x) (runes_of c)"

lemma replace_token:
  assumes "list_all valid_rune (pre @ post)" "valid_utf8 c"
  shows "set_cursor (set_text b (string_of_runes pre @ c @ string_of_runes post)) (int (length pre + length (runes_of c))) =
     b\<lparr>buf_runes := pre @ runes_of c @ post, buf_cursor := length pre + length (runes_of c)\<rparr>"
proof -
  have "string_of_runes pre @ c @ string_of_runes post = string_of_runes (pre @ runes_of c @ post)"
    using assms(2) by (simp add: valid_utf8_def)
  moreover have "\<forall>r \<in> set (pre @ runes_of c @ post). valid_rune r"
    using assms(1) valid_rune_runes_of by (auto simp: list.pred_set)
  ultimately show ?thesis
    by (simp only: set_text_def runes_of_string_of_valid) (simp add: set_cursor_def Let_def)
qed

lemma tab_step_fresh:
  assumes "ed_completions ed = []" "ed_buf ed = \<lparr>buf_runes = pre @ w @ post, buf_cursor = length pre + length w\<rparr>"
    and "token_at_cursor (ed_buf ed) = (string_of_runes w, length pre, first)"
    and "list_all valid_rune (pre @ post)"
    and "cands = fst (cf_completer cf \<lparr>cc_token = string_of_runes w, cc_first_token = first, cc_line = buf_string (ed_buf ed)\<rparr>)"
    and "cands \<noteq> []" "valid_utf8 (cands ! 0)"
  shows "let ed' = tab_step cf ed in
     ed_completions ed' = cands \<and> ed_comp_idx ed' = 0 \<and> ed_comp_start ed' = length pre
     \<and> ed_comp_token ed' = cands ! 0 \<and> ed_search ed' = ed_search ed
     \<and> ed_buf ed' = \<lparr>buf_runes = pre @ runes_of (cands ! 0) @ post, buf_cursor = length pre + length (runes_of (cands ! 0))\<rparr>"
  using assms replace_token [OF assms(4,7), of "ed_buf ed"] by (simp add: tab_step_def Let_def)

lemma tab_step_again:
  assumes "ed_completions ed = cands" "ed_comp_idx ed = i" "ed_comp_start ed = length pre" "ed_comp_token ed = c"
    and "ed_buf ed = \<lparr>buf_runes = pre @ runes_of c @ post, buf_cursor = length pre + length (runes_of c)\<rparr>"
    and "pre = [] \<or> is_space (last pre)" "post = [] \<or> is_space (hd post)" "list_all valid_rune (pre @ post)"
    and "word_candidate c" "d = cands ! (Suc i mod length cands)" "valid_utf8 d" "cands \<noteq> []"
  shows "let ed' = tab_step cf ed in
     ed_completions ed' = cands \<and> ed_comp_idx ed' = Suc i mod length cands \<and> ed_comp_start ed' = length pre
     \<and> ed_comp_token ed' = d \<and> ed_search ed' = ed_search ed
     \<and> ed_buf ed' = \<lparr>buf_runes = pre @ runes_of d @ post, buf_cursor = length pre + length (runes_of d)\<rparr>"
proof -
  have c: "runes_of c \<noteq> []" "\<forall>x \<in> set (runes_of c). \<not> is_space x" "string_of_runes (runes_of c) = c"
    using assms(9) by (auto simp: word_candidate_def valid_utf8_def list.pred_set)
  have "token_at_cursor (ed_buf ed) = (c, length pre, list_all is_space pre)"
    using token_around [OF assms(6,7) c(2,1)] c(3) by (simp add: assms(5))
  with assms replace_token [OF assms(8,11), of "ed_buf ed"] show ?thesis
    by (simp add: tab_step_def Let_def)
qed

section \<open>Properties\<close>

text \<open>
  C1. From bytes to the line: whatever way the terminal's bytes are cut into reads, if the user
  types ASCII characters and editing keys and then Enter, \<open>ReadLine\<close> returns the text that the
  same operations give on the abstract split line, puts the terminal in raw mode and restores it,
  and leaves the bytes after the Enter for the next call.
\<close>

theorem read_line_returns_typed:
  assumes "list_all typed_key ks" "concat chunks = concat (map key_bytes ks) @ [CHR 0x0D] @ tail"
    and "cf_term cf = Some None"
  shows "case read_line cf (\<lambda>_. False) b out [] (map (\<lambda>c. (c, None)) chunks) of
     ((res, ed, rb, inp), ttys) \<Rightarrow>
       res = (case foldl split_op ([], []) (map (\<lambda>k. the (key_op k)) ks) of
                (l, r) \<Rightarrow> Inr (string_of_runes (rev l @ r)))
       \<and> pending_bytes rb inp = tail \<and> ttys = [Tty_enter, Tty_restore]"
proof -
  let ?inp = "map (\<lambda>c. (c, None)) chunks :: stdin" and ?ed = "fresh_editor cf b out"
  let ?ops = "map (\<lambda>k. the (key_op k)) ks"
  have "no_errors ?inp" "pending_bytes [] ?inp = concat (map key_bytes ks) @ [CHR 0x0D] @ tail"
    using assms(2) by (simp_all add: list.pred_set comp_def)
  moreover have ed: "ed_search ?ed = None" "ed_buf ?ed = buf_clear b" "buf_inv (buf_clear b)"
    "split_at_cursor (buf_clear b) = ([], [])"
    by (simp_all add: fresh_editor_def buf_clear_def buf_inv_def split_at_cursor_def)
  ultimately obtain ed' rb' inp' where loop: "read_line_loop cf (\<lambda>_. False) 0 ?ed [] ?inp =
       (Inr (buf_string (foldl apply_op (buf_clear b) ?ops)), ed', rb', inp')" "pending_bytes rb' inp' = tail"
    using read_line_loop_typed [OF assms(1), of ?ed ?inp "[]" tail cf 0] by auto
  have "split_at_cursor (foldl apply_op (buf_clear b) ?ops) = foldl split_op ([], []) ?ops"
    using foldl_apply_op_split [OF ed(3), of ?ops] ed(4) by simp
  then have "buf_string (foldl apply_op (buf_clear b) ?ops) =
      (case foldl split_op ([], []) ?ops of (l, r) \<Rightarrow> string_of_runes (rev l @ r))"
    by (simp add: buf_string_def split_at_cursor_runes split: prod.split)
  with loop assms(3) show ?thesis by (simp add: read_line_def split: prod.split)
qed

definition sample_config :: "memory_source editor_config" where
  "sample_config =
     \<lparr>cf_prompt = ''$ '', cf_src = memory_history, cf_hist = [''second''], cf_lower = id,
      cf_resolver = no_resolver, cf_completer = no_completer, cf_term = Some None\<rparr>"

theorem read_line_returns_typed_witness:
  "fst (fst (read_line sample_config (\<lambda>_. False) new_buffer [] []
     [(''abc'' @ [CHR 0x1B], None), (''[Hx'' @ [CHR 0x0D], None), (''next'', None)])) = Inr ''xabc''"
proof -
  let ?rune = "\<lambda>r. \<lparr>key_type = KeyRune, key_rune = r\<rparr>"
  let ?ks = "[?rune 97, ?rune 98, ?rune 99, plain_key KeyHome, ?rune 120]"
  let ?chunks = "[''abc'' @ [CHR 0x1B], ''[Hx'' @ [CHR 0x0D], ''next'']"
  have ok: "list_all typed_key ?ks" "concat ?chunks = concat (map key_bytes ?ks) @ [CHR 0x0D] @ ''next''"
    "cf_term sample_config = Some None"
    by code_simp+
  have line: "((case foldl split_op ([], []) (map (\<lambda>k. the (key_op k)) ?ks) of
      (l, r) \<Rightarrow> Inr (string_of_runes (rev l @ r))) :: outcome) = Inr ''xabc''" by code_simp
  from read_line_returns_typed [OF ok, of new_buffer "[]"] show ?thesis
    unfolding line by (simp split: prod.splits)
qed

text \<open>
  C34. Nothing the user types takes the editor out of range: after any sequence of keys the cursor
  is inside the line, the history position inside the source, a search either has no match or
  points at a recorded line that contains its query, a pending completion index is inside the
  candidates, and the token that the next Tab would replace lies inside the line.
\<close>

theorem editor_stays_in_range:
  "let ed = foldl (\<lambda>ed k. fst (read_step cf ed k)) (fresh_editor cf b out) ks in
   editor_inv cf ed
   \<and> (case token_at_cursor (ed_buf ed) of
        (tok, start, _) \<Rightarrow> start + length (runes_of tok) \<le> length (buf_runes (ed_buf ed)))"
proof -
  have "editor_inv cf (foldl (\<lambda>ed k. fst (read_step cf ed k)) ed ks)" if "editor_inv cf ed" for ed
    using that by (induction ks arbitrary: ed) (simp_all add: read_step_inv)
  moreover have "editor_inv cf (fresh_editor cf b out)"
    by (simp add: editor_inv_def fresh_editor_def buf_clear_def buf_inv_def new_history_nav_def)
  ultimately have inv: "editor_inv cf (foldl (\<lambda>ed k. fst (read_step cf ed k)) (fresh_editor cf b out) ks)"
    by blast
  then show ?thesis
    using token_in_range [of "ed_buf (foldl (\<lambda>ed k. fst (read_step cf ed k)) (fresh_editor cf b out) ks)"]
    by (auto simp: Let_def editor_inv_def split: prod.split)
qed

text \<open>
  Leaving a search by another key loses the match: in search mode any key but Enter, Ctrl-R,
  Backspace and characters ends the search with the text typed before it in the buffer, the
  cursor at its end, even when a recorded line matched; the line that \<open>handleSearchKey\<close> put
  into the buffer is overwritten. Enter on a match returns the match.
\<close>

theorem search_exit_restores_typed_text:
  assumes "ed_search ed = Some sr"
  shows "(key_type k \<notin> {KeyEnter, KeyCtrlR, KeyBackspace, KeyRune} \<longrightarrow>
       (case read_step cf ed k of
          (ed', res) \<Rightarrow> res = None \<and> ed_search ed' = None
            \<and> ed_buf ed' = \<lparr>buf_runes = runes_of (ed_stash ed), buf_cursor = length (runes_of (ed_stash ed))\<rparr>))
    \<and> (key_type k = KeyEnter \<and> search_current (cf_src cf) (cf_hist cf) sr \<noteq> [] \<longrightarrow>
       snd (read_step cf ed k) = Some (Inr (search_current (cf_src cf) (cf_hist cf) sr)))"
  using assms
  by (cases "key_type k")
    (auto simp: read_step_def search_key_step_def handle_search_key_def Let_def buf_end_def set_text_def)

theorem search_exit_restores_typed_text_witness:
  "let ed0 = foldl (\<lambda>ed k. fst (read_step sample_config ed k)) (fresh_editor sample_config new_buffer [])
       [\<lparr>key_type = KeyRune, key_rune = 120\<rparr>, plain_key KeyCtrlR, \<lparr>key_type = KeyRune, key_rune = 101\<rparr>];
       ed = fst (read_step sample_config ed0 (plain_key KeyLeft))
   in map_option (search_current memory_history [''second'']) (ed_search ed0) = Some ''second''
      \<and> ed_buf ed = \<lparr>buf_runes = [120], buf_cursor = 1\<rparr>"
proof -
  let ?ed0 = "foldl (\<lambda>ed k. fst (read_step sample_config ed k)) (fresh_editor sample_config new_buffer [])
       [\<lparr>key_type = KeyRune, key_rune = 120\<rparr>, plain_key KeyCtrlR, \<lparr>key_type = KeyRune, key_rune = 101\<rparr>]"
  have ed0: "ed_search ?ed0 = Some \<lparr>srch_query = [101], srch_idx = 0\<rparr>" "runes_of (ed_stash ?ed0) = [120]"
    "map_option (search_current memory_history [''second'']) (ed_search ?ed0) = Some ''second''"
    by code_simp+
  have "key_type (plain_key KeyLeft) \<notin> {KeyEnter, KeyCtrlR, KeyBackspace, KeyRune}" by simp
  with search_exit_restores_typed_text [OF ed0(1), of "plain_key KeyLeft" sample_config] ed0
  show ?thesis unfolding Let_def by (auto split: prod.splits)
qed

text \<open>
  Tab cycles: with the cursor at the end of a word, the candidates being words without blanks,
  the n-th press of Tab in a row leaves the line with exactly that word replaced by the n-th
  candidate, counted round and round, everything before and after it untouched and the cursor
  after the candidate.
\<close>

theorem tab_cycles:
  assumes "ed_search ed = None" "ed_completions ed = []"
    and "ed_buf ed = \<lparr>buf_runes = pre @ w @ post, buf_cursor = length pre + length w\<rparr>"
    and "pre = [] \<or> is_space (last pre)" "post = [] \<or> is_space (hd post)"
    and "w \<noteq> []" "\<forall>x \<in> set w. \<not> is_space x" "list_all valid_rune (pre @ post)"
    and "cands = fst (cf_completer cf \<lparr>cc_token = string_of_runes w, cc_first_token = list_all is_space pre,
                        cc_line = buf_string (ed_buf ed)\<rparr>)"
    and "cands \<noteq> []" "list_all word_candidate cands"
  shows "let ed' = ((\<lambda>e. fst (read_step cf e (plain_key KeyTab))) ^^ Suc n) ed;
             c = runes_of (cands ! (n mod length cands))
         in ed_buf ed' = \<lparr>buf_runes = pre @ c @ post, buf_cursor = length pre + length c\<rparr>"
proof -
  have word: "word_candidate (cands ! (i mod length cands))" for i
    using assms(10,11) by (simp add: list_all_length)
  then have valid: "valid_utf8 (cands ! (i mod length cands))" for i by (simp add: word_candidate_def)
  have tab: "fst (read_step cf e (plain_key KeyTab)) = tab_step cf e" if "ed_search e = None" for e
    using that by (simp add: read_step_def edit_key_def)
  let ?at = "\<lambda>n e. ed_completions e = cands \<and> ed_comp_idx e = n mod length cands \<and> ed_comp_start e = length pre
     \<and> ed_comp_token e = cands ! (n mod length cands) \<and> ed_search e = None
     \<and> ed_buf e = \<lparr>buf_runes = pre @ runes_of (cands ! (n mod length cands)) @ post,
           buf_cursor = length pre + length (runes_of (cands ! (n mod length cands)))\<rparr>"
  have "?at n (((\<lambda>e. fst (read_step cf e (plain_key KeyTab))) ^^ Suc n) ed)"
  proof (induction n)
    case 0
    have "token_at_cursor (ed_buf ed) = (string_of_runes w, length pre, list_all is_space pre)"
      using token_around [OF assms(4,5,7,6)] assms(3) by simp
    from tab_step_fresh [OF assms(2,3) this assms(8,9,10)] valid [of 0] assms(1) show ?case
      by (simp add: tab Let_def)
  next
    case (Suc n)
    let ?e = "((\<lambda>e. fst (read_step cf e (plain_key KeyTab))) ^^ Suc n) ed"
    have "Suc (n mod length cands) mod length cands = Suc n mod length cands" by (rule mod_Suc_eq)
    with Suc.IH tab_step_again [of ?e cands "n mod length cands" pre "cands ! (n mod length cands)" post
        "cands ! (Suc n mod length cands)" cf] word assms(4,5,8,10) valid [of "Suc n"]
    show ?case by (simp add: tab Let_def)
  qed
  then show ?thesis by (simp add: Let_def)
qed

theorem tab_cycles_witness:
  "let cf = sample_config\<lparr>cf_completer := (\<lambda>_. ([''alpha'', ''beta''], True))\<rparr>;
       ed = (fresh_editor cf new_buffer [])\<lparr>ed_buf := \<lparr>buf_runes = [97], buf_cursor = 1\<rparr>\<rparr>
   in buf_string (ed_buf (((\<lambda>e. fst (read_step cf e (plain_key KeyTab))) ^^ Suc 2) ed)) = ''alpha''"
proof -
  let ?cf = "sample_config\<lparr>cf_completer := (\<lambda>_. ([''alpha'', ''beta''], True))\<rparr>"
  let ?ed = "(fresh_editor ?cf new_buffer [])\<lparr>ed_buf := \<lparr>buf_runes = [97], buf_cursor = 1\<rparr>\<rparr>"
  have ok: "list_all word_candidate [''alpha'', ''beta'']" "string_of_runes (runes_of ''alpha'') = ''alpha''"
    "\<forall>x \<in> set [97]. \<not> is_space x"
    by code_simp+
  have "ed_buf (((\<lambda>e. fst (read_step ?cf e (plain_key KeyTab))) ^^ Suc 2) ?ed) =
      \<lparr>buf_runes = runes_of ''alpha'', buf_cursor = length (runes_of ''alpha'')\<rparr>"
    using tab_cycles [of ?ed "[]" "[97]" "[]" "[''alpha'', ''beta'']" ?cf 2] ok
    by (simp add: fresh_editor_def Let_def numeral_2_eq_2 [symmetric] del: runes_of.simps)
  with ok(2) show ?thesis by (simp add: Let_def buf_string_def)
qed

end
