(* ===== verification/Parser.thy ===== *)
theory Parser
  imports Go_Strings
begin

text \<open>
  \<^verbatim>\<open>shell/internal/parser/parser.go\<close>: one input line to a pipeline of commands. \<open>tokenize\<close> is
  the rune-by-rune lexer (quotes, \<open>|\<close>, \<open>&\<close>, white space); \<open>parse_line\<close> peels a final
  \<open>&\<close> off and splits at the pipes. The main result is a round trip: printing a pipeline with
  every word quoted and parsing the line gives the pipeline back.
\<close>

section \<open>Data\<close>

record command =
  cmd_name :: string
  cmd_args :: "string list"
  cmd_tainted :: bool

record pipeline =
  commands :: "command list"
  background :: bool
  tainted :: bool

datatype tok_kind = TokWord | TokPipe | TokAmp

datatype token = Token (tok_kind_of: tok_kind) (tok_value: string)

text \<open>The errors of \<open>tokenize\<close> and \<open>Parse\<close>, one constructor per \<open>fmt.Errorf\<close>.\<close>

datatype parse_error =
    Unterminated_single
  | Unterminated_double
  | Amp_not_last
  | Empty_stage
  | Amp_without_command

definition empty_pipeline :: pipeline where
  "empty_pipeline = \<lparr>commands = [], background = False, tainted = False\<rparr>"

section \<open>The lexer\<close>

text \<open>The variables of \<open>tokenize\<close>: the tokens so far, the word being built, \<open>inWord\<close>.\<close>

record lex =
  lex_tokens :: "token list"
  lex_current :: string
  lex_in_word :: bool

definition lex_flush :: "lex \<Rightarrow> lex" where
  "lex_flush l =
     (if lex_in_word l
      then l\<lparr>lex_tokens := lex_tokens l @ [Token TokWord (lex_current l)],
             lex_current := [], lex_in_word := False\<rparr>
      else l)"

definition lex_write :: "string \<Rightarrow> lex \<Rightarrow> lex" where
  "lex_write s l = l\<lparr>lex_current := lex_current l @ s, lex_in_word := True\<rparr>"

definition lex_emit :: "tok_kind \<Rightarrow> lex \<Rightarrow> lex" where
  "lex_emit k l = (lex_flush l)\<lparr>lex_tokens := lex_tokens (lex_flush l) @ [Token k []]\<rparr>"

definition is_blank :: "rune \<Rightarrow> bool" where
  "is_blank r \<longleftrightarrow> r = 32 \<or> r = 9 \<or> r = 10 \<or> r = 13"

text \<open>39 and 34 are the quotes, 124 is \<open>|\<close>, 38 is \<open>&\<close>.\<close>

function tokenize_loop :: "lex \<Rightarrow> rune list \<Rightarrow> parse_error + token list" where
  "tokenize_loop l [] = Inr (lex_tokens (lex_flush l))"
| "tokenize_loop l (r # rs) =
     (if r = 39 then
        (case dropWhile (\<lambda>c. c \<noteq> 39) rs of
           [] \<Rightarrow> Inl Unterminated_single
         | _ # after \<Rightarrow> tokenize_loop (lex_write (string_of_runes (takeWhile (\<lambda>c. c \<noteq> 39) rs)) l) after)
      else if r = 34 then
        (case dropWhile (\<lambda>c. c \<noteq> 34) rs of
           [] \<Rightarrow> Inl Unterminated_double
         | _ # after \<Rightarrow> tokenize_loop (lex_write (string_of_runes (takeWhile (\<lambda>c. c \<noteq> 34) rs)) l) after)
      else if r = 124 then tokenize_loop (lex_emit TokPipe l) rs
      else if r = 38 then tokenize_loop (lex_emit TokAmp l) rs
      else if is_blank r then tokenize_loop (lex_flush l) rs
      else tokenize_loop (lex_write (encode_rune r) l) rs)"
  by pat_completeness auto
termination
  by (relation "measure (\<lambda>(_, rs). length rs)")
    (auto simp: less_Suc_eq_le dest!: length_dropWhile_less)

declare tokenize_loop.simps(2) [simp del]

definition lex_start :: lex where
  "lex_start = \<lparr>lex_tokens = [], lex_current = [], lex_in_word = False\<rparr>"

definition tokenize :: "string \<Rightarrow> parse_error + token list" where
  "tokenize input = tokenize_loop lex_start (runes_of input)"

section \<open>Parse\<close>

text \<open>The background marker: a \<open>&\<close> is accepted as the last token only, and dropped.\<close>

fun peel_amp :: "token list \<Rightarrow> parse_error + token list \<times> bool" where
  "peel_amp [] = Inr ([], False)"
| "peel_amp (t # ts) =
     (if tok_kind_of t \<noteq> TokAmp then
        (case peel_amp ts of Inl e \<Rightarrow> Inl e | Inr (us, bg) \<Rightarrow> Inr (t # us, bg))
      else if ts \<noteq> [] then Inl Amp_not_last
      else Inr ([], True))"

text \<open>The loop over the tokens with its variables \<open>stages\<close>, \<open>current\<close>, \<open>sawAnyStage\<close>.\<close>

fun split_stages ::
  "string list list \<Rightarrow> string list \<Rightarrow> bool \<Rightarrow> token list \<Rightarrow>
     parse_error + string list list \<times> string list \<times> bool" where
  "split_stages stages current saw [] = Inr (stages, current, saw)"
| "split_stages stages current saw (t # ts) =
     (if tok_kind_of t = TokPipe then
        (if current = [] then Inl Empty_stage
         else split_stages (stages @ [current]) [] True ts)
      else split_stages stages (current @ [tok_value t]) saw ts)"

text \<open>\<open>stage[0]\<close> and \<open>stage[1:]\<close>; no stage is empty here (\<open>split_stages_nonempty\<close>).\<close>

definition stage_command :: "string list \<Rightarrow> command" where
  "stage_command stage = \<lparr>cmd_name = hd stage, cmd_args = tl stage, cmd_tainted = False\<rparr>"

definition parse_tokens :: "token list \<Rightarrow> parse_error + pipeline" where
  "parse_tokens tokens =
     (if tokens = [] then Inr empty_pipeline
      else case peel_amp tokens of
        Inl e \<Rightarrow> Inl e
      | Inr (toks, bg) \<Rightarrow>
          (case split_stages [] [] False toks of
             Inl e \<Rightarrow> Inl e
           | Inr (stages, current, saw) \<Rightarrow>
               if current = [] then
                 (if saw then Inl Empty_stage
                  else if bg then Inl Amp_without_command
                  else Inr empty_pipeline)
               else Inr \<lparr>commands = map stage_command (stages @ [current]),
                         background = bg, tainted = False\<rparr>))"

definition parse_line :: "string \<Rightarrow> parse_error + pipeline" where
  "parse_line input =
     (case tokenize input of Inl e \<Rightarrow> Inl e | Inr tokens \<Rightarrow> parse_tokens tokens)"

section \<open>The lexer, step by step\<close>

lemma lex_flush_simps [simp]:
  "lex_in_word (lex_flush l) = False"
  "lex_flush (lex_flush l) = lex_flush l"
  by (simp_all add: lex_flush_def)

lemma tokenize_blank: "is_blank r \<Longrightarrow> tokenize_loop l (r # rs) = tokenize_loop (lex_flush l) rs"
  by (auto simp: tokenize_loop.simps(2) is_blank_def)

lemma tokenize_pipe: "tokenize_loop l (124 # rs) = tokenize_loop (lex_emit TokPipe l) rs"
  by (simp add: tokenize_loop.simps(2))

lemma tokenize_amp: "tokenize_loop l (38 # rs) = tokenize_loop (lex_emit TokAmp l) rs"
  by (simp add: tokenize_loop.simps(2))

lemma tokenize_single:
  "39 \<notin> set w \<Longrightarrow> tokenize_loop l (39 # w @ 39 # rs) = tokenize_loop (lex_write (string_of_runes w) l) rs"
  by (simp add: tokenize_loop.simps(2))

lemma tokenize_double:
  "34 \<notin> set w \<Longrightarrow> tokenize_loop l (34 # w @ 34 # rs) = tokenize_loop (lex_write (string_of_runes w) l) rs"
  by (simp add: tokenize_loop.simps(2))

text \<open>Between two words, after a separator: no word is pending and nothing has been written.\<close>

definition at_rest :: "lex \<Rightarrow> bool" where
  "at_rest l \<longleftrightarrow> \<not> lex_in_word l \<and> lex_current l = []"

definition add_token :: "token \<Rightarrow> lex \<Rightarrow> lex" where
  "add_token t l = l\<lparr>lex_tokens := lex_tokens l @ [t]\<rparr>"

lemma at_rest_simps [simp]:
  "at_rest lex_start" "at_rest (add_token t l) = at_rest l"
  by (simp_all add: at_rest_def add_token_def lex_start_def)

lemma flush_at_rest [simp]: "at_rest l \<Longrightarrow> lex_flush l = l"
  by (simp add: at_rest_def lex_flush_def)

lemma flush_written [simp]: "at_rest l \<Longrightarrow> lex_flush (lex_write s l) = add_token (Token TokWord s) l"
  by (simp add: at_rest_def lex_flush_def lex_write_def add_token_def)

lemma emit_at_rest [simp]: "at_rest l \<Longrightarrow> lex_emit k l = add_token (Token k []) l"
  by (simp add: lex_emit_def add_token_def)

section \<open>Printing a pipeline\<close>

text \<open>
  A word is printed in single quotes, or in double quotes when it holds a single quote; a word
  with both kinds cannot be written in one piece in this grammar.
\<close>

definition quote_word :: "string \<Rightarrow> rune list" where
  "quote_word w =
     (let rs = runes_of w in if 39 \<in> set rs then 34 # rs @ [34] else 39 # rs @ [39])"

definition word_ok :: "string \<Rightarrow> bool" where
  "word_ok w \<longleftrightarrow> valid_utf8 w \<and> \<not> (39 \<in> set (runes_of w) \<and> 34 \<in> set (runes_of w))"

fun render_words :: "string list \<Rightarrow> rune list" where
  "render_words [] = []"
| "render_words (w # ws) = quote_word w @ 32 # render_words ws"

definition render_command :: "command \<Rightarrow> rune list" where
  "render_command c = render_words (cmd_name c # cmd_args c)"

fun render_commands :: "command list \<Rightarrow> rune list" where
  "render_commands [] = []"
| "render_commands [c] = render_command c"
| "render_commands (c # d # cs) = render_command c @ 124 # 32 # render_commands (d # cs)"

definition render_pipeline :: "pipeline \<Rightarrow> string" where
  "render_pipeline p = string_of_runes (render_commands (commands p) @ (if background p then [38] else []))"

definition command_ok :: "command \<Rightarrow> bool" where
  "command_ok c \<longleftrightarrow> list_all word_ok (cmd_name c # cmd_args c) \<and> \<not> cmd_tainted c"

definition pipeline_ok :: "pipeline \<Rightarrow> bool" where
  "pipeline_ok p \<longleftrightarrow> commands p \<noteq> [] \<and> list_all command_ok (commands p) \<and> \<not> tainted p"

lemma tokenize_quoted:
  assumes "word_ok w" "at_rest l"
  shows "tokenize_loop l (quote_word w @ 32 # rs) = tokenize_loop (add_token (Token TokWord w) l) rs"
proof -
  have w: "string_of_runes (runes_of w) = w" using assms(1) by (simp add: word_ok_def valid_utf8_def)
  have "is_blank 32" by (simp add: is_blank_def)
  with assms w tokenize_single [of "runes_of w" l] tokenize_double [of "runes_of w" l]
  show ?thesis by (auto simp: quote_word_def Let_def word_ok_def tokenize_blank)
qed

definition add_tokens :: "token list \<Rightarrow> lex \<Rightarrow> lex" where
  "add_tokens ts l = l\<lparr>lex_tokens := lex_tokens l @ ts\<rparr>"

lemma add_tokens_simps [simp]:
  "add_tokens [] l = l" "add_tokens ts (add_token t l) = add_tokens (t # ts) l"
  "add_token t (add_tokens ts l) = add_tokens (ts @ [t]) l"
  "add_tokens us (add_tokens ts l) = add_tokens (ts @ us) l"
  "lex_tokens (add_tokens ts l) = lex_tokens l @ ts"
  "at_rest (add_tokens ts l) = at_rest l"
  by (simp_all add: add_tokens_def add_token_def at_rest_def)

lemma tokenize_words:
  "list_all word_ok ws \<Longrightarrow> at_rest l \<Longrightarrow>
     tokenize_loop l (render_words ws @ rs) = tokenize_loop (add_tokens (map (Token TokWord) ws) l) rs"
  by (induction ws arbitrary: l) (simp_all add: tokenize_quoted)

text \<open>The tokens of a printed pipeline.\<close>

definition command_tokens :: "command \<Rightarrow> token list" where
  "command_tokens c = map (Token TokWord) (cmd_name c # cmd_args c)"

fun pipeline_tokens :: "command list \<Rightarrow> token list" where
  "pipeline_tokens [] = []"
| "pipeline_tokens [c] = command_tokens c"
| "pipeline_tokens (c # d # cs) = command_tokens c @ Token TokPipe [] # pipeline_tokens (d # cs)"

lemma tokenize_render_command:
  "command_ok c \<Longrightarrow> at_rest l \<Longrightarrow>
     tokenize_loop l (render_command c @ rs) = tokenize_loop (add_tokens (command_tokens c) l) rs"
  unfolding render_command_def command_tokens_def command_ok_def by (simp only: tokenize_words)

lemma tokenize_render_commands:
  "list_all command_ok cs \<Longrightarrow> at_rest l \<Longrightarrow>
     tokenize_loop l (render_commands cs @ rs) = tokenize_loop (add_tokens (pipeline_tokens cs) l) rs"
proof (induction cs arbitrary: l rule: render_commands.induct)
  case 1
  then show ?case by simp
next
  case (2 c)
  then show ?case by (simp add: tokenize_render_command)
next
  case (3 c d cs)
  have "is_blank 32" by (simp add: is_blank_def)
  with 3 show ?case
    by (simp add: tokenize_render_command tokenize_pipe tokenize_blank)
qed

section \<open>Parsing the tokens of a printed pipeline\<close>

lemma peel_amp_none: "list_all (\<lambda>t. tok_kind_of t \<noteq> TokAmp) ts \<Longrightarrow> peel_amp ts = Inr (ts, False)"
  by (induction ts) auto

lemma peel_amp_last:
  "list_all (\<lambda>t. tok_kind_of t \<noteq> TokAmp) ts \<Longrightarrow> peel_amp (ts @ [Token TokAmp []]) = Inr (ts, True)"
  by (induction ts) auto

lemma split_stages_words:
  "split_stages st cur saw (map (Token TokWord) ws @ ts) = split_stages st (cur @ ws) saw ts"
  by (induction ws arbitrary: cur) simp_all

definition command_words :: "command \<Rightarrow> string list" where
  "command_words c = cmd_name c # cmd_args c"

lemma split_stages_pipeline:
  "cs \<noteq> [] \<Longrightarrow>
     split_stages st [] saw (pipeline_tokens cs) =
       Inr (st @ map command_words (butlast cs), command_words (last cs), saw \<or> 1 < length cs)"
proof (induction cs arbitrary: st saw rule: pipeline_tokens.induct)
  case 1
  then show ?case by simp
next
  case (2 c)
  show ?case
    using split_stages_words [of st "[]" saw "command_words c" "[]"]
    by (simp add: command_tokens_def command_words_def)
next
  case (3 c d cs)
  have "split_stages st [] saw (pipeline_tokens (c # d # cs)) =
      split_stages (st @ [command_words c]) [] True (pipeline_tokens (d # cs))"
    using split_stages_words [of st "[]" saw "command_words c" "Token TokPipe [] # pipeline_tokens (d # cs)"]
    by (simp add: command_tokens_def command_words_def)
  with 3 show ?case by simp
qed

lemma pipeline_tokens_no_amp: "list_all (\<lambda>t. tok_kind_of t \<noteq> TokAmp) (pipeline_tokens cs)"
  by (induction cs rule: pipeline_tokens.induct) (auto simp: command_tokens_def list.pred_set)

lemma pipeline_tokens_not_Nil: "cs \<noteq> [] \<Longrightarrow> pipeline_tokens cs \<noteq> []"
  by (cases cs rule: pipeline_tokens.cases) (auto simp: command_tokens_def)

lemma stage_command_words: "command_ok c \<Longrightarrow> stage_command (command_words c) = c"
  by (simp add: stage_command_def command_words_def command_ok_def)

lemma map_stage_command:
  "list_all command_ok cs \<Longrightarrow> cs \<noteq> [] \<Longrightarrow>
     map stage_command (map command_words (butlast cs) @ [command_words (last cs)]) = cs"
proof -
  assume ok: "list_all command_ok cs" and ne: "cs \<noteq> []"
  have "map command_words (butlast cs) @ [command_words (last cs)] = map command_words cs"
    using ne by (metis append_butlast_last_id list.simps(8) list.simps(9) map_append)
  with ok show ?thesis by (simp add: map_idI stage_command_words list.pred_set)
qed

lemma parse_pipeline_tokens:
  assumes "list_all command_ok cs" "cs \<noteq> []"
  shows "parse_tokens (pipeline_tokens cs @ (if bg then [Token TokAmp []] else [])) =
      Inr \<lparr>commands = cs, background = bg, tainted = False\<rparr>"
proof -
  have "peel_amp (pipeline_tokens cs @ (if bg then [Token TokAmp []] else [])) =
      Inr (pipeline_tokens cs, bg)"
    using peel_amp_none peel_amp_last pipeline_tokens_no_amp by simp
  then show ?thesis
    using assms split_stages_pipeline [OF assms(2), of "[]" False] pipeline_tokens_not_Nil [OF assms(2)]
      map_stage_command [OF assms]
    by (simp add: parse_tokens_def command_words_def)
qed

lemma word_runes_valid: "r \<in> set (quote_word w) \<Longrightarrow> valid_rune r"
  by (auto simp: quote_word_def Let_def valid_rune_runes_of split: if_splits)
    (simp_all add: valid_rune_def)

lemma render_words_valid: "r \<in> set (render_words ws) \<Longrightarrow> valid_rune r"
  by (induction ws) (auto simp: word_runes_valid, simp add: valid_rune_def)

lemma render_commands_valid: "r \<in> set (render_commands cs) \<Longrightarrow> valid_rune r"
proof (induction cs rule: render_commands.induct)
  case (3 c d cs)
  then show ?case
    by (auto simp: render_command_def render_words_valid simp del: render_words.simps)
      (simp_all add: valid_rune_def)
qed (auto simp: render_command_def render_words_valid simp del: render_words.simps)

lemma tokenize_render_pipeline:
  assumes "pipeline_ok p"
  shows "tokenize (render_pipeline p) =
      Inr (pipeline_tokens (commands p) @ (if background p then [Token TokAmp []] else []))"
proof -
  let ?tail = "if background p then [38] else []"
  have "runes_of (render_pipeline p) = render_commands (commands p) @ ?tail"
    unfolding render_pipeline_def
  proof (rule runes_of_string_of_valid)
    have "valid_rune 38" by (simp add: valid_rune_def)
    then show "\<forall>r \<in> set (render_commands (commands p) @ ?tail). valid_rune r"
      using render_commands_valid by auto
  qed
  then show ?thesis
    using assms tokenize_render_commands [of "commands p" lex_start ?tail]
    by (auto simp: tokenize_def pipeline_ok_def tokenize_amp add_token_def lex_start_def at_rest_def
        lex_flush_def add_tokens_def lex_emit_def)
qed

section \<open>What Parse returns\<close>

lemma split_stages_nonempty:
  "split_stages st cur saw ts = Inr (st', cur', saw') \<Longrightarrow> [] \<notin> set st \<Longrightarrow>
     [] \<notin> set st' \<and> (saw' \<longleftrightarrow> saw \<or> (\<exists>t \<in> set ts. tok_kind_of t = TokPipe))"
  by (induction st cur saw ts rule: split_stages.induct) (auto split: if_splits)

lemma split_stages_count:
  "split_stages st cur saw ts = Inr (st', cur', saw') \<Longrightarrow>
     length st' = length st + count_list (map tok_kind_of ts) TokPipe"
  by (induction st cur saw ts rule: split_stages.induct) (auto split: if_splits)

lemma split_stages_current:
  "split_stages st cur saw ts = Inr (st', [], False) \<Longrightarrow> cur = [] \<and> ts = []"
  by (induction st cur saw ts rule: split_stages.induct)
    (auto split: if_splits dest: split_stages_nonempty)

lemma peel_amp_empty: "peel_amp ts = Inr ([], False) \<Longrightarrow> ts = []"
  by (cases ts) (auto split: if_splits sum.splits)

lemma peel_amp_pipes:
  "peel_amp ts = Inr (us, bg) \<Longrightarrow>
     count_list (map tok_kind_of us) TokPipe = count_list (map tok_kind_of ts) TokPipe"
  by (induction ts arbitrary: us bg) (auto split: if_splits sum.splits)

lemma parse_tokens_no_commands:
  assumes "parse_tokens ts = Inr p" "commands p = []"
  shows "ts = []"
proof (rule ccontr)
  assume ne: "ts \<noteq> []"
  with assms obtain us bg where us: "peel_amp ts = Inr (us, bg)"
    by (auto simp: parse_tokens_def split: sum.splits)
  with ne assms obtain st saw where "split_stages [] [] False us = Inr (st, [], saw)" "\<not> saw" "\<not> bg"
    by (auto simp: parse_tokens_def split: sum.splits if_splits)
  then have "us = []" using split_stages_current by fastforce
  with us \<open>\<not> bg\<close> peel_amp_empty ne show False by auto
qed

lemma parse_tokens_shape:
  assumes "parse_tokens ts = Inr p"
  shows "\<not> tainted p \<and> list_all (\<lambda>c. \<not> cmd_tainted c) (commands p)
      \<and> (background p \<longrightarrow> commands p \<noteq> [])
      \<and> (commands p \<noteq> [] \<longrightarrow> length (commands p) = Suc (count_list (map tok_kind_of ts) TokPipe))"
proof -
  have empty: "\<not> tainted empty_pipeline" "commands empty_pipeline = []" "\<not> background empty_pipeline"
    by (simp_all add: empty_pipeline_def)
  show ?thesis
    using assms empty
    by (auto simp: parse_tokens_def list.pred_set stage_command_def
        dest!: split_stages_count peel_amp_pipes split: if_splits sum.splits)
qed

lemma tokenize_loop_nonempty:
  "tokenize_loop l rs = Inr [] \<Longrightarrow> lex_tokens l = [] \<and> \<not> lex_in_word l \<and> list_all is_blank rs"
proof (induction l rs rule: tokenize_loop.induct)
  case (1 l)
  then show ?case by (auto simp: lex_flush_def split: if_splits)
next
  case (2 l r rs)
  have written: "lex_in_word (lex_write s l)" for s by (simp add: lex_write_def)
  have emitted: "lex_tokens (lex_emit k l) \<noteq> []" for k by (simp add: lex_emit_def)
  have "is_blank r"
  proof (rule ccontr)
    assume "\<not> is_blank r"
    with 2 written emitted show False
      by (auto simp: tokenize_loop.simps(2) split: if_splits list.splits)
  qed
  with 2 show ?case
    by (auto simp: tokenize_blank lex_flush_def is_blank_def split: if_splits)
qed

lemma tokenize_loop_blank:
  "list_all is_blank rs \<Longrightarrow> \<not> lex_in_word l \<Longrightarrow> tokenize_loop l rs = Inr (lex_tokens l)"
  by (induction rs) (auto simp: tokenize_blank lex_flush_def)

lemma tokenize_empty_iff: "tokenize s = Inr [] \<longleftrightarrow> list_all is_blank (runes_of s)"
  using tokenize_loop_nonempty [of lex_start "runes_of s"] tokenize_loop_blank [of "runes_of s" lex_start]
  by (auto simp: tokenize_def lex_start_def)

section \<open>Properties\<close>

text \<open>
  C5. Round trip of the command-line grammar. A pipeline whose words each avoid one of the two
  quote characters, printed with every word quoted, stages separated by a pipe and a final
  ampersand for a background job, is parsed back to exactly itself: quoting protects white
  space, pipes and ampersands inside words, the argument vectors keep their order, and the
  background flag is set exactly by the trailing ampersand.
\<close>

theorem parse_print_roundtrip: "pipeline_ok p \<Longrightarrow> parse_line (render_pipeline p) = Inr p"
  using parse_pipeline_tokens [of "commands p" "background p"] tokenize_render_pipeline [of p]
  by (simp add: parse_line_def pipeline_ok_def)

definition example_pipeline :: pipeline where
  "example_pipeline =
     \<lparr>commands = [\<lparr>cmd_name = ''grep'', cmd_args = [''a | b'', ''it'' @ [CHR 0x27] @ ''s''], cmd_tainted = False\<rparr>,
                  \<lparr>cmd_name = ''wc'', cmd_args = [[]], cmd_tainted = False\<rparr>],
      background = True, tainted = False\<rparr>"

theorem parse_print_roundtrip_witness:
  "pipeline_ok example_pipeline \<and> parse_line (render_pipeline example_pipeline) = Inr example_pipeline"
proof -
  have ok: "pipeline_ok example_pipeline" by code_simp
  show ?thesis using ok parse_print_roundtrip [OF ok] by simp
qed

text \<open>
  A line is a no-op for the shell (it parses without error to no command at all) exactly
  when it consists of blanks, tabs, carriage returns and newlines; in particular a line with an
  unquoted ampersand or an empty quoted word is never silently ignored.
\<close>

theorem parse_noop_iff_blank:
  "(\<exists>p. parse_line s = Inr p \<and> commands p = []) \<longleftrightarrow> list_all is_blank (runes_of s)"
proof
  assume "\<exists>p. parse_line s = Inr p \<and> commands p = []"
  then have "tokenize s = Inr []"
    using parse_tokens_no_commands by (auto simp: parse_line_def split: sum.splits)
  then show "list_all is_blank (runes_of s)" by (simp add: tokenize_empty_iff)
next
  assume "list_all is_blank (runes_of s)"
  then have "tokenize s = Inr []" by (simp add: tokenize_empty_iff)
  then show "\<exists>p. parse_line s = Inr p \<and> commands p = []"
    by (simp add: parse_line_def parse_tokens_def empty_pipeline_def)
qed

text \<open>
  C40. Shape of every successful parse: nothing is tainted by the parser itself, a background
  pipeline has at least one command, and a pipeline that is not empty has exactly one command
  more than the line has unquoted pipes.
\<close>

theorem parse_result_shape:
  assumes "tokenize s = Inr ts" and "parse_line s = Inr p"
  shows "\<not> tainted p \<and> list_all (\<lambda>c. \<not> cmd_tainted c) (commands p)
      \<and> (background p \<longrightarrow> commands p \<noteq> [])
      \<and> (commands p \<noteq> [] \<longrightarrow> length (commands p) = Suc (count_list (map tok_kind_of ts) TokPipe))"
  using assms parse_tokens_shape [of ts p] by (simp add: parse_line_def)

definition example_line :: string where
  "example_line = ''cat f | sort&''"

definition example_tokens :: "token list" where
  "example_tokens =
     [Token TokWord ''cat'', Token TokWord ''f'', Token TokPipe [], Token TokWord ''sort'', Token TokAmp []]"

definition example_parsed :: pipeline where
  "example_parsed =
     \<lparr>commands = [\<lparr>cmd_name = ''cat'', cmd_args = [''f''], cmd_tainted = False\<rparr>,
                  \<lparr>cmd_name = ''sort'', cmd_args = [], cmd_tainted = False\<rparr>],
      background = True, tainted = False\<rparr>"

theorem parse_result_shape_witness:
  "tokenize example_line = Inr example_tokens \<and> parse_line example_line = Inr example_parsed
   \<and> length (commands example_parsed) = Suc (count_list (map tok_kind_of example_tokens) TokPipe)"
proof -
  have t: "tokenize example_line = Inr example_tokens" by code_simp
  have p: "parse_line example_line = Inr example_parsed" by code_simp
  have "commands example_parsed \<noteq> []" by (simp add: example_parsed_def)
  with parse_result_shape [OF t p] t p show ?thesis by blast
qed

end
