(* ===== verification/Destructive.thy ===== *)
theory Destructive
  imports Parser Go_Path
begin

text \<open>
  Which commands are snapshotted and which paths they touch: \<^verbatim>\<open>shell/internal/history/detect.go\<close>,
  and the ignore patterns of \<^verbatim>\<open>shell/internal/history/ignore.go\<close>.
\<close>

section \<open>Destructive commands\<close>

definition destructive_names :: "string list" where
  "destructive_names = [''rm'', ''rmdir'', ''unlink'', ''shred'', ''srm'', ''truncate'', ''dd'', ''mv'']"

definition flags_taking_value :: "string \<Rightarrow> string list" where
  "flags_taking_value name =
     (if name = ''truncate'' then [''-s'', ''--size'', ''-r'', ''--reference'']
      else if name = ''shred'' then [''-n'', ''--iterations'', ''-s'', ''--size'']
      else [])"

definition is_destructive :: "pipeline \<Rightarrow> bool" where
  "is_destructive pl = list_ex (\<lambda>c. List.member destructive_names (cmd_name c)) (commands pl)"

text \<open>The loop of \<open>extractFileArgs\<close> with its two flags.\<close>

fun file_args_loop :: "string list \<Rightarrow> bool \<Rightarrow> bool \<Rightarrow> string list \<Rightarrow> string list" where
  "file_args_loop vf end_of_opts skip_next [] = []"
| "file_args_loop vf end_of_opts skip_next (a # as) =
     (if skip_next then file_args_loop vf end_of_opts False as
      else if end_of_opts then a # file_args_loop vf end_of_opts False as
      else if a = ''--'' then file_args_loop vf True False as
      else if has_prefix a ''-'' \<and> a \<noteq> ''-'' then
        file_args_loop vf end_of_opts (\<not> str_contains a ''='' \<and> List.member vf a) as
      else a # file_args_loop vf end_of_opts False as)"

definition extract_file_args :: "string list \<Rightarrow> string list \<Rightarrow> string list" where
  "extract_file_args args vf = file_args_loop vf False False args"

definition strip_prefix :: "string \<Rightarrow> string \<Rightarrow> string \<times> bool" where
  "strip_prefix s p = (if has_prefix s p then (drop (length p) s, True) else ([], False))"

definition command_targets :: "command \<Rightarrow> string list" where
  "command_targets c =
     (if \<not> List.member destructive_names (cmd_name c) then []
      else if cmd_name c = ''dd'' then
        concat (map (\<lambda>a. case strip_prefix a ''of='' of
                        (rest, ok) \<Rightarrow> if ok \<and> rest \<noteq> [] then [rest] else []) (cmd_args c))
      else if cmd_name c = ''mv'' then
        (let args = extract_file_args (cmd_args c) [] in
         if 2 \<le> length args then butlast args else [])
      else extract_file_args (cmd_args c) (flags_taking_value (cmd_name c)))"

definition target_paths :: "pipeline \<Rightarrow> string list" where
  "target_paths pl = concat (map command_targets (commands pl))"

definition rename_pairs :: "command \<Rightarrow> (string \<times> string) list" where
  "rename_pairs c =
     (if cmd_name c \<noteq> ''mv'' then []
      else
        (let args = extract_file_args (cmd_args c) [] in
         if length args < 2 then []
         else map (\<lambda>s. (s, last args)) (butlast args)))"

definition rename_targets :: "pipeline \<Rightarrow> (string \<times> string) list" where
  "rename_targets pl = concat (map rename_pairs (commands pl))"

definition pipeline_has_mv :: "pipeline \<Rightarrow> bool" where
  "pipeline_has_mv pl = list_ex (\<lambda>c. cmd_name c = ''mv'') (commands pl)"

section \<open>Ignore patterns\<close>

definition default_ignore_patterns :: "string list" where
  "default_ignore_patterns =
     [''.git/'', ''node_modules/'', ''vendor/'', ''dist/'', ''build/'', ''target/'', ''__pycache__/'', ''.cache/'',
      ''*.tmp'', ''*.log'']"

record matcher =
  mt_dir_names :: "string list"
  mt_suffixes :: "string list"
  mt_literals :: "string list"

definition add_pattern :: "matcher \<Rightarrow> string \<Rightarrow> matcher" where
  "add_pattern m p0 =
     (let p = trim_space p0 in
      if p = [] \<or> has_prefix p ''#'' then m
      else if has_suffix p ''/'' then m\<lparr>mt_dir_names := trim_suffix p ''/'' # mt_dir_names m\<rparr>
      else if has_prefix p ''*.'' then m\<lparr>mt_suffixes := mt_suffixes m @ [drop 1 p]\<rparr>
      else m\<lparr>mt_literals := p # mt_literals m\<rparr>)"

definition new_ignore_matcher :: "string list \<Rightarrow> matcher" where
  "new_ignore_matcher ps = foldl add_pattern \<lparr>mt_dir_names = [], mt_suffixes = [], mt_literals = []\<rparr> ps"

definition default_ignore_matcher :: matcher where
  "default_ignore_matcher = new_ignore_matcher default_ignore_patterns"

text \<open>\<open>None\<close> is the nil matcher. On POSIX \<open>ToSlash\<close> changes nothing.\<close>

definition ignore_match :: "matcher option \<Rightarrow> string \<Rightarrow> bool" where
  "ignore_match mo path =
     (case mo of
        None \<Rightarrow> False
      | Some m \<Rightarrow>
          (let parts = split_byte CHR ''/'' (path_clean path);
               base = last parts
           in list_ex (\<lambda>seg. List.member (mt_dir_names m) seg) parts
              \<or> List.member (mt_literals m) base
              \<or> list_ex (\<lambda>suf. has_suffix base suf) (mt_suffixes m)))"

section \<open>Option parsing\<close>

text \<open>An argument that is read as an option, and one that takes the next one as its value.\<close>

definition is_option :: "string \<Rightarrow> bool" where
  "is_option a \<longleftrightarrow> has_prefix a ''-'' \<and> a \<noteq> ''-'' \<and> a \<noteq> ''--''"

definition takes_value :: "string list \<Rightarrow> string \<Rightarrow> bool" where
  "takes_value vf a \<longleftrightarrow> List.member vf a \<and> \<not> str_contains a ''=''"

text \<open>The grammar of such a command line: options, options with a value, operands, and \<open>--\<close>.\<close>

datatype arg_item = Opt string | Opt_val string string | Operand string

fun item_render :: "arg_item \<Rightarrow> string list" where
  "item_render (Opt a) = [a]"
| "item_render (Opt_val a v) = [a, v]"
| "item_render (Operand p) = [p]"

fun item_ok :: "string list \<Rightarrow> arg_item \<Rightarrow> bool" where
  "item_ok vf (Opt a) = (is_option a \<and> \<not> takes_value vf a)"
| "item_ok vf (Opt_val a v) = (is_option a \<and> takes_value vf a)"
| "item_ok vf (Operand p) = (\<not> has_prefix p ''-'' \<or> p = ''-'')"

fun item_operands :: "arg_item \<Rightarrow> string list" where
  "item_operands (Operand p) = [p]"
| "item_operands _ = []"

lemma file_args_after_end: "file_args_loop vf True False as = as"
  by (induction as) auto

lemma file_args_items:
  "list_all (item_ok vf) items \<Longrightarrow>
     file_args_loop vf False False (concat (map item_render items) @ rest) =
       concat (map item_operands items) @ file_args_loop vf False False rest"
proof (induction items)
  case (Cons i items)
  then show ?case by (cases i) (auto simp: is_option_def takes_value_def)
qed simp

lemma extract_file_args_items:
  "list_all (item_ok vf) items \<Longrightarrow>
     extract_file_args (concat (map item_render items)) vf = concat (map item_operands items)"
  using file_args_items [of vf items "[]"] by (simp add: extract_file_args_def)

lemma extract_file_args_end:
  "list_all (item_ok vf) items \<Longrightarrow>
     extract_file_args (concat (map item_render items) @ ''--'' # ps) vf = concat (map item_operands items) @ ps"
  using file_args_items [of vf items "''--'' # ps"] by (simp add: extract_file_args_def file_args_after_end)

lemma command_targets_destructive: "command_targets c \<noteq> [] \<Longrightarrow> cmd_name c \<in> set destructive_names"
  by (cases "List.member destructive_names (cmd_name c)") (auto simp: command_targets_def)

lemma target_paths_destructive: "target_paths pl \<noteq> [] \<Longrightarrow> is_destructive pl"
  by (auto simp: target_paths_def is_destructive_def list_ex_iff dest!: command_targets_destructive)

section \<open>Properties\<close>

text \<open>
  C37. The targets of a destructive command come from its operands only: for any mix of options,
  options with values (as the command's table lists them) and operands, with \<open>--\<close> and further
  operands after it, the paths that will be snapshotted are, in order, all operands of a removing
  command and the sources of an \<open>mv\<close>, its operands but the last; no option or option value is ever
  taken for a path. Each source of an \<open>mv\<close> is paired with the last operand as it was typed, also when
  there are several, where the comment of \<open>RenameTargets\<close> says the last operand joined with the name
  of the source.
\<close>

theorem targets_are_operands:
  assumes "list_all (item_ok (flags_taking_value name)) items" "cmd_name c = name"
    and "cmd_args c = concat (map item_render items) @ (if dashes then ''--'' # ps else [])"
    and "ps \<noteq> [] \<longrightarrow> dashes"
  shows "let ops = concat (map item_operands items) @ ps in
     (name \<in> set [''rm'', ''rmdir'', ''unlink'', ''shred'', ''srm'', ''truncate''] \<longrightarrow>
        target_paths \<lparr>commands = [c], background = bg, tainted = t\<rparr> = ops)
     \<and> (name = ''mv'' \<and> 2 \<le> length ops \<longrightarrow>
        target_paths \<lparr>commands = [c], background = bg, tainted = t\<rparr> = butlast ops
        \<and> rename_targets \<lparr>commands = [c], background = bg, tainted = t\<rparr> = map (\<lambda>s. (s, last ops)) (butlast ops))"
proof -
  have ops: "extract_file_args (cmd_args c) (flags_taking_value name) = concat (map item_operands items) @ ps"
    using extract_file_args_items [OF assms(1)] extract_file_args_end [OF assms(1), of ps] assms(3,4) by auto
  show ?thesis
    using ops assms(2)
    by (auto simp: Let_def target_paths_def command_targets_def rename_targets_def rename_pairs_def
        destructive_names_def flags_taking_value_def)
qed

theorem targets_are_operands_witness:
  "target_paths \<lparr>commands = [\<lparr>cmd_name = ''truncate'',
       cmd_args = [''-s'', ''0'', ''a'', ''--'', ''-b''], cmd_tainted = False\<rparr>],
     background = False, tainted = False\<rparr> = [''a'', ''-b'']"
proof -
  let ?c = "\<lparr>cmd_name = ''truncate'', cmd_args = [''-s'', ''0'', ''a'', ''--'', ''-b''], cmd_tainted = False\<rparr>"
  have ok: "list_all (item_ok (flags_taking_value ''truncate'')) [Opt_val ''-s'' ''0'', Operand ''a'']" by code_simp
  from targets_are_operands [OF ok, of ?c True "[''-b'']"] show ?thesis by (simp add: Let_def)
qed

end
