(* ===== verification/File_System.thy ===== *)
theory File_System
  imports Go_Path "HOL-Library.List_Lexorder" "HOL-Library.Char_ord"
begin

text \<open>
  The operating system's file tree as far as the snapshot engine of
  \<^verbatim>\<open>shell/internal/history\<close> uses it: \<open>os.Stat\<close>, \<open>os.Open\<close>, \<open>os.Create\<close>,
  \<open>os.MkdirAll\<close>, \<open>os.Remove\<close>, \<open>os.RemoveAll\<close> and \<open>filepath.WalkDir\<close>. A tree is a
  list of clean absolute paths with their nodes; the root directory is always there. Permission
  errors are three lists of paths that cannot be examined, read or written. Symbolic links, modes
  and modification times are left out. \<open>fs_ticks\<close> counts the readings of the clock.
\<close>

section \<open>The tree\<close>

datatype node = File_node string | Dir_node

datatype os_error = Not_exist | Permission | Not_dir | Is_dir

record os_state =
  fs_nodes :: "(string \<times> node) list"
  fs_no_stat :: "string list"
  fs_no_read :: "string list"
  fs_no_write :: "string list"
  fs_ticks :: nat

definition node_at :: "os_state \<Rightarrow> string \<Rightarrow> node option" where
  "node_at fs p = (if p = ''/'' then Some Dir_node else map_of (fs_nodes fs) p)"

definition put_node :: "os_state \<Rightarrow> string \<Rightarrow> node \<Rightarrow> os_state" where
  "put_node fs p n = fs\<lparr>fs_nodes := (p, n) # filter (\<lambda>(q, _). q \<noteq> p) (fs_nodes fs)\<rparr>"

definition names_of :: "string \<Rightarrow> string list" where
  "names_of p = tl (split_byte CHR ''/'' p)"

text \<open>The directories above a clean absolute path, the root left out, from the top.\<close>

definition parents_of :: "string \<Rightarrow> string list" where
  "parents_of p = map (\<lambda>k. path_of (take k (names_of p))) [1..<length (names_of p)]"

definition under :: "string \<Rightarrow> string \<Rightarrow> bool" where
  "under p q = has_prefix q (p @ ''/'')"

definition is_file :: "node option \<Rightarrow> bool" where
  "is_file n = (case n of Some (File_node _) \<Rightarrow> True | _ \<Rightarrow> False)"

section \<open>System calls\<close>

definition os_stat :: "os_state \<Rightarrow> string \<Rightarrow> os_error + node" where
  "os_stat fs p =
     (if List.member (fs_no_stat fs) p then Inl Permission
      else case node_at fs p of
        Some n \<Rightarrow> Inr n
      | None \<Rightarrow> Inl (if list_ex (\<lambda>a. is_file (node_at fs a)) (parents_of p) then Not_dir else Not_exist))"

definition os_open :: "os_state \<Rightarrow> string \<Rightarrow> os_error + node" where
  "os_open fs p =
     (case os_stat fs p of
        Inl e \<Rightarrow> Inl e
      | Inr n \<Rightarrow> if List.member (fs_no_read fs) p then Inl Permission else Inr n)"

text \<open>\<open>Create\<close> truncates a file that is there.\<close>

definition os_create :: "os_state \<Rightarrow> string \<Rightarrow> os_state \<times> os_error option" where
  "os_create fs p =
     (if List.member (fs_no_stat fs) p \<or> List.member (fs_no_write fs) p then (fs, Some Permission)
      else case node_at fs p of
        Some Dir_node \<Rightarrow> (fs, Some Is_dir)
      | Some (File_node _) \<Rightarrow> (put_node fs p (File_node []), None)
      | None \<Rightarrow>
          (case node_at fs (path_dir p) of
             Some Dir_node \<Rightarrow> (put_node fs p (File_node []), None)
           | Some (File_node _) \<Rightarrow> (fs, Some Not_dir)
           | None \<Rightarrow> (fs, Some Not_exist)))"

fun mkdir_each :: "os_state \<Rightarrow> string list \<Rightarrow> os_state \<times> os_error option" where
  "mkdir_each fs [] = (fs, None)"
| "mkdir_each fs (d # ds) =
     (case os_stat fs d of
        Inr Dir_node \<Rightarrow> mkdir_each fs ds
      | Inr (File_node _) \<Rightarrow> (fs, Some Not_dir)
      | Inl Not_exist \<Rightarrow>
          if List.member (fs_no_write fs) d then (fs, Some Permission)
          else mkdir_each (put_node fs d Dir_node) ds
      | Inl e \<Rightarrow> (fs, Some e))"

definition os_mkdir_all :: "os_state \<Rightarrow> string \<Rightarrow> os_state \<times> os_error option" where
  "os_mkdir_all fs p = mkdir_each fs (parents_of p @ [p])"

text \<open>\<open>Remove\<close> takes a file or an empty directory; its callers drop the error.\<close>

definition os_remove :: "os_state \<Rightarrow> string \<Rightarrow> os_state" where
  "os_remove fs p =
     (if List.member (fs_no_write fs) p \<or> list_ex (\<lambda>(q, _). under p q) (fs_nodes fs) then fs
      else fs\<lparr>fs_nodes := filter (\<lambda>(q, _). q \<noteq> p) (fs_nodes fs)\<rparr>)"

definition os_remove_all :: "os_state \<Rightarrow> string \<Rightarrow> os_state" where
  "os_remove_all fs p = fs\<lparr>fs_nodes := filter (\<lambda>(q, _). q \<noteq> p \<and> \<not> under p q) (fs_nodes fs)\<rparr>"

text \<open>
  The entries below a directory in the order of \<open>WalkDir\<close>: depth first, each directory in
  lexical order. The inside of a directory that cannot be read is not visited.
\<close>

definition walk_dir :: "os_state \<Rightarrow> string \<Rightarrow> (string \<times> node) list" where
  "walk_dir fs p =
     sort_key (\<lambda>(q, _). names_of q)
       (filter (\<lambda>(q, _). under p q \<and>
            \<not> list_ex (\<lambda>a. (a = p \<or> under p a) \<and> List.member (fs_no_read fs) a) (parents_of q))
         (fs_nodes fs))"

section \<open>Facts\<close>

lemma map_of_filter_key: "map_of (filter (\<lambda>(q, _). q \<noteq> p) xs) q = (if q = p then None else map_of xs q)"
  by (induction xs) auto

lemma node_at_put [simp]:
  "node_at (put_node fs p n) q = (if q = ''/'' then Some Dir_node else if q = p then Some n else node_at fs q)"
  by (auto simp: node_at_def put_node_def map_of_filter_key)

lemma node_at_slash [simp]: "node_at fs ''/'' = Some Dir_node"
  by (simp add: node_at_def)

lemma put_node_frame [simp]:
  "fs_no_stat (put_node fs p n) = fs_no_stat fs" "fs_no_read (put_node fs p n) = fs_no_read fs"
  "fs_no_write (put_node fs p n) = fs_no_write fs" "fs_ticks (put_node fs p n) = fs_ticks fs"
  by (simp_all add: put_node_def)

lemma node_at_ticks [simp]: "node_at (fs\<lparr>fs_ticks := n\<rparr>) p = node_at fs p"
  by (simp add: node_at_def)

lemma names_of_path_of: "proper_names cs \<Longrightarrow> names_of (path_of cs) = cs"
  by (simp add: names_of_def split_clean_path)

lemma parents_of_path_of:
  "proper_names cs \<Longrightarrow> set (parents_of (path_of cs)) = {path_of (take k cs) | k. 1 \<le> k \<and> k < length cs}"
  by (auto simp: parents_of_def names_of_path_of image_def)

definition distinct_keys :: "os_state \<Rightarrow> bool" where
  "distinct_keys fs \<longleftrightarrow> distinct (map fst (fs_nodes fs))"

lemma distinct_filter_keys: "distinct (map fst xs) \<Longrightarrow> distinct (map fst (filter P xs))"
  by (induction xs) auto

lemma distinct_keys_put: "distinct_keys fs \<Longrightarrow> distinct_keys (put_node fs p n)"
  by (auto simp: distinct_keys_def put_node_def distinct_filter_keys)

lemma distinct_keys_remove_all: "distinct_keys fs \<Longrightarrow> distinct_keys (os_remove_all fs p)"
  by (simp add: distinct_keys_def os_remove_all_def distinct_filter_keys)

lemma node_at_remove_all:
  "q \<noteq> p \<Longrightarrow> \<not> under p q \<Longrightarrow> node_at (os_remove_all fs p) q = node_at fs q"
proof -
  assume "q \<noteq> p" "\<not> under p q"
  then have "map_of (filter (\<lambda>(x, _). x \<noteq> p \<and> \<not> under p x) xs) q = map_of xs q" for xs :: "(string \<times> node) list"
    by (induction xs) auto
  then show ?thesis by (simp add: os_remove_all_def node_at_def)
qed

lemma walk_dir_node:
  "distinct_keys fs \<Longrightarrow> (q, n) \<in> set (walk_dir fs p) \<Longrightarrow> p \<noteq> [] \<Longrightarrow> under p q \<and> node_at fs q = Some n"
  by (auto simp: walk_dir_def distinct_keys_def node_at_def under_def prefix_Cons)

lemma distinct_keys_ticks [simp]: "distinct_keys (fs\<lparr>fs_ticks := n\<rparr>) = distinct_keys fs"
  by (simp add: distinct_keys_def)

text \<open>Making directories adds directories only.\<close>

definition dirs_added :: "string set \<Rightarrow> os_state \<Rightarrow> os_state \<Rightarrow> bool" where
  "dirs_added D fs fs' \<longleftrightarrow>
     fs_no_stat fs' = fs_no_stat fs \<and> fs_no_read fs' = fs_no_read fs \<and> fs_no_write fs' = fs_no_write fs
     \<and> (distinct_keys fs \<longrightarrow> distinct_keys fs')
     \<and> (\<forall>q. node_at fs' q = node_at fs q \<or> (q \<in> D \<and> node_at fs q = None \<and> node_at fs' q = Some Dir_node))"

lemma dirs_added_refl [simp]: "dirs_added D fs fs"
  by (simp add: dirs_added_def)

lemma dirs_added_trans:
  assumes "dirs_added D fs1 fs2" "dirs_added D fs2 fs3"
  shows "dirs_added D fs1 fs3"
proof -
  have "node_at fs3 q = node_at fs1 q \<or> (q \<in> D \<and> node_at fs1 q = None \<and> node_at fs3 q = Some Dir_node)" for q
    using assms unfolding dirs_added_def by (metis option.distinct(1))
  then show ?thesis using assms by (simp add: dirs_added_def)
qed

lemma dirs_added_mono: "dirs_added D fs fs' \<Longrightarrow> D \<subseteq> E \<Longrightarrow> dirs_added E fs fs'"
  unfolding dirs_added_def by blast

lemma dirs_added_keeps: "dirs_added D fs fs' \<Longrightarrow> node_at fs q = Some n \<Longrightarrow> node_at fs' q = Some n"
  unfolding dirs_added_def by (metis option.distinct(1))

lemma dirs_added_file: "dirs_added D fs fs' \<Longrightarrow> node_at fs' q = Some (File_node bs) \<Longrightarrow> node_at fs q = Some (File_node bs)"
  unfolding dirs_added_def by (metis option.inject node.distinct(1))

lemma dirs_added_outside: "dirs_added D fs fs' \<Longrightarrow> q \<notin> D \<Longrightarrow> node_at fs' q = node_at fs q"
  unfolding dirs_added_def by metis

lemma dirs_added_ticks [simp]:
  "dirs_added D fs (fs'\<lparr>fs_ticks := n\<rparr>) = dirs_added D fs fs'"
  "dirs_added D (fs\<lparr>fs_ticks := n\<rparr>) fs' = dirs_added D fs fs'"
  by (simp_all add: dirs_added_def)

lemma dirs_added_put: "node_at fs d = None \<Longrightarrow> d \<in> D \<Longrightarrow> dirs_added D fs (put_node fs d Dir_node)"
  using distinct_keys_put [of fs d Dir_node] unfolding dirs_added_def by auto

lemma os_stat_node: "os_stat fs p = Inr n \<longleftrightarrow> p \<notin> set (fs_no_stat fs) \<and> node_at fs p = Some n"
  by (auto simp: os_stat_def List.member_iff split: option.splits)

lemma os_stat_absent: "os_stat fs p = Inl Not_exist \<Longrightarrow> node_at fs p = None \<and> p \<notin> set (fs_no_stat fs)"
  by (auto simp: os_stat_def List.member_iff split: option.splits if_splits)

lemma os_open_node:
  "os_open fs p = Inr n \<longleftrightarrow> p \<notin> set (fs_no_stat fs) \<and> p \<notin> set (fs_no_read fs) \<and> node_at fs p = Some n"
  using os_stat_node [of fs p] by (cases "os_stat fs p") (auto simp: os_open_def List.member_iff)

lemma mkdir_each_cases:
  assumes "mkdir_each fs (d # ds) = (fs', r)"
  obtains (there) "node_at fs d = Some Dir_node" "mkdir_each fs ds = (fs', r)"
  | (made) "node_at fs d = None" "mkdir_each (put_node fs d Dir_node) ds = (fs', r)"
  | (failed) "fs' = fs" "r \<noteq> None"
proof (cases "os_stat fs d")
  case (Inr n)
  then have "node_at fs d = Some n" by (simp add: os_stat_node)
  with Inr show ?thesis using assms there failed by (cases n) auto
next
  case (Inl e)
  then show ?thesis
    using assms made failed os_stat_absent [of fs d] by (cases e) (auto split: if_splits)
qed

lemma mkdir_each_dirs: "mkdir_each fs ds = (fs', r) \<Longrightarrow> dirs_added (set ds) fs fs' \<and> fs_ticks fs' = fs_ticks fs"
proof (induction ds arbitrary: fs)
  case (Cons d ds)
  from Cons.prems show ?case
  proof (cases rule: mkdir_each_cases)
    case there
    with Cons.IH [OF there(2)] show ?thesis using dirs_added_mono [of "set ds" fs fs' "set (d # ds)"] by auto
  next
    case made
    from Cons.IH [OF made(2)] have IH: "dirs_added (set (d # ds)) (put_node fs d Dir_node) fs'" "fs_ticks fs' = fs_ticks fs"
      using dirs_added_mono [of "set ds" _ fs' "set (d # ds)"] by auto
    have "dirs_added (set (d # ds)) fs (put_node fs d Dir_node)" using dirs_added_put [OF made(1)] by simp
    with IH dirs_added_trans show ?thesis by blast
  qed simp
qed simp

lemma mkdir_each_made: "mkdir_each fs ds = (fs', None) \<Longrightarrow> d \<in> set ds \<Longrightarrow> node_at fs' d = Some Dir_node"
proof (induction ds arbitrary: fs)
  case (Cons e ds)
  from Cons.prems(1) show ?case
  proof (cases rule: mkdir_each_cases)
    case there
    then have "node_at fs' e = Some Dir_node" using mkdir_each_dirs [OF there(2)] dirs_added_keeps by blast
    with Cons.IH [OF there(2)] Cons.prems(2) show ?thesis by auto
  next
    case made
    have "node_at (put_node fs e Dir_node) e = Some Dir_node" by simp
    then have "node_at fs' e = Some Dir_node" using mkdir_each_dirs [OF made(2)] dirs_added_keeps by blast
    with Cons.IH [OF made(2)] Cons.prems(2) show ?thesis by auto
  qed simp
qed simp

text \<open>When every directory on the way is there, or can be made, \<open>MkdirAll\<close> succeeds.\<close>

definition dir_possible :: "os_state \<Rightarrow> string \<Rightarrow> bool" where
  "dir_possible fs d \<longleftrightarrow> d \<notin> set (fs_no_stat fs) \<and>
     (node_at fs d = Some Dir_node \<or> node_at fs d = None \<and> d \<notin> set (fs_no_write fs))"

lemma mkdir_each_ok:
  assumes "\<forall>d \<in> set ds. dir_possible fs d \<and> (\<forall>a \<in> set (parents_of d). \<not> is_file (node_at fs a))"
  shows "\<exists>fs'. mkdir_each fs ds = (fs', None)"
  using assms
proof (induction ds arbitrary: fs)
  case (Cons d ds)
  have d: "dir_possible fs d" "\<forall>a \<in> set (parents_of d). \<not> is_file (node_at fs a)" using Cons.prems by auto
  show ?case
  proof (cases "node_at fs d")
    case None
    with d have st: "os_stat fs d = Inl Not_exist" "d \<notin> set (fs_no_write fs)"
      by (auto simp: os_stat_def dir_possible_def List.member_iff list_ex_iff)
    have "dir_possible (put_node fs d Dir_node) e
        \<and> (\<forall>a \<in> set (parents_of e). \<not> is_file (node_at (put_node fs d Dir_node) a))" if "e \<in> set ds" for e
      using Cons.prems that None by (simp add: dir_possible_def is_file_def)
    with Cons.IH st show ?thesis by (simp add: List.member_iff)
  next
    case (Some n)
    with d have "os_stat fs d = Inr Dir_node" by (auto simp: os_stat_node dir_possible_def)
    with Cons show ?thesis by simp
  qed
qed simp

lemma os_create_put:
  "os_create fs p = (fs', None) \<Longrightarrow> fs' = put_node fs p (File_node []) \<and> node_at fs p \<noteq> Some Dir_node"
  by (auto simp: os_create_def split: if_splits option.splits node.splits)

lemma os_create_err: "os_create fs p = (fs', Some e) \<Longrightarrow> fs' = fs"
  by (auto simp: os_create_def split: if_splits option.splits node.splits)

lemma os_create_ok:
  "p \<notin> set (fs_no_stat fs) \<Longrightarrow> p \<notin> set (fs_no_write fs) \<Longrightarrow> node_at fs p \<noteq> Some Dir_node \<Longrightarrow>
     node_at fs (path_dir p) = Some Dir_node \<Longrightarrow> os_create fs p = (put_node fs p (File_node []), None)"
  by (auto simp: os_create_def List.member_iff split: option.splits node.splits)

lemma node_at_remove:
  "node_at (os_remove fs p) q = node_at fs q \<or> q = p \<and> node_at (os_remove fs p) q = None"
  by (simp add: os_remove_def node_at_def map_of_filter_key)

end
