(* ===== verification/Snapshots.thy ===== *)
theory Snapshots
  imports Destructive File_System
begin

text \<open>
  The snapshotter of \<^verbatim>\<open>shell/internal/history/snapshot.go\<close> and the row type of
  \<^verbatim>\<open>event.go\<close>: copies of the files a destructive command is about to touch, and the way
  back. The digests of \<^verbatim>\<open>crypto/sha256\<close> and \<^verbatim>\<open>crypto/sha1\<close> are the parameter
  \<open>digests\<close>; the clock \<open>nowFn\<close>, read once per snapshot directory and formatted, is the
  field \<open>sn_now\<close>.
\<close>

section \<open>Rows\<close>

datatype op = Op_delete | Op_skipped | Op_absent | Op_rename | Op_modify

record affected =
  a_path :: string
  a_op :: op
  a_dir :: string
  a_skip :: string
  a_sha :: string
  a_bytes :: int
  a_target :: string

definition affected_row :: "string \<Rightarrow> op \<Rightarrow> affected" where
  "affected_row p v =
     \<lparr>a_path = p, a_op = v, a_dir = [], a_skip = [], a_sha = [], a_bytes = 0, a_target = []\<rparr>"

definition skipped_row :: "string \<Rightarrow> string \<Rightarrow> affected" where
  "skipped_row p reason = (affected_row p Op_skipped)\<lparr>a_skip := reason\<rparr>"

record digests =
  sha256_hex :: "string \<Rightarrow> string"
  sha1_short :: "string \<Rightarrow> string"

record snapshotter =
  sn_root :: string
  sn_max :: int
  sn_ignore :: "matcher option"
  sn_now :: "nat \<Rightarrow> string"

definition default_snapshot_max :: int where
  "default_snapshot_max = 100 * 1024 * 1024"

definition new_snapshotter :: "string \<Rightarrow> int \<Rightarrow> matcher option \<Rightarrow> (nat \<Rightarrow> string) \<Rightarrow> snapshotter" where
  "new_snapshotter root mx ign now =
     \<lparr>sn_root = root, sn_max = (if mx \<le> 0 then default_snapshot_max else mx), sn_ignore = ign, sn_now = now\<rparr>"

section \<open>Copying\<close>

definition copy_and_digest :: "digests \<Rightarrow> os_state \<Rightarrow> string \<Rightarrow> string \<Rightarrow> os_state \<times> (os_error + string \<times> nat)" where
  "copy_and_digest dg fs src dest =
     (case os_open fs src of
        Inl e \<Rightarrow> (fs, Inl e)
      | Inr _ \<Rightarrow>
          (case (if dest \<noteq> [] then os_create fs dest else (fs, None)) of
             (fs1, Some e) \<Rightarrow> (fs1, Inl e)
           | (fs1, None) \<Rightarrow>
               (case node_at fs1 src of
                  Some (File_node bs) \<Rightarrow>
                    (if dest \<noteq> [] then put_node fs1 dest (File_node bs) else fs1,
                     Inr (sha256_hex dg bs, length bs))
                | _ \<Rightarrow> (fs1, Inl Is_dir))))"

definition make_snapshot_dir :: "digests \<Rightarrow> snapshotter \<Rightarrow> os_state \<Rightarrow> string \<Rightarrow> os_state \<times> (os_error + string)" where
  "make_snapshot_dir dg sn fs orig_path =
     (case os_mkdir_all fs (sn_root sn) of
        (fs1, Some e) \<Rightarrow> (fs1, Inl e)
      | (fs1, None) \<Rightarrow>
          (let ts = sn_now sn (fs_ticks fs1);
               fs2 = fs1\<lparr>fs_ticks := Suc (fs_ticks fs1)\<rparr>;
               name = ts @ ''-'' @ sha1_short dg orig_path;
               dir = path_join (sn_root sn) name
           in case os_mkdir_all fs2 dir of
                (fs3, Some e) \<Rightarrow> (fs3, Inl e)
              | (fs3, None) \<Rightarrow> (fs3, Inr dir)))"

definition snapshot_path :: "digests \<Rightarrow> snapshotter \<Rightarrow> os_state \<Rightarrow> string \<Rightarrow> affected \<times> os_state" where
  "snapshot_path dg sn fs path =
     (if ignore_match (sn_ignore sn) path then (skipped_row path ''ignored'', fs)
      else case os_stat fs path of
        Inl e \<Rightarrow> (if e = Not_exist then affected_row path Op_absent else skipped_row path ''stat-failed'', fs)
      | Inr Dir_node \<Rightarrow> (affected_row path Op_delete, fs)
      | Inr (File_node bs) \<Rightarrow>
          if int (length bs) > sn_max sn
          then ((skipped_row path ''oversize'')\<lparr>a_bytes := int (length bs)\<rparr>, fs)
          else
            (case make_snapshot_dir dg sn fs path of
               (fs1, Inl _) \<Rightarrow> (skipped_row path ''mkdir-failed'', fs1)
             | (fs1, Inr dir) \<Rightarrow>
                 (case copy_and_digest dg fs1 path (path_join dir (path_base path)) of
                    (fs2, Inl _) \<Rightarrow> (skipped_row path ''copy-failed'', os_remove_all fs2 dir)
                  | (fs2, Inr (digest, n)) \<Rightarrow>
                      ((affected_row path Op_delete)\<lparr>a_dir := dir, a_sha := digest, a_bytes := int n\<rparr>, fs2))))"

text \<open>The callback of \<open>WalkDir\<close>, entry by entry.\<close>

fun snapshot_entries :: "digests \<Rightarrow> snapshotter \<Rightarrow> os_state \<Rightarrow> (string \<times> node) list \<Rightarrow> affected list \<times> os_state" where
  "snapshot_entries dg sn fs [] = ([], fs)"
| "snapshot_entries dg sn fs ((child, d) # es) =
     (let (row, fs1) = (if d = Dir_node then (affected_row child Op_delete, fs) else snapshot_path dg sn fs child);
          (rows, fs2) = snapshot_entries dg sn fs1 es
      in (row # rows, fs2))"

definition snapshot_one :: "digests \<Rightarrow> snapshotter \<Rightarrow> os_state \<Rightarrow> string \<Rightarrow> affected list \<times> os_state" where
  "snapshot_one dg sn fs p =
     (case os_stat fs p of
        Inl _ \<Rightarrow> ([affected_row p Op_absent], fs)
      | Inr (File_node _) \<Rightarrow> (case snapshot_path dg sn fs p of (row, fs1) \<Rightarrow> ([row], fs1))
      | Inr Dir_node \<Rightarrow>
          (case snapshot_entries dg sn fs (walk_dir fs p) of
             (rows, fs1) \<Rightarrow> (affected_row p Op_delete # rows, fs1)))"

fun snapshot_many :: "digests \<Rightarrow> snapshotter \<Rightarrow> os_state \<Rightarrow> string list \<Rightarrow> affected list \<times> os_state" where
  "snapshot_many dg sn fs [] = ([], fs)"
| "snapshot_many dg sn fs (p # ps) =
     (let (rows, fs1) = snapshot_one dg sn fs p; (more_rows, fs2) = snapshot_many dg sn fs1 ps
      in (rows @ more_rows, fs2))"

definition resolve_target :: "os_state \<Rightarrow> string \<Rightarrow> string \<Rightarrow> string" where
  "resolve_target fs src dst =
     (if os_stat fs dst = Inr Dir_node then path_join dst (path_base src) else dst)"

definition snapshot_source :: "digests \<Rightarrow> snapshotter \<Rightarrow> os_state \<Rightarrow> string \<Rightarrow> string \<Rightarrow> affected list \<times> os_state" where
  "snapshot_source dg sn fs src target =
     (case os_stat fs src of
        Inl e \<Rightarrow>
          ([(if e = Not_exist then affected_row src Op_absent
             else skipped_row src ''stat-failed'')\<lparr>a_target := target\<rparr>], fs)
      | Inr Dir_node \<Rightarrow>
          (case snapshot_entries dg sn fs (walk_dir fs src) of
             (rows, fs1) \<Rightarrow> ((affected_row src Op_rename)\<lparr>a_target := target\<rparr> # rows, fs1))
      | Inr (File_node _) \<Rightarrow>
          (case snapshot_path dg sn fs src of
             (row, fs1) \<Rightarrow>
               ([if a_op row = Op_delete then row\<lparr>a_op := Op_rename, a_target := target\<rparr>
                 else row\<lparr>a_target := target\<rparr>], fs1)))"

definition snapshot_target :: "digests \<Rightarrow> snapshotter \<Rightarrow> os_state \<Rightarrow> string \<Rightarrow> affected list \<times> os_state" where
  "snapshot_target dg sn fs target =
     (case os_stat fs target of
        Inr (File_node _) \<Rightarrow>
          (case snapshot_path dg sn fs target of
             (row, fs1) \<Rightarrow> ([if a_op row = Op_delete then row\<lparr>a_op := Op_modify\<rparr> else row], fs1))
      | _ \<Rightarrow> ([], fs))"

definition snapshot_move :: "digests \<Rightarrow> snapshotter \<Rightarrow> os_state \<Rightarrow> string \<Rightarrow> string \<Rightarrow> affected list \<times> os_state" where
  "snapshot_move dg sn fs src dst =
     (let target = resolve_target fs src dst;
          (rows, fs1) = snapshot_source dg sn fs src target;
          (mods, fs2) = snapshot_target dg sn fs1 target
      in (rows @ mods, fs2))"

section \<open>Restoring\<close>

datatype restore_error =
    Cannot_restore op
  | Missing_snapshot_dir string
  | Read_snapshot os_error
  | Rotted
  | Different_bytes string
  | Mkdir_parent os_error
  | Copy_back os_error
  | Mkdir_rename_src os_error
  | Mkdir_marker os_error

definition row_copy :: "affected \<Rightarrow> string" where
  "row_copy rec = path_join (a_dir rec) (path_base (a_path rec))"

text \<open>The checks of \<open>restoreFileImpl\<close> that come before it writes, then the writes.\<close>

definition snapshot_fault :: "digests \<Rightarrow> os_state \<Rightarrow> affected \<Rightarrow> restore_error option" where
  "snapshot_fault dg fs rec =
     (if a_sha rec \<noteq> [] then
        (case snd (copy_and_digest dg fs (row_copy rec) []) of
           Inl e \<Rightarrow> Some (Read_snapshot e)
         | Inr (live, _) \<Rightarrow> if live \<noteq> a_sha rec then Some Rotted else None)
      else None)"

definition live_conflict :: "digests \<Rightarrow> os_state \<Rightarrow> affected \<Rightarrow> restore_error option" where
  "live_conflict dg fs rec =
     (case os_stat fs (a_path rec) of
        Inl _ \<Rightarrow> None
      | Inr _ \<Rightarrow>
          (case snd (copy_and_digest dg fs (a_path rec) []) of
             Inl _ \<Rightarrow> None
           | Inr (live, _) \<Rightarrow> if live \<noteq> a_sha rec then Some (Different_bytes (a_path rec)) else None))"

definition write_back :: "digests \<Rightarrow> os_state \<Rightarrow> affected \<Rightarrow> os_state \<times> restore_error option" where
  "write_back dg fs rec =
     (case os_mkdir_all fs (path_dir (a_path rec)) of
        (fs1, Some e) \<Rightarrow> (fs1, Some (Mkdir_parent e))
      | (fs1, None) \<Rightarrow>
          (case copy_and_digest dg fs1 (row_copy rec) (a_path rec) of
             (fs2, Inl e) \<Rightarrow> (fs2, Some (Copy_back e))
           | (fs2, Inr _) \<Rightarrow> (fs2, None)))"

definition restore_file_impl :: "digests \<Rightarrow> bool \<Rightarrow> os_state \<Rightarrow> affected \<Rightarrow> os_state \<times> restore_error option" where
  "restore_file_impl dg force_clobber fs rec =
     (if a_dir rec = [] then (fs, Some (Missing_snapshot_dir (a_path rec)))
      else case snapshot_fault dg fs rec of
        Some e \<Rightarrow> (fs, Some e)
      | None \<Rightarrow>
          (case (if force_clobber then None else live_conflict dg fs rec) of
             Some e \<Rightarrow> (fs, Some e)
           | None \<Rightarrow> write_back dg fs rec))"

definition restore_rename :: "digests \<Rightarrow> os_state \<Rightarrow> affected \<Rightarrow> os_state \<times> restore_error option" where
  "restore_rename dg fs rec =
     (if a_dir rec = [] then
        (case os_mkdir_all fs (a_path rec) of
           (fs1, Some e) \<Rightarrow> (fs1, Some (Mkdir_rename_src e))
         | (fs1, None) \<Rightarrow> (if a_target rec \<noteq> [] then os_remove fs1 (a_target rec) else fs1, None))
      else case restore_file_impl dg False fs rec of
        (fs1, Some e) \<Rightarrow> (fs1, Some e)
      | (fs1, None) \<Rightarrow>
          if a_target rec \<noteq> [] \<and> a_sha rec \<noteq> [] then
            (case os_stat fs1 (a_target rec) of
               Inl _ \<Rightarrow> (fs1, None)
             | Inr _ \<Rightarrow>
                 (case snd (copy_and_digest dg fs1 (a_target rec) []) of
                    Inl _ \<Rightarrow> (fs1, None)
                  | Inr (live, _) \<Rightarrow> (if live = a_sha rec then os_remove fs1 (a_target rec) else fs1, None)))
          else (fs1, None))"

definition restore_row :: "digests \<Rightarrow> os_state \<Rightarrow> affected \<Rightarrow> os_state \<times> restore_error option" where
  "restore_row dg fs rec =
     (if a_op rec = Op_rename then restore_rename dg fs rec
      else if a_op rec = Op_modify then restore_file_impl dg True fs rec
      else if a_op rec \<noteq> Op_delete then (fs, Some (Cannot_restore (a_op rec)))
      else if a_dir rec = [] then
        (case os_mkdir_all fs (a_path rec) of
           (fs1, None) \<Rightarrow> (fs1, None)
         | (fs1, Some e) \<Rightarrow> (fs1, Some (Mkdir_marker e)))
      else restore_file_impl dg False fs rec)"

section \<open>Facts\<close>

lemma mkdir_all_dirs:
  "os_mkdir_all fs p = (fs', r) \<Longrightarrow> dirs_added (insert p (set (parents_of p))) fs fs' \<and> fs_ticks fs' = fs_ticks fs"
  using mkdir_each_dirs [of fs "parents_of p @ [p]" fs' r] by (simp add: os_mkdir_all_def)

lemma mkdir_all_made: "os_mkdir_all fs p = (fs', None) \<Longrightarrow> node_at fs' p = Some Dir_node"
  using mkdir_each_made [of fs "parents_of p @ [p]" fs' p] by (simp add: os_mkdir_all_def)

lemma put_put [simp]: "put_node (put_node fs p n) p m = put_node fs p m"
  by (auto simp: put_node_def filter_filter intro: filter_cong)

lemma copy_done:
  assumes "copy_and_digest dg fs src dest = (fs', Inr (digest, n))" "dest \<noteq> []" "src \<noteq> dest"
  obtains bs where "node_at fs src = Some (File_node bs)" "src \<notin> set (fs_no_read fs)" "src \<notin> set (fs_no_stat fs)"
    "digest = sha256_hex dg bs" "n = length bs" "fs' = put_node fs dest (File_node bs)"
proof -
  obtain m where m: "os_open fs src = Inr m"
    using assms(1) by (auto simp: copy_and_digest_def split: sum.splits)
  obtain fs1 where c: "os_create fs dest = (fs1, None)"
    using assms m by (auto simp: copy_and_digest_def split: prod.splits option.splits)
  then have fs1: "fs1 = put_node fs dest (File_node [])" using os_create_put by blast
  then have same: "node_at fs1 src = node_at fs src" using assms(3) by simp
  then obtain bs where "m = File_node bs" "node_at fs src = Some (File_node bs)"
    using assms m c same by (cases m) (auto simp: copy_and_digest_def os_open_node)
  with that assms m c fs1 same show thesis by (auto simp: copy_and_digest_def os_open_node)
qed

lemma copy_failed: "copy_and_digest dg fs src dest = (fs', Inl e) \<Longrightarrow> fs' = fs \<or> fs' = put_node fs dest (File_node [])"
  by (auto simp: copy_and_digest_def split: sum.splits prod.splits option.splits node.splits if_splits
      dest: os_create_put os_create_err)

lemma copy_writes:
  assumes "os_open fs src = Inr (File_node bs)" "os_create fs dest = (put_node fs dest (File_node []), None)"
    "src \<noteq> dest" "dest \<noteq> []"
  shows "copy_and_digest dg fs src dest = (put_node fs dest (File_node bs), Inr (sha256_hex dg bs, length bs))"
proof -
  have "node_at fs src = Some (File_node bs)" using assms(1) by (simp add: os_open_node)
  moreover from this have "src \<noteq> ''/''" by auto
  ultimately have "node_at (put_node fs dest (File_node [])) src = Some (File_node bs)" using assms(3) by simp
  with assms show ?thesis by (simp add: copy_and_digest_def)
qed

lemma digest_error: "os_open fs src = Inl e \<Longrightarrow> copy_and_digest dg fs src [] = (fs, Inl e)"
  by (simp add: copy_and_digest_def)

lemma digest_file:
  assumes "os_open fs src = Inr (File_node bs)"
  shows "copy_and_digest dg fs src [] = (fs, Inr (sha256_hex dg bs, length bs))"
proof -
  have "node_at fs src = Some (File_node bs)" using assms by (simp add: os_open_node)
  with assms show ?thesis by (simp add: copy_and_digest_def)
qed

lemma digest_dir:
  assumes "os_open fs src = Inr Dir_node"
  shows "copy_and_digest dg fs src [] = (fs, Inl Is_dir)"
proof -
  have "node_at fs src = Some Dir_node" using assms by (simp add: os_open_node)
  with assms show ?thesis by (simp add: copy_and_digest_def)
qed

section \<open>Where the copies are\<close>

text \<open>
  What is assumed of the surroundings: a clean root, clock stamps that differ and contain neither
  \<open>-\<close> nor \<open>/\<close> (the code's layout is \<open>20060102T150405.000000000Z\<close>), and hexadecimal digests.
\<close>

definition clean_path :: "string \<Rightarrow> bool" where
  "clean_path p \<longleftrightarrow> (\<exists>cs. cs \<noteq> [] \<and> proper_names cs \<and> p = path_of cs)"

definition snapshot_setup :: "digests \<Rightarrow> snapshotter \<Rightarrow> bool" where
  "snapshot_setup dg sn \<longleftrightarrow>
     clean_path (sn_root sn) \<and> inj (sn_now sn)
     \<and> (\<forall>t. CHR ''-'' \<notin> set (sn_now sn t) \<and> CHR ''/'' \<notin> set (sn_now sn t))
     \<and> (\<forall>p. CHR ''/'' \<notin> set (sha1_short dg p)) \<and> (\<forall>b. sha256_hex dg b \<noteq> [])"

definition in_slot :: "snapshotter \<Rightarrow> nat \<Rightarrow> string \<Rightarrow> bool" where
  "in_slot sn t q \<longleftrightarrow> has_prefix q (sn_root sn @ ''/'' @ sn_now sn t @ ''-'')"

definition root_dirs :: "snapshotter \<Rightarrow> string set" where
  "root_dirs sn = insert (sn_root sn) (set (parents_of (sn_root sn)))"

definition outside_root :: "snapshotter \<Rightarrow> string \<Rightarrow> bool" where
  "outside_root sn p \<longleftrightarrow> p \<notin> root_dirs sn \<and> \<not> under (sn_root sn) p \<and> \<not> under p (sn_root sn)"

lemma slot_disjoint: "snapshot_setup dg sn \<Longrightarrow> in_slot sn t q \<Longrightarrow> in_slot sn t' q \<Longrightarrow> t = t'"
proof -
  assume stp: "snapshot_setup dg sn" and "in_slot sn t q" "in_slot sn t' q"
  then obtain x y where "sn_now sn t @ ''-'' @ x = sn_now sn t' @ ''-'' @ y"
    by (auto simp: in_slot_def prefix_def)
  then have "takeWhile (\<lambda>c. c \<noteq> CHR ''-'') (sn_now sn t @ ''-'' @ x)
      = takeWhile (\<lambda>c. c \<noteq> CHR ''-'') (sn_now sn t' @ ''-'' @ y)" by simp
  moreover have "CHR ''-'' \<notin> set (sn_now sn t)" "CHR ''-'' \<notin> set (sn_now sn t')"
    using stp by (auto simp: snapshot_setup_def)
  ultimately have "sn_now sn t = sn_now sn t'" by (simp del: takeWhile.simps add: takeWhile_neq_append)
  then show "t = t'" using stp by (auto simp: snapshot_setup_def inj_def)
qed

lemma slot_under: "in_slot sn t q \<Longrightarrow> under (sn_root sn) q"
  by (auto simp: in_slot_def under_def prefix_def)

lemma slot_extend: "in_slot sn t d \<Longrightarrow> in_slot sn t (d @ x)"
  by (auto simp: in_slot_def)

text \<open>What one or several snapshots may have changed, from tick to tick.\<close>

definition snap_frame :: "snapshotter \<Rightarrow> os_state \<Rightarrow> os_state \<Rightarrow> bool" where
  "snap_frame sn fs fs' \<longleftrightarrow>
     fs_ticks fs \<le> fs_ticks fs'
     \<and> fs_no_stat fs' = fs_no_stat fs \<and> fs_no_read fs' = fs_no_read fs \<and> fs_no_write fs' = fs_no_write fs
     \<and> (distinct_keys fs \<longrightarrow> distinct_keys fs')
     \<and> (\<forall>q. node_at fs' q = node_at fs q
           \<or> (\<exists>t. fs_ticks fs \<le> t \<and> t < fs_ticks fs' \<and> in_slot sn t q)
           \<or> q \<in> root_dirs sn \<and> node_at fs q = None \<and> node_at fs' q = Some Dir_node)"

lemma snap_frame_refl [simp]: "snap_frame sn fs fs"
  by (simp add: snap_frame_def)

lemma snap_frame_trans:
  assumes "snap_frame sn fs1 fs2" "snap_frame sn fs2 fs3"
  shows "snap_frame sn fs1 fs3"
proof -
  have le: "fs_ticks fs1 \<le> fs_ticks fs2" "fs_ticks fs2 \<le> fs_ticks fs3" using assms by (auto simp: snap_frame_def)
  have "node_at fs3 q = node_at fs1 q
           \<or> (\<exists>t. fs_ticks fs1 \<le> t \<and> t < fs_ticks fs3 \<and> in_slot sn t q)
           \<or> q \<in> root_dirs sn \<and> node_at fs1 q = None \<and> node_at fs3 q = Some Dir_node" for q
  proof (cases "\<exists>t. fs_ticks fs1 \<le> t \<and> t < fs_ticks fs3 \<and> in_slot sn t q")
    case False
    have no: "\<not> (\<exists>t. fs_ticks fs1 \<le> t \<and> t < fs_ticks fs2 \<and> in_slot sn t q)"
      using False le(2) less_le_trans by blast
    have no': "\<not> (\<exists>t. fs_ticks fs2 \<le> t \<and> t < fs_ticks fs3 \<and> in_slot sn t q)"
      using False le(1) order_trans by blast
    have "node_at fs2 q = node_at fs1 q \<or> q \<in> root_dirs sn \<and> node_at fs1 q = None \<and> node_at fs2 q = Some Dir_node"
      using assms(1) no unfolding snap_frame_def by blast
    moreover have "node_at fs3 q = node_at fs2 q \<or> q \<in> root_dirs sn \<and> node_at fs2 q = None \<and> node_at fs3 q = Some Dir_node"
      using assms(2) no' unfolding snap_frame_def by blast
    ultimately show ?thesis by auto
  qed simp
  then show ?thesis using assms unfolding snap_frame_def by simp
qed

lemma snap_frame_outside:
  "snap_frame sn fs fs' \<Longrightarrow> outside_root sn q \<Longrightarrow> node_at fs' q = node_at fs q"
  unfolding snap_frame_def outside_root_def using slot_under by metis

lemma snap_frame_keeps_copy:
  assumes "snapshot_setup dg sn" "snap_frame sn fs fs'" "in_slot sn t q" "t < fs_ticks fs" "node_at fs q = Some n"
  shows "node_at fs' q = Some n"
proof -
  have "\<not> (\<exists>t. fs_ticks fs \<le> t \<and> t < fs_ticks fs' \<and> in_slot sn t q)"
    using slot_disjoint [OF assms(1,3)] assms(4) by fastforce
  then show ?thesis using assms(2,5) unfolding snap_frame_def by (metis option.distinct(1))
qed

lemma snap_frame_keeps_dir:
  "snap_frame sn fs fs' \<Longrightarrow> node_at fs q = Some n \<Longrightarrow> \<not> under (sn_root sn) q \<Longrightarrow> node_at fs' q = Some n"
  unfolding snap_frame_def using slot_under by (metis option.distinct(1))

section \<open>Taking snapshots\<close>

lemma snapshot_name_proper:
  "snapshot_setup dg sn \<Longrightarrow> proper_name (sn_now sn t @ ''-'' @ sha1_short dg p)"
  by (auto simp: snapshot_setup_def proper_name_def append_eq_Cons_conv)

lemma snapshot_dir_path:
  assumes "snapshot_setup dg sn"
  shows "path_join (sn_root sn) (sn_now sn t @ ''-'' @ sha1_short dg p)
      = sn_root sn @ ''/'' @ sn_now sn t @ ''-'' @ sha1_short dg p"
    and "clean_path (path_join (sn_root sn) (sn_now sn t @ ''-'' @ sha1_short dg p))"
    and "set (parents_of (path_join (sn_root sn) (sn_now sn t @ ''-'' @ sha1_short dg p))) \<subseteq> root_dirs sn"
proof -
  obtain rs where rs: "rs \<noteq> []" "proper_names rs" "sn_root sn = path_of rs"
    using assms by (auto simp: snapshot_setup_def clean_path_def)
  let ?n = "sn_now sn t @ ''-'' @ sha1_short dg p"
  note n = snapshot_name_proper [OF assms, of t p]
  have j: "path_join (sn_root sn) ?n = path_of (rs @ [?n])"
    using path_join_path_of [OF rs(2,1) n] rs(3) by simp
  show "path_join (sn_root sn) ?n = sn_root sn @ ''/'' @ ?n" using j rs(3) by simp
  show "clean_path (path_join (sn_root sn) ?n)"
    unfolding clean_path_def using j rs(1,2) n by (intro exI [of _ "rs @ [?n]"]) simp
  show "set (parents_of (path_join (sn_root sn) ?n)) \<subseteq> root_dirs sn"
  proof
    fix a assume "a \<in> set (parents_of (path_join (sn_root sn) ?n))"
    then obtain k where k: "a = path_of (take k (rs @ [?n]))" "1 \<le> k" "k \<le> length rs"
      using j parents_of_path_of [of "rs @ [?n]"] rs n by auto
    show "a \<in> root_dirs sn"
      using k rs parents_of_path_of [of rs] by (cases "k = length rs") (auto simp: root_dirs_def)
  qed
qed

lemma dirs_snap_frame:
  assumes "dirs_added (insert d (root_dirs sn)) fs fs'" "in_slot sn t d" "fs_ticks fs \<le> t" "t < fs_ticks fs'"
  shows "snap_frame sn fs fs'"
proof -
  have "node_at fs' q = node_at fs q
           \<or> (\<exists>t. fs_ticks fs \<le> t \<and> t < fs_ticks fs' \<and> in_slot sn t q)
           \<or> q \<in> root_dirs sn \<and> node_at fs q = None \<and> node_at fs' q = Some Dir_node" for q
    using assms unfolding dirs_added_def by (cases "q = d") auto
  then show ?thesis using assms unfolding snap_frame_def dirs_added_def by simp
qed

lemma make_dir_facts:
  assumes stp: "snapshot_setup dg sn" and mk: "make_snapshot_dir dg sn fs p = (fs', r)"
  shows "snap_frame sn fs fs'"
    and "r = Inr dir \<Longrightarrow> fs_ticks fs' = Suc (fs_ticks fs) \<and> in_slot sn (fs_ticks fs) dir
           \<and> clean_path dir \<and> node_at fs' dir = Some Dir_node"
proof -
  let ?d = "path_join (sn_root sn) (sn_now sn (fs_ticks fs) @ ''-'' @ sha1_short dg p)"
  have slot: "in_slot sn (fs_ticks fs) ?d" by (simp add: in_slot_def snapshot_dir_path(1) [OF stp, simplified])
  obtain fs1 e1 where m1: "os_mkdir_all fs (sn_root sn) = (fs1, e1)" by fastforce
  note d1 = mkdir_all_dirs [OF m1]
  then have f1: "snap_frame sn fs fs1" by (auto simp: snap_frame_def dirs_added_def root_dirs_def)
  show "snap_frame sn fs fs'"
  proof (cases e1)
    case (Some e)
    with mk m1 f1 show ?thesis by (simp add: make_snapshot_dir_def)
  next
    case None
    let ?fs2 = "fs1\<lparr>fs_ticks := Suc (fs_ticks fs1)\<rparr>"
    obtain e3 where m3: "os_mkdir_all ?fs2 ?d = (fs', e3)"
      using mk m1 None d1 by (auto simp: make_snapshot_dir_def Let_def split: prod.splits option.splits)
    note d3 = mkdir_all_dirs [OF m3]
    then have "dirs_added (insert ?d (set (parents_of ?d))) fs1 fs'" by simp
    then have added: "dirs_added (insert ?d (root_dirs sn)) fs1 fs'"
      by (rule dirs_added_mono) (use snapshot_dir_path(3) [OF stp] in blast)
    have "snap_frame sn fs1 fs'" by (rule dirs_snap_frame [OF added slot]) (use d1 d3 in auto)
    with f1 show ?thesis by (rule snap_frame_trans)
  qed
  show "fs_ticks fs' = Suc (fs_ticks fs) \<and> in_slot sn (fs_ticks fs) dir
           \<and> clean_path dir \<and> node_at fs' dir = Some Dir_node" if "r = Inr dir"
  proof -
    let ?fs2 = "fs1\<lparr>fs_ticks := Suc (fs_ticks fs1)\<rparr>"
    have m3: "os_mkdir_all ?fs2 ?d = (fs', None)" and dir: "dir = ?d"
      using mk m1 d1 that by (auto simp: make_snapshot_dir_def Let_def split: prod.splits option.splits)
    show ?thesis
      using mkdir_all_dirs [OF m3] mkdir_all_made [OF m3] slot dir d1 snapshot_dir_path(2) [OF stp] by simp
  qed
qed

text \<open>What a row promises about the tree it was taken from and the tree that holds its copy.\<close>

definition row_saved :: "digests \<Rightarrow> snapshotter \<Rightarrow> os_state \<Rightarrow> os_state \<Rightarrow> affected \<Rightarrow> bool" where
  "row_saved dg sn orig fs r \<longleftrightarrow>
     (if a_dir r = [] then a_op r = Op_delete \<longrightarrow> node_at orig (a_path r) = Some Dir_node
      else \<exists>bs t. node_at orig (a_path r) = Some (File_node bs) \<and> a_sha r = sha256_hex dg bs
             \<and> node_at fs (row_copy r) = Some (File_node bs) \<and> in_slot sn t (row_copy r) \<and> t < fs_ticks fs)"

lemma row_saved_later:
  assumes stp: "snapshot_setup dg sn" and saved: "row_saved dg sn orig fs r" and fr: "snap_frame sn fs fs'"
  shows "row_saved dg sn orig fs' r"
proof (cases "a_dir r = []")
  case True
  with saved show ?thesis by (simp add: row_saved_def)
next
  case False
  with saved obtain bs t where r: "node_at orig (a_path r) = Some (File_node bs)" "a_sha r = sha256_hex dg bs"
    "node_at fs (row_copy r) = Some (File_node bs)" "in_slot sn t (row_copy r)" "t < fs_ticks fs"
    by (auto simp: row_saved_def)
  moreover have "t < fs_ticks fs'" using r(5) fr by (simp add: snap_frame_def)
  ultimately show ?thesis using snap_frame_keeps_copy [OF stp fr r(4,5,3)] False by (auto simp: row_saved_def)
qed

lemma row_saved_earlier:
  assumes "row_saved dg sn fs1 fs r" "snap_frame sn fs0 fs1" "outside_root sn (a_path r)"
  shows "row_saved dg sn fs0 fs r"
  using assms(1) unfolding row_saved_def snap_frame_outside [OF assms(2,3)] .

lemma copy_path:
  assumes "in_slot sn t dir" "clean_path dir" "clean_path p"
  shows "path_join dir (path_base p) = dir @ ''/'' @ path_base p" "in_slot sn t (path_join dir (path_base p))"
    "path_join dir (path_base p) \<noteq> []"
proof -
  obtain ds where ds: "ds \<noteq> []" "proper_names ds" "dir = path_of ds" using assms(2) by (auto simp: clean_path_def)
  obtain cs c where "proper_names (cs @ [c])" "p = path_of (cs @ [c])"
    using assms(3) unfolding clean_path_def by (metis rev_exhaust)
  then have "path_base p = c" "proper_name c" using path_base_path_of [of c cs] by simp_all
  with ds show eq: "path_join dir (path_base p) = dir @ ''/'' @ path_base p"
    using path_join_path_of [OF ds(2,1)] by simp
  show "in_slot sn t (path_join dir (path_base p))" unfolding eq using assms(1) by (rule slot_extend)
  show "path_join dir (path_base p) \<noteq> []" unfolding eq by simp
qed

lemma snap_frame_slot_put:
  assumes "in_slot sn t q" "fs_ticks fs \<le> t" "snap_frame sn fs fs1" "t < fs_ticks fs1"
  shows "snap_frame sn fs (put_node fs1 q n)"
proof -
  have "node_at (put_node fs1 q n) x = node_at fs1 x \<or> x = q" for x by simp
  then show ?thesis
    using assms distinct_keys_put [of fs1 q n] unfolding snap_frame_def by (metis put_node_frame)
qed

lemma snap_frame_slot_remove:
  assumes "in_slot sn t d" "fs_ticks fs \<le> t" "snap_frame sn fs fs1" "t < fs_ticks fs1"
  shows "snap_frame sn fs (os_remove_all fs1 d)"
proof -
  have "node_at (os_remove_all fs1 d) x = node_at fs1 x \<or> in_slot sn t x" for x
  proof (cases "x = d \<or> under d x")
    case True
    then show ?thesis using assms(1) slot_extend [of sn t d] by (auto simp: under_def prefix_def)
  next
    case False
    then show ?thesis by (simp add: node_at_remove_all)
  qed
  moreover have "fs_ticks (os_remove_all fs1 d) = fs_ticks fs1" "fs_no_stat (os_remove_all fs1 d) = fs_no_stat fs1"
    "fs_no_read (os_remove_all fs1 d) = fs_no_read fs1" "fs_no_write (os_remove_all fs1 d) = fs_no_write fs1"
    by (simp_all add: os_remove_all_def)
  ultimately show ?thesis
    using assms distinct_keys_remove_all [of fs1 d] unfolding snap_frame_def by metis
qed

lemma snapshot_path_saved:
  assumes stp: "snapshot_setup dg sn" and p: "clean_path p" "outside_root sn p"
    and s: "snapshot_path dg sn fs p = (r, fs')"
  shows "snap_frame sn fs fs'" "a_path r = p" "row_saved dg sn fs fs' r"
    "a_op r \<in> {Op_delete, Op_skipped, Op_absent}" "a_target r = []"
    "a_op r = Op_absent \<longleftrightarrow> \<not> ignore_match (sn_ignore sn) p \<and> os_stat fs p = Inl Not_exist"
proof -
  consider (plain) "fs' = fs" "a_dir r = []" "a_path r = p" "a_target r = []" "a_op r \<in> {Op_delete, Op_skipped, Op_absent}"
      "a_op r = Op_delete \<longrightarrow> node_at fs p = Some Dir_node"
      "a_op r = Op_absent \<longleftrightarrow> \<not> ignore_match (sn_ignore sn) p \<and> os_stat fs p = Inl Not_exist"
    | (nodir) m where "make_snapshot_dir dg sn fs p = (fs', Inl m)" "r = skipped_row p ''mkdir-failed''"
       "os_stat fs p \<noteq> Inl Not_exist"
    | (nocopy) fs1 fs2 dir e where "make_snapshot_dir dg sn fs p = (fs1, Inr dir)" "fs' = os_remove_all fs2 dir"
       "copy_and_digest dg fs1 p (path_join dir (path_base p)) = (fs2, Inl e)" "r = skipped_row p ''copy-failed''"
       "os_stat fs p \<noteq> Inl Not_exist"
    | (copied) fs1 dir digest n where "make_snapshot_dir dg sn fs p = (fs1, Inr dir)"
       "copy_and_digest dg fs1 p (path_join dir (path_base p)) = (fs', Inr (digest, n))"
       "r = (affected_row p Op_delete)\<lparr>a_dir := dir, a_sha := digest, a_bytes := int n\<rparr>"
       "os_stat fs p \<noteq> Inl Not_exist"
    using s unfolding snapshot_path_def
    by (auto simp: affected_row_def skipped_row_def os_stat_node split: if_splits sum.splits node.splits prod.splits)
  note cases = this
  have all: "snap_frame sn fs fs' \<and> a_path r = p \<and> row_saved dg sn fs fs' r
    \<and> a_op r \<in> {Op_delete, Op_skipped, Op_absent} \<and> a_target r = []
    \<and> (a_op r = Op_absent \<longleftrightarrow> \<not> ignore_match (sn_ignore sn) p \<and> os_stat fs p = Inl Not_exist)"
    using cases
  proof cases
    case plain
    then show ?thesis by (auto simp: row_saved_def)
  next
    case nodir
    then show ?thesis using make_dir_facts(1) [OF stp nodir(1)] by (simp add: row_saved_def skipped_row_def affected_row_def)
  next
    case nocopy
    note md = make_dir_facts(1) [OF stp nocopy(1)] make_dir_facts(2) [OF stp nocopy(1) refl]
    note cp = copy_path [of sn "fs_ticks fs" dir p]
    have "snap_frame sn fs fs2"
      using copy_failed [OF nocopy(3)] md cp p snap_frame_slot_put [of sn "fs_ticks fs" "path_join dir (path_base p)" fs fs1]
      by auto
    then have "snap_frame sn fs fs'"
      unfolding nocopy(2) using md snap_frame_slot_remove [of sn "fs_ticks fs" dir fs fs2]
      using copy_failed [OF nocopy(3)] by auto
    then show ?thesis using nocopy by (simp add: row_saved_def skipped_row_def affected_row_def)
  next
    case copied
    note md = make_dir_facts(1) [OF stp copied(1)] make_dir_facts(2) [OF stp copied(1) refl]
    let ?dest = "path_join dir (path_base p)"
    have dest: "in_slot sn (fs_ticks fs) ?dest" "?dest \<noteq> []" using copy_path [of sn "fs_ticks fs" dir p] md p by auto
    then have ne: "p \<noteq> ?dest" using p(2) slot_under by (auto simp: outside_root_def)
    obtain bs where bs: "node_at fs1 p = Some (File_node bs)" "digest = sha256_hex dg bs" "n = length bs"
      "fs' = put_node fs1 ?dest (File_node bs)"
      using copy_done [OF copied(2) dest(2) ne] by metis
    have fr: "snap_frame sn fs fs'"
      unfolding bs(4) using snap_frame_slot_put [OF dest(1) _ md(1)] md(2) by simp
    have dir: "dir \<noteq> []" using md(2) by (auto simp: in_slot_def)
    have "?dest \<noteq> ''/''" using copy_path(1) [of sn "fs_ticks fs" dir p] md p dir by (cases dir) auto
    moreover have "node_at fs p = Some (File_node bs)" using bs(1) snap_frame_outside [OF md(1) p(2)] by simp
    ultimately have "row_saved dg sn fs fs' r"
      using copied(3) bs dest md(2) dir by (auto simp: row_saved_def row_copy_def affected_row_def)
    with fr show ?thesis using copied(3,4) by (simp add: affected_row_def)
  qed
  then show "snap_frame sn fs fs'" "a_path r = p" "row_saved dg sn fs fs' r"
    "a_op r \<in> {Op_delete, Op_skipped, Op_absent}" "a_target r = []"
    "a_op r = Op_absent \<longleftrightarrow> \<not> ignore_match (sn_ignore sn) p \<and> os_stat fs p = Inl Not_exist" by blast+
qed

text \<open>
  Rows that can be replayed: their paths are clean and away from the snapshots, and each one
  is saved.
\<close>

definition rows_saved :: "digests \<Rightarrow> snapshotter \<Rightarrow> os_state \<Rightarrow> os_state \<Rightarrow> affected list \<Rightarrow> bool" where
  "rows_saved dg sn orig fs rows \<longleftrightarrow>
     (\<forall>r \<in> set rows. clean_path (a_path r) \<and> outside_root sn (a_path r) \<and> row_saved dg sn orig fs r)"

lemma rows_saved_simps [simp]:
  "rows_saved dg sn orig fs []"
  "rows_saved dg sn orig fs (r # rs) \<longleftrightarrow>
     clean_path (a_path r) \<and> outside_root sn (a_path r) \<and> row_saved dg sn orig fs r \<and> rows_saved dg sn orig fs rs"
  "rows_saved dg sn orig fs (rs @ rs') \<longleftrightarrow> rows_saved dg sn orig fs rs \<and> rows_saved dg sn orig fs rs'"
  by (auto simp: rows_saved_def)

lemma rows_saved_later:
  "snapshot_setup dg sn \<Longrightarrow> rows_saved dg sn orig fs rs \<Longrightarrow> snap_frame sn fs fs' \<Longrightarrow> rows_saved dg sn orig fs' rs"
  using row_saved_later unfolding rows_saved_def by blast

lemma rows_saved_earlier:
  "rows_saved dg sn fs1 fs rs \<Longrightarrow> snap_frame sn fs0 fs1 \<Longrightarrow> rows_saved dg sn fs0 fs rs"
  using row_saved_earlier unfolding rows_saved_def by blast

lemma snapshot_entries_saved:
  assumes stp: "snapshot_setup dg sn"
    and "\<forall>(q, n) \<in> set es. clean_path q \<and> outside_root sn q \<and> node_at fs q = Some n"
    and "snapshot_entries dg sn fs es = (rows, fs')"
  shows "snap_frame sn fs fs' \<and> rows_saved dg sn fs fs' rows \<and> map a_path rows = map fst es
    \<and> (\<forall>r \<in> set rows. a_op r \<in> {Op_delete, Op_skipped, Op_absent})"
  using assms(2,3)
proof (induction es arbitrary: fs rows fs')
  case Nil
  then show ?case by simp
next
  case (Cons e es)
  obtain q n where e: "e = (q, n)" by fastforce
  define s where "s = (if n = Dir_node then (affected_row q Op_delete, fs) else snapshot_path dg sn fs q)"
  obtain row fs1 where s1: "s = (row, fs1)" by fastforce
  obtain rest fs2 where s2: "snapshot_entries dg sn fs1 es = (rest, fs2)" by fastforce
  have out: "rows = row # rest" "fs' = fs2" using Cons.prems(2) e s1 s2 by (auto simp: s_def split: if_splits)
  have q: "clean_path q" "outside_root sn q" "node_at fs q = Some n" using Cons.prems(1) e by auto
  have one: "snap_frame sn fs fs1 \<and> row_saved dg sn fs fs1 row \<and> a_path row = q
      \<and> a_op row \<in> {Op_delete, Op_skipped, Op_absent}"
  proof (cases "n = Dir_node")
    case True
    then show ?thesis using s1 q by (auto simp: s_def row_saved_def affected_row_def)
  next
    case False
    then have "snapshot_path dg sn fs q = (row, fs1)" using s1 by (simp add: s_def)
    from snapshot_path_saved [OF stp q(1,2) this] show ?thesis by blast
  qed
  have "\<forall>(q, n) \<in> set es. clean_path q \<and> outside_root sn q \<and> node_at fs1 q = Some n"
    using Cons.prems(1) one snap_frame_outside by auto
  note IH = Cons.IH [OF this s2]
  have "row_saved dg sn fs fs2 row" using row_saved_later [OF stp] one IH by blast
  moreover have "rows_saved dg sn fs fs2 rest" using rows_saved_earlier one IH by blast
  moreover have "snap_frame sn fs fs2" using snap_frame_trans one IH by blast
  ultimately show ?case using out one IH q e by simp
qed

text \<open>A tree whose paths are clean and listed once.\<close>

definition tree_ok :: "os_state \<Rightarrow> bool" where
  "tree_ok fs \<longleftrightarrow> distinct_keys fs \<and> (\<forall>q n. (q, n) \<in> set (fs_nodes fs) \<longrightarrow> clean_path q)
     \<and> (\<forall>q a. node_at fs q \<noteq> None \<longrightarrow> a \<in> set (parents_of q) \<longrightarrow> node_at fs a = Some Dir_node)"

lemma under_prefixes: "under a q \<Longrightarrow> under b q \<Longrightarrow> a = b \<or> under a b \<or> under b a"
proof -
  assume "under a q" "under b q"
  then have "has_prefix (b @ ''/'') (a @ ''/'') \<or> has_prefix (a @ ''/'') (b @ ''/'')"
    unfolding under_def by (rule prefix_same_cases)
  then show ?thesis by (auto simp: under_def)
qed

lemma parents_under: "proper_names rs \<Longrightarrow> a \<in> set (parents_of (path_of rs)) \<Longrightarrow> under a (path_of rs)"
proof -
  assume rs: "proper_names rs" "a \<in> set (parents_of (path_of rs))"
  then obtain k where k: "a = path_of (take k rs)" "k < length rs" by (auto simp: parents_of_path_of)
  obtain c cs where "drop k rs = c # cs" using k(2) by (metis drop_eq_Nil leD list.exhaust)
  then have "path_of rs = path_of (take k rs) @ ''/'' @ c @ path_of cs"
    by (metis append_Cons append_Nil append_take_drop_id path_of.simps(2) path_of_append)
  with k(1) show ?thesis by (simp add: under_def)
qed

lemma outside_under: "snapshot_setup dg sn \<Longrightarrow> outside_root sn p \<Longrightarrow> under p q \<Longrightarrow> outside_root sn q"
proof -
  assume stp: "snapshot_setup dg sn" and p: "outside_root sn p" and q: "under p q"
  obtain rs where rs: "rs \<noteq> []" "proper_names rs" "sn_root sn = path_of rs"
    using stp by (auto simp: snapshot_setup_def clean_path_def)
  have trans: "under a b \<Longrightarrow> under b c \<Longrightarrow> under a c" for a b c by (auto simp: under_def prefix_def)
  have "\<not> under (sn_root sn) q" using under_prefixes [OF _ q] p by (auto simp: outside_root_def root_dirs_def)
  moreover have "\<not> under q (sn_root sn)" using trans [OF q] p by (auto simp: outside_root_def)
  moreover have "q \<notin> root_dirs sn"
    using p q parents_under [OF rs(2), of q] trans [OF q] rs(3) by (auto simp: outside_root_def root_dirs_def)
  ultimately show ?thesis by (simp add: outside_root_def)
qed

lemma snapshot_one_saved:
  assumes stp: "snapshot_setup dg sn" and p: "clean_path p" "outside_root sn p"
    and keys: "distinct_keys fs" "\<forall>q n. node_at fs q = Some n \<longrightarrow> under p q \<longrightarrow> clean_path q"
    and s: "snapshot_one dg sn fs p = (rows, fs')"
  shows "snap_frame sn fs fs'" "rows_saved dg sn fs fs' rows" "\<forall>r \<in> set rows. a_op r \<in> {Op_delete, Op_skipped, Op_absent}"
proof -
  consider (absent) e where "os_stat fs p = Inl e" | (regular) bs where "os_stat fs p = Inr (File_node bs)"
    | (dir) "os_stat fs p = Inr Dir_node" by (metis node.exhaust sum.exhaust)
  then have "snap_frame sn fs fs' \<and> rows_saved dg sn fs fs' rows \<and> (\<forall>r \<in> set rows. a_op r \<in> {Op_delete, Op_skipped, Op_absent})"
  proof cases
    case absent
    then show ?thesis using s p by (auto simp: snapshot_one_def row_saved_def affected_row_def)
  next
    case regular
    then obtain row where row: "snapshot_path dg sn fs p = (row, fs')" "rows = [row]"
      using s by (auto simp: snapshot_one_def split: prod.splits)
    from snapshot_path_saved [OF stp p row(1)] row(2) p show ?thesis by simp
  next
    case dir
    then obtain rest where rest: "snapshot_entries dg sn fs (walk_dir fs p) = (rest, fs')"
      "rows = affected_row p Op_delete # rest" using s by (auto simp: snapshot_one_def split: prod.splits)
    have "p \<noteq> []" using p(1) by (auto simp: clean_path_def)
    then have "\<forall>(q, n) \<in> set (walk_dir fs p). clean_path q \<and> outside_root sn q \<and> node_at fs q = Some n"
      using walk_dir_node [OF keys(1)] keys(2) outside_under [OF stp p(2)] by fastforce
    from snapshot_entries_saved [OF stp this rest(1)] rest(2) dir p show ?thesis
      by (auto simp: row_saved_def affected_row_def os_stat_node)
  qed
  then show "snap_frame sn fs fs'" "rows_saved dg sn fs fs' rows"
    "\<forall>r \<in> set rows. a_op r \<in> {Op_delete, Op_skipped, Op_absent}" by blast+
qed

lemma tree_keys: "tree_ok fs \<Longrightarrow> node_at fs q = Some n \<Longrightarrow> q \<noteq> ''/'' \<Longrightarrow> clean_path q"
  by (auto simp: tree_ok_def node_at_def dest!: map_of_SomeD)

lemma snapshot_many_saved:
  assumes stp: "snapshot_setup dg sn" and "\<forall>p \<in> set ps. clean_path p \<and> outside_root sn p"
    and "distinct_keys fs" "\<forall>q n. node_at fs q = Some n \<longrightarrow> outside_root sn q \<longrightarrow> q \<noteq> ''/'' \<longrightarrow> clean_path q"
    and "snapshot_many dg sn fs ps = (rows, fs')"
  shows "snap_frame sn fs fs' \<and> rows_saved dg sn fs fs' rows \<and> (\<forall>r \<in> set rows. a_op r \<in> {Op_delete, Op_skipped, Op_absent})"
  using assms(2-)
proof (induction ps arbitrary: fs rows fs')
  case Nil
  then show ?case by simp
next
  case (Cons p ps)
  obtain r1 fs1 where s1: "snapshot_one dg sn fs p = (r1, fs1)" by fastforce
  obtain r2 fs2 where s2: "snapshot_many dg sn fs1 ps = (r2, fs2)" by fastforce
  have out: "rows = r1 @ r2" "fs' = fs2" using Cons.prems(4) s1 s2 by auto
  have p: "clean_path p" "outside_root sn p" using Cons.prems(1) by auto
  have "p \<noteq> []" using p(1) by (auto simp: clean_path_def)
  then have "q \<noteq> ''/''" if "under p q" for q using that by (cases p) (auto simp: under_def prefix_def)
  then have "\<forall>q n. node_at fs q = Some n \<longrightarrow> under p q \<longrightarrow> clean_path q"
    using Cons.prems(3) outside_under [OF stp p(2)] by blast
  note one = snapshot_one_saved [OF stp p Cons.prems(2) this s1]
  have "distinct_keys fs1" using one(1) Cons.prems(2) by (simp add: snap_frame_def)
  moreover have "\<forall>q n. node_at fs1 q = Some n \<longrightarrow> outside_root sn q \<longrightarrow> q \<noteq> ''/'' \<longrightarrow> clean_path q"
    using Cons.prems(3) snap_frame_outside [OF one(1)] by metis
  ultimately have IH: "snap_frame sn fs1 fs2 \<and> rows_saved dg sn fs1 fs2 r2 \<and> (\<forall>r \<in> set r2. a_op r \<in> {Op_delete, Op_skipped, Op_absent})"
    using Cons.IH [OF _ _ _ s2] Cons.prems(1) by simp
  then have "rows_saved dg sn fs fs2 r1" "rows_saved dg sn fs fs2 r2" "snap_frame sn fs fs2"
    using rows_saved_later [OF stp one(2)] rows_saved_earlier one(1) snap_frame_trans by blast+
  with out IH one(3) show ?case by auto
qed

section \<open>Putting them back\<close>

definition writable :: "os_state \<Rightarrow> string \<Rightarrow> bool" where
  "writable fs p \<longleftrightarrow> ''/'' \<notin> set (fs_no_stat fs) \<and> p \<notin> set (fs_no_stat fs) \<and> p \<notin> set (fs_no_write fs)
     \<and> (\<forall>a \<in> set (parents_of p). dir_possible fs a)"

lemma clean_path_parents:
  assumes "clean_path p"
  shows "path_dir p = ''/'' \<or> path_dir p \<in> set (parents_of p)"
    and "a \<in> set (parents_of p) \<Longrightarrow> set (parents_of a) \<subseteq> set (parents_of p)"
    and "set (parents_of (path_dir p)) \<subseteq> set (parents_of p)"
proof -
  obtain cs c where cs: "proper_names (cs @ [c])" "p = path_of (cs @ [c])"
    using assms unfolding clean_path_def by (metis rev_exhaust)
  note par = parents_of_path_of [OF cs(1)]
  have dir: "path_dir p = (if cs = [] then ''/'' else path_of cs)" using cs path_dir_path_of [of cs c] by simp
  have "path_of cs \<in> set (parents_of p)" if "cs \<noteq> []"
    unfolding cs(2) par using that by (auto intro!: exI [of _ "length cs"] simp: Suc_le_eq)
  then show 1: "path_dir p = ''/'' \<or> path_dir p \<in> set (parents_of p)" using dir by simp
  show 2: "set (parents_of a) \<subseteq> set (parents_of p)" if "a \<in> set (parents_of p)" for a
  proof -
    have "a \<in> {path_of (take k (cs @ [c])) | k. 1 \<le> k \<and> k < length (cs @ [c])}"
      using that unfolding cs(2) par .
    then obtain k where k: "a = path_of (take k (cs @ [c]))" "1 \<le> k" "k < length (cs @ [c])" by blast
    have "proper_names (take k (cs @ [c]))" using cs(1) unfolding proper_names_def by (metis append_take_drop_id list_all_append)
    then have "set (parents_of a) = {path_of (take j (take k (cs @ [c]))) | j. 1 \<le> j \<and> j < k}"
      using parents_of_path_of [of "take k (cs @ [c])"] k by (auto simp: min_def)
    also have "\<dots> \<subseteq> set (parents_of p)" using par cs(2) k by (auto simp del: take_append simp: min_def)
    finally show ?thesis .
  qed
  have "parents_of ''/'' = []" by code_simp
  then show "set (parents_of (path_dir p)) \<subseteq> set (parents_of p)" using 1 2 by auto
qed

lemma mkdir_all_ok:
  assumes "clean_path p" "\<forall>a \<in> insert p (set (parents_of p)). dir_possible fs a"
  shows "\<exists>fs'. os_mkdir_all fs p = (fs', None)"
  unfolding os_mkdir_all_def
proof (rule mkdir_each_ok, intro ballI conjI)
  fix d assume d: "d \<in> set (parents_of p @ [p])"
  then show "dir_possible fs d" using assms(2) by auto
  fix a assume "a \<in> set (parents_of d)"
  then have "a \<in> set (parents_of p)" using d clean_path_parents(2) [OF assms(1)] by auto
  then show "\<not> is_file (node_at fs a)" using assms(2) by (auto simp: dir_possible_def is_file_def)
qed

lemma mkdir_parent_ok:
  assumes "clean_path p" "writable fs p"
  shows "\<exists>fs'. os_mkdir_all fs (path_dir p) = (fs', None)"
  unfolding os_mkdir_all_def
proof (rule mkdir_each_ok, intro ballI conjI)
  fix d assume "d \<in> set (parents_of (path_dir p) @ [path_dir p])"
  then have d: "d = ''/'' \<or> d \<in> set (parents_of p)" using clean_path_parents(1,3) [OF assms(1)] by auto
  then show "dir_possible fs d" using assms(2) by (auto simp: writable_def dir_possible_def)
  fix a assume "a \<in> set (parents_of d)"
  moreover have "parents_of ''/'' = []" by code_simp
  ultimately have "a \<in> set (parents_of p)" using d clean_path_parents(2) [OF assms(1)] by auto
  then show "\<not> is_file (node_at fs a)" using assms(2) by (auto simp: writable_def dir_possible_def is_file_def)
qed

text \<open>What a restored file changes: the file, and directories above it that were missing.\<close>

definition file_put :: "string \<Rightarrow> node \<Rightarrow> os_state \<Rightarrow> os_state \<Rightarrow> bool" where
  "file_put p n fs fs' \<longleftrightarrow> (\<exists>fs1. dirs_added (insert ''/'' (set (parents_of p))) fs fs1 \<and> fs' = put_node fs1 p n)"

lemma file_put_facts:
  assumes "file_put p n fs fs'"
  shows "p \<noteq> ''/'' \<Longrightarrow> node_at fs' p = Some n" "q \<noteq> p \<Longrightarrow> node_at fs q = Some m \<Longrightarrow> node_at fs' q = Some m"
    "q \<noteq> p \<Longrightarrow> q \<notin> set (parents_of p) \<Longrightarrow> node_at fs' q = node_at fs q"
    "q \<noteq> p \<Longrightarrow> node_at fs' q = Some (File_node bs) \<Longrightarrow> node_at fs q = Some (File_node bs)"
    "q \<noteq> p \<Longrightarrow> node_at fs' q = node_at fs q \<or> node_at fs q = None \<and> node_at fs' q = Some Dir_node"
    "fs_no_stat fs' = fs_no_stat fs" "fs_no_read fs' = fs_no_read fs" "fs_no_write fs' = fs_no_write fs"
proof -
  obtain fs1 where f: "dirs_added (insert ''/'' (set (parents_of p))) fs fs1" "fs' = put_node fs1 p n"
    using assms by (auto simp: file_put_def)
  show "p \<noteq> ''/'' \<Longrightarrow> node_at fs' p = Some n" using f(2) by simp
  show "q \<noteq> p \<Longrightarrow> node_at fs q = Some m \<Longrightarrow> node_at fs' q = Some m"
    using dirs_added_keeps [OF f(1), of q m] f(2) by (cases "q = ''/''") auto
  show "q \<noteq> p \<Longrightarrow> q \<notin> set (parents_of p) \<Longrightarrow> node_at fs' q = node_at fs q"
    using dirs_added_outside [OF f(1), of q] f(2) by (cases "q = ''/''") auto
  show "q \<noteq> p \<Longrightarrow> node_at fs' q = Some (File_node bs) \<Longrightarrow> node_at fs q = Some (File_node bs)"
    using dirs_added_file [OF f(1), of q] f(2) by (cases "q = ''/''") auto
  show "q \<noteq> p \<Longrightarrow> node_at fs' q = node_at fs q \<or> node_at fs q = None \<and> node_at fs' q = Some Dir_node"
    using f by (cases "q = ''/''") (auto simp: dirs_added_def)
  show "fs_no_stat fs' = fs_no_stat fs" "fs_no_read fs' = fs_no_read fs" "fs_no_write fs' = fs_no_write fs"
    using f by (simp_all add: dirs_added_def)
qed

lemma restore_file_ok:
  assumes r: "a_dir r \<noteq> []" "clean_path (a_path r)" "row_copy r \<noteq> a_path r" "row_copy r \<notin> set (parents_of (a_path r))"
    and copy: "os_open fs (row_copy r) = Inr (File_node bs)" "a_sha r = sha256_hex dg bs"
    and w: "writable fs (a_path r)" "node_at fs (a_path r) \<noteq> Some Dir_node"
    and live: "force \<or> node_at fs (a_path r) = None \<or>
      (\<exists>b. node_at fs (a_path r) = Some (File_node b) \<and> sha256_hex dg b = a_sha r)"
  shows "\<exists>fs'. restore_file_impl dg force fs r = (fs', None) \<and> file_put (a_path r) (File_node bs) fs fs'"
proof -
  let ?p = "a_path r"
  have nofault: "snapshot_fault dg fs r = None"
    using copy digest_file [OF copy(1), of dg] by (simp add: snapshot_fault_def)
  have noconflict: "(if force then None else live_conflict dg fs r) = None"
  proof (cases "os_open fs ?p")
    case (Inl e)
    then show ?thesis by (auto simp: live_conflict_def digest_error split: sum.splits)
  next
    case (Inr n)
    then have n: "node_at fs ?p = Some n" by (simp add: os_open_node)
    then obtain b where b: "n = File_node b" using w(2) by (cases n) auto
    show ?thesis using live n b digest_file [of fs ?p b dg] Inr by (auto simp: live_conflict_def split: sum.splits)
  qed
  obtain fs1 where fs1: "os_mkdir_all fs (path_dir ?p) = (fs1, None)"
    using mkdir_parent_ok [OF r(2) w(1)] by blast
  have added: "dirs_added (insert ''/'' (set (parents_of ?p))) fs fs1"
    using mkdir_all_dirs [OF fs1] clean_path_parents(1,3) [OF r(2)] by (auto intro: dirs_added_mono)
  have pne: "?p \<noteq> []" using r(2) path_of_Nil_iff unfolding clean_path_def by metis
  have notin: "?p \<notin> set (parents_of ?p)"
  proof
    assume "?p \<in> set (parents_of ?p)"
    moreover obtain cs where cs: "proper_names cs" "?p = path_of cs" using r(2) by (auto simp: clean_path_def)
    ultimately have "under ?p ?p" using parents_under [OF cs(1), of ?p] by simp
    then show False by (auto simp: under_def dest: prefix_length_le)
  qed
  have open1: "os_open fs1 (row_copy r) = Inr (File_node bs)"
    using copy(1) dirs_added_keeps [OF added, of "row_copy r"] added by (auto simp: os_open_node dirs_added_def)
  have "?p \<noteq> ''/''" using w(2) by auto
  then have "node_at fs1 ?p = node_at fs ?p" using dirs_added_outside [OF added] notin by simp
  moreover have "?p \<notin> set (fs_no_stat fs1)" "?p \<notin> set (fs_no_write fs1)"
    using w(1) added by (simp_all add: writable_def dirs_added_def)
  ultimately have "os_create fs1 ?p = (put_node fs1 ?p (File_node []), None)"
    using os_create_ok mkdir_all_made [OF fs1] w(2) by simp
  from copy_writes [OF open1 this r(3) pne, of dg]
  have "write_back dg fs r = (put_node fs1 ?p (File_node bs), None)" by (simp add: write_back_def fs1)
  moreover have "file_put ?p (File_node bs) fs (put_node fs1 ?p (File_node bs))" using added by (auto simp: file_put_def)
  ultimately show ?thesis using r(1) by (simp add: restore_file_impl_def nofault noconflict del: if_split)
qed

section \<open>Replaying rows\<close>

text \<open>
  Rows of a delete that can be replayed on a tree \<open>base\<close>: the nodes on the way to the path are
  gone or as they were in \<open>orig\<close>, nothing there is out of reach, and the copy can be read.
\<close>

definition reachable_path :: "os_state \<Rightarrow> string \<Rightarrow> bool" where
  "reachable_path fs p \<longleftrightarrow> ''/'' \<notin> set (fs_no_stat fs) \<and>
     (\<forall>a \<in> insert p (set (parents_of p)). a \<notin> set (fs_no_stat fs) \<and> a \<notin> set (fs_no_write fs))"

definition replayable :: "digests \<Rightarrow> os_state \<Rightarrow> os_state \<Rightarrow> affected \<Rightarrow> bool" where
  "replayable dg orig base r \<longleftrightarrow>
     a_op r = Op_delete \<and> clean_path (a_path r) \<and> reachable_path base (a_path r)
     \<and> (\<forall>a \<in> set (parents_of (a_path r)). node_at orig a = Some Dir_node)
     \<and> (\<forall>a \<in> insert (a_path r) (set (parents_of (a_path r))). node_at base a \<in> {None, node_at orig a})
     \<and> (if a_dir r = [] then node_at orig (a_path r) = Some Dir_node
        else row_copy r \<noteq> a_path r \<and> row_copy r \<notin> set (parents_of (a_path r))
          \<and> (\<exists>bs. node_at orig (a_path r) = Some (File_node bs) \<and> a_sha r = sha256_hex dg bs
                \<and> os_open base (row_copy r) = Inr (File_node bs)))"

definition between :: "os_state \<Rightarrow> os_state \<Rightarrow> os_state \<Rightarrow> bool" where
  "between orig base fs \<longleftrightarrow>
     fs_no_stat fs = fs_no_stat base \<and> fs_no_read fs = fs_no_read base \<and> fs_no_write fs = fs_no_write base
     \<and> (\<forall>q. node_at fs q = node_at base q \<or> node_at base q = None \<and> node_at fs q = node_at orig q)"

lemma between_refl [simp]: "between orig base base"
  by (simp add: between_def)

lemma between_keeps: "between orig base fs \<Longrightarrow> node_at base q = Some n \<Longrightarrow> node_at fs q = Some n"
  unfolding between_def by (metis option.distinct(1))

lemma between_step:
  assumes "between orig base fs" "fs_no_stat fs' = fs_no_stat fs" "fs_no_read fs' = fs_no_read fs" "fs_no_write fs' = fs_no_write fs"
    and "\<And>q. node_at fs' q = node_at fs q \<or> node_at fs q = None \<and> node_at fs' q = node_at orig q"
  shows "between orig base fs'"
proof -
  have "node_at fs' q = node_at base q \<or> node_at base q = None \<and> node_at fs' q = node_at orig q" for q
    using assms(1) assms(5) [of q] unfolding between_def by metis
  then show ?thesis using assms(1-4) by (simp add: between_def)
qed

lemma replay_writable:
  assumes "replayable dg orig base r" "between orig base fs"
  shows "writable fs (a_path r)" "\<forall>a \<in> set (parents_of (a_path r)). dir_possible fs a"
proof -
  have "dir_possible fs a" if "a \<in> set (parents_of (a_path r))" for a
  proof -
    have "node_at fs a = Some Dir_node \<or> node_at fs a = None"
      using assms that unfolding replayable_def between_def by (metis empty_iff insert_iff)
    moreover have "a \<notin> set (fs_no_stat fs)" "a \<notin> set (fs_no_write fs)"
      using assms that by (auto simp: replayable_def between_def reachable_path_def)
    ultimately show ?thesis by (auto simp: dir_possible_def)
  qed
  then show "\<forall>a \<in> set (parents_of (a_path r)). dir_possible fs a" by blast
  with assms show "writable fs (a_path r)"
    by (auto simp: writable_def replayable_def between_def reachable_path_def)
qed

lemma replay_row:
  assumes r: "replayable dg orig base r" and fs: "between orig base fs"
  shows "\<exists>fs'. restore_row dg fs r = (fs', None) \<and> between orig base fs'
    \<and> node_at fs' (a_path r) = node_at orig (a_path r)
    \<and> (\<forall>q n. node_at fs q = Some n \<longrightarrow> node_at fs' q = Some n)"
proof -
  let ?p = "a_path r"
  note w = replay_writable [OF r fs]
  have p: "clean_path ?p" "a_op r = Op_delete" using r by (simp_all add: replayable_def)
  have here: "node_at fs ?p = None \<or> node_at fs ?p = node_at orig ?p"
    using r fs unfolding replayable_def between_def by (metis empty_iff insert_iff)
  have par: "\<forall>a \<in> set (parents_of ?p). node_at orig a = Some Dir_node" using r by (simp add: replayable_def)
  show ?thesis
  proof (cases "a_dir r = []")
    case True
    then have dir: "node_at orig ?p = Some Dir_node" using r by (simp add: replayable_def)
    have "dir_possible fs ?p" using here dir w(1) by (auto simp: dir_possible_def writable_def)
    then obtain fs' where fs': "os_mkdir_all fs ?p = (fs', None)" using mkdir_all_ok [OF p(1), of fs] w(2) by auto
    note added = conjunct1 [OF mkdir_all_dirs [OF fs']]
    have "between orig base fs'"
    proof (rule between_step [OF fs])
      show "node_at fs' q = node_at fs q \<or> node_at fs q = None \<and> node_at fs' q = node_at orig q" for q
        using added dir par unfolding dirs_added_def by (metis insert_iff)
    qed (use added in \<open>simp_all add: dirs_added_def\<close>)
    moreover have "node_at fs' ?p = node_at orig ?p" using mkdir_all_made [OF fs'] dir by simp
    moreover have "\<forall>q n. node_at fs q = Some n \<longrightarrow> node_at fs' q = Some n" using dirs_added_keeps [OF added] by blast
    ultimately show ?thesis using True p(2) fs' by (simp add: restore_row_def)
  next
    case False
    then obtain bs where bs: "node_at orig ?p = Some (File_node bs)" "a_sha r = sha256_hex dg bs"
      "os_open base (row_copy r) = Inr (File_node bs)" "row_copy r \<noteq> ?p" "row_copy r \<notin> set (parents_of ?p)"
      using r by (auto simp: replayable_def)
    have "os_open fs (row_copy r) = Inr (File_node bs)"
      using bs(3) between_keeps [OF fs, of "row_copy r"] fs by (auto simp: os_open_node between_def)
    moreover have "node_at fs ?p \<noteq> Some Dir_node" using here bs(1) by auto
    moreover have "False \<or> node_at fs ?p = None \<or> (\<exists>b. node_at fs ?p = Some (File_node b) \<and> sha256_hex dg b = a_sha r)"
      using here bs(1,2) by auto
    ultimately obtain fs' where fs': "restore_file_impl dg False fs r = (fs', None)" "file_put ?p (File_node bs) fs fs'"
      using restore_file_ok [OF False p(1) bs(4,5) _ bs(2) w(1), where force = False] by blast
    note f = file_put_facts [OF fs'(2)]
    have ne: "?p \<noteq> ''/''" using bs(1) by auto
    have "between orig base fs'"
    proof (rule between_step [OF fs])
      show "node_at fs' q = node_at fs q \<or> node_at fs q = None \<and> node_at fs' q = node_at orig q" for q
        using f(1) [OF ne] f(3,5) [of q] here bs(1) par by (cases "q = ?p"; cases "q \<in> set (parents_of ?p)") auto
    qed (rule f(6), rule f(7), rule f(8))
    moreover have "node_at fs' ?p = node_at orig ?p" using f(1) [OF ne] bs(1) by simp
    moreover have "node_at fs q = Some n \<longrightarrow> node_at fs' q = Some n" for q n
      using f(1) [OF ne] f(2) [of q n] here bs(1) by (cases "q = ?p") auto
    ultimately show ?thesis using False p(2) fs'(1) by (simp add: restore_row_def)
  qed
qed

lemma saved_replayable:
  assumes stp: "snapshot_setup dg sn" and r: "clean_path (a_path r)" "outside_root sn (a_path r)"
      "row_saved dg sn orig fs r" "a_op r = Op_delete" "reachable_path base (a_path r)"
    and par: "\<forall>a \<in> set (parents_of (a_path r)). node_at orig a = Some Dir_node"
    and gone: "\<forall>a \<in> insert (a_path r) (set (parents_of (a_path r))). node_at base a \<in> {None, node_at orig a}"
    and copies: "\<forall>q. under (sn_root sn) q \<longrightarrow> node_at base q = node_at fs q
        \<and> q \<notin> set (fs_no_stat base) \<and> q \<notin> set (fs_no_read base)"
  shows "replayable dg orig base r"
proof (cases "a_dir r = []")
  case True
  with r par gone show ?thesis by (simp add: replayable_def row_saved_def)
next
  case False
  then obtain bs t where bs: "node_at orig (a_path r) = Some (File_node bs)" "a_sha r = sha256_hex dg bs"
    "node_at fs (row_copy r) = Some (File_node bs)" "in_slot sn t (row_copy r)"
    using r(3) by (auto simp: row_saved_def)
  have u: "under (sn_root sn) (row_copy r)" using slot_under [OF bs(4)] .
  have "os_open base (row_copy r) = Inr (File_node bs)" using copies u bs(3) by (auto simp: os_open_node)
  moreover have "row_copy r \<noteq> a_path r" using u r(2) by (auto simp: outside_root_def)
  moreover have "row_copy r \<notin> set (parents_of (a_path r))"
  proof
    assume "row_copy r \<in> set (parents_of (a_path r))"
    moreover obtain cs where "proper_names cs" "a_path r = path_of cs" using r(1) by (auto simp: clean_path_def)
    ultimately have "under (row_copy r) (a_path r)" using parents_under by auto
    then have "under (sn_root sn) (a_path r)" using u by (auto simp: under_def prefix_def)
    then show False using r(2) by (simp add: outside_root_def)
  qed
  ultimately show ?thesis using False r par gone bs(1,2) by (auto simp: replayable_def)
qed

lemma file_copied:
  "row_saved dg sn orig fs r \<Longrightarrow> node_at orig (a_path r) = Some (File_node bs) \<Longrightarrow> a_op r = Op_delete \<Longrightarrow> a_dir r \<noteq> []"
  by (auto simp: row_saved_def)

section \<open>Properties\<close>

text \<open>
  C6. A file that was snapshotted can be put back: if \<open>Snapshot\<close> reported a delete row for a regular
  file, then on any later tree on which the copy is still there and the path is free (the
  directories above it gone or in place), \<open>Restore\<close> succeeds, the path holds the original bytes
  again, and nothing else changed but missing directories that were made again.
\<close>

theorem snapshot_restores:
  assumes "snapshot_setup dg sn" "clean_path p" "outside_root sn p" "node_at fs p = Some (File_node bs)"
    and "snapshot_path dg sn fs p = (r, fs1)" "a_op r = Op_delete"
    and "\<forall>a \<in> set (parents_of p). node_at fs a = Some Dir_node"
    and "\<forall>a \<in> set (parents_of p). node_at fs2 a \<in> {None, Some Dir_node}" "node_at fs2 p = None" "reachable_path fs2 p"
    and "\<forall>q. under (sn_root sn) q \<longrightarrow> node_at fs2 q = node_at fs1 q
        \<and> q \<notin> set (fs_no_stat fs2) \<and> q \<notin> set (fs_no_read fs2)"
  shows "\<exists>fs3. restore_row dg fs2 r = (fs3, None) \<and> node_at fs3 p = Some (File_node bs)
    \<and> (\<forall>q. q \<noteq> p \<longrightarrow> node_at fs3 q = node_at fs2 q \<or> node_at fs2 q = None \<and> node_at fs3 q = node_at fs q)"
proof -
  note s = snapshot_path_saved [OF assms(1-3,5)]
  have "replayable dg fs fs2 r"
  proof (rule saved_replayable [OF assms(1) _ _ s(3) assms(6)])
    show "clean_path (a_path r)" "outside_root sn (a_path r)" "reachable_path fs2 (a_path r)" using s(2) assms by simp_all
    show "\<forall>a \<in> set (parents_of (a_path r)). node_at fs a = Some Dir_node" using s(2) assms by simp
    show "\<forall>a \<in> insert (a_path r) (set (parents_of (a_path r))). node_at fs2 a \<in> {None, node_at fs a}"
      using s(2) assms by auto
  qed (use assms(11) in blast)
  from replay_row [OF this between_refl] show ?thesis
    using s(2) assms(4) unfolding between_def by metis
qed

definition demo_setup :: "digests \<times> snapshotter" where
  "demo_setup =
     (\<lparr>sha256_hex = (\<lambda>b. CHR ''h'' # b), sha1_short = (\<lambda>p. ''id'')\<rparr>,
      new_snapshotter ''/s'' 0 None (\<lambda>t. replicate t CHR ''0''))"

lemma demo_setup_ok: "snapshot_setup (fst demo_setup) (snd demo_setup)"
proof -
  have "clean_path ''/s''"
    unfolding clean_path_def by (intro exI [of _ "[''s'']"]) (simp add: proper_name_def)
  moreover have "inj (\<lambda>t. replicate t CHR ''0'')" by (metis injI length_replicate)
  ultimately show ?thesis by (auto simp: snapshot_setup_def demo_setup_def new_snapshotter_def)
qed

definition demo_tree :: os_state where
  "demo_tree =
     \<lparr>fs_nodes = [(''/s'', Dir_node), (''/d'', Dir_node), (''/d/f'', File_node ''bytes''), (''/d/g'', File_node ''old'')],
      fs_no_stat = [], fs_no_read = [], fs_no_write = [], fs_ticks = 0\<rparr>"

lemma demo_path: "clean_path ''/d/f''" "clean_path ''/d/g''" "clean_path ''/d''"
  unfolding clean_path_def
  by (intro exI [of _ "[''d'', ''f'']"], simp add: proper_name_def)
    (intro exI [of _ "[''d'', ''g'']"], simp add: proper_name_def,
     intro exI [of _ "[''d'']"], simp add: proper_name_def)

theorem snapshot_restores_witness:
  "\<exists>fs3. restore_row (fst demo_setup) (os_remove (snd (snapshot_path (fst demo_setup) (snd demo_setup) demo_tree ''/d/f'')) ''/d/f'')
       (fst (snapshot_path (fst demo_setup) (snd demo_setup) demo_tree ''/d/f'')) = (fs3, None)
     \<and> node_at fs3 ''/d/f'' = Some (File_node ''bytes'')"
proof -
  let ?r = "snapshot_path (fst demo_setup) (snd demo_setup) demo_tree ''/d/f''"
  let ?fs2 = "os_remove (snd ?r) ''/d/f''"
  have out: "outside_root (snd demo_setup) ''/d/f''" by code_simp
  have nd: "node_at demo_tree ''/d/f'' = Some (File_node ''bytes'')" by code_simp
  have sp: "snapshot_path (fst demo_setup) (snd demo_setup) demo_tree ''/d/f'' = (fst ?r, snd ?r)" by simp
  have op: "a_op (fst ?r) = Op_delete" by code_simp
  have par: "\<forall>a \<in> set (parents_of ''/d/f''). node_at demo_tree a = Some Dir_node" by code_simp
  have par2: "\<forall>a \<in> set (parents_of ''/d/f''). node_at ?fs2 a \<in> {None, Some Dir_node}" by code_simp
  have gone: "node_at ?fs2 ''/d/f'' = None" by code_simp
  have ok: "reachable_path ?fs2 ''/d/f''" by code_simp
  have "fs_no_stat ?fs2 = []" "fs_no_read ?fs2 = []" by code_simp+
  moreover have "\<not> under (sn_root (snd demo_setup)) ''/d/f''" by code_simp
  then have ne: "q \<noteq> ''/d/f''" if "under (sn_root (snd demo_setup)) q" for q using that by blast
  ultimately have rest: "\<forall>q. under (sn_root (snd demo_setup)) q \<longrightarrow> node_at ?fs2 q = node_at (snd ?r) q
        \<and> q \<notin> set (fs_no_stat ?fs2) \<and> q \<notin> set (fs_no_read ?fs2)"
    using node_at_remove [of "snd ?r" "''/d/f''"] ne by auto
  from snapshot_restores [OF demo_setup_ok demo_path(1) out nd sp op par par2 gone ok rest]
  show ?thesis by blast
qed

text \<open>
  C7. Restoring never damages what it cannot vouch for: for a row with a copy, a copy whose digest is
  no longer the recorded one is refused for every kind of row, and for a deleted or renamed path
  that is in use again with other bytes the restore is refused too; in both cases the file tree is
  exactly as before.
\<close>

theorem restore_refuses:
  assumes "restore_row dg fs r = (fs', res)" "a_dir r \<noteq> []" "a_op r \<in> {Op_delete, Op_rename, Op_modify}"
    and "(a_sha r \<noteq> [] \<and> os_open fs (row_copy r) = Inr (File_node bs) \<and> sha256_hex dg bs \<noteq> a_sha r)
       \<or> (a_op r \<noteq> Op_modify \<and> os_open fs (a_path r) = Inr (File_node bs) \<and> sha256_hex dg bs \<noteq> a_sha r)"
  shows "fs' = fs \<and> res \<noteq> None"
proof -
  have impl: "fst (restore_file_impl dg (a_op r = Op_modify) fs r) = fs
      \<and> snd (restore_file_impl dg (a_op r = Op_modify) fs r) \<noteq> None"
    using assms(4)
  proof
    assume "a_sha r \<noteq> [] \<and> os_open fs (row_copy r) = Inr (File_node bs) \<and> sha256_hex dg bs \<noteq> a_sha r"
    then have "snapshot_fault dg fs r = Some Rotted" by (simp add: snapshot_fault_def digest_file)
    with assms(2) show ?thesis by (simp add: restore_file_impl_def)
  next
    assume live: "a_op r \<noteq> Op_modify \<and> os_open fs (a_path r) = Inr (File_node bs) \<and> sha256_hex dg bs \<noteq> a_sha r"
    then have "os_stat fs (a_path r) = Inr (File_node bs)" by (simp add: os_open_node os_stat_node)
    with live have "live_conflict dg fs r = Some (Different_bytes (a_path r))"
      by (simp add: live_conflict_def digest_file)
    with assms(2) live show ?thesis by (auto simp: restore_file_impl_def split: option.splits)
  qed
  then obtain e where e: "restore_file_impl dg (a_op r = Op_modify) fs r = (fs, Some e)"
    by (metis option.exhaust prod.collapse)
  consider "a_op r = Op_rename" | "a_op r = Op_modify" | "a_op r = Op_delete" using assms(3) by auto
  then show ?thesis
    using assms(1,2) e by cases (auto simp: restore_row_def restore_rename_def)
qed

theorem restore_refuses_witness:
  "let r = (affected_row ''/d/f'' Op_delete)\<lparr>a_dir := ''/s/0-id'', a_sha := ''hbytes''\<rparr>;
       fs = put_node (put_node demo_tree ''/s/0-id/f'' (File_node ''bytes'')) ''/d/f'' (File_node ''new'')
   in fst (restore_row (fst demo_setup) fs r) = fs"
proof -
  let ?r = "(affected_row ''/d/f'' Op_delete)\<lparr>a_dir := ''/s/0-id'', a_sha := ''hbytes''\<rparr>"
  let ?fs = "put_node (put_node demo_tree ''/s/0-id/f'' (File_node ''bytes'')) ''/d/f'' (File_node ''new'')"
  have eq: "restore_row (fst demo_setup) ?fs ?r = (fst (restore_row (fst demo_setup) ?fs ?r), snd (restore_row (fst demo_setup) ?fs ?r))"
    by simp
  have dir: "a_dir ?r \<noteq> []" and op: "a_op ?r \<in> {Op_delete, Op_rename, Op_modify}" by (simp_all add: affected_row_def)
  have "a_op ?r \<noteq> Op_modify \<and> os_open ?fs (a_path ?r) = Inr (File_node ''new'') \<and> sha256_hex (fst demo_setup) ''new'' \<noteq> a_sha ?r"
    by code_simp
  from restore_refuses [OF eq dir op disjI2, OF this] show ?thesis by (simp add: Let_def)
qed

end
