(* ===== verification/Undo_Log.thy ===== *)
theory Undo_Log
  imports Snapshots "HOL-Library.Product_Lexorder"
begin

text \<open>
  The history of destructive commands: the event log of \<^verbatim>\<open>shell/internal/history/store.go\<close>,
  the interceptor around a command of \<^verbatim>\<open>interceptor.go\<close>, and the built-ins \<open>undo\<close> and
  \<open>restore\<close> of \<^verbatim>\<open>shell/internal/shell/builtin_undo.go\<close>. The two SQL tables are a list of
  rows in insertion order: an event with its affected paths, and the columns \<open>exit_code\<close> and
  \<open>duration_ms\<close>. The primary keys of the schema are the checks of \<open>append_event\<close>.
  What the calls \<open>NewEventID\<close> and \<open>time.Now\<close> return is an argument.
\<close>

section \<open>Events and the store\<close>

datatype kind = Pre_exec | Snapshot_event | Checkpoint_event

record event =
  e_id :: string
  e_ts :: nat
  e_kind :: kind
  e_command :: string
  e_cwd :: string
  e_exit :: "int option"
  e_ms :: nat
  e_affected :: "affected list"
  e_name :: string
  e_signature :: string
  e_signer :: string

record event_row =
  r_event :: event
  r_exit :: "int option"

record signer =
  sg_sign :: "event \<Rightarrow> string option"
  sg_id :: string

record store =
  st_open :: bool
  st_rows :: "event_row list"
  st_signer :: "signer option"

datatype store_error =
    Store_closed
  | Empty_id
  | Sign_failed
  | Insert_event
  | Insert_snapshot
  | Empty_name
  | No_row string

definition sign_event :: "store \<Rightarrow> event \<Rightarrow> event option" where
  "sign_event st e =
     (case st_signer st of
        None \<Rightarrow> Some e
      | Some sg \<Rightarrow>
          (let blank = e\<lparr>e_signature := [], e_signer := []\<rparr> in
           case sg_sign sg blank of
             None \<Rightarrow> None
           | Some sig \<Rightarrow> Some (blank\<lparr>e_signature := sig, e_signer := sg_id sg\<rparr>)))"

text \<open>One transaction: the row of the event and one row for each affected path, or nothing.\<close>

definition append_event :: "store \<Rightarrow> event \<Rightarrow> store_error + store" where
  "append_event st e =
     (if \<not> st_open st then Inl Store_closed
      else if e_id e = [] then Inl Empty_id
      else case sign_event st e of
        None \<Rightarrow> Inl Sign_failed
      | Some signed \<Rightarrow>
          if list_ex (\<lambda>r. e_id (r_event r) = e_id e) (st_rows st) then Inl Insert_event
          else if \<not> distinct (map a_path (e_affected e)) then Inl Insert_snapshot
          else Inr (st\<lparr>st_rows := st_rows st @ [\<lparr>r_event = signed, r_exit = None\<rparr>]\<rparr>))"

definition update_row :: "string \<Rightarrow> (event_row \<Rightarrow> event_row) \<Rightarrow> store \<Rightarrow> store" where
  "update_row eid f st = st\<lparr>st_rows := map (\<lambda>r. if e_id (r_event r) = eid then f r else r) (st_rows st)\<rparr>"

definition finalize_event :: "store \<Rightarrow> string \<Rightarrow> int \<Rightarrow> nat \<Rightarrow> store_error + store" where
  "finalize_event st eid code ms =
     (if \<not> st_open st then Inl Store_closed
      else if \<not> list_ex (\<lambda>r. e_id (r_event r) = eid) (st_rows st) then Inl (No_row eid)
      else Inr (update_row eid
        (\<lambda>r. \<lparr>r_event = (r_event r)\<lparr>e_exit := Some code, e_ms := ms\<rparr>, r_exit = Some code\<rparr>) st))"

definition checkpoint :: "store \<Rightarrow> string \<Rightarrow> string \<Rightarrow> nat \<Rightarrow> store_error + store" where
  "checkpoint st name eid now =
     (if \<not> st_open st then Inl Store_closed
      else if name = [] then Inl Empty_name
      else case append_event st
          \<lparr>e_id = eid, e_ts = now, e_kind = Checkpoint_event, e_command = ''checkpoint '' @ name, e_cwd = [],
           e_exit = Some 0, e_ms = 0, e_affected = [], e_name = name, e_signature = [], e_signer = []\<rparr> of
        Inl e \<Rightarrow> Inl e
      | Inr st1 \<Rightarrow> Inr (update_row eid (\<lambda>r. r\<lparr>r_exit := Some 0\<rparr>) st1))"

text \<open>\<open>ORDER BY ts DESC, id DESC\<close>.\<close>

definition newest_first :: "event_row list \<Rightarrow> event_row list" where
  "newest_first rs = rev (sort_key (\<lambda>r. (e_ts (r_event r), e_id (r_event r))) rs)"

definition first_event :: "event_row list \<Rightarrow> event option" where
  "first_event rs = (case newest_first rs of [] \<Rightarrow> None | r # _ \<Rightarrow> Some (r_event r))"

definition checkpoint_by_name :: "store \<Rightarrow> string \<Rightarrow> store_error + event option" where
  "checkpoint_by_name st name =
     (if \<not> st_open st then Inl Store_closed
      else if name = [] then Inl Empty_name
      else Inr (first_event
        (filter (\<lambda>r. e_kind (r_event r) = Checkpoint_event \<and> e_name (r_event r) = name) (st_rows st))))"

definition events_since_checkpoint :: "store \<Rightarrow> event \<Rightarrow> store_error + event list" where
  "events_since_checkpoint st cp =
     (if \<not> st_open st then Inl Store_closed
      else Inr (map r_event (newest_first
        (filter (\<lambda>r. e_kind (r_event r) = Snapshot_event \<and> e_ts cp < e_ts (r_event r) \<and> r_exit r \<noteq> None)
          (st_rows st)))))"

definition has_bytes :: "affected \<Rightarrow> bool" where
  "has_bytes a \<longleftrightarrow> a_op a \<in> {Op_delete, Op_rename, Op_modify} \<and> a_dir a \<noteq> []"

definition latest_restorable :: "store \<Rightarrow> store_error + event option" where
  "latest_restorable st =
     (if \<not> st_open st then Inl Store_closed
      else case first_event (filter (\<lambda>r. e_kind (r_event r) = Snapshot_event \<and> r_exit r \<noteq> None) (st_rows st)) of
        None \<Rightarrow> Inr None
      | Some ev \<Rightarrow> if list_ex has_bytes (e_affected ev) then Inr (Some ev) else Inr None)"

text \<open>
  The join of snapshots and events for a path. Among rows with the same time, which SQL leaves
  open, the one inserted last is taken.
\<close>

definition snapshots_for_path :: "store \<Rightarrow> string \<Rightarrow> store_error + affected option" where
  "snapshots_for_path st path =
     (if \<not> st_open st then Inl Store_closed
      else
        (let rows = concat (map (\<lambda>r. map (\<lambda>a. (e_ts (r_event r), a))
                (filter (\<lambda>a. a_path a = path \<and> has_bytes a) (e_affected (r_event r))))
              (filter (\<lambda>r. r_exit r \<noteq> None) (st_rows st)))
         in Inr (case rev (sort_key fst rows) of [] \<Rightarrow> None | (_, a) # _ \<Rightarrow> Some a)))"

text \<open>\<open>Purge\<close>; the affected paths go with their events.\<close>

definition purge :: "store \<Rightarrow> nat \<Rightarrow> store_error + store \<times> nat" where
  "purge st before =
     (if \<not> st_open st then Inl Store_closed
      else
        (let kept = filter (\<lambda>r. \<not> e_ts (r_event r) < before) (st_rows st)
         in Inr (st\<lparr>st_rows := kept\<rparr>, length (st_rows st) - length kept)))"

section \<open>The interceptor\<close>

datatype history_notice =
    Snapshot_skipped string string
  | Append_failed store_error
  | Finalize_failed store_error

text \<open>
  \<open>h_cwd\<close> is what the bound callback returns (empty when there is none) and \<open>h_getwd\<close> what
  \<open>os.Getwd\<close> returns.
\<close>

record history =
  h_store :: store
  h_sn :: snapshotter
  h_cwd :: string
  h_getwd :: "string option"
  h_pending :: string
  h_notices :: "history_notice list"

definition new_history :: "store option \<Rightarrow> snapshotter option \<Rightarrow> string option \<Rightarrow> history option" where
  "new_history st sn wd =
     (case (st, sn) of
        (Some st', Some sn') \<Rightarrow>
          Some \<lparr>h_store = st', h_sn = sn', h_cwd = [], h_getwd = wd, h_pending = [], h_notices = []\<rparr>
      | _ \<Rightarrow> None)"

definition redacted_tainted :: string where
  "redacted_tainted = ''[REDACTED:tainted]''"

definition record_command :: "pipeline \<Rightarrow> string \<Rightarrow> string" where
  "record_command pl line = (if tainted pl then redacted_tainted else line)"

definition current_cwd :: "history \<Rightarrow> string" where
  "current_cwd h =
     (if h_cwd h \<noteq> [] then h_cwd h else case h_getwd h of None \<Rightarrow> [] | Some wd \<Rightarrow> wd)"

definition abs_path :: "history \<Rightarrow> string \<Rightarrow> string option" where
  "abs_path h p =
     (if path_is_abs p then Some (path_clean p)
      else case h_getwd h of None \<Rightarrow> None | Some wd \<Rightarrow> Some (path_join wd p))"

definition canonicalize :: "history \<Rightarrow> string list \<Rightarrow> string list" where
  "canonicalize h ps =
     map (\<lambda>p.
       if path_is_abs p then path_clean p
       else if current_cwd h \<noteq> [] then path_clean (path_join (current_cwd h) p)
       else case abs_path h p of Some a \<Rightarrow> a | None \<Rightarrow> p) ps"

fun snapshot_moves :: "digests \<Rightarrow> history \<Rightarrow> os_state \<Rightarrow> (string \<times> string) list \<Rightarrow> affected list \<times> os_state" where
  "snapshot_moves dg h fs [] = ([], fs)"
| "snapshot_moves dg h fs ((src, dst) # pairs) =
     (let (rows, fs1) = snapshot_move dg (h_sn h) fs (hd (canonicalize h [src])) (hd (canonicalize h [dst]));
          (more_rows, fs2) = snapshot_moves dg h fs1 pairs
      in (rows @ more_rows, fs2))"

definition collect_rows :: "digests \<Rightarrow> history \<Rightarrow> os_state \<Rightarrow> pipeline \<Rightarrow> affected list \<times> os_state" where
  "collect_rows dg h fs pl =
     (let (recs, fs1) = snapshot_moves dg h fs (rename_targets pl)
      in if pipeline_has_mv pl then (recs, fs1)
         else let (more_recs, fs2) = snapshot_many dg (h_sn h) fs1 (canonicalize h (target_paths pl))
              in (recs @ more_recs, fs2))"

definition skip_notices :: "affected list \<Rightarrow> history_notice list" where
  "skip_notices rows = map (\<lambda>r. Snapshot_skipped (a_path r) (a_skip r)) (filter (\<lambda>r. a_op r = Op_skipped) rows)"

definition before_command ::
  "digests \<Rightarrow> history \<Rightarrow> os_state \<Rightarrow> pipeline \<Rightarrow> string \<Rightarrow> string \<Rightarrow> nat \<Rightarrow> history \<times> os_state" where
  "before_command dg h fs pl line new_id now =
     (if \<not> is_destructive pl then (h\<lparr>h_pending := []\<rparr>, fs)
      else
        (let (recs, fs1) = collect_rows dg h fs pl;
             h1 = h\<lparr>h_notices := h_notices h @ skip_notices recs\<rparr>;
             ev = \<lparr>e_id = new_id, e_ts = now, e_kind = Snapshot_event, e_command = record_command pl line,
                   e_cwd = current_cwd h, e_exit = None, e_ms = 0, e_affected = recs, e_name = [],
                   e_signature = [], e_signer = []\<rparr>
         in case append_event (h_store h) ev of
              Inl e \<Rightarrow> (h1\<lparr>h_notices := h_notices h1 @ [Append_failed e], h_pending := []\<rparr>, fs1)
            | Inr st \<Rightarrow> (h1\<lparr>h_store := st, h_pending := new_id\<rparr>, fs1)))"

definition after_command :: "history \<Rightarrow> int \<Rightarrow> nat \<Rightarrow> history" where
  "after_command h code ms =
     (if h_pending h = [] then h
      else
        (let eid = h_pending h; h1 = h\<lparr>h_pending := []\<rparr> in
         case finalize_event (h_store h) eid code ms of
           Inl e \<Rightarrow> h1\<lparr>h_notices := h_notices h1 @ [Finalize_failed e]\<rparr>
         | Inr st \<Rightarrow> h1\<lparr>h_store := st\<rparr>))"

definition dir_rows :: "affected list \<Rightarrow> affected list" where
  "dir_rows rows = filter (\<lambda>a. a_op a \<in> {Op_delete, Op_rename} \<and> a_dir a = []) rows"

definition file_rows :: "affected list \<Rightarrow> affected list" where
  "file_rows rows = filter (\<lambda>a. a_op a \<in> {Op_delete, Op_rename, Op_modify} \<and> a_dir a \<noteq> []) rows"

text \<open>The two loops of \<open>RestoreEvent\<close>, keeping the first error.\<close>

fun restore_rows :: "digests \<Rightarrow> os_state \<Rightarrow> restore_error option \<Rightarrow> affected list \<Rightarrow> os_state \<times> restore_error option" where
  "restore_rows dg fs first_err [] = (fs, first_err)"
| "restore_rows dg fs first_err (r # rs) =
     (case restore_row dg fs r of
        (fs1, err) \<Rightarrow> restore_rows dg fs1 (if first_err = None then err else first_err) rs)"

definition restore_event :: "digests \<Rightarrow> os_state \<Rightarrow> event \<Rightarrow> os_state \<times> restore_error option" where
  "restore_event dg fs ev =
     (case restore_rows dg fs None (dir_rows (e_affected ev)) of
        (fs1, err) \<Rightarrow> restore_rows dg fs1 err (file_rows (e_affected ev)))"

datatype path_error = Path_store store_error | Path_restore restore_error | No_snapshot string

fun restore_candidates :: "digests \<Rightarrow> history \<Rightarrow> os_state \<Rightarrow> string \<Rightarrow> string list \<Rightarrow> os_state \<times> path_error option" where
  "restore_candidates dg h fs path [] = (fs, Some (No_snapshot path))"
| "restore_candidates dg h fs path (p # ps) =
     (case snapshots_for_path (h_store h) p of
        Inl e \<Rightarrow> (fs, Some (Path_store e))
      | Inr (Some r) \<Rightarrow> (case restore_row dg fs r of (fs1, e) \<Rightarrow> (fs1, map_option Path_restore e))
      | Inr None \<Rightarrow> restore_candidates dg h fs path ps)"

definition restore_path :: "digests \<Rightarrow> history \<Rightarrow> os_state \<Rightarrow> string \<Rightarrow> os_state \<times> path_error option" where
  "restore_path dg h fs path =
     restore_candidates dg h fs path [case abs_path h path of None \<Rightarrow> [] | Some a \<Rightarrow> a, path]"

section \<open>The built-ins\<close>

datatype undo_output =
    Undo_arguments "string list"
  | No_history
  | Undo_failed store_error
  | Nothing_to_undo
  | Restore_failed restore_error
  | Undo_restored nat string
  | Restore_usage
  | Restore_path_failed path_error
  | Restored string

definition count_restorable_paths :: "event \<Rightarrow> nat" where
  "count_restorable_paths ev = length (filter has_bytes (e_affected ev))"

definition undo_builtin :: "digests \<Rightarrow> history option \<Rightarrow> os_state \<Rightarrow> string list \<Rightarrow> os_state \<times> int \<times> undo_output" where
  "undo_builtin dg ho fs args =
     (if 0 < length args then (fs, 2, Undo_arguments args)
      else case ho of
        None \<Rightarrow> (fs, 1, No_history)
      | Some h \<Rightarrow>
          (case latest_restorable (h_store h) of
             Inl e \<Rightarrow> (fs, 1, Undo_failed e)
           | Inr None \<Rightarrow> (fs, 1, Nothing_to_undo)
           | Inr (Some ev) \<Rightarrow>
               (case restore_event dg fs ev of
                  (fs1, Some e) \<Rightarrow> (fs1, 1, Restore_failed e)
                | (fs1, None) \<Rightarrow> (fs1, 0, Undo_restored (count_restorable_paths ev) (e_command ev)))))"

definition restore_builtin ::
  "digests \<Rightarrow> history option \<Rightarrow> string \<Rightarrow> os_state \<Rightarrow> string list \<Rightarrow> os_state \<times> int \<times> undo_output" where
  "restore_builtin dg ho cwd fs args =
     (case args of
        [arg] \<Rightarrow>
          (case ho of
             None \<Rightarrow> (fs, 1, No_history)
           | Some h \<Rightarrow>
               (let target = (if path_is_abs arg then path_clean arg else path_clean (path_join cwd arg)) in
                case restore_path dg h fs target of
                  (fs1, Some e) \<Rightarrow> (fs1, 1, Restore_path_failed e)
                | (fs1, None) \<Rightarrow> (fs1, 0, Restored target)))
      | _ \<Rightarrow> (fs, 2, Restore_usage))"

section \<open>Replaying an event\<close>

lemma restore_rows_all:
  "\<forall>r \<in> set rs. replayable dg orig base r \<Longrightarrow> between orig base fs \<Longrightarrow>
     \<exists>fs'. restore_rows dg fs None rs = (fs', None) \<and> between orig base fs'
       \<and> (\<forall>r \<in> set rs. node_at fs' (a_path r) = node_at orig (a_path r))
       \<and> (\<forall>q n. node_at fs q = Some n \<longrightarrow> node_at fs' q = Some n)"
proof (induction rs arbitrary: fs)
  case (Cons r rs)
  have r: "replayable dg orig base r" using Cons.prems(1) by simp
  obtain fs1 where fs1: "restore_row dg fs r = (fs1, None)" "between orig base fs1"
    "node_at fs1 (a_path r) = node_at orig (a_path r)" "\<forall>q n. node_at fs q = Some n \<longrightarrow> node_at fs1 q = Some n"
    using replay_row [OF r Cons.prems(2)] by blast
  obtain fs2 where fs2: "restore_rows dg fs1 None rs = (fs2, None)" "between orig base fs2"
    "\<forall>r \<in> set rs. node_at fs2 (a_path r) = node_at orig (a_path r)" "\<forall>q n. node_at fs1 q = Some n \<longrightarrow> node_at fs2 q = Some n"
    using Cons.IH [OF _ fs1(2)] Cons.prems(1) by auto
  have "node_at orig (a_path r) \<noteq> None" using r by (auto simp: replayable_def split: if_splits)
  then have "node_at fs2 (a_path r) = node_at orig (a_path r)" using fs1(3) fs2(4) by auto
  then show ?case using fs1 fs2 by simp
qed simp

lemma restore_event_all:
  assumes "\<forall>r \<in> set (e_affected ev). a_op r = Op_delete \<longrightarrow> replayable dg orig base r"
    and "\<forall>r \<in> set (e_affected ev). a_op r \<in> {Op_delete, Op_skipped, Op_absent}"
  shows "\<exists>fs'. restore_event dg base ev = (fs', None) \<and> between orig base fs'
    \<and> (\<forall>r \<in> set (e_affected ev). a_op r = Op_delete \<longrightarrow> node_at fs' (a_path r) = node_at orig (a_path r))"
proof -
  let ?ds = "dir_rows (e_affected ev)" and ?rs = "file_rows (e_affected ev)"
  have sub: "\<forall>r \<in> set ?ds. replayable dg orig base r" "\<forall>r \<in> set ?rs. replayable dg orig base r"
    using assms by (auto simp: dir_rows_def file_rows_def)
  obtain fs1 where fs1: "restore_rows dg base None ?ds = (fs1, None)" "between orig base fs1"
    "\<forall>r \<in> set ?ds. node_at fs1 (a_path r) = node_at orig (a_path r)"
    using restore_rows_all [OF sub(1) between_refl] by blast
  obtain fs2 where fs2: "restore_rows dg fs1 None ?rs = (fs2, None)" "between orig base fs2"
    "\<forall>r \<in> set ?rs. node_at fs2 (a_path r) = node_at orig (a_path r)" "\<forall>q n. node_at fs1 q = Some n \<longrightarrow> node_at fs2 q = Some n"
    using restore_rows_all [OF sub(2) fs1(2)] by blast
  have "node_at fs2 (a_path r) = node_at orig (a_path r)" if r: "r \<in> set (e_affected ev)" "a_op r = Op_delete" for r
  proof (cases "a_dir r = []")
    case True
    then have "r \<in> set ?ds" "node_at orig (a_path r) = Some Dir_node"
      using r assms(1) by (auto simp: dir_rows_def replayable_def)
    then show ?thesis using fs1(3) fs2(4) by auto
  next
    case False
    then show ?thesis using r fs2(3) by (auto simp: file_rows_def)
  qed
  then show ?thesis using fs1 fs2 by (auto simp: restore_event_def)
qed

section \<open>The newest event\<close>

lemma sorted_map_last: "sorted (map k ys) \<Longrightarrow> y \<in> set ys \<Longrightarrow> k y \<le> k (last ys)"
  by (induction ys) (auto split: if_splits)

lemma last_sort_key:
  assumes "xs \<noteq> []"
  shows "last (sort_key k xs) \<in> set xs" "\<forall>x \<in> set xs. k x \<le> k (last (sort_key k xs))"
proof -
  have "sort_key k xs \<noteq> []" using assms by (metis set_empty set_sort)
  then show "last (sort_key k xs) \<in> set xs" using last_in_set by fastforce
  show "\<forall>x \<in> set xs. k x \<le> k (last (sort_key k xs))" using sorted_map_last [of k "sort_key k xs"] by simp
qed

lemma first_event_last:
  "first_event rs =
     (if rs = [] then None else Some (r_event (last (sort_key (\<lambda>r. (e_ts (r_event r), e_id (r_event r))) rs))))"
proof (cases "sort_key (\<lambda>r. (e_ts (r_event r), e_id (r_event r))) rs" rule: rev_cases)
  case Nil
  then show ?thesis by (metis first_event_def list.simps(4) newest_first_def rev.simps(1) set_empty set_sort)
next
  case (snoc ys y)
  then have "rs \<noteq> []" by auto
  with snoc show ?thesis by (simp add: first_event_def newest_first_def)
qed

lemma first_event_newest:
  assumes "r \<in> set rs" "\<forall>x \<in> set rs. x = r \<or> e_ts (r_event x) < e_ts (r_event r)"
  shows "first_event rs = Some (r_event r)"
proof -
  let ?k = "\<lambda>r. (e_ts (r_event r), e_id (r_event r))"
  have ne: "rs \<noteq> []" using assms(1) by auto
  note l = last_sort_key [OF ne, of ?k]
  have "?k r \<le> ?k (last (sort_key ?k rs))" using l(2) assms(1) by blast
  then have "last (sort_key ?k rs) = r" using assms(2) l(1) by (auto simp: less_eq_prod_def)
  then show ?thesis using ne by (simp add: first_event_last)
qed

section \<open>What is in the rows\<close>

text \<open>The paths a walk from a target reaches: no unreadable directory lies between.\<close>

definition visible :: "os_state \<Rightarrow> string \<Rightarrow> string \<Rightarrow> bool" where
  "visible fs p q \<longleftrightarrow> q = p \<or> under p q \<and> node_at fs p = Some Dir_node \<and>
     (\<forall>a \<in> set (parents_of q). a = p \<or> under p a \<longrightarrow> a \<notin> set (fs_no_read fs))"

lemma snapshot_entries_covers:
  assumes stp: "snapshot_setup dg sn"
    and "\<forall>(q, n) \<in> set es. clean_path q \<and> outside_root sn q \<and> node_at fs q = Some n"
    and "snapshot_entries dg sn fs es = (rows, fs')" "(q, n) \<in> set es" "q \<notin> set (fs_no_stat fs)"
  shows "\<exists>r \<in> set rows. a_path r = q \<and> a_op r \<noteq> Op_absent"
  using assms(2-)
proof (induction es arbitrary: fs rows)
  case (Cons e es)
  obtain q1 n1 where e: "e = (q1, n1)" by fastforce
  define s where "s = (if n1 = Dir_node then (affected_row q1 Op_delete, fs) else snapshot_path dg sn fs q1)"
  obtain row fs1 where s1: "s = (row, fs1)" by fastforce
  obtain rest fs2 where s2: "snapshot_entries dg sn fs1 es = (rest, fs2)" by fastforce
  have out: "rows = row # rest" "fs' = fs2" using Cons.prems(2) e s1 s2 by (auto simp: s_def split: if_splits)
  have q1: "clean_path q1" "outside_root sn q1" "node_at fs q1 = Some n1" using Cons.prems(1) e by auto
  have one: "snap_frame sn fs fs1 \<and> a_path row = q1 \<and> (q1 \<notin> set (fs_no_stat fs) \<longrightarrow> a_op row \<noteq> Op_absent)"
  proof (cases "n1 = Dir_node")
    case True
    then show ?thesis using s1 by (auto simp: s_def affected_row_def)
  next
    case False
    then have sp: "snapshot_path dg sn fs q1 = (row, fs1)" using s1 by (simp add: s_def)
    have "q1 \<notin> set (fs_no_stat fs) \<longrightarrow> os_stat fs q1 = Inr n1" using q1(3) by (simp add: os_stat_node)
    with snapshot_path_saved [OF stp q1(1,2) sp] show ?thesis by auto
  qed
  show ?case
  proof (cases "(q, n) = e")
    case True
    then show ?thesis using one out e Cons.prems(4) by simp
  next
    case False
    have "\<forall>(q, n) \<in> set es. clean_path q \<and> outside_root sn q \<and> node_at fs1 q = Some n"
      using Cons.prems(1) one snap_frame_outside by auto
    moreover have "q \<notin> set (fs_no_stat fs1)" using one Cons.prems(4) by (simp add: snap_frame_def)
    ultimately show ?thesis using Cons.IH [of fs1 rest] s2 out False Cons.prems(3) by auto
  qed
qed simp

lemma snapshot_one_covers:
  assumes stp: "snapshot_setup dg sn" and p: "clean_path p" "outside_root sn p" "p \<notin> set (fs_no_stat fs)"
    and tree: "distinct_keys fs" "\<forall>q n. node_at fs q = Some n \<longrightarrow> under p q \<longrightarrow> clean_path q"
    and s: "snapshot_one dg sn fs p = (rows, fs')" and q: "visible fs p q" "node_at fs q = Some n" "q \<notin> set (fs_no_stat fs)"
  shows "\<exists>r \<in> set rows. a_path r = q \<and> a_op r \<noteq> Op_absent"
proof (cases "node_at fs p")
  case None
  with q show ?thesis by (simp add: visible_def)
next
  case (Some m)
  then have st: "os_stat fs p = Inr m" using p(3) by (simp add: os_stat_node)
  show ?thesis
  proof (cases m)
    case (File_node bs)
    obtain row fs1 where row: "snapshot_path dg sn fs p = (row, fs1)" by fastforce
    have "q = p" using q(1) Some File_node by (simp add: visible_def)
    moreover have "rows = [row]" using s st File_node row by (simp add: snapshot_one_def)
    moreover have "a_path row = p" "a_op row \<noteq> Op_absent"
      using snapshot_path_saved [OF stp p(1,2) row] st by auto
    ultimately show ?thesis by simp
  next
    case Dir_node
    then obtain rest where rest: "snapshot_entries dg sn fs (walk_dir fs p) = (rest, fs')"
      "rows = affected_row p Op_delete # rest" using s st by (auto simp: snapshot_one_def split: prod.splits)
    show ?thesis
    proof (cases "q = p")
      case True
      then show ?thesis using rest(2) by (simp add: affected_row_def)
    next
      case False
      have pne: "p \<noteq> []" using p(1) path_of_Nil_iff unfolding clean_path_def by metis
      have es: "\<forall>(q, n) \<in> set (walk_dir fs p). clean_path q \<and> outside_root sn q \<and> node_at fs q = Some n"
        using walk_dir_node [OF tree(1) _ pne] tree(2) outside_under [OF stp p(2)] by fastforce
      have u: "under p q" using q(1) False by (simp add: visible_def)
      then have "q \<noteq> ''/''" using pne by (cases p) (auto simp: under_def prefix_def)
      then have "(q, n) \<in> set (fs_nodes fs)" using q(2) by (auto simp: node_at_def dest: map_of_SomeD)
      then have "(q, n) \<in> set (walk_dir fs p)"
        using q(1) False u by (auto simp: walk_dir_def visible_def list_ex_iff List.member_iff)
      from snapshot_entries_covers [OF stp es rest(1) this q(3)] show ?thesis using rest(2) by auto
    qed
  qed
qed

lemma visible_later:
  assumes "visible fs p q" "snap_frame sn fs fs'" "outside_root sn p"
  shows "visible fs' p q"
  using assms snap_frame_outside [OF assms(2,3)] by (auto simp: visible_def snap_frame_def)

lemma snapshot_many_covers:
  assumes stp: "snapshot_setup dg sn" and "\<forall>p \<in> set ps. clean_path p \<and> outside_root sn p"
    and "distinct_keys fs" "\<forall>q n. node_at fs q = Some n \<longrightarrow> outside_root sn q \<longrightarrow> q \<noteq> ''/'' \<longrightarrow> clean_path q"
    and "snapshot_many dg sn fs ps = (rows, fs')"
    and "p \<in> set ps" "visible fs p q" "node_at fs q = Some n" "p \<notin> set (fs_no_stat fs)" "q \<notin> set (fs_no_stat fs)"
  shows "\<exists>r \<in> set rows. a_path r = q \<and> a_op r \<noteq> Op_absent"
  using assms(2-)
proof (induction ps arbitrary: fs rows)
  case (Cons p1 ps)
  obtain r1 fs1 where s1: "snapshot_one dg sn fs p1 = (r1, fs1)" by fastforce
  obtain r2 fs2 where s2: "snapshot_many dg sn fs1 ps = (r2, fs2)" by fastforce
  have out: "rows = r1 @ r2" "fs' = fs2" using Cons.prems(4) s1 s2 by auto
  have p1: "clean_path p1" "outside_root sn p1" using Cons.prems(1) by auto
  have clean: "\<forall>q n. node_at fs q = Some n \<longrightarrow> under p1 q \<longrightarrow> clean_path q"
  proof (intro allI impI)
    fix q n assume q: "node_at fs q = Some n" "under p1 q"
    have "p1 \<noteq> []" using p1(1) path_of_Nil_iff unfolding clean_path_def by metis
    then have "q \<noteq> ''/''" using q(2) by (cases p1) (auto simp: under_def prefix_def)
    then show "clean_path q" using Cons.prems(3) q outside_under [OF stp p1(2)] by blast
  qed
  note one = snapshot_one_saved [OF stp p1 Cons.prems(2) clean s1]
  show ?case
  proof (cases "p = p1")
    case True
    then have "\<exists>r \<in> set r1. a_path r = q \<and> a_op r \<noteq> Op_absent"
      using snapshot_one_covers [OF stp p1 _ Cons.prems(2) clean s1, of q n] Cons.prems(6-) by blast
    then show ?thesis using out by auto
  next
    case False
    then have p: "p \<in> set ps" using Cons.prems(5) by simp
    then have po: "outside_root sn p" using Cons.prems(1) by simp
    have qo: "outside_root sn q" using Cons.prems(6) outside_under [OF stp po] po by (auto simp: visible_def)
    have "distinct_keys fs1" using one(1) Cons.prems(2) by (simp add: snap_frame_def)
    moreover have "\<forall>q n. node_at fs1 q = Some n \<longrightarrow> outside_root sn q \<longrightarrow> q \<noteq> ''/'' \<longrightarrow> clean_path q"
      using Cons.prems(3) snap_frame_outside [OF one(1)] by metis
    moreover have "visible fs1 p q" using visible_later [OF Cons.prems(6) one(1) po] .
    moreover have "node_at fs1 q = Some n" using snap_frame_outside [OF one(1) qo] Cons.prems(7) by simp
    moreover have "p \<notin> set (fs_no_stat fs1)" "q \<notin> set (fs_no_stat fs1)"
      using Cons.prems(8,9) one(1) by (auto simp: snap_frame_def)
    ultimately have "\<exists>r \<in> set r2. a_path r = q \<and> a_op r \<noteq> Op_absent"
      using Cons.IH [of fs1 r2] s2 p out(2) Cons.prems(1) by simp
    then show ?thesis using out by auto
  qed
qed simp

section \<open>A command with its history\<close>

text \<open>What a removing command does to the tree: its targets are gone, and nothing else.\<close>

definition in_targets :: "string list \<Rightarrow> string \<Rightarrow> bool" where
  "in_targets ps q \<longleftrightarrow> (\<exists>p \<in> set ps. q = p \<or> under p q)"

definition command_removes :: "string list \<Rightarrow> os_state \<Rightarrow> os_state \<Rightarrow> bool" where
  "command_removes ps fs fs' \<longleftrightarrow>
     fs_no_stat fs' = fs_no_stat fs \<and> fs_no_read fs' = fs_no_read fs \<and> fs_no_write fs' = fs_no_write fs
     \<and> (\<forall>q. node_at fs' q = (if in_targets ps q then None else node_at fs q))"

lemma no_mv_no_renames: "\<not> pipeline_has_mv pl \<Longrightarrow> rename_targets pl = []"
  by (auto simp: pipeline_has_mv_def rename_targets_def rename_pairs_def list_ex_iff)

text \<open>What \<open>Before\<close> has recorded when an event is pending.\<close>

lemma before_recorded:
  assumes "is_destructive pl" "before_command dg h fs pl line new_id now = (h1, fs1)" "h_pending h1 = new_id" "new_id \<noteq> []"
  obtains recs ev where "collect_rows dg h fs pl = (recs, fs1)"
    "st_open (h_store h)" "h_sn h1 = h_sn h" "h_notices h1 = h_notices h @ skip_notices recs"
    "h_store h1 = h_store h\<lparr>st_rows := st_rows (h_store h) @ [\<lparr>r_event = ev, r_exit = None\<rparr>]\<rparr>"
    "e_id ev = new_id" "e_ts ev = now" "e_kind ev = Snapshot_event" "e_affected ev = recs"
    "e_command ev = record_command pl line" "\<forall>r \<in> set (st_rows (h_store h)). e_id (r_event r) \<noteq> new_id"
    "distinct (map a_path recs)"
proof -
  obtain recs fs' where recs: "collect_rows dg h fs pl = (recs, fs')" by fastforce
  define ev0 where "ev0 = \<lparr>e_id = new_id, e_ts = now, e_kind = Snapshot_event, e_command = record_command pl line,
     e_cwd = current_cwd h, e_exit = None, e_ms = 0, e_affected = recs, e_name = [], e_signature = [], e_signer = []\<rparr>"
  have b: "(h1, fs1) = (case append_event (h_store h) ev0 of
      Inl e \<Rightarrow> (h\<lparr>h_notices := h_notices h @ skip_notices recs @ [Append_failed e], h_pending := []\<rparr>, fs')
    | Inr st \<Rightarrow> (h\<lparr>h_notices := h_notices h @ skip_notices recs, h_store := st, h_pending := new_id\<rparr>, fs'))"
    using assms(1,2) recs by (simp add: before_command_def ev0_def Let_def split: sum.splits)
  then obtain st where st: "append_event (h_store h) ev0 = Inr st"
    using assms(3,4) by (auto split: sum.splits)
  obtain ev where ev: "sign_event (h_store h) ev0 = Some ev"
    using st by (auto simp: append_event_def split: if_splits option.splits)
  have fields: "e_id ev = new_id" "e_ts ev = now" "e_kind ev = Snapshot_event" "e_affected ev = recs"
    "e_command ev = record_command pl line"
    using ev by (auto simp: sign_event_def ev0_def Let_def split: option.splits)
  have app: "st = h_store h\<lparr>st_rows := st_rows (h_store h) @ [\<lparr>r_event = ev, r_exit = None\<rparr>]\<rparr>" "st_open (h_store h)"
    "distinct (map a_path recs)" "\<forall>r \<in> set (st_rows (h_store h)). e_id (r_event r) \<noteq> new_id"
    using st ev by (auto simp: append_event_def ev0_def list_ex_iff split: if_splits)
  show thesis
    by (rule that [OF _ app(2) _ _ _ fields app(4,3)]) (use b st recs app(1) in simp_all)
qed

lemma after_finalizes:
  assumes "h_pending h1 = new_id" "new_id \<noteq> []" "st_open (h_store h1)"
    and "st_rows (h_store h1) = rs @ [\<lparr>r_event = ev, r_exit = None\<rparr>]" "e_id ev = new_id"
    and "\<forall>r \<in> set rs. e_id (r_event r) \<noteq> new_id"
  shows "h_store (after_command h1 code ms) =
      (h_store h1)\<lparr>st_rows := rs @ [\<lparr>r_event = ev\<lparr>e_exit := Some code, e_ms := ms\<rparr>, r_exit = Some code\<rparr>]\<rparr>"
    and "h_pending (after_command h1 code ms) = []" "h_notices (after_command h1 code ms) = h_notices h1"
proof -
  have upd: "map (\<lambda>r. if e_id (r_event r) = new_id then f r else r) rs = rs" for f
    using assms(6) by (intro map_idI) auto
  show "h_store (after_command h1 code ms) =
      (h_store h1)\<lparr>st_rows := rs @ [\<lparr>r_event = ev\<lparr>e_exit := Some code, e_ms := ms\<rparr>, r_exit = Some code\<rparr>]\<rparr>"
    "h_pending (after_command h1 code ms) = []" "h_notices (after_command h1 code ms) = h_notices h1"
    using assms by (simp_all add: after_command_def finalize_event_def update_row_def upd Let_def)
qed

lemma latest_is_new:
  assumes "st_open st" "st_rows st = rs @ [\<lparr>r_event = ev, r_exit = Some code\<rparr>]" "e_kind ev = Snapshot_event"
    and "\<forall>r \<in> set rs. e_ts (r_event r) < e_ts ev"
  shows "latest_restorable st = Inr (if list_ex has_bytes (e_affected ev) then Some ev else None)"
proof -
  let ?P = "\<lambda>r. e_kind (r_event r) = Snapshot_event \<and> r_exit r \<noteq> None"
  have "first_event (filter ?P (st_rows st)) = Some (r_event \<lparr>r_event = ev, r_exit = Some code\<rparr>)"
    by (rule first_event_newest) (use assms in auto)
  then show ?thesis using assms(1) by (simp add: latest_restorable_def)
qed

lemma outside_parent:
  assumes "snapshot_setup dg sn" "outside_root sn q" "clean_path q" "a \<in> set (parents_of q)"
  shows "\<not> under (sn_root sn) a"
proof
  assume "under (sn_root sn) a"
  moreover obtain cs where "proper_names cs" "q = path_of cs" using assms(3) by (auto simp: clean_path_def)
  ultimately have "under (sn_root sn) q"
    using parents_under [of cs a] assms(4) by (auto simp: under_def prefix_def)
  then show False using assms(2) by (simp add: outside_root_def)
qed

lemma snapshot_path_path: "snapshot_path dg sn fs p = (r, fs') \<Longrightarrow> a_path r = p"
  by (auto simp: snapshot_path_def affected_row_def skipped_row_def split: if_splits sum.splits node.splits prod.splits)

lemma snapshot_entries_paths: "snapshot_entries dg sn fs es = (rows, fs') \<Longrightarrow> map a_path rows = map fst es"
proof (induction es arbitrary: fs rows)
  case (Cons e es)
  obtain q n where e: "e = (q, n)" by fastforce
  define s where "s = (if n = Dir_node then (affected_row q Op_delete, fs) else snapshot_path dg sn fs q)"
  obtain row fs1 where s1: "s = (row, fs1)" by fastforce
  obtain rest fs2 where s2: "snapshot_entries dg sn fs1 es = (rest, fs2)" by fastforce
  have "rows = row # rest" "fs' = fs2" using Cons.prems e s1 s2 by (auto simp: s_def split: if_splits)
  moreover have "a_path row = q"
    using s1 snapshot_path_path [of dg sn fs q row fs1] by (auto simp: s_def affected_row_def split: if_splits)
  ultimately show ?case using Cons.IH [of fs1 rest] s2 e by simp
qed simp

lemma walk_dir_under: "(q, n) \<in> set (walk_dir fs p) \<Longrightarrow> under p q"
  by (simp add: walk_dir_def)

lemma snapshot_one_paths: "snapshot_one dg sn fs p = (rows, fs') \<Longrightarrow> r \<in> set rows \<Longrightarrow> a_path r = p \<or> under p (a_path r)"
proof -
  assume s: "snapshot_one dg sn fs p = (rows, fs')" and r: "r \<in> set rows"
  consider (absent) e where "os_stat fs p = Inl e" | (regular) bs where "os_stat fs p = Inr (File_node bs)"
    | (dir) "os_stat fs p = Inr Dir_node" by (metis node.exhaust sum.exhaust)
  then show ?thesis
  proof cases
    case absent
    then show ?thesis using s r by (auto simp: snapshot_one_def affected_row_def)
  next
    case regular
    then show ?thesis using s r snapshot_path_path [of dg sn fs p] by (auto simp: snapshot_one_def split: prod.splits)
  next
    case dir
    then obtain rest where rest: "snapshot_entries dg sn fs (walk_dir fs p) = (rest, fs')"
      "rows = affected_row p Op_delete # rest" using s by (auto simp: snapshot_one_def split: prod.splits)
    have "a_path r \<in> set (map fst (walk_dir fs p))" if "r \<in> set rest"
      using that snapshot_entries_paths [OF rest(1)] by (metis image_eqI list.set_map)
    then show ?thesis using r rest(2) walk_dir_under by (fastforce simp: affected_row_def)
  qed
qed

lemma snapshot_many_paths: "snapshot_many dg sn fs ps = (rows, fs') \<Longrightarrow> r \<in> set rows \<Longrightarrow> in_targets ps (a_path r)"
proof (induction ps arbitrary: fs rows)
  case (Cons p ps)
  obtain r1 fs1 where s1: "snapshot_one dg sn fs p = (r1, fs1)" by fastforce
  obtain r2 fs2 where s2: "snapshot_many dg sn fs1 ps = (r2, fs2)" by fastforce
  have out: "rows = r1 @ r2" "fs' = fs2" using Cons.prems(1) s1 s2 by auto
  show ?case
    using Cons.prems(2) out snapshot_one_paths [OF s1] Cons.IH [of fs1 r2] s2 by (auto simp: in_targets_def)
qed simp

lemma outside_apart: "outside_root sn p \<Longrightarrow> q = p \<or> under p q \<Longrightarrow> \<not> under (sn_root sn) q"
  using under_prefixes [of p q "sn_root sn"] by (auto simp: outside_root_def root_dirs_def)

lemma skipped_is_noticed: "r \<in> set recs \<Longrightarrow> a_op r = Op_skipped \<Longrightarrow> Snapshot_skipped (a_path r) (a_skip r) \<in> set (skip_notices recs)"
  by (auto simp: skip_notices_def)

section \<open>Properties\<close>

text \<open>
  The situation after a removing command that was recorded: \<open>fs\<close> is the tree before, \<open>fs1\<close> with the
  copies, \<open>fs2\<close> after the command.
\<close>

lemma removed_row_replayable:
  assumes stp: "snapshot_setup dg sn" and tree: "tree_ok fs" and out: "\<forall>p \<in> set ps. clean_path p \<and> outside_root sn p"
    and many: "snapshot_many dg sn fs ps = (recs, fs1)" and removes: "command_removes ps fs1 fs2"
    and reach: "\<forall>q. in_targets ps q \<longrightarrow> reachable_path fs2 q"
    and root: "\<forall>q. under (sn_root sn) q \<longrightarrow> q \<notin> set (fs_no_stat fs2) \<and> q \<notin> set (fs_no_read fs2)"
    and r: "r \<in> set recs" "a_op r = Op_delete"
  shows "replayable dg fs fs2 r"
proof -
  have keys: "distinct_keys fs" "\<forall>q n. node_at fs q = Some n \<longrightarrow> outside_root sn q \<longrightarrow> q \<noteq> ''/'' \<longrightarrow> clean_path q"
    using tree_keys [OF tree] tree unfolding tree_ok_def by blast+
  note saved = snapshot_many_saved [OF stp out keys many]
  note removes = removes [unfolded command_removes_def]
  have rs: "clean_path (a_path r)" "outside_root sn (a_path r)" "row_saved dg sn fs fs1 r"
    using saved r by (auto simp: rows_saved_def)
  have "node_at fs (a_path r) \<noteq> None" using rs(3) r(2) by (auto simp: row_saved_def split: if_splits)
  then have par: "\<forall>a \<in> set (parents_of (a_path r)). node_at fs a = Some Dir_node"
    using tree by (auto simp: tree_ok_def)
  have "node_at fs1 a = node_at fs a" if "a \<in> insert (a_path r) (set (parents_of (a_path r)))" for a
    using that snap_frame_outside [OF _ rs(2)] saved par outside_parent [OF stp rs(2,1)]
      snap_frame_keeps_dir [of sn fs fs1 a Dir_node] by auto
  then have gone: "\<forall>a \<in> insert (a_path r) (set (parents_of (a_path r))). node_at fs2 a \<in> {None, node_at fs a}"
    using removes by auto
  have "reachable_path fs2 (a_path r)" using reach snapshot_many_paths [OF many r(1)] by blast
  moreover have "\<forall>q. under (sn_root sn) q \<longrightarrow> node_at fs2 q = node_at fs1 q
      \<and> q \<notin> set (fs_no_stat fs2) \<and> q \<notin> set (fs_no_read fs2)"
    using out root removes outside_apart by (auto simp: in_targets_def)
  ultimately show ?thesis using saved_replayable [OF stp rs r(2) _ par gone] by blast
qed

lemma removed_rows_cover:
  assumes stp: "snapshot_setup dg sn" and tree: "tree_ok fs" and out: "\<forall>p \<in> set ps. clean_path p \<and> outside_root sn p"
    and many: "snapshot_many dg sn fs ps = (recs, fs1)" and removes: "command_removes ps fs1 fs2"
    and reach: "\<forall>q. in_targets ps q \<longrightarrow> reachable_path fs2 q"
    and q: "p \<in> set ps" "visible fs p q" "node_at fs q \<noteq> None"
  shows "\<exists>r \<in> set recs. a_path r = q \<and> a_op r \<in> {Op_delete, Op_skipped}"
proof -
  have keys: "distinct_keys fs" "\<forall>q n. node_at fs q = Some n \<longrightarrow> outside_root sn q \<longrightarrow> q \<noteq> ''/'' \<longrightarrow> clean_path q"
    using tree_keys [OF tree] tree unfolding tree_ok_def by blast+
  note saved = snapshot_many_saved [OF stp out keys many]
  have "in_targets ps p" "in_targets ps q" using q by (auto simp: in_targets_def visible_def)
  then have "p \<notin> set (fs_no_stat fs)" "q \<notin> set (fs_no_stat fs)"
    using reach removes [unfolded command_removes_def] saved by (auto simp: reachable_path_def snap_frame_def)
  then obtain r where "r \<in> set recs" "a_path r = q" "a_op r \<noteq> Op_absent"
    using snapshot_many_covers [OF stp out keys many q(1,2)] q(3) by blast
  then show ?thesis using saved by auto
qed

lemma removed_undone:
  assumes "snapshot_setup dg (h_sn h)" "tree_ok fs" "is_destructive pl" "\<not> pipeline_has_mv pl"
    and "ps = canonicalize h (target_paths pl)" "\<forall>p \<in> set ps. clean_path p \<and> outside_root (h_sn h) p"
    and "before_command dg h fs pl line new_id now = (h1, fs1)" "h_pending h1 = new_id" "new_id \<noteq> []"
    and "\<forall>r \<in> set (st_rows (h_store h)). e_ts (r_event r) < now"
    and "command_removes ps fs1 fs2"
    and "\<forall>q. in_targets ps q \<longrightarrow> reachable_path fs2 q"
    and "\<forall>q. under (sn_root (h_sn h)) q \<longrightarrow> q \<notin> set (fs_no_stat fs2) \<and> q \<notin> set (fs_no_read fs2)"
    and "p0 \<in> set ps" "visible fs p0 q0" "node_at fs q0 = Some (File_node bs)" "\<forall>why. Snapshot_skipped q0 why \<notin> set (h_notices h1)"
  shows "\<exists>fs3 n cmd. undo_builtin dg (Some (after_command h1 code ms)) fs2 [] = (fs3, 0, Undo_restored n cmd)
    \<and> (\<forall>p \<in> set ps. \<forall>q. visible fs p q \<longrightarrow> node_at fs q \<noteq> None \<longrightarrow>
          node_at fs3 q = node_at fs q \<or> (\<exists>why. Snapshot_skipped q why \<in> set (h_notices h1)))
    \<and> (\<forall>q. node_at fs3 q = node_at fs2 q \<or> node_at fs2 q = None \<and> node_at fs3 q = node_at fs q)"
proof -
  let ?sn = "h_sn h" and ?h2 = "after_command h1 code ms"
  obtain recs ev where rec: "collect_rows dg h fs pl = (recs, fs1)"
    "st_open (h_store h)" "h_sn h1 = ?sn" "h_notices h1 = h_notices h @ skip_notices recs"
    "h_store h1 = h_store h\<lparr>st_rows := st_rows (h_store h) @ [\<lparr>r_event = ev, r_exit = None\<rparr>]\<rparr>"
    "e_id ev = new_id" "e_ts ev = now" "e_kind ev = Snapshot_event" "e_affected ev = recs"
    "e_command ev = record_command pl line" "\<forall>r \<in> set (st_rows (h_store h)). e_id (r_event r) \<noteq> new_id"
    "distinct (map a_path recs)"
    by (rule before_recorded [OF assms(3,7,8,9)])
  have many: "snapshot_many dg ?sn fs ps = (recs, fs1)"
    using rec(1) no_mv_no_renames [OF assms(4)] assms(4,5) by (simp add: collect_rows_def split: prod.splits)
  have tree: "distinct_keys fs" "\<forall>q n. node_at fs q = Some n \<longrightarrow> outside_root ?sn q \<longrightarrow> q \<noteq> ''/'' \<longrightarrow> clean_path q"
    using tree_keys [OF assms(2)] assms(2) unfolding tree_ok_def by blast+
  note saved = snapshot_many_saved [OF assms(1,6) tree many]
  note cover = removed_rows_cover [OF assms(1,2,6) many assms(11,12)]
  define ev' where "ev' = ev\<lparr>e_exit := Some code, e_ms := ms\<rparr>"
  have st2: "st_open (h_store ?h2)" "st_rows (h_store ?h2) = st_rows (h_store h) @ [\<lparr>r_event = ev', r_exit = Some code\<rparr>]"
    "h_notices ?h2 = h_notices h1"
    using after_finalizes [OF assms(8,9), of "st_rows (h_store h)" ev code ms] rec by (simp_all add: ev'_def)
  have ev': "e_affected ev' = recs" "e_kind ev' = Snapshot_event" "e_ts ev' = now" using rec by (simp_all add: ev'_def)
  obtain r where r: "r \<in> set recs" "a_path r = q0" "a_op r \<in> {Op_delete, Op_skipped}"
    using cover [OF assms(14,15)] assms(16) by auto
  moreover have "a_op r \<noteq> Op_skipped" using skipped_is_noticed [OF r(1)] r(2) assms(17) rec(4) by auto
  moreover have "row_saved dg ?sn fs fs1 r" using saved r(1) by (simp add: rows_saved_def)
  ultimately have "has_bytes r" using file_copied [of dg ?sn fs fs1 r bs] assms(16) by (auto simp: has_bytes_def)
  then have "list_ex has_bytes recs" using r(1) by (auto simp: list_ex_iff)
  then have latest: "latest_restorable (h_store ?h2) = Inr (Some ev')"
    using latest_is_new [OF st2(1,2) ev'(2)] assms(10) ev' by simp
  have "\<forall>r \<in> set recs. a_op r = Op_delete \<longrightarrow> replayable dg fs fs2 r"
    using removed_row_replayable [OF assms(1,2,6) many assms(11-13)] by blast
  then obtain fs3 where fs3: "restore_event dg fs2 ev' = (fs3, None)" "between fs fs2 fs3"
    "\<forall>r \<in> set recs. a_op r = Op_delete \<longrightarrow> node_at fs3 (a_path r) = node_at fs (a_path r)"
    using restore_event_all [of ev' dg fs fs2] saved ev'(1) by auto
  have "undo_builtin dg (Some ?h2) fs2 [] = (fs3, 0, Undo_restored (count_restorable_paths ev') (e_command ev'))"
    using latest fs3(1) by (simp add: undo_builtin_def)
  moreover have "node_at fs3 q = node_at fs q \<or> (\<exists>why. Snapshot_skipped q why \<in> set (h_notices h1))"
    if "p \<in> set ps" "visible fs p q" "node_at fs q \<noteq> None" for p q
    using cover [OF that] fs3(3) skipped_is_noticed rec(4) by fastforce
  ultimately show ?thesis using fs3(2) unfolding between_def by blast
qed

text \<open>
  C8. Removing and undoing: when a removing command (\<open>rm\<close>, \<open>rmdir\<close> and their kin, on any number of
  files and directory trees) was recorded and has run, \<open>undo\<close> brings back every file and directory
  the walk could see below its targets, byte for byte - except those for which the user was told
  that their snapshot was skipped. Everything else in the tree is left as the command left it or
  is a directory as it was before.
\<close>

theorem rm_then_undo:
  assumes "snapshot_setup dg (h_sn h)" "tree_ok fs" "is_destructive pl" "\<not> pipeline_has_mv pl"
    and "ps = canonicalize h (target_paths pl)" "\<forall>p \<in> set ps. clean_path p \<and> outside_root (h_sn h) p"
    and "before_command dg h fs pl line new_id now = (h1, fs1)" "h_pending h1 = new_id" "new_id \<noteq> []"
    and "\<forall>r \<in> set (st_rows (h_store h)). e_ts (r_event r) < now"
    and "command_removes ps fs1 fs2"
    and "\<forall>q. in_targets ps q \<longrightarrow> reachable_path fs2 q"
    and "\<forall>q. under (sn_root (h_sn h)) q \<longrightarrow> q \<notin> set (fs_no_stat fs2) \<and> q \<notin> set (fs_no_read fs2)"
    and "p0 \<in> set ps" "visible fs p0 q0" "node_at fs q0 = Some (File_node bs)" "\<forall>why. Snapshot_skipped q0 why \<notin> set (h_notices h1)"
  shows "\<exists>fs3 n cmd. undo_builtin dg (Some (after_command h1 code ms)) fs2 [] = (fs3, 0, Undo_restored n cmd)
    \<and> (\<forall>p \<in> set ps. \<forall>q. visible fs p q \<longrightarrow> node_at fs q \<noteq> None \<longrightarrow>
          node_at fs3 q = node_at fs q \<or> (\<exists>why. Snapshot_skipped q why \<in> set (h_notices h1)))
    \<and> (\<forall>q. node_at fs3 q = node_at fs2 q \<or> node_at fs2 q = None \<and> node_at fs3 q = node_at fs q)"
  using assms by (rule removed_undone)

definition remove_targets :: "string list \<Rightarrow> os_state \<Rightarrow> os_state" where
  "remove_targets ps fs = fs\<lparr>fs_nodes := filter (\<lambda>(q, _). \<not> in_targets ps q) (fs_nodes fs)\<rparr>"

lemma clean_not_root: "clean_path p \<Longrightarrow> p \<noteq> ''/'' \<and> \<not> under p ''/''"
proof -
  assume "clean_path p"
  then obtain c cs where c: "proper_name c" "p = CHR ''/'' # c @ path_of cs"
    unfolding clean_path_def by (metis neq_Nil_conv path_of.simps(2) proper_names_simps(2))
  then obtain x xs where "c = x # xs" by (cases c) (auto simp: proper_name_def)
  with c(2) show ?thesis by (auto simp: under_def prefix_def)
qed

lemma command_removes_targets:
  assumes "\<forall>p \<in> set ps. clean_path p"
  shows "command_removes ps fs (remove_targets ps fs)"
proof -
  have "map_of (filter (\<lambda>(x, _). \<not> in_targets ps x) xs) q = (if in_targets ps q then None else map_of xs q)"
    for q and xs :: "(string \<times> node) list"
    by (induction xs) auto
  moreover have "\<not> in_targets ps ''/''" using assms clean_not_root by (auto simp: in_targets_def)
  ultimately show ?thesis by (auto simp: command_removes_def remove_targets_def node_at_def)
qed

lemma demo_tree_ok: "tree_ok demo_tree"
proof -
  have "clean_path ''/s''" unfolding clean_path_def by (intro exI [of _ "[''s'']"]) (simp add: proper_name_def)
  then have keys: "\<forall>q n. (q, n) \<in> set (fs_nodes demo_tree) \<longrightarrow> clean_path q"
    using demo_path by (auto simp: demo_tree_def)
  have "q \<in> {''/'', ''/s'', ''/d'', ''/d/f'', ''/d/g''}" if "node_at demo_tree q \<noteq> None" for q
    using that by (auto simp: demo_tree_def node_at_def split: if_splits)
  moreover have "\<forall>q \<in> {''/'', ''/s'', ''/d'', ''/d/f'', ''/d/g''}. \<forall>a \<in> set (parents_of q). node_at demo_tree a = Some Dir_node"
    by code_simp
  moreover have "distinct_keys demo_tree" by code_simp
  ultimately show ?thesis using keys unfolding tree_ok_def by blast
qed

definition demo_history :: history where
  "demo_history =
     \<lparr>h_store = \<lparr>st_open = True, st_rows = [], st_signer = None\<rparr>, h_sn = snd demo_setup, h_cwd = ''/d'',
      h_getwd = None, h_pending = [], h_notices = []\<rparr>"

definition demo_rm :: pipeline where
  "demo_rm = \<lparr>commands = [\<lparr>cmd_name = ''rm'', cmd_args = [''f''], cmd_tainted = False\<rparr>], background = False, tainted = False\<rparr>"

theorem rm_then_undo_witness:
  "\<exists>fs3 n cmd. undo_builtin (fst demo_setup)
       (Some (after_command (fst (before_command (fst demo_setup) demo_history demo_tree demo_rm ''rm f'' ''evt'' 1)) 0 5))
       (remove_targets [''/d/f''] (snd (before_command (fst demo_setup) demo_history demo_tree demo_rm ''rm f'' ''evt'' 1))) []
     = (fs3, 0, Undo_restored n cmd) \<and> node_at fs3 ''/d/f'' = Some (File_node ''bytes'')"
proof -
  let ?b = "before_command (fst demo_setup) demo_history demo_tree demo_rm ''rm f'' ''evt'' 1"
  let ?fs2 = "remove_targets [''/d/f''] (snd ?b)"
  have sn: "h_sn demo_history = snd demo_setup" by (simp add: demo_history_def)
  have stp: "snapshot_setup (fst demo_setup) (h_sn demo_history)" unfolding sn by (rule demo_setup_ok)
  have ps: "[''/d/f''] = canonicalize demo_history (target_paths demo_rm)" by code_simp
  have "outside_root (h_sn demo_history) ''/d/f''" by code_simp
  then have out: "\<forall>p \<in> set [''/d/f'']. clean_path p \<and> outside_root (h_sn demo_history) p" using demo_path by simp
  have b: "?b = (fst ?b, snd ?b)" by simp
  have empty: "fs_no_stat ?fs2 = []" "fs_no_read ?fs2 = []" "fs_no_write ?fs2 = []" by code_simp+
  have reach: "\<forall>q. in_targets [''/d/f''] q \<longrightarrow> reachable_path ?fs2 q"
    unfolding reachable_path_def empty by simp
  have root: "\<forall>q. under (sn_root (h_sn demo_history)) q \<longrightarrow> q \<notin> set (fs_no_stat ?fs2) \<and> q \<notin> set (fs_no_read ?fs2)"
    unfolding empty by simp
  have rem: "command_removes [''/d/f''] (snd ?b) ?fs2" by (rule command_removes_targets) (use demo_path in simp)
  have facts: "is_destructive demo_rm" "\<not> pipeline_has_mv demo_rm" "h_pending (fst ?b) = ''evt''" "''evt'' \<noteq> ([] :: string)"
    "\<forall>r \<in> set (st_rows (h_store demo_history)). e_ts (r_event r) < 1"
    "''/d/f'' \<in> set [''/d/f'']" "node_at demo_tree ''/d/f'' = Some (File_node ''bytes'')" "h_notices (fst ?b) = []"
    by code_simp+
  have vis: "visible demo_tree ''/d/f'' ''/d/f''" by (simp add: visible_def)
  have quiet: "\<forall>why. Snapshot_skipped ''/d/f'' why \<notin> set (h_notices (fst ?b))" unfolding facts(8) by simp
  from rm_then_undo [OF stp demo_tree_ok facts(1,2) ps out b facts(3,4,5) rem reach root facts(6) vis facts(7) quiet, of 0 5]
  obtain fs3 n cmd where u: "undo_builtin (fst demo_setup) (Some (after_command (fst ?b) 0 5)) ?fs2 [] = (fs3, 0, Undo_restored n cmd)"
    "\<forall>p \<in> set [''/d/f'']. \<forall>q. visible demo_tree p q \<longrightarrow> node_at demo_tree q \<noteq> None \<longrightarrow>
          node_at fs3 q = node_at demo_tree q \<or> (\<exists>why. Snapshot_skipped q why \<in> set (h_notices (fst ?b)))" by blast
  then have "node_at fs3 ''/d/f'' = Some (File_node ''bytes'')" using vis quiet facts(7) by force
  with u(1) show ?thesis by blast
qed

end
