(* ===== verification/Undo_Moves.thy ===== *)
theory Undo_Moves
  imports Undo_Log
begin

text \<open>
  Undoing \<open>mv\<close>: the rows of \<open>SnapshotMove\<close>, replayed by \<open>RestoreEvent\<close>, put the source back,
  remove the moved file and bring the overwritten one back.
\<close>

section \<open>Copies that can be read back\<close>

definition readable_copy :: "digests \<Rightarrow> os_state \<Rightarrow> affected \<Rightarrow> string \<Rightarrow> bool" where
  "readable_copy dg fs r bs \<longleftrightarrow>
     a_dir r \<noteq> [] \<and> clean_path (a_path r) \<and> row_copy r \<noteq> a_path r \<and> row_copy r \<notin> set (parents_of (a_path r))
     \<and> os_open fs (row_copy r) = Inr (File_node bs) \<and> a_sha r = sha256_hex dg bs"

lemma copy_apart:
  assumes "in_slot sn t c" "clean_path p" "outside_root sn p"
  shows "c \<noteq> p" "c \<notin> set (parents_of p)"
proof -
  have u: "under (sn_root sn) c" using slot_under [OF assms(1)] .
  then show "c \<noteq> p" using assms(3) by (auto simp: outside_root_def)
  show "c \<notin> set (parents_of p)"
  proof
    assume "c \<in> set (parents_of p)"
    moreover obtain cs where "proper_names cs" "p = path_of cs" using assms(2) by (auto simp: clean_path_def)
    ultimately have "under c p" using parents_under by auto
    then have "under (sn_root sn) p" using u by (auto simp: under_def prefix_def)
    then show False using assms(3) by (simp add: outside_root_def)
  qed
qed

lemma saved_readable:
  assumes "row_saved dg sn orig fs r" "a_dir r \<noteq> []" "clean_path (a_path r)" "outside_root sn (a_path r)"
    and "node_at orig (a_path r) = Some (File_node bs)"
    and "\<forall>q. under (sn_root sn) q \<longrightarrow> node_at base q = node_at fs q \<and> q \<notin> set (fs_no_stat base) \<and> q \<notin> set (fs_no_read base)"
  shows "readable_copy dg base r bs"
proof -
  obtain t where t: "a_sha r = sha256_hex dg bs" "node_at fs (row_copy r) = Some (File_node bs)" "in_slot sn t (row_copy r)"
    using assms(1,2,5) by (auto simp: row_saved_def)
  have "os_open base (row_copy r) = Inr (File_node bs)"
    using assms(6) slot_under [OF t(3)] t(2) by (simp add: os_open_node)
  then show ?thesis using copy_apart [OF t(3) assms(3,4)] t(1) assms(2,3) by (simp add: readable_copy_def)
qed

lemma readable_copy_restored:
  assumes "readable_copy dg fs r bs" "writable fs (a_path r)" "node_at fs (a_path r) = None"
  shows "\<exists>fs'. restore_file_impl dg force fs r = (fs', None) \<and> file_put (a_path r) (File_node bs) fs fs'"
  by (rule restore_file_ok) (use assms in \<open>auto simp: readable_copy_def\<close>)

lemma reachable_writable:
  "reachable_path fs p \<Longrightarrow> \<forall>a \<in> set (parents_of p). node_at fs a = Some Dir_node \<Longrightarrow> writable fs p"
  by (auto simp: reachable_path_def writable_def dir_possible_def)

text \<open>With every directory above it in place, putting a file back changes that file only.\<close>

lemma file_put_exact:
  assumes "file_put p n fs fs'" "\<forall>a \<in> set (parents_of p). node_at fs a = Some Dir_node" "p \<noteq> ''/''"
  shows "node_at fs' q = (if q = p then Some n else node_at fs q)"
proof (cases "q = p")
  case True
  then show ?thesis using file_put_facts(1) [OF assms(1,3)] by simp
next
  case False
  then show ?thesis
    using file_put_facts(3) [OF assms(1) False] file_put_facts(2) [OF assms(1) False] assms(2)
    by (cases "q \<in> set (parents_of p)") auto
qed

lemma remove_exact:
  assumes "p \<notin> set (fs_no_write fs)" "\<forall>q. under p q \<longrightarrow> node_at fs q = None" "p \<noteq> ''/''" "p \<noteq> []"
  shows "node_at (os_remove fs p) q = (if q = p then None else node_at fs q)"
    and "fs_no_stat (os_remove fs p) = fs_no_stat fs" "fs_no_read (os_remove fs p) = fs_no_read fs"
    "fs_no_write (os_remove fs p) = fs_no_write fs"
proof -
  have "\<not> list_ex (\<lambda>(q, _). under p q) (fs_nodes fs)"
  proof
    assume "list_ex (\<lambda>(q, _). under p q) (fs_nodes fs)"
    then obtain q n where q: "(q, n) \<in> set (fs_nodes fs)" "under p q" by (auto simp: list_ex_iff)
    then have "map_of (fs_nodes fs) q \<noteq> None" by (metis map_of_eq_None_iff fst_conv image_eqI)
    then have "node_at fs q \<noteq> None" by (auto simp: node_at_def)
    then show False using assms(2) q(2) by simp
  qed
  then have "os_remove fs p = fs\<lparr>fs_nodes := filter (\<lambda>(q, _). q \<noteq> p) (fs_nodes fs)\<rparr>"
    using assms(1) by (simp add: os_remove_def List.member_iff)
  then show "node_at (os_remove fs p) q = (if q = p then None else node_at fs q)"
    "fs_no_stat (os_remove fs p) = fs_no_stat fs" "fs_no_read (os_remove fs p) = fs_no_read fs"
    "fs_no_write (os_remove fs p) = fs_no_write fs"
    using assms(3) by (auto simp: node_at_def map_of_filter_key)
qed

section \<open>The rows of a move\<close>

lemma moved_file_rows:
  assumes stp: "snapshot_setup dg sn" and p: "clean_path s" "outside_root sn s" "clean_path t" "outside_root sn t"
    and t: "t = resolve_target fs s d" and file_s: "node_at fs s = Some (File_node bs)" "s \<notin> set (fs_no_stat fs)"
    and target: "t \<notin> set (fs_no_stat fs)" "node_at fs t \<noteq> Some Dir_node"
    and s: "snapshot_move dg sn fs s d = (rows, fs')" "\<forall>r \<in> set rows. a_op r \<noteq> Op_skipped"
  obtains r where "snap_frame sn fs fs'" "a_path r = s" "a_op r = Op_rename" "a_target r = t" "a_dir r \<noteq> []"
      "row_saved dg sn fs fs' r" "node_at fs t = None" "rows = [r]"
  | r r' old where "snap_frame sn fs fs'" "a_path r = s" "a_op r = Op_rename" "a_target r = t" "a_dir r \<noteq> []"
      "row_saved dg sn fs fs' r" "node_at fs t = Some (File_node old)" "rows = [r, r']" "a_path r' = t"
      "a_op r' = Op_modify" "a_dir r' \<noteq> []" "row_saved dg sn fs fs' r'"
proof -
  obtain r0 fs1 where s1: "snapshot_path dg sn fs s = (r0, fs1)" by fastforce
  note f0 = snapshot_path_saved [OF stp p(1,2) s1]
  define r where "r = (if a_op r0 = Op_delete then r0\<lparr>a_op := Op_rename, a_target := t\<rparr> else r0\<lparr>a_target := t\<rparr>)"
  have st: "os_stat fs s = Inr (File_node bs)" using file_s by (simp add: os_stat_node)
  have src: "snapshot_source dg sn fs s t = ([r], fs1)" using st s1 by (simp add: snapshot_source_def r_def)
  obtain mods where mods: "snapshot_target dg sn fs1 t = (mods, fs')" "rows = r # mods"
    using s(1) src t by (auto simp: snapshot_move_def Let_def split: prod.splits)
  have "a_op r \<noteq> Op_skipped" using s(2) mods(2) by simp
  then have op0: "a_op r0 = Op_delete" using f0(4,6) st by (auto simp: r_def split: if_splits)
  have dir0: "a_dir r0 \<noteq> []" using file_copied [OF f0(3)] file_s(1) f0(2) op0 by simp
  have r: "a_path r = s" "a_op r = Op_rename" "a_target r = t" "a_dir r \<noteq> []" "row_saved dg sn fs fs1 r"
    using op0 dir0 f0(2,3) by (simp_all add: r_def row_saved_def row_copy_def)
  have same: "node_at fs1 t = node_at fs t" using snap_frame_outside [OF f0(1) p(4)] .
  have t1: "t \<notin> set (fs_no_stat fs1)" using f0(1) target(1) by (simp add: snap_frame_def)
  show thesis
  proof (cases "node_at fs t")
    case None
    have "\<nexists>n. os_stat fs1 t = Inr n" using None same by (simp add: os_stat_node)
    then have "mods = []" "fs' = fs1" using mods(1) by (auto simp: snapshot_target_def split: sum.splits)
    then show thesis using that(1) [OF _ r(1-4)] f0(1) r(5) None mods(2) by simp
  next
    case (Some n)
    then obtain old where old: "n = File_node old" using target(2) by (cases n) auto
    have st1: "os_stat fs1 t = Inr (File_node old)" using Some old same t1 by (simp add: os_stat_node)
    obtain r1 where s2: "snapshot_path dg sn fs1 t = (r1, fs')"
      and m: "mods = [if a_op r1 = Op_delete then r1\<lparr>a_op := Op_modify\<rparr> else r1]"
      using mods(1) st1 by (auto simp: snapshot_target_def split: prod.splits)
    note f1 = snapshot_path_saved [OF stp p(3,4) s2]
    define r' where "r' = (if a_op r1 = Op_delete then r1\<lparr>a_op := Op_modify\<rparr> else r1)"
    have "a_op r' \<noteq> Op_skipped" using s(2) mods(2) m by (simp add: r'_def)
    then have op1: "a_op r1 = Op_delete" using f1(4,6) st1 by (auto simp: r'_def split: if_splits)
    have dir1: "a_dir r1 \<noteq> []" using file_copied [OF f1(3)] Some old same f1(2) op1 by simp
    have "row_saved dg sn fs fs' r1" using row_saved_earlier [OF f1(3) f0(1)] p(4) f1(2) by simp
    then have r': "a_path r' = t" "a_op r' = Op_modify" "a_dir r' \<noteq> []" "row_saved dg sn fs fs' r'"
      using op1 dir1 f1(2) by (simp_all add: r'_def row_saved_def row_copy_def)
    have "rows = [r, r']" using mods(2) m by (simp add: r'_def)
    moreover have "node_at fs t = Some (File_node old)" using Some old by simp
    moreover have "snap_frame sn fs fs'" using snap_frame_trans f0(1) f1(1) by blast
    moreover have "row_saved dg sn fs fs' r" using row_saved_later [OF stp r(5) f1(1)] .
    ultimately show thesis using that(2) r(1-4) r' by blast
  qed
qed

section \<open>Replaying a move\<close>

lemma rename_replayed:
  assumes stp: "sha256_hex dg bs \<noteq> []" and r: "readable_copy dg fs r bs" "a_op r = Op_rename" "a_target r = t" "t \<noteq> []"
    and here: "node_at fs (a_path r) = None" "reachable_path fs (a_path r)"
      "\<forall>a \<in> set (parents_of (a_path r)). node_at fs a = Some Dir_node"
    and there: "node_at fs t = Some (File_node bs)" "t \<notin> set (fs_no_stat fs)" "t \<notin> set (fs_no_read fs)"
      "t \<notin> set (fs_no_write fs)" "\<forall>q. under t q \<longrightarrow> node_at fs q = None" "\<not> under t (a_path r)"
  shows "\<exists>fs'. restore_row dg fs r = (fs', None)
    \<and> (\<forall>q. node_at fs' q = (if q = a_path r then Some (File_node bs) else if q = t then None else node_at fs q))
    \<and> fs_no_stat fs' = fs_no_stat fs \<and> fs_no_read fs' = fs_no_read fs \<and> fs_no_write fs' = fs_no_write fs"
proof -
  let ?p = "a_path r"
  have ne: "?p \<noteq> ''/''" "t \<noteq> ''/''" "t \<noteq> ?p" using here(1) there(1) by auto
  obtain fs1 where fs1: "restore_file_impl dg False fs r = (fs1, None)" "file_put ?p (File_node bs) fs fs1"
    using readable_copy_restored [OF r(1) reachable_writable [OF here(2,3)] here(1)] by blast
  note at1 = file_put_exact [OF fs1(2) here(3) ne(1)] and fr = file_put_facts(6-8) [OF fs1(2)]
  have t1: "node_at fs1 t = Some (File_node bs)" using at1 ne(3) there(1) by simp
  then have stat: "os_stat fs1 t = Inr (File_node bs)" and opn: "os_open fs1 t = Inr (File_node bs)"
    using fr there(2,3) by (simp_all add: os_stat_node os_open_node)
  have "\<forall>q. under t q \<longrightarrow> node_at fs1 q = None" using at1 there(5,6) by auto
  note rm = remove_exact [OF _ this ne(2) r(4)]
  have sha: "a_sha r = sha256_hex dg bs" "a_dir r \<noteq> []" using r(1) by (simp_all add: readable_copy_def)
  have "restore_row dg fs r = (os_remove fs1 t, None)"
    using r fs1(1) stat digest_file [OF opn, of dg] sha stp by (simp add: restore_row_def restore_rename_def)
  moreover have "node_at (os_remove fs1 t) q = (if q = ?p then Some (File_node bs) else if q = t then None else node_at fs q)" for q
    using rm(1) [of q] at1 ne(3) fr there(4) by auto
  ultimately show ?thesis using rm(2-4) fr there(4) by auto
qed

lemma modify_replayed:
  assumes "readable_copy dg fs r bs" "a_op r = Op_modify" "node_at fs (a_path r) = None" "reachable_path fs (a_path r)"
      "\<forall>a \<in> set (parents_of (a_path r)). node_at fs a = Some Dir_node" "a_path r \<noteq> ''/''"
  shows "\<exists>fs'. restore_row dg fs r = (fs', None)
    \<and> (\<forall>q. node_at fs' q = (if q = a_path r then Some (File_node bs) else node_at fs q))"
proof -
  obtain fs1 where fs1: "restore_file_impl dg True fs r = (fs1, None)" "file_put (a_path r) (File_node bs) fs fs1"
    using readable_copy_restored [OF assms(1) reachable_writable [OF assms(4,5)] assms(3)] by blast
  then show ?thesis using assms(2) file_put_exact [OF fs1(2) assms(5,6)] by (auto simp: restore_row_def)
qed

lemma tree_below_file:
  assumes "tree_ok fs" "under t q" "node_at fs q \<noteq> None" "clean_path t"
  shows "node_at fs t = Some Dir_node"
proof -
  have "t \<noteq> []" using assms(4) path_of_Nil_iff unfolding clean_path_def by metis
  then have "q \<noteq> ''/''" using assms(2) by (cases t) (auto simp: under_def prefix_def)
  then have "clean_path q" using tree_keys [OF assms(1)] assms(3) by blast
  then obtain cs where cs: "proper_names cs" "q = path_of cs" by (auto simp: clean_path_def)
  obtain ds where ds: "proper_names ds" "t = path_of ds" "ds \<noteq> []" using assms(4) by (auto simp: clean_path_def)
  obtain x where "path_of cs = path_of ds @ CHR ''/'' # x" using assms(2) cs(2) ds(2) by (auto simp: under_def prefix_def)
  then have "[] # cs = split_byte CHR ''/'' (path_of ds @ CHR ''/'' # x)" using split_clean_path [OF cs(1)] by simp
  also have "\<dots> = split_byte CHR ''/'' (path_of ds) @ split_byte CHR ''/'' x"
  proof -
    have "split_byte CHR ''/'' (c @ path_of ds @ CHR ''/'' # x) = split_byte CHR ''/'' (c @ path_of ds) @ split_byte CHR ''/'' x"
      if "CHR ''/'' \<notin> set c" for c
      using ds(1) that
    proof (induction ds arbitrary: c)
      case Nil
      then show ?case by (simp add: split_byte_append split_byte_none)
    next
      case (Cons e ds)
      then have "CHR ''/'' \<notin> set e" by (simp add: proper_name_def)
      with Cons show ?case by (simp add: split_byte_append)
    qed
    from this [of "[]"] show ?thesis by simp
  qed
  also have "split_byte CHR ''/'' (path_of ds) = [] # ds" using split_clean_path [OF ds(1)] .
  finally have eq: "cs = ds @ split_byte CHR ''/'' x" by simp
  have "0 < length (split_byte CHR ''/'' x)" by simp
  then have "t \<in> set (parents_of q)"
    unfolding cs(2) parents_of_path_of [OF cs(1)] using eq ds by (auto intro!: exI [of _ "length ds"] simp: Suc_le_eq)
  then show ?thesis using assms(1,3) by (auto simp: tree_ok_def)
qed

lemma snapshot_move_faults:
  assumes stp: "snapshot_setup dg sn" and p: "clean_path s" "outside_root sn s" "clean_path t" "outside_root sn t"
    and t: "t = resolve_target fs s d" and file_s: "node_at fs s = Some (File_node bs)"
    and s: "snapshot_move dg sn fs s d = (rows, fs')"
  shows "fs_no_stat fs' = fs_no_stat fs"
proof -
  obtain r1 fs1 where s1: "snapshot_source dg sn fs s t = (r1, fs1)" by fastforce
  obtain mods where s2: "snapshot_target dg sn fs1 t = (mods, fs')"
    using s s1 t by (auto simp: snapshot_move_def Let_def split: prod.splits)
  have "snap_frame sn fs fs1"
  proof (cases "os_stat fs s")
    case (Inl e)
    then show ?thesis using s1 by (auto simp: snapshot_source_def)
  next
    case (Inr n)
    then have "os_stat fs s = Inr (File_node bs)" using file_s by (simp add: os_stat_node)
    then obtain row where "snapshot_path dg sn fs s = (row, fs1)" using s1 by (auto simp: snapshot_source_def split: prod.splits)
    from snapshot_path_saved(1) [OF stp p(1,2) this] show ?thesis .
  qed
  moreover have "snap_frame sn fs1 fs'"
  proof -
    obtain row fs2 where row: "snapshot_path dg sn fs1 t = (row, fs2)" by fastforce
    have "fs' = fs1 \<or> fs' = fs2" using s2 row by (auto simp: snapshot_target_def split: sum.splits node.splits prod.splits)
    then show ?thesis using snapshot_path_saved(1) [OF stp p(3,4) row] by auto
  qed
  ultimately show ?thesis by (simp add: snap_frame_def)
qed

lemma collect_single_move:
  assumes "commands pl = [c]" "cmd_name c = ''mv''" "extract_file_args (cmd_args c) [] = [a, b]"
  shows "collect_rows dg h fs pl = snapshot_move dg (h_sn h) fs (hd (canonicalize h [a])) (hd (canonicalize h [b]))"
    and "is_destructive pl"
  using assms
  by (simp_all add: collect_rows_def rename_targets_def rename_pairs_def pipeline_has_mv_def is_destructive_def
      destructive_names_def split: prod.split)

text \<open>What moving a regular file does to the tree.\<close>

definition command_moves :: "string \<Rightarrow> string \<Rightarrow> os_state \<Rightarrow> os_state \<Rightarrow> bool" where
  "command_moves s t fs fs' \<longleftrightarrow>
     fs_no_stat fs' = fs_no_stat fs \<and> fs_no_read fs' = fs_no_read fs \<and> fs_no_write fs' = fs_no_write fs
     \<and> (\<forall>q. node_at fs' q = (if q = t then node_at fs s else if q = s then None else node_at fs q))"

lemma move_replayed:
  assumes stp: "snapshot_setup dg sn" and tree: "tree_ok fs"
    and p: "clean_path s" "outside_root sn s" "clean_path t" "outside_root sn t" "s \<noteq> t"
    and src: "node_at fs s = Some (File_node bs)" and dst: "node_at fs t \<noteq> Some Dir_node"
      "\<forall>a \<in> set (parents_of t). node_at fs a = Some Dir_node"
    and fr: "snap_frame sn fs fs1" and mv: "command_moves s t fs1 fs2"
    and reach: "reachable_path fs2 s" "reachable_path fs2 t" "t \<notin> set (fs_no_read fs2)"
      "\<forall>q. under (sn_root sn) q \<longrightarrow> q \<notin> set (fs_no_stat fs2) \<and> q \<notin> set (fs_no_read fs2)"
    and r: "a_path r = s" "a_op r = Op_rename" "a_target r = t" "a_dir r \<noteq> []" "row_saved dg sn fs fs1 r"
    and rows: "node_at fs t = None \<and> rs = [] \<or> (\<exists>r' old. node_at fs t = Some (File_node old) \<and> rs = [r']
      \<and> a_path r' = t \<and> a_op r' = Op_modify \<and> a_dir r' \<noteq> [] \<and> row_saved dg sn fs fs1 r')"
  shows "\<exists>fs3. restore_rows dg fs2 None (r # rs) = (fs3, None) \<and> (\<forall>q. outside_root sn q \<longrightarrow> node_at fs3 q = node_at fs q)"
proof -
  note moves = mv [unfolded command_moves_def]
  have same: "node_at fs1 q = node_at fs q" if "outside_root sn q" for q using snap_frame_outside [OF fr that] .
  have dirs: "node_at fs2 a = Some Dir_node" if "node_at fs a = Some Dir_node" "\<not> under (sn_root sn) a" for a
    using snap_frame_keeps_dir [OF fr that] moves that(1) src dst(1) by auto
  have par_s: "\<forall>a \<in> set (parents_of s). node_at fs a = Some Dir_node" using tree src by (auto simp: tree_ok_def)
  have par2: "\<forall>a \<in> set (parents_of s) \<union> set (parents_of t). node_at fs2 a = Some Dir_node"
    using dirs par_s dst(2) outside_parent [OF stp p(2,1)] outside_parent [OF stp p(4,3)] by auto
  have root: "node_at fs2 q = node_at fs1 q" "q \<noteq> s" "q \<noteq> t" if "under (sn_root sn) q" for q
    using that p moves by (auto simp: outside_root_def)
  have apart: "\<not> under t s" using tree_below_file [OF tree _ _ p(3), of s] src dst(1) by auto
  have below: "\<forall>q. under t q \<longrightarrow> node_at fs2 q = None"
  proof (intro allI impI)
    fix q assume u: "under t q"
    then have "q \<noteq> t" "q \<noteq> s" using apart by (auto simp: under_def dest: prefix_length_le)
    moreover have "node_at fs q = None" using tree_below_file [OF tree u _ p(3)] dst(1) by blast
    ultimately show "node_at fs2 q = None" using moves same [OF outside_under [OF stp p(4) u]] by simp
  qed
  have at2: "node_at fs2 s = None" "node_at fs2 t = Some (File_node bs)" using moves p(5) same [OF p(2)] src by auto
  have rt: "t \<noteq> []" using p(3) path_of_Nil_iff unfolding clean_path_def by metis
  have copy: "readable_copy dg fs2 r bs"
    by (rule saved_readable [OF r(5,4)]) (use r(1) p src root reach(4) in auto)
  have sha: "sha256_hex dg bs \<noteq> []" using stp by (simp add: snapshot_setup_def)
  obtain fsA where A: "restore_row dg fs2 r = (fsA, None)"
    "\<forall>q. node_at fsA q = (if q = s then Some (File_node bs) else if q = t then None else node_at fs2 q)"
    "fs_no_stat fsA = fs_no_stat fs2" "fs_no_read fsA = fs_no_read fs2" "fs_no_write fsA = fs_no_write fs2"
    using rename_replayed [OF sha copy r(2,3) rt] r(1) at2 reach par2 below apart by (auto simp: reachable_path_def)
  have A_out: "node_at fsA q = node_at fs q" if "outside_root sn q" "q \<noteq> t" for q
    using A(2) moves same [OF that(1)] that src by simp
  from rows show ?thesis
  proof (elim disjE exE conjE)
    assume "node_at fs t = None" "rs = []"
    moreover have "node_at fsA t = None" using A(2) p(5) by simp
    ultimately have "node_at fsA q = node_at fs q" if "outside_root sn q" for q
      using A_out [OF that] by (cases "q = t") auto
    then show ?thesis using A(1) \<open>rs = []\<close> by simp
  next
    fix r' old
    assume r': "node_at fs t = Some (File_node old)" "rs = [r']" "a_path r' = t" "a_op r' = Op_modify" "a_dir r' \<noteq> []"
      "row_saved dg sn fs fs1 r'"
    have copy': "readable_copy dg fsA r' old"
      by (rule saved_readable [OF r'(6,5)]) (use r' p root reach(4) A in auto)
    have gone: "node_at fsA (a_path r') = None" using A(2) r'(3) p(5) by simp
    have reach': "reachable_path fsA (a_path r')" using reach(2) A r'(3) by (simp add: reachable_path_def)
    have par': "\<forall>a \<in> set (parents_of (a_path r')). node_at fsA a = Some Dir_node" using par2 A(2) at2 r'(3) by auto
    have "a_path r' \<noteq> ''/''" using r'(1,3) by auto
    from modify_replayed [OF copy' r'(4) gone reach' par' this]
    obtain fsB where "restore_row dg fsA r' = (fsB, None)"
      "\<forall>q. node_at fsB q = (if q = t then Some (File_node old) else node_at fsA q)" using r'(3) by auto
    moreover from this have "node_at fsB q = node_at fs q" if "outside_root sn q" for q
      using r'(1) A_out [OF that] by simp
    ultimately show ?thesis using A(1) r'(2) by auto
  qed
qed

section \<open>Properties\<close>

text \<open>
  C23. Moving and undoing: when \<open>mv a b\<close> of a regular file, into a directory or over a file or to a new
  name, was recorded without a skipped snapshot and has run, \<open>undo\<close> takes the whole tree outside
  the snapshots back to what it was: the source holds its bytes, the overwritten file holds its
  old bytes again, a target that was new is gone, and nothing else differs.
\<close>

theorem mv_then_undo:
  assumes "snapshot_setup dg (h_sn h)" "tree_ok fs"
    and "commands pl = [c]" "cmd_name c = ''mv''" "extract_file_args (cmd_args c) [] = [a, b]"
    and "s = hd (canonicalize h [a])" "t = resolve_target fs s (hd (canonicalize h [b]))" "s \<noteq> t"
    and "clean_path s" "outside_root (h_sn h) s" "clean_path t" "outside_root (h_sn h) t"
    and "node_at fs s = Some (File_node bs)" "node_at fs t \<noteq> Some Dir_node"
    and "\<forall>a \<in> set (parents_of t). node_at fs a = Some Dir_node"
    and "before_command dg h fs pl line new_id now = (h1, fs1)" "h_pending h1 = new_id" "new_id \<noteq> []"
    and "\<forall>r \<in> set (st_rows (h_store h)). e_ts (r_event r) < now" "h_notices h1 = h_notices h"
    and "command_moves s t fs1 fs2" "reachable_path fs2 s" "reachable_path fs2 t" "t \<notin> set (fs_no_read fs2)"
    and "\<forall>q. under (sn_root (h_sn h)) q \<longrightarrow> q \<notin> set (fs_no_stat fs2) \<and> q \<notin> set (fs_no_read fs2)"
  shows "\<exists>fs3 n cmd. undo_builtin dg (Some (after_command h1 code ms)) fs2 [] = (fs3, 0, Undo_restored n cmd)
    \<and> (\<forall>q. outside_root (h_sn h) q \<longrightarrow> node_at fs3 q = node_at fs q)"
proof -
  let ?sn = "h_sn h" and ?h2 = "after_command h1 code ms"
  note stp = assms(1)
  obtain recs ev where rec: "collect_rows dg h fs pl = (recs, fs1)"
    "st_open (h_store h)" "h_sn h1 = ?sn" "h_notices h1 = h_notices h @ skip_notices recs"
    "h_store h1 = h_store h\<lparr>st_rows := st_rows (h_store h) @ [\<lparr>r_event = ev, r_exit = None\<rparr>]\<rparr>"
    "e_id ev = new_id" "e_ts ev = now" "e_kind ev = Snapshot_event" "e_affected ev = recs"
    "e_command ev = record_command pl line" "\<forall>r \<in> set (st_rows (h_store h)). e_id (r_event r) \<noteq> new_id"
    "distinct (map a_path recs)"
    by (rule before_recorded [OF collect_single_move(2) [OF assms(3-5)] assms(16-18)])
  have move: "snapshot_move dg ?sn fs s (hd (canonicalize h [b])) = (recs, fs1)"
    using rec(1) collect_single_move(1) [OF assms(3-5)] assms(6) by simp
  have "skip_notices recs = []" using rec(4) assms(20) by simp
  then have unskipped: "\<forall>r \<in> set recs. a_op r \<noteq> Op_skipped" by (simp add: skip_notices_def filter_empty_conv)
  note moves = assms(21) [unfolded command_moves_def]
  have faults: "s \<notin> set (fs_no_stat fs1)" "t \<notin> set (fs_no_stat fs1)"
    using assms(22,23) moves by (auto simp: reachable_path_def)
  have "fs_no_stat fs1 = fs_no_stat fs"
    using snapshot_move_faults [OF stp assms(9-12,7,13) move] .
  with faults have faults0: "s \<notin> set (fs_no_stat fs)" "t \<notin> set (fs_no_stat fs)" by simp_all
  have "(\<forall>r \<in> set recs. a_op r \<in> {Op_rename, Op_modify} \<and> a_dir r \<noteq> []) \<and> recs \<noteq> []
      \<and> (\<exists>fs3. restore_rows dg fs2 None recs = (fs3, None) \<and> (\<forall>q. outside_root ?sn q \<longrightarrow> node_at fs3 q = node_at fs q))"
  proof (rule moved_file_rows [OF stp assms(9-12,7,13) faults0(1,2) assms(14) move unskipped])
    note replayed = move_replayed [OF stp assms(2,9-12,8,13,14,15) _ assms(21-25)]
    fix r assume "snap_frame ?sn fs fs1" "a_path r = s" "a_op r = Op_rename" "a_target r = t" "a_dir r \<noteq> []"
      "row_saved dg ?sn fs fs1 r" "node_at fs t = None" "recs = [r]"
    with replayed [of r "[]"] show ?thesis by simp
  next
    note replayed = move_replayed [OF stp assms(2,9-12,8,13,14,15) _ assms(21-25)]
    fix r r' old assume "snap_frame ?sn fs fs1" "a_path r = s" "a_op r = Op_rename" "a_target r = t" "a_dir r \<noteq> []"
      "row_saved dg ?sn fs fs1 r" "node_at fs t = Some (File_node old)" "recs = [r, r']" "a_path r' = t"
      "a_op r' = Op_modify" "a_dir r' \<noteq> []" "row_saved dg ?sn fs fs1 r'"
    with replayed [of r "[r']"] show ?thesis by simp
  qed
  then have rows_ops: "\<forall>r \<in> set recs. a_op r \<in> {Op_rename, Op_modify} \<and> a_dir r \<noteq> []" "recs \<noteq> []"
    and replay: "\<exists>fs3. restore_rows dg fs2 None recs = (fs3, None) \<and> (\<forall>q. outside_root ?sn q \<longrightarrow> node_at fs3 q = node_at fs q)"
    by blast+
  define ev' where "ev' = ev\<lparr>e_exit := Some code, e_ms := ms\<rparr>"
  have st2: "st_open (h_store ?h2)" "st_rows (h_store ?h2) = st_rows (h_store h) @ [\<lparr>r_event = ev', r_exit = Some code\<rparr>]"
    using after_finalizes [OF assms(17,18), of "st_rows (h_store h)" ev code ms] rec by (simp_all add: ev'_def)
  have ev': "e_affected ev' = recs" "e_kind ev' = Snapshot_event" "e_ts ev' = now" using rec by (simp_all add: ev'_def)
  have "list_ex has_bytes recs" using rows_ops by (cases recs) (auto simp: has_bytes_def)
  then have latest: "latest_restorable (h_store ?h2) = Inr (Some ev')"
    using latest_is_new [OF st2 ev'(2)] assms(19) ev' by simp
  have "dir_rows recs = []" using rows_ops(1) by (auto simp: dir_rows_def filter_empty_conv)
  moreover have "file_rows recs = recs" using rows_ops(1) by (auto simp: file_rows_def intro: filter_True)
  ultimately have "restore_event dg fs2 ev' = restore_rows dg fs2 None recs" by (simp add: restore_event_def ev'(1))
  then show ?thesis using replay latest by (auto simp: undo_builtin_def)
qed

definition move_file :: "string \<Rightarrow> string \<Rightarrow> os_state \<Rightarrow> os_state" where
  "move_file s t fs =
     (case node_at fs s of
        None \<Rightarrow> fs
      | Some n \<Rightarrow> put_node (fs\<lparr>fs_nodes := filter (\<lambda>(q, _). q \<noteq> s) (fs_nodes fs)\<rparr>) t n)"

lemma command_moves_file:
  "node_at fs s = Some n \<Longrightarrow> s \<noteq> ''/'' \<Longrightarrow> t \<noteq> ''/'' \<Longrightarrow> s \<noteq> t \<Longrightarrow> command_moves s t fs (move_file s t fs)"
proof -
  assume a: "node_at fs s = Some n" "s \<noteq> ''/''" "t \<noteq> ''/''" "s \<noteq> t"
  have "node_at (fs\<lparr>fs_nodes := filter (\<lambda>(q, _). q \<noteq> s) (fs_nodes fs)\<rparr>) q = (if q = s then None else node_at fs q)" for q
    using a(2) by (simp add: node_at_def map_of_filter_key)
  with a show ?thesis by (simp add: command_moves_def move_file_def)
qed

definition demo_mv :: pipeline where
  "demo_mv = \<lparr>commands = [\<lparr>cmd_name = ''mv'', cmd_args = [''-f'', ''f'', ''g''], cmd_tainted = False\<rparr>],
     background = False, tainted = False\<rparr>"

theorem mv_then_undo_witness:
  "\<exists>fs3 n cmd. undo_builtin (fst demo_setup)
       (Some (after_command (fst (before_command (fst demo_setup) demo_history demo_tree demo_mv ''mv f g'' ''evt'' 1)) 0 5))
       (move_file ''/d/f'' ''/d/g'' (snd (before_command (fst demo_setup) demo_history demo_tree demo_mv ''mv f g'' ''evt'' 1))) []
     = (fs3, 0, Undo_restored n cmd)
     \<and> node_at fs3 ''/d/f'' = Some (File_node ''bytes'') \<and> node_at fs3 ''/d/g'' = Some (File_node ''old'')"
proof -
  let ?b = "before_command (fst demo_setup) demo_history demo_tree demo_mv ''mv f g'' ''evt'' 1"
  let ?fs2 = "move_file ''/d/f'' ''/d/g'' (snd ?b)"
  let ?c = "\<lparr>cmd_name = ''mv'', cmd_args = [''-f'', ''f'', ''g''], cmd_tainted = False\<rparr>"
  have sn: "h_sn demo_history = snd demo_setup" by (simp add: demo_history_def)
  have stp: "snapshot_setup (fst demo_setup) (h_sn demo_history)" unfolding sn by (rule demo_setup_ok)
  have b: "?b = (fst ?b, snd ?b)" by simp
  have src: "''/d/f'' = hd (canonicalize demo_history [''f''])" by code_simp
  have dst: "''/d/g'' = resolve_target demo_tree ''/d/f'' (hd (canonicalize demo_history [''g'']))" by code_simp
  have out: "outside_root (h_sn demo_history) ''/d/f''" "outside_root (h_sn demo_history) ''/d/g''" by code_simp+
  have cmd: "commands demo_mv = [?c]" "cmd_name ?c = ''mv''" "extract_file_args (cmd_args ?c) [] = [''f'', ''g'']" by code_simp+
  have empty: "fs_no_stat ?fs2 = []" "fs_no_read ?fs2 = []" "fs_no_write ?fs2 = []" by code_simp+
  have facts: "''/d/f'' \<noteq> (''/d/g'' :: string)" "node_at demo_tree ''/d/f'' = Some (File_node ''bytes'')"
    "node_at demo_tree ''/d/g'' \<noteq> Some Dir_node" "\<forall>a \<in> set (parents_of ''/d/g''). node_at demo_tree a = Some Dir_node"
    "h_pending (fst ?b) = ''evt''" "''evt'' \<noteq> ([] :: string)"
    "\<forall>r \<in> set (st_rows (h_store demo_history)). e_ts (r_event r) < 1" "h_notices (fst ?b) = h_notices demo_history"
    by code_simp+
  have at_f: "node_at (snd ?b) ''/d/f'' = Some (File_node ''bytes'')" by code_simp
  have mv: "command_moves ''/d/f'' ''/d/g'' (snd ?b) ?fs2" by (rule command_moves_file [OF at_f]) simp_all
  have reach: "reachable_path ?fs2 ''/d/f''" "reachable_path ?fs2 ''/d/g''" "''/d/g'' \<notin> set (fs_no_read ?fs2)"
    unfolding reachable_path_def empty by simp_all
  have root: "\<forall>q. under (sn_root (h_sn demo_history)) q \<longrightarrow> q \<notin> set (fs_no_stat ?fs2) \<and> q \<notin> set (fs_no_read ?fs2)"
    unfolding empty by simp
  from mv_then_undo [OF stp demo_tree_ok cmd src dst facts(1) demo_path(1) out(1) demo_path(2) out(2) facts(2-4) b facts(5-8)
      mv reach root, of 0 5]
  obtain fs3 n cmd where u: "undo_builtin (fst demo_setup) (Some (after_command (fst ?b) 0 5)) ?fs2 [] = (fs3, 0, Undo_restored n cmd)"
    "\<forall>q. outside_root (h_sn demo_history) q \<longrightarrow> node_at fs3 q = node_at demo_tree q" by blast
  have "node_at demo_tree ''/d/g'' = Some (File_node ''old'')" by code_simp
  with u out facts(2) show ?thesis by auto
qed

end
