(* ===== verification/Log_Invariant.thy ===== *)
theory Log_Invariant
  imports Undo_Log
begin

text \<open>
  The history engine over time: any interleaving of commands, recorded or not, checkpoints and
  changes of the file tree, as a step relation with an invariant of the event log, and what the
  queries behind \<open>undo\<close> and \<open>restore\<close> return on such a log.
\<close>

section \<open>Steps\<close>

text \<open>
  \<open>P\<close> is any property of command lines, for instance that a line holds no secret; a line without
  it is only ever passed to \<open>Before\<close> with a pipeline that is marked as tainted. \<open>history purge\<close> is a
  built-in, so it runs when no command is in flight; the working directory may change at any time.
\<close>

inductive history_step :: "digests \<Rightarrow> (string \<Rightarrow> bool) \<Rightarrow> history \<times> os_state \<Rightarrow> history \<times> os_state \<Rightarrow> bool"
  for dg :: digests and P :: "string \<Rightarrow> bool" where
  before: "tainted pl \<or> P line \<Longrightarrow> before_command dg h fs pl line new_id now = (h', fs') \<Longrightarrow>
     history_step dg P (h, fs) (h', fs')"
| command: "history_step dg P (h, fs) (h, fs')"
| after: "history_step dg P (h, fs) (after_command h code ms, fs)"
| checkpoint: "P (''checkpoint '' @ name) \<Longrightarrow> checkpoint (h_store h) name new_id now = Inr st \<Longrightarrow>
     history_step dg P (h, fs) (h\<lparr>h_store := st\<rparr>, fs)"
| purge: "h_pending h = [] \<Longrightarrow> purge (h_store h) ts = Inr (st, n) \<Longrightarrow>
     history_step dg P (h, fs) (h\<lparr>h_store := st\<rparr>, fs)"
| change_dir: "history_step dg P (h, fs) (h\<lparr>h_cwd := d, h_getwd := wd\<rparr>, fs)"

inductive history_reachable :: "digests \<Rightarrow> (string \<Rightarrow> bool) \<Rightarrow> history \<times> os_state \<Rightarrow> bool"
  for dg :: digests and P :: "string \<Rightarrow> bool" where
  start: "new_history (Some \<lparr>st_open = True, st_rows = [], st_signer = sg\<rparr>) (Some sn) wd = Some h \<Longrightarrow>
     history_reachable dg P (h, fs)"
| step: "history_reachable dg P s \<Longrightarrow> history_step dg P s s' \<Longrightarrow> history_reachable dg P s'"

inductive_cases history_stepE: "history_step dg P (h, fs) (h', fs')"

section \<open>The invariant\<close>

definition row_ok :: "(string \<Rightarrow> bool) \<Rightarrow> event_row \<Rightarrow> bool" where
  "row_ok P r \<longleftrightarrow>
     e_id (r_event r) \<noteq> [] \<and> r_exit r = e_exit (r_event r) \<and> distinct (map a_path (e_affected (r_event r)))
     \<and> (P (e_command (r_event r)) \<or> e_command (r_event r) = redacted_tainted)"

definition log_ok :: "(string \<Rightarrow> bool) \<Rightarrow> history \<Rightarrow> bool" where
  "log_ok P h \<longleftrightarrow>
     distinct (map (\<lambda>r. e_id (r_event r)) (st_rows (h_store h))) \<and> list_all (row_ok P) (st_rows (h_store h))
     \<and> (h_pending h \<noteq> [] \<longrightarrow> (\<exists>r \<in> set (st_rows (h_store h)). e_id (r_event r) = h_pending h \<and> r_exit r = None))"

lemma signed_fields:
  "sign_event st e = Some e' \<Longrightarrow> e_id e' = e_id e \<and> e_exit e' = e_exit e \<and> e_affected e' = e_affected e
     \<and> e_command e' = e_command e \<and> e_kind e' = e_kind e \<and> e_ts e' = e_ts e"
  by (auto simp: sign_event_def Let_def split: option.splits)

lemma append_event_rows:
  assumes "append_event st e = Inr st'"
  obtains e' where "sign_event st e = Some e'" "st_rows st' = st_rows st @ [\<lparr>r_event = e', r_exit = None\<rparr>]"
    "e_id e \<noteq> []" "\<forall>r \<in> set (st_rows st). e_id (r_event r) \<noteq> e_id e" "distinct (map a_path (e_affected e))"
    "st_open st" "st_open st'"
  using assms by (auto simp: append_event_def list_ex_iff split: if_splits option.splits)

lemma map_update_ids:
  "\<forall>r. e_id (r_event (f r)) = e_id (r_event r) \<Longrightarrow>
     map (\<lambda>r. e_id (r_event r)) (st_rows (update_row i f st)) = map (\<lambda>r. e_id (r_event r)) (st_rows st)"
  by (simp add: update_row_def comp_def if_distrib cong: map_cong)

lemma set_update_row: "set (st_rows (update_row i f st)) = (\<lambda>r. if e_id (r_event r) = i then f r else r) ` set (st_rows st)"
  by (simp add: update_row_def)

lemma before_log_ok:
  assumes "log_ok P h" "tainted pl \<or> P line" "before_command dg h fs pl line new_id now = (h', fs')"
  shows "log_ok P h'"
proof (cases "is_destructive pl")
  case False
  then show ?thesis using assms(1,3) by (auto simp: before_command_def log_ok_def)
next
  case True
  obtain recs fs1 where recs: "collect_rows dg h fs pl = (recs, fs1)" by fastforce
  define ev0 where "ev0 = \<lparr>e_id = new_id, e_ts = now, e_kind = Snapshot_event, e_command = record_command pl line,
     e_cwd = current_cwd h, e_exit = None, e_ms = 0, e_affected = recs, e_name = [], e_signature = [], e_signer = []\<rparr>"
  show ?thesis
  proof (cases "append_event (h_store h) ev0")
    case (Inl e)
    then have "h_store h' = h_store h" "h_pending h' = []"
      using assms(3) True recs by (auto simp: before_command_def ev0_def Let_def)
    then show ?thesis using assms(1) by (simp add: log_ok_def)
  next
    case (Inr st)
    then have h': "h_store h' = st" "h_pending h' = new_id"
      using assms(3) True recs by (auto simp: before_command_def ev0_def Let_def)
    obtain ev where ev: "sign_event (h_store h) ev0 = Some ev"
      "st_rows st = st_rows (h_store h) @ [\<lparr>r_event = ev, r_exit = None\<rparr>]" "e_id ev0 \<noteq> []"
      "\<forall>r \<in> set (st_rows (h_store h)). e_id (r_event r) \<noteq> e_id ev0" "distinct (map a_path (e_affected ev0))"
      using append_event_rows [OF Inr] by metis
    have "row_ok P \<lparr>r_event = ev, r_exit = None\<rparr>"
      using signed_fields [OF ev(1)] ev(3,5) assms(2) by (auto simp: row_ok_def ev0_def record_command_def)
    then show ?thesis
      using assms(1) h' ev signed_fields [OF ev(1)] by (auto simp: log_ok_def ev0_def)
  qed
qed

lemma after_log_ok: "log_ok P h \<Longrightarrow> log_ok P (after_command h code ms)"
proof (cases "h_pending h = []")
  case False
  assume ok: "log_ok P h"
  let ?f = "\<lambda>r. \<lparr>r_event = (r_event r)\<lparr>e_exit := Some code, e_ms := ms\<rparr>, r_exit = Some code\<rparr>"
  have rows: "h_store (after_command h code ms) = h_store h
      \<or> h_store (after_command h code ms) = update_row (h_pending h) ?f (h_store h)"
    and "h_pending (after_command h code ms) = []"
    using False by (auto simp: after_command_def finalize_event_def Let_def)
  have "row_ok P r \<Longrightarrow> row_ok P (?f r)" for r by (simp add: row_ok_def)
  then show ?thesis
    using rows ok \<open>h_pending (after_command h code ms) = []\<close>
    by (auto simp: log_ok_def map_update_ids list_all_iff set_update_row)
qed (simp add: after_command_def)

lemma checkpoint_log_ok:
  assumes ok: "log_ok P h" and P: "P (''checkpoint '' @ name)" and cp: "checkpoint (h_store h) name new_id now = Inr st"
  shows "log_ok P (h\<lparr>h_store := st\<rparr>)"
proof -
  define ev0 where "ev0 = \<lparr>e_id = new_id, e_ts = now, e_kind = Checkpoint_event, e_command = ''checkpoint '' @ name, e_cwd = [],
           e_exit = Some 0, e_ms = 0, e_affected = [], e_name = name, e_signature = [], e_signer = []\<rparr>"
  obtain st1 where st1: "append_event (h_store h) ev0 = Inr st1" "st = update_row new_id (\<lambda>r. r\<lparr>r_exit := Some 0\<rparr>) st1"
    using cp by (auto simp: checkpoint_def ev0_def split: if_splits sum.splits)
  obtain ev where ev: "sign_event (h_store h) ev0 = Some ev"
    "st_rows st1 = st_rows (h_store h) @ [\<lparr>r_event = ev, r_exit = None\<rparr>]" "e_id ev0 \<noteq> []"
    "\<forall>r \<in> set (st_rows (h_store h)). e_id (r_event r) \<noteq> e_id ev0"
    using append_event_rows [OF st1(1)] by metis
  have "map (\<lambda>r. if e_id (r_event r) = new_id then r\<lparr>r_exit := Some 0\<rparr> else r) (st_rows (h_store h)) = st_rows (h_store h)"
    using ev(4) by (intro map_idI) (auto simp: ev0_def)
  then have rows: "st_rows st = st_rows (h_store h) @ [\<lparr>r_event = ev, r_exit = Some 0\<rparr>]"
    using st1(2) ev(2) signed_fields [OF ev(1)] by (simp add: update_row_def ev0_def)
  have "row_ok P \<lparr>r_event = ev, r_exit = Some 0\<rparr>"
    using signed_fields [OF ev(1)] ev(3) P by (simp add: row_ok_def ev0_def)
  then show ?thesis
    using ok rows ev(4) signed_fields [OF ev(1)] by (auto simp: log_ok_def ev0_def)
qed

lemma purge_log_ok: "log_ok P h \<Longrightarrow> h_pending h = [] \<Longrightarrow> purge (h_store h) ts = Inr (st, n) \<Longrightarrow> log_ok P (h\<lparr>h_store := st\<rparr>)"
  by (auto simp: log_ok_def purge_def Let_def list_all_iff distinct_map_filter split: if_splits)

lemma change_dir_log_ok: "log_ok P h \<Longrightarrow> log_ok P (h\<lparr>h_cwd := d, h_getwd := wd\<rparr>)"
  by (simp add: log_ok_def)

lemma history_step_log_ok: "history_step dg P (h, fs) (h', fs') \<Longrightarrow> log_ok P h \<Longrightarrow> log_ok P h'"
  by (erule history_stepE) (auto intro: before_log_ok after_log_ok checkpoint_log_ok purge_log_ok change_dir_log_ok)

lemma reachable_log_ok: "history_reachable dg P s \<Longrightarrow> log_ok P (fst s)"
proof (induction rule: history_reachable.induct)
  case (start sg sn wd h fs)
  then show ?case by (auto simp: new_history_def log_ok_def)
next
  case (step s s')
  then show ?case using history_step_log_ok [of dg P "fst s" "snd s" "fst s'" "snd s'"] by simp
qed

section \<open>Checkpoints and rollback\<close>

datatype rollback_output =
    Checkpoint_usage
  | Checkpoint_failed store_error
  | Checkpoint_recorded string string
  | Rollback_usage
  | Rollback_failed store_error
  | No_checkpoint string
  | No_events_after string
  | Rolled_back nat nat

definition history_checkpoint ::
  "history \<Rightarrow> string list \<Rightarrow> string \<Rightarrow> nat \<Rightarrow> history \<times> int \<times> rollback_output" where
  "history_checkpoint h args new_id now =
     (case args of
        [name] \<Rightarrow>
          if name = [] then (h, 2, Checkpoint_usage)
          else (case checkpoint (h_store h) name new_id now of
                  Inl e \<Rightarrow> (h, 1, Checkpoint_failed e)
                | Inr st \<Rightarrow> (h\<lparr>h_store := st\<rparr>, 0, Checkpoint_recorded name new_id))
      | _ \<Rightarrow> (h, 2, Checkpoint_usage))"

fun rollback_events :: "digests \<Rightarrow> os_state \<Rightarrow> event list \<Rightarrow> os_state \<times> nat \<times> nat" where
  "rollback_events dg fs [] = (fs, 0, 0)"
| "rollback_events dg fs (ev # evs) =
     (case restore_event dg fs ev of
        (fs1, err) \<Rightarrow>
          (case rollback_events dg fs1 evs of
             (fs2, restored, failed) \<Rightarrow>
               if err \<noteq> None then (fs2, restored, Suc failed) else (fs2, Suc restored, failed)))"

definition history_rollback :: "digests \<Rightarrow> history \<Rightarrow> os_state \<Rightarrow> string list \<Rightarrow> os_state \<times> int \<times> rollback_output" where
  "history_rollback dg h fs args =
     (case args of
        [name] \<Rightarrow>
          if name = [] then (fs, 2, Rollback_usage)
          else (case checkpoint_by_name (h_store h) name of
                  Inl e \<Rightarrow> (fs, 1, Rollback_failed e)
                | Inr None \<Rightarrow> (fs, 1, No_checkpoint name)
                | Inr (Some cp) \<Rightarrow>
                    (case events_since_checkpoint (h_store h) cp of
                       Inl e \<Rightarrow> (fs, 1, Rollback_failed e)
                     | Inr events \<Rightarrow>
                         if events = [] then (fs, 0, No_events_after name)
                         else (case rollback_events dg fs events of
                                 (fs1, restored, failed) \<Rightarrow>
                                   (fs1, if 0 < failed then 1 else 0, Rolled_back restored failed))))
      | _ \<Rightarrow> (fs, 2, Rollback_usage))"

section \<open>Queries\<close>

definition finished_snapshot :: "event_row \<Rightarrow> bool" where
  "finished_snapshot r \<longleftrightarrow> e_kind (r_event r) = Snapshot_event \<and> r_exit r \<noteq> None"

lemma latest_restorable_row:
  assumes "latest_restorable st = Inr (Some ev)"
  obtains r where "r \<in> set (st_rows st)" "r_event r = ev" "finished_snapshot r" "list_ex has_bytes (e_affected ev)"
    "\<forall>x \<in> set (st_rows st). finished_snapshot x \<longrightarrow> e_ts (r_event x) \<le> e_ts ev"
proof -
  let ?rs = "filter finished_snapshot (st_rows st)"
  let ?k = "\<lambda>r. (e_ts (r_event r), e_id (r_event r))"
  have open_st: "st_open st" using assms by (simp add: latest_restorable_def split: if_splits)
  have eq: "latest_restorable st = (case first_event ?rs of None \<Rightarrow> Inr None
      | Some ev \<Rightarrow> if list_ex has_bytes (e_affected ev) then Inr (Some ev) else Inr None)"
    using open_st by (simp add: latest_restorable_def finished_snapshot_def [abs_def])
  have f: "first_event ?rs = Some ev" "list_ex has_bytes (e_affected ev)"
    using assms unfolding eq by (auto split: option.splits if_splits)
  then have ne: "?rs \<noteq> []" and ev: "r_event (last (sort_key ?k ?rs)) = ev" by (auto simp: first_event_last split: if_splits)
  note l = last_sort_key [OF ne, of ?k]
  show thesis
    by (rule that [of "last (sort_key ?k ?rs)"]) (use l ev f(2) in \<open>auto simp: less_eq_prod_def less_le\<close>)
qed

lemma case_rev_first: "(case rev ys of [] \<Rightarrow> None | (_, a) # _ \<Rightarrow> Some a) = Some b \<Longrightarrow> \<exists>t. (t, b) \<in> set ys"
  by (cases ys rule: rev_cases) (auto split: prod.splits)

lemma snapshots_for_path_row:
  assumes "snapshots_for_path st path = Inr (Some a)"
  shows "a_path a = path \<and> has_bytes a \<and> (\<exists>r \<in> set (st_rows st). r_exit r \<noteq> None \<and> a \<in> set (e_affected (r_event r)))"
proof -
  let ?rows = "concat (map (\<lambda>r. map (\<lambda>a. (e_ts (r_event r), a))
                (filter (\<lambda>a. a_path a = path \<and> has_bytes a) (e_affected (r_event r))))
              (filter (\<lambda>r. r_exit r \<noteq> None) (st_rows st)))"
  have "st_open st" using assms by (cases "st_open st") (simp_all add: snapshots_for_path_def)
  then have "Inr (case rev (sort_key fst ?rows) of [] \<Rightarrow> None | (_, a) # _ \<Rightarrow> Some a)
      = (Inr (Some a) :: store_error + affected option)"
    using assms by (simp only: snapshots_for_path_def Let_def not_True_eq_False if_False)
  then have "(case rev (sort_key fst ?rows) of [] \<Rightarrow> None | (_, a) # _ \<Rightarrow> Some a) = Some a" by (rule sum.inject(2) [THEN iffD1])
  from case_rev_first [OF this] obtain ts where "(ts, a) \<in> set (sort_key fst ?rows)" by (elim exE)
  then have "(ts, a) \<in> set ?rows" unfolding set_sort .
  then show ?thesis by auto
qed

lemma snapshot_one_not_Nil: "snapshot_one dg sn fs p = (rows, fs') \<Longrightarrow> p \<in> set (map a_path rows)"
proof -
  assume s: "snapshot_one dg sn fs p = (rows, fs')"
  consider (absent) e where "os_stat fs p = Inl e" | (regular) bs where "os_stat fs p = Inr (File_node bs)"
    | (dir) "os_stat fs p = Inr Dir_node" by (metis node.exhaust sum.exhaust)
  then show ?thesis
    using s snapshot_path_path [of dg sn fs p]
    by cases (auto simp: snapshot_one_def affected_row_def split: prod.splits)
qed

lemma snapshot_many_distinct:
  "snapshot_many dg sn fs ps = (rows, fs') \<Longrightarrow>
     set ps \<subseteq> set (map a_path rows) \<and> (distinct (map a_path rows) \<longrightarrow> distinct ps)"
proof (induction ps arbitrary: fs rows)
  case (Cons p ps)
  obtain r1 fs1 where s1: "snapshot_one dg sn fs p = (r1, fs1)" by fastforce
  obtain r2 fs2 where s2: "snapshot_many dg sn fs1 ps = (r2, fs2)" by fastforce
  have out: "rows = r1 @ r2" "fs' = fs2" using Cons.prems s1 s2 by auto
  have IH: "set ps \<subseteq> set (map a_path r2)" "distinct (map a_path r2) \<longrightarrow> distinct ps" using Cons.IH s2 out(2) by auto
  have p: "p \<in> set (map a_path r1)" using snapshot_one_not_Nil [OF s1] .
  have "p \<notin> set ps" if "distinct (map a_path rows)" using that out(1) p IH(1) by auto
  then show ?case using out(1) p IH by auto
qed simp

section \<open>Properties\<close>

text \<open>
  C9. The event log stays consistent and clean: whatever commands, checkpoints and outside changes
  happen in whatever order, event IDs are distinct, the exit code in the column and in the payload
  agree, no event lists a path twice, the event in flight is there and unfinished - and every
  recorded command line is the redaction mark or a line that was not tainted, so the text of a
  tainted line never reaches the log.
\<close>

theorem history_log_consistent: "history_reachable dg P (h, fs) \<Longrightarrow> log_ok P h"
  using reachable_log_ok by fastforce

theorem history_log_consistent_witness:
  "let h = demo_history\<lparr>h_cwd := [], h_getwd := Some ''/d''\<rparr> in
     log_ok (\<lambda>l. l \<noteq> ''rm secret'')
       (fst (before_command (fst demo_setup) h demo_tree (demo_rm\<lparr>tainted := True\<rparr>) ''rm secret'' ''evt'' 1))"
proof -
  let ?h = "demo_history\<lparr>h_cwd := [], h_getwd := Some ''/d''\<rparr>"
  let ?P = "\<lambda>l. l \<noteq> ''rm secret''"
  obtain h1 fs1 where b: "before_command (fst demo_setup) ?h demo_tree (demo_rm\<lparr>tainted := True\<rparr>) ''rm secret'' ''evt'' 1 = (h1, fs1)"
    by fastforce
  have "new_history (Some \<lparr>st_open = True, st_rows = [], st_signer = None\<rparr>) (Some (snd demo_setup)) (Some ''/d'') = Some ?h"
    by (simp add: new_history_def demo_history_def)
  then have "history_reachable (fst demo_setup) ?P (?h, demo_tree)" by (rule history_reachable.start)
  moreover have "history_step (fst demo_setup) ?P (?h, demo_tree) (h1, fs1)"
    by (rule history_step.before [OF _ b]) simp
  ultimately have "history_reachable (fst demo_setup) ?P (h1, fs1)" by (rule history_reachable.step)
  from history_log_consistent [OF this] show ?thesis by (simp only: Let_def b fst_conv)
qed

text \<open>
  What \<open>undo\<close> and \<open>restore\<close> choose: the event that \<open>undo\<close> replays is a recorded, finished
  destructive command with saved bytes, no finished one is newer, and it is never the command that
  is still running; the row that \<open>restore\<close> replays is for the path asked for, has saved bytes and
  belongs to a finished command.
\<close>

theorem undo_chooses_finished:
  assumes "history_reachable dg P (h, fs)" "latest_restorable (h_store h) = Inr (Some ev)"
    "snapshots_for_path (h_store h) path = Inr (Some a)"
  shows "(\<exists>r \<in> set (st_rows (h_store h)). r_event r = ev \<and> finished_snapshot r)
    \<and> list_ex has_bytes (e_affected ev)
    \<and> (\<forall>x \<in> set (st_rows (h_store h)). finished_snapshot x \<longrightarrow> e_ts (r_event x) \<le> e_ts ev)
    \<and> (h_pending h \<noteq> [] \<longrightarrow> e_id ev \<noteq> h_pending h)
    \<and> a_path a = path \<and> has_bytes a
    \<and> (\<exists>r \<in> set (st_rows (h_store h)). r_exit r \<noteq> None \<and> a \<in> set (e_affected (r_event r)))"
proof -
  obtain r where r: "r \<in> set (st_rows (h_store h))" "r_event r = ev" "finished_snapshot r" "list_ex has_bytes (e_affected ev)"
    "\<forall>x \<in> set (st_rows (h_store h)). finished_snapshot x \<longrightarrow> e_ts (r_event x) \<le> e_ts ev"
    by (rule latest_restorable_row [OF assms(2)])
  have ok: "log_ok P h" using reachable_log_ok [OF assms(1)] by simp
  have "e_id ev \<noteq> h_pending h" if pend: "h_pending h \<noteq> []"
  proof
    assume same: "e_id ev = h_pending h"
    obtain x where x: "x \<in> set (st_rows (h_store h))" "e_id (r_event x) = h_pending h" "r_exit x = None"
      using ok pend by (auto simp: log_ok_def)
    then have "x = r" using ok r(1,2) same by (auto simp: log_ok_def distinct_map inj_on_def)
    then show False using x(3) r(3) by (simp add: finished_snapshot_def)
  qed
  then show ?thesis using r snapshots_for_path_row [OF assms(3)] by blast
qed

definition demo_done :: history where
  "demo_done = after_command (fst (before_command (fst demo_setup) (demo_history\<lparr>h_cwd := [], h_getwd := Some ''/d''\<rparr>)
     demo_tree demo_rm ''rm f'' ''evt'' 1)) 0 5"

lemma demo_done_reachable: "\<exists>fs. history_reachable (fst demo_setup) (\<lambda>_. True) (demo_done, fs)"
proof -
  let ?h = "demo_history\<lparr>h_cwd := [], h_getwd := Some ''/d''\<rparr>"
  obtain h1 fs1 where b: "before_command (fst demo_setup) ?h demo_tree demo_rm ''rm f'' ''evt'' 1 = (h1, fs1)" by fastforce
  have "new_history (Some \<lparr>st_open = True, st_rows = [], st_signer = None\<rparr>) (Some (snd demo_setup)) (Some ''/d'') = Some ?h"
    by (simp add: new_history_def demo_history_def)
  then have "history_reachable (fst demo_setup) (\<lambda>_. True) (?h, demo_tree)" by (rule history_reachable.start)
  moreover have "history_step (fst demo_setup) (\<lambda>_. True) (?h, demo_tree) (h1, fs1)"
    by (rule history_step.before [OF _ b]) simp
  ultimately have "history_reachable (fst demo_setup) (\<lambda>_. True) (h1, fs1)" by (rule history_reachable.step)
  then have "history_reachable (fst demo_setup) (\<lambda>_. True) (after_command h1 0 5, fs1)"
    by (rule history_reachable.step) (rule history_step.after)
  then show ?thesis unfolding demo_done_def b fst_conv by blast
qed

theorem undo_chooses_finished_witness:
  "\<exists>ev a. latest_restorable (h_store demo_done) = Inr (Some ev)
     \<and> snapshots_for_path (h_store demo_done) ''/d/f'' = Inr (Some a) \<and> list_ex has_bytes (e_affected ev) \<and> has_bytes a"
proof -
  obtain fs where reach: "history_reachable (fst demo_setup) (\<lambda>_. True) (demo_done, fs)" using demo_done_reachable by blast
  have "(case latest_restorable (h_store demo_done) of Inr (Some ev) \<Rightarrow> True | _ \<Rightarrow> False)" by code_simp
  then obtain ev where ev: "latest_restorable (h_store demo_done) = Inr (Some ev)" by (auto split: sum.splits option.splits)
  have "(case snapshots_for_path (h_store demo_done) ''/d/f'' of Inr (Some a) \<Rightarrow> True | _ \<Rightarrow> False)" by code_simp
  then obtain a where a: "snapshots_for_path (h_store demo_done) ''/d/f'' = Inr (Some a)"
    by (auto split: sum.splits option.splits)
  from undo_chooses_finished [OF reach ev a] ev a show ?thesis by blast
qed

text \<open>
  C24. \<open>undo\<close> sees the newest finished event only: when that event saved no bytes - it removed a file
  that was not there, an empty directory, or files that were skipped - \<open>undo\<close> says that there is
  nothing to undo and changes nothing, whatever restorable events are older.
\<close>

theorem undo_blocked:
  assumes "st_open (h_store h)" "r \<in> set (st_rows (h_store h))" "finished_snapshot r" "\<not> list_ex has_bytes (e_affected (r_event r))"
    and "\<forall>x \<in> set (st_rows (h_store h)). finished_snapshot x \<longrightarrow> x = r \<or> e_ts (r_event x) < e_ts (r_event r)"
  shows "undo_builtin dg (Some h) fs [] = (fs, 1, Nothing_to_undo)"
proof -
  have "first_event (filter finished_snapshot (st_rows (h_store h))) = Some (r_event r)"
    by (rule first_event_newest) (use assms in auto)
  then show ?thesis
    using assms(1,4) by (simp add: undo_builtin_def latest_restorable_def finished_snapshot_def [abs_def])
qed

definition demo_blocked :: history where
  "demo_blocked = after_command (fst (before_command (fst demo_setup) (demo_done\<lparr>h_cwd := ''/d''\<rparr>) demo_tree
     \<lparr>commands = [\<lparr>cmd_name = ''rm'', cmd_args = [''nothere''], cmd_tainted = False\<rparr>], background = False, tainted = False\<rparr>
     ''rm nothere'' ''evt2'' 2)) 1 5"

theorem undo_blocked_witness:
  "snapshots_for_path (h_store demo_blocked) ''/d/f'' \<noteq> Inr None
     \<and> undo_builtin (fst demo_setup) (Some demo_blocked) demo_tree [] = (demo_tree, 1, Nothing_to_undo)"
proof -
  let ?r = "last (st_rows (h_store demo_blocked))"
  have facts: "st_open (h_store demo_blocked)" "?r \<in> set (st_rows (h_store demo_blocked))"
    "finished_snapshot ?r" "\<not> list_ex has_bytes (e_affected (r_event ?r))" by code_simp+
  have "st_rows (h_store demo_blocked) = butlast (st_rows (h_store demo_blocked)) @ [?r]"
    by (rule append_butlast_last_id [symmetric]) code_simp
  moreover have "\<forall>x \<in> set (butlast (st_rows (h_store demo_blocked))). e_ts (r_event x) < e_ts (r_event ?r)" by code_simp
  ultimately have "\<forall>x \<in> set (st_rows (h_store demo_blocked)). finished_snapshot x \<longrightarrow> x = ?r \<or> e_ts (r_event x) < e_ts (r_event ?r)"
    by (metis Un_iff empty_iff empty_set list.set(2) insert_iff set_append)
  moreover have "(case snapshots_for_path (h_store demo_blocked) ''/d/f'' of Inr None \<Rightarrow> False | _ \<Rightarrow> True)" by code_simp
  ultimately show ?thesis using undo_blocked [OF facts] by auto
qed

text \<open>
  Naming a target twice loses the undo: the table of affected paths takes a path once per event,
  so for a removing command whose targets repeat a path the event is refused, nothing is recorded
  and no event is pending when the command runs - whatever was copied.
\<close>

theorem repeated_target_unrecorded:
  assumes "is_destructive pl" "\<not> pipeline_has_mv pl" "\<not> distinct (canonicalize h (target_paths pl))"
    and "before_command dg h fs pl line new_id now = (h1, fs1)"
  shows "h_store h1 = h_store h \<and> h_pending h1 = []
    \<and> (\<exists>e. h_notices h1 = h_notices h @ skip_notices (fst (collect_rows dg h fs pl)) @ [Append_failed e])"
proof -
  obtain recs fs' where recs: "collect_rows dg h fs pl = (recs, fs')" by fastforce
  then have "snapshot_many dg (h_sn h) fs (canonicalize h (target_paths pl)) = (recs, fs')"
    using no_mv_no_renames [OF assms(2)] assms(2) by (simp add: collect_rows_def split: prod.splits)
  then have "\<not> distinct (map a_path recs)" using snapshot_many_distinct assms(3) by blast
  then have "\<exists>e. append_event (h_store h) ev = Inl e" if "e_affected ev = recs" for ev
    using that by (auto simp: append_event_def split: option.split)
  then obtain e where "append_event (h_store h) \<lparr>e_id = new_id, e_ts = now, e_kind = Snapshot_event,
       e_command = record_command pl line, e_cwd = current_cwd h, e_exit = None, e_ms = 0, e_affected = recs, e_name = [],
       e_signature = [], e_signer = []\<rparr> = Inl e" by fastforce
  then show ?thesis using assms(1,4) recs by (auto simp: before_command_def Let_def)
qed

theorem repeated_target_unrecorded_witness:
  "h_pending (fst (before_command (fst demo_setup) demo_history demo_tree
     (demo_rm\<lparr>commands := [\<lparr>cmd_name = ''rm'', cmd_args = [''f'', ''./f''], cmd_tainted = False\<rparr>]\<rparr>) ''rm f ./f'' ''evt'' 1)) = []"
proof -
  let ?pl = "demo_rm\<lparr>commands := [\<lparr>cmd_name = ''rm'', cmd_args = [''f'', ''./f''], cmd_tainted = False\<rparr>]\<rparr>"
  let ?b = "before_command (fst demo_setup) demo_history demo_tree ?pl ''rm f ./f'' ''evt'' 1"
  have facts: "is_destructive ?pl" "\<not> pipeline_has_mv ?pl" "\<not> distinct (canonicalize demo_history (target_paths ?pl))"
    by code_simp+
  have b: "?b = (fst ?b, snd ?b)" by simp
  from repeated_target_unrecorded [OF facts b] show ?thesis by blast
qed

end
