(* ===== verification/Vector_Index.thy ===== *)
theory Vector_Index
  imports Log_Invariant "HOL-Library.AList"
begin

text \<open>
  Embeddings of commands: the vector store of \<^verbatim>\<open>shell/internal/history/vector_store_chromem.go\<close>, the
  hook on \<open>Append\<close> of \<^verbatim>\<open>embed_writer.go\<close> and \<open>Reindex\<close> of \<^verbatim>\<open>reindex.go\<close>. The chromem collection, the
  type of a vector's components and the embedding model are parameters; the table \<open>events_vec_meta\<close>,
  from event ID to model, lies in the history database beside the events.
\<close>

section \<open>The vector store\<close>

record 'c vec_db =
  vd_coll :: 'c
  vd_meta :: "(string \<times> string) list"

definition meta_get :: "'c vec_db \<Rightarrow> string \<Rightarrow> string option" where
  "meta_get db e = map_of (vd_meta db) e"

definition meta_put :: "'c vec_db \<Rightarrow> string \<Rightarrow> string \<Rightarrow> 'c vec_db" where
  "meta_put db e m = db\<lparr>vd_meta := AList.update e m (vd_meta db)\<rparr>"

record ('c, 'v) chromem =
  cr_add :: "'c \<Rightarrow> string \<Rightarrow> 'v list \<Rightarrow> string + 'c"
  cr_count :: "'c \<Rightarrow> nat"
  cr_query :: "'c \<Rightarrow> 'v list \<Rightarrow> nat \<Rightarrow> string + string list"
  cr_delete :: "'c \<Rightarrow> string \<Rightarrow> string + 'c"

datatype vec_error =
    Bad_dimension
  | Empty_event_id
  | Empty_model
  | Dim_mismatch nat nat
  | Collection_failed string

text \<open>The interface \<open>VectorStore\<close>.\<close>

record ('c, 'v) vector_store =
  vs_upsert :: "'c vec_db \<Rightarrow> string \<Rightarrow> 'v list \<Rightarrow> string \<Rightarrow> vec_error + 'c vec_db"
  vs_query :: "'c vec_db \<Rightarrow> 'v list \<Rightarrow> int \<Rightarrow> vec_error + string list"
  vs_delete :: "'c vec_db \<Rightarrow> string \<Rightarrow> vec_error + 'c vec_db"
  vs_has :: "'c vec_db \<Rightarrow> string \<Rightarrow> vec_error + bool"

definition chromem_upsert ::
  "('c, 'v) chromem \<Rightarrow> nat \<Rightarrow> 'c vec_db \<Rightarrow> string \<Rightarrow> 'v list \<Rightarrow> string \<Rightarrow> vec_error + 'c vec_db" where
  "chromem_upsert ch dim db e v m =
     (if e = [] then Inl Empty_event_id
      else if m = [] then Inl Empty_model
      else if length v \<noteq> dim then Inl (Dim_mismatch (length v) dim)
      else case cr_add ch (vd_coll db) e v of
        Inl err \<Rightarrow> Inl (Collection_failed err)
      | Inr c \<Rightarrow> Inr (meta_put (db\<lparr>vd_coll := c\<rparr>) e m))"

definition chromem_query :: "('c, 'v) chromem \<Rightarrow> nat \<Rightarrow> 'c vec_db \<Rightarrow> 'v list \<Rightarrow> int \<Rightarrow> vec_error + string list" where
  "chromem_query ch dim db v k =
     (if length v \<noteq> dim then Inl (Dim_mismatch (length v) dim)
      else if k \<le> 0 then Inr []
      else
        (let count = cr_count ch (vd_coll db)
         in if count = 0 then Inr []
            else (case cr_query ch (vd_coll db) v (min (nat k) count) of
                    Inl err \<Rightarrow> Inl (Collection_failed err)
                  | Inr hits \<Rightarrow> Inr hits)))"

definition chromem_delete :: "('c, 'v) chromem \<Rightarrow> 'c vec_db \<Rightarrow> string \<Rightarrow> vec_error + 'c vec_db" where
  "chromem_delete ch db e =
     (if e = [] then Inl Empty_event_id
      else case cr_delete ch (vd_coll db) e of
        Inl err \<Rightarrow> Inl (Collection_failed err)
      | Inr c \<Rightarrow> Inr (db\<lparr>vd_coll := c, vd_meta := AList.delete e (vd_meta db)\<rparr>))"

text \<open>\<open>HasEvent\<close> asks the table, not the collection.\<close>

definition chromem_has :: "'c vec_db \<Rightarrow> string \<Rightarrow> vec_error + bool" where
  "chromem_has db e = (if e = [] then Inr False else Inr (meta_get db e \<noteq> None))"

definition chromem_store :: "('c, 'v) chromem \<Rightarrow> nat \<Rightarrow> ('c, 'v) vector_store" where
  "chromem_store ch dim =
     \<lparr>vs_upsert = chromem_upsert ch dim, vs_query = chromem_query ch dim, vs_delete = chromem_delete ch, vs_has = chromem_has\<rparr>"

definition new_vector_store :: "('c, 'v) chromem \<Rightarrow> int \<Rightarrow> vec_error + ('c, 'v) vector_store" where
  "new_vector_store ch dim = (if dim \<le> 0 then Inl Bad_dimension else Inr (chromem_store ch (nat dim)))"

section \<open>Embedding\<close>

record 'v embedder =
  em_embed :: "string \<Rightarrow> string + 'v list list"
  em_model :: string

definition embed_and_store ::
  "'v embedder option \<Rightarrow> ('c, 'v) vector_store option \<Rightarrow> 'c vec_db \<Rightarrow> event \<Rightarrow> 'c vec_db" where
  "embed_and_store emo vso db ev =
     (case (emo, vso) of
        (Some em, Some vs) \<Rightarrow>
          if e_id ev = [] \<or> e_command ev = redacted_tainted then db
          else (case em_embed em (e_command ev) of
                  Inl _ \<Rightarrow> db
                | Inr vecs \<Rightarrow>
                    if length vecs \<noteq> 1 \<or> hd vecs = [] then db
                    else (case vs_upsert vs db (e_id ev) (hd vecs) (em_model em) of Inl _ \<Rightarrow> db | Inr db' \<Rightarrow> db'))
      | _ \<Rightarrow> db)"

text \<open>\<open>Append\<close> with its last step, which runs after the transaction.\<close>

definition append_embedded ::
  "'v embedder option \<Rightarrow> ('c, 'v) vector_store option \<Rightarrow> store \<Rightarrow> 'c vec_db \<Rightarrow> event \<Rightarrow> store_error + store \<times> 'c vec_db" where
  "append_embedded emo vso st db ev =
     (case append_event st ev of
        Inl e \<Rightarrow> Inl e
      | Inr st' \<Rightarrow> Inr (st', embed_and_store emo vso db ev))"

datatype reindex_error =
    Reindex_closed
  | No_embedder
  | No_vector_store
  | Reindex_delete string vec_error
  | Reindex_embed string string
  | Reindex_no_vector string
  | Reindex_upsert string vec_error

text \<open>Whether the event has a row of the active model and the vector store has the event.\<close>

definition up_to_date :: "'v embedder \<Rightarrow> ('c, 'v) vector_store \<Rightarrow> 'c vec_db \<Rightarrow> string \<Rightarrow> bool" where
  "up_to_date em vs db e \<longleftrightarrow> meta_get db e = Some (em_model em) \<and> vs_has vs db e = Inr True"

definition drop_stale :: "'v embedder \<Rightarrow> ('c, 'v) vector_store \<Rightarrow> 'c vec_db \<Rightarrow> string \<Rightarrow> vec_error + 'c vec_db" where
  "drop_stale em vs db e =
     (case meta_get db e of
        Some m \<Rightarrow> if m \<noteq> em_model em then vs_delete vs db e else Inr db
      | None \<Rightarrow> Inr db)"

fun reindex_loop ::
  "'v embedder \<Rightarrow> ('c, 'v) vector_store \<Rightarrow> (string \<times> string) list \<Rightarrow> 'c vec_db \<Rightarrow> 'c vec_db \<times> nat \<times> reindex_error option" where
  "reindex_loop em vs [] db = (db, 0, None)"
| "reindex_loop em vs ((e, cmd) # ps) db =
     (if up_to_date em vs db e then reindex_loop em vs ps db
      else case drop_stale em vs db e of
        Inl err \<Rightarrow> (db, 0, Some (Reindex_delete e err))
      | Inr db1 \<Rightarrow>
          (case em_embed em cmd of
             Inl err \<Rightarrow> (db1, 0, Some (Reindex_embed e err))
           | Inr vecs \<Rightarrow>
               if length vecs \<noteq> 1 \<or> hd vecs = [] then (db1, 0, Some (Reindex_no_vector e))
               else (case vs_upsert vs db1 e (hd vecs) (em_model em) of
                       Inl err \<Rightarrow> (db1, 0, Some (Reindex_upsert e err))
                     | Inr db2 \<Rightarrow>
                         (case reindex_loop em vs ps (meta_put db2 e (em_model em)) of
                            (db3, n, err) \<Rightarrow> (db3, Suc n, err)))))"

text \<open>The rows that are not redacted, oldest first.\<close>

definition reindex_rows :: "store \<Rightarrow> (string \<times> string) list" where
  "reindex_rows st =
     map (\<lambda>r. (e_id (r_event r), e_command (r_event r)))
       (filter (\<lambda>r. e_command (r_event r) \<noteq> redacted_tainted) (rev (newest_first (st_rows st))))"

definition reindex ::
  "'v embedder option \<Rightarrow> ('c, 'v) vector_store option \<Rightarrow> store \<Rightarrow> 'c vec_db \<Rightarrow> 'c vec_db \<times> nat \<times> reindex_error option" where
  "reindex emo vso st db =
     (if \<not> st_open st then (db, 0, Some Reindex_closed)
      else case emo of
        None \<Rightarrow> (db, 0, Some No_embedder)
      | Some em \<Rightarrow>
          (case vso of
             None \<Rightarrow> (db, 0, Some No_vector_store)
           | Some vs \<Rightarrow> reindex_loop em vs (reindex_rows st) db))"

section \<open>The contract of a vector store\<close>

text \<open>
  What reindexing asks of the interface: after an upsert, and the row that \<open>Reindex\<close> writes itself, the
  event is there; upserts and deletions leave other events alone; a deletion leaves no row.
\<close>

locale vector_index =
  fixes vs :: "('c, 'v) vector_store"
  assumes upsert_own: "vs_upsert vs db e v m = Inr db' \<Longrightarrow> vs_has vs (meta_put db' e m) e = Inr True"
    and upsert_other: "vs_upsert vs db e v m = Inr db' \<Longrightarrow> e' \<noteq> e \<Longrightarrow>
      vs_has vs (meta_put db' e m) e' = vs_has vs db e' \<and> meta_get db' e' = meta_get db e'"
    and delete_own: "vs_delete vs db e = Inr db' \<Longrightarrow> meta_get db' e = None"
    and delete_other: "vs_delete vs db e = Inr db' \<Longrightarrow> e' \<noteq> e \<Longrightarrow>
      vs_has vs db' e' = vs_has vs db e' \<and> meta_get db' e' = meta_get db e'"

lemma meta_get_put [simp]: "meta_get (meta_put db e m) e' = (if e' = e then Some m else meta_get db e')"
  by (auto simp: meta_get_def meta_put_def update_conv')

context vector_index begin

lemma drop_stale_keeps:
  assumes "drop_stale em vs db e = Inr db1" "\<not> up_to_date em vs db e"
  shows "\<not> up_to_date em vs db1 e \<and> (\<forall>e'. e' \<noteq> e \<longrightarrow> up_to_date em vs db1 e' = up_to_date em vs db e')"
  using assms delete_own delete_other by (fastforce simp: drop_stale_def up_to_date_def split: option.splits if_splits)

lemma upsert_up_to_date:
  assumes "vs_upsert vs db e v (em_model em) = Inr db'"
  shows "up_to_date em vs (meta_put db' e (em_model em)) e' = (e' = e \<or> up_to_date em vs db e')"
  using upsert_own [OF assms] upsert_other [OF assms] by (auto simp: up_to_date_def)

text \<open>
  The rows that are not up to date before a run are the ones it embedded and the ones that are not
  up to date after it, whether it ends with an error or not.
\<close>

lemma reindex_loop_count:
  "reindex_loop em vs ps db = (db', n, err) \<Longrightarrow> distinct (map fst ps) \<Longrightarrow>
     (\<forall>e. up_to_date em vs db e \<longrightarrow> up_to_date em vs db' e)
     \<and> (\<forall>e. e \<notin> set (map fst ps) \<longrightarrow> up_to_date em vs db' e = up_to_date em vs db e)
     \<and> length (filter (\<lambda>p. \<not> up_to_date em vs db (fst p)) ps) = n + length (filter (\<lambda>p. \<not> up_to_date em vs db' (fst p)) ps)
     \<and> (err = None \<longrightarrow> (\<forall>p \<in> set ps. up_to_date em vs db' (fst p)))"
proof (induction ps arbitrary: db n)
  case (Cons p ps)
  obtain e cmd where p: "p = (e, cmd)" by fastforce
  have d: "distinct (map fst ps)" "e \<notin> fst ` set ps" using Cons.prems(2) p by auto
  show ?case
  proof (cases "up_to_date em vs db e")
    case True
    then have "reindex_loop em vs ps db = (db', n, err)" using Cons.prems(1) p by simp
    from Cons.IH [OF this d(1)] show ?thesis using True p by auto
  next
    case False
    have stop: ?thesis if "db' = db1" "n = 0" "err \<noteq> None" "drop_stale em vs db e = Inr db1" for db1
    proof -
      have same: "up_to_date em vs db1 = up_to_date em vs db"
        using drop_stale_keeps [OF that(4) False] False by (intro ext) metis
      show ?thesis unfolding that(1) same using that(2,3) by auto
    qed
    show ?thesis
    proof (cases "drop_stale em vs db e")
      case (Inl x)
      then show ?thesis using Cons.prems(1) p False by auto
    next
      case (Inr db1)
      have keep: "\<forall>e'. e' \<noteq> e \<longrightarrow> up_to_date em vs db1 e' = up_to_date em vs db e'" "\<not> up_to_date em vs db1 e"
        using drop_stale_keeps [OF Inr False] by auto
      consider (stops) "db' = db1" "n = 0" "err \<noteq> None"
        | (goes) v db2 n' where "vs_upsert vs db1 e v (em_model em) = Inr db2"
            "reindex_loop em vs ps (meta_put db2 e (em_model em)) = (db', n', err)" "n = Suc n'"
        using Cons.prems(1) p False Inr by (auto split: sum.splits prod.splits if_splits)
      then show ?thesis
      proof cases
        case stops
        then show ?thesis by (rule stop [OF _ _ _ Inr])
      next
        case (goes v db2 n')
        let ?m = "meta_put db2 e (em_model em)"
        have m: "up_to_date em vs ?m e' = (e' = e \<or> up_to_date em vs db e')" for e'
          using upsert_up_to_date [OF goes(1)] keep by metis
        note IH = Cons.IH [OF goes(2) d(1)]
        have old: "up_to_date em vs ?m (fst q) = up_to_date em vs db (fst q)" if "q \<in> set ps" for q
          using that d(2) m by (metis image_eqI)
        have "filter (\<lambda>q. \<not> up_to_date em vs ?m (fst q)) ps = filter (\<lambda>q. \<not> up_to_date em vs db (fst q)) ps"
          using old by (intro filter_cong) simp_all
        then have len: "length (filter (\<lambda>q. \<not> up_to_date em vs db (fst q)) ps)
            = n' + length (filter (\<lambda>q. \<not> up_to_date em vs db' (fst q)) ps)" using IH by metis
        have own: "up_to_date em vs db' e" using IH m d(2) by blast
        have "\<forall>e'. up_to_date em vs db e' \<longrightarrow> up_to_date em vs db' e'" using IH m by blast
        moreover have "\<forall>e'. e' \<notin> set (map fst (p # ps)) \<longrightarrow> up_to_date em vs db' e' = up_to_date em vs db e'"
          using IH m p by simp
        ultimately show ?thesis using len own IH False p goes(3) by simp
      qed
    qed
  qed
qed simp

lemma reindex_loop_fixpoint: "\<forall>p \<in> set ps. up_to_date em vs db (fst p) \<Longrightarrow> reindex_loop em vs ps db = (db, 0, None)"
  by (induction ps) auto

end

interpretation chromem: vector_index "chromem_store ch dim" for ch :: "('c, 'v) chromem" and dim
proof
  fix db db' :: "'c vec_db" and e e' m and v :: "'v list"
  show "vs_has (chromem_store ch dim) (meta_put db' e m) e = Inr True"
    if "vs_upsert (chromem_store ch dim) db e v m = Inr db'"
    using that by (auto simp: chromem_store_def chromem_upsert_def chromem_has_def split: if_splits)
  show "vs_has (chromem_store ch dim) (meta_put db' e m) e' = vs_has (chromem_store ch dim) db e' \<and> meta_get db' e' = meta_get db e'"
    if "vs_upsert (chromem_store ch dim) db e v m = Inr db'" "e' \<noteq> e"
    using that by (auto simp: chromem_store_def chromem_upsert_def chromem_has_def meta_get_def meta_put_def update_conv'
        split: if_splits sum.splits)
  show "meta_get db' e = None" if "vs_delete (chromem_store ch dim) db e = Inr db'"
    using that by (auto simp: chromem_store_def chromem_delete_def meta_get_def delete_conv' split: if_splits sum.splits)
  show "vs_has (chromem_store ch dim) db' e' = vs_has (chromem_store ch dim) db e' \<and> meta_get db' e' = meta_get db e'"
    if "vs_delete (chromem_store ch dim) db e = Inr db'" "e' \<noteq> e"
    using that by (auto simp: chromem_store_def chromem_delete_def chromem_has_def meta_get_def delete_conv'
        split: if_splits sum.splits)
qed

section \<open>Properties\<close>

lemma distinct_reindex_rows: "distinct (map (\<lambda>r. e_id (r_event r)) (st_rows st)) \<Longrightarrow> distinct (map fst (reindex_rows st))"
proof -
  let ?i = "\<lambda>r. e_id (r_event r)" and ?k = "\<lambda>r. (e_ts (r_event r), e_id (r_event r))"
  assume d: "distinct (map ?i (st_rows st))"
  have "distinct (map ?i (sort_key ?k (st_rows st)))" using d by (simp add: distinct_map)
  then have "distinct (map ?i (filter (\<lambda>r. e_command (r_event r) \<noteq> redacted_tainted) (sort_key ?k (st_rows st))))"
    by (rule distinct_map_filter)
  then show ?thesis by (simp add: reindex_rows_def newest_first_def comp_def)
qed

lemma set_reindex_rows:
  "set (reindex_rows st) = {(e_id (r_event r), e_command (r_event r)) |r. r \<in> set (st_rows st) \<and> e_command (r_event r) \<noteq> redacted_tainted}"
  by (auto simp: reindex_rows_def newest_first_def)

text \<open>
  C10. Reindexing resumes: a run that was cut short by an error and the run that completes it together embed
  each untainted event that was missing at the start exactly once; after it every untainted event is up
  to date, and a further run has nothing to do.
\<close>

theorem reindex_resumes:
  assumes "history_reachable dg P (h, fs)" "reindex (Some em) (Some (chromem_store ch dim)) (h_store h) db = (db1, n1, Some err)"
    and "em_model em' = em_model em" "reindex (Some em') (Some (chromem_store ch dim)) (h_store h) db1 = (db2, n2, None)"
  shows "n1 + n2 = card {e_id (r_event r) |r. r \<in> set (st_rows (h_store h)) \<and> e_command (r_event r) \<noteq> redacted_tainted
             \<and> \<not> up_to_date em (chromem_store ch dim) db (e_id (r_event r))}
    \<and> (\<forall>r \<in> set (st_rows (h_store h)). e_command (r_event r) \<noteq> redacted_tainted \<longrightarrow>
         meta_get db2 (e_id (r_event r)) = Some (em_model em))
    \<and> reindex (Some em') (Some (chromem_store ch dim)) (h_store h) db2 = (db2, 0, None)"
proof -
  let ?vs = "chromem_store ch dim" and ?rows = "reindex_rows (h_store h)"
  have opn: "st_open (h_store h)" using assms(4) by (auto simp: reindex_def split: if_splits)
  have d: "distinct (map fst ?rows)" using reachable_log_ok [OF assms(1)] by (intro distinct_reindex_rows) (simp add: log_ok_def)
  have run: "reindex_loop em ?vs ?rows db = (db1, n1, Some err)" "reindex_loop em' ?vs ?rows db1 = (db2, n2, None)"
    using assms(2,4) opn by (simp_all add: reindex_def)
  have same: "up_to_date em' ?vs = up_to_date em ?vs" using assms(3) by (intro ext) (simp add: up_to_date_def)
  note c = chromem.reindex_loop_count [OF run(1) d] chromem.reindex_loop_count [OF run(2) d, unfolded same]
  have all: "\<forall>p \<in> set ?rows. up_to_date em ?vs db2 (fst p)" using c(2) by blast
  then have "filter (\<lambda>p. \<not> up_to_date em ?vs db2 (fst p)) ?rows = []" by (auto simp: filter_empty_conv)
  then have "length (filter (\<lambda>p. \<not> up_to_date em ?vs db (fst p)) ?rows) = n1 + n2"
    using c by (metis add_0_right list.size(3))
  moreover have "distinct (map fst (filter (\<lambda>p. \<not> up_to_date em ?vs db (fst p)) ?rows))" using d by (rule distinct_map_filter)
  ultimately have "card (fst ` set (filter (\<lambda>p. \<not> up_to_date em ?vs db (fst p)) ?rows)) = n1 + n2"
    by (metis distinct_card length_map set_map)
  moreover have "fst ` set (filter (\<lambda>p. \<not> up_to_date em ?vs db (fst p)) ?rows) = {e_id (r_event r) |r. r \<in> set (st_rows (h_store h))
      \<and> e_command (r_event r) \<noteq> redacted_tainted \<and> \<not> up_to_date em ?vs db (e_id (r_event r))}"
    unfolding set_filter set_reindex_rows by force
  ultimately have count: "n1 + n2 = card {e_id (r_event r) |r. r \<in> set (st_rows (h_store h)) \<and> e_command (r_event r) \<noteq> redacted_tainted
             \<and> \<not> up_to_date em ?vs db (e_id (r_event r))}" by simp
  have "\<forall>p \<in> set ?rows. up_to_date em' ?vs db2 (fst p)" using all same by simp
  from chromem.reindex_loop_fixpoint [OF this]
  have "reindex (Some em') (Some ?vs) (h_store h) db2 = (db2, 0, None)" using opn by (simp add: reindex_def)
  moreover have "meta_get db2 (e_id (r_event r)) = Some (em_model em)"
    if "r \<in> set (st_rows (h_store h))" "e_command (r_event r) \<noteq> redacted_tainted" for r
    using all that unfolding set_reindex_rows up_to_date_def by fastforce
  ultimately show ?thesis using count by blast
qed

definition list_chromem :: "((string \<times> nat list) list, nat) chromem" where
  "list_chromem = \<lparr>cr_add = \<lambda>c e v. Inr (AList.update e v c), cr_count = length,
     cr_query = \<lambda>c v k. Inr (map fst (take k c)), cr_delete = \<lambda>c e. Inr (AList.delete e c)\<rparr>"

definition demo_embedder :: "nat embedder" where
  "demo_embedder = \<lparr>em_embed = \<lambda>s. Inr [[length s]], em_model = ''m''\<rparr>"

definition broken_embedder :: "nat embedder" where
  "broken_embedder = demo_embedder\<lparr>em_embed := \<lambda>_. Inl ''no model''\<rparr>"

definition empty_db :: "(string \<times> nat list) list vec_db" where
  "empty_db = \<lparr>vd_coll = [], vd_meta = []\<rparr>"

theorem reindex_resumes_witness:
  "\<exists>db2. reindex (Some demo_embedder) (Some (chromem_store list_chromem 1)) (h_store demo_done) empty_db = (db2, 1, None)
     \<and> meta_get db2 ''evt'' = Some ''m''
     \<and> reindex (Some demo_embedder) (Some (chromem_store list_chromem 1)) (h_store demo_done) db2 = (db2, 0, None)"
proof -
  let ?vs = "chromem_store list_chromem 1"
  obtain fs where reach: "history_reachable (fst demo_setup) (\<lambda>_. True) (demo_done, fs)" using demo_done_reachable by blast
  have "(case reindex (Some broken_embedder) (Some ?vs) (h_store demo_done) empty_db of
      (db1, n, Some e) \<Rightarrow> vd_coll db1 = [] \<and> vd_meta db1 = [] \<and> n = 0 | _ \<Rightarrow> False)" by code_simp
  then obtain err where r1: "reindex (Some broken_embedder) (Some ?vs) (h_store demo_done) empty_db = (empty_db, 0, Some err)"
    by (auto simp: empty_db_def split: prod.splits option.splits)
  have "(case reindex (Some demo_embedder) (Some ?vs) (h_store demo_done) empty_db of (_, n, None) \<Rightarrow> n = 1 | _ \<Rightarrow> False)" by code_simp
  then obtain db2 where r2: "reindex (Some demo_embedder) (Some ?vs) (h_store demo_done) empty_db = (db2, 1, None)"
    by (auto split: prod.splits option.splits)
  have same: "em_model demo_embedder = em_model broken_embedder" by (simp add: broken_embedder_def)
  obtain r where row: "r \<in> set (st_rows (h_store demo_done))" "e_id (r_event r) = ''evt''" "e_command (r_event r) \<noteq> redacted_tainted"
  proof -
    have "\<exists>r \<in> set (st_rows (h_store demo_done)). e_id (r_event r) = ''evt'' \<and> e_command (r_event r) \<noteq> redacted_tainted"
      by code_simp
    then show thesis using that by blast
  qed
  have m: "em_model broken_embedder = ''m''" by (simp add: broken_embedder_def demo_embedder_def)
  note res = reindex_resumes [OF reach r1 same r2, unfolded m]
  have "meta_get db2 (e_id (r_event r)) = Some ''m''" using res row by blast
  then show ?thesis using r2 res row(2) by auto
qed

lemma reindex_loop_cong:
  "\<forall>p \<in> set ps. em_embed em (snd p) = em_embed em' (snd p) \<Longrightarrow> em_model em = em_model em' \<Longrightarrow>
     reindex_loop em vs ps db = reindex_loop em' vs ps db"
  by (induction em vs ps db rule: reindex_loop.induct)
     (auto simp: up_to_date_def drop_stale_def split: sum.split option.split)

text \<open>
  C11. A redacted event is never embedded, neither when it is written nor by reindexing: what the model
  answers for the redaction mark plays no role, and its row is as before.
\<close>

theorem tainted_never_embedded:
  "reindex (Some (em\<lparr>em_embed := (em_embed em)(redacted_tainted := x)\<rparr>)) vso st db = reindex (Some em) vso st db
   \<and> embed_and_store emo vso db (ev\<lparr>e_command := redacted_tainted\<rparr>) = db"
proof
  have "\<forall>p \<in> set (reindex_rows st). em_embed (em\<lparr>em_embed := (em_embed em)(redacted_tainted := x)\<rparr>) (snd p) = em_embed em (snd p)"
    by (auto simp: set_reindex_rows)
  from reindex_loop_cong [OF this]
  show "reindex (Some (em\<lparr>em_embed := (em_embed em)(redacted_tainted := x)\<rparr>)) vso st db = reindex (Some em) vso st db"
    by (auto simp: reindex_def split: option.split)
  show "embed_and_store emo vso db (ev\<lparr>e_command := redacted_tainted\<rparr>) = db"
    by (simp add: embed_and_store_def split: option.split)
qed

text \<open>
  Reindexing does not repair a lost collection. When the vectors are gone but the table of embedded
  events is still there, a run finds nothing to do, because \<open>HasEvent\<close> asks the table.
\<close>

theorem reindex_ignores_lost_vectors:
  assumes "distinct (map (\<lambda>r. e_id (r_event r)) (st_rows st))"
    and "reindex (Some em) (Some (chromem_store ch dim)) st db = (db', n, None)"
  shows "reindex (Some em) (Some (chromem_store ch dim)) st (db'\<lparr>vd_coll := c\<rparr>) = (db'\<lparr>vd_coll := c\<rparr>, 0, None)"
proof -
  let ?vs = "chromem_store ch dim"
  have opn: "st_open st" using assms(2) by (auto simp: reindex_def split: if_splits)
  then have "reindex_loop em ?vs (reindex_rows st) db = (db', n, None)" using assms(2) by (simp add: reindex_def)
  from chromem.reindex_loop_count [OF this distinct_reindex_rows [OF assms(1)]]
  have "\<forall>p \<in> set (reindex_rows st). up_to_date em ?vs db' (fst p)" by blast
  then have "\<forall>p \<in> set (reindex_rows st). up_to_date em ?vs (db'\<lparr>vd_coll := c\<rparr>) (fst p)"
    by (fastforce simp: up_to_date_def chromem_store_def chromem_has_def meta_get_def split: if_splits)
  from chromem.reindex_loop_fixpoint [OF this] show ?thesis using opn by (simp add: reindex_def)
qed

theorem reindex_ignores_lost_vectors_witness:
  "\<exists>db. reindex (Some demo_embedder) (Some (chromem_store list_chromem 1)) (h_store demo_done) empty_db = (db, 1, None)
     \<and> vd_coll db \<noteq> []
     \<and> reindex (Some demo_embedder) (Some (chromem_store list_chromem 1)) (h_store demo_done) (db\<lparr>vd_coll := []\<rparr>) = (db\<lparr>vd_coll := []\<rparr>, 0, None)"
proof -
  have "(case reindex (Some demo_embedder) (Some (chromem_store list_chromem 1)) (h_store demo_done) empty_db of
      (db, n, None) \<Rightarrow> n = 1 \<and> vd_coll db \<noteq> [] | _ \<Rightarrow> False)" by code_simp
  then obtain db where r: "reindex (Some demo_embedder) (Some (chromem_store list_chromem 1)) (h_store demo_done) empty_db = (db, 1, None)"
    "vd_coll db \<noteq> []"
    by (auto split: prod.splits option.splits)
  have "distinct (map (\<lambda>r. e_id (r_event r)) (st_rows (h_store demo_done)))" by code_simp
  from reindex_ignores_lost_vectors [OF this r(1)] r show ?thesis by blast
qed

end
