(* ===== verification/History_Queries.thy ===== *)
theory History_Queries
  imports Vector_Index
begin

text \<open>
  Reading the event log: \<open>List\<close>, \<open>Get\<close>, \<open>Search\<close> and \<open>Purge\<close> of \<^verbatim>\<open>shell/internal/history/search.go\<close>,
  the ranked searches of \<^verbatim>\<open>search_semantic.go\<close>, and the built-in \<open>history\<close> of
  \<^verbatim>\<open>shell/internal/shell/builtin_history.go\<close>. The full-text index, the embedding model, the vector
  index, the clock formats and the persona side table are parameters; the \<open>LIKE\<close> operator of SQL, on
  which the fall-back search rests, is written out.
\<close>

section \<open>List and Get\<close>

definition sane_limit :: "int \<Rightarrow> nat" where
  "sane_limit limit = (if limit \<le> 0 then 50 else nat limit)"

definition list_events :: "store \<Rightarrow> int \<Rightarrow> store_error + event list" where
  "list_events st limit =
     (if \<not> st_open st then Inl Store_closed
      else Inr (map r_event (take (sane_limit limit) (newest_first (st_rows st)))))"

definition event_with_id :: "store \<Rightarrow> string \<Rightarrow> event option" where
  "event_with_id st eid = map_option r_event (find (\<lambda>r. e_id (r_event r) = eid) (st_rows st))"

definition get_event :: "store \<Rightarrow> string \<Rightarrow> store_error + event option" where
  "get_event st eid =
     (if \<not> st_open st then Inl Store_closed else if eid = [] then Inl Empty_id else Inr (event_with_id st eid))"

section \<open>SQL's LIKE\<close>

text \<open>
  Patterns are read rune by rune with \<open>ESCAPE '\'\<close>; a pattern that ends in the escape character matches
  nothing. Letters are compared without regard to case, in the ASCII range only.
\<close>

datatype like_item = Any_run | Any_one | Lit rune

fun like_items :: "rune list \<Rightarrow> like_item list option" where
  "like_items [] = Some []"
| "like_items (r # rs) =
     (if r = 37 then map_option ((#) Any_run) (like_items rs)
      else if r = 95 then map_option ((#) Any_one) (like_items rs)
      else if r = 92 then (case rs of [] \<Rightarrow> None | x # xs \<Rightarrow> map_option ((#) (Lit x)) (like_items xs))
      else map_option ((#) (Lit r)) (like_items rs))"

definition ascii_fold :: "rune \<Rightarrow> rune" where
  "ascii_fold r = (if 65 \<le> r \<and> r \<le> 90 then r + 32 else r)"

fun like_match :: "like_item list \<Rightarrow> rune list \<Rightarrow> bool" where
  "like_match [] s = (s = [])"
| "like_match (Any_run # p) [] = like_match p []"
| "like_match (Any_run # p) (c # s) = (like_match p (c # s) \<or> like_match (Any_run # p) s)"
| "like_match (Any_one # p) [] = False"
| "like_match (Any_one # p) (c # s) = like_match p s"
| "like_match (Lit r # p) [] = False"
| "like_match (Lit r # p) (c # s) = (ascii_fold r = ascii_fold c \<and> like_match p s)"

definition sql_like :: "string \<Rightarrow> string \<Rightarrow> bool" where
  "sql_like pat s = (case like_items (runes_of pat) of None \<Rightarrow> False | Some p \<Rightarrow> like_match p (runes_of s))"

section \<open>Search\<close>

datatype search_error =
    Search_closed
  | Empty_query
  | No_vectors
  | Embed_failed string
  | No_vector
  | Vector_query_failed vec_error

definition like_pattern :: "string \<Rightarrow> string" where
  "like_pattern query =
     ''%'' @ replace_all (replace_all query ''%'' ([CHR 0x5C] @ ''%'')) ''_'' ([CHR 0x5C] @ ''_'') @ ''%''"

definition search_substring_fallback :: "store \<Rightarrow> string \<Rightarrow> nat \<Rightarrow> event list" where
  "search_substring_fallback st query limit =
     (let pat = like_pattern query
      in map r_event (take limit (newest_first
           (filter (\<lambda>r. sql_like pat (e_command (r_event r)) \<or> sql_like pat (e_name (r_event r))) (st_rows st)))))"

definition quote_fts_query :: "string \<Rightarrow> string" where
  "quote_fts_query q0 =
     (let q = trim_space q0
      in if contains_any q [CHR 0x22, CHR ''*'', CHR ''('', CHR '')'', CHR '':'', CHR 0x5E] then q
         else str_join '' '' (map (\<lambda>p. [CHR 0x22] @ replace_all p [CHR 0x22] [] @ [CHR 0x22]) (str_fields q)))"

text \<open>
  The full-text index: an expression is rejected, or selects rows by command and name.
\<close>

type_synonym full_text = "string \<Rightarrow> (string \<Rightarrow> string \<Rightarrow> bool) option"

definition search_events :: "full_text \<Rightarrow> store \<Rightarrow> string \<Rightarrow> int \<Rightarrow> search_error + event list" where
  "search_events fts st query limit =
     (if \<not> st_open st then Inl Search_closed
      else if trim_space query = [] then Inl Empty_query
      else
        (let n = sane_limit limit
         in case fts (quote_fts_query query) of
              None \<Rightarrow> Inr (search_substring_fallback st query n)
            | Some sel \<Rightarrow>
                (let hits = map r_event (take n (newest_first
                       (filter (\<lambda>r. sel (e_command (r_event r)) (e_name (r_event r))) (st_rows st))))
                 in Inr (if hits = [] then search_substring_fallback st query n else hits))))"

section \<open>Ranked search\<close>

text \<open>
  The scores are 64-bit floating-point numbers: \<open>recip n\<close> is \<open>1.0 / float64 n\<close>, \<open>add\<close> their addition
  and \<open>zero\<close> the score of an ID that is not yet in the map. \<open>sort.Slice\<close> sorts by descending score and
  then by first appearance, which is the stable sort of the IDs in the order they appeared.
\<close>

record 'f score_ops =
  so_zero :: 'f
  so_add :: "'f \<Rightarrow> 'f \<Rightarrow> 'f"
  so_recip :: "nat \<Rightarrow> 'f"

fun add_scores :: "'f score_ops \<Rightarrow> nat \<Rightarrow> nat \<Rightarrow> string list \<Rightarrow> (string \<rightharpoonup> 'f) \<Rightarrow> (string \<rightharpoonup> 'f)" where
  "add_scores so k i [] scores = scores"
| "add_scores so k i (x # xs) scores =
     add_scores so k (Suc i) xs
       (scores(x \<mapsto> so_add so (case scores x of Some v \<Rightarrow> v | None \<Rightarrow> so_zero so) (so_recip so (k + Suc i))))"

fun first_seen :: "string list \<Rightarrow> string list \<Rightarrow> string list" where
  "first_seen seen [] = seen"
| "first_seen seen (x # xs) = first_seen (if List.member seen x then seen else seen @ [x]) xs"

definition fused_score :: "'f score_ops \<Rightarrow> nat \<Rightarrow> string list \<Rightarrow> string list \<Rightarrow> string \<Rightarrow> 'f" where
  "fused_score so k fts vec x =
     (case add_scores so k 0 vec (add_scores so k 0 fts Map.empty) x of Some v \<Rightarrow> v | None \<Rightarrow> so_zero so)"

definition reciprocal_rank_fusion :: "('f :: linorder) score_ops \<Rightarrow> string list \<Rightarrow> string list \<Rightarrow> nat \<Rightarrow> string list" where
  "reciprocal_rank_fusion so fts vec k =
     rev (sort_key (fused_score so k fts vec) (rev (first_seen [] (fts @ vec))))"

definition load_events_by_id :: "store \<Rightarrow> string list \<Rightarrow> event list" where
  "load_events_by_id st ids = List.map_filter (event_with_id st) ids"

definition semantic_search ::
  "'v embedder option \<Rightarrow> ('c, 'v) vector_store option \<Rightarrow> 'c vec_db \<Rightarrow> store \<Rightarrow> string \<Rightarrow> int \<Rightarrow> search_error + event list" where
  "semantic_search emo vso db st query limit =
     (if \<not> st_open st then Inl Search_closed
      else if query = [] then Inl Empty_query
      else case (emo, vso) of
        (Some em, Some vs) \<Rightarrow>
          (case em_embed em query of
             Inl e \<Rightarrow> Inl (Embed_failed e)
           | Inr vecs \<Rightarrow>
               if length vecs \<noteq> 1 \<or> hd vecs = [] then Inl No_vector
               else (case vs_query vs db (hd vecs) (int (sane_limit limit)) of
                       Inl e \<Rightarrow> Inl (Vector_query_failed e)
                     | Inr hits \<Rightarrow> Inr (load_events_by_id st hits)))
      | _ \<Rightarrow> Inl No_vectors)"

definition hybrid_search ::
  "('f :: linorder) score_ops \<Rightarrow> full_text \<Rightarrow> 'v embedder option \<Rightarrow> ('c, 'v) vector_store option \<Rightarrow> 'c vec_db \<Rightarrow>
     store \<Rightarrow> string \<Rightarrow> int \<Rightarrow> search_error + event list" where
  "hybrid_search so fts emo vso db st query limit =
     (if \<not> st_open st then Inl Search_closed
      else if query = [] then Inl Empty_query
      else
        (let n = sane_limit limit
         in case search_events fts st query (int n) of
              Inl e \<Rightarrow> Inl e
            | Inr fts_hits \<Rightarrow>
                (case (emo, vso) of
                   (Some em, Some vs) \<Rightarrow>
                     (case em_embed em query of
                        Inl _ \<Rightarrow> Inr fts_hits
                      | Inr vecs \<Rightarrow>
                          if length vecs \<noteq> 1 \<or> hd vecs = [] then Inr fts_hits
                          else (case vs_query vs db (hd vecs) (int n) of
                                  Inl _ \<Rightarrow> Inr fts_hits
                                | Inr vec_ids \<Rightarrow>
                                    Inr (load_events_by_id st
                                      (take n (reciprocal_rank_fusion so (map e_id fts_hits) vec_ids 60)))))
                 | _ \<Rightarrow> Inr fts_hits)))"

section \<open>The built-in\<close>

text \<open>
  What the listing needs from outside: the local time of a time stamp in seconds and its full form,
  the persona recorded for an event, and \<open>time.Parse\<close>.
\<close>

record event_view =
  ev_time :: "nat \<Rightarrow> string"
  ev_time_full :: "nat \<Rightarrow> string"
  ev_persona :: "string \<Rightarrow> string option"
  ev_parse_time :: "string \<Rightarrow> nat option"

definition kind_name :: "kind \<Rightarrow> string" where
  "kind_name k = (case k of Pre_exec \<Rightarrow> ''pre-exec'' | Snapshot_event \<Rightarrow> ''snapshot'' | Checkpoint_event \<Rightarrow> ''checkpoint'')"

definition op_name :: "op \<Rightarrow> string" where
  "op_name x = (case x of Op_delete \<Rightarrow> ''delete'' | Op_skipped \<Rightarrow> ''skipped'' | Op_absent \<Rightarrow> ''absent''
     | Op_rename \<Rightarrow> ''rename'' | Op_modify \<Rightarrow> ''modify'')"

definition pad_right :: "nat \<Rightarrow> string \<Rightarrow> string" where
  "pad_right n s = s @ replicate (n - length s) (CHR '' '')"

definition event_persona_tag :: "event_view \<Rightarrow> string \<Rightarrow> string" where
  "event_persona_tag vw eid = (case ev_persona vw eid of Some name \<Rightarrow> name | None \<Rightarrow> ''?'')"

definition event_line :: "event_view \<Rightarrow> event \<Rightarrow> string" where
  "event_line vw e = ev_time vw (e_ts e) @ ''  '' @ pad_right 10 (kind_name (e_kind e)) @ ''  '' @ e_id e @ ''  ''
     @ e_command e @ ''  (persona='' @ event_persona_tag vw (e_id e) @ '')''"

definition affected_line :: "affected \<Rightarrow> string" where
  "affected_line a = ''  - '' @ a_path a @ ''  op='' @ op_name (a_op a)
     @ (if a_target a \<noteq> [] then ''  -> '' @ a_target a else [])
     @ (if a_skip a \<noteq> [] then ''  ('' @ a_skip a @ '')'' else [])
     @ (if 0 < a_bytes a then ''  bytes='' @ itoa (a_bytes a) else [])"

definition event_details :: "event_view \<Rightarrow> event \<Rightarrow> string list" where
  "event_details vw e =
     [''id:        '' @ e_id e, ''timestamp: '' @ ev_time_full vw (e_ts e), ''kind:      '' @ kind_name (e_kind e)]
     @ (if e_name e \<noteq> [] then [''name:      '' @ e_name e] else [])
     @ [''command:   '' @ e_command e]
     @ [''persona:   '' @ (let tag = event_persona_tag vw (e_id e) in if tag \<noteq> ''?'' then tag else ''(none recorded)'')]
     @ (if e_cwd e \<noteq> [] then [''cwd:       '' @ e_cwd e] else [])
     @ [''exit_code: '' @ (case e_exit e of Some c \<Rightarrow> itoa c | None \<Rightarrow> ''(in-flight)'')]
     @ (if 0 < e_ms e then [''duration:  '' @ itoa (int (e_ms e)) @ ''ms''] else [])
     @ (if e_signature e \<noteq> [] then [''signer:    '' @ e_signer e, ''signature: '' @ e_signature e]
        else [''signature: (unsigned)''])
     @ (if e_affected e \<noteq> [] then ''affected:'' # map affected_line (e_affected e) else [])"

text \<open>What the built-in writes: lines on stdout, or one of its messages.\<close>

datatype history_output =
    History_lines "string list"
  | History_missing
  | History_usage
  | Unknown_subcommand string
  | Sub_usage string
  | Invalid_count string
  | Store_failed string store_error
  | No_event string
  | Unknown_mode string
  | Search_failed search_error
  | Semantic_hint
  | No_matches
  | Invalid_time
  | Purged nat
  | Reindexed nat
  | Reindex_failed reindex_error
  | Rollback_output rollback_output

definition history_list :: "event_view \<Rightarrow> store \<Rightarrow> string list \<Rightarrow> int \<times> history_output" where
  "history_list vw st args =
     (case (case args of [] \<Rightarrow> Some 20
              | a # _ \<Rightarrow> (case atoi a of None \<Rightarrow> None | Some n \<Rightarrow> if n \<le> 0 then None else Some n)) of
        None \<Rightarrow> (2, Invalid_count (hd args))
      | Some limit \<Rightarrow>
          (case list_events st limit of
             Inl e \<Rightarrow> (1, Store_failed ''list'' e)
           | Inr [] \<Rightarrow> (0, History_lines [''(no history)''])
           | Inr evs \<Rightarrow> (0, History_lines (map (event_line vw) evs))))"

definition history_show :: "event_view \<Rightarrow> store \<Rightarrow> string list \<Rightarrow> int \<times> history_output" where
  "history_show vw st args =
     (case args of
        [eid] \<Rightarrow>
          (case get_event st eid of
             Inl e \<Rightarrow> (1, Store_failed ''show'' e)
           | Inr None \<Rightarrow> (1, No_event eid)
           | Inr (Some ev) \<Rightarrow> (0, History_lines (event_details vw ev)))
      | _ \<Rightarrow> (2, Sub_usage ''show''))"

text \<open>The modes of \<open>history search\<close>; the last \<open>--mode=\<close> counts.\<close>

definition search_mode :: "string list \<Rightarrow> string" where
  "search_mode args =
     fold (\<lambda>a mode. if has_prefix a ''--mode='' then trim_prefix a ''--mode='' else mode) args ''hybrid''"

definition search_words :: "string list \<Rightarrow> string list" where
  "search_words args = filter (\<lambda>a. \<not> has_prefix a ''--mode='') args"

definition history_search ::
  "event_view \<Rightarrow> ('f :: linorder) score_ops \<Rightarrow> full_text \<Rightarrow> 'v embedder option \<Rightarrow> ('c, 'v) vector_store option \<Rightarrow> 'c vec_db \<Rightarrow>
     store \<Rightarrow> string list \<Rightarrow> int \<times> history_output" where
  "history_search vw so fts emo vso db st args =
     (let mode = search_mode args; words = search_words args; query = str_join '' '' words
      in if words = [] then (2, Sub_usage ''search'')
         else if mode \<notin> {''keyword'', ''semantic'', ''hybrid''} then (2, Unknown_mode mode)
         else
           (case (if mode = ''keyword'' then search_events fts st query 50
                  else if mode = ''semantic'' then semantic_search emo vso db st query 50
                  else hybrid_search so fts emo vso db st query 50) of
              Inl e \<Rightarrow> (1, if mode = ''semantic'' \<and> e = No_vectors then Semantic_hint else Search_failed e)
            | Inr [] \<Rightarrow> (1, No_matches)
            | Inr evs \<Rightarrow> (0, History_lines (map (event_line vw) evs))))"

definition history_purge :: "event_view \<Rightarrow> history \<Rightarrow> string list \<Rightarrow> history \<times> int \<times> history_output" where
  "history_purge vw h args =
     (case args of
        [flag, time] \<Rightarrow>
          if flag \<noteq> ''--before'' then (h, 2, Sub_usage ''purge'')
          else (case ev_parse_time vw time of
                  None \<Rightarrow> (h, 2, Invalid_time)
                | Some ts \<Rightarrow>
                    (case purge (h_store h) ts of
                       Inl e \<Rightarrow> (h, 1, Store_failed ''purge'' e)
                     | Inr (st, n) \<Rightarrow> (h\<lparr>h_store := st\<rparr>, 0, Purged n)))
      | _ \<Rightarrow> (h, 2, Sub_usage ''purge''))"

definition history_reindex ::
  "'v embedder option \<Rightarrow> ('c, 'v) vector_store option \<Rightarrow> store \<Rightarrow> 'c vec_db \<Rightarrow> string list \<Rightarrow> 'c vec_db \<times> int \<times> history_output" where
  "history_reindex emo vso st db args =
     (if args \<noteq> [] then (db, 2, Sub_usage ''reindex'')
      else (case reindex emo vso st db of
              (db', n, Some e) \<Rightarrow> (db', 1, Reindex_failed e)
            | (db', n, None) \<Rightarrow> (db', 0, Reindexed n)))"

text \<open>
  \<open>historyBuiltin\<close>. The surroundings of the search are one argument; a new ID and the time are what
  \<open>NewEventID\<close> and \<open>time.Now\<close> return for a checkpoint.
\<close>

record ('c, 'v, 'f) history_env =
  he_view :: event_view
  he_scores :: "'f score_ops"
  he_full_text :: full_text
  he_embedder :: "'v embedder option"
  he_vectors :: "('c, 'v) vector_store option"

definition history_builtin ::
  "digests \<Rightarrow> ('c, 'v, 'f :: linorder) history_env \<Rightarrow> history \<Rightarrow> 'c vec_db \<Rightarrow> os_state \<Rightarrow> string list \<Rightarrow> string \<Rightarrow> nat \<Rightarrow>
     history \<times> 'c vec_db \<times> os_state \<times> int \<times> history_output" where
  "history_builtin dg he h db fs args new_id now =
     (let st = h_store h; quiet = (\<lambda>(code, out). (h, db, fs, code, out))
      in case args of
           [] \<Rightarrow> quiet (history_list (he_view he) st [])
         | sub # rest \<Rightarrow>
             if sub = ''list'' then quiet (history_list (he_view he) st rest)
             else if sub = ''show'' then quiet (history_show (he_view he) st rest)
             else if sub = ''search'' then
               quiet (history_search (he_view he) (he_scores he) (he_full_text he) (he_embedder he) (he_vectors he) db st rest)
             else if sub = ''purge'' then
               (case history_purge (he_view he) h rest of (h', code, out) \<Rightarrow> (h', db, fs, code, out))
             else if sub = ''checkpoint'' then
               (case history_checkpoint h rest new_id now of (h', code, out) \<Rightarrow> (h', db, fs, code, Rollback_output out))
             else if sub = ''rollback'' then
               (case history_rollback dg h fs rest of (fs', code, out) \<Rightarrow> (h, db, fs', code, Rollback_output out))
             else if sub = ''reindex'' then
               (case history_reindex (he_embedder he) (he_vectors he) st db rest of (db', code, out) \<Rightarrow> (h, db', fs, code, out))
             else if sub \<in> {''help'', ''-h'', ''--help''} then quiet (0, History_usage)
             else quiet (2, Unknown_subcommand sub))"

section \<open>The fall-back search is a substring search\<close>

definition contains_fold :: "string \<Rightarrow> string \<Rightarrow> bool" where
  "contains_fold q s \<longleftrightarrow> sublist (map ascii_fold (runes_of q)) (map ascii_fold (runes_of s))"

definition like_escape :: "rune list \<Rightarrow> rune list" where
  "like_escape rs = concat (map (\<lambda>r. if r = 37 \<or> r = 95 then [92, r] else [r]) rs)"

lemma like_items_escape:
  "92 \<notin> set rs \<Longrightarrow> like_items (like_escape rs @ tail) = map_option ((@) (map Lit rs)) (like_items tail)"
  by (induction rs) (auto simp: like_escape_def map_option_case split: option.split)

lemma replace_byte: "replace_all s [c] new = concat (map (\<lambda>x. if x = c then new else [x]) s)"
  by (induction s) auto

lemma like_items_percent: "like_items (37 # rs) = map_option ((#) Any_run) (like_items rs)"
  by simp

lemma special_codes:
  "of_char x = (37 :: nat) \<longleftrightarrow> x = CHR ''%''" "of_char x = (95 :: nat) \<longleftrightarrow> x = CHR ''_''" "of_char x = (92 :: nat) \<longleftrightarrow> x = CHR 0x5C"
  using of_char_eq_iff [of x "CHR ''%''", where 'a = nat] of_char_eq_iff [of x "CHR ''_''", where 'a = nat]
    of_char_eq_iff [of x "CHR 0x5C", where 'a = nat] by simp_all

lemma backslash_code: "CHR 0x5C \<notin> set s \<Longrightarrow> 92 \<notin> set (map of_char s :: rune list)"
  by (induction s) (auto simp: special_codes eq_commute [of 92])

lemma map_append_split: "map f xs = ys @ zs \<Longrightarrow> \<exists>us vs. xs = us @ vs \<and> map f us = ys \<and> map f vs = zs"
  by (metis map_eq_append_conv)

lemma like_pattern_runes:
  assumes "ascii q"
  shows "runes_of (like_pattern q) = 37 # like_escape (map of_char q) @ [37]"
proof -
  let ?e = "concat (map (\<lambda>x. if x = CHR ''%'' \<or> x = CHR ''_'' then [CHR 0x5C, x] else [x]) q)"
  have "replace_all (replace_all q ''%'' ([CHR 0x5C] @ ''%'')) ''_'' ([CHR 0x5C] @ ''_'') = ?e"
    by (induction q) (auto simp: replace_byte)
  then have pat: "like_pattern q = ''%'' @ ?e @ ''%''" by (simp add: like_pattern_def)
  have "map of_char ?e = like_escape (map of_char q)"
    by (induction q) (auto simp: like_escape_def special_codes)
  moreover have "ascii ?e" using assms by (induction q) (auto simp: ascii_def)
  then have "ascii (like_pattern q)" unfolding pat by (simp add: ascii_def)
  ultimately show ?thesis by (simp add: pat runes_of_ascii del: runes_of.simps)
qed

lemma like_match_lits:
  "like_match (map Lit rs @ p) s \<longleftrightarrow> (\<exists>m t. s = m @ t \<and> map ascii_fold m = map ascii_fold rs \<and> like_match p t)"
proof (induction rs arbitrary: s)
  case (Cons r rs)
  show ?case
  proof (cases s)
    case (Cons c s')
    have "like_match (map Lit (r # rs) @ p) s \<longleftrightarrow> ascii_fold r = ascii_fold c
        \<and> (\<exists>m t. s' = m @ t \<and> map ascii_fold m = map ascii_fold rs \<and> like_match p t)"
      using Cons.IH by (simp add: \<open>s = c # s'\<close>)
    also have "\<dots> \<longleftrightarrow> (\<exists>m t. s = m @ t \<and> map ascii_fold m = map ascii_fold (r # rs) \<and> like_match p t)"
      unfolding \<open>s = c # s'\<close> by (auto simp: Cons_eq_append_conv) (metis append_Cons list.simps(9))
    finally show ?thesis .
  qed simp
qed simp

lemma like_match_run: "like_match (Any_run # p) s \<longleftrightarrow> (\<exists>a t. s = a @ t \<and> like_match p t)"
proof (induction s)
  case (Cons c s)
  then show ?case by (auto simp: Cons_eq_append_conv)
qed simp

lemma like_match_any_run: "like_match [Any_run] s"
  by (induction s) auto

lemma like_contains: "like_match (Any_run # map Lit rs @ [Any_run]) s \<longleftrightarrow> sublist (map ascii_fold rs) (map ascii_fold s)"
proof -
  have "like_match (Any_run # map Lit rs @ [Any_run]) s \<longleftrightarrow> (\<exists>a m t. s = a @ m @ t \<and> map ascii_fold m = map ascii_fold rs)"
    by (auto simp: like_match_run like_match_lits like_match_any_run)
  also have "\<dots> \<longleftrightarrow> sublist (map ascii_fold rs) (map ascii_fold s)"
  proof
    assume "\<exists>a m t. s = a @ m @ t \<and> map ascii_fold m = map ascii_fold rs"
    then obtain a m t where "s = a @ m @ t" "map ascii_fold m = map ascii_fold rs" by blast
    then have "map ascii_fold s = map ascii_fold a @ map ascii_fold rs @ map ascii_fold t" by simp
    then show "sublist (map ascii_fold rs) (map ascii_fold s)" unfolding sublist_def by blast
  next
    assume "sublist (map ascii_fold rs) (map ascii_fold s)"
    then obtain ps ss where "map ascii_fold s = ps @ map ascii_fold rs @ ss" unfolding sublist_def by blast
    then obtain a s' where 1: "s = a @ s'" "map ascii_fold s' = map ascii_fold rs @ ss" using map_append_split by blast
    from 1(2) obtain m t where "s' = m @ t" "map ascii_fold m = map ascii_fold rs" using map_append_split by blast
    with 1(1) show "\<exists>a m t. s = a @ m @ t \<and> map ascii_fold m = map ascii_fold rs" by blast
  qed
  finally show ?thesis .
qed

lemma like_ends: "like_match (Any_run # map Lit rs) s \<longleftrightarrow> suffix (map ascii_fold rs) (map ascii_fold s)"
proof -
  have "like_match (Any_run # map Lit rs) s \<longleftrightarrow> (\<exists>a m. s = a @ m \<and> map ascii_fold m = map ascii_fold rs)"
    using like_match_lits [of rs "[]"] by (simp add: like_match_run)
  also have "\<dots> \<longleftrightarrow> suffix (map ascii_fold rs) (map ascii_fold s)"
  proof
    assume "\<exists>a m. s = a @ m \<and> map ascii_fold m = map ascii_fold rs"
    then show "suffix (map ascii_fold rs) (map ascii_fold s)" unfolding suffix_def by (metis map_append)
  next
    assume "suffix (map ascii_fold rs) (map ascii_fold s)"
    then obtain ps where "map ascii_fold s = ps @ map ascii_fold rs" unfolding suffix_def by blast
    then show "\<exists>a m. s = a @ m \<and> map ascii_fold m = map ascii_fold rs" using map_append_split by blast
  qed
  finally show ?thesis .
qed

lemma sql_like_contains:
  assumes "ascii q" "CHR 0x5C \<notin> set q"
  shows "sql_like (like_pattern q) s \<longleftrightarrow> contains_fold q s"
proof -
  have "92 \<notin> set (map of_char q :: rune list)" using assms(2) by (rule backslash_code)
  then have "like_items (runes_of (like_pattern q)) = Some (Any_run # map Lit (map of_char q) @ [Any_run])"
    unfolding like_pattern_runes [OF assms(1)] like_items_percent using like_items_escape [of "map of_char q" "[37]"] by simp
  then show ?thesis
    unfolding sql_like_def contains_fold_def runes_of_ascii [OF assms(1)] by (simp only: option.case like_contains)
qed

text \<open>
  C12. The fall-back of the search finds what it is meant to find, for ASCII queries without a backslash: the
  newest events whose command or name contains the query, read without wild cards and without
  regard to the case of ASCII letters.
\<close>

theorem fallback_is_substring_search:
  assumes "ascii q" "CHR 0x5C \<notin> set q"
  shows "search_substring_fallback st q n = map r_event (take n (newest_first
    (filter (\<lambda>r. contains_fold q (e_command (r_event r)) \<or> contains_fold q (e_name (r_event r))) (st_rows st))))"
  by (simp add: search_substring_fallback_def sql_like_contains [OF assms])

text \<open>
  A backslash in the query is not escaped. Before an ordinary character it is lost, so the search finds
  the query without it; at the end it takes the closing wild card with it, so the search finds only
  commands that end in the query and a percent sign.
\<close>

theorem fallback_backslash:
  assumes "ascii (a @ [x] @ b)" "CHR 0x5C \<notin> set (a @ [x] @ b)" "x \<notin> {CHR ''%'', CHR ''_''}"
  shows "(sql_like (like_pattern (a @ [CHR 0x5C, x] @ b)) s \<longleftrightarrow> contains_fold (a @ [x] @ b) s)
    \<and> (sql_like (like_pattern (a @ [x, CHR 0x5C])) s
         \<longleftrightarrow> suffix (map ascii_fold (map of_char (a @ [x, CHR ''%'']))) (map ascii_fold (runes_of s)))"
proof
  let ?r = "map of_char :: string \<Rightarrow> rune list"
  have esc: "like_escape (us @ vs) = like_escape us @ like_escape vs" for us vs by (simp add: like_escape_def)
  have nb: "92 \<notin> set (?r a)" "92 \<notin> set (?r [x])" "92 \<notin> set (?r b)"
    using assms(2) backslash_code [of a] backslash_code [of "[x]"] backslash_code [of b] by auto
  have x: "like_escape (of_char x # rs) = of_char x # like_escape rs" for rs
    using assms(3) special_codes by (simp add: like_escape_def)
  have bs: "like_escape (92 # rs) = 92 # like_escape rs" for rs by (simp add: like_escape_def)
  have nil: "like_escape [] = []" by (simp add: like_escape_def)
  have asc: "ascii (a @ [CHR 0x5C, x] @ b)" "ascii (a @ [x, CHR 0x5C])" "ascii (a @ [x] @ b)" using assms(1) by (auto simp: ascii_def)
  have "like_items (runes_of (like_pattern (a @ [CHR 0x5C, x] @ b))) = Some (Any_run # map Lit (?r (a @ [x] @ b)) @ [Any_run])"
    unfolding like_pattern_runes [OF asc(1)] like_items_percent
    using like_items_escape [OF nb(1)] like_items_escape [OF nb(3)] by (simp add: esc x bs)
  then show "sql_like (like_pattern (a @ [CHR 0x5C, x] @ b)) s \<longleftrightarrow> contains_fold (a @ [x] @ b) s"
    unfolding sql_like_def contains_fold_def runes_of_ascii [OF asc(3)] by (simp only: option.case like_contains)
  have "92 \<notin> set (?r (a @ [x]))" using nb by simp
  note end_escape = like_items_escape [OF this, of "92 # [37]"]
  have "like_items (runes_of (like_pattern (a @ [x, CHR 0x5C]))) = Some (Any_run # map Lit (?r (a @ [x]) @ [37]))"
    unfolding like_pattern_runes [OF asc(2)] like_items_percent using end_escape by (simp add: esc x bs nil)
  moreover have "?r (a @ [x, CHR ''%'']) = ?r (a @ [x]) @ [37]" by simp
  ultimately show "sql_like (like_pattern (a @ [x, CHR 0x5C])) s
      \<longleftrightarrow> suffix (map ascii_fold (map of_char (a @ [x, CHR ''%'']))) (map ascii_fold (runes_of s))"
    unfolding sql_like_def by (simp only: option.case like_ends)
qed

theorem fallback_is_substring_search_witness:
  "search_substring_fallback (h_store demo_done) ''M F'' 5 = map r_event (st_rows (h_store demo_done))"
proof -
  have q: "ascii ''M F''" "CHR 0x5C \<notin> set ''M F''" by code_simp+
  have "filter (\<lambda>r. contains_fold ''M F'' (e_command (r_event r)) \<or> contains_fold ''M F'' (e_name (r_event r)))
      (st_rows (h_store demo_done)) = st_rows (h_store demo_done)"
    unfolding filter_id_conv by code_simp
  moreover have "length (st_rows (h_store demo_done)) = 1" by code_simp
  then obtain r where "st_rows (h_store demo_done) = [r]" by (auto simp: length_Suc_conv)
  ultimately show ?thesis using fallback_is_substring_search [OF q, of "h_store demo_done" 5] by (simp add: newest_first_def)
qed

theorem fallback_backslash_witness:
  "sql_like (like_pattern [CHR ''C'', CHR 0x5C, CHR ''U'']) ''rm CU'' \<and> \<not> sql_like (like_pattern [CHR ''C'', CHR ''U'', CHR 0x5C]) ''rm CU''"
proof -
  have "ascii (''C'' @ [CHR ''U''] @ [])" "CHR 0x5C \<notin> set (''C'' @ [CHR ''U''] @ [])" "CHR ''U'' \<notin> {CHR ''%'', CHR ''_''}"
    by code_simp+
  note f = fallback_backslash [OF this, of "''rm CU''"]
  have c: "contains_fold (''C'' @ [CHR ''U''] @ []) ''rm CU''" by code_simp
  have n: "\<not> suffix (map ascii_fold (map of_char (''C'' @ [CHR ''U'', CHR ''%'']))) (map ascii_fold (runes_of ''rm CU''))"
    by code_simp
  show ?thesis using f c n by simp
qed

section \<open>Rank fusion\<close>

definition precedes :: "'a list \<Rightarrow> 'a \<Rightarrow> 'a \<Rightarrow> bool" where
  "precedes xs a b \<longleftrightarrow> (\<exists>us vs ws. xs = us @ a # vs @ b # ws)"

lemma precedes_nth: "precedes xs a b \<longleftrightarrow> (\<exists>i j. i < j \<and> j < length xs \<and> xs ! i = a \<and> xs ! j = b)"
proof
  assume "precedes xs a b"
  then obtain us vs ws where xs: "xs = us @ a # vs @ b # ws" by (auto simp: precedes_def)
  show "\<exists>i j. i < j \<and> j < length xs \<and> xs ! i = a \<and> xs ! j = b"
    by (rule exI [of _ "length us"], rule exI [of _ "Suc (length us + length vs)"]) (simp add: xs nth_append)
next
  assume "\<exists>i j. i < j \<and> j < length xs \<and> xs ! i = a \<and> xs ! j = b"
  then obtain i j where ij: "i < j" "j < length xs" "xs ! i = a" "xs ! j = b" by blast
  have "xs = take i xs @ xs ! i # drop (Suc i) xs" by (rule id_take_nth_drop) (use ij in simp)
  also have "drop (Suc i) xs = take (j - Suc i) (drop (Suc i) xs) @ drop (Suc i) xs ! (j - Suc i) # drop (Suc (j - Suc i)) (drop (Suc i) xs)"
    using ij by (intro id_take_nth_drop) simp
  also have "drop (Suc i) xs ! (j - Suc i) = b" using ij by simp
  finally show "precedes xs a b" unfolding precedes_def ij(3) by blast
qed

lemma precedes_filter:
  assumes "distinct xs" "precedes xs a b"
  shows "filter (\<lambda>x. x = a \<or> x = b) xs = [a, b]"
proof -
  obtain us vs ws where xs: "xs = us @ a # vs @ b # ws" using assms(2) by (auto simp: precedes_def)
  have "filter (\<lambda>x. x = a \<or> x = b) us = []" "filter (\<lambda>x. x = a \<or> x = b) vs = []" "filter (\<lambda>x. x = a \<or> x = b) ws = []"
    using assms(1) xs by (auto simp: filter_empty_conv)
  then show ?thesis by (simp add: xs)
qed

lemma filter_precedes: "filter P xs = [a, b] \<Longrightarrow> precedes xs a b"
proof -
  assume "filter P xs = [a, b]"
  then obtain us vs where 1: "xs = us @ a # vs" "filter P vs = [b]" by (auto dest!: filter_eq_ConsD)
  from 1(2) obtain us' ws where "vs = us' @ b # ws" by (auto dest!: filter_eq_ConsD)
  with 1(1) show "precedes xs a b" unfolding precedes_def by blast
qed

lemma stable_descending:
  fixes f :: "'a \<Rightarrow> 'b :: linorder"
  assumes "distinct xs" "precedes xs a b" "f b \<le> f a"
  shows "precedes (rev (sort_key f (rev xs))) a b"
proof (rule filter_precedes)
  let ?P = "\<lambda>x. x = a \<or> x = b"
  have "filter ?P (rev (sort_key f (rev xs))) = rev (sort_key f (rev (filter ?P xs)))"
    by (simp only: rev_filter [symmetric] filter_sort)
  also have "\<dots> = [a, b]" using assms by (simp add: precedes_filter)
  finally show "filter ?P (rev (sort_key f (rev xs))) = [a, b]" .
qed

lemma first_seen_append:
  "distinct seen \<Longrightarrow> \<exists>new. first_seen seen xs = seen @ new \<and> set new = set xs - set seen \<and> distinct (seen @ new)"
proof (induction xs arbitrary: seen)
  case (Cons x xs)
  show ?case
  proof (cases "x \<in> set seen")
    case True
    then show ?thesis using Cons.IH [OF Cons.prems] by (auto simp: List.member_iff)
  next
    case False
    then have "distinct (seen @ [x])" using Cons.prems by simp
    from Cons.IH [OF this] False show ?thesis by (auto simp: List.member_iff)
  qed
qed simp

lemma first_seen_distinct: "distinct xs \<Longrightarrow> set xs \<inter> set seen = {} \<Longrightarrow> first_seen seen (xs @ ys) = first_seen (seen @ xs) ys"
  by (induction xs arbitrary: seen) (auto simp: List.member_iff)

lemma add_scores_other: "x \<notin> set xs \<Longrightarrow> add_scores so k i xs sc x = sc x"
  by (induction xs arbitrary: i sc) auto

lemma add_scores_nth:
  "distinct xs \<Longrightarrow> j < length xs \<Longrightarrow> add_scores so k i xs sc (xs ! j)
     = Some (so_add so (case sc (xs ! j) of Some v \<Rightarrow> v | None \<Rightarrow> so_zero so) (so_recip so (k + Suc (i + j))))"
proof (induction xs arbitrary: i j sc)
  case (Cons x xs)
  show ?case
  proof (cases j)
    case 0
    then show ?thesis using Cons.prems by (simp add: add_scores_other)
  next
    case (Suc j')
    moreover have "xs ! j' \<noteq> x" using Cons.prems Suc by (metis Suc_less_eq distinct.simps(2) length_Cons nth_mem)
    ultimately show ?thesis using Cons.IH [of j' "Suc i"] Cons.prems by simp
  qed
qed simp

lemma fused_score_nth:
  assumes "distinct fts" "distinct vec" "i < length fts" "j < length vec" "vec ! j = fts ! i"
  shows "fused_score so k fts vec (fts ! i) = so_add so (so_add so (so_zero so) (so_recip so (k + Suc i))) (so_recip so (k + Suc j))"
  using add_scores_nth [OF assms(1,3), of so k 0 Map.empty]
    add_scores_nth [OF assms(2,4), of so k 0 "add_scores so k 0 fts Map.empty"] assms(5)
  by (simp add: fused_score_def)

text \<open>
  C13. Rank fusion keeps what both rankings agree on: the result lists the IDs of both lists, each once, and an
  ID that stands before another one in both stands before it in the result. All that is used of
  floating-point arithmetic is that addition and the reciprocal are monotone.
\<close>

theorem fusion_respects_agreement:
  assumes "distinct fts" "distinct vec"
    and "\<And>x x' y y'. x \<le> x' \<Longrightarrow> y \<le> y' \<Longrightarrow> so_add so x y \<le> so_add so x' y'" "\<And>m n. m \<le> n \<Longrightarrow> so_recip so n \<le> so_recip so m"
  shows "set (reciprocal_rank_fusion so fts vec k) = set fts \<union> set vec \<and> distinct (reciprocal_rank_fusion so fts vec k)
    \<and> (precedes fts a b \<longrightarrow> precedes vec a b \<longrightarrow> precedes (reciprocal_rank_fusion so fts vec k) a b)"
proof -
  obtain new where new: "first_seen [] (fts @ vec) = fts @ new" "set new = set vec - set fts" "distinct (fts @ new)"
    using first_seen_append [of fts vec] first_seen_distinct [OF assms(1), of "[]" vec] assms(1) by auto
  have "precedes (reciprocal_rank_fusion so fts vec k) a b" if p: "precedes fts a b" "precedes vec a b"
  proof -
    obtain i i' where i: "i < i'" "i' < length fts" "fts ! i = a" "fts ! i' = b" using p(1) by (auto simp: precedes_nth)
    obtain j j' where j: "j < j'" "j' < length vec" "vec ! j = a" "vec ! j' = b" using p(2) by (auto simp: precedes_nth)
    have "fused_score so k fts vec b \<le> fused_score so k fts vec a"
      using fused_score_nth [OF assms(1,2), of i j so k] fused_score_nth [OF assms(1,2), of i' j' so k] i j
      by (simp add: assms(3,4))
    moreover have "precedes (fts @ new) a b" using p(1) unfolding precedes_def by (metis append.assoc append_Cons)
    ultimately show ?thesis unfolding reciprocal_rank_fusion_def new(1) by (intro stable_descending new(3))
  qed
  then show ?thesis using new by (auto simp: reciprocal_rank_fusion_def)
qed

definition int_scores :: "int score_ops" where
  "int_scores = \<lparr>so_zero = 0, so_add = (+), so_recip = (\<lambda>n. - int n)\<rparr>"

theorem fusion_respects_agreement_witness:
  "precedes (reciprocal_rank_fusion int_scores [''a'', ''b'', ''c''] [''d'', ''a'', ''c''] 60) ''a'' ''c''"
proof -
  have "distinct [''a'', ''b'', ''c'']" "distinct [''d'', ''a'', ''c'']" by code_simp+
  moreover have "precedes [''a'', ''b'', ''c''] ''a'' ''c''" "precedes [''d'', ''a'', ''c''] ''a'' ''c''"
    unfolding precedes_nth by (rule exI [of _ 0], rule exI [of _ 2], simp) (rule exI [of _ 1], rule exI [of _ 2], simp)
  ultimately show ?thesis
    using fusion_respects_agreement [of "[''a'', ''b'', ''c'']" "[''d'', ''a'', ''c'']" int_scores 60 "''a''" "''c''"]
    by (simp add: int_scores_def)
qed

end
