(* ===== verification/Env.thy ===== *)
theory Env
  imports Go_Strings
begin

text \<open>
  \<^verbatim>\<open>shell/internal/env/env.go\<close>: the shell's variable table and the \<open>$\<close>-expansion of an input
  line. The table is the \<open>os.Environ\<close>-shaped list of \<open>KEY=VALUE\<close> entries the code keeps;
  \<open>env_abs\<close> reads it as a finite map. The interface the rest of the shell uses (get, set,
  unset) is the locale \<open>var_store\<close>, interpreted on the code's list at the end of the first
  section. The second section is \<open>Expand\<close>, its specification by templates, and the proof
  that the fast path agrees with the general loop.
\<close>

section \<open>The variable table\<close>

record env =
  vars :: "string list"

definition env_new :: env where
  "env_new = \<lparr>vars = []\<rparr>"

text \<open>\<open>Set\<close>: the loop over \<open>e.vars\<close> that replaces the first entry with the prefix, or appends.\<close>

fun set_entry :: "string \<Rightarrow> string \<Rightarrow> string list \<Rightarrow> string list" where
  "set_entry pre value [] = [pre @ value]"
| "set_entry pre value (kv # kvs) =
     (if has_prefix kv pre then (pre @ value) # kvs else kv # set_entry pre value kvs)"

definition env_set :: "env \<Rightarrow> string \<Rightarrow> string \<Rightarrow> env result" where
  "env_set e name value =
     (if name = [] then Inl ''env: empty variable name''
      else Inr (e\<lparr>vars := set_entry (name @ ''='') value (vars e)\<rparr>))"

fun get_entry :: "string \<Rightarrow> string list \<Rightarrow> string option" where
  "get_entry pre [] = None"
| "get_entry pre (kv # kvs) =
     (if has_prefix kv pre then Some (drop (length pre) kv) else get_entry pre kvs)"

definition env_get :: "env \<Rightarrow> string \<Rightarrow> string option" where
  "env_get e name = (if name = [] then None else get_entry (name @ ''='') (vars e))"

text \<open>\<open>homeDir\<close> of the shell.\<close>

definition home_dir :: "env \<Rightarrow> string" where
  "home_dir e =
     (case env_get e ''HOME'' of
        Some (c # h) \<Rightarrow> c # h
      | _ \<Rightarrow> (case env_get e ''USERPROFILE'' of Some (c # h) \<Rightarrow> c # h | _ \<Rightarrow> []))"

fun unset_entry :: "string \<Rightarrow> string list \<Rightarrow> string list" where
  "unset_entry pre [] = []"
| "unset_entry pre (kv # kvs) = (if has_prefix kv pre then kvs else kv # unset_entry pre kvs)"

definition env_unset :: "env \<Rightarrow> string \<Rightarrow> env" where
  "env_unset e name =
     (if name = [] then e else e\<lparr>vars := unset_entry (name @ ''='') (vars e)\<rparr>)"

text \<open>\<open>Environ\<close> returns a copy of the entries (a nil slice for none).\<close>

definition environ :: "env \<Rightarrow> string list" where
  "environ e = vars e"

text \<open>
  \<open>FromSlice\<close>: entries without \<open>=\<close>, or with an empty key, are skipped; the others go through
  \<open>Set\<close>, whose error is discarded.
\<close>

fun from_slice_loop :: "env \<Rightarrow> string list \<Rightarrow> env" where
  "from_slice_loop e [] = e"
| "from_slice_loop e (kv # kvs) =
     (case index_of kv ''='' of
        None \<Rightarrow> from_slice_loop e kvs
      | Some eq \<Rightarrow>
          if eq = 0 then from_slice_loop e kvs
          else (case env_set e (take eq kv) (drop (eq + 1) kv) of
                  Inl _ \<Rightarrow> from_slice_loop e kvs
                | Inr e' \<Rightarrow> from_slice_loop e' kvs))"

definition from_slice :: "string list \<Rightarrow> env" where
  "from_slice initial = from_slice_loop env_new initial"

subsection \<open>The table as a map\<close>

definition valid_name :: "string \<Rightarrow> bool" where
  "valid_name n \<longleftrightarrow> n \<noteq> [] \<and> CHR ''='' \<notin> set n"

definition entry_key :: "string \<Rightarrow> string" where
  "entry_key kv = takeWhile (\<lambda>c. c \<noteq> CHR ''='') kv"

definition entry_val :: "string \<Rightarrow> string" where
  "entry_val kv = drop 1 (dropWhile (\<lambda>c. c \<noteq> CHR ''='') kv)"

definition entry_ok :: "string \<Rightarrow> bool" where
  "entry_ok kv \<longleftrightarrow> entry_key kv \<noteq> [] \<and> CHR ''='' \<in> set kv"

definition env_inv :: "env \<Rightarrow> bool" where
  "env_inv e \<longleftrightarrow> list_all entry_ok (vars e) \<and> distinct (map entry_key (vars e))"

definition bindings :: "string list \<Rightarrow> (string \<times> string) list" where
  "bindings kvs = map (\<lambda>kv. (entry_key kv, entry_val kv)) kvs"

definition env_abs :: "env \<Rightarrow> string \<Rightarrow> string option" where
  "env_abs e = map_of (bindings (vars e))"

lemma entry_split: "entry_ok kv \<Longrightarrow> kv = entry_key kv @ CHR ''='' # entry_val kv"
proof -
  assume "entry_ok kv"
  then have "dropWhile (\<lambda>c. c \<noteq> CHR ''='') kv \<noteq> []"
    by (auto simp: entry_ok_def dropWhile_eq_Nil_conv)
  then obtain c cs where c: "dropWhile (\<lambda>c. c \<noteq> CHR ''='') kv = c # cs"
    by (meson neq_Nil_conv)
  then have "c = CHR ''=''" using dropWhile_Cons_hd by fastforce
  with c show ?thesis
    by (metis drop0 drop_Suc_Cons entry_key_def entry_val_def One_nat_def takeWhile_dropWhile_id)
qed

lemma valid_entry_key: "entry_ok kv \<Longrightarrow> valid_name (entry_key kv)"
  by (auto simp: entry_ok_def valid_name_def entry_key_def dest: set_takeWhileD)

lemma has_prefix_iff_key: "valid_name n \<Longrightarrow> entry_ok kv \<Longrightarrow> has_prefix kv (n @ ''='') \<longleftrightarrow> entry_key kv = n"
proof
  assume n: "valid_name n" and kv: "entry_ok kv"
  show "entry_key kv = n" if "has_prefix kv (n @ ''='')"
    using that n by (auto simp: entry_key_def valid_name_def prefix_def takeWhile_append2)
  show "has_prefix kv (n @ ''='')" if "entry_key kv = n"
    using entry_split [OF kv] that by (metis append.assoc append_Cons append_Nil prefixI)
qed

lemma entry_make [simp]:
  "valid_name n \<Longrightarrow> entry_key (n @ CHR ''='' # v) = n"
  "valid_name n \<Longrightarrow> entry_val (n @ CHR ''='' # v) = v"
  "valid_name n \<Longrightarrow> entry_ok (n @ CHR ''='' # v)"
  by (auto simp: entry_key_def entry_val_def entry_ok_def valid_name_def takeWhile_append2)

lemma get_entry_map_of:
  "valid_name n \<Longrightarrow> list_all entry_ok kvs \<Longrightarrow> get_entry (n @ ''='') kvs = map_of (bindings kvs) n"
proof (induction kvs)
  case Nil
  then show ?case by (simp add: bindings_def)
next
  case (Cons kv kvs)
  then have "has_prefix kv (n @ ''='') \<longleftrightarrow> entry_key kv = n" by (simp add: has_prefix_iff_key)
  moreover have "drop (Suc (length n)) kv = entry_val kv" if "entry_key kv = n"
    using entry_split [of kv] Cons.prems that
    by (metis append_eq_conv_conj drop_Suc list.sel(3) list.pred_inject(2) tl_drop)
  ultimately show ?case using Cons by (auto simp: bindings_def)
qed

lemma set_entry_bindings:
  "valid_name n \<Longrightarrow> list_all entry_ok kvs \<Longrightarrow>
     list_all entry_ok (set_entry (n @ ''='') v kvs) \<and>
     map_of (bindings (set_entry (n @ ''='') v kvs)) = (map_of (bindings kvs))(n \<mapsto> v) \<and>
     entry_key ` set (set_entry (n @ ''='') v kvs) = insert n (entry_key ` set kvs)"
  by (induction kvs) (auto simp: bindings_def has_prefix_iff_key fun_eq_iff)

lemma set_entry_distinct:
  "valid_name n \<Longrightarrow> list_all entry_ok kvs \<Longrightarrow> distinct (map entry_key kvs) \<Longrightarrow>
     distinct (map entry_key (set_entry (n @ ''='') v kvs))"
proof (induction kvs)
  case Nil
  then show ?case by simp
next
  case (Cons kv kvs)
  then show ?case
    using set_entry_bindings [of n kvs v] by (auto simp: has_prefix_iff_key)
qed

lemma unset_entry_bindings:
  "valid_name n \<Longrightarrow> list_all entry_ok kvs \<Longrightarrow> distinct (map entry_key kvs) \<Longrightarrow>
     list_all entry_ok (unset_entry (n @ ''='') kvs) \<and>
     distinct (map entry_key (unset_entry (n @ ''='') kvs)) \<and>
     set (unset_entry (n @ ''='') kvs) \<subseteq> set kvs \<and>
     map_of (bindings (unset_entry (n @ ''='') kvs)) = (map_of (bindings kvs))(n := None)"
proof (induction kvs)
  case Nil
  then show ?case by (simp add: bindings_def)
next
  case (Cons kv kvs)
  have "map_of (bindings kvs) (entry_key kv) = None"
    using Cons.prems(3) by (force simp: bindings_def map_of_eq_None_iff)
  with Cons show ?case by (auto simp: bindings_def has_prefix_iff_key fun_eq_iff)
qed

lemma env_inv_new [simp]: "env_inv env_new"
  by (simp add: env_inv_def env_new_def)

lemma env_get_abs: "env_inv e \<Longrightarrow> valid_name n \<Longrightarrow> env_get e n = env_abs e n"
  by (auto simp: env_get_def env_abs_def env_inv_def get_entry_map_of [simplified] valid_name_def)

lemma env_set_abs:
  "env_inv e \<Longrightarrow> valid_name n \<Longrightarrow>
     \<exists>e'. env_set e n v = Inr e' \<and> env_inv e' \<and> env_abs e' = (env_abs e)(n \<mapsto> v)"
  using set_entry_bindings [of n "vars e" v] set_entry_distinct [of n "vars e" v]
  by (auto simp: env_set_def env_inv_def env_abs_def valid_name_def)

lemma env_unset_abs:
  "env_inv e \<Longrightarrow> valid_name n \<Longrightarrow>
     env_inv (env_unset e n) \<and> env_abs (env_unset e n) = (env_abs e)(n := None)"
  using unset_entry_bindings [of n "vars e"]
  by (auto simp: env_unset_def env_inv_def env_abs_def valid_name_def)

subsection \<open>The interface: a store of named variables\<close>

text \<open>
  What the shell relies on when it calls \<open>Get\<close>, \<open>Set\<close> and \<open>Unset\<close>: on names the store
  accepts, the operations behave as lookup, update and deletion of one finite map.
\<close>

locale var_store =
  fixes start :: "'s"
    and get_v :: "'s \<Rightarrow> string \<Rightarrow> string option"
    and set_v :: "'s \<Rightarrow> string \<Rightarrow> string \<Rightarrow> 's result"
    and unset_v :: "'s \<Rightarrow> string \<Rightarrow> 's"
    and inv :: "'s \<Rightarrow> bool"
    and ok_name :: "string \<Rightarrow> bool"
  assumes inv_start: "inv start"
    and get_start: "ok_name n \<Longrightarrow> get_v start n = None"
    and set_total: "inv s \<Longrightarrow> ok_name n \<Longrightarrow> \<exists>s'. set_v s n v = Inr s' \<and> inv s'"
    and get_set: "inv s \<Longrightarrow> ok_name n \<Longrightarrow> ok_name m \<Longrightarrow> set_v s n v = Inr s' \<Longrightarrow>
        get_v s' m = (if m = n then Some v else get_v s m)"
    and inv_unset: "inv s \<Longrightarrow> ok_name n \<Longrightarrow> inv (unset_v s n)"
    and get_unset: "inv s \<Longrightarrow> ok_name n \<Longrightarrow> ok_name m \<Longrightarrow>
        get_v (unset_v s n) m = (if m = n then None else get_v s m)"
begin

definition set_all :: "'s \<Rightarrow> (string \<times> string) list \<Rightarrow> 's" where
  "set_all s bs = foldl (\<lambda>s (n, v). case set_v s n v of Inl _ \<Rightarrow> s | Inr s' \<Rightarrow> s') s bs"

lemma set_all_simps [simp]:
  "set_all s [] = s"
  "set_all s ((n, v) # bs) = set_all (case set_v s n v of Inl _ \<Rightarrow> s | Inr s' \<Rightarrow> s') bs"
  by (simp_all add: set_all_def)

lemma set_all_last_wins:
  "inv s \<Longrightarrow> \<forall>b \<in> set bs. ok_name (fst b) \<Longrightarrow> ok_name m \<Longrightarrow>
     inv (set_all s bs) \<and>
     get_v (set_all s bs) m = (case map_of (rev bs) m of Some v \<Rightarrow> Some v | None \<Rightarrow> get_v s m)"
proof (induction bs arbitrary: s)
  case Nil
  then show ?case by simp
next
  case (Cons b bs)
  obtain n v where b: "b = (n, v)" by fastforce
  obtain s' where s': "set_v s n v = Inr s'" "inv s'"
    using set_total [of s n v] Cons.prems b by auto
  have "get_v s' m = (if m = n then Some v else get_v s m)"
    using get_set [OF Cons.prems(1) _ Cons.prems(3) s'(1)] Cons.prems(2) b by simp
  with Cons.IH [OF s'(2)] Cons.prems(2,3) s' b show ?case
    by (auto simp: map_add_def split: option.split)
qed

lemma unset_after_set:
  "inv s \<Longrightarrow> ok_name n \<Longrightarrow> ok_name m \<Longrightarrow> set_v s n v = Inr s' \<Longrightarrow>
     get_v (unset_v s' n) m = get_v (unset_v s n) m"
  using set_total [of s n v] by (auto simp: get_set get_unset)

end

interpretation env_store: var_store env_new env_get env_set env_unset env_inv valid_name
proof (unfold_locales, goal_cases)
  case 1
  show ?case by simp
next
  case (2 n)
  then show ?case by (simp add: env_get_def env_new_def)
next
  case (3 s n v)
  then show ?case using env_set_abs by blast
next
  case (4 s n m v s')
  then show ?case using env_set_abs [of s n v] by (auto simp: env_get_abs)
next
  case (5 s n)
  then show ?case by (simp add: env_unset_abs)
next
  case (6 s n m)
  then show ?case using env_unset_abs [of s n] by (simp add: env_get_abs)
qed

subsection \<open>FromSlice is a client of Set\<close>

definition slice_bindings :: "string list \<Rightarrow> (string \<times> string) list" where
  "slice_bindings kvs = bindings (filter entry_ok kvs)"

lemma index_of_eq_split:
  assumes "index_of kv ''='' = Some eq"
  shows "take eq kv = entry_key kv" and "drop (eq + 1) kv = entry_val kv"
    and "entry_ok kv \<longleftrightarrow> eq \<noteq> 0"
proof -
  have bound: "eq < length kv" using index_of_bound [OF assms] by simp
  have "prefix ''='' (drop eq kv)" using index_of_Some [OF assms] by simp
  then obtain rest where rest: "drop eq kv = CHR ''='' # rest" by (auto simp: prefix_def)
  have not_in: "CHR ''='' \<notin> set (take eq kv)" by (rule index_of_byte_not_in [OF assms])
  have kv: "kv = take eq kv @ CHR ''='' # rest" by (metis append_take_drop_id rest)
  then have "entry_key kv = take eq kv"
    unfolding entry_key_def using not_in by (metis takeWhile_neq_append)
  moreover have "dropWhile (\<lambda>c. c \<noteq> CHR ''='') kv = CHR ''='' # rest"
    using kv not_in by (metis dropWhile_neq_append)
  ultimately show "take eq kv = entry_key kv" and "drop (eq + 1) kv = entry_val kv"
    and "entry_ok kv \<longleftrightarrow> eq \<noteq> 0"
    using rest bound kv by (auto simp: entry_val_def entry_ok_def)
      (metis list.sel(3) rest tl_drop drop_Suc, metis in_set_conv_decomp)
qed

lemma from_slice_loop_set_all:
  "env_inv e \<Longrightarrow> from_slice_loop e kvs = env_store.set_all e (slice_bindings kvs)"
proof (induction kvs arbitrary: e)
  case Nil
  then show ?case by (simp add: slice_bindings_def bindings_def)
next
  case (Cons kv kvs)
  show ?case
  proof (cases "index_of kv ''=''")
    case None
    then have "\<not> entry_ok kv" by (simp add: index_of_byte_None entry_ok_def)
    with Cons None show ?thesis by (simp add: slice_bindings_def)
  next
    case (Some eq)
    show ?thesis
    proof (cases "eq = 0")
      case True
      with Cons Some index_of_eq_split(3) [OF Some] show ?thesis by (simp add: slice_bindings_def)
    next
      case False
      then have ok: "entry_ok kv" using index_of_eq_split(3) [OF Some] by simp
      obtain e' where e': "env_set e (entry_key kv) (entry_val kv) = Inr e'" "env_inv e'"
        using env_store.set_total [OF Cons.prems valid_entry_key [OF ok]] by blast
      have "from_slice_loop e (kv # kvs) = from_slice_loop e' kvs"
        using Some False e'(1) index_of_eq_split(1,2) [OF Some] by simp
      also have "\<dots> = env_store.set_all e (slice_bindings (kv # kvs))"
        using Cons.IH [OF e'(2)] ok e'(1) by (simp add: slice_bindings_def bindings_def)
      finally show ?thesis .
    qed
  qed
qed

lemma slice_bindings_valid: "b \<in> set (slice_bindings kvs) \<Longrightarrow> valid_name (fst b)"
  by (auto simp: slice_bindings_def bindings_def valid_entry_key)

lemma from_slice_inv: "env_inv (from_slice kvs)"
proof -
  have "valid_name ''x''" by (simp add: valid_name_def)
  with env_store.set_all_last_wins [OF env_inv_new, of "slice_bindings kvs" "''x''"]
  show ?thesis
    by (simp add: from_slice_def from_slice_loop_set_all slice_bindings_valid)
qed

lemma from_slice_last_wins:
  "valid_name n \<Longrightarrow> env_get (from_slice kvs) n = map_of (rev (slice_bindings kvs)) n"
  using env_store.set_all_last_wins [OF env_inv_new, of "slice_bindings kvs" n]
  by (simp add: from_slice_def from_slice_loop_set_all slice_bindings_valid env_store.get_start
      split: option.split)

text \<open>Rebuilding the table from its own \<open>Environ\<close> gives the same table.\<close>

lemma set_entry_new:
  "valid_name n \<Longrightarrow> list_all entry_ok kvs \<Longrightarrow> n \<notin> entry_key ` set kvs \<Longrightarrow>
     set_entry (n @ ''='') v kvs = kvs @ [n @ CHR ''='' # v]"
  by (induction kvs) (auto simp: has_prefix_iff_key)

lemma set_all_append_new:
  "list_all entry_ok kvs \<Longrightarrow> list_all entry_ok (vars e) \<Longrightarrow>
     distinct (map entry_key (vars e @ kvs)) \<Longrightarrow>
     vars (env_store.set_all e (bindings kvs)) = vars e @ kvs"
proof (induction kvs arbitrary: e)
  case Nil
  then show ?case by (simp add: bindings_def)
next
  case (Cons kv kvs)
  let ?e = "e\<lparr>vars := vars e @ [kv]\<rparr>"
  have v: "valid_name (entry_key kv)" using Cons.prems by (simp add: valid_entry_key)
  then have "set_entry (entry_key kv @ ''='') (entry_val kv) (vars e) = vars e @ [kv]"
    using Cons.prems set_entry_new [OF v] entry_split [of kv] by auto
  with v have "env_set e (entry_key kv) (entry_val kv) = Inr ?e"
    by (simp add: env_set_def valid_name_def)
  with Cons.IH [of ?e] Cons.prems show ?case by (simp add: bindings_def)
qed

lemma from_slice_environ: "env_inv e \<Longrightarrow> vars (from_slice (environ e)) = vars e"
proof -
  assume e: "env_inv e"
  then have "filter entry_ok (vars e) = vars e"
    by (simp add: env_inv_def filter_id_conv list.pred_set)
  with e set_all_append_new [of "vars e" env_new] show ?thesis
    by (simp add: from_slice_def from_slice_loop_set_all environ_def slice_bindings_def env_inv_def
        env_new_def)
qed

section \<open>Expansion of $VAR, ${VAR} and $?\<close>

definition is_ident_start :: "rune \<Rightarrow> bool" where
  "is_ident_start r \<longleftrightarrow> r = 95 \<or> (65 \<le> r \<and> r \<le> 90) \<or> (97 \<le> r \<and> r \<le> 122)"

definition is_ident_cont :: "rune \<Rightarrow> bool" where
  "is_ident_cont r \<longleftrightarrow> is_ident_start r \<or> (48 \<le> r \<and> r \<le> 57)"

definition is_identifier :: "string \<Rightarrow> bool" where
  "is_identifier s =
     (case runes_of s of [] \<Rightarrow> False | r # rs \<Rightarrow> is_ident_start r \<and> list_all is_ident_cont rs)"

definition value_or_empty :: "env \<Rightarrow> string \<Rightarrow> string" where
  "value_or_empty e name = (case env_get e name of Some v \<Rightarrow> v | None \<Rightarrow> [])"

text \<open>
  The loop of \<open>Expand\<close> over the runes that remain, with the two quote flags. 39 is the single
  and 34 the double quote, 36 is \<open>$\<close>, 63 is \<open>?\<close>, 123 and 125 are the braces.
\<close>

function expand_loop :: "env \<Rightarrow> int \<Rightarrow> bool \<Rightarrow> bool \<Rightarrow> rune list \<Rightarrow> string" where
  "expand_loop e lastExit inSingle inDouble [] = []"
| "expand_loop e lastExit inSingle inDouble (r # rs) =
     (if r = 39 \<and> \<not> inDouble then encode_rune r @ expand_loop e lastExit (\<not> inSingle) inDouble rs
      else if r = 34 \<and> \<not> inSingle then encode_rune r @ expand_loop e lastExit inSingle (\<not> inDouble) rs
      else if inSingle then encode_rune r @ expand_loop e lastExit inSingle inDouble rs
      else if r \<noteq> 36 then encode_rune r @ expand_loop e lastExit inSingle inDouble rs
      else (case rs of
          [] \<Rightarrow> ''$''
        | next # rest \<Rightarrow>
            if next = 63 then itoa lastExit @ expand_loop e lastExit inSingle inDouble rest
            else if next = 123 then
              (case dropWhile (\<lambda>c. c \<noteq> 125) rest of
                 [] \<Rightarrow> ''$'' @ expand_loop e lastExit inSingle inDouble rs
               | _ # after \<Rightarrow>
                   (let name = string_of_runes (takeWhile (\<lambda>c. c \<noteq> 125) rest) in
                    (if name = ''?'' then itoa lastExit
                     else if is_identifier name then value_or_empty e name
                     else ''${'' @ name @ ''}'')
                    @ expand_loop e lastExit inSingle inDouble after))
            else if is_ident_start next then
              value_or_empty e (string_of_runes (takeWhile is_ident_cont rs))
              @ expand_loop e lastExit inSingle inDouble (dropWhile is_ident_cont rs)
            else ''$'' @ expand_loop e lastExit inSingle inDouble rs))"
  by pat_completeness auto
termination
  by (relation "measure (\<lambda>(_, _, _, _, rs). length rs)")
    (auto simp: less_Suc_eq_le length_dropWhile_le le_SucI dest!: length_dropWhile_less)

declare expand_loop.simps(2) [simp del]

definition expand :: "env \<Rightarrow> string \<Rightarrow> int \<Rightarrow> string" where
  "expand e input lastExit =
     (if \<not> contains_any input [CHR ''$'', CHR 0x27, CHR 0x22] then input
      else expand_loop e lastExit False False (runes_of input))"

subsection \<open>One step of the loop\<close>

lemma expand_plain:
  "r \<noteq> 36 \<Longrightarrow> r \<noteq> 39 \<or> inD \<Longrightarrow> r \<noteq> 34 \<Longrightarrow>
     expand_loop e x False inD (r # rs) = encode_rune r @ expand_loop e x False inD rs"
  by (auto simp: expand_loop.simps(2))

lemma expand_in_single:
  "r \<noteq> 39 \<Longrightarrow> expand_loop e x True False (r # rs) = encode_rune r @ expand_loop e x True False rs"
  by (simp add: expand_loop.simps(2))

lemma expand_quote_flips:
  "expand_loop e x inS False (39 # rs) = encode_rune 39 @ expand_loop e x (\<not> inS) False rs"
  "expand_loop e x False inD (34 # rs) = encode_rune 34 @ expand_loop e x False (\<not> inD) rs"
  by (simp_all add: expand_loop.simps(2))

lemma expand_status: "expand_loop e x False inD (36 # 63 # rs) = itoa x @ expand_loop e x False inD rs"
  by (simp add: expand_loop.simps(2) [of _ _ _ _ 36])

lemma expand_braced:
  "125 \<notin> set ns \<Longrightarrow> string_of_runes ns = name \<Longrightarrow> is_identifier name \<Longrightarrow> name \<noteq> ''?'' \<Longrightarrow>
     expand_loop e x False inD (36 # 123 # ns @ 125 # rs) =
       value_or_empty e name @ expand_loop e x False inD rs"
  by (simp add: expand_loop.simps(2) [of _ _ _ _ 36])

lemma expand_literal:
  "36 \<notin> set w \<Longrightarrow> 34 \<notin> set w \<Longrightarrow> 39 \<notin> set w \<or> inD \<Longrightarrow>
     expand_loop e x False inD (w @ rs) = string_of_runes w @ expand_loop e x False inD rs"
  by (induction w) (auto simp: expand_plain)

lemma expand_single_body:
  "39 \<notin> set w \<Longrightarrow> expand_loop e x True False (w @ rs) = string_of_runes w @ expand_loop e x True False rs"
  by (induction w) (auto simp: expand_in_single)

subsection \<open>Templates: what an input line means\<close>

text \<open>
  An input line as a sequence of pieces: literal text, the references \<open>$NAME\<close>, \<open>${NAME}\<close>, \<open>$?\<close> and
  \<open>${?}\<close>, braces that hold no name, and dollar signs that stand for themselves, each either outside
  quotes or inside a double-quoted region, and single-quoted regions. \<open>render\<close> writes the pieces as the
  user would type them; \<open>meaning\<close> is the text they stand for.
\<close>

datatype atom =
    Text "rune list"
  | Named string
  | Braced string
  | Status
  | Braced_status
  | Braced_other "rune list"
  | Dollar

datatype piece = Bare atom | Single "rune list" | Double "atom list"

fun render_atom :: "atom \<Rightarrow> rune list" where
  "render_atom (Text w) = w"
| "render_atom (Named n) = 36 # runes_of n"
| "render_atom (Braced n) = 36 # 123 # runes_of n @ [125]"
| "render_atom Status = [36, 63]"
| "render_atom Braced_status = [36, 123, 63, 125]"
| "render_atom (Braced_other w) = 36 # 123 # w @ [125]"
| "render_atom Dollar = [36]"

abbreviation render_atoms :: "atom list \<Rightarrow> rune list" where
  "render_atoms as \<equiv> concat (map render_atom as)"

fun render :: "piece \<Rightarrow> rune list" where
  "render (Bare a) = render_atom a"
| "render (Single w) = 39 # w @ [39]"
| "render (Double as) = 34 # render_atoms as @ [34]"

fun atom_meaning :: "env \<Rightarrow> int \<Rightarrow> atom \<Rightarrow> string" where
  "atom_meaning e x (Text w) = string_of_runes w"
| "atom_meaning e x (Named n) = value_or_empty e n"
| "atom_meaning e x (Braced n) = value_or_empty e n"
| "atom_meaning e x Status = itoa x"
| "atom_meaning e x Braced_status = itoa x"
| "atom_meaning e x (Braced_other w) = ''${'' @ string_of_runes w @ ''}''"
| "atom_meaning e x Dollar = ''$''"

fun meaning :: "env \<Rightarrow> int \<Rightarrow> piece \<Rightarrow> string" where
  "meaning e x (Bare a) = atom_meaning e x a"
| "meaning e x (Single w) = [CHR 0x27] @ string_of_runes w @ [CHR 0x27]"
| "meaning e x (Double as) = [CHR 0x22] @ concat (map (atom_meaning e x) as) @ [CHR 0x22]"

text \<open>
  Which pieces are what they look like. A name ends where no letter, digit or underscore follows. A
  dollar sign stands for itself before anything that starts no reference: not a question mark, a
  letter or an underscore, nor a brace that is closed.
\<close>

fun starts_reference :: "rune list \<Rightarrow> bool" where
  "starts_reference [] = False"
| "starts_reference (r # rs) \<longleftrightarrow> r = 63 \<or> is_ident_start r \<or> (r = 123 \<and> 125 \<in> set rs)"

fun atom_ok :: "bool \<Rightarrow> atom \<Rightarrow> rune list \<Rightarrow> bool" where
  "atom_ok inD (Text w) rest \<longleftrightarrow> 36 \<notin> set w \<and> 34 \<notin> set w \<and> (39 \<notin> set w \<or> inD)"
| "atom_ok inD (Named n) rest \<longleftrightarrow> is_identifier n \<and> valid_utf8 n \<and> (rest = [] \<or> \<not> is_ident_cont (hd rest))"
| "atom_ok inD (Braced n) rest \<longleftrightarrow> is_identifier n \<and> valid_utf8 n"
| "atom_ok inD Status rest \<longleftrightarrow> True"
| "atom_ok inD Braced_status rest \<longleftrightarrow> True"
| "atom_ok inD (Braced_other w) rest \<longleftrightarrow> 125 \<notin> set w \<and> string_of_runes w \<noteq> ''?'' \<and> \<not> is_identifier (string_of_runes w)"
| "atom_ok inD Dollar rest \<longleftrightarrow> \<not> starts_reference rest"

fun atoms_ok :: "bool \<Rightarrow> atom list \<Rightarrow> rune list \<Rightarrow> bool" where
  "atoms_ok inD [] rest \<longleftrightarrow> True"
| "atoms_ok inD (a # as) rest \<longleftrightarrow> atom_ok inD a (render_atoms as @ rest) \<and> atoms_ok inD as rest"

fun piece_ok :: "piece \<Rightarrow> rune list \<Rightarrow> bool" where
  "piece_ok (Bare a) rest \<longleftrightarrow> atom_ok False a rest"
| "piece_ok (Single w) rest \<longleftrightarrow> 39 \<notin> set w"
| "piece_ok (Double as) rest \<longleftrightarrow> atoms_ok True as (34 # rest)"

fun template_ok :: "piece list \<Rightarrow> bool" where
  "template_ok [] \<longleftrightarrow> True"
| "template_ok (p # ps) \<longleftrightarrow> piece_ok p (concat (map render ps)) \<and> template_ok ps"

lemma identifier_runes: "is_identifier n \<Longrightarrow> r \<in> set (runes_of n) \<Longrightarrow> is_ident_cont r"
  by (auto simp: is_identifier_def is_ident_cont_def list.pred_set split: list.splits)

lemma identifier_not_status: "is_identifier n \<Longrightarrow> n \<noteq> ''?''"
  by (auto simp: is_identifier_def is_ident_start_def decode_rune_ascii)

lemma expand_named:
  assumes "is_identifier n" "valid_utf8 n" "rs = [] \<or> \<not> is_ident_cont (hd rs)"
  shows "expand_loop e x False inD (36 # runes_of n @ rs) = value_or_empty e n @ expand_loop e x False inD rs"
proof -
  obtain c cs where n: "runes_of n = c # cs" "is_ident_start c"
    using assms(1) by (auto simp: is_identifier_def split: list.splits)
  have r: "c \<noteq> 63" "c \<noteq> 123" using n(2) by (auto simp: is_ident_start_def)
  have all: "\<forall>r \<in> set (c # cs). is_ident_cont r" using identifier_runes [OF assms(1)] n(1) by simp
  have tw: "takeWhile is_ident_cont rs = []" "dropWhile is_ident_cont rs = rs" using assms(3) by (cases rs; simp)+
  have w: "takeWhile is_ident_cont ((c # cs) @ rs) = c # cs" "dropWhile is_ident_cont ((c # cs) @ rs) = rs"
    using all tw by (simp_all only: takeWhile_append2 dropWhile_append2 append_Nil2)
  have "string_of_runes (c # cs) = n" using assms(2) n(1) by (simp add: valid_utf8_def)
  then show ?thesis using r n(2) w by (simp add: expand_loop.simps(2) [of _ _ _ _ 36] n(1))
qed

lemma brace_scan:
  "125 \<notin> set w \<Longrightarrow> dropWhile (\<lambda>c. c \<noteq> 125) (w @ 125 # rs) = 125 # (rs :: rune list)"
  "125 \<notin> set w \<Longrightarrow> takeWhile (\<lambda>c. c \<noteq> 125) (w @ 125 # rs) = (w :: rune list)"
  by (induction w) auto

lemma expand_braced_other:
  "125 \<notin> set w \<Longrightarrow> string_of_runes w \<noteq> ''?'' \<Longrightarrow> \<not> is_identifier (string_of_runes w) \<Longrightarrow>
     expand_loop e x False inD (36 # 123 # w @ 125 # rs) =
       ''${'' @ string_of_runes w @ ''}'' @ expand_loop e x False inD rs"
  by (simp add: expand_loop.simps(2) [of _ _ _ _ 36] brace_scan)

lemma expand_braced_status: "expand_loop e x False inD (36 # 123 # 63 # 125 # rs) = itoa x @ expand_loop e x False inD rs"
proof -
  have "string_of_runes [63] = ''?''" by code_simp
  then show ?thesis by (simp add: expand_loop.simps(2) [of _ _ _ _ 36])
qed

lemma expand_dollar:
  "\<not> starts_reference rs \<Longrightarrow> expand_loop e x False inD (36 # rs) = ''$'' @ expand_loop e x False inD rs"
proof (cases rs)
  case (Cons r rs')
  assume "\<not> starts_reference rs"
  then have "r \<noteq> 63" "\<not> is_ident_start r" "r = 123 \<longrightarrow> dropWhile (\<lambda>c. c \<noteq> 125) rs' = []" using Cons by auto
  then show ?thesis using Cons by (cases "r = 123") (simp_all add: expand_loop.simps(2) [of _ _ _ _ 36] del: dropWhile_eq_Nil_conv)
qed (simp add: expand_loop.simps(2))

lemma expand_atom:
  assumes "atom_ok inD a rs"
  shows "expand_loop e x False inD (render_atom a @ rs) = atom_meaning e x a @ expand_loop e x False inD rs"
proof (cases a)
  case (Braced n)
  with assms have n: "is_identifier n" "string_of_runes (runes_of n) = n"
    by (simp_all add: valid_utf8_def)
  have "125 \<notin> set (runes_of n)"
    using identifier_runes [OF n(1)] by (force simp: is_ident_cont_def is_ident_start_def)
  then show ?thesis
    using expand_braced [OF _ n(2) n(1) identifier_not_status [OF n(1)]] Braced by simp
qed (use assms in \<open>simp_all add: expand_literal expand_named expand_status expand_braced_status expand_braced_other expand_dollar\<close>)

lemma expand_atoms:
  "atoms_ok inD as rs \<Longrightarrow>
     expand_loop e x False inD (render_atoms as @ rs) =
       concat (map (atom_meaning e x) as) @ expand_loop e x False inD rs"
  by (induction as) (simp_all add: expand_atom)

lemma char_of_special: "char_of (39::nat) = CHR 0x27" "char_of (34::nat) = CHR 0x22" "char_of (36::nat) = CHR ''$''"
  by code_simp+

lemma encode_quotes [simp]: "encode_rune 39 = [CHR 0x27]" "encode_rune 34 = [CHR 0x22]"
  by (simp_all add: encode_rune_ascii char_of_special)

lemma expand_piece:
  "piece_ok p rs \<Longrightarrow> expand_loop e x False False (render p @ rs) = meaning e x p @ expand_loop e x False False rs"
  by (cases p) (simp_all add: expand_atom expand_atoms expand_quote_flips expand_single_body)

lemma expand_pieces:
  "template_ok ps \<Longrightarrow>
     expand_loop e x False False (concat (map render ps)) = concat (map (meaning e x) ps)"
  by (induction ps) (simp_all add: expand_piece)

subsection \<open>The fast path\<close>

lemma expand_loop_no_special:
  "36 \<notin> set rs \<Longrightarrow> 39 \<notin> set rs \<Longrightarrow> 34 \<notin> set rs \<Longrightarrow> expand_loop e x False False rs = string_of_runes rs"
  using expand_literal [of rs False e x "[]"] by simp

lemma contains_any_iff: "contains_any s cs \<longleftrightarrow> (\<exists>c \<in> set s. c \<in> set cs)"
  by (simp add: contains_any_def list_ex_iff)

lemma no_special_bytes_no_special_runes:
  assumes "\<not> contains_any s [CHR ''$'', CHR 0x27, CHR 0x22]"
  shows "36 \<notin> set (runes_of s)" "39 \<notin> set (runes_of s)" "34 \<notin> set (runes_of s)"
proof -
  have "CHR ''$'' \<notin> set s" "CHR 0x27 \<notin> set s" "CHR 0x22 \<notin> set s"
    using assms unfolding contains_any_iff by auto
  then show "36 \<notin> set (runes_of s)" "39 \<notin> set (runes_of s)" "34 \<notin> set (runes_of s)"
    using small_rune_in_bytes [of _ s] by (force simp: char_of_special)+
qed

lemma expand_fast_path_agrees:
  "\<not> contains_any s [CHR ''$'', CHR 0x27, CHR 0x22] \<Longrightarrow> valid_utf8 s \<Longrightarrow>
     expand e s x = expand_loop e x False False (runes_of s)"
  by (simp add: expand_def expand_loop_no_special no_special_bytes_no_special_runes valid_utf8_def)

lemma expand_eq_loop: "valid_utf8 s \<Longrightarrow> expand e s x = expand_loop e x False False (runes_of s)"
  using expand_fast_path_agrees [of s e x] by (auto simp: expand_def)

section \<open>Properties\<close>

text \<open>
  C30. The variable table implements a finite map. On a table without malformed or repeated
  keys, and for names that are not empty and hold no equals sign, setting a variable succeeds,
  keeps the table well formed and changes the value of that name only; unsetting removes that
  name only and keeps the table well formed.
\<close>

theorem env_refines_map:
  assumes "env_inv e" and "valid_name n"
  shows "\<exists>e'. env_set e n v = Inr e' \<and> env_inv e' \<and> env_inv (env_unset e n) \<and>
           (\<forall>m \<in> Collect valid_name.
              env_get e' m = (if m = n then Some v else env_get e m) \<and>
              env_get (env_unset e n) m = (if m = n then None else env_get e m))"
proof -
  obtain e' where e': "env_set e n v = Inr e'" "env_inv e'"
    using env_store.set_total [OF assms] by blast
  with assms show ?thesis
    by (auto simp: env_store.get_set env_store.get_unset env_store.inv_unset)
qed

definition example_env :: env where
  "example_env = from_slice [''HOME=/root'', ''bogus'', ''PATH=/bin'', ''=x'', ''HOME=/home/u'']"

theorem env_refines_map_witness:
  "env_inv example_env \<and> valid_name ''HOME'' \<and>
   (\<exists>e'. env_set example_env ''HOME'' ''/tmp'' = Inr e' \<and> env_get e' ''HOME'' = Some ''/tmp'' \<and>
      env_get e' ''PATH'' = Some ''/bin'')"
proof -
  have inv: "env_inv example_env" and n: "valid_name ''HOME''" and m: "valid_name ''PATH''"
    by code_simp+
  have path: "env_get example_env ''PATH'' = Some ''/bin''" by code_simp
  from env_refines_map [OF inv n, of "''/tmp''"] n m path inv show ?thesis by fastforce
qed

text \<open>
  Rebuilding the table: a table built from an environment slice is well formed and a
  variable has the value of the last well-formed entry that names it, so malformed entries are
  ignored and later duplicates win; and rebuilding a well-formed table from its own slice gives
  the same entries in the same order.
\<close>

theorem from_slice_spec:
  assumes "valid_name n" and "env_inv e"
  shows "env_inv (from_slice kvs)
    \<and> env_get (from_slice kvs) n = map_of (rev (slice_bindings kvs)) n
    \<and> vars (from_slice (environ e)) = vars e"
  using assms by (simp add: from_slice_inv from_slice_last_wins from_slice_environ)

theorem from_slice_spec_witness:
  "valid_name ''HOME'' \<and> env_inv example_env \<and>
   env_get (from_slice [''HOME=/a'', ''=x'', ''HOME=/b=c'']) ''HOME'' = Some ''/b=c'' \<and>
   vars (from_slice (environ example_env)) = [''HOME=/home/u'', ''PATH=/bin'']"
proof -
  have n: "valid_name ''HOME''" and e: "env_inv example_env" by code_simp+
  have v: "vars example_env = [''HOME=/home/u'', ''PATH=/bin'']"
    and b: "map_of (rev (slice_bindings [''HOME=/a'', ''=x'', ''HOME=/b=c''])) ''HOME'' = Some ''/b=c''"
    by code_simp+
  show ?thesis
    using from_slice_spec [OF n e, of "[''HOME=/a'', ''=x'', ''HOME=/b=c'']"] n e v b by simp
qed

text \<open>
  C33. Meaning of expansion. An input made of literal text, of the references \<open>$NAME\<close>, \<open>${NAME}\<close>, \<open>$?\<close>
  and \<open>${?}\<close>, outside quotes or inside double quotes, and of single-quoted regions, is expanded piece by
  piece. A reference becomes the variable's value (the empty string when unset) or the decimal exit
  status, also inside double quotes; a name without braces is the longest run of letters, digits and
  underscores. Literal text, the quote characters, everything inside single quotes, braces that hold no
  name, and a dollar sign that starts no reference (before a digit, a blank, a quote, an open brace that
  is never closed, or at the end) are left as they are. A single quote inside double quotes does not open
  a quoted region.
\<close>

theorem expand_template:
  assumes "template_ok ps"
    and "\<forall>p \<in> set ps. \<forall>r \<in> set (render p). valid_rune r"
  shows "expand e (string_of_runes (concat (map render ps))) x = concat (map (meaning e x) ps)"
proof -
  have "runes_of (string_of_runes (concat (map render ps))) = concat (map render ps)"
    using assms(2) by (intro runes_of_string_of_valid) auto
  with assms(1) show ?thesis by (simp add: expand_eq_loop expand_pieces)
qed

text \<open>\<open>a $HOME/b${HOME}\<close>, a single-quoted \<open>$H\<close>, a double-quoted \<open>' $?${NOPE}$\<close>, then \<open>$1 ${2}\<close>.\<close>

definition example_template :: "piece list" where
  "example_template =
     [Bare (Text [97, 32]), Bare (Named ''HOME''), Bare (Text [47, 98]), Bare (Braced ''HOME''), Single [36, 72],
      Double [Text [39, 32], Status, Braced ''NOPE'', Dollar], Bare Dollar, Bare (Text [49, 32]), Bare (Braced_other [50])]"

theorem expand_template_witness:
  "template_ok example_template \<and>
   expand example_env (string_of_runes (concat (map render example_template))) 7 =
     ''a /home/u/b/home/u'' @ [CHR 0x27] @ ''$H'' @ [CHR 0x27] @ [CHR 0x22, CHR 0x27] @ '' 7$'' @ [CHR 0x22] @ ''$1 ${2}''"
proof -
  have ok: "template_ok example_template" by code_simp
  have v: "\<forall>p \<in> set example_template. \<forall>r \<in> set (render p). valid_rune r" by code_simp
  have m: "concat (map (meaning example_env 7) example_template) =
     ''a /home/u/b/home/u'' @ [CHR 0x27] @ ''$H'' @ [CHR 0x27] @ [CHR 0x22, CHR 0x27] @ '' 7$'' @ [CHR 0x22] @ ''$1 ${2}''"
    by code_simp
  show ?thesis using ok expand_template [OF ok v, of example_env 7] m by simp
qed

text \<open>
  The fast path of expansion is equivalent to the general loop on well-formed UTF-8: an
  input without a dollar sign and quotes is returned as it is, and the loop would have produced
  the same bytes.
\<close>

theorem expand_fast_path:
  assumes "valid_utf8 s"
  shows "expand e s x = expand_loop e x False False (runes_of s)
    \<and> (\<not> contains_any s [CHR ''$'', CHR 0x27, CHR 0x22] \<longrightarrow> expand_loop e x False False (runes_of s) = s)"
  using expand_eq_loop [OF assms, of e x] by (auto simp: expand_def)

theorem expand_fast_path_witness:
  "valid_utf8 ''ls -la'' \<and> expand example_env ''ls -la'' 0 = ''ls -la''
     \<and> expand_loop example_env 0 False False (runes_of ''ls -la'') = ''ls -la''"
proof -
  have u: "valid_utf8 ''ls -la''" by code_simp
  have n: "\<not> contains_any ''ls -la'' [CHR ''$'', CHR 0x27, CHR 0x22]" by code_simp
  show ?thesis using u expand_fast_path [OF u] n by simp
qed

end
