(* ===== verification/Line_Expand.thy ===== *)
theory Line_Expand
  imports Parser Go_Path
begin

text \<open>
  \<^verbatim>\<open>shell/internal/parser/expand.go\<close>: command substitution on the raw line, and brace and glob
  expansion on the parsed pipeline. Running a sub-command changes the shell, so the injected
  \<open>CmdSubExecutor\<close> is a function that takes and returns a state of any type, and the
  expansion threads that state. The file system behind \<open>filepath.Glob\<close> is a parameter.
\<close>

section \<open>Command substitution\<close>

datatype expand_error =
    Nesting_too_deep
  | Unterminated_substitution
  | Substitution_failed string string

type_synonym 'st executor = "'st \<Rightarrow> string \<Rightarrow> 'st \<times> (string + string)"

record 'st expand_context =
  ctx_cwd :: string
  ctx_cmd_sub :: "'st executor option"

definition max_cmd_sub_depth :: nat where
  "max_cmd_sub_depth = 16"

text \<open>
  \<open>findMatchingParen\<close>: the loop over the runes after the opening parenthesis, with the index,
  the nesting depth and the quote flags. 39, 34, 40 and 41 are the quotes and parentheses. The
  result is the index of the closing parenthesis (\<open>None\<close> for -1).
\<close>

fun paren_loop :: "nat \<Rightarrow> nat \<Rightarrow> bool \<Rightarrow> bool \<Rightarrow> rune list \<Rightarrow> nat option" where
  "paren_loop i depth inSingle inDouble [] = None"
| "paren_loop i depth inSingle inDouble (r # rs) =
     (if r = 39 then
        paren_loop (Suc i) depth (if inDouble then inSingle else \<not> inSingle) inDouble rs
      else if r = 34 then
        paren_loop (Suc i) depth inSingle (if inSingle then inDouble else \<not> inDouble) rs
      else if r = 40 then
        paren_loop (Suc i) (if \<not> inSingle \<and> \<not> inDouble then depth + 1 else depth) inSingle inDouble rs
      else if r = 41 \<and> \<not> inSingle \<and> \<not> inDouble then
        (if depth = 1 then Some i else paren_loop (Suc i) (depth - 1) inSingle inDouble rs)
      else paren_loop (Suc i) depth inSingle inDouble rs)"

definition find_matching_paren :: "rune list \<Rightarrow> nat \<Rightarrow> nat option" where
  "find_matching_paren runes start =
     (if length runes \<le> start \<or> runes ! start \<noteq> 40 then None
      else paren_loop (Suc start) 1 False False (drop (Suc start) runes))"

lemma paren_loop_bound: "paren_loop i d inS inD rs = Some k \<Longrightarrow> i \<le> k \<and> k < i + length rs"
proof (induction rs arbitrary: i d inS inD)
  case Nil
  then show ?case by simp
next
  case (Cons r rs)
  have "k = i \<or> (\<exists>d' s' t'. paren_loop (Suc i) d' s' t' rs = Some k)"
    using Cons.prems
    by (cases "r = 39"; cases "r = 34"; cases "r = 40"; cases "r = 41 \<and> \<not> inS \<and> \<not> inD"; cases "d = 1")
      auto
  then show ?case using Cons.IH [of "Suc i"] by fastforce
qed

lemma find_matching_paren_bound: "find_matching_paren rs 0 = Some k \<Longrightarrow> 1 \<le> k \<and> k < length rs"
  by (auto simp: find_matching_paren_def dest!: paren_loop_bound split: if_splits)

text \<open>Writing to the builder before the rest of the loop; an error discards what was written.\<close>

definition emit_before :: "string \<Rightarrow> 'st \<times> (expand_error + string) \<Rightarrow> 'st \<times> (expand_error + string)" where
  "emit_before s r = (fst r, (case snd r of Inl e \<Rightarrow> Inl e | Inr t \<Rightarrow> Inr (s @ t)))"

text \<open>
  \<open>expandCmdSub\<close> and its loop over the runes that remain. 92 is the backslash, 36 the dollar
  sign; the index of the closing parenthesis is taken relative to the opening one.
\<close>

function (sequential)
  expand_cmd_sub :: "'st expand_context \<Rightarrow> nat \<Rightarrow> 'st \<Rightarrow> string \<Rightarrow> 'st \<times> (expand_error + string)" and
  cmd_sub_loop :: "'st expand_context \<Rightarrow> 'st executor \<Rightarrow> nat \<Rightarrow> bool \<Rightarrow> 'st \<Rightarrow> rune list \<Rightarrow>
      'st \<times> (expand_error + string)" where
  "expand_cmd_sub ctx depth st input =
     (if max_cmd_sub_depth < depth then (st, Inl Nesting_too_deep)
      else if \<not> str_contains input ''$('' then (st, Inr input)
      else (case ctx_cmd_sub ctx of
          None \<Rightarrow> (st, Inr input)
        | Some ex \<Rightarrow> cmd_sub_loop ctx ex depth False st (runes_of input)))"
| "cmd_sub_loop ctx ex depth inSingle st [] = (st, Inr [])"
| "cmd_sub_loop ctx ex depth inSingle st (r # rs) =
     (if r = 39 then emit_before (encode_rune r) (cmd_sub_loop ctx ex depth (\<not> inSingle) st rs)
      else if inSingle then emit_before (encode_rune r) (cmd_sub_loop ctx ex depth inSingle st rs)
      else if r = 92 \<and> rs \<noteq> [] then
        emit_before (encode_rune r @ encode_rune (hd rs)) (cmd_sub_loop ctx ex depth inSingle st (tl rs))
      else if r = 36 \<and> rs \<noteq> [] \<and> hd rs = 40 then
        (case find_matching_paren rs 0 of
           None \<Rightarrow> (st, Inl Unterminated_substitution)
         | Some end_at \<Rightarrow>
             (let inner = string_of_runes (take (end_at - 1) (tl rs)) in
              case expand_cmd_sub ctx (depth + 1) st inner of
                (st', Inl e) \<Rightarrow> (st', Inl e)
              | (st', Inr expanded) \<Rightarrow>
                  (case ex st' expanded of
                     (st'', Inl e) \<Rightarrow> (st'', Inl (Substitution_failed inner e))
                   | (st'', Inr out) \<Rightarrow>
                       emit_before (trim_right_set out [CHR 0x0A])
                         (cmd_sub_loop ctx ex depth inSingle st'' (drop (end_at + 1) rs)))))
      else emit_before (encode_rune r) (cmd_sub_loop ctx ex depth inSingle st rs))"
  by pat_completeness auto
termination
  by (relation "measures [\<lambda>x. case x of Inl (_, _, _, input) \<Rightarrow> length (runes_of input)
                                     | Inr (_, _, _, _, _, rs) \<Rightarrow> length rs,
                          \<lambda>x. case x of Inl _ \<Rightarrow> 1 | Inr _ \<Rightarrow> 0]")
    (auto dest!: find_matching_paren_bound)

declare expand_cmd_sub.simps [simp del] cmd_sub_loop.simps(2) [simp del]

definition expand_line :: "'st expand_context \<Rightarrow> 'st \<Rightarrow> string \<Rightarrow> 'st \<times> (expand_error + string)" where
  "expand_line ctx st input = expand_cmd_sub ctx 0 st input"

section \<open>Brace expansion\<close>

text \<open>Go's \<open>int\<close> has 64 bits; \<open>wrap64\<close> is what an operation on it leaves.\<close>

definition wrap64 :: "int \<Rightarrow> int" where
  "wrap64 i = (i + 2 ^ 63) mod 2 ^ 64 - 2 ^ 63"

lemma wrap64_id [simp]: "in_int64 i \<Longrightarrow> wrap64 i = i"
  by (simp add: wrap64_def in_int64_def)

text \<open>
  \<open>for i := lo; i <= hi; i++\<close> and its descending twin. The counter wraps around, so the loop
  over a range that ends at the largest (smallest) integer never leaves: \<open>None\<close>.
\<close>

partial_function (option) count_up :: "int \<Rightarrow> int \<Rightarrow> string list option" where
  "count_up i hi =
     (if i \<le> hi
      then Option.bind (count_up (wrap64 (i + 1)) hi) (\<lambda>out. Some (itoa i # out))
      else Some [])"

partial_function (option) count_down :: "int \<Rightarrow> int \<Rightarrow> string list option" where
  "count_down i hi =
     (if hi \<le> i
      then Option.bind (count_down (wrap64 (i - 1)) hi) (\<lambda>out. Some (itoa i # out))
      else Some [])"

definition numeric_range :: "string \<Rightarrow> (int \<times> int) option" where
  "numeric_range body =
     (case index_of body ''..'' of
        None \<Rightarrow> None
      | Some i \<Rightarrow>
          (case atoi (trim_space (take i body)) of
             None \<Rightarrow> None
           | Some lo \<Rightarrow>
               (case atoi (trim_space (drop (i + 2) body)) of
                  None \<Rightarrow> None
                | Some hi \<Rightarrow> Some (lo, hi))))"

text \<open>
  The capacity that \<open>braceParts\<close> asks \<open>make\<close> for. A negative capacity, or one whose 16-byte strings
  exceed the 2^48 bytes of the runtime's address space, panics.
\<close>

definition abs64 :: "int \<Rightarrow> int" where
  "abs64 x = (if x < 0 then wrap64 (- x) else x)"

definition range_cap :: "int \<Rightarrow> int \<Rightarrow> int" where
  "range_cap lo hi = wrap64 (abs64 (wrap64 (hi - lo)) + 1)"

definition cap_ok :: "int \<Rightarrow> bool" where
  "cap_ok c \<longleftrightarrow> 0 \<le> c \<and> c \<le> 2 ^ 44"

text \<open>
  \<open>braceParts\<close>; the inner empty list is the nil slice, the outer \<open>None\<close> is not returning, by the
  panic of \<open>make\<close> or by a loop without end.
\<close>

definition brace_parts :: "string \<Rightarrow> string list option" where
  "brace_parts body =
     (if body = [] then Some []
      else if str_contains body ''..'' then
        (case numeric_range body of
           None \<Rightarrow> Some []
         | Some (lo, hi) \<Rightarrow>
             if \<not> cap_ok (range_cap lo hi) then None
             else if lo \<le> hi then count_up lo hi
             else count_down lo hi)
      else if \<not> str_contains body '','' then Some []
      else Some (split_byte CHR '','' body))"

function expand_brace :: "string \<Rightarrow> string list option" where
  "expand_brace input =
     (case index_of input ''{'' of
        None \<Rightarrow> Some [input]
      | Some opn \<Rightarrow>
          (case index_of (drop opn input) ''}'' of
             None \<Rightarrow> Some [input]
           | Some c \<Rightarrow>
               (let cls = c + opn;
                    pre = take opn input;
                    body = take (cls - (opn + 1)) (drop (opn + 1) input);
                    suf = drop (cls + 1) input
                in case brace_parts body of
                     None \<Rightarrow> None
                   | Some parts \<Rightarrow>
                       if parts = [] then Some [input]
                       else (case expand_brace suf of
                               None \<Rightarrow> None
                             | Some tails \<Rightarrow>
                                 Some (concat (map (\<lambda>p. map (\<lambda>tail. pre @ p @ tail) tails) parts))))))"
  by pat_completeness auto
termination
  by (relation "measure length") (auto dest!: index_of_bound)

declare expand_brace.simps [simp del]

section \<open>Glob expansion and ExpandPipeline\<close>

text \<open>\<open>glob\<close> stands for \<open>filepath.Glob\<close> on the file system: the sorted matches, or an error.\<close>

type_synonym glob_fun = "string \<Rightarrow> string list option"

definition expand_glob :: "glob_fun \<Rightarrow> string \<Rightarrow> string \<Rightarrow> string list" where
  "expand_glob glob token cwd =
     (if \<not> contains_any token ''*?['' then [token]
      else
        (let pattern = (if \<not> path_is_abs token \<and> cwd \<noteq> [] then path_join cwd token else token) in
         case glob pattern of
           None \<Rightarrow> [token]
         | Some matches \<Rightarrow>
             if matches = [] then [token]
             else if pattern \<noteq> token \<and> cwd \<noteq> [] then map (\<lambda>m. trim_prefix m (cwd @ ''/'')) matches
             else matches))"

fun expand_args :: "glob_fun \<Rightarrow> string \<Rightarrow> string list \<Rightarrow> string list option" where
  "expand_args glob cwd [] = Some []"
| "expand_args glob cwd (a # as) =
     (case expand_brace a of
        None \<Rightarrow> None
      | Some bs \<Rightarrow>
          (case expand_args glob cwd as of
             None \<Rightarrow> None
           | Some rest \<Rightarrow> Some (concat (map (\<lambda>b. expand_glob glob b cwd) bs) @ rest)))"

fun expand_commands :: "glob_fun \<Rightarrow> string \<Rightarrow> command list \<Rightarrow> command list option" where
  "expand_commands glob cwd [] = Some []"
| "expand_commands glob cwd (c # cs) =
     (case expand_args glob cwd (cmd_args c) of
        None \<Rightarrow> None
      | Some as \<Rightarrow>
          (case expand_commands glob cwd cs of
             None \<Rightarrow> None
           | Some ds \<Rightarrow>
               Some (\<lparr>cmd_name = cmd_name c, cmd_args = as, cmd_tainted = cmd_tainted c\<rparr> # ds)))"

definition expand_pipeline :: "glob_fun \<Rightarrow> string \<Rightarrow> pipeline \<Rightarrow> pipeline option" where
  "expand_pipeline glob cwd p =
     (case expand_commands glob cwd (commands p) of
        None \<Rightarrow> None
      | Some cs \<Rightarrow> Some \<lparr>commands = cs, background = background p, tainted = tainted p\<rparr>)"

section \<open>Command substitution on templates\<close>

text \<open>
  The lines a user writes with substitutions in them: plain text, single- and double-quoted
  text, and \<open>$( )\<close> around such a line again. \<open>run_pieces\<close> is what they mean: the inner line
  first, then the sub-command on its result, left to right, the first error ending the line.
\<close>

datatype sub_piece =
    Plain "rune list"
  | Quoted "rune list"
  | Dquoted "rune list"
  | Sub "sub_piece list"

fun sub_render :: "sub_piece \<Rightarrow> rune list" where
  "sub_render (Plain w) = w"
| "sub_render (Quoted w) = 39 # w @ [39]"
| "sub_render (Dquoted w) = 34 # w @ [34]"
| "sub_render (Sub ps) = 36 # 40 # concat (map sub_render ps) @ [41]"

abbreviation sub_renders :: "sub_piece list \<Rightarrow> rune list" where
  "sub_renders ps \<equiv> concat (map sub_render ps)"

fun sub_ok :: "sub_piece \<Rightarrow> bool" where
  "sub_ok (Plain w) = (set w \<inter> {34, 36, 39, 40, 41, 92} = {})"
| "sub_ok (Quoted w) = (39 \<notin> set w)"
| "sub_ok (Dquoted w) = (set w \<inter> {34, 36, 39, 92} = {})"
| "sub_ok (Sub ps) = list_all sub_ok ps"

fun sub_depth :: "sub_piece \<Rightarrow> nat" where
  "sub_depth (Sub ps) = Suc (foldr max (map sub_depth ps) 0)"
| "sub_depth _ = 0"

abbreviation subs_depth :: "sub_piece list \<Rightarrow> nat" where
  "subs_depth ps \<equiv> foldr max (map sub_depth ps) 0"

fun run_pieces :: "'st executor \<Rightarrow> 'st \<Rightarrow> sub_piece list \<Rightarrow> 'st \<times> (expand_error + string)" where
  "run_pieces ex st [] = (st, Inr [])"
| "run_pieces ex st (Sub qs # ps) =
     (case run_pieces ex st qs of
        (st', Inl e) \<Rightarrow> (st', Inl e)
      | (st', Inr c) \<Rightarrow>
          (case ex st' c of
             (st'', Inl e) \<Rightarrow> (st'', Inl (Substitution_failed (string_of_runes (sub_renders qs)) e))
           | (st'', Inr out) \<Rightarrow>
               emit_before (trim_right_set out [CHR 0x0A]) (run_pieces ex st'' ps)))"
| "run_pieces ex st (p # ps) = emit_before (string_of_runes (sub_render p)) (run_pieces ex st ps)"

lemma emit_before_simps [simp]:
  "emit_before s (st, Inl e) = (st, Inl e)" "emit_before s (st, Inr t) = (st, Inr (s @ t))"
  "emit_before [] r = r" "emit_before s (emit_before t r) = emit_before (s @ t) r"
  by (cases r; auto simp: emit_before_def split: sum.split)+

lemma paren_loop_literal:
  "set w \<inter> {34, 39, 40, 41} = {} \<Longrightarrow> paren_loop i d False False (w @ rs) = paren_loop (i + length w) d False False rs"
  by (induction w arbitrary: i) auto

lemma paren_loop_in_single:
  "39 \<notin> set w \<Longrightarrow> paren_loop i d True False (w @ 39 # rs) = paren_loop (i + length w + 1) d False False rs"
  by (induction w arbitrary: i) auto

lemma paren_loop_in_double:
  "34 \<notin> set w \<Longrightarrow> paren_loop i d False True (w @ 34 # rs) = paren_loop (i + length w + 1) d False False rs"
  by (induction w arbitrary: i) auto

lemma paren_loop_piece:
  "sub_ok p \<Longrightarrow> 0 < d \<Longrightarrow>
     paren_loop i d False False (sub_render p @ rs) = paren_loop (i + length (sub_render p)) d False False rs"
proof (induction p arbitrary: i d rs)
  case (Plain w)
  then show ?case by (auto intro!: paren_loop_literal)
next
  case (Quoted w)
  then show ?case using paren_loop_in_single [of w "Suc i" d rs] by simp
next
  case (Dquoted w)
  then show ?case using paren_loop_in_double [of w "Suc i" d rs] by auto
next
  case (Sub ps)
  have "paren_loop j (Suc d) False False (sub_renders qs @ rs') =
      paren_loop (j + length (sub_renders qs)) (Suc d) False False rs'"
    if "set qs \<subseteq> set ps" for j qs rs'
    using that
  proof (induction qs arbitrary: j)
    case Nil
    then show ?case by simp
  next
    case (Cons q qs)
    then have "paren_loop j (Suc d) False False (sub_render q @ (sub_renders qs @ rs')) =
        paren_loop (j + length (sub_render q)) (Suc d) False False (sub_renders qs @ rs')"
      using Sub.IH [of q "Suc d"] Sub.prems by (auto simp: list.pred_set)
    with Cons show ?case by (simp add: add.assoc)
  qed
  from this [of ps "Suc (Suc i)" "41 # rs"] Sub.prems show ?case by simp
qed

lemma paren_loop_pieces:
  "list_all sub_ok ps \<Longrightarrow> 0 < d \<Longrightarrow>
     paren_loop i d False False (sub_renders ps @ rs) = paren_loop (i + length (sub_renders ps)) d False False rs"
  by (induction ps arbitrary: i) (simp_all add: paren_loop_piece add.assoc)

lemma find_matching_paren_pieces:
  "list_all sub_ok ps \<Longrightarrow> find_matching_paren (40 # sub_renders ps @ 41 # rs) 0 = Some (Suc (length (sub_renders ps)))"
  using paren_loop_pieces [of ps 1 1 "41 # rs"] by (simp add: find_matching_paren_def)

lemma loop_plain:
  "r \<noteq> 39 \<Longrightarrow> r \<noteq> 92 \<Longrightarrow> r \<noteq> 36 \<Longrightarrow>
     cmd_sub_loop ctx ex d False st (r # rs) = emit_before (encode_rune r) (cmd_sub_loop ctx ex d False st rs)"
  by (simp add: cmd_sub_loop.simps(2))

lemma loop_literal:
  "set w \<inter> {36, 39, 92} = {} \<Longrightarrow>
     cmd_sub_loop ctx ex d False st (w @ rs) = emit_before (string_of_runes w) (cmd_sub_loop ctx ex d False st rs)"
  by (induction w) (auto simp: loop_plain)

lemma loop_in_single:
  "39 \<notin> set w \<Longrightarrow>
     cmd_sub_loop ctx ex d True st (w @ 39 # rs) =
       emit_before (string_of_runes (w @ [39])) (cmd_sub_loop ctx ex d False st rs)"
  by (induction w) (simp_all add: cmd_sub_loop.simps(2))

lemma loop_quoted:
  "39 \<notin> set w \<Longrightarrow>
     cmd_sub_loop ctx ex d False st (39 # w @ 39 # rs) =
       emit_before (string_of_runes (39 # w @ [39])) (cmd_sub_loop ctx ex d False st rs)"
  by (simp add: cmd_sub_loop.simps(2) [of _ _ _ _ _ 39] loop_in_single)

lemma loop_substitution:
  assumes "list_all sub_ok qs"
  shows "cmd_sub_loop ctx ex d False st (36 # 40 # sub_renders qs @ 41 # rs) =
     (case expand_cmd_sub ctx (d + 1) st (string_of_runes (sub_renders qs)) of
        (st', Inl e) \<Rightarrow> (st', Inl e)
      | (st', Inr c) \<Rightarrow>
          (case ex st' c of
             (st'', Inl e) \<Rightarrow> (st'', Inl (Substitution_failed (string_of_runes (sub_renders qs)) e))
           | (st'', Inr out) \<Rightarrow>
               emit_before (trim_right_set out [CHR 0x0A]) (cmd_sub_loop ctx ex d False st'' rs)))"
  by (simp add: cmd_sub_loop.simps(2) [of _ _ _ _ _ 36] find_matching_paren_pieces [OF assms] Let_def)

lemma sub_render_contains: "sublist ''$('' (string_of_runes (sub_render (Sub qs)))"
proof -
  have "string_of_runes (sub_render (Sub qs)) = [] @ ''$('' @ string_of_runes (sub_renders qs @ [41])"
  proof -
    have "char_of (36::nat) = CHR ''$''" "char_of (40::nat) = CHR ''(''" by code_simp+
    then show ?thesis by (simp add: encode_rune_ascii)
  qed
  then show ?thesis unfolding sublist_def by blast
qed

lemma run_pieces_no_sub:
  "\<forall>p \<in> set ps. \<forall>qs. p \<noteq> Sub qs \<Longrightarrow> run_pieces ex st ps = (st, Inr (string_of_runes (sub_renders ps)))"
proof (induction ps)
  case Nil
  then show ?case by simp
next
  case (Cons p ps)
  then show ?case by (cases p) auto
qed

lemma string_of_runes_concat: "string_of_runes (concat rss) = concat (map string_of_runes rss)"
  by (induction rss) simp_all

lemma sub_renders_contains: "Sub qs \<in> set ps \<Longrightarrow> sublist ''$('' (string_of_runes (sub_renders ps))"
proof -
  assume "Sub qs \<in> set ps"
  then obtain a b where "ps = a @ Sub qs # b" by (meson split_list)
  then have "sublist (string_of_runes (sub_render (Sub qs))) (string_of_runes (sub_renders ps))"
    by (auto simp: sublist_def)
  then show ?thesis using sub_render_contains sublist_order.order_trans by blast
qed

definition runes_ok :: "sub_piece list \<Rightarrow> bool" where
  "runes_ok ps \<longleftrightarrow> list_all valid_rune (sub_renders ps)"

lemma runes_ok_roundtrip: "runes_ok ps \<Longrightarrow> runes_of (string_of_runes (sub_renders ps)) = sub_renders ps"
  unfolding runes_ok_def list.pred_set by (rule runes_of_string_of_valid)

lemma expand_cmd_sub_of_loop:
  assumes "runes_ok ps" "d \<le> max_cmd_sub_depth" "ctx_cmd_sub ctx = Some ex"
    and "cmd_sub_loop ctx ex d False st (sub_renders ps) = run_pieces ex st ps"
  shows "expand_cmd_sub ctx d st (string_of_runes (sub_renders ps)) = run_pieces ex st ps"
proof (cases "str_contains (string_of_runes (sub_renders ps)) ''$(''")
  case True
  with assms show ?thesis by (simp add: expand_cmd_sub.simps runes_ok_roundtrip)
next
  case False
  then have "\<forall>p \<in> set ps. \<forall>qs. p \<noteq> Sub qs"
    using sub_renders_contains by (auto simp: str_contains_iff)
  with False assms(2) show ?thesis by (simp add: expand_cmd_sub.simps run_pieces_no_sub)
qed

lemma cmd_sub_loop_pieces:
  "list_all sub_ok ps \<Longrightarrow> runes_ok ps \<Longrightarrow> d + subs_depth ps \<le> max_cmd_sub_depth \<Longrightarrow>
     ctx_cmd_sub ctx = Some ex \<Longrightarrow>
     cmd_sub_loop ctx ex d False st (sub_renders ps) = run_pieces ex st ps"
proof (induction ex st ps arbitrary: d rule: run_pieces.induct [case_names 1 2 plain quoted literal])
  case (1 ex st)
  then show ?case by simp
next
  case (2 ex st qs ps)
  have q: "list_all sub_ok qs" "runes_ok qs" "Suc d + subs_depth qs \<le> max_cmd_sub_depth"
    and p: "list_all sub_ok ps" "runes_ok ps" "d + subs_depth ps \<le> max_cmd_sub_depth"
    using "2.prems" by (auto simp: runes_ok_def)
  have inner: "expand_cmd_sub ctx (Suc d) st (string_of_runes (sub_renders qs)) = run_pieces ex st qs"
    using "2.IH"(1) [OF q "2.prems"(4)] q by (intro expand_cmd_sub_of_loop "2.prems"(4)) auto
  show ?case
    using loop_substitution [OF q(1), of ctx ex d st "sub_renders ps"] "2.IH"(2) [OF _ _ _ _ p "2.prems"(4)]
    by (auto simp: inner split: prod.split sum.split)
next
  case (plain ex st w ps)
  then show ?case by (auto simp: runes_ok_def intro!: trans [OF loop_literal])
next
  case (quoted ex st w ps)
  then show ?case using loop_quoted [of w ctx ex d st "sub_renders ps"] by (simp add: runes_ok_def)
next
  case (literal ex st w ps)
  then show ?case
    using loop_literal [of "34 # w @ [34]" ctx ex d st "sub_renders ps"] by (auto simp: runes_ok_def)
qed

text \<open>The nesting limit: \<open>nest n\<close> is \<open>n\<close> substitutions inside one another.\<close>

fun nest :: "nat \<Rightarrow> sub_piece list" where
  "nest 0 = []"
| "nest (Suc n) = [Sub (nest n)]"

lemma nest_ok: "list_all sub_ok (nest n)" "runes_ok (nest n)" "subs_depth (nest n) = n"
  by (induction n) (simp_all add: runes_ok_def valid_rune_def)

lemma expand_nest_too_deep:
  assumes "ctx_cmd_sub ctx = Some ex"
  shows "max_cmd_sub_depth < d + n \<Longrightarrow>
     expand_cmd_sub ctx d st (string_of_runes (sub_renders (nest n))) = (st, Inl Nesting_too_deep)"
proof (induction n arbitrary: d)
  case 0
  then show ?case by (simp add: expand_cmd_sub.simps)
next
  case (Suc n)
  show ?case
  proof (cases "max_cmd_sub_depth < d")
    case True
    then show ?thesis by (simp add: expand_cmd_sub.simps)
  next
    case False
    have "expand_cmd_sub ctx d st (string_of_runes (sub_renders (nest (Suc n)))) =
        cmd_sub_loop ctx ex d False st (sub_renders (nest (Suc n)))"
      using False assms sub_renders_contains [of "nest n" "nest (Suc n)"] runes_ok_roundtrip [OF nest_ok(2) [of "Suc n"]]
      by (simp add: expand_cmd_sub.simps [of ctx d] del: sub_render.simps)
    also have "\<dots> = (st, Inl Nesting_too_deep)"
      using loop_substitution [OF nest_ok(1), of ctx ex d st n "[]"] Suc by simp
    finally show ?thesis .
  qed
qed

section \<open>The brace loops\<close>

abbreviation max_int64 :: int where "max_int64 \<equiv> 2 ^ 63 - 1"

abbreviation min_int64 :: int where "min_int64 \<equiv> - (2 ^ 63)"

lemma in_int64_wrap64 [simp]: "in_int64 (wrap64 i)"
  by (simp add: in_int64_def wrap64_def)

lemma count_up_Some:
  "in_int64 lo \<Longrightarrow> hi < max_int64 \<Longrightarrow> count_up lo hi = Some (map itoa [lo..hi])"
proof (induction "nat (hi + 1 - lo)" arbitrary: lo)
  case 0
  then show ?case by (simp add: count_up.simps)
next
  case (Suc n)
  then have le: "lo \<le> hi" and "in_int64 (lo + 1)" by (auto simp: in_int64_def)
  with Suc.hyps(1) [of "lo + 1"] Suc.hyps(2) Suc.prems
  have "count_up (wrap64 (lo + 1)) hi = Some (map itoa [lo + 1..hi])" by simp
  with le show ?case by (simp add: count_up.simps [of lo] upto_rec1 [of lo])
qed

lemma count_down_Some:
  "in_int64 lo \<Longrightarrow> min_int64 < hi \<Longrightarrow> count_down lo hi = Some (map itoa (rev [hi..lo]))"
proof (induction "nat (lo + 1 - hi)" arbitrary: lo)
  case 0
  then show ?case by (simp add: count_down.simps)
next
  case (Suc n)
  then have le: "hi \<le> lo" and "in_int64 (lo - 1)" by (auto simp: in_int64_def)
  with Suc.hyps(1) [of "lo - 1"] Suc.hyps(2) Suc.prems
  have "count_down (wrap64 (lo - 1)) hi = Some (map itoa (rev [hi..lo - 1]))" by simp
  with le show ?case by (simp add: count_down.simps [of lo] upto_rec2 [of hi lo])
qed

lemma count_up_diverges: "in_int64 i \<Longrightarrow> count_up i max_int64 = None"
proof (rule ccontr)
  assume i: "in_int64 i" and "count_up i max_int64 \<noteq> None"
  then obtain out where out: "count_up i max_int64 = Some out" by blast
  have "hi = max_int64 \<longrightarrow> \<not> in_int64 j" if "count_up j hi = Some r" for j hi r
  proof (rule count_up.raw_induct [where P = "\<lambda>j hi r. hi = max_int64 \<longrightarrow> \<not> in_int64 j", OF _ that])
    fix f :: "int \<Rightarrow> int \<Rightarrow> string list option" and j hi r
    assume IH: "\<And>j hi r. f j hi = Some r \<Longrightarrow> hi = max_int64 \<longrightarrow> \<not> in_int64 j"
      and eq: "(if j \<le> hi then Option.bind (f (wrap64 (j + 1)) hi) (\<lambda>out. Some (itoa j # out))
                else Some []) = Some r"
    show "hi = max_int64 \<longrightarrow> \<not> in_int64 j"
    proof (intro impI notI)
      assume "hi = max_int64" "in_int64 j"
      with eq obtain out where "f (wrap64 (j + 1)) hi = Some out"
        by (auto simp: in_int64_def bind_eq_Some_conv split: if_splits)
      with IH \<open>hi = max_int64\<close> show False by fastforce
    qed
  qed
  with i out show False by blast
qed

section \<open>Brace groups\<close>

lemma expand_brace_group:
  assumes "CHR ''{'' \<notin> set pre" "CHR ''}'' \<notin> set body" "brace_parts body = Some parts"
  shows "expand_brace (pre @ ''{'' @ body @ ''}'' @ suf) =
     (if parts = [] then Some [pre @ ''{'' @ body @ ''}'' @ suf]
      else map_option (\<lambda>tails. concat (map (\<lambda>p. map (\<lambda>tail. pre @ p @ tail) tails) parts)) (expand_brace suf))"
proof -
  have "index_of (pre @ ''{'' @ body @ ''}'' @ suf) ''{'' = Some (length pre)"
    using assms(1) by (simp add: index_of_append_byte)
  moreover have "index_of (CHR ''{'' # body @ ''}'' @ suf) ''}'' = Some (Suc (length body))"
    using index_of_append_byte [of "CHR ''}''" "CHR ''{'' # body" suf] assms(2) by simp
  ultimately show ?thesis
    using assms(3) by (subst expand_brace.simps) (auto simp: Let_def split: option.split)
qed

lemma expand_brace_group_None:
  assumes "CHR ''{'' \<notin> set pre" "CHR ''}'' \<notin> set body" "brace_parts body = None"
  shows "expand_brace (pre @ ''{'' @ body @ ''}'' @ suf) = None"
proof -
  have "index_of (pre @ ''{'' @ body @ ''}'' @ suf) ''{'' = Some (length pre)"
    using assms(1) by (simp add: index_of_append_byte)
  moreover have "index_of (CHR ''{'' # body @ ''}'' @ suf) ''}'' = Some (Suc (length body))"
    using index_of_append_byte [of "CHR ''}''" "CHR ''{'' # body" suf] assms(2) by simp
  ultimately show ?thesis
    using assms(3) by (subst expand_brace.simps) (auto simp: Let_def)
qed

lemma expand_brace_none: "CHR ''{'' \<notin> set s \<Longrightarrow> expand_brace s = Some [s]"
  by (subst expand_brace.simps) (simp add: index_of_byte_None [THEN iffD2])

lemma index_of_dots: "CHR ''.'' \<notin> set a \<Longrightarrow> index_of (a @ ''..'' @ b) ''..'' = Some (length a)"
  by (induction a) auto

definition int_range :: "int \<Rightarrow> int \<Rightarrow> int list" where
  "int_range lo hi = (if lo \<le> hi then [lo..hi] else rev [hi..lo])"

lemma itoa_plain: "CHR ''.'' \<notin> set (itoa i)" "CHR ''{'' \<notin> set (itoa i)" "CHR ''}'' \<notin> set (itoa i)"
  using set_itoa [of "CHR ''.''" i] set_itoa [of "CHR ''{''" i] set_itoa [of "CHR ''}''" i]
  by (auto simp: is_digit_def)

lemma numeric_range_itoa:
  "in_int64 lo \<Longrightarrow> in_int64 hi \<Longrightarrow> numeric_range (itoa lo @ ''..'' @ itoa hi) = Some (lo, hi)"
  using index_of_dots [OF itoa_plain(1), of lo "itoa hi"]
  by (simp add: numeric_range_def trim_space_itoa atoi_itoa)

lemma dots_contained: "sublist ''..'' (a @ ''..'' @ b)"
  by (metis sublist_appendI)

lemma brace_parts_range:
  "in_int64 lo \<Longrightarrow> in_int64 hi \<Longrightarrow>
     brace_parts (itoa lo @ ''..'' @ itoa hi) =
       (if \<not> cap_ok (range_cap lo hi) then None else if lo \<le> hi then count_up lo hi else count_down lo hi)"
  using numeric_range_itoa [of lo hi] dots_contained [of "itoa lo" "itoa hi"]
  by (simp add: brace_parts_def)

lemma range_cap_small: "\<bar>hi - lo\<bar> < 2 ^ 44 \<Longrightarrow> range_cap lo hi = \<bar>hi - lo\<bar> + 1"
proof -
  assume small: "\<bar>hi - lo\<bar> < 2 ^ 44"
  then have "in_int64 (hi - lo)" "in_int64 (lo - hi)" "in_int64 (\<bar>hi - lo\<bar> + 1)"
    by (auto simp: in_int64_def)
  then show ?thesis by (auto simp: range_cap_def abs64_def)
qed

lemma brace_parts_range_Some:
  assumes "in_int64 lo" "in_int64 hi" "lo \<le> hi \<longrightarrow> hi < max_int64" "hi < lo \<longrightarrow> min_int64 < hi"
    and "\<bar>hi - lo\<bar> < 2 ^ 44"
  shows "brace_parts (itoa lo @ ''..'' @ itoa hi) = Some (map itoa (int_range lo hi))"
proof -
  have "cap_ok (range_cap lo hi)" using assms(5) by (simp add: range_cap_small cap_ok_def)
  then show ?thesis
    using assms brace_parts_range [of lo hi] count_up_Some [of lo hi] count_down_Some [of lo hi]
    by (simp add: int_range_def)
qed

lemma brace_parts_list:
  assumes "\<forall>p \<in> set parts. CHR '','' \<notin> set p" "1 < length parts" "\<not> sublist ''..'' (str_join '','' parts)"
  shows "brace_parts (str_join '','' parts) = Some parts"
proof -
  obtain a b cs where p: "parts = a # b # cs"
    using assms(2) by (cases parts; cases "tl parts") auto
  then have "sublist '','' (str_join '','' parts)" by (auto simp: sublist_def)
  moreover have "str_join '','' parts \<noteq> []" using p by simp
  ultimately show ?thesis
    using assms split_join_byte [of parts "CHR '',''"] p by (simp add: brace_parts_def)
qed

section \<open>ExpandPipeline\<close>

lemma expand_commands_preserve:
  "expand_commands glob cwd cs = Some ds \<Longrightarrow>
     map cmd_name ds = map cmd_name cs \<and> map cmd_tainted ds = map cmd_tainted cs"
  by (induction cs arbitrary: ds) (auto split: option.splits)

lemma not_contains_any_subset:
  "\<not> contains_any s cs \<Longrightarrow> set ds \<subseteq> set cs \<Longrightarrow> \<not> contains_any s ds"
  by (auto simp: contains_any_def list_ex_iff)

lemma expand_args_clean:
  "list_all (\<lambda>a. \<not> contains_any a ''{*?['') as \<Longrightarrow> expand_args glob cwd as = Some as"
proof (induction as)
  case Nil
  then show ?case by simp
next
  case (Cons a as)
  then have "CHR ''{'' \<notin> set a" "\<not> contains_any a ''*?[''"
    by (auto simp: contains_any_def list_ex_iff)
  with Cons show ?case by (simp add: expand_brace_none expand_glob_def)
qed

lemma expand_commands_clean:
  "list_all (\<lambda>c. list_all (\<lambda>a. \<not> contains_any a ''{*?['') (cmd_args c)) cs \<Longrightarrow>
     expand_commands glob cwd cs = Some cs"
  by (induction cs) (simp_all add: expand_args_clean)

section \<open>Words made of brace groups\<close>

datatype brace_piece =
    Word_text string
  | Alternatives "string list"
  | Int_range int int

fun brace_render :: "brace_piece \<Rightarrow> string" where
  "brace_render (Word_text w) = w"
| "brace_render (Alternatives ws) = ''{'' @ str_join '','' ws @ ''}''"
| "brace_render (Int_range lo hi) = ''{'' @ itoa lo @ ''..'' @ itoa hi @ ''}''"

fun brace_ok :: "brace_piece \<Rightarrow> bool" where
  "brace_ok (Word_text w) = (CHR ''{'' \<notin> set w)"
| "brace_ok (Alternatives ws) =
     (1 < length ws \<and> list_all (\<lambda>w. CHR '','' \<notin> set w \<and> CHR ''}'' \<notin> set w) ws
        \<and> \<not> str_contains (str_join '','' ws) ''..'')"
| "brace_ok (Int_range lo hi) =
     (in_int64 lo \<and> in_int64 hi \<and> \<bar>hi - lo\<bar> < 2 ^ 44
        \<and> (if lo \<le> hi then hi < max_int64 else min_int64 < hi))"

fun brace_choices :: "brace_piece \<Rightarrow> string list" where
  "brace_choices (Word_text w) = [w]"
| "brace_choices (Alternatives ws) = ws"
| "brace_choices (Int_range lo hi) = map itoa (int_range lo hi)"

text \<open>All ways of choosing, the first group varying slowest.\<close>

fun choose_all :: "brace_piece list \<Rightarrow> string list" where
  "choose_all [] = [[]]"
| "choose_all (p # ps) = concat (map (\<lambda>c. map (\<lambda>t. c @ t) (choose_all ps)) (brace_choices p))"

lemma set_str_join_subset: "c \<in> set (str_join sep ws) \<Longrightarrow> c \<in> set sep \<or> (\<exists>w \<in> set ws. c \<in> set w)"
  by (induction sep ws rule: str_join.induct) auto

lemma brace_group_choices:
  assumes "brace_ok p" "\<forall>w. p \<noteq> Word_text w"
  obtains body where "brace_render p = ''{'' @ body @ ''}''" "CHR ''}'' \<notin> set body"
    "brace_parts body = Some (brace_choices p)" "brace_choices p \<noteq> []"
proof (cases p)
  case (Word_text w)
  with assms show ?thesis by simp
next
  case (Alternatives ws)
  with assms have "CHR ''}'' \<notin> set (str_join '','' ws)" "brace_parts (str_join '','' ws) = Some ws" "ws \<noteq> []"
    using brace_parts_list [of ws] by (auto dest!: set_str_join_subset simp: list.pred_set str_contains_iff)
  with Alternatives that show ?thesis by auto
next
  case (Int_range lo hi)
  with assms have "brace_parts (itoa lo @ ''..'' @ itoa hi) = Some (map itoa (int_range lo hi))"
    by (intro brace_parts_range_Some) (auto split: if_splits)
  moreover have "int_range lo hi \<noteq> []" by (auto simp: int_range_def)
  ultimately show ?thesis using Int_range that [of "itoa lo @ ''..'' @ itoa hi"] itoa_plain by auto
qed

lemma expand_brace_pieces:
  "list_all brace_ok ps \<Longrightarrow> CHR ''{'' \<notin> set pre \<Longrightarrow>
     expand_brace (pre @ concat (map brace_render ps)) = Some (map ((@) pre) (choose_all ps))"
proof (induction ps arbitrary: pre)
  case Nil
  then show ?case by (simp add: expand_brace_none)
next
  case (Cons p ps)
  show ?case
  proof (cases "\<exists>w. p = Word_text w")
    case True
    then obtain w where "p = Word_text w" ..
    with Cons.IH [of "pre @ w"] Cons.prems show ?thesis by (simp add: comp_def)
  next
    case False
    then obtain body where "brace_render p = ''{'' @ body @ ''}''" "CHR ''}'' \<notin> set body"
      "brace_parts body = Some (brace_choices p)" "brace_choices p \<noteq> []"
      using Cons.prems brace_group_choices [of p] by auto
    with Cons.IH [of "[]"] Cons.prems show ?thesis
      using expand_brace_group [of pre body "brace_choices p" "concat (map brace_render ps)"]
      by (simp add: map_concat comp_def map_idI)
  qed
qed

section \<open>Properties\<close>

text \<open>
  C2. Command substitution on a line: for every line made of plain text, quoted text and \<open>$( )\<close>
  around such lines again, nested no deeper than the limit of sixteen, \<open>ExpandLine\<close> runs exactly
  what the line means - inner substitutions first, left to right, each sub-command in the state
  the one before it left, its output spliced in with trailing newlines cut, the first error
  ending the expansion. Without an executor the line comes back as it is.
\<close>

theorem expand_line_meaning:
  assumes "list_all sub_ok ps" "runes_ok ps" "subs_depth ps \<le> max_cmd_sub_depth"
  shows "expand_line ctx st (string_of_runes (sub_renders ps)) =
     (case ctx_cmd_sub ctx of
        None \<Rightarrow> (st, Inr (string_of_runes (sub_renders ps)))
      | Some ex \<Rightarrow> run_pieces ex st ps)"
proof (cases "ctx_cmd_sub ctx")
  case None
  then show ?thesis by (simp add: expand_line_def expand_cmd_sub.simps)
next
  case (Some ex)
  then have "expand_cmd_sub ctx 0 st (string_of_runes (sub_renders ps)) = run_pieces ex st ps"
    using assms by (intro expand_cmd_sub_of_loop cmd_sub_loop_pieces) auto
  with Some show ?thesis by (simp add: expand_line_def)
qed

text \<open>An executor that logs the commands it runs and answers with them and a newline.\<close>

definition logging_executor :: "string list executor" where
  "logging_executor st c = (if c = ''false'' then (st, Inl ''exit 1'') else (c # st, Inr (c @ [CHR 0x0A])))"

definition sample_line :: "sub_piece list" where
  "sample_line = [Plain [101, 32], Sub [Plain [97], Sub [Plain [98]]], Quoted [36, 40], Sub [Plain [99]]]"

theorem expand_line_meaning_witness:
  "expand_line \<lparr>ctx_cwd = ''/'', ctx_cmd_sub = Some logging_executor\<rparr> []
     (string_of_runes (sub_renders sample_line)) =
     ([''c'', ''ab'', ''b''], Inr (''e ab'' @ [CHR 0x27] @ ''$('' @ [CHR 0x27] @ ''c''))"
proof -
  have "list_all sub_ok sample_line" "runes_ok sample_line" "subs_depth sample_line \<le> max_cmd_sub_depth"
    by code_simp+
  moreover have "run_pieces logging_executor [] sample_line =
      ([''c'', ''ab'', ''b''], Inr (''e ab'' @ [CHR 0x27] @ ''$('' @ [CHR 0x27] @ ''c''))"
    by code_simp
  ultimately show ?thesis
    using expand_line_meaning [of sample_line "\<lparr>ctx_cwd = ''/'', ctx_cmd_sub = Some logging_executor\<rparr>" "[]"]
    by simp
qed

text \<open>
  The recursion limit holds: a line of more than sixteen substitutions inside one another is
  refused as too deeply nested, whatever the executor, and no sub-command of it has been run: the
  state is the one before the line.
\<close>

theorem expand_line_depth_limit:
  assumes "ctx_cmd_sub ctx = Some ex" "max_cmd_sub_depth < n"
  shows "expand_line ctx st (string_of_runes (sub_renders (nest n))) = (st, Inl Nesting_too_deep)"
  unfolding expand_line_def using assms by (intro expand_nest_too_deep) auto

theorem expand_line_depth_limit_witness:
  "expand_line \<lparr>ctx_cwd = [], ctx_cmd_sub = Some logging_executor\<rparr> [''before'']
     (string_of_runes (sub_renders (nest 17))) = ([''before''], Inl Nesting_too_deep)"
  by (rule expand_line_depth_limit) (simp_all add: max_cmd_sub_depth_def)

text \<open>
  C38. Brace expansion of a word made of text, comma lists and integer ranges is the list of all
  choices, in order, the first group varying slowest: \<open>a{b,c}{1..2}\<close> gives the four words. Every
  range inside the 64-bit integers that is shorter than 2^44 and whose end is not the extreme one
  is covered, ascending or descending, so the expansion of such words ends and no choice is lost or repeated.
  A range of one number such as \<open>{1..1}\<close> is a group with that one choice, where a comment of \<open>expandBrace\<close>
  says that it collapses to the literal text.
\<close>

theorem expand_brace_choices:
  assumes "list_all brace_ok ps"
  shows "expand_brace (concat (map brace_render ps)) = Some (choose_all ps)"
  using expand_brace_pieces [of ps "[]"] assms by (simp add: map_idI)

theorem expand_brace_choices_witness:
  "expand_brace ''a{b,c}{2..1}'' = Some [''ab2'', ''ab1'', ''ac2'', ''ac1'']"
proof -
  have ok: "list_all brace_ok [Word_text ''a'', Alternatives [''b'', ''c''], Int_range 2 1]" by code_simp
  have render: "concat (map brace_render [Word_text ''a'', Alternatives [''b'', ''c''], Int_range 2 1]) =
      ''a{b,c}{2..1}''" by code_simp
  have choices: "choose_all [Word_text ''a'', Alternatives [''b'', ''c''], Int_range 2 1] =
      [''ab2'', ''ab1'', ''ac2'', ''ac1'']" by code_simp
  from expand_brace_choices [OF ok] show ?thesis unfolding render choices .
qed

text \<open>
  C39. The brace loop has ranges it never finishes: when an ascending range ends at the largest
  64-bit integer the counter wraps around below the bound (or, for a range too long to store, the
  allocation panics first), so \<open>expandBrace\<close> of a word with such a group does not return, whatever
  stands around the group.
\<close>

theorem expand_brace_never_returns:
  assumes "in_int64 lo" "CHR ''{'' \<notin> set pre"
  shows "expand_brace (pre @ ''{'' @ itoa lo @ ''..'' @ itoa max_int64 @ ''}'' @ suf) = None"
proof -
  have "in_int64 max_int64" "lo \<le> max_int64" using assms by (auto simp: in_int64_def)
  then have parts: "brace_parts (itoa lo @ ''..'' @ itoa max_int64) = None"
    using brace_parts_range [OF assms(1)] count_up_diverges [OF assms(1)] by simp
  show ?thesis
    using expand_brace_group_None [OF assms(2) _ parts, of suf] itoa_plain(3) by simp
qed

theorem expand_brace_never_returns_witness:
  "expand_brace ''n{9223372036854775806..9223372036854775807}'' = None"
proof -
  have ok: "in_int64 9223372036854775806" "CHR ''{'' \<notin> set ''n''" by code_simp+
  have render: "''n'' @ ''{'' @ itoa 9223372036854775806 @ ''..'' @ itoa max_int64 @ ''}'' @ [] =
      ''n{9223372036854775806..9223372036854775807}''" by (simp add: itoa_def digits.simps) code_simp
  from expand_brace_never_returns [OF ok, of "[]"] show ?thesis unfolding render .
qed

text \<open>
  \<open>ExpandPipeline\<close> rewrites arguments only: when it returns, the number and the names of the
  commands, their taint, the background flag and the pipeline's taint are those of the parsed
  line; and a pipeline none of whose arguments holds a brace or glob character comes back as it
  is, whatever is on disk.
\<close>

theorem expand_pipeline_frame:
  "(case expand_pipeline glob cwd p of
      None \<Rightarrow> True
    | Some q \<Rightarrow>
        map cmd_name (commands q) = map cmd_name (commands p)
        \<and> map cmd_tainted (commands q) = map cmd_tainted (commands p)
        \<and> background q = background p \<and> tainted q = tainted p)
   \<and> (list_all (\<lambda>c. list_all (\<lambda>a. \<not> contains_any a ''{*?['') (cmd_args c)) (commands p) \<longrightarrow>
        expand_pipeline glob cwd p = Some p)"
proof (intro conjI impI)
  assume "list_all (\<lambda>c. list_all (\<lambda>a. \<not> contains_any a ''{*?['') (cmd_args c)) (commands p)"
  then show "expand_pipeline glob cwd p = Some p"
    by (simp add: expand_pipeline_def expand_commands_clean)
qed (auto simp: expand_pipeline_def expand_commands_preserve split: option.splits)

theorem expand_pipeline_frame_witness:
  "expand_pipeline (\<lambda>_. None) ''/''
     \<lparr>commands = [\<lparr>cmd_name = ''ls'', cmd_args = [''-l'', ''a''], cmd_tainted = True\<rparr>],
       background = True, tainted = True\<rparr> =
   Some \<lparr>commands = [\<lparr>cmd_name = ''ls'', cmd_args = [''-l'', ''a''], cmd_tainted = True\<rparr>],
       background = True, tainted = True\<rparr>"
  by (rule expand_pipeline_frame [THEN conjunct2, rule_format]) code_simp

end
