(* ===== verification/Jobs.thy ===== *)
theory Jobs
  imports Go_Strings "HOL-Library.Multiset"
begin

text \<open>
  \<^verbatim>\<open>shell/internal/jobs/jobs.go\<close>, the job table, with the reaper of
  \<^verbatim>\<open>shell/internal/jobs/signals_unix.go\<close> that feeds it and the shell side that uses it
  (\<^verbatim>\<open>shell/internal/shell/jobs_dispatch.go\<close>, \<^verbatim>\<open>builtin_jobs.go\<close>, \<^verbatim>\<open>builtin_fg_unix.go\<close>,
  \<^verbatim>\<open>builtin_bg_unix.go\<close>). Every table method holds the mutex, so each is one atomic step.
  The Go map from IDs to jobs is a list of jobs with distinct IDs; a range over the map visits
  the jobs in the order of the list, and nothing below assumes what that order is. The notice
  channel is a bounded queue; \<open>SetStatus\<close> sends its notice right after it unlocks the table, which is
  part of its step here.
\<close>

section \<open>Jobs, notices, the table\<close>

datatype job_status = Status_running | Status_stopped | Status_done

definition status_string :: "job_status \<Rightarrow> string" where
  "status_string s =
     (case s of Status_running \<Rightarrow> ''Running'' | Status_stopped \<Rightarrow> ''Stopped'' | Status_done \<Rightarrow> ''Done'')"

record job =
  job_id :: int
  job_pgid :: int
  job_leader_pid :: int
  job_cmdline :: string
  job_status :: job_status
  job_exit_code :: int
  job_foreground :: bool

record notice =
  ntc_id :: int
  ntc_flag :: string
  ntc_status :: job_status
  ntc_cmdline :: string
  ntc_exit_code :: int

record job_table =
  jt_jobs :: "job list"
  jt_next_id :: int
  jt_current :: int
  jt_prev :: int
  jt_notices :: "notice list"

definition notice_cap :: nat where
  "notice_cap = 32"

definition new_job_table :: job_table where
  "new_job_table = \<lparr>jt_jobs = [], jt_next_id = 1, jt_current = 0, jt_prev = 0, jt_notices = []\<rparr>"

text \<open>Reading and writing the map: \<open>jobs[id]\<close>, \<open>jobs[id] = j\<close> and a write through \<open>*Job\<close>.\<close>

definition get_job :: "job_table \<Rightarrow> int \<Rightarrow> job option" where
  "get_job jt i = find (\<lambda>j. job_id j = i) (jt_jobs jt)"

definition put_job :: "job \<Rightarrow> job list \<Rightarrow> job list" where
  "put_job j js = filter (\<lambda>x. job_id x \<noteq> job_id j) js @ [j]"

definition update_job :: "int \<Rightarrow> (job \<Rightarrow> job) \<Rightarrow> job list \<Rightarrow> job list" where
  "update_job i f js = map (\<lambda>j. if job_id j = i then f j else j) js"

section \<open>The methods\<close>

definition add_job :: "job_table \<Rightarrow> int \<Rightarrow> int \<Rightarrow> string \<Rightarrow> job_status \<Rightarrow> job_table \<times> job" where
  "add_job jt pgid leader cmdline status =
     (let i = jt_next_id jt;
          j = \<lparr>job_id = i, job_pgid = pgid, job_leader_pid = leader, job_cmdline = cmdline,
               job_status = status, job_exit_code = 0, job_foreground = False\<rparr>
      in (jt\<lparr>jt_next_id := i + 1, jt_jobs := put_job j (jt_jobs jt), jt_prev := jt_current jt,
             jt_current := i\<rparr>, j))"

definition mark_foreground :: "job_table \<Rightarrow> int \<Rightarrow> job_table" where
  "mark_foreground jt i = jt\<lparr>jt_jobs := update_job i (\<lambda>j. j\<lparr>job_foreground := True\<rparr>) (jt_jobs jt)\<rparr>"

definition add_foreground :: "job_table \<Rightarrow> int \<Rightarrow> int \<Rightarrow> string \<Rightarrow> job_table \<times> job" where
  "add_foreground jt pgid leader cmdline =
     (case add_job jt pgid leader cmdline Status_running of
        (jt', j) \<Rightarrow> (mark_foreground jt' (job_id j), j\<lparr>job_foreground := True\<rparr>))"

text \<open>
  \<open>fmt.Sscanf(s, "%d", &id)\<close>: blanks are skipped (a newline among them is an error), then an
  optional sign and the longest run of digits; what follows is ignored. The value must fit.
\<close>

definition sscanf_int :: "string \<Rightarrow> int option" where
  "sscanf_int s =
     (let rs = runes_of s;
          blanks = takeWhile is_space rs;
          rest = dropWhile is_space rs;
          sign = takeWhile (\<lambda>r. r = 43 \<or> r = 45) (take 1 rest);
          ds = takeWhile (\<lambda>r. 48 \<le> r \<and> r \<le> 57) (drop (length sign) rest)
      in if List.member blanks 10 \<or> ds = [] then None else atoi (string_of_runes (sign @ ds)))"

definition find_job :: "job_table \<Rightarrow> string \<Rightarrow> job option" where
  "find_job jt spec0 =
     (let spec = trim_space spec0 in
      if spec = [] \<or> spec = ''%+'' \<or> spec = ''%'' then
        (if jt_current jt = 0 then None else get_job jt (jt_current jt))
      else if spec = ''%-'' then
        (if jt_prev jt = 0 then None else get_job jt (jt_prev jt))
      else
        (case sscanf_int (trim_prefix spec ''%'') of
           None \<Rightarrow> None
         | Some i \<Rightarrow> get_job jt i))"

definition find_by_pid :: "job_table \<Rightarrow> int \<Rightarrow> job option" where
  "find_by_pid jt pid = find (\<lambda>j. job_leader_pid j = pid) (jt_jobs jt)"

definition is_foreground :: "job_table \<Rightarrow> int \<Rightarrow> bool" where
  "is_foreground jt pid = list_ex (\<lambda>j. job_leader_pid j = pid \<and> job_foreground j) (jt_jobs jt)"

definition flag_for :: "job_table \<Rightarrow> int \<Rightarrow> string" where
  "flag_for jt i = (if i = jt_current jt then ''+'' else if i = jt_prev jt then ''-'' else '' '')"

text \<open>The non-blocking send of \<open>SetStatus\<close>: a full channel drops the notice.\<close>

definition send_notice :: "notice \<Rightarrow> notice list \<Rightarrow> notice list" where
  "send_notice n q = (if length q < notice_cap then q @ [n] else q)"

definition set_status :: "job_table \<Rightarrow> int \<Rightarrow> job_status \<Rightarrow> int \<Rightarrow> job_table" where
  "set_status jt i status code =
     (case get_job jt i of
        None \<Rightarrow> jt
      | Some j \<Rightarrow>
          (let notify = (\<not> job_foreground j \<and> (status = Status_done \<or> status = Status_stopped)
                         \<and> job_status j \<noteq> status);
               flag = flag_for jt i;
               jt' = jt\<lparr>jt_jobs := update_job i (\<lambda>j. j\<lparr>job_status := status, job_exit_code := code\<rparr>) (jt_jobs jt)\<rparr>
           in if notify
              then jt'\<lparr>jt_notices := send_notice \<lparr>ntc_id = i, ntc_flag = flag, ntc_status = status,
                     ntc_cmdline = job_cmdline j, ntc_exit_code = code\<rparr> (jt_notices jt')\<rparr>
              else jt'))"

fun clear_first :: "int \<Rightarrow> job list \<Rightarrow> job list" where
  "clear_first pid [] = []"
| "clear_first pid (j # js) =
     (if job_leader_pid j = pid then j\<lparr>job_foreground := False\<rparr> # js else j # clear_first pid js)"

definition clear_foreground :: "job_table \<Rightarrow> int \<Rightarrow> job_table" where
  "clear_foreground jt pid = jt\<lparr>jt_jobs := clear_first pid (jt_jobs jt)\<rparr>"

definition set_running :: "job_table \<Rightarrow> int \<Rightarrow> job_table" where
  "set_running jt i =
     jt\<lparr>jt_jobs := update_job i (\<lambda>j. j\<lparr>job_status := Status_running, job_exit_code := 0\<rparr>) (jt_jobs jt)\<rparr>"

text \<open>The two scans for the highest ID and the one below it.\<close>

fun highest_scan :: "int \<Rightarrow> job list \<Rightarrow> int" where
  "highest_scan best [] = best"
| "highest_scan best (j # js) = highest_scan (if best < job_id j then job_id j else best) js"

fun second_scan :: "int \<Rightarrow> int \<Rightarrow> job list \<Rightarrow> int" where
  "second_scan fst_best snd_best [] = snd_best"
| "second_scan fst_best snd_best (j # js) =
     (if fst_best < job_id j then second_scan (job_id j) fst_best js
      else if snd_best < job_id j then second_scan fst_best (job_id j) js
      else second_scan fst_best snd_best js)"

definition reap :: "job_table \<Rightarrow> job_table \<times> int list" where
  "reap jt =
     (let removed = map job_id (filter (\<lambda>j. job_status j = Status_done) (jt_jobs jt));
          live = filter (\<lambda>j. job_status j \<noteq> Status_done) (jt_jobs jt);
          jt' = jt\<lparr>jt_jobs := live\<rparr>
      in if live = [] then (jt'\<lparr>jt_next_id := 1, jt_current := 0, jt_prev := 0\<rparr>, removed)
         else
           (let jt1 = (if get_job jt' (jt_current jt') = None
                       then jt'\<lparr>jt_current := highest_scan 0 live\<rparr> else jt');
                jt2 = (if get_job jt1 (jt_prev jt1) = None
                       then jt1\<lparr>jt_prev := second_scan 0 0 live\<rparr> else jt1)
            in (jt2, removed)))"

text \<open>
  \<open>List\<close>: the IDs sorted by insertion, one line for each. \<open>%-8s\<close> pads on the right.
\<close>

definition pad_right :: "nat \<Rightarrow> string \<Rightarrow> string" where
  "pad_right n s = s @ replicate (n - length s) CHR '' ''"

fun insert_id :: "int \<Rightarrow> int list \<Rightarrow> int list" where
  "insert_id x [] = [x]"
| "insert_id x (y # ys) = (if x < y then x # y # ys else y # insert_id x ys)"

definition sort_ids :: "int list \<Rightarrow> int list" where
  "sort_ids ids = foldl (\<lambda>acc x. insert_id x acc) [] ids"

definition job_line :: "job_table \<Rightarrow> int \<Rightarrow> string" where
  "job_line jt i =
     (case get_job jt i of
        None \<Rightarrow> []
      | Some j \<Rightarrow>
          ''['' @ itoa i @ '']'' @ flag_for jt i @ ''  '' @ pad_right 8 (status_string (job_status j))
            @ '' '' @ job_cmdline j)"

definition list_jobs :: "job_table \<Rightarrow> string list" where
  "list_jobs jt = map (job_line jt) (sort_ids (map job_id (jt_jobs jt)))"

definition pending_notices :: "job_table \<Rightarrow> job_table \<times> notice list" where
  "pending_notices jt = (jt\<lparr>jt_notices := []\<rparr>, jt_notices jt)"

definition snapshot :: "job_table \<Rightarrow> job list" where
  "snapshot jt = jt_jobs jt"

definition set_current :: "job_table \<Rightarrow> int \<Rightarrow> job_table" where
  "set_current jt i =
     (if get_job jt i = None then jt
      else if jt_current jt = i then jt
      else jt\<lparr>jt_prev := jt_current jt, jt_current := i\<rparr>)"

section \<open>The reaper\<close>

text \<open>What \<open>Wait4\<close> reports for a child: \<open>drain\<close> hands it to the first table that owns the pid.\<close>

datatype wait_status = Exited int | Signaled int | Stopped_by_signal | Continued

definition apply_wait :: "job_table \<Rightarrow> int \<Rightarrow> wait_status \<Rightarrow> job_table" where
  "apply_wait jt i ws =
     (case ws of
        Exited c \<Rightarrow> set_status jt i Status_done c
      | Signaled s \<Rightarrow> set_status jt i Status_done (128 + s)
      | Stopped_by_signal \<Rightarrow> set_status jt i Status_stopped 0
      | Continued \<Rightarrow> set_status jt i Status_running 0)"

fun drain_one :: "int \<times> wait_status \<Rightarrow> job_table list \<Rightarrow> job_table list" where
  "drain_one ev [] = []"
| "drain_one ev (jt # jts) =
     (case find_by_pid jt (fst ev) of
        Some j \<Rightarrow> apply_wait jt (job_id j) (snd ev) # jts
      | None \<Rightarrow> jt # drain_one ev jts)"

definition drain :: "(int \<times> wait_status) list \<Rightarrow> job_table list \<Rightarrow> job_table list" where
  "drain evs jts = foldl (\<lambda>ts ev. drain_one ev ts) jts evs"

text \<open>The same on the one table of a process with a single shell.\<close>

definition reap_event :: "job_table \<Rightarrow> int \<times> wait_status \<Rightarrow> job_table" where
  "reap_event jt ev =
     (case find_by_pid jt (fst ev) of None \<Rightarrow> jt | Some j \<Rightarrow> apply_wait jt (job_id j) (snd ev))"

lemma drain_single: "drain evs [jt] = [foldl reap_event jt evs]"
proof -
  have "drain_one ev [jt] = [reap_event jt ev]" for ev jt
    by (simp add: reap_event_def split: option.split)
  then show ?thesis by (induction evs arbitrary: jt) (simp_all add: drain_def)
qed

section \<open>The shell side\<close>

text \<open>\<open>drainJobNotices\<close>: the lines printed before a prompt, and the table after \<open>Reap\<close>.\<close>

definition notice_line :: "notice \<Rightarrow> string" where
  "notice_line n =
     (let head = ''['' @ itoa (ntc_id n) @ '']'' @ ntc_flag n in
      case ntc_status n of
        Status_done \<Rightarrow>
          if ntc_exit_code n = 0 then head @ ''  Done       '' @ ntc_cmdline n @ [CHR 0x0A]
          else head @ ''  Exit '' @ pad_right 3 (itoa (ntc_exit_code n)) @ ''  '' @ ntc_cmdline n @ [CHR 0x0A]
      | Status_stopped \<Rightarrow> head @ ''  Stopped    '' @ ntc_cmdline n @ [CHR 0x0A]
      | Status_running \<Rightarrow> [])"

definition drain_job_notices :: "job_table \<Rightarrow> job_table \<times> string" where
  "drain_job_notices jt =
     (case pending_notices jt of
        (jt', ns) \<Rightarrow> (fst (reap jt'), concat (map notice_line ns)))"

text \<open>
  \<open>runBackground\<close> after a successful spawn that gave \<open>pgid\<close> and \<open>leader\<close>: the job is recorded
  under the line without its trailing ampersands.
\<close>

definition record_background :: "job_table \<Rightarrow> int \<Rightarrow> int \<Rightarrow> string \<Rightarrow> job_table \<times> string" where
  "record_background jt pgid leader cmdline =
     (let clean = trim_space (trim_right_set (trim_space cmdline) ''&'') in
      case add_job jt pgid leader clean Status_running of
        (jt', j) \<Rightarrow> (jt', ''['' @ itoa (job_id j) @ ''] '' @ itoa pgid @ [CHR 0x0A]))"

text \<open>
  The built-ins. A result is the exit code with what went to stdout and stderr. \<open>kill\<close> is the
  outcome of \<open>SIGCONT\<close>: \<open>None\<close> for success, else whether it was \<open>ESRCH\<close>, and the message.
\<close>

type_synonym builtin_result = "int \<times> string \<times> string"

type_synonym kill_result = "(bool \<times> string) option"

text \<open>\<open>%q\<close>: the escapes of ASCII; other runes are printed as they are.\<close>

definition hex_digit :: "nat \<Rightarrow> char" where
  "hex_digit d = (if d < 10 then char_of (48 + d) else char_of (87 + d))"

definition quote_char :: "char \<Rightarrow> string" where
  "quote_char c =
     (let b = (of_char c :: nat); esc = (\<lambda>x. [CHR 0x5C, x]) in
      if b = 34 \<or> b = 92 then esc c
      else if b = 7 then esc CHR ''a'' else if b = 8 then esc CHR ''b'' else if b = 12 then esc CHR ''f''
      else if b = 10 then esc CHR ''n'' else if b = 13 then esc CHR ''r'' else if b = 9 then esc CHR ''t''
      else if b = 11 then esc CHR ''v''
      else if b < 32 \<or> b = 127 then esc CHR ''x'' @ [hex_digit (b div 16), hex_digit (b mod 16)]
      else [c])"

definition quoted :: "string \<Rightarrow> string" where
  "quoted s = [CHR 0x22] @ concat (map quote_char s) @ [CHR 0x22]"

definition nl :: "string \<Rightarrow> string" where
  "nl s = s @ [CHR 0x0A]"

definition jobs_builtin :: "job_table \<Rightarrow> string list \<Rightarrow> builtin_result" where
  "jobs_builtin jt args =
     (if args \<noteq> [] then
        (2, [], nl (''aish: jobs: unexpected argument(s): ['' @ str_join '' '' args @ ''] (only bare ''
             @ [CHR 0x60] @ ''jobs'' @ [CHR 0x60] @ '' is supported)''))
      else (0, concat (map nl (list_jobs jt)), []))"

definition bg_builtin :: "kill_result \<Rightarrow> job_table \<Rightarrow> string list \<Rightarrow> job_table \<times> builtin_result" where
  "bg_builtin kill jt args =
     (let spec = (case args of [] \<Rightarrow> [] | a # _ \<Rightarrow> a) in
      if 1 < length args then (jt, 2, [], nl ''aish: bg: usage: bg [%n]'')
      else
        (case find_job jt spec of
           None \<Rightarrow> (jt, 1, [], nl (''aish: bg: no such job: '' @ quoted spec))
         | Some j \<Rightarrow>
             (case kill of
                Some (False, m) \<Rightarrow> (jt, 1, [], nl (''aish: bg: SIGCONT: '' @ m))
              | _ \<Rightarrow> (set_running jt (job_id j), 0,
                      nl (''['' @ itoa (job_id j) @ '']+ '' @ job_cmdline j @ '' &''), []))))"

text \<open>
  The polling loop of \<open>fg\<close>. Between two polls the reaper may run: each element of the list is
  what it drains before the next poll. \<open>None\<close> when the job is still running at the last poll.
  148 is \<open>128 + SIGTSTP\<close>.
\<close>

fun fg_wait :: "int \<Rightarrow> job_table \<Rightarrow> (int \<times> wait_status) list list \<Rightarrow> job_table \<times> (int \<times> string) option" where
  "fg_wait i jt [] = (jt, None)"
| "fg_wait i jt (evs # rest) =
     (let jt' = foldl reap_event jt evs in
      case find_job jt' (''%'' @ itoa i) of
        None \<Rightarrow> (jt', Some (0, []))
      | Some j \<Rightarrow>
          (case job_status j of
             Status_done \<Rightarrow> (jt', Some (job_exit_code j, []))
           | Status_stopped \<Rightarrow>
               (jt', Some (148, nl ([CHR 0x0A] @ ''['' @ itoa (job_id j) @ '']+  Stopped    '' @ job_cmdline j)))
           | Status_running \<Rightarrow> fg_wait i jt' rest))"

definition fg_builtin ::
  "kill_result \<Rightarrow> (int \<times> wait_status) list list \<Rightarrow> job_table \<Rightarrow> string list \<Rightarrow> job_table \<times> builtin_result option" where
  "fg_builtin kill sched jt args =
     (let spec = (case args of [] \<Rightarrow> [] | a # _ \<Rightarrow> a) in
      if 1 < length args then (jt, Some (2, [], nl ''aish: fg: usage: fg [%n]''))
      else
        (case find_job jt spec of
           None \<Rightarrow> (jt, Some (1, [], nl (''aish: fg: no such job: '' @ quoted spec)))
         | Some j \<Rightarrow>
             (let jt1 = mark_foreground (set_current jt (job_id j)) (job_id j) in
              case kill of
                Some (False, m) \<Rightarrow>
                  (clear_foreground jt1 (job_leader_pid j),
                   Some (1, nl (job_cmdline j), nl (''aish: fg: SIGCONT: '' @ m)))
              | _ \<Rightarrow>
                  (case fg_wait (job_id j) jt1 sched of
                     (jt2, None) \<Rightarrow> (jt2, None)
                   | (jt2, Some (code, err)) \<Rightarrow>
                       (clear_foreground jt2 (job_leader_pid j), Some (code, nl (job_cmdline j), err))))))"

text \<open>What \<open>Shell.Close\<close> signals: the process groups of the jobs that are not done.\<close>

definition close_targets :: "job_table \<Rightarrow> int list" where
  "close_targets jt = map job_pgid (filter (\<lambda>j. job_status j \<noteq> Status_done) (snapshot jt))"

section \<open>The map\<close>

lemma get_job_Some: "get_job jt i = Some j \<Longrightarrow> j \<in> set (jt_jobs jt) \<and> job_id j = i"
  by (auto simp: get_job_def find_Some_iff)

lemma get_job_None: "get_job jt i = None \<longleftrightarrow> i \<notin> job_id ` set (jt_jobs jt)"
  by (auto simp: get_job_def find_None_iff)

lemma find_distinct: "distinct (map job_id js) \<Longrightarrow> j \<in> set js \<Longrightarrow> find (\<lambda>x. job_id x = job_id j) js = Some j"
  by (induction js) auto

lemma get_job_in: "distinct (map job_id (jt_jobs jt)) \<Longrightarrow> j \<in> set (jt_jobs jt) \<Longrightarrow> get_job jt (job_id j) = Some j"
  by (simp add: get_job_def find_distinct)

lemma update_job_ids: "(\<And>j. job_id (f j) = job_id j) \<Longrightarrow> map job_id (update_job i f js) = map job_id js"
  by (simp add: update_job_def)

lemma find_update_job:
  "(\<And>j. job_id (f j) = job_id j) \<Longrightarrow>
     find (\<lambda>j. job_id j = k) (update_job i f js) =
       map_option (\<lambda>j. if job_id j = i then f j else j) (find (\<lambda>j. job_id j = k) js)"
  by (induction js) (auto simp: update_job_def)

lemma clear_first_ids [simp]: "map job_id (clear_first pid js) = map job_id js"
  by (induction js) auto

section \<open>The invariant and the reachable tables\<close>

definition ids_ok :: "int list \<Rightarrow> int \<Rightarrow> int \<Rightarrow> int \<Rightarrow> bool" where
  "ids_ok ids nxt cur prv \<longleftrightarrow>
     distinct ids \<and> (\<forall>i \<in> set ids. 0 < i \<and> i < nxt) \<and> 0 < nxt
     \<and> (if ids = [] then cur = 0 else cur \<in> set ids) \<and> (prv = 0 \<or> prv \<in> set ids)"

definition table_inv :: "job_table \<Rightarrow> bool" where
  "table_inv jt \<longleftrightarrow>
     ids_ok (map job_id (jt_jobs jt)) (jt_next_id jt) (jt_current jt) (jt_prev jt)
     \<and> length (jt_notices jt) \<le> notice_cap"

text \<open>Each method of the table is a step; the reaper and the built-ins only compose them.\<close>

inductive table_step :: "job_table \<Rightarrow> job_table \<Rightarrow> bool" where
  step_add: "table_step jt (fst (add_job jt pgid leader cmdline status))"
| step_mark: "table_step jt (mark_foreground jt i)"
| step_clear: "table_step jt (clear_foreground jt pid)"
| step_status: "table_step jt (set_status jt i status code)"
| step_running: "table_step jt (set_running jt i)"
| step_current: "table_step jt (set_current jt i)"
| step_reap: "table_step jt (fst (reap jt))"
| step_notices: "table_step jt (fst (pending_notices jt))"

inductive table_reachable :: "job_table \<Rightarrow> bool" where
  reach_new: "table_reachable new_job_table"
| reach_step: "table_reachable jt \<Longrightarrow> table_step jt jt' \<Longrightarrow> table_reachable jt'"

lemma highest_scan_ge: "best \<le> highest_scan best js"
proof (induction js arbitrary: best)
  case (Cons j js)
  from Cons [of "if best < job_id j then job_id j else best"] show ?case by (auto split: if_splits)
qed simp

lemma highest_scan_in: "highest_scan best js = best \<or> highest_scan best js \<in> job_id ` set js"
  by (induction js arbitrary: best) auto

lemma highest_scan_max: "j \<in> set js \<Longrightarrow> job_id j \<le> highest_scan best js"
proof (induction js arbitrary: best)
  case (Cons x js)
  have "job_id x \<le> highest_scan (if best < job_id x then job_id x else best) js"
    using highest_scan_ge [of "if best < job_id x then job_id x else best" js] by (auto split: if_splits)
  with Cons show ?case by auto
qed simp

lemma second_scan_in: "second_scan a b js \<in> insert a (insert b (job_id ` set js))"
  by (induction a b js rule: second_scan.induct) auto

lemma add_job_inv [inv_intros]: "table_inv jt \<Longrightarrow> table_inv (fst (add_job jt pgid leader cmdline status))"
  by (auto simp: table_inv_def ids_ok_def add_job_def put_job_def Let_def distinct_map_filter split: if_splits)

lemma update_job_inv:
  "table_inv jt \<Longrightarrow> (\<And>j. job_id (f j) = job_id j) \<Longrightarrow>
     table_inv (jt\<lparr>jt_jobs := update_job i f (jt_jobs jt)\<rparr>)"
  using update_job_ids [of f i "jt_jobs jt"] by (simp add: table_inv_def)

lemma clear_foreground_inv [inv_intros]: "table_inv jt \<Longrightarrow> table_inv (clear_foreground jt pid)"
  by (simp add: table_inv_def clear_foreground_def)

lemma notices_inv: "table_inv jt \<Longrightarrow> length q \<le> notice_cap \<Longrightarrow> table_inv (jt\<lparr>jt_notices := q\<rparr>)"
  by (simp add: table_inv_def)

lemma send_notice_cap: "length q \<le> notice_cap \<Longrightarrow> length (send_notice n q) \<le> notice_cap"
  by (simp add: send_notice_def)

lemma set_status_inv [inv_intros]:
  assumes "table_inv jt"
  shows "table_inv (set_status jt i status code)"
proof -
  let ?jt = "jt\<lparr>jt_jobs := update_job i (\<lambda>j. j\<lparr>job_status := status, job_exit_code := code\<rparr>) (jt_jobs jt)\<rparr>"
  have "table_inv ?jt" by (rule update_job_inv [OF assms]) simp
  moreover have "length (jt_notices jt) \<le> notice_cap" using assms by (simp add: table_inv_def)
  ultimately have "table_inv (?jt\<lparr>jt_notices := send_notice n (jt_notices ?jt)\<rparr>)" for n
    by (intro notices_inv send_notice_cap) simp_all
  with assms \<open>table_inv ?jt\<close> show ?thesis
    by (simp add: set_status_def Let_def split: option.split)
qed

lemma set_current_inv [inv_intros]: "table_inv jt \<Longrightarrow> table_inv (set_current jt i)"
  by (auto simp: table_inv_def ids_ok_def set_current_def get_job_None split: if_splits)

lemma reap_inv [inv_intros]:
  assumes "table_inv jt"
  shows "table_inv (fst (reap jt))"
proof (cases "filter (\<lambda>j. job_status j \<noteq> Status_done) (jt_jobs jt) = []")
  case True
  then show ?thesis using assms by (simp add: reap_def table_inv_def ids_ok_def Let_def)
next
  case False
  define live where "live = filter (\<lambda>j. job_status j \<noteq> Status_done) (jt_jobs jt)"
  have live: "distinct (map job_id live)" "\<forall>i \<in> job_id ` set live. 0 < i \<and> i < jt_next_id jt" "live \<noteq> []"
    using assms False by (auto simp: table_inv_def ids_ok_def live_def distinct_map_filter)
  define c where "c = (if jt_current jt \<in> job_id ` set live then jt_current jt else highest_scan 0 live)"
  define p where "p = (if jt_prev jt \<in> job_id ` set live then jt_prev jt else second_scan 0 0 live)"
  obtain x where x: "x \<in> set live" using live(3) by (cases live) auto
  then have "0 < job_id x" using live(2) by auto
  then have "0 < highest_scan 0 live" using highest_scan_max [OF x, of 0] by linarith
  then have c: "c \<noteq> 0 \<and> c \<in> job_id ` set live" using highest_scan_in [of 0 live] live(2) by (auto simp: c_def)
  have p: "p = 0 \<or> p \<in> job_id ` set live" using second_scan_in [of 0 0 live] by (auto simp: p_def)
  have "fst (reap jt) = jt\<lparr>jt_jobs := live, jt_current := c, jt_prev := p\<rparr>"
    using False by (simp add: reap_def live_def [symmetric] Let_def get_job_None c_def p_def)
  with live c p assms show ?thesis by (auto simp: table_inv_def ids_ok_def)
qed

lemma table_step_inv:
  assumes "table_step jt jt'" "table_inv jt"
  shows "table_inv jt'"
  using assms
  by cases (auto simp: mark_foreground_def set_running_def pending_notices_def
    intro: add_job_inv clear_foreground_inv set_status_inv set_current_inv reap_inv update_job_inv notices_inv)

lemma table_reachable_inv: "table_reachable jt \<Longrightarrow> table_inv jt"
proof (induction rule: table_reachable.induct)
  case reach_new
  then show ?case by (simp add: table_inv_def ids_ok_def new_job_table_def)
next
  case (reach_step jt jt')
  then show ?case using table_step_inv by blast
qed

section \<open>What the shell relies on\<close>

text \<open>
  The contract between the job table and its users: jobs are registered under fresh IDs, and a
  status update is seen by a lookup of that ID and by no other.
\<close>

definition with_status :: "job_status \<Rightarrow> int \<Rightarrow> job \<Rightarrow> job" where
  "with_status status code j = j\<lparr>job_status := status, job_exit_code := code\<rparr>"

locale job_registry =
  fixes inv :: "'t \<Rightarrow> bool"
    and lookup :: "'t \<Rightarrow> int \<Rightarrow> job option"
    and register :: "'t \<Rightarrow> int \<Rightarrow> int \<Rightarrow> string \<Rightarrow> job_status \<Rightarrow> 't \<times> job"
    and update :: "'t \<Rightarrow> int \<Rightarrow> job_status \<Rightarrow> int \<Rightarrow> 't"
  assumes inv_register: "inv t \<Longrightarrow> inv (fst (register t pg l c s))"
    and inv_update: "inv t \<Longrightarrow> inv (update t i s code)"
    and register_fresh: "inv t \<Longrightarrow> lookup t (job_id (snd (register t pg l c s))) = None"
    and lookup_register: "inv t \<Longrightarrow> lookup (fst (register t pg l c s)) i =
        (if i = job_id (snd (register t pg l c s)) then Some (snd (register t pg l c s)) else lookup t i)"
    and lookup_update: "inv t \<Longrightarrow> lookup (update t i s code) k =
        map_option (if k = i then with_status s code else id) (lookup t k)"
begin

text \<open>A sequence of status updates: a job ends up with the last one that names it.\<close>

lemma lookup_updates:
  "inv t \<Longrightarrow> lookup (foldl (\<lambda>t (i, s, c). update t i s c) t evs) k =
     map_option (\<lambda>j. foldl (\<lambda>j (s, c). with_status s c j) j (map snd (filter (\<lambda>ev. fst ev = k) evs))) (lookup t k)"
proof (induction evs arbitrary: t)
  case Nil
  then show ?case by (simp add: option.map_ident)
next
  case (Cons ev evs)
  obtain i s c where ev: "ev = (i, s, c)" by (cases ev)
  have "inv (update t i s c)" using Cons.prems inv_update by blast
  with Cons.IH [of "update t i s c"] Cons.prems show ?case
    by (simp add: ev lookup_update option.map_comp comp_def)
qed

lemma registered_job_kept:
  assumes "inv t" "\<forall>ev \<in> set evs. fst ev \<noteq> job_id (snd (register t pg l c s))"
  shows "lookup (foldl (\<lambda>t (i, s, c). update t i s c) (fst (register t pg l c s)) evs)
      (job_id (snd (register t pg l c s))) = Some (snd (register t pg l c s))"
proof -
  have "filter (\<lambda>ev. fst ev = job_id (snd (register t pg l c s))) evs = []"
    using assms(2) by (auto simp: filter_empty_conv)
  with lookup_updates [OF inv_register [OF assms(1)]] assms(1) show ?thesis
    by (simp add: lookup_register)
qed

end

lemma get_job_update_job:
  "(\<And>j. job_id (f j) = job_id j) \<Longrightarrow>
     get_job (jt\<lparr>jt_jobs := update_job i f (jt_jobs jt)\<rparr>) k = map_option (if k = i then f else id) (get_job jt k)"
  using find_update_job [of f k i "jt_jobs jt"] by (auto simp: get_job_def find_Some_iff intro!: option.map_cong)

lemma get_job_set_status:
  "get_job (set_status jt i s c) k = map_option (if k = i then with_status s c else id) (get_job jt k)"
proof (cases "get_job jt i")
  case None
  then show ?thesis by (auto simp: set_status_def option.map_id)
next
  case (Some j)
  have ws: "with_status s c = (\<lambda>j. j\<lparr>job_status := s, job_exit_code := c\<rparr>)" by (rule ext) (simp add: with_status_def)
  have "get_job (jt'\<lparr>jt_notices := q\<rparr>) k = get_job jt' k" for jt' q by (simp add: get_job_def)
  moreover have "get_job (jt\<lparr>jt_jobs := update_job i (\<lambda>j. j\<lparr>job_status := s, job_exit_code := c\<rparr>) (jt_jobs jt)\<rparr>) k
      = map_option (if k = i then with_status s c else id) (get_job jt k)"
    unfolding ws by (rule get_job_update_job) simp
  ultimately show ?thesis using Some by (cases "k = i") (simp_all add: set_status_def Let_def)
qed

lemma get_job_add:
  assumes "table_inv jt"
  shows "get_job (fst (add_job jt pgid leader cmdline status)) i =
     (if i = job_id (snd (add_job jt pgid leader cmdline status)) then Some (snd (add_job jt pgid leader cmdline status))
      else get_job jt i)"
    and "get_job jt (job_id (snd (add_job jt pgid leader cmdline status))) = None"
proof -
  have fresh: "\<forall>x \<in> set (jt_jobs jt). job_id x \<noteq> jt_next_id jt" using assms by (auto simp: table_inv_def ids_ok_def)
  then have "filter (\<lambda>x. job_id x \<noteq> jt_next_id jt) (jt_jobs jt) = jt_jobs jt"
    by (intro filter_True) auto
  moreover have "find (\<lambda>j. job_id j = jt_next_id jt) (jt_jobs jt) = None"
    using fresh by (auto simp: find_None_iff)
  moreover have "find P (xs @ ys) = (case find P xs of None \<Rightarrow> find P ys | Some x \<Rightarrow> Some x)" for P and xs ys :: "job list"
    by (induction xs) auto
  ultimately show "get_job (fst (add_job jt pgid leader cmdline status)) i =
     (if i = job_id (snd (add_job jt pgid leader cmdline status)) then Some (snd (add_job jt pgid leader cmdline status))
      else get_job jt i)"
    by (simp add: get_job_def add_job_def put_job_def Let_def split: option.split)
  show "get_job jt (job_id (snd (add_job jt pgid leader cmdline status))) = None"
    using fresh by (auto simp: get_job_None add_job_def Let_def)
qed

interpretation table: job_registry table_inv get_job add_job set_status
  by unfold_locales (simp_all add: add_job_inv set_status_inv get_job_add get_job_set_status)

section \<open>Specifications of a job\<close>

lemma sscanf_itoa:
  assumes "0 \<le> i" "in_int64 i"
  shows "sscanf_int (itoa i) = Some i"
proof -
  have dig: "is_digit c" if "c \<in> set (itoa i)" for c
    using that assms(1) is_digit_digits [of "nat i"] by (auto simp: itoa_def list.pred_set)
  then have "ascii (itoa i)" by (force simp: ascii_def is_digit_def)
  then have rs: "runes_of (itoa i) = map of_char (itoa i)" "string_of_runes (map of_char (itoa i)) = itoa i"
    by (simp_all add: runes_of_ascii string_of_runes_ascii)
  obtain d ds where hd: "map of_char (itoa i) = (d::nat) # ds" by (cases "itoa i") auto
  have nums: "\<forall>r \<in> set (d # ds). 48 \<le> r \<and> r \<le> 57"
    using dig unfolding hd [symmetric] by (auto simp: is_digit_def)
  then have d: "\<not> is_space d" "\<not> (d = 43 \<or> d = 45)" by (auto simp: is_space_def)
  have "takeWhile (\<lambda>r. 48 \<le> r \<and> r \<le> 57) (d # ds) = d # ds" using nums by (simp only: takeWhile_eq_all_conv)
  then have "sscanf_int (itoa i) = atoi (string_of_runes (d # ds))"
    unfolding sscanf_int_def rs hd Let_def using d by simp
  then show ?thesis using rs(2) hd assms(2) atoi_itoa by simp
qed

lemma find_job_number:
  assumes "0 \<le> i" "in_int64 i"
  shows "find_job jt (''%'' @ itoa i) = get_job jt i"
proof -
  have dig: "is_digit c" if "c \<in> set (itoa i)" for c
    using that assms(1) is_digit_digits [of "nat i"] by (auto simp: itoa_def list.pred_set)
  have "is_digit (last (itoa i))" using dig itoa_not_Nil last_in_set by blast
  then have "trim_space (''%'' @ itoa i) = ''%'' @ itoa i"
    by (intro trim_space_id) (auto simp: is_digit_def is_space_def)
  moreover have "''%'' @ itoa i \<noteq> ''%''" "''%'' @ itoa i \<noteq> ''%+''" "''%'' @ itoa i \<noteq> ''%-''"
    using dig by (auto simp: is_digit_def)
  moreover have "trim_prefix (''%'' @ itoa i) ''%'' = itoa i" by (simp add: trim_prefix_def)
  ultimately show ?thesis using sscanf_itoa [OF assms] by (simp add: find_job_def)
qed

lemma find_job_marks: "find_job jt [] = (if jt_current jt = 0 then None else get_job jt (jt_current jt))"
    "find_job jt ''%-'' = (if jt_prev jt = 0 then None else get_job jt (jt_prev jt))"
proof -
  have "trim_space [] = []" "trim_space ''%-'' = ''%-''" by code_simp+
  then show "find_job jt [] = (if jt_current jt = 0 then None else get_job jt (jt_current jt))"
    "find_job jt ''%-'' = (if jt_prev jt = 0 then None else get_job jt (jt_prev jt))"
    by (simp_all add: find_job_def)
qed

section \<open>The reaper and one job\<close>

text \<open>The job with ID \<open>i\<close> is the only one led by \<open>pid\<close>.\<close>

definition owns_pid :: "job_table \<Rightarrow> int \<Rightarrow> int \<Rightarrow> bool" where
  "owns_pid jt i pid \<longleftrightarrow>
     distinct (map job_id (jt_jobs jt))
     \<and> (\<exists>j \<in> set (jt_jobs jt). job_id j = i \<and> job_leader_pid j = pid)
     \<and> (\<forall>j \<in> set (jt_jobs jt). job_leader_pid j = pid \<longrightarrow> job_id j = i)"

definition wait_job :: "job \<Rightarrow> wait_status \<Rightarrow> job" where
  "wait_job j ws =
     (case ws of
        Exited c \<Rightarrow> with_status Status_done c j
      | Signaled s \<Rightarrow> with_status Status_done (128 + s) j
      | Stopped_by_signal \<Rightarrow> with_status Status_stopped 0 j
      | Continued \<Rightarrow> with_status Status_running 0 j)"

abbreviation own_events :: "int \<Rightarrow> (int \<times> wait_status) list \<Rightarrow> wait_status list" where
  "own_events pid evs \<equiv> map snd (filter (\<lambda>ev. fst ev = pid) evs)"

lemma get_job_apply_wait:
  "get_job (apply_wait jt i ws) k = map_option (\<lambda>j. if k = i then wait_job j ws else j) (get_job jt k)"
  by (cases ws) (auto simp: apply_wait_def wait_job_def get_job_set_status option.map_id option.map_ident)

lemma set_status_leaders:
  "map (\<lambda>j. (job_id j, job_leader_pid j)) (jt_jobs (set_status jt i s c)) =
     map (\<lambda>j. (job_id j, job_leader_pid j)) (jt_jobs jt)"
  by (auto simp: set_status_def Let_def update_job_def split: option.split)

lemma owns_pid_leaders:
  "owns_pid jt i pid \<longleftrightarrow>
     distinct (map fst (map (\<lambda>j. (job_id j, job_leader_pid j)) (jt_jobs jt)))
     \<and> (i, pid) \<in> set (map (\<lambda>j. (job_id j, job_leader_pid j)) (jt_jobs jt))
     \<and> (\<forall>q \<in> set (map (\<lambda>j. (job_id j, job_leader_pid j)) (jt_jobs jt)). snd q = pid \<longrightarrow> fst q = i)"
  by (auto simp: owns_pid_def comp_def)

lemma owns_pid_apply_wait: "owns_pid jt i pid \<Longrightarrow> owns_pid (apply_wait jt k ws) i pid"
proof -
  have "map (\<lambda>j. (job_id j, job_leader_pid j)) (jt_jobs (apply_wait jt k ws)) =
      map (\<lambda>j. (job_id j, job_leader_pid j)) (jt_jobs jt)"
    by (cases ws) (simp_all add: apply_wait_def set_status_leaders)
  then show "owns_pid jt i pid \<Longrightarrow> owns_pid (apply_wait jt k ws) i pid" unfolding owns_pid_leaders by simp
qed

lemma reap_event_job:
  assumes "owns_pid jt i pid" "get_job jt i = Some j"
  shows "owns_pid (reap_event jt ev) i pid
    \<and> get_job (reap_event jt ev) i = Some (if fst ev = pid then wait_job j (snd ev) else j)"
proof (cases "find_by_pid jt (fst ev)")
  case None
  then have "fst ev \<noteq> pid" using assms(1) by (auto simp: owns_pid_def find_by_pid_def find_None_iff)
  with None assms show ?thesis by (simp add: reap_event_def)
next
  case (Some j')
  then have j': "j' \<in> set (jt_jobs jt)" "job_leader_pid j' = fst ev" by (auto simp: find_by_pid_def find_Some_iff)
  have "job_id j' = i \<longleftrightarrow> fst ev = pid"
  proof
    assume "job_id j' = i"
    moreover obtain k where "k \<in> set (jt_jobs jt)" "job_id k = i" "job_leader_pid k = pid"
      using assms(1) by (auto simp: owns_pid_def)
    ultimately have "k = j'" using j'(1) assms(1) get_job_in [of jt k] get_job_in [of jt j']
      by (simp add: owns_pid_def)
    with \<open>job_leader_pid k = pid\<close> j'(2) show "fst ev = pid" by simp
  next
    assume "fst ev = pid"
    with j' assms(1) show "job_id j' = i" by (auto simp: owns_pid_def)
  qed
  with Some assms show ?thesis
    by (auto simp: reap_event_def owns_pid_apply_wait get_job_apply_wait)
qed

lemma reap_events_job:
  "owns_pid jt i pid \<Longrightarrow> get_job jt i = Some j \<Longrightarrow>
     owns_pid (foldl reap_event jt evs) i pid
     \<and> get_job (foldl reap_event jt evs) i = Some (foldl wait_job j (own_events pid evs))"
proof (induction evs arbitrary: jt j)
  case (Cons ev evs)
  from Cons.IH [of "reap_event jt ev"] reap_event_job [OF Cons.prems, of ev] show ?case by auto
qed simp

section \<open>Waiting in the foreground\<close>

lemma wait_job_keeps [simp]:
  "job_id (wait_job j ws) = job_id j" "job_leader_pid (wait_job j ws) = job_leader_pid j"
  "job_cmdline (wait_job j ws) = job_cmdline j" "job_foreground (wait_job j ws) = job_foreground j"
  by (cases ws; simp add: wait_job_def with_status_def)+

lemma wait_jobs_keep [simp]:
  "job_id (foldl wait_job j wss) = job_id j" "job_leader_pid (foldl wait_job j wss) = job_leader_pid j"
  "job_cmdline (foldl wait_job j wss) = job_cmdline j" "job_foreground (foldl wait_job j wss) = job_foreground j"
  by (induction wss arbitrary: j) simp_all

lemma wait_job_continued: "set wss \<subseteq> {Continued} \<Longrightarrow> job_status j = Status_running \<Longrightarrow>
    job_status (foldl wait_job j wss) = Status_running"
  by (induction wss arbitrary: j) (auto simp: wait_job_def with_status_def)

text \<open>A batch of events after which the running job is still running.\<close>

definition quiet_batch :: "int \<Rightarrow> (int \<times> wait_status) list \<Rightarrow> bool" where
  "quiet_batch pid evs = list_all (\<lambda>ws. ws = Continued) (own_events pid evs)"

definition outcome_of :: "job \<Rightarrow> (int \<times> string) option" where
  "outcome_of j =
     (case job_status j of
        Status_done \<Rightarrow> Some (job_exit_code j, [])
      | Status_stopped \<Rightarrow>
          Some (148, nl ([CHR 0x0A] @ ''['' @ itoa (job_id j) @ '']+  Stopped    '' @ job_cmdline j))
      | Status_running \<Rightarrow> None)"

lemma fg_wait_first:
  assumes "owns_pid jt i pid" "get_job jt i = Some j" "0 \<le> i" "in_int64 i"
    and "outcome_of (foldl wait_job j (own_events pid evs)) = Some r"
  shows "fg_wait i jt (evs # rest) = (foldl reap_event jt evs, Some r)"
  using assms(5) reap_events_job [OF assms(1,2), of evs] find_job_number [OF assms(3,4), of "foldl reap_event jt evs"]
  by (auto simp: Let_def outcome_of_def split: job_status.splits)

lemma fg_wait_quiet:
  "owns_pid jt i pid \<Longrightarrow> get_job jt i = Some j \<Longrightarrow> 0 \<le> i \<Longrightarrow> in_int64 i \<Longrightarrow> job_status j = Status_running \<Longrightarrow>
     list_all (quiet_batch pid) quiet \<Longrightarrow>
     \<exists>jt' j'. fg_wait i jt (quiet @ rest) = fg_wait i jt' rest \<and> owns_pid jt' i pid
       \<and> get_job jt' i = Some j' \<and> job_status j' = Status_running \<and> job_cmdline j' = job_cmdline j
       \<and> job_foreground j' = job_foreground j"
proof (induction quiet arbitrary: jt j)
  case Nil
  then show ?case by auto
next
  case (Cons evs quiet)
  let ?jt = "foldl reap_event jt evs" and ?j = "foldl wait_job j (own_events pid evs)"
  have kept: "owns_pid ?jt i pid" "get_job ?jt i = Some ?j" using reap_events_job [OF Cons.prems(1,2)] by auto
  have running: "job_status ?j = Status_running"
    using Cons.prems(5,6) by (intro wait_job_continued) (auto simp: quiet_batch_def list.pred_set)
  then have "fg_wait i jt ((evs # quiet) @ rest) = fg_wait i ?jt (quiet @ rest)"
    using find_job_number [OF Cons.prems(3,4), of ?jt] kept by (simp add: Let_def)
  moreover obtain jt' j' where "fg_wait i ?jt (quiet @ rest) = fg_wait i jt' rest" "owns_pid jt' i pid"
       "get_job jt' i = Some j'" "job_status j' = Status_running" "job_cmdline j' = job_cmdline ?j"
       "job_foreground j' = job_foreground ?j"
    using Cons.IH [OF kept Cons.prems(3,4) running] Cons.prems(6) by auto
  ultimately show ?case by auto
qed

lemma mark_set_current:
  assumes "owns_pid jt i pid" "get_job jt i = Some j"
  shows "owns_pid (mark_foreground (set_current jt i) i) i pid
    \<and> get_job (mark_foreground (set_current jt i) i) i = Some (j\<lparr>job_foreground := True\<rparr>)"
proof -
  have cur: "jt_jobs (set_current jt i) = jt_jobs jt" by (simp add: set_current_def)
  have "map (\<lambda>j. (job_id j, job_leader_pid j)) (update_job i (\<lambda>j. j\<lparr>job_foreground := True\<rparr>) js) =
      map (\<lambda>j. (job_id j, job_leader_pid j)) js" for js
    by (simp add: update_job_def)
  then have "owns_pid (mark_foreground (set_current jt i) i) i pid"
    using assms(1) unfolding owns_pid_leaders by (simp add: mark_foreground_def cur)
  moreover have "get_job (set_current jt i) i = Some j" using assms(2) by (simp add: get_job_def cur)
  ultimately show ?thesis
    using get_job_update_job [where f = "\<lambda>j. j\<lparr>job_foreground := True\<rparr>" and jt = "set_current jt i" and i = i and k = i]
    by (simp add: mark_foreground_def)
qed

lemma find_clear_first:
  "\<forall>x \<in> set js. job_leader_pid x = pid \<longrightarrow> job_id x = i \<Longrightarrow> distinct (map job_id js) \<Longrightarrow>
     \<exists>x \<in> set js. job_id x = i \<and> job_leader_pid x = pid \<Longrightarrow> find (\<lambda>x. job_id x = i) js = Some j \<Longrightarrow>
     find (\<lambda>x. job_id x = i) (clear_first pid js) = Some (j\<lparr>job_foreground := False\<rparr>)"
proof (induction js)
  case (Cons a js)
  show ?case
  proof (cases "job_leader_pid a = pid")
    case True
    with Cons.prems show ?thesis by auto
  next
    case False
    then obtain x where x: "x \<in> set js" "job_id x = i" "job_leader_pid x = pid" using Cons.prems(3) by auto
    then have "job_id a \<noteq> i" using Cons.prems(2) by (metis distinct.simps(2) image_eqI list.map(2) list.set_map)
    with False x Cons show ?thesis by auto
  qed
qed simp

lemma get_job_clear_first:
  "owns_pid jt i pid \<Longrightarrow> get_job jt i = Some j \<Longrightarrow>
     get_job (clear_foreground jt pid) i = Some (j\<lparr>job_foreground := False\<rparr>)"
  using find_clear_first [of "jt_jobs jt" pid i j]
  by (auto simp: owns_pid_def get_job_def clear_foreground_def)

section \<open>Sorting the IDs\<close>

lemma insert_id_sorted: "sorted xs \<Longrightarrow> sorted (insert_id x xs) \<and> mset (insert_id x xs) = add_mset x (mset xs)"
proof (induction xs)
  case (Cons y ys)
  then have "set (insert_id x ys) = insert x (set ys)"
    by (metis sorted_simps(2) set_mset_add_mset_insert set_mset_mset)
  with Cons show ?case by auto
qed simp

lemma sort_ids_sort: "sort_ids ids = sort ids"
proof -
  have "sorted acc \<Longrightarrow> sorted (foldl (\<lambda>acc x. insert_id x acc) acc ids)
      \<and> mset (foldl (\<lambda>acc x. insert_id x acc) acc ids) = mset acc + mset ids" for acc
    by (induction ids arbitrary: acc) (simp_all add: insert_id_sorted)
  from this [of "[]"] have "sorted (sort_ids ids)" "mset (sort_ids ids) = mset ids"
    by (simp_all add: sort_ids_def)
  then show ?thesis by (metis properties_for_sort)
qed

section \<open>Properties\<close>

text \<open>
  C32. Whatever the shell and the reaper do with it, in whatever order, the table stays consistent:
  job IDs are distinct, positive and below the next ID, the current job is a live one exactly when
  there is any, the previous one is live or none, and no more than 32 notices are pending.
\<close>

theorem job_table_consistent:
  assumes "table_reachable jt"
  shows "distinct (map job_id (jt_jobs jt))
    \<and> (\<forall>j \<in> set (jt_jobs jt). 0 < job_id j \<and> job_id j < jt_next_id jt)
    \<and> (if jt_jobs jt = [] then jt_current jt = 0 \<and> jt_prev jt = 0
       else \<exists>j. get_job jt (jt_current jt) = Some j)
    \<and> (jt_prev jt = 0 \<or> (\<exists>j. get_job jt (jt_prev jt) = Some j))
    \<and> length (jt_notices jt) \<le> notice_cap"
proof -
  have "table_inv jt" using assms by (rule table_reachable_inv)
  moreover have "get_job jt k \<noteq> None" if "k \<in> job_id ` set (jt_jobs jt)" for k
    using that get_job_None by blast
  ultimately show ?thesis by (auto simp: table_inv_def ids_ok_def split: if_splits)
qed

theorem job_table_consistent_witness:
  "let jt = fst (reap (set_status (fst (add_job (fst (add_job new_job_table 7 7 ''sleep 1'' Status_running))
              8 8 ''sleep 2'' Status_running)) 2 Status_done 0))
   in jt_prev jt = 0 \<or> (\<exists>j. get_job jt (jt_prev jt) = Some j)"
proof -
  have "table_reachable (fst (reap (set_status (fst (add_job (fst (add_job new_job_table 7 7 ''sleep 1'' Status_running))
              8 8 ''sleep 2'' Status_running)) 2 Status_done 0)))"
    by (rule reach_step [OF reach_step [OF reach_step [OF reach_step [OF reach_new step_add] step_add] step_status] step_reap])
  from job_table_consistent [OF this] show ?thesis unfolding Let_def by blast
qed

text \<open>
  A job just added is found: under its number, as the current job, with the job that was
  current before it as the previous one; its ID was free, every other job is found as before, and
  it stays as it is through any updates of other jobs.
\<close>

theorem add_job_found:
  assumes "table_inv jt" "in_int64 (jt_next_id jt)" "add_job jt pgid leader cmdline status = (jt', j)"
    and "\<forall>ev \<in> set evs. fst ev \<noteq> job_id j"
  shows "find_job jt' (''%'' @ itoa (job_id j)) = Some j \<and> find_job jt' [] = Some j
    \<and> find_job jt' ''%-'' = find_job jt []
    \<and> get_job jt (job_id j) = None \<and> (\<forall>i. i \<noteq> job_id j \<longrightarrow> get_job jt' i = get_job jt i)
    \<and> get_job (foldl (\<lambda>t (i, s, c). set_status t i s c) jt' evs) (job_id j) = Some j"
proof -
  have eq: "jt' = fst (add_job jt pgid leader cmdline status)" "j = snd (add_job jt pgid leader cmdline status)"
    using assms(3) by simp_all
  have i: "job_id j = jt_next_id jt" "jt_current jt' = jt_next_id jt" "jt_prev jt' = jt_current jt"
    by (simp_all add: eq add_job_def Let_def)
  have pos: "0 < jt_next_id jt" using assms(1) by (simp add: table_inv_def ids_ok_def)
  have get: "get_job jt' k = (if k = job_id j then Some j else get_job jt k)" for k
    unfolding eq by (rule get_job_add [OF assms(1)])
  have fresh: "get_job jt (job_id j) = None" unfolding eq by (rule get_job_add [OF assms(1)])
  have "jt_current jt = 0 \<or> jt_current jt \<noteq> job_id j"
    using assms(1) i by (auto simp: table_inv_def ids_ok_def split: if_splits)
  then have "find_job jt' ''%-'' = find_job jt []" by (auto simp: find_job_marks i get)
  moreover have "get_job (foldl (\<lambda>t (i, s, c). set_status t i s c) jt' evs) (job_id j) = Some j"
    using table.registered_job_kept [OF assms(1), of evs pgid leader cmdline status] assms(4) by (simp add: eq)
  moreover have "find_job jt' (''%'' @ itoa (job_id j)) = Some j"
    using find_job_number [of "job_id j" jt'] pos assms(2) by (simp add: i(1) get)
  moreover have "find_job jt' [] = Some j" using pos by (simp add: find_job_marks i get)
  ultimately show ?thesis using fresh get by auto
qed

theorem add_job_found_witness:
  "let first = add_job new_job_table 7 7 ''sleep 1'' Status_running;
       second = add_job (fst first) 8 8 ''sleep 2'' Status_running
   in find_job (fst second) ''%2'' = Some (snd second) \<and> find_job (fst second) ''%-'' = Some (snd first)"
proof -
  let ?jt1 = "fst (add_job new_job_table 7 7 ''sleep 1'' Status_running)"
  let ?r = "add_job ?jt1 8 8 ''sleep 2'' Status_running"
  have inv: "table_inv ?jt1" by (rule add_job_inv) (simp add: table_inv_def ids_ok_def new_job_table_def)
  have "in_int64 (jt_next_id ?jt1)" by code_simp
  from add_job_found [OF inv this, of 8 8 "''sleep 2''" Status_running "fst ?r" "snd ?r" "[]"]
  have "find_job (fst ?r) (''%'' @ itoa (job_id (snd ?r))) = Some (snd ?r)" "find_job (fst ?r) ''%-'' = find_job ?jt1 []"
    by auto
  moreover have "itoa (job_id (snd ?r)) = ''2''" by code_simp
  moreover have "find_job ?jt1 [] = Some (snd (add_job new_job_table 7 7 ''sleep 1'' Status_running))" by code_simp
  ultimately show ?thesis by (simp add: Let_def)
qed

text \<open>
  Notices: a change of status of a job is announced exactly when the job is in the background,
  has become done or stopped and was not so before - once, at the end of the queue, with its mark,
  command and exit code, unless 32 notices are already waiting, when it is dropped. A foreground
  job is never announced, and draining gives the notices in the order they were posted.
\<close>

theorem set_status_notices:
  assumes "get_job jt i = Some j"
  shows "jt_notices (set_status jt i s c) =
     (if \<not> job_foreground j \<and> s \<noteq> Status_running \<and> job_status j \<noteq> s \<and> length (jt_notices jt) < notice_cap
      then jt_notices jt @ [\<lparr>ntc_id = i, ntc_flag = flag_for jt i, ntc_status = s,
                              ntc_cmdline = job_cmdline j, ntc_exit_code = c\<rparr>]
      else jt_notices jt)
   \<and> get_job (set_status jt i s c) i = Some (with_status s c j)
   \<and> jt_notices (set_status (set_status jt i s c) i s c) = jt_notices (set_status jt i s c)
   \<and> pending_notices jt = (jt\<lparr>jt_notices := []\<rparr>, jt_notices jt)"
proof -
  have after: "get_job (set_status jt i s c) i = Some (with_status s c j)"
    using assms by (simp add: get_job_set_status)
  then have "jt_notices (set_status (set_status jt i s c) i s c) = jt_notices (set_status jt i s c)"
    by (simp add: set_status_def [of "set_status jt i s c"] Let_def with_status_def)
  with after assms show ?thesis
    by (cases s) (auto simp: set_status_def Let_def send_notice_def pending_notices_def)
qed

theorem set_status_notices_witness:
  "snd (drain_job_notices (set_status (fst (add_job new_job_table 7 7 ''sleep 1'' Status_running)) 1 Status_done 42)) =
     ''[1]+  Exit 42   sleep 1'' @ [CHR 0x0A]"
proof -
  let ?jt = "fst (add_job new_job_table 7 7 ''sleep 1'' Status_running)"
  have "get_job ?jt 1 = Some (snd (add_job new_job_table 7 7 ''sleep 1'' Status_running))" by code_simp
  note set_status_notices [OF this, of Status_done 42, THEN conjunct1]
  also have "(if \<not> job_foreground (snd (add_job new_job_table 7 7 ''sleep 1'' Status_running))
        \<and> Status_done \<noteq> Status_running
        \<and> job_status (snd (add_job new_job_table 7 7 ''sleep 1'' Status_running)) \<noteq> Status_done
        \<and> length (jt_notices ?jt) < notice_cap
      then jt_notices ?jt @ [\<lparr>ntc_id = 1, ntc_flag = flag_for ?jt 1, ntc_status = Status_done,
          ntc_cmdline = job_cmdline (snd (add_job new_job_table 7 7 ''sleep 1'' Status_running)), ntc_exit_code = 42\<rparr>]
      else jt_notices ?jt) =
      [\<lparr>ntc_id = 1, ntc_flag = ''+'', ntc_status = Status_done, ntc_cmdline = ''sleep 1'', ntc_exit_code = 42\<rparr>]"
    by code_simp
  finally have "jt_notices (set_status ?jt 1 Status_done 42) =
      [\<lparr>ntc_id = 1, ntc_flag = ''+'', ntc_status = Status_done, ntc_cmdline = ''sleep 1'', ntc_exit_code = 42\<rparr>]" .
  moreover have "concat (map notice_line
      [\<lparr>ntc_id = 1, ntc_flag = ''+'', ntc_status = Status_done, ntc_cmdline = ''sleep 1'', ntc_exit_code = 42\<rparr>]) =
      ''[1]+  Exit 42   sleep 1'' @ [CHR 0x0A]" by code_simp
  ultimately show ?thesis by (simp only: drain_job_notices_def pending_notices_def split_conv snd_conv)
qed

text \<open>
  \<open>Reap\<close> evicts exactly the done jobs, keeps the others untouched and in place, restarts the
  IDs only when the table is empty, and leaves the marks on live jobs. It does not keep the two
  marks apart: when the current job is done and the previous one is the live job with the highest
  ID, both marks end up on that job although others are live.
\<close>

theorem reap_evicts_done:
  assumes "table_inv jt"
  shows "let jt' = fst (reap jt) in
     jt_jobs jt' = filter (\<lambda>j. job_status j \<noteq> Status_done) (jt_jobs jt)
     \<and> snd (reap jt) = map job_id (filter (\<lambda>j. job_status j = Status_done) (jt_jobs jt))
     \<and> jt_notices jt' = jt_notices jt
     \<and> jt_next_id jt' = (if jt_jobs jt' = [] then 1 else jt_next_id jt)
     \<and> table_inv jt'
     \<and> (\<forall>cur prv. get_job jt (jt_current jt) = Some cur \<and> job_status cur = Status_done
          \<and> prv \<in> set (jt_jobs jt') \<and> job_id prv = jt_prev jt \<and> (\<forall>j \<in> set (jt_jobs jt'). job_id j \<le> job_id prv)
          \<longrightarrow> jt_current jt' = job_id prv \<and> jt_prev jt' = job_id prv)"
proof -
  define live where "live = filter (\<lambda>j. job_status j \<noteq> Status_done) (jt_jobs jt)"
  have jobs: "jt_jobs (fst (reap jt)) = live"
    by (simp add: reap_def Let_def live_def [symmetric])
  have "jt_current (fst (reap jt)) = job_id prv \<and> jt_prev (fst (reap jt)) = job_id prv"
    if cur: "get_job jt (jt_current jt) = Some cur" "job_status cur = Status_done"
      and prv: "prv \<in> set live" "job_id prv = jt_prev jt" "\<forall>j \<in> set live. job_id j \<le> job_id prv" for cur prv
  proof -
    have ne: "live \<noteq> []" using prv(1) by auto
    have dist: "distinct (map job_id (jt_jobs jt))" and pos: "0 < job_id prv"
      using assms prv(1) by (auto simp: table_inv_def ids_ok_def live_def)
    have "jt_current jt \<notin> job_id ` set live"
    proof
      assume "jt_current jt \<in> job_id ` set live"
      then obtain x where "x \<in> set live" "job_id x = jt_current jt" by auto
      then have "get_job jt (jt_current jt) = Some x" using get_job_in [OF dist, of x] by (simp add: live_def)
      with cur \<open>x \<in> set live\<close> show False by (simp add: live_def)
    qed
    moreover have "jt_prev jt \<in> job_id ` set live" using prv by (metis image_eqI)
    moreover have "highest_scan 0 live = job_id prv"
      using highest_scan_in [of 0 live] highest_scan_max [OF prv(1), of 0] prv(3) pos by fastforce
    ultimately show ?thesis
      using ne prv(2) by (simp add: reap_def live_def [symmetric] Let_def get_job_None)
  qed
  moreover have "jt_notices (fst (reap jt)) = jt_notices jt"
    "jt_next_id (fst (reap jt)) = (if live = [] then 1 else jt_next_id jt)"
    "snd (reap jt) = map job_id (filter (\<lambda>j. job_status j = Status_done) (jt_jobs jt))"
    by (simp_all add: reap_def Let_def live_def)
  ultimately show ?thesis
    using reap_inv [OF assms] jobs by (auto simp: Let_def live_def)
qed

theorem reap_evicts_done_witness:
  "let add = (\<lambda>jt n. fst (add_job jt n n ''sleep 9'' Status_running));
       jt = set_status (add (add (add new_job_table 11) 12) 13) 3 Status_done 0;
       jt' = fst (reap jt)
   in map job_id (jt_jobs jt') = [1, 2] \<and> jt_current jt' = 2 \<and> jt_prev jt' = 2"
proof -
  let ?add = "\<lambda>jt n. fst (add_job jt n n ''sleep 9'' Status_running)"
  let ?jt = "set_status (?add (?add (?add new_job_table 11) 12) 13) 3 Status_done 0"
  let ?mk = "\<lambda>i n st. \<lparr>job_id = i, job_pgid = n, job_leader_pid = n, job_cmdline = ''sleep 9'',
      job_status = st, job_exit_code = 0, job_foreground = False\<rparr>"
  have inv: "table_inv ?jt"
    by (intro set_status_inv add_job_inv) (simp add: table_inv_def ids_ok_def new_job_table_def)
  have facts: "get_job ?jt (jt_current ?jt) = Some (?mk 3 13 Status_done)" "jt_prev ?jt = 2"
    "filter (\<lambda>j. job_status j \<noteq> Status_done) (jt_jobs ?jt) = [?mk 1 11 Status_running, ?mk 2 12 Status_running]"
    by code_simp+
  note spec = reap_evicts_done [OF inv, unfolded Let_def facts(3)]
  then have jobs: "jt_jobs (fst (reap ?jt)) = [?mk 1 11 Status_running, ?mk 2 12 Status_running]" by (elim conjE)
  from spec have marks: "\<And>cur prv. get_job ?jt (jt_current ?jt) = Some cur \<and> job_status cur = Status_done
          \<and> prv \<in> set (jt_jobs (fst (reap ?jt))) \<and> job_id prv = jt_prev ?jt
          \<and> (\<forall>j \<in> set (jt_jobs (fst (reap ?jt))). job_id j \<le> job_id prv)
          \<Longrightarrow> jt_current (fst (reap ?jt)) = job_id prv \<and> jt_prev (fst (reap ?jt)) = job_id prv"
    by (elim conjE) blast
  have "jt_current (fst (reap ?jt)) = 2 \<and> jt_prev (fst (reap ?jt)) = 2"
    using marks [of "?mk 3 13 Status_done" "?mk 2 12 Status_running"] unfolding facts jobs by simp
  with jobs show ?thesis by (simp add: Let_def)
qed

text \<open>
  \<open>jobs\<close> prints one line for each live job, in ascending order of the job numbers whatever
  the order of the map, each with the job's mark, status and command; exactly one line is marked
  with a plus when there is any, the one that a bare \<open>fg\<close> or \<open>bg\<close> refers to.
\<close>

theorem list_jobs_sorted:
  assumes "table_inv jt"
  shows "jobs_builtin jt [] =
     (0, concat (map (\<lambda>j. nl (''['' @ itoa (job_id j) @ '']'' @ flag_for jt (job_id j) @ ''  ''
            @ pad_right 8 (status_string (job_status j)) @ '' '' @ job_cmdline j))
          (sort_key job_id (jt_jobs jt))), [])
   \<and> (jt_jobs jt \<noteq> [] \<longrightarrow>
        (\<exists>!j. j \<in> set (jt_jobs jt) \<and> flag_for jt (job_id j) = ''+'')
        \<and> (\<exists>j \<in> set (jt_jobs jt). find_job jt [] = Some j \<and> flag_for jt (job_id j) = ''+''))"
proof (intro conjI impI)
  have dist: "distinct (map job_id (jt_jobs jt))" using assms by (simp add: table_inv_def ids_ok_def)
  have "sort (map job_id js) = map job_id (sort_key job_id js)" for js :: "job list"
  proof (rule properties_for_sort)
    show "mset (map job_id (sort_key job_id js)) = mset (map job_id js)" by simp
    show "sorted (map job_id (sort_key job_id js))" by simp
  qed
  then have "list_jobs jt = map (job_line jt) (map job_id (sort_key job_id (jt_jobs jt)))"
    by (simp add: list_jobs_def sort_ids_sort)
  then have "list_jobs jt = map (\<lambda>j. job_line jt (job_id j)) (sort_key job_id (jt_jobs jt))"
    by (simp add: comp_def)
  also have "\<dots> = map (\<lambda>j. ''['' @ itoa (job_id j) @ '']'' @ flag_for jt (job_id j) @ ''  ''
            @ pad_right 8 (status_string (job_status j)) @ '' '' @ job_cmdline j) (sort_key job_id (jt_jobs jt))"
    using get_job_in [OF dist] by (intro map_cong refl) (simp add: job_line_def)
  finally show "jobs_builtin jt [] =
     (0, concat (map (\<lambda>j. nl (''['' @ itoa (job_id j) @ '']'' @ flag_for jt (job_id j) @ ''  ''
            @ pad_right 8 (status_string (job_status j)) @ '' '' @ job_cmdline j))
          (sort_key job_id (jt_jobs jt))), [])"
    by (simp add: jobs_builtin_def comp_def)
  have plus: "flag_for jt i = ''+'' \<longleftrightarrow> i = jt_current jt" for i by (simp add: flag_for_def)
  assume "jt_jobs jt \<noteq> []"
  then obtain j where j: "j \<in> set (jt_jobs jt)" "job_id j = jt_current jt" "0 < jt_current jt"
    using assms by (auto simp: table_inv_def ids_ok_def)
  then have get: "get_job jt (jt_current jt) = Some j" using get_job_in [OF dist j(1)] by simp
  show "\<exists>!j. j \<in> set (jt_jobs jt) \<and> flag_for jt (job_id j) = ''+''"
  proof (rule ex1I [of _ j])
    show "j \<in> set (jt_jobs jt) \<and> flag_for jt (job_id j) = ''+''" using j plus by simp
    fix k assume "k \<in> set (jt_jobs jt) \<and> flag_for jt (job_id k) = ''+''"
    then show "k = j" using plus get_job_in [OF dist, of k] get by simp
  qed
  show "\<exists>j \<in> set (jt_jobs jt). find_job jt [] = Some j \<and> flag_for jt (job_id j) = ''+''"
    using j get plus by (auto simp: find_job_marks)
qed

theorem list_jobs_sorted_witness:
  "let jt = set_status (fst (add_job (fst (add_job new_job_table 7 7 ''sleep 1'' Status_running))
              8 8 ''yes'' Status_running)) 1 Status_stopped 0
   in fst (snd (jobs_builtin jt [])) =
        ''[1]-  Stopped  sleep 1'' @ [CHR 0x0A] @ ''[2]+  Running  yes'' @ [CHR 0x0A]"
proof -
  let ?jt = "set_status (fst (add_job (fst (add_job new_job_table 7 7 ''sleep 1'' Status_running))
              8 8 ''yes'' Status_running)) 1 Status_stopped 0"
  have inv: "table_inv ?jt"
    by (intro set_status_inv add_job_inv) (simp add: table_inv_def ids_ok_def new_job_table_def)
  have "concat (map (\<lambda>j. nl (''['' @ itoa (job_id j) @ '']'' @ flag_for ?jt (job_id j) @ ''  ''
            @ pad_right 8 (status_string (job_status j)) @ '' '' @ job_cmdline j))
          (sort_key job_id (jt_jobs ?jt))) =
      ''[1]-  Stopped  sleep 1'' @ [CHR 0x0A] @ ''[2]+  Running  yes'' @ [CHR 0x0A]" by code_simp
  with list_jobs_sorted [OF inv, THEN conjunct1] show ?thesis by (simp only: Let_def fst_conv snd_conv)
qed

text \<open>
  What \<open>fg\<close> returns after the report \<open>ws\<close> on its job: the exit code, 128 plus the signal for a job that
  was killed, 148 and a line on stderr for a job that was stopped.
\<close>

definition stopped_line :: "job \<Rightarrow> string" where
  "stopped_line j = nl ([CHR 0x0A] @ ''['' @ itoa (job_id j) @ '']+  Stopped    '' @ job_cmdline j)"

fun fg_answer :: "job \<Rightarrow> wait_status \<Rightarrow> int \<times> string" where
  "fg_answer j (Exited c) = (c, [])"
| "fg_answer j (Signaled s) = (128 + s, [])"
| "fg_answer j Stopped_by_signal = (148, stopped_line j)"
| "fg_answer j Continued = (0, [])"

lemma outcome_of_last:
  "ws \<noteq> Continued \<Longrightarrow> job_id j' = job_id j \<Longrightarrow> job_cmdline j' = job_cmdline j \<Longrightarrow> outcome_of (wait_job j' ws) = Some (fg_answer j ws)"
  by (cases ws) (simp_all add: outcome_of_def wait_job_def with_status_def stopped_line_def)

text \<open>The job of a table that owns its pid, in the foreground.\<close>

lemma owned_job:
  assumes "owns_pid jt i pid" "get_job jt i = Some j"
  shows "job_id j = i" "job_leader_pid j = pid"
proof -
  show "job_id j = i" using get_job_Some [OF assms(2)] by simp
  obtain k where "k \<in> set (jt_jobs jt)" "job_id k = i" "job_leader_pid k = pid"
    "distinct (map job_id (jt_jobs jt))"
    using assms(1) by (auto simp: owns_pid_def)
  with get_job_in [of jt k] assms(2) show "job_leader_pid j = pid" by simp
qed

lemma fg_builtin_wait:
  assumes "owns_pid jt i pid" "get_job jt i = Some j" "0 \<le> i" "in_int64 i" "\<forall>m. kill \<noteq> Some (False, m)"
    and "fg_wait i (mark_foreground (set_current jt i) i) sched = (jt', Some (c, err))"
    and "owns_pid jt' i pid" "get_job jt' i = Some j'"
  shows "fg_builtin kill sched jt [''%'' @ itoa i] = (clear_foreground jt' pid, Some (c, nl (job_cmdline j), err))"
    "get_job (clear_foreground jt' pid) i = Some (j'\<lparr>job_foreground := False\<rparr>)"
proof -
  have "find_job jt (''%'' @ itoa i) = Some j" using find_job_number [OF assms(3,4)] assms(2) by simp
  then show "fg_builtin kill sched jt [''%'' @ itoa i] = (clear_foreground jt' pid, Some (c, nl (job_cmdline j), err))"
    using assms(5,6) owned_job [OF assms(1,2)] by (auto simp: fg_builtin_def Let_def split: option.split prod.split bool.split)
  show "get_job (clear_foreground jt' pid) i = Some (j'\<lparr>job_foreground := False\<rparr>)"
    by (rule get_job_clear_first [OF assms(7,8)])
qed

text \<open>A batch that reports a stopped job as continued makes it a running one.\<close>

lemma wait_jobs_resumed:
  "wss \<noteq> [] \<Longrightarrow> set wss \<subseteq> {Continued} \<Longrightarrow> job_status (foldl wait_job j wss) = Status_running"
proof (cases wss)
  case (Cons w ws)
  assume "set wss \<subseteq> {Continued}"
  then show ?thesis using Cons wait_job_continued [of ws "wait_job j w"] by (simp add: wait_job_def with_status_def)
qed simp

lemma fg_wait_resumed:
  assumes "owns_pid jt i pid" "get_job jt i = Some j" "0 \<le> i" "in_int64 i" "list_all (quiet_batch pid) quiet"
    and "job_status j = Status_running \<or> quiet = [] \<or> own_events pid (hd quiet) \<noteq> []"
  shows "\<exists>jt' j'. fg_wait i jt (quiet @ rest) = fg_wait i jt' rest \<and> owns_pid jt' i pid
       \<and> get_job jt' i = Some j' \<and> job_cmdline j' = job_cmdline j"
proof (cases "job_status j = Status_running \<or> quiet = []")
  case True
  then show ?thesis using fg_wait_quiet [OF assms(1-4) _ assms(5)] assms(1,2) by (cases quiet) fastforce+
next
  case False
  then obtain evs qs where q: "quiet = evs # qs" "own_events pid evs \<noteq> []" using assms(6) by (cases quiet) auto
  let ?jt = "foldl reap_event jt evs" and ?j = "foldl wait_job j (own_events pid evs)"
  have kept: "owns_pid ?jt i pid" "get_job ?jt i = Some ?j" using reap_events_job [OF assms(1,2)] by auto
  have running: "job_status ?j = Status_running"
    using assms(5) q by (intro wait_jobs_resumed) (auto simp: quiet_batch_def list.pred_set)
  then have "fg_wait i jt (quiet @ rest) = fg_wait i ?jt (qs @ rest)"
    using find_job_number [OF assms(3,4), of ?jt] kept q(1) by (simp add: Let_def)
  then show ?thesis using fg_wait_quiet [OF kept assms(3,4) running, of qs rest] assms(5) q(1) by auto
qed

text \<open>
  C36. \<open>fg\<close> on a job that is not done and the only one led by its pid. However many times the table is
  polled while the reaper reports other children or continuations of this one, \<open>fg\<close> goes on waiting,
  and at the first batch of reports that ends with the job exited, killed or stopped it returns the exit
  code, 128 plus the signal, or 148 with the line that says so; afterwards the job is not in the
  foreground. There is one exception, by a race in the code: for a job that was stopped, \<open>fg\<close> gives up at
  once with 148 when the first poll comes before the reaper has recorded that the job continues.
\<close>

theorem fg_returns_exit_code:
  assumes "owns_pid jt i pid" "get_job jt i = Some j" "job_status j \<noteq> Status_done"
    and "0 \<le> i" "in_int64 i" "\<forall>m. kill \<noteq> Some (False, m)"
    and "list_all (quiet_batch pid) quiet" "own_events pid evs = wss @ [ws]" "ws \<noteq> Continued"
  shows "case fg_builtin kill (quiet @ evs # rest) jt [''%'' @ itoa i] of
     (jt', res) \<Rightarrow>
       (\<exists>j'. get_job jt' i = Some j' \<and> \<not> job_foreground j')
       \<and> res = (case if job_status j = Status_stopped \<and> quiet \<noteq> [] \<and> own_events pid (hd quiet) = []
                      then (148, stopped_line j) else fg_answer j ws of
                  (code, err) \<Rightarrow> Some (code, nl (job_cmdline j), err))"
proof -
  let ?jt1 = "mark_foreground (set_current jt i) i" and ?j1 = "j\<lparr>job_foreground := True\<rparr>"
  have one: "owns_pid ?jt1 i pid" "get_job ?jt1 i = Some ?j1" using mark_set_current [OF assms(1,2)] by auto
  show ?thesis
  proof (cases "job_status j = Status_stopped \<and> quiet \<noteq> [] \<and> own_events pid (hd quiet) = []")
    case True
    then obtain e qs where q: "quiet = e # qs" "own_events pid e = []" by (cases quiet) auto
    let ?jt2 = "foldl reap_event ?jt1 e"
    have two: "owns_pid ?jt2 i pid" "get_job ?jt2 i = Some ?j1" using reap_events_job [OF one, of e] q(2) by auto
    have "fg_wait i ?jt1 (quiet @ evs # rest) = (?jt2, Some (148, stopped_line j))"
      using fg_wait_first [OF one assms(4,5), of e "(148, stopped_line j)"] q True by (simp add: outcome_of_def stopped_line_def)
    from fg_builtin_wait [OF assms(1,2,4-6) this two] show ?thesis using True by simp
  next
    case False
    then have "job_status ?j1 = Status_running \<or> quiet = [] \<or> own_events pid (hd quiet) \<noteq> []"
      using assms(3) by (cases "job_status j") auto
    then obtain jt2 j2 where quiet: "fg_wait i ?jt1 (quiet @ evs # rest) = fg_wait i jt2 (evs # rest)"
      and j2: "owns_pid jt2 i pid" "get_job jt2 i = Some j2" "job_cmdline j2 = job_cmdline j"
      using fg_wait_resumed [OF one assms(4,5,7)] by fastforce
    let ?jt3 = "foldl reap_event jt2 evs"
    have three: "owns_pid ?jt3 i pid" "get_job ?jt3 i = Some (foldl wait_job j2 (own_events pid evs))"
      using reap_events_job [OF j2(1,2)] by auto
    have "outcome_of (foldl wait_job j2 (own_events pid evs)) = Some (fg_answer j ws)"
      using outcome_of_last [OF assms(9), of "foldl wait_job j2 wss" j] owned_job(1) [OF assms(1,2)] owned_job(1) [OF j2(1,2)] j2(3)
      by (simp add: assms(8))
    from fg_wait_first [OF j2(1,2) assms(4,5) this, of rest]
    have "fg_wait i ?jt1 (quiet @ evs # rest) = (?jt3, Some (fst (fg_answer j ws), snd (fg_answer j ws)))" using quiet by simp
    from fg_builtin_wait [OF assms(1,2,4-6) this three] show ?thesis using False by (auto simp: case_prod_unfold)
  qed
qed

theorem fg_returns_exit_code_witness:
  "snd (fg_builtin None [[], [(9, Exited 1), (7, Continued)], [(7, Signaled 9)]]
      (fst (add_job new_job_table 7 7 ''sleep 1'' Status_running)) [''%1'']) =
     Some (137, ''sleep 1'' @ [CHR 0x0A], [])"
proof -
  let ?jt = "fst (add_job new_job_table 7 7 ''sleep 1'' Status_running)"
  have ok: "owns_pid ?jt 1 7" "get_job ?jt 1 = Some (snd (add_job new_job_table 7 7 ''sleep 1'' Status_running))"
    "job_status (snd (add_job new_job_table 7 7 ''sleep 1'' Status_running)) \<noteq> Status_done" "in_int64 1"
    "list_all (quiet_batch 7) [[], [(9, Exited 1), (7, Continued)]]" "own_events 7 [(7, Signaled 9)] = [] @ [Signaled 9]"
    "nl (job_cmdline (snd (add_job new_job_table 7 7 ''sleep 1'' Status_running))) = ''sleep 1'' @ [CHR 0x0A]"
    "''%'' @ itoa 1 = ''%1''" "job_status (snd (add_job new_job_table 7 7 ''sleep 1'' Status_running)) \<noteq> Status_stopped"
    by code_simp+
  from fg_returns_exit_code [OF ok(1,2,3) _ ok(4) _ ok(5,6), of None "[]"] ok(7-9) show ?thesis
    by (auto split: prod.splits)
qed

text \<open>
  \<open>fg\<close> of a stopped job gives up at once: unless the reaper has already recorded that the job
  continued when the table is first polled, the status read is still the old one, and \<open>fg\<close> prints
  that the job is stopped and returns 148, although it has just sent it the signal to continue.
\<close>

theorem fg_stopped_returns_at_once:
  assumes "owns_pid jt i pid" "get_job jt i = Some j" "job_status j = Status_stopped"
    and "0 \<le> i" "in_int64 i" "own_events pid evs = []"
  shows "snd (fg_builtin None (evs # rest) jt [''%'' @ itoa i]) =
     Some (148, nl (job_cmdline j), nl ([CHR 0x0A] @ ''['' @ itoa i @ '']+  Stopped    '' @ job_cmdline j))"
proof -
  have i: "job_id j = i" using get_job_Some [OF assms(2)] by simp
  have found: "find_job jt (''%'' @ itoa i) = Some j" using find_job_number [OF assms(4,5)] assms(2) by simp
  have "fg_wait i (mark_foreground (set_current jt i) i) (evs # rest) =
      (foldl reap_event (mark_foreground (set_current jt i) i) evs,
       Some (148, nl ([CHR 0x0A] @ ''['' @ itoa i @ '']+  Stopped    '' @ job_cmdline j)))"
    using fg_wait_first [OF _ _ assms(4,5), of "mark_foreground (set_current jt i) i" pid
        "j\<lparr>job_foreground := True\<rparr>" evs] mark_set_current [OF assms(1,2)] assms(3,6) i
    by (simp add: outcome_of_def)
  with found i show ?thesis by (simp add: fg_builtin_def Let_def)
qed

theorem fg_stopped_returns_at_once_witness:
  "snd (fg_builtin None [[], [(7, Continued)], [(7, Exited 0)]]
      (fst (add_job new_job_table 7 7 ''vi'' Status_stopped)) [''%1'']) =
     Some (148, ''vi'' @ [CHR 0x0A], [CHR 0x0A] @ ''[1]+  Stopped    vi'' @ [CHR 0x0A])"
proof -
  let ?jt = "fst (add_job new_job_table 7 7 ''vi'' Status_stopped)"
  have ok: "owns_pid ?jt 1 7" "get_job ?jt 1 = Some (snd (add_job new_job_table 7 7 ''vi'' Status_stopped))"
    "job_status (snd (add_job new_job_table 7 7 ''vi'' Status_stopped)) = Status_stopped" "in_int64 1"
    "''%'' @ itoa 1 = ''%1''" "own_events 7 ([] :: (int \<times> wait_status) list) = []"
    "nl (job_cmdline (snd (add_job new_job_table 7 7 ''vi'' Status_stopped))) = ''vi'' @ [CHR 0x0A]"
    "nl ([CHR 0x0A] @ ''['' @ itoa 1 @ '']+  Stopped    '' @ job_cmdline (snd (add_job new_job_table 7 7 ''vi'' Status_stopped)))
       = [CHR 0x0A] @ ''[1]+  Stopped    vi'' @ [CHR 0x0A]"
    by code_simp+
  from fg_stopped_returns_at_once [OF ok(1,2,3) _ ok(4) ok(6), of "[[(7, Continued)], [(7, Exited 0)]]"] ok(5,7,8)
  show ?thesis by simp
qed

end
