(* ===== verification/Go_Scan.thy ===== *)
theory Go_Scan
  imports Go_Strings
begin

text \<open>
  Reading a file by lines and writing a string in quotes: \<open>bufio.Scanner\<close> with \<open>bufio.ScanLines\<close>, and
  \<open>strconv.Quote\<close>, which is \<^verbatim>\<open>%q\<close>.
\<close>

section \<open>Lines\<close>

text \<open>
  \<open>bufio.ScanLines\<close>: lines end with a newline, a carriage return before it is dropped, and there is
  no line after the last newline. \<open>bufio.Scanner\<close> gives up at a line as long as its
  buffer, which is 64 KiB if nothing else is set.
\<close>

definition scan_lines :: "nat \<Rightarrow> string \<Rightarrow> string list \<times> bool" where
  "scan_lines limit raw =
     (let ls = split_byte (CHR 0x0A) raw;
          body = (if last ls = [] then butlast ls else ls);
          fits = takeWhile (\<lambda>l. length l < limit) body
      in (map (\<lambda>l. trim_suffix l [CHR 0x0D]) fits, length fits < length body))"

definition max_scan_line :: nat where
  "max_scan_line = 65536"

definition scan_raw_lines :: "string \<Rightarrow> string list \<times> bool" where
  "scan_raw_lines = scan_lines max_scan_line"

text \<open>Text whose lines are read as they stand.\<close>

definition unescaped_text :: "string \<Rightarrow> bool" where
  "unescaped_text s \<longleftrightarrow> (\<forall>l \<in> set (split_byte (CHR 0x0A) s). CHR 0x0D \<notin> set l \<and> length l < max_scan_line)"

lemma scan_plain_text:
  assumes "unescaped_text s"
  shows "scan_raw_lines s = ((let ls = split_byte (CHR 0x0A) s in if last ls = [] then butlast ls else ls), False)"
proof -
  let ?ls = "split_byte (CHR 0x0A) s"
  let ?body = "if last ?ls = [] then butlast ?ls else ?ls"
  have sub: "set ?body \<subseteq> set ?ls" by (auto dest: in_set_butlastD)
  then have "takeWhile (\<lambda>l. length l < max_scan_line) ?body = ?body"
    using assms by (intro takeWhile_eq_all_conv [THEN iffD2]) (auto simp: unescaped_text_def)
  moreover have "map (\<lambda>l. trim_suffix l [CHR 0x0D]) ?body = ?body"
  proof (rule map_idI)
    fix l assume "l \<in> set ?body"
    then have "l \<in> set ?ls" using sub by blast
    then have "CHR 0x0D \<notin> set l" using assms by (simp add: unescaped_text_def)
    then show "trim_suffix l [CHR 0x0D] = l" by (auto simp: trim_suffix_def suffix_def)
  qed
  ultimately show ?thesis by (simp only: scan_raw_lines_def scan_lines_def Let_def) simp
qed

section \<open>Quoting\<close>

definition go_hex_digit :: "nat \<Rightarrow> char" where
  "go_hex_digit n = ''0123456789abcdef'' ! (n mod 16)"

fun go_hex_digits :: "nat \<Rightarrow> nat \<Rightarrow> string" where
  "go_hex_digits 0 n = []"
| "go_hex_digits (Suc k) n = go_hex_digits k (n div 16) @ [go_hex_digit n]"

text \<open>\<open>pr\<close> stands for the table of printable runes above ASCII. A byte that is not UTF-8 is written by its value.\<close>

definition quote_rune :: "(rune \<Rightarrow> bool) \<Rightarrow> rune \<Rightarrow> string" where
  "quote_rune pr r =
     (if r = 34 \<or> r = 92 then [CHR 0x5C, char_of r]
      else if (32 \<le> r \<and> r < 127) \<or> (128 \<le> r \<and> pr r) then encode_rune r
      else if r = 7 then [CHR 0x5C, CHR ''a''] else if r = 8 then [CHR 0x5C, CHR ''b'']
      else if r = 12 then [CHR 0x5C, CHR ''f''] else if r = 10 then [CHR 0x5C, CHR ''n'']
      else if r = 13 then [CHR 0x5C, CHR ''r''] else if r = 9 then [CHR 0x5C, CHR ''t'']
      else if r = 11 then [CHR 0x5C, CHR ''v'']
      else if r < 32 \<or> r = 127 then CHR 0x5C # CHR ''x'' # go_hex_digits 2 r
      else if r < 65536 then CHR 0x5C # CHR ''u'' # go_hex_digits 4 r
      else CHR 0x5C # CHR ''U'' # go_hex_digits 8 r)"

function quote_body :: "(rune \<Rightarrow> bool) \<Rightarrow> string \<Rightarrow> string" where
  "quote_body pr [] = []"
| "quote_body pr (c # cs) =
     (case decode_rune (c # cs) of (r, n) \<Rightarrow>
        (if r = rune_error \<and> n = 1 then CHR 0x5C # CHR ''x'' # go_hex_digits 2 (of_char c) else quote_rune pr r)
        @ quote_body pr (drop (n - 1) cs))"
  by pat_completeness auto
termination
  by (relation "measure (length \<circ> snd)") (auto simp: less_Suc_eq_le)

definition go_quote :: "(rune \<Rightarrow> bool) \<Rightarrow> string \<Rightarrow> string" where
  "go_quote pr s = CHR 0x22 # quote_body pr s @ [CHR 0x22]"

definition quotes_plain :: "char \<Rightarrow> bool" where
  "quotes_plain c \<longleftrightarrow> 32 \<le> (of_char c :: nat) \<and> (of_char c :: nat) < 127 \<and> (of_char c :: nat) \<noteq> 34 \<and> (of_char c :: nat) \<noteq> 92"

lemma quote_body_plain: "list_all quotes_plain s \<Longrightarrow> quote_body pr s = s"
proof (induction s)
  case (Cons c s)
  then have c: "32 \<le> (of_char c :: nat)" "(of_char c :: nat) < 127" "of_char c \<noteq> (34 :: nat)" "of_char c \<noteq> (92 :: nat)"
    by (auto simp: quotes_plain_def)
  then have "quote_rune pr (of_char c) = [c]" by (simp add: quote_rune_def encode_rune_ascii)
  then show ?case using Cons c by (simp add: decode_rune_ascii)
qed simp

lemma go_quote_plain: "list_all quotes_plain s \<Longrightarrow> go_quote pr s = CHR 0x22 # s @ [CHR 0x22]"
  by (simp add: go_quote_def quote_body_plain)

end
