(* ===== verification/Shell_State.thy ===== *)
theory Shell_State
  imports Env Parser Line_Expand Jobs Go_Scan "HOL-Library.AList" "HOL-Library.List_Lexorder" "HOL-Library.Char_ord"
begin

text \<open>
  The state of the shell (\<^verbatim>\<open>shell/internal/shell/shell.go\<close>, type \<open>Shell\<close>) and the built-ins that
  work on nothing else: variables, aliases, \<open>cd\<close>, \<open>logout\<close>, \<open>source\<close>, and the registry of
  tainted values. The world \<open>'w\<close> holds what lies outside of the process; the standard streams are
  strings, written without failure.
\<close>

section \<open>State\<close>

text \<open>What is written to stderr, one constructor per message.\<close>

datatype diag =
    Alias_not_found string
  | Alias_missing_name string
  | Alias_cycle string
  | Alias_too_long
  | Set_option string
  | Set_missing_eq string
  | Set_empty_name string
  | Set_failed string
  | Unset_usage
  | Unset_empty
  | Env_usage string
  | Env_failed string
  | Env_unknown string
  | Not_login_shell
  | Numeric_required string
  | Cd_failed cd_error
  | Export_missing_eq string
  | Export_failed string
  | Source_usage
  | Source_failed string string
  | Source_env_failed string string
  | Source_umask string
  | Source_malformed nat
  | Rc_warning string string
  | Exec_parse parse_error
  | Exec_pipeline
  | Exec_not_found string
  | Substitution_error expand_error
  | Parse_error parse_error
  | Interceptor_error string
  | Run_error string
  | Resolve_error string
  | Background_error string
  | Job_started int int
  | Diag_text string
and cd_error =
    No_home
  | Stat_failed string
  | Not_a_directory string
  | Chdir_failed string

text \<open>
  An \<open>Interceptor\<close>: \<open>Before\<close> gets the pipeline and the line, \<open>After\<close> also the exit code and the
  duration in milliseconds.
\<close>

record 'w interceptor =
  ic_before :: "'w \<Rightarrow> pipeline \<Rightarrow> string \<Rightarrow> 'w \<times> string option"
  ic_after :: "'w \<Rightarrow> pipeline \<Rightarrow> string \<Rightarrow> int \<Rightarrow> nat \<Rightarrow> 'w"

text \<open>
  \<open>sh_taint = None\<close> is the nil registry. \<open>sh_overflow\<close> is not in the code: it says that a
  recursion went deeper than the fuel it was given.
\<close>

record 'w shell =
  sh_cwd :: string
  sh_env :: env
  sh_last_exit :: int
  sh_aliases :: "(string \<times> string) list"
  sh_taint :: "string set option"
  sh_login :: bool
  sh_jobs :: job_table
  sh_interceptors :: "'w interceptor list"
  sh_stdin :: string
  sh_out :: string
  sh_err :: "diag list"
  sh_world :: 'w
  sh_overflow :: bool

definition say :: "diag \<Rightarrow> 'w shell \<Rightarrow> 'w shell" where
  "say d sh = sh\<lparr>sh_err := sh_err sh @ [d]\<rparr>"

definition put_out :: "string \<Rightarrow> 'w shell \<Rightarrow> 'w shell" where
  "put_out s sh = sh\<lparr>sh_out := sh_out sh @ s\<rparr>"

definition set_last_exit :: "'w shell \<Rightarrow> int \<Rightarrow> 'w shell" where
  "set_last_exit sh code = sh\<lparr>sh_last_exit := code\<rparr>"

text \<open>A built-in that gives its exit code back, as dispatch uses it: \<open>s.SetLastExit(b(args))\<close>.\<close>

definition exit_with :: "'w shell \<times> int \<Rightarrow> 'w shell" where
  "exit_with r = set_last_exit (fst r) (snd r)"

section \<open>The registry of tainted values\<close>

definition new_tainted_registry :: "string set option" where
  "new_tainted_registry = Some {}"

definition taint_add :: "string set option \<Rightarrow> string \<Rightarrow> string set option" where
  "taint_add reg value = (case reg of None \<Rightarrow> None | Some vs \<Rightarrow> if value = [] then Some vs else Some (insert value vs))"

definition taint_has :: "string set option \<Rightarrow> string \<Rightarrow> bool" where
  "taint_has reg value = (case reg of None \<Rightarrow> False | Some vs \<Rightarrow> value \<noteq> [] \<and> value \<in> vs)"

definition is_secret_get_stage :: "command \<Rightarrow> bool" where
  "is_secret_get_stage c =
     (cmd_name c = ''secret'' \<and> (case cmd_args c of [] \<Rightarrow> False | a # _ \<Rightarrow> a = ''get''))"

definition argv_matches_tainted :: "string \<Rightarrow> string list \<Rightarrow> string set option \<Rightarrow> bool" where
  "argv_matches_tainted name args reg = (taint_has reg name \<or> list_ex (taint_has reg) args)"

fun tag_commands :: "string set option \<Rightarrow> command list \<Rightarrow> command list \<times> bool" where
  "tag_commands reg [] = ([], False)"
| "tag_commands reg (c # cs) =
     (case tag_commands reg cs of
        (cs', anyt) \<Rightarrow>
          if is_secret_get_stage c then (c\<lparr>cmd_tainted := True\<rparr> # cs', True)
          else if argv_matches_tainted (cmd_name c) (cmd_args c) reg
               then (c\<lparr>cmd_tainted := True\<rparr> # cs', True)
               else (c # cs', anyt))"

definition tag_pipeline_taint :: "pipeline \<Rightarrow> string set option \<Rightarrow> pipeline" where
  "tag_pipeline_taint pl reg =
     (case tag_commands reg (commands pl) of
        (cs, anyt) \<Rightarrow> if anyt then pl\<lparr>commands := cs, tainted := True\<rparr> else pl\<lparr>commands := cs\<rparr>)"

text \<open>The prefix test on the text of a sub-command.\<close>

definition is_secret_get_invocation :: "string \<Rightarrow> bool" where
  "is_secret_get_invocation cmd =
     (let trimmed = trim_space cmd in
      has_prefix trimmed ''secret'' \<and>
      (case drop 6 trimmed of
         [] \<Rightarrow> False
       | a # _ \<Rightarrow>
           (a = CHR '' '' \<or> a = CHR 0x09) \<and>
           (let rest = trim_left_set (drop 6 trimmed) ('' '' @ [CHR 0x09]) in
            has_prefix rest ''get'' \<and>
            (case drop 3 rest of [] \<Rightarrow> False | b # _ \<Rightarrow> b = CHR '' '' \<or> b = CHR 0x09))))"

section \<open>Words of a line\<close>

definition strip_outer_quotes :: "string \<Rightarrow> string" where
  "strip_outer_quotes s =
     (if 2 \<le> length s
         \<and> (hd s = CHR 0x22 \<and> last s = CHR 0x22 \<or> hd s = CHR 0x27 \<and> last s = CHR 0x27)
      then butlast (tl s) else s)"

text \<open>39 and 34 are the quotes. \<open>b\<close> is the word being built; an empty word is not kept.\<close>

fun split_alias_loop :: "string \<Rightarrow> bool \<Rightarrow> bool \<Rightarrow> rune list \<Rightarrow> string list" where
  "split_alias_loop b inSingle inDouble [] = (if b \<noteq> [] then [b] else [])"
| "split_alias_loop b inSingle inDouble (r # rs) =
     (if r = 39 \<and> \<not> inDouble then split_alias_loop b (\<not> inSingle) inDouble rs
      else if r = 34 \<and> \<not> inSingle then split_alias_loop b inSingle (\<not> inDouble) rs
      else if (r = 32 \<or> r = 9) \<and> \<not> inSingle \<and> \<not> inDouble
        then (if b \<noteq> [] then [b] else []) @ split_alias_loop [] inSingle inDouble rs
      else split_alias_loop (b @ encode_rune r) inSingle inDouble rs)"

definition split_alias_args :: "string \<Rightarrow> string list" where
  "split_alias_args input = (if input = [] then [] else split_alias_loop [] False False (runes_of input))"

text \<open>Runes 32 and 9 are single bytes, so the loop over runes stops where a loop over bytes does.\<close>

definition first_token :: "string \<Rightarrow> string" where
  "first_token line = takeWhile (\<lambda>c. c \<noteq> CHR '' '' \<and> c \<noteq> CHR 0x09) (trim_space line)"

section \<open>The directory\<close>

definition expand_tilde :: "string \<Rightarrow> env \<Rightarrow> string" where
  "expand_tilde path e =
     (if path = [] \<or> path = ''~'' then home_dir e
      else if has_prefix path ''~/'' then
        (if home_dir e \<noteq> [] then path_join (home_dir e) (drop 2 path) else [])
      else path)"

text \<open>
  The system calls of \<open>Cd\<close>: \<open>os.Stat\<close> gives whether the path is a directory, \<open>os.Chdir\<close> and
  \<open>os.Getwd\<close> work on the world.
\<close>

record 'w dir_calls =
  dc_stat :: "'w \<Rightarrow> string \<Rightarrow> string + bool"
  dc_chdir :: "'w \<Rightarrow> string \<Rightarrow> string + 'w"
  dc_getwd :: "'w \<Rightarrow> string option"

definition cd :: "'w dir_calls \<Rightarrow> 'w shell \<Rightarrow> string \<Rightarrow> cd_error + 'w shell" where
  "cd dc sh path =
     (let target0 = expand_tilde path (sh_env sh) in
      if target0 = [] then Inl No_home
      else
        (let target = (if \<not> path_is_abs target0 then path_join (sh_cwd sh) target0 else target0) in
         case dc_stat dc (sh_world sh) target of
           Inl e \<Rightarrow> Inl (Stat_failed e)
         | Inr isdir \<Rightarrow>
             if \<not> isdir then Inl (Not_a_directory target)
             else
               (case dc_chdir dc (sh_world sh) target of
                  Inl e \<Rightarrow> Inl (Chdir_failed e)
                | Inr w \<Rightarrow>
                    Inr (sh\<lparr>sh_world := w,
                            sh_cwd := (case dc_getwd dc w of Some resolved \<Rightarrow> resolved | None \<Rightarrow> target)\<rparr>))))"

section \<open>Aliases\<close>

definition alias_get :: "'w shell \<Rightarrow> string \<Rightarrow> string option" where
  "alias_get sh name = map_of (sh_aliases sh) name"

definition alias_set :: "'w shell \<Rightarrow> string \<Rightarrow> string \<Rightarrow> 'w shell" where
  "alias_set sh name value = sh\<lparr>sh_aliases := AList.update name value (sh_aliases sh)\<rparr>"

text \<open>A quote in the value is written as quote, backslash, quote, quote.\<close>

definition quote_alias_value :: "string \<Rightarrow> string" where
  "quote_alias_value v =
     (if CHR 0x27 \<notin> set v then [CHR 0x27] @ v @ [CHR 0x27]
      else [CHR 0x27] @ replace_all v [CHR 0x27] [CHR 0x27, CHR 0x5C, CHR 0x27, CHR 0x27] @ [CHR 0x27])"

definition alias_line :: "string \<Rightarrow> string \<Rightarrow> string" where
  "alias_line name v = nl (''alias '' @ name @ ''='' @ quote_alias_value v)"

definition alias_list :: "'w shell \<Rightarrow> string" where
  "alias_list sh =
     concat (map (\<lambda>n. alias_line n (case alias_get sh n of None \<Rightarrow> [] | Some v \<Rightarrow> v))
       (sort (remdups (map fst (sh_aliases sh)))))"

fun alias_args :: "'w shell \<Rightarrow> int \<Rightarrow> string list \<Rightarrow> 'w shell \<times> int" where
  "alias_args sh exit [] = (sh, exit)"
| "alias_args sh exit (arg # args) =
     (case cut arg ''='' of
        (name, value, hasEq) \<Rightarrow>
          if \<not> hasEq then
            (case alias_get sh name of
               Some v \<Rightarrow> alias_args (put_out (alias_line name v) sh) exit args
             | None \<Rightarrow> alias_args (say (Alias_not_found name) sh) 1 args)
          else if name = [] then alias_args (say (Alias_missing_name arg) sh) 2 args
          else alias_args (alias_set sh name (strip_outer_quotes value)) exit args)"

definition alias_builtin :: "'w shell \<Rightarrow> string list \<Rightarrow> 'w shell \<times> int" where
  "alias_builtin sh args = (if args = [] then (put_out (alias_list sh) sh, 0) else alias_args sh 0 args)"

text \<open>
  \<open>resolveAlias\<close>: \<open>n\<close> counts the iterations that are left, \<open>seen\<close> is the set of the tokens that
  were rewritten.
\<close>

fun resolve_loop :: "nat \<Rightarrow> string list \<Rightarrow> 'w shell \<Rightarrow> string \<Rightarrow> 'w shell \<times> string" where
  "resolve_loop 0 seen sh line = (say Alias_too_long sh, line)"
| "resolve_loop (Suc n) seen sh line =
     (let first = first_token line in
      if first = [] then (sh, line)
      else
        (case alias_get sh first of
           None \<Rightarrow> (sh, line)
         | Some value \<Rightarrow>
             if List.member seen first then (say (Alias_cycle first) sh, line)
             else resolve_loop n (first # seen) sh (value @ trim_prefix line first)))"

definition resolve_alias :: "'w shell \<Rightarrow> string \<Rightarrow> 'w shell \<times> string" where
  "resolve_alias sh line =
     (if sh_aliases sh = [] \<or> line = [] then (sh, line) else resolve_loop 16 [] sh line)"

section \<open>Variables\<close>

definition list_env :: "'w shell \<Rightarrow> string" where
  "list_env sh = concat (map nl (sort (environ (sh_env sh))))"

fun set_args :: "'w shell \<Rightarrow> int \<Rightarrow> string list \<Rightarrow> 'w shell \<times> int" where
  "set_args sh exit [] = (sh, exit)"
| "set_args sh exit (arg # args) =
     (case cut arg ''='' of
        (name, value, hasEq) \<Rightarrow>
          if \<not> hasEq then set_args (say (Set_missing_eq arg) sh) 2 args
          else if name = [] then set_args (say (Set_empty_name arg) sh) 2 args
          else
            (case env_set (sh_env sh) name (strip_outer_quotes value) of
               Inl e \<Rightarrow> set_args (say (Set_failed e) sh) 1 args
             | Inr env \<Rightarrow> set_args (sh\<lparr>sh_env := env\<rparr>) exit args))"

definition set_builtin :: "'w shell \<Rightarrow> string list \<Rightarrow> 'w shell \<times> int" where
  "set_builtin sh args =
     (if args = [] then (put_out (list_env sh) sh, 0)
      else
        (case find (\<lambda>a. has_prefix a ''-'' \<or> has_prefix a ''+'') args of
           Some a \<Rightarrow> (say (Set_option a) sh, 2)
         | None \<Rightarrow> set_args sh 0 args))"

fun unset_args :: "'w shell \<Rightarrow> int \<Rightarrow> string list \<Rightarrow> 'w shell \<times> int" where
  "unset_args sh exit [] = (sh, exit)"
| "unset_args sh exit (name # names) =
     (if name = [] then unset_args (say Unset_empty sh) 2 names
      else unset_args (sh\<lparr>sh_env := env_unset (sh_env sh) name\<rparr>) exit names)"

definition unset_builtin :: "'w shell \<Rightarrow> string list \<Rightarrow> 'w shell \<times> int" where
  "unset_builtin sh args = (if args = [] then (say Unset_usage sh, 2) else unset_args sh 0 args)"

definition export_line :: "'w shell \<Rightarrow> string \<Rightarrow> 'w shell" where
  "export_line sh line =
     (let spec = trim_space (trim_space (trim_prefix (trim_prefix line ''export'') [CHR 0x09])) in
      case cut spec ''='' of
        (name, value, hasEq) \<Rightarrow>
          if \<not> hasEq then set_last_exit (say (Export_missing_eq spec) sh) 1
          else
            (case env_set (sh_env sh) name (strip_outer_quotes value) of
               Inl e \<Rightarrow> set_last_exit (say (Export_failed e) sh) 1
             | Inr env \<Rightarrow> set_last_exit (sh\<lparr>sh_env := env\<rparr>) 0))"

text \<open>The bytes of U+2014.\<close>

definition em_dash :: string where
  "em_dash = [CHR 0xE2, CHR 0x80, CHR 0x94]"

definition env_help :: string where
  "env_help = nl ''usage: env <list|get|set|unset> [name [value]]''
     @ nl (''  list                '' @ em_dash @ '' print every NAME=VALUE in the session env'')
     @ nl (''  get <name>          '' @ em_dash @ '' print VALUE or empty + exit 1 if unset'')
     @ nl (''  set <name> <value>  '' @ em_dash @ '' bind NAME=VALUE in the session env'')
     @ nl (''  unset <name>        '' @ em_dash @ '' remove NAME from the session env'')"

definition env_builtin :: "'w shell \<Rightarrow> string list \<Rightarrow> 'w shell \<times> int" where
  "env_builtin sh args =
     (case args of
        [] \<Rightarrow> (put_out (list_env sh) sh, 0)
      | sub # rest \<Rightarrow>
          if sub = ''list'' then (put_out (list_env sh) sh, 0)
          else if sub = ''help'' then (put_out env_help sh, 0)
          else if sub = ''get'' then
            (case rest of
               [] \<Rightarrow> (say (Env_usage sub) sh, 2)
             | name # _ \<Rightarrow>
                 (case env_get (sh_env sh) name of None \<Rightarrow> (sh, 1) | Some v \<Rightarrow> (put_out (nl v) sh, 0)))
          else if sub = ''set'' then
            (case rest of
               name # v # vs \<Rightarrow>
                 (case env_set (sh_env sh) name (str_join '' '' (v # vs)) of
                    Inl e \<Rightarrow> (say (Env_failed e) sh, 1)
                  | Inr env \<Rightarrow> (sh\<lparr>sh_env := env\<rparr>, 0))
             | _ \<Rightarrow> (say (Env_usage sub) sh, 2))
          else if sub = ''unset'' then
            (case rest of
               [] \<Rightarrow> (say (Env_usage sub) sh, 2)
             | name # _ \<Rightarrow> (sh\<lparr>sh_env := env_unset (sh_env sh) name\<rparr>, 0))
          else (say (Env_unknown sub) sh, 2))"

section \<open>Leaving the shell\<close>

text \<open>The errors that end the main loop: \<open>errLogout\<close>, \<open>errExecReplaced\<close>, and an exec that did not return.\<close>

datatype stop = Logged_out int | Exec_replaced int | Process_replaced

definition logout_builtin :: "'w shell \<Rightarrow> string list \<Rightarrow> 'w shell \<times> stop option" where
  "logout_builtin sh args =
     (if \<not> sh_login sh then (set_last_exit (say Not_login_shell sh) 1, None)
      else
        (case args of
           [] \<Rightarrow> (set_last_exit sh 0, Some (Logged_out 0))
         | a # _ \<Rightarrow>
             (case atoi (trim_space a) of
                None \<Rightarrow> (set_last_exit (say (Numeric_required a) sh) 1, None)
              | Some n \<Rightarrow> (set_last_exit sh n, Some (Logged_out n)))))"

definition is_logout :: "stop \<Rightarrow> int option" where
  "is_logout s = (case s of Logged_out n \<Rightarrow> Some n | _ \<Rightarrow> None)"

definition is_exec_replaced :: "stop \<Rightarrow> int option" where
  "is_exec_replaced s = (case s of Exec_replaced n \<Rightarrow> Some n | _ \<Rightarrow> None)"

text \<open>The tail of an \<open>exec\<close> line; an empty list is the bare form.\<close>

definition parse_exec_line :: "string \<Rightarrow> diag + string list" where
  "parse_exec_line tail0 =
     (let tail = trim_space tail0 in
      if tail = [] then Inr []
      else
        (case parse_line tail of
           Inl e \<Rightarrow> Inl (Exec_parse e)
         | Inr pl \<Rightarrow>
             (case commands pl of
                [c] \<Rightarrow> Inr (cmd_name c # cmd_args c)
              | _ \<Rightarrow> Inl Exec_pipeline)))"

section \<open>RC files\<close>

text \<open>
  A decoded RC file; its tables are maps, listed in some order. The TOML library is a parameter:
  \<open>toml raw\<close> is the decoded file, or the error. A file is read with \<open>read\<close>, which gives whether the
  error is \<open>ErrNotExist\<close> and its text.
\<close>

record rc_file =
  rc_env :: "(string \<times> string) list"
  rc_umask :: string
  rc_aliases :: "(string \<times> string) list"

type_synonym read_file = "string \<Rightarrow> (bool \<times> string) + string"

type_synonym toml_decoder = "string \<Rightarrow> string + rc_file"

definition rc_looks_toml :: "string \<Rightarrow> bool" where
  "rc_looks_toml raw = str_contains raw ''[''"

fun sourced_env :: "string \<Rightarrow> 'w shell \<Rightarrow> (string \<times> string) list \<Rightarrow> 'w shell \<times> bool" where
  "sourced_env path sh [] = (sh, False)"
| "sourced_env path sh ((k, v) # kvs) =
     (case env_set (sh_env sh) k v of
        Inl e \<Rightarrow> sourced_env path (say (Source_env_failed path k) sh) kvs
      | Inr env \<Rightarrow> (case sourced_env path (sh\<lparr>sh_env := env\<rparr>) kvs of (sh', _) \<Rightarrow> (sh', True)))"

fun sourced_aliases :: "'w shell \<Rightarrow> (string \<times> string) list \<Rightarrow> 'w shell" where
  "sourced_aliases sh [] = sh"
| "sourced_aliases sh ((k, v) # kvs) = sourced_aliases (alias_set sh k v) kvs"

definition apply_sourced_rc :: "'w shell \<Rightarrow> rc_file \<Rightarrow> string \<Rightarrow> 'w shell \<times> bool" where
  "apply_sourced_rc sh rc path =
     (case sourced_env path sh (rc_env rc) of
        (sh1, applied) \<Rightarrow>
          let sh2 = sourced_aliases sh1 (rc_aliases rc) in
          (if rc_umask rc \<noteq> [] then say (Source_umask path) sh2 else sh2,
           applied \<or> rc_aliases rc \<noteq> []))"

fun sourced_lines :: "nat \<Rightarrow> nat \<Rightarrow> 'w shell \<Rightarrow> string list \<Rightarrow> 'w shell \<times> nat" where
  "sourced_lines lineno applied sh [] = (sh, applied)"
| "sourced_lines lineno applied sh (raw # raws) =
     (let line0 = trim_space raw in
      if line0 = [] \<or> has_prefix line0 ''#'' then sourced_lines (lineno + 1) applied sh raws
      else
        (let line = (if has_prefix line0 ''export '' then trim_space (trim_prefix line0 ''export '') else line0) in
         case cut line ''='' of
           (name, value, hasEq) \<Rightarrow>
             if \<not> hasEq \<or> name = []
             then sourced_lines (lineno + 1) applied (say (Source_malformed (lineno + 1)) sh) raws
             else
               (case env_set (sh_env sh) (trim_space name) (strip_outer_quotes (trim_space value)) of
                  Inl e \<Rightarrow> sourced_lines (lineno + 1) applied (say (Source_malformed (lineno + 1)) sh) raws
                | Inr env \<Rightarrow> sourced_lines (lineno + 1) (applied + 1) (sh\<lparr>sh_env := env\<rparr>) raws)))"

definition apply_sourced_env_lines :: "'w shell \<Rightarrow> string \<Rightarrow> string \<Rightarrow> 'w shell \<times> int" where
  "apply_sourced_env_lines sh raw path =
     (case scan_raw_lines raw of
        (ls, too_long) \<Rightarrow>
          (case sourced_lines 0 0 sh ls of
             (sh', applied) \<Rightarrow>
               if too_long then (say (Source_failed path ''token too long'') sh', 1)
               else (sh', if applied = 0 then 1 else 0)))"

definition source_builtin :: "read_file \<Rightarrow> toml_decoder \<Rightarrow> 'w shell \<Rightarrow> string list \<Rightarrow> 'w shell \<times> int" where
  "source_builtin read toml sh args =
     (case args of
        [] \<Rightarrow> (say Source_usage sh, 2)
      | path # _ \<Rightarrow>
          (case read path of
             Inl (missing, e) \<Rightarrow> (say (Source_failed path (if missing then ''no such file'' else e)) sh, 1)
           | Inr raw \<Rightarrow>
               (case toml raw of
                  Inr rc \<Rightarrow>
                    if rc_looks_toml raw then
                      (case apply_sourced_rc sh rc path of
                         (sh1, applied) \<Rightarrow>
                           if applied then (sh1, 0) else apply_sourced_env_lines sh1 raw path)
                    else apply_sourced_env_lines sh raw path
                | Inl _ \<Rightarrow> apply_sourced_env_lines sh raw path)))"

text \<open>
  The login files. \<open>set_umask\<close> works on the world; \<open>octal\<close> is \<open>strconv.ParseInt(s, 8, 32)\<close>.
\<close>

fun rc_env_entries :: "string \<Rightarrow> 'w shell \<Rightarrow> (string \<times> string) list \<Rightarrow> 'w shell" where
  "rc_env_entries path sh [] = sh"
| "rc_env_entries path sh ((k, v) # kvs) =
     (case env_set (sh_env sh) k v of
        Inl e \<Rightarrow> rc_env_entries path (say (Rc_warning path k) sh) kvs
      | Inr env \<Rightarrow> rc_env_entries path (sh\<lparr>sh_env := env\<rparr>) kvs)"

definition octal :: "string \<Rightarrow> int option" where
  "octal s =
     (let (neg, ds) = (case s of
          c # cs \<Rightarrow> if c = CHR ''-'' then (True, cs) else if c = CHR ''+'' then (False, cs) else (False, s)
        | [] \<Rightarrow> (False, []));
          v = foldl (\<lambda>v c. 8 * v + (of_char c - 48)) 0 ds
      in if ds = [] \<or> \<not> list_all (\<lambda>c. is_digit c \<and> of_char c < (56::nat)) ds then None
         else if neg then (if v \<le> 2 ^ 31 then Some (- v) else None)
         else if v < 2 ^ 31 then Some v else None)"

definition apply_rc_file ::
  "read_file \<Rightarrow> toml_decoder \<Rightarrow> (int \<Rightarrow> 'w \<Rightarrow> 'w) \<Rightarrow> 'w shell \<Rightarrow> string \<Rightarrow> 'w shell \<times> string option" where
  "apply_rc_file read toml set_umask sh path =
     (case (case read path of Inl (_, e) \<Rightarrow> Inl e | Inr raw \<Rightarrow> toml raw) of
        Inl e \<Rightarrow> (sh, Some (''parse: '' @ e))
      | Inr rc \<Rightarrow>
          (let sh1 = rc_env_entries path sh (rc_env rc) in
           if rc_umask rc \<noteq> [] then
             (case octal (rc_umask rc) of
                None \<Rightarrow> (sh1, Some (''invalid umask '' @ quoted (rc_umask rc)))
              | Some m \<Rightarrow>
                  (sourced_aliases (sh1\<lparr>sh_world := set_umask m (sh_world sh1)\<rparr>) (rc_aliases rc), None))
           else (sourced_aliases sh1 (rc_aliases rc), None)))"

definition source_rc ::
  "read_file \<Rightarrow> toml_decoder \<Rightarrow> (int \<Rightarrow> 'w \<Rightarrow> 'w) \<Rightarrow> (string \<Rightarrow> bool) \<Rightarrow> string \<Rightarrow> 'w shell \<Rightarrow> 'w shell" where
  "source_rc read toml set_umask exists path sh =
     (if path \<noteq> [] \<and> exists path then
        (case apply_rc_file read toml set_umask sh path of
           (sh', None) \<Rightarrow> sh'
         | (sh', Some e) \<Rightarrow> say (Rc_warning path e) sh')
      else sh)"

text \<open>\<open>user_rc home\<close> is the user's path and \<open>sys_rc\<close> the system's; both depend on the platform.\<close>

definition load_rc_files ::
  "read_file \<Rightarrow> toml_decoder \<Rightarrow> (int \<Rightarrow> 'w \<Rightarrow> 'w) \<Rightarrow> (string \<Rightarrow> bool) \<Rightarrow> string \<Rightarrow> (string \<Rightarrow> string) \<Rightarrow>
     'w shell \<Rightarrow> 'w shell" where
  "load_rc_files read toml set_umask exists sys_rc user_rc sh =
     (let sh1 = source_rc read toml set_umask exists sys_rc sh;
          home = home_dir (sh_env sh1)
      in if home \<noteq> [] then source_rc read toml set_umask exists (user_rc home) sh1 else sh1)"

definition default_posix_path :: string where
  "default_posix_path = ''/usr/local/bin:/usr/bin:/bin''"

definition apply_login_env_defaults :: "string \<Rightarrow> bool \<Rightarrow> env \<Rightarrow> env" where
  "apply_login_env_defaults version windows e =
     (let e1 = (if version \<noteq> [] then (case env_set e ''AISH_VERSION'' version of Inr x \<Rightarrow> x | Inl _ \<Rightarrow> e) else e) in
      if windows then e1
      else
        (case env_get e1 ''PATH'' of
           Some (c # p) \<Rightarrow> e1
         | _ \<Rightarrow> (case env_set e1 ''PATH'' default_posix_path of Inr x \<Rightarrow> x | Inl _ \<Rightarrow> e1)))"

section \<open>Where the RC files are\<close>

definition backslash :: string where
  "backslash = [CHR 0x5C]"

fun windows_parts :: "bool \<Rightarrow> string list \<Rightarrow> string list" where
  "windows_parts first [] = []"
| "windows_parts first (s # ss) =
     (if s = [] then windows_parts False ss
      else
        (let t = (if first then trim_right_set s (backslash @ ''/'')
                  else trim_left_set (trim_right_set s (backslash @ ''/'')) (backslash @ ''/''))
         in (if t \<noteq> [] then [t] else []) @ windows_parts False ss))"

definition join_windows :: "string list \<Rightarrow> string" where
  "join_windows segments = str_join backslash (windows_parts True segments)"

definition user_rc_path_for_goos :: "string \<Rightarrow> string \<Rightarrow> string \<Rightarrow> string" where
  "user_rc_path_for_goos goos home appdata =
     (if goos = ''windows'' then
        (if appdata \<noteq> [] then join_windows [appdata, ''aish'', ''aishrc.toml'']
         else if home \<noteq> [] then join_windows [home, ''AppData'', ''Roaming'', ''aish'', ''aishrc.toml'']
         else [])
      else if home = [] then []
      else path_clean (home @ ''/.aish/aishrc.toml''))"

definition system_rc_path_for_goos :: "string \<Rightarrow> string \<Rightarrow> string" where
  "system_rc_path_for_goos goos program_data =
     (if goos = ''windows'' then
        join_windows [if program_data = [] then ''C:'' @ backslash @ ''ProgramData'' else program_data, ''aish'', ''aishrc.toml'']
      else ''/etc/aish/aishrc'')"

section \<open>Words and aliases\<close>

definition blank_tail :: "string \<Rightarrow> bool" where
  "blank_tail s \<longleftrightarrow> s = [] \<or> hd s = CHR '' '' \<or> hd s = CHR 0x09"

lemma blank_tail_simps [simp]: "blank_tail []" "blank_tail (c # s) \<longleftrightarrow> c = CHR '' '' \<or> c = CHR 0x09"
  by (auto simp: blank_tail_def)

lemma blank_tail_append: "blank_tail a \<Longrightarrow> blank_tail b \<Longrightarrow> blank_tail (a @ b)"
  by (cases a) auto

lemma plain_word_not_blank: "plain_word w \<Longrightarrow> c \<in> set w \<Longrightarrow> c \<noteq> CHR '' '' \<and> c \<noteq> CHR 0x09"
  by (auto simp: plain_word_def list_all_iff is_space_def)

lemma trim_space_word:
  assumes "plain_word w"
  shows "\<exists>r'. trim_space (w @ rest) = w @ r' \<and> prefix r' rest"
proof -
  obtain c cs where w: "w = c # cs" using assms by (cases w) (auto simp: plain_word_def)
  then have "trim_left (w @ rest) = w @ rest"
    using assms by (simp add: plain_word_def trim_left_id del: trim_left.simps)
  moreover have "last w \<in> set w" using w by simp
  ultimately show ?thesis
    using trim_right_stops [of w rest] assms w by (auto simp: trim_space_def plain_word_def list_all_iff)
qed

lemma first_token_word:
  assumes "plain_word w" "blank_tail rest"
  shows "first_token (w @ rest) = w"
proof -
  obtain r' where r': "trim_space (w @ rest) = w @ r'" "prefix r' rest" using trim_space_word [OF assms(1)] by blast
  then have "blank_tail r'" using assms(2) by (cases r') (auto simp: prefix_def)
  then have "takeWhile (\<lambda>c. c \<noteq> CHR '' '' \<and> c \<noteq> CHR 0x09) r' = []" by (cases r') auto
  then show ?thesis
    using r'(1) plain_word_not_blank [OF assms(1)] by (auto simp: first_token_def takeWhile_append2)
qed

lemma first_token_blank:
  assumes "plain_word w" "blank_tail rest"
  shows "first_token (CHR '' '' # w @ rest) = w"
proof -
  have "trim_space (CHR '' '' # w @ rest) = trim_space (w @ rest)"
    by (simp add: trim_space_def decode_rune_ascii is_space_blank)
  then show ?thesis using first_token_word [OF assms] by (simp add: first_token_def)
qed

text \<open>A chain of aliases from \<open>t\<close>: each step names the next first word and what follows it in the value.\<close>

fun alias_path :: "'w shell \<Rightarrow> string \<Rightarrow> (string \<times> string) list \<Rightarrow> bool" where
  "alias_path sh t [] \<longleftrightarrow> alias_get sh t = None"
| "alias_path sh t ((v, a) # steps) \<longleftrightarrow>
     alias_get sh t = Some (v @ a) \<and> plain_word v \<and> blank_tail a \<and> alias_path sh v steps"

lemma alias_get_nonempty: "alias_get sh t = Some v \<Longrightarrow> sh_aliases sh \<noteq> []"
  by (auto simp: alias_get_def)

lemma resolve_loop_Suc:
  "first_token line \<noteq> [] \<Longrightarrow> alias_get sh (first_token line) = Some value \<Longrightarrow> first_token line \<notin> set seen \<Longrightarrow>
     resolve_loop (Suc n) seen sh line
       = resolve_loop n (first_token line # seen) sh (value @ trim_prefix line (first_token line))"
  by (simp add: Let_def List.member_iff)

lemma resolve_loop_step:
  assumes "plain_word t" "blank_tail rest" "alias_get sh t = Some value" "t \<notin> set seen"
  shows "resolve_loop (Suc n) seen sh (t @ rest) = resolve_loop n (t # seen) sh (value @ rest)"
  using assms first_token_word [OF assms(1,2)] resolve_loop_Suc [of "t @ rest" sh "value" seen n]
  by (simp add: trim_prefix_def plain_word_def)

lemma resolve_loop_chain:
  "alias_path sh t steps \<Longrightarrow> plain_word t \<Longrightarrow> blank_tail rest \<Longrightarrow> distinct (t # map fst steps) \<Longrightarrow>
     set (t # map fst steps) \<inter> set seen = {} \<Longrightarrow> length steps < n \<Longrightarrow>
     resolve_loop n seen sh (t @ rest)
       = (sh, last (t # map fst steps) @ concat (map snd (rev steps)) @ rest)"
proof (induction steps arbitrary: t seen n rest)
  case Nil
  then obtain m where "n = Suc m" by (cases n) auto
  with Nil show ?case by (simp add: Let_def first_token_word plain_word_def)
next
  case (Cons s steps)
  obtain v a where s: "s = (v, a)" by fastforce
  obtain m where n: "n = Suc m" "length steps < m" using Cons.prems(6) by (cases n) auto
  have "resolve_loop n seen sh (t @ rest) = resolve_loop m (t # seen) sh (v @ a @ rest)"
    using resolve_loop_step [of t rest sh "v @ a" seen m] Cons.prems s n(1) by auto
  also have "\<dots> = (sh, last (v # map fst steps) @ concat (map snd (rev steps)) @ a @ rest)"
    using Cons.prems s n(2) by (intro Cons.IH) (auto intro: blank_tail_append)
  finally show ?case using s by simp
qed

section \<open>Properties\<close>

text \<open>
  C27. Aliases are expanded along the chain: when the first word of a line is an alias whose value begins
  with an alias and so on, for at most fifteen different words, the line becomes the last word of
  the chain followed by the tails of the values, innermost first, and the rest of the line; nothing
  is reported. A line whose first word is no alias is left alone.
\<close>

theorem resolve_alias_chain:
  assumes "alias_path sh t steps" "distinct (t # map fst steps)" "length steps < 16"
    and "plain_word t" "blank_tail rest"
  shows "resolve_alias sh (t @ rest) = (sh, last (t # map fst steps) @ concat (map snd (rev steps)) @ rest)"
proof (cases "sh_aliases sh = []")
  case True
  then have "steps = []" using assms(1) by (cases steps) (auto dest: alias_get_nonempty)
  with True show ?thesis by (simp add: resolve_alias_def)
next
  case False
  then show ?thesis
    using resolve_loop_chain [OF assms(1,4,5,2), of "[]" 16] assms(3,4) by (simp add: resolve_alias_def plain_word_def)
qed

definition demo_shell :: "unit shell" where
  "demo_shell = \<lparr>sh_cwd = ''/d'', sh_env = env_new, sh_last_exit = 0,
     sh_aliases = [(''ll'', ''l -l''), (''l'', ''ls -a''), (''x'', ''y 1''), (''y'', ''x 2'')], sh_taint = None, sh_login = False,
     sh_jobs = new_job_table, sh_interceptors = [], sh_stdin = [], sh_out = [], sh_err = [], sh_world = (), sh_overflow = False\<rparr>"

lemma demo_words: "plain_word ''ll''" "plain_word ''l''" "plain_word ''ls''" "plain_word ''x''" "plain_word ''y''"
  by code_simp+

theorem resolve_alias_chain_witness:
  "resolve_alias demo_shell ''ll f | wc'' = (demo_shell, ''ls -a -l f | wc'')"
proof -
  have "alias_path demo_shell ''ll'' [(''l'', '' -l''), (''ls'', '' -a'')]"
    using demo_words by (simp add: alias_get_def demo_shell_def)
  from resolve_alias_chain [OF this, of "'' f | wc''"] show ?thesis using demo_words by simp
qed

text \<open>
  A cycle of aliases ends with a report, and the line that was last rewritten is kept.
\<close>

theorem resolve_alias_cycle:
  assumes "alias_get sh t = Some (u @ a)" "alias_get sh u = Some (t @ b)" "t \<noteq> u"
    and "plain_word t" "plain_word u" "blank_tail a" "blank_tail b" "blank_tail rest"
  shows "resolve_alias sh (t @ rest) = (say (Alias_cycle t) sh, t @ b @ a @ rest)"
proof -
  have "resolve_loop 16 [] sh (t @ rest) = resolve_loop 15 [t] sh (u @ a @ rest)"
    using resolve_loop_step [of t rest sh "u @ a" "[]" 15] assms by simp
  also have "\<dots> = resolve_loop 14 [u, t] sh (t @ b @ a @ rest)"
    using resolve_loop_step [of u "a @ rest" sh "t @ b" "[t]" 14] assms blank_tail_append by simp
  also have "\<dots> = (say (Alias_cycle t) sh, t @ b @ a @ rest)"
  proof -
    have "first_token (t @ b @ a @ rest) = t" using assms(4,6-8) by (simp add: first_token_word blank_tail_append)
    moreover have "resolve_loop (Suc 13) [u, t] sh (t @ b @ a @ rest) = (say (Alias_cycle t) sh, t @ b @ a @ rest)"
      if "first_token (t @ b @ a @ rest) = t"
      unfolding resolve_loop.simps Let_def that using assms(1,4) by (auto simp: List.member_iff plain_word_def)
    ultimately show ?thesis by (simp add: eval_nat_numeral)
  qed
  finally show ?thesis using assms(1,4) alias_get_nonempty [OF assms(1)] by (simp add: resolve_alias_def plain_word_def)
qed

theorem resolve_alias_cycle_witness:
  "resolve_alias demo_shell ''x f'' = (say (Alias_cycle ''x'') demo_shell, ''x 2 1 f'')"
  using resolve_alias_cycle [of demo_shell "''x''" "''y''" "'' 1''" "'' 2''" "'' f''"] demo_words
  by (simp add: alias_get_def demo_shell_def)

text \<open>
  In a line that begins with a blank the first word is looked up in the alias table but is not taken
  off the line: the value is put in front and the word stays as an argument.
\<close>

theorem alias_leading_blank:
  assumes "alias_get sh t = Some (v @ a)" "alias_get sh v = None"
    and "plain_word t" "plain_word v" "blank_tail a" "blank_tail rest"
  shows "resolve_alias sh (CHR '' '' # t @ rest) = (sh, v @ a @ CHR '' '' # t @ rest)"
proof -
  let ?l = "CHR '' '' # t @ rest"
  have "\<not> has_prefix ?l t" using plain_word_not_blank [OF assms(3), of "hd t"] assms(3) by (cases t) (auto simp: plain_word_def)
  then have "resolve_loop (Suc 15) [] sh ?l = resolve_loop 15 [t] sh ((v @ a) @ ?l)"
    using assms(1,3) first_token_blank [OF assms(3,6)] resolve_loop_Suc [of ?l sh "v @ a" "[]" 15]
    by (simp only: trim_prefix_def plain_word_def if_False list.set empty_iff not_False_eq_True simp_thms)
  then have "resolve_loop (Suc 15) [] sh ?l = resolve_loop 15 [t] sh (v @ a @ ?l)" by simp
  also have "\<dots> = (sh, v @ a @ ?l)"
  proof -
    have "blank_tail (a @ ?l)" using assms(5) by (intro blank_tail_append) simp_all
    moreover have "t \<noteq> v" using assms(1,2) by auto
    ultimately show ?thesis using resolve_loop_chain [of sh v "[]" "a @ ?l" "[t]" 15] assms(2,4) by simp
  qed
  finally show ?thesis using alias_get_nonempty [OF assms(1)] by (simp add: resolve_alias_def eval_nat_numeral)
qed

theorem alias_leading_blank_witness:
  "resolve_alias demo_shell '' l f'' = (demo_shell, ''ls -a l f'')"
  using alias_leading_blank [of demo_shell "''l''" "''ls''" "'' -a''" "'' f''"] demo_words
  by (simp add: alias_get_def demo_shell_def)

text \<open>
  Reading back what \<open>alias\<close> prints gives the alias again when the value has no single quote (an outer
  pair of double quotes is lost). A single quote in the value, before text without
  blanks and quotes, comes back as a backslash: the words of \<open>alias\<close> are split without backslash escapes,
  so the printed escape is not understood.
\<close>

definition alias_name_ok :: "string \<Rightarrow> bool" where
  "alias_name_ok name \<longleftrightarrow> plain_word name \<and> set name \<inter> {CHR 0x27, CHR 0x22, CHR ''=''} = {}"

lemma split_alias_plain:
  "\<forall>r \<in> set rs. r \<notin> {39, 34, 32, 9} \<Longrightarrow>
     split_alias_loop b False False (rs @ xs) = split_alias_loop (b @ string_of_runes rs) False False xs"
  by (induction rs arbitrary: b) simp_all

lemma split_alias_single:
  "39 \<notin> set rs \<Longrightarrow> split_alias_loop b True False (rs @ xs) = split_alias_loop (b @ string_of_runes rs) True False xs"
  by (induction rs arbitrary: b) simp_all

lemma alias_name_runes:
  assumes "alias_name_ok name"
  shows "name = string_of_runes (map of_char name)" "\<forall>r \<in> set (map of_char name). valid_rune r"
    "\<forall>r \<in> set (map of_char name). r \<notin> {39, 34, 32, 9::nat}"
proof -
  have asc: "ascii name" using assms by (auto simp: alias_name_ok_def plain_word_def ascii_def list_all_iff)
  then show "name = string_of_runes (map of_char name)" by (simp add: string_of_runes_ascii)
  show "\<forall>r \<in> set (map of_char name). valid_rune r"
    using asc by (auto simp: ascii_def list_all_iff valid_rune_def)
  have "of_char c \<notin> {39, 34, 32, 9::nat}" if "c \<in> set name" for c
  proof -
    have "\<not> is_space (of_char c)" "c \<noteq> char_of (39::nat)" "c \<noteq> char_of (34::nat)"
      using assms that by (auto simp: alias_name_ok_def plain_word_def list_all_iff char_of_special)
    then show ?thesis using char_of_char [of c] is_space_blank by (metis (no_types) insertE empty_iff)
  qed
  then show "\<forall>r \<in> set (map of_char name). r \<notin> {39, 34, 32, 9::nat}" by auto
qed

lemma byte_rune: "valid_utf8 s \<Longrightarrow> n < 128 \<Longrightarrow> char_of n \<notin> set s \<Longrightarrow> n \<notin> set (runes_of s)"
  using small_rune_in_bytes by blast

lemma split_alias_args_runes:
  assumes "\<forall>r \<in> set rs. valid_rune r"
  shows "split_alias_args (string_of_runes rs) = split_alias_loop [] False False rs"
proof -
  have "split_alias_args s = split_alias_loop [] False False (runes_of s)" for s
    by (simp add: split_alias_args_def)
  then show ?thesis using runes_of_string_of_valid [OF assms] by simp
qed

lemma char_of_blank: "char_of (32::nat) = CHR '' ''" "char_of (9::nat) = CHR 0x09" "char_of (61::nat) = CHR ''=''"
  "char_of (92::nat) = CHR 0x5C" "char_of (39::nat) = CHR 0x27"
  by code_simp+

lemma replace_all_single:
  "c \<notin> set a \<Longrightarrow> c \<notin> set b \<Longrightarrow> replace_all (a @ c # b) [c] new = a @ new @ b"
proof -
  have none: "c \<notin> set s \<Longrightarrow> replace_all s [c] new = s" for s by (induction s) auto
  show "c \<notin> set a \<Longrightarrow> c \<notin> set b \<Longrightarrow> replace_all (a @ c # b) [c] new = a @ new @ b"
    using none by (induction a) auto
qed

lemma cut_assignment: "CHR ''='' \<notin> set name \<Longrightarrow> cut (name @ CHR ''='' # v) ''='' = (name, v, True)"
  by (simp add: cut_def index_of_append_byte)

theorem alias_reread:
  assumes "alias_name_ok name" "valid_utf8 a" "CHR 0x27 \<notin> set a"
    and "valid_utf8 b" "set b \<inter> {CHR 0x27, CHR 0x22, CHR '' '', CHR 0x09} = {}"
  shows "alias_builtin sh (split_alias_args (name @ ''='' @ quote_alias_value a)) = (alias_set sh name (strip_outer_quotes a), 0)
    \<and> alias_builtin sh (split_alias_args (name @ ''='' @ quote_alias_value (a @ CHR 0x27 # b)))
           = (alias_set sh name (strip_outer_quotes (a @ CHR 0x5C # b)), 0)"
proof -
  note nm = alias_name_runes [OF assms(1)]
  let ?n = "map of_char name" let ?a = "runes_of a" let ?b = "runes_of b"
  have sr: "a = string_of_runes ?a" "b = string_of_runes ?b" using assms(2,4) by (simp_all add: valid_utf8_def)
  have val: "\<forall>r \<in> set ?a. valid_rune r" "\<forall>r \<in> set ?b. valid_rune r" using valid_rune_runes_of by blast+
  have qa: "39 \<notin> set ?a" using byte_rune [OF assms(2), of 39] assms(3) by (simp add: char_of_special)
  have qb: "\<forall>r \<in> set ?b. r \<notin> {39, 34, 32, 9}"
    using byte_rune [OF assms(4), of 39] byte_rune [OF assms(4), of 34] byte_rune [OF assms(4), of 32]
      byte_rune [OF assms(4), of 9] assms(5) by (auto simp: char_of_special char_of_blank)
  have v: "valid_rune 61" "valid_rune 39" "valid_rune 92" by (simp_all add: valid_rune_def)
  have enc: "encode_rune 61 = ''=''" "encode_rune 39 = [CHR 0x27]" "encode_rune 92 = [CHR 0x5C]"
    by (simp_all add: encode_rune_ascii char_of_blank)
  have eq: "CHR ''='' \<notin> set name" using assms(1) by (auto simp: alias_name_ok_def)
  have one: "alias_builtin sh [name @ CHR ''='' # x] = (alias_set sh name (strip_outer_quotes x), 0)" for x
    using assms(1) by (simp add: alias_builtin_def cut_assignment [OF eq] alias_name_ok_def plain_word_def)
  have "name @ ''='' @ quote_alias_value a = string_of_runes (?n @ [61, 39] @ ?a @ [39])"
    using assms(3) nm(1) sr(1) enc by (simp add: quote_alias_value_def)
  moreover have "split_alias_loop [] False False (?n @ [61, 39] @ ?a @ [39]) = [name @ ''='' @ a]"
    using split_alias_plain [OF nm(3), of "[]"] split_alias_single [OF qa] nm(1) sr(1) enc by simp
  ultimately have "split_alias_args (name @ ''='' @ quote_alias_value a) = [name @ ''='' @ a]"
    using split_alias_args_runes [of "?n @ [61, 39] @ ?a @ [39]"] nm(2) val v by (auto simp del: string_of_runes_simps)
  then have first: "alias_builtin sh (split_alias_args (name @ ''='' @ quote_alias_value a)) = (alias_set sh name (strip_outer_quotes a), 0)"
    using one by simp
  let ?rs = "?n @ [61, 39] @ ?a @ [39, 92, 39, 39] @ ?b @ [39]"
  have "replace_all (a @ CHR 0x27 # b) [CHR 0x27] [CHR 0x27, CHR 0x5C, CHR 0x27, CHR 0x27]
      = a @ [CHR 0x27, CHR 0x5C, CHR 0x27, CHR 0x27] @ b"
    using replace_all_single assms(3,5) by simp
  then have "name @ ''='' @ quote_alias_value (a @ CHR 0x27 # b) = string_of_runes ?rs"
    using nm(1) sr enc by (simp add: quote_alias_value_def)
  moreover have "split_alias_loop [] False False ?rs = [name @ ''='' @ a @ CHR 0x5C # b]"
    using split_alias_plain [OF nm(3), of "[]"] split_alias_single [OF qa] split_alias_plain [OF qb, where xs = "[39]"]
      nm(1) sr enc by simp
  ultimately have "split_alias_args (name @ ''='' @ quote_alias_value (a @ CHR 0x27 # b)) = [name @ ''='' @ a @ CHR 0x5C # b]"
    using split_alias_args_runes [of ?rs] nm(2) val v by (auto simp del: string_of_runes_simps)
  then show ?thesis using first one by simp
qed

theorem alias_reread_witness:
  "alias_builtin demo_shell (split_alias_args (''g='' @ quote_alias_value ''git log'')) = (alias_set demo_shell ''g'' ''git log'', 0)
     \<and> alias_builtin demo_shell (split_alias_args (''s='' @ quote_alias_value ([CHR ''i'', CHR 0x27] @ ''m'')))
         = (alias_set demo_shell ''s'' [CHR ''i'', CHR 0x5C, CHR ''m''], 0)"
proof -
  have facts: "alias_name_ok ''g''" "alias_name_ok ''s''" "valid_utf8 ''git log''" "CHR 0x27 \<notin> set ''git log''"
    "valid_utf8 ''m''" "set ''m'' \<inter> {CHR 0x27, CHR 0x22, CHR '' '', CHR 0x09} = {}" "valid_utf8 ''i''" "CHR 0x27 \<notin> set ''i''"
    by code_simp+
  have "strip_outer_quotes ''git log'' = ''git log''" "strip_outer_quotes [CHR ''i'', CHR 0x5C, CHR ''m''] = [CHR ''i'', CHR 0x5C, CHR ''m'']"
    by code_simp+
  then show ?thesis
    using alias_reread [OF facts(1,3-6), of demo_shell] alias_reread [OF facts(2,7,8,5,6), of demo_shell] by simp
qed

text \<open>The commands that are marked, and the marking as a map.\<close>

definition command_hit :: "string set option \<Rightarrow> command \<Rightarrow> bool" where
  "command_hit reg c \<longleftrightarrow> is_secret_get_stage c \<or> (\<exists>w \<in> set (cmd_name c # cmd_args c). taint_has reg w)"

lemma tag_commands_map:
  "tag_commands reg cs = (map (\<lambda>c. if command_hit reg c then c\<lparr>cmd_tainted := True\<rparr> else c) cs, list_ex (command_hit reg) cs)"
  by (induction cs) (auto simp: command_hit_def argv_matches_tainted_def list_ex_iff)

text \<open>
  \<open>set\<close> and \<open>unset\<close> work on the session variables as on a finite map: a list of assignments binds
  each name to its value without one layer of quotes, the last one winning, \<open>unset\<close> takes the names
  away, and no other variable changes; nothing is reported and the exit code is 0.
\<close>

definition assignment :: "string \<times> string \<Rightarrow> string" where
  "assignment b = fst b @ ''='' @ snd b"

definition settable :: "string \<Rightarrow> bool" where
  "settable n \<longleftrightarrow> valid_name n \<and> hd n \<noteq> CHR ''-'' \<and> hd n \<noteq> CHR ''+''"

lemma set_args_bindings:
  "env_inv (sh_env sh) \<Longrightarrow> list_all (\<lambda>b. valid_name (fst b)) bs \<Longrightarrow>
     \<exists>e. set_args sh exit (map assignment bs) = (sh\<lparr>sh_env := e\<rparr>, exit) \<and> env_inv e
       \<and> env_abs e = env_abs (sh_env sh) ++ map_of (rev (map (\<lambda>(n, v). (n, strip_outer_quotes v)) bs))"
proof (induction bs arbitrary: sh)
  case Nil
  then show ?case by (intro exI [of _ "sh_env sh"]) simp
next
  case (Cons b bs)
  obtain n v where b: "b = (n, v)" by fastforce
  obtain e where e: "env_set (sh_env sh) n (strip_outer_quotes v) = Inr e" "env_inv e"
    "env_abs e = (env_abs (sh_env sh))(n \<mapsto> strip_outer_quotes v)"
    using env_set_abs [of "sh_env sh" n] Cons.prems b by auto
  then have "set_args sh exit (map assignment (b # bs)) = set_args (sh\<lparr>sh_env := e\<rparr>) exit (map assignment bs)"
    using Cons.prems(2) b by (simp add: assignment_def cut_assignment valid_name_def)
  moreover obtain e2 where "set_args (sh\<lparr>sh_env := e\<rparr>) exit (map assignment bs) = (sh\<lparr>sh_env := e\<rparr>\<lparr>sh_env := e2\<rparr>, exit)"
    "env_inv e2" "env_abs e2 = env_abs e ++ map_of (rev (map (\<lambda>(n, v). (n, strip_outer_quotes v)) bs))"
    using Cons.IH [of "sh\<lparr>sh_env := e\<rparr>"] Cons.prems(2) e(2) by auto
  ultimately show ?case using e(3) b by (intro exI [of _ e2]) simp
qed

lemma unset_args_names:
  "env_inv (sh_env sh) \<Longrightarrow> list_all valid_name names \<Longrightarrow>
     \<exists>e. unset_args sh exit names = (sh\<lparr>sh_env := e\<rparr>, exit) \<and> env_inv e
       \<and> env_abs e = env_abs (sh_env sh) |` (- set names)"
proof (induction names arbitrary: sh)
  case Nil
  then show ?case by (intro exI [of _ "sh_env sh"]) simp
next
  case (Cons n names)
  let ?sh = "sh\<lparr>sh_env := env_unset (sh_env sh) n\<rparr>"
  have inv: "env_inv (sh_env ?sh)" and abs: "env_abs (sh_env ?sh) = (env_abs (sh_env sh))(n := None)"
    using env_unset_abs [of "sh_env sh" n] Cons.prems by auto
  have "env_abs (sh_env ?sh) |` (- set names) = env_abs (sh_env sh) |` (- set (n # names))"
    unfolding abs by (auto simp: restrict_map_def)
  moreover have "n \<noteq> []" using Cons.prems(2) by (auto simp: valid_name_def)
  ultimately show ?case using Cons.IH [OF inv] Cons.prems(2) by simp
qed

theorem set_unset_vars:
  assumes "env_inv (sh_env sh)" "bs \<noteq> []" "list_all (\<lambda>b. settable (fst b)) bs" "names \<noteq> []" "list_all valid_name names"
  shows "\<exists>e e'. set_builtin sh (map assignment bs) = (sh\<lparr>sh_env := e\<rparr>, 0)
    \<and> env_abs e = env_abs (sh_env sh) ++ map_of (rev (map (\<lambda>(n, v). (n, strip_outer_quotes v)) bs))
    \<and> unset_builtin (sh\<lparr>sh_env := e\<rparr>) names = (sh\<lparr>sh_env := e'\<rparr>, 0)
    \<and> env_abs e' = env_abs e |` (- set names) \<and> env_inv e'"
proof -
  have no_option: "\<not> has_prefix (assignment b) ''-'' \<and> \<not> has_prefix (assignment b) ''+''" if "settable (fst b)" for b
    using that by (cases "fst b") (auto simp: settable_def assignment_def valid_name_def)
  then have "find (\<lambda>a. has_prefix a ''-'' \<or> has_prefix a ''+'') (map assignment bs) = None"
    using assms(3) by (auto simp: find_None_iff list_all_iff)
  then have set_eq: "set_builtin sh (map assignment bs) = set_args sh 0 (map assignment bs)"
    using assms(2) by (simp add: set_builtin_def)
  have valid: "list_all (\<lambda>b. valid_name (fst b)) bs" using assms(3) by (auto simp: list_all_iff settable_def)
  obtain e where e: "set_args sh 0 (map assignment bs) = (sh\<lparr>sh_env := e\<rparr>, 0)" "env_inv e"
    "env_abs e = env_abs (sh_env sh) ++ map_of (rev (map (\<lambda>(n, v). (n, strip_outer_quotes v)) bs))"
    using set_args_bindings [OF assms(1) valid, of 0] by blast
  obtain e' where "unset_args (sh\<lparr>sh_env := e\<rparr>) 0 names = (sh\<lparr>sh_env := e'\<rparr>, 0)" "env_inv e'"
    "env_abs e' = env_abs e |` (- set names)"
    using unset_args_names [of "sh\<lparr>sh_env := e\<rparr>" names 0] e(2) assms(5) by auto
  then show ?thesis using e set_eq assms(4) by (intro exI [of _ e] exI [of _ e']) (simp add: unset_builtin_def)
qed

theorem set_unset_vars_witness:
  "\<exists>e e'. set_builtin demo_shell [''A=1'', ''B='' @ [CHR 0x27] @ ''x y'' @ [CHR 0x27], ''A=2''] = (demo_shell\<lparr>sh_env := e\<rparr>, 0)
     \<and> unset_builtin (demo_shell\<lparr>sh_env := e\<rparr>) [''B''] = (demo_shell\<lparr>sh_env := e'\<rparr>, 0)
     \<and> env_abs e ''B'' = Some ''x y'' \<and> env_abs e' ''B'' = None \<and> env_abs e' ''A'' = Some ''2''"
proof -
  let ?bs = "[(''A'', ''1''), (''B'', [CHR 0x27] @ ''x y'' @ [CHR 0x27]), (''A'', ''2'')]"
  have inv: "env_inv (sh_env demo_shell)" by (simp add: demo_shell_def)
  have facts: "?bs \<noteq> []" "list_all (\<lambda>b. settable (fst b)) ?bs" "[''B''] \<noteq> []" "list_all valid_name [''B'']"
    by code_simp+
  have "map assignment ?bs = [''A=1'', ''B='' @ [CHR 0x27] @ ''x y'' @ [CHR 0x27], ''A=2'']"
    "map (\<lambda>(n, v). (n, strip_outer_quotes v)) ?bs = [(''A'', ''1''), (''B'', ''x y''), (''A'', ''2'')]" by code_simp+
  then show ?thesis using set_unset_vars [OF inv facts] by (fastforce simp: map_add_def restrict_map_def)
qed

end
