(* ===== verification/Dispatch.thy ===== *)
theory Dispatch
  imports Shell_State Screen
begin

text \<open>
  From a line to a command: \<open>dispatch\<close>, \<open>runExternal\<close>, \<open>RunForCapture\<close> and the main loop
  \<open>runStream\<close> of \<^verbatim>\<open>shell/internal/shell/shell.go\<close>. Everything outside the process is a
  parameter, the record \<open>system\<close>. Command substitution runs sub-commands through the same path, so
  the recursion is not bounded by the line; it is given fuel, and \<open>sh_overflow\<close> records that the
  fuel did not suffice.
\<close>

section \<open>The surroundings\<close>

text \<open>
  What one run of a pipeline did: the new world, how many bytes of stdin it read, what it wrote, its
  exit code, the error of \<open>exec.Run\<close>, and its duration.
\<close>

record 'w run_result =
  rr_world :: 'w
  rr_read :: nat
  rr_out :: string
  rr_err :: "diag list"
  rr_exit :: int
  rr_error :: "string option"
  rr_ms :: nat

datatype builtin =
    B_theme | B_cache | B_community | B_plugin | B_stats | B_undo | B_restore | B_history | B_run
  | B_explain | B_migrate | B_install | B_service | B_process | B_env | B_network | B_persona
  | B_secret | B_identity | B_source | B_unset | B_jobs | B_fg | B_bg

text \<open>The errors of the intent cache.\<close>

datatype resolve_error = No_plugin | Resolve_failed string

text \<open>
  \<open>sy_path_exists\<close> is \<open>os.Stat\<close> without error, \<open>sy_look_path w path file\<close> is \<open>exec.LookPath\<close> with
  \<open>PATH\<close> set to \<open>path\<close>, \<open>sy_resolve\<close> the cache tier (\<open>None\<close> for a shell without cache), \<open>sy_exec\<close>
  whether \<open>execve\<close> replaced the process, \<open>sy_builtin\<close> the built-ins that work on the world.
\<close>

record 'w system =
  sy_dirs :: "'w dir_calls"
  sy_glob :: "'w \<Rightarrow> glob_fun"
  sy_run :: "'w \<Rightarrow> string list \<Rightarrow> pipeline \<Rightarrow> string \<Rightarrow> 'w run_result"
  sy_spawn :: "'w \<Rightarrow> string list \<Rightarrow> pipeline \<Rightarrow> 'w \<times> (string + int \<times> int)"
  sy_path_exists :: "'w \<Rightarrow> string \<Rightarrow> bool"
  sy_look_path :: "'w \<Rightarrow> string \<Rightarrow> string \<Rightarrow> string option"
  sy_process_path :: string
  sy_resolve :: "('w \<Rightarrow> string \<Rightarrow> 'w \<times> (resolve_error + string)) option"
  sy_exec :: "'w \<Rightarrow> string \<Rightarrow> string list \<Rightarrow> string list \<Rightarrow> bool"
  sy_read :: "'w \<Rightarrow> read_file"
  sy_toml :: toml_decoder
  sy_builtin :: "builtin \<Rightarrow> 'w shell \<Rightarrow> string list \<Rightarrow> 'w shell \<times> int"

section \<open>Running a pipeline\<close>

fun hooks_before :: "pipeline \<Rightarrow> string \<Rightarrow> 'w interceptor list \<Rightarrow> 'w shell \<Rightarrow> 'w shell" where
  "hooks_before pl line [] sh = sh"
| "hooks_before pl line (ic # ics) sh =
     (case ic_before ic (sh_world sh) pl line of
        (w, None) \<Rightarrow> hooks_before pl line ics (sh\<lparr>sh_world := w\<rparr>)
      | (w, Some e) \<Rightarrow> hooks_before pl line ics (say (Interceptor_error e) (sh\<lparr>sh_world := w\<rparr>)))"

fun hooks_after :: "pipeline \<Rightarrow> string \<Rightarrow> int \<Rightarrow> nat \<Rightarrow> 'w interceptor list \<Rightarrow> 'w shell \<Rightarrow> 'w shell" where
  "hooks_after pl line code ms [] sh = sh"
| "hooks_after pl line code ms (ic # ics) sh =
     hooks_after pl line code ms ics (sh\<lparr>sh_world := ic_after ic (sh_world sh) pl line code ms\<rparr>)"

text \<open>\<open>runBackground\<close>: the started job enters the job table.\<close>

definition run_background :: "'w system \<Rightarrow> 'w shell \<Rightarrow> pipeline \<Rightarrow> string \<Rightarrow> 'w shell \<times> int" where
  "run_background sys sh pl cmdline =
     (case sy_spawn sys (sh_world sh) (environ (sh_env sh)) pl of
        (w, Inl e) \<Rightarrow> (say (Background_error e) (sh\<lparr>sh_world := w\<rparr>), 1)
      | (w, Inr (pgid, leader)) \<Rightarrow>
          (let jt = fst (record_background (sh_jobs sh) pgid leader cmdline)
           in (say (Job_started (jt_next_id (sh_jobs sh)) pgid) (sh\<lparr>sh_world := w, sh_jobs := jt\<rparr>), 0)))"

definition run_pipeline :: "'w system \<Rightarrow> 'w shell \<Rightarrow> pipeline \<Rightarrow> 'w shell \<times> int \<times> nat" where
  "run_pipeline sys sh pl =
     (let r = sy_run sys (sh_world sh) (environ (sh_env sh)) pl (sh_stdin sh);
          sh1 = sh\<lparr>sh_world := rr_world r, sh_stdin := drop (rr_read r) (sh_stdin sh),
                   sh_out := sh_out sh @ rr_out r, sh_err := sh_err sh @ rr_err r\<rparr>
      in case rr_error r of
           None \<Rightarrow> (sh1, rr_exit r, rr_ms r)
         | Some e \<Rightarrow> (say (Run_error e) sh1, 127, rr_ms r))"

definition run_hooked :: "'w system \<Rightarrow> 'w shell \<Rightarrow> string \<Rightarrow> pipeline \<Rightarrow> 'w shell" where
  "run_hooked sys sh cmdline pl =
     (let ics = sh_interceptors sh;
          sh1 = hooks_before pl cmdline ics sh
      in if background pl then
           (case run_background sys sh1 pl cmdline of
              (sh2, code) \<Rightarrow> set_last_exit (hooks_after pl cmdline code 0 (rev ics) sh2) code)
         else
           (case run_pipeline sys sh1 pl of
              (sh2, code, ms) \<Rightarrow> set_last_exit (hooks_after pl cmdline code ms (rev ics) sh2) code))"

text \<open>
  The part of \<open>runExternal\<close> after command substitution. A brace range that does not return is an
  overflow.
\<close>

definition run_substituted :: "'w system \<Rightarrow> 'w shell \<Rightarrow> string \<Rightarrow> string \<Rightarrow> 'w shell" where
  "run_substituted sys sh cmdline substituted =
     (case resolve_alias sh substituted of
        (sh1, line) \<Rightarrow>
          (case parse_line line of
             Inl e \<Rightarrow> set_last_exit (say (Parse_error e) sh1) 2
           | Inr pl \<Rightarrow>
               if commands pl = [] then sh1
               else
                 (case expand_pipeline (sy_glob sys (sh_world sh1)) (sh_cwd sh1) pl of
                    None \<Rightarrow> sh1\<lparr>sh_overflow := True\<rparr>
                  | Some expanded \<Rightarrow>
                      run_hooked sys sh1 cmdline (tag_pipeline_taint expanded (sh_taint sh1)))))"

text \<open>\<open>RunForCapture\<close>: an empty stdin, stdout into a buffer, and the exit code put back.\<close>

definition run_for_capture :: "('w shell \<Rightarrow> string \<Rightarrow> 'w shell) \<Rightarrow> 'w shell executor" where
  "run_for_capture run sh cmd =
     (let sh1 = run (sh\<lparr>sh_out := [], sh_stdin := []\<rparr>) cmd;
          captured = sh_out sh1;
          trimmed = trim_right_set captured [CHR 0x0A];
          reg = sh_taint sh1;
          reg' = (if is_secret_get_invocation cmd
                  then (let reg1 = taint_add reg captured
                        in if trimmed \<noteq> captured then taint_add reg1 trimmed else reg1)
                  else reg)
      in (sh1\<lparr>sh_out := sh_out sh, sh_stdin := sh_stdin sh, sh_last_exit := sh_last_exit sh, sh_taint := reg'\<rparr>,
          Inr captured))"

primrec run_external :: "nat \<Rightarrow> 'w system \<Rightarrow> 'w shell \<Rightarrow> string \<Rightarrow> 'w shell" where
  "run_external 0 sys sh cmdline = sh\<lparr>sh_overflow := True\<rparr>"
| "run_external (Suc fuel) sys sh cmdline =
     (case expand_line \<lparr>ctx_cwd = sh_cwd sh, ctx_cmd_sub = Some (run_for_capture (run_external fuel sys))\<rparr> sh cmdline of
        (sh1, Inl e) \<Rightarrow> set_last_exit (say (Substitution_error e) sh1) 2
      | (sh1, Inr substituted) \<Rightarrow> run_substituted sys sh1 cmdline substituted)"

section \<open>Dispatch\<close>

definition is_known_binary :: "'w system \<Rightarrow> 'w \<Rightarrow> string \<Rightarrow> env \<Rightarrow> bool" where
  "is_known_binary sys w tok e =
     (if contains_any tok (''/'' @ backslash) then sy_path_exists sys w tok
      else sy_look_path sys w (case env_get e ''PATH'' of Some p \<Rightarrow> p | None \<Rightarrow> sy_process_path sys) tok \<noteq> None)"

definition look_path_in_shell_env :: "'w system \<Rightarrow> 'w shell \<Rightarrow> string \<Rightarrow> string option" where
  "look_path_in_shell_env sys sh cmd =
     (if contains_any cmd (''/'' @ backslash) then (if sy_path_exists sys (sh_world sh) cmd then Some cmd else None)
      else sy_look_path sys (sh_world sh)
             (case env_get (sh_env sh) ''PATH'' of Some p \<Rightarrow> p | None \<Rightarrow> sy_process_path sys) cmd)"

definition exec_builtin :: "'w system \<Rightarrow> 'w shell \<Rightarrow> string list \<Rightarrow> 'w shell \<times> stop option" where
  "exec_builtin sys sh args =
     (case args of
        [] \<Rightarrow> (set_last_exit sh 0, None)
      | cmd # rest \<Rightarrow>
          (case look_path_in_shell_env sys sh cmd of
             None \<Rightarrow> (set_last_exit (say (Exec_not_found cmd) sh) 127, Some (Exec_replaced 127))
           | Some binary \<Rightarrow>
               if sy_exec sys (sh_world sh) binary (cmd # rest) (environ (sh_env sh))
               then (sh, Some Process_replaced) else (sh, Some (Exec_replaced 127))))"

text \<open>The test \<open>line == w || HasPrefix(line, w + " ") || HasPrefix(line, w + "\t")\<close>, and what follows the word.\<close>

definition has_args :: "string \<Rightarrow> string \<Rightarrow> bool" where
  "has_args line w \<longleftrightarrow> has_prefix line (w @ '' '') \<or> has_prefix line (w @ [CHR 0x09])"

definition is_word :: "string \<Rightarrow> string \<Rightarrow> bool" where
  "is_word line w \<longleftrightarrow> line = w \<or> has_args line w"

definition rest_of :: "string \<Rightarrow> string \<Rightarrow> string" where
  "rest_of line w = trim_space (trim_prefix line w)"

definition builtin_table :: "(string \<times> builtin) list" where
  "builtin_table =
     [(''theme'', B_theme), (''cache'', B_cache), (''community'', B_community), (''plugin'', B_plugin),
      (''stats'', B_stats), (''undo'', B_undo), (''history'', B_history), (''run'', B_run), (''explain'', B_explain),
      (''migrate'', B_migrate), (''install'', B_install), (''service'', B_service), (''process'', B_process),
      (''env'', B_env), (''network'', B_network), (''persona'', B_persona), (''secret'', B_secret),
      (''identity'', B_identity), (''source'', B_source), (''unset'', B_unset), (''jobs'', B_jobs),
      (''fg'', B_fg), (''bg'', B_bg)]"

definition run_builtin :: "'w system \<Rightarrow> builtin \<Rightarrow> 'w shell \<Rightarrow> string list \<Rightarrow> 'w shell \<times> int" where
  "run_builtin sys b sh args =
     (if b = B_env then env_builtin sh args
      else if b = B_unset then unset_builtin sh args
      else if b = B_source then source_builtin (sy_read sys (sh_world sh)) (sy_toml sys) sh args
      else if b = B_jobs then
        (case jobs_builtin (sh_jobs sh) args of
           (code, out, err) \<Rightarrow> (put_out out (if err = [] then sh else say (Diag_text err) sh), code))
      else sy_builtin sys b sh args)"

definition cd_line :: "'w system \<Rightarrow> 'w shell \<Rightarrow> string \<Rightarrow> 'w shell" where
  "cd_line sys sh line =
     (case cd (sy_dirs sys) sh (rest_of line ''cd'') of
        Inl e \<Rightarrow> set_last_exit (say (Cd_failed e) sh) 1
      | Inr sh' \<Rightarrow> set_last_exit sh' 0)"

text \<open>Tiers one to four: known binary, cache, and the fall-back.\<close>

definition run_tiers :: "nat \<Rightarrow> 'w system \<Rightarrow> 'w shell \<Rightarrow> string \<Rightarrow> 'w shell" where
  "run_tiers fuel sys sh line =
     (let expanded = expand (sh_env sh) line (sh_last_exit sh);
          first = first_token expanded
      in if first \<noteq> [] \<and> is_known_binary sys (sh_world sh) first (sh_env sh) then run_external fuel sys sh expanded
         else
           (case sy_resolve sys of
              None \<Rightarrow> run_external fuel sys sh expanded
            | Some resolve \<Rightarrow>
                (case resolve (sh_world sh) line of
                   (w, Inr invocation) \<Rightarrow> run_external fuel sys (sh\<lparr>sh_world := w\<rparr>) invocation
                 | (w, Inl No_plugin) \<Rightarrow> run_external fuel sys (sh\<lparr>sh_world := w\<rparr>) expanded
                 | (w, Inl (Resolve_failed e)) \<Rightarrow>
                     set_last_exit (say (Resolve_error e) (sh\<lparr>sh_world := w\<rparr>)) 127)))"

text \<open>
  The chain of tests of \<open>dispatch\<close>. The words of \<open>builtin_table\<close> are tested in one step: no line
  passes the test of two words. \<open>export\<close> and \<open>restore\<close> are tested without the bare form.
\<close>

definition dispatch_line :: "nat \<Rightarrow> 'w system \<Rightarrow> 'w shell \<Rightarrow> string \<Rightarrow> 'w shell \<times> stop option" where
  "dispatch_line fuel sys sh line =
     (if is_word line ''cd'' then (cd_line sys sh line, None)
      else if has_args line ''export'' then (export_line sh line, None)
      else if has_args line ''restore'' then
        (exit_with (sy_builtin sys B_restore sh (str_fields (rest_of line ''restore''))), None)
      else if is_word line ''logout'' then logout_builtin sh (str_fields (rest_of line ''logout''))
      else if is_word line ''alias'' then (exit_with (alias_builtin sh (split_alias_args (rest_of line ''alias''))), None)
      else if is_word line ''set'' then (exit_with (set_builtin sh (split_alias_args (rest_of line ''set''))), None)
      else if is_word line ''exec'' then
        (case parse_exec_line (rest_of line ''exec'') of
           Inl e \<Rightarrow> (set_last_exit (say e sh) 1, None)
         | Inr args \<Rightarrow> exec_builtin sys sh args)
      else
        (case find (\<lambda>wb. is_word line (fst wb)) builtin_table of
           Some (w, b) \<Rightarrow> (exit_with (run_builtin sys b sh (str_fields (rest_of line w))), None)
         | None \<Rightarrow> (run_tiers fuel sys sh line, None)))"

definition dispatch :: "nat \<Rightarrow> 'w system \<Rightarrow> 'w shell \<Rightarrow> string \<Rightarrow> 'w shell \<times> stop option" where
  "dispatch fuel sys sh line =
     (if trim_space line = [] then (sh, None)
      else
        (case dispatch_line fuel sys (sh\<lparr>sh_taint := new_tainted_registry\<rparr>) line of
           (sh', st) \<Rightarrow> (sh'\<lparr>sh_taint := None\<rparr>, st)))"

section \<open>The highlighter's tier\<close>

definition resolver_names :: "string list" where
  "resolver_names =
     [''cd'', ''export'', ''theme'', ''cache'', ''community'', ''plugin'', ''stats'', ''undo'', ''restore'',
      ''run'', ''explain'', ''migrate'', ''persona'', ''secret'', ''identity'', ''logout'', ''exec'', ''history'',
      ''install'', ''service'', ''process'', ''env'', ''network'', ''alias'', ''source'', ''set'', ''unset'',
      ''jobs'', ''fg'', ''bg'']"

definition resolve_tier :: "'w system \<Rightarrow> 'w shell \<Rightarrow> string \<Rightarrow> tier" where
  "resolve_tier sys sh first =
     (if List.member resolver_names first then Tier_builtin
      else if is_known_binary sys (sh_world sh) first (sh_env sh) then Tier_known_binary
      else Tier_ai_intent)"

section \<open>The main loop\<close>

text \<open>\<open>readLine\<close>: the bytes up to and with the next newline; \<open>True\<close> is end of file.\<close>

fun read_input_line :: "string \<Rightarrow> string \<times> string \<times> bool" where
  "read_input_line [] = ([], [], True)"
| "read_input_line (c # cs) =
     (if c = CHR 0x0A then ([c], cs, False)
      else (case read_input_line cs of (line, rest, eof) \<Rightarrow> (c # line, rest, eof)))"

definition show_notices :: "'w shell \<Rightarrow> 'w shell" where
  "show_notices sh =
     (case drain_job_notices (sh_jobs sh) of (jt, err) \<Rightarrow>
        (if err = [] then sh else say (Diag_text err) sh)\<lparr>sh_jobs := jt\<rparr>)"

text \<open>
  One turn of \<open>runStream\<close>: notices, prompt, a line, and its dispatch. \<open>turns\<close> bounds the turns; a
  turn that does not end the loop consumes at least one byte of the input.
\<close>

definition stream_turn ::
  "nat \<Rightarrow> ('w shell \<Rightarrow> string) \<Rightarrow> 'w system \<Rightarrow> 'w shell \<Rightarrow> 'w shell \<times> stop option \<times> bool" where
  "stream_turn fuel prompt sys sh =
     (let sh1 = show_notices sh;
          sh2 = put_out (prompt sh1) sh1
      in case read_input_line (sh_stdin sh2) of
           (line, rest, eof) \<Rightarrow>
             (let sh3 = sh2\<lparr>sh_stdin := rest\<rparr>;
                  trimmed = trim_right_set line [CHR 0x0D, CHR 0x0A]
              in if trimmed \<noteq> [] then
                   (case dispatch fuel sys sh3 trimmed of (sh4, st) \<Rightarrow> (sh4, st, eof))
                 else (sh3, None, eof)))"

fun run_stream ::
  "nat \<Rightarrow> nat \<Rightarrow> ('w shell \<Rightarrow> string) \<Rightarrow> 'w system \<Rightarrow> 'w shell \<Rightarrow> 'w shell \<times> stop option" where
  "run_stream 0 fuel prompt sys sh = (sh\<lparr>sh_overflow := True\<rparr>, None)"
| "run_stream (Suc turns) fuel prompt sys sh =
     (case stream_turn fuel prompt sys sh of
        (sh', Some st, eof) \<Rightarrow> (sh', Some st)
      | (sh', None, eof) \<Rightarrow> if eof then (sh', None) else run_stream turns fuel prompt sys sh')"

end
