(* ===== verification/Dispatch_Laws.thy ===== *)
theory Dispatch_Laws
  imports Dispatch
begin

text \<open>
  What running a line keeps: sub-commands are isolated, interceptors see every command, built-ins and
  the highlighter agree, and what a substitution can do to the line around it.
\<close>

section \<open>What a run keeps\<close>

text \<open>An expansion keeps every reflexive and transitive relation that the executor keeps.\<close>

lemma fst_emit_before [simp]: "fst (emit_before s r) = fst r"
  by (simp add: emit_before_def)

lemma expand_of_loop:
  assumes "R st st" "ctx_cmd_sub ctx = Some ex" "R st (fst (cmd_sub_loop ctx ex d False st (runes_of input)))"
  shows "R st (fst (expand_cmd_sub ctx d st input))"
  using assms by (subst expand_cmd_sub.simps) auto

lemma cmd_sub_loop_keeps:
  assumes refl: "\<And>st. R st st" and trans: "\<And>a b c. R a b \<Longrightarrow> R b c \<Longrightarrow> R a c"
    and ctx: "ctx_cmd_sub ctx = Some ex" and ex: "\<And>st c. R st (fst (ex st c))"
  shows "R st (fst (cmd_sub_loop ctx ex d inSingle st rs))"
proof (induction "length rs" arbitrary: rs d inSingle st rule: less_induct)
  case less
  show ?case
  proof (cases rs)
    case Nil
    then show ?thesis by (simp add: refl)
  next
    case (Cons r rs')
    have IH: "R st (fst (cmd_sub_loop ctx ex d inSingle st xs))" if "length xs \<le> length rs'" for d inSingle st xs
      using less that Cons by simp
    have sub: "R st (fst (case expand_cmd_sub ctx (depth + 1) st inner of (st', Inl err) \<Rightarrow> (st', Inl err)
            | (st', Inr expanded) \<Rightarrow> (case ex st' expanded of (st'', Inl err) \<Rightarrow> (st'', Inl (Substitution_failed inner err))
                 | (st'', Inr out) \<Rightarrow> emit_before (trim_right_set out [CHR 0x0A]) (cmd_sub_loop ctx ex depth s st'' (drop n rs')))))"
      if "length (runes_of inner) \<le> length rs'" for inner n depth s
    proof -
      obtain st1 r1 where r1: "expand_cmd_sub ctx (depth + 1) st inner = (st1, r1)" by fastforce
      have "R st (fst (expand_cmd_sub ctx (depth + 1) st inner))"
        using expand_of_loop [of R, OF refl ctx] IH [OF that] by blast
      then have st1: "R st st1" using r1 by simp
      show ?thesis
      proof (cases r1)
        case (Inl err)
        then show ?thesis using r1 st1 by simp
      next
        case (Inr expanded)
        obtain st2 r2 where r2: "ex st1 expanded = (st2, r2)" by fastforce
        then have st2: "R st st2" using trans [OF st1] ex [of st1 expanded] by simp
        have "R st (fst (cmd_sub_loop ctx ex depth s st2 (drop n rs')))" using trans [OF st2 IH] by simp
        then show ?thesis using r1 Inr r2 st2 by (auto split: sum.split)
      qed
    qed
    have inner: "length (runes_of (string_of_runes (take k (tl rs')))) \<le> length rs'" for k by simp
    show ?thesis
      unfolding Cons cmd_sub_loop.simps Let_def
      using IH [of rs'] IH [of "tl rs'"] sub [OF inner] by (auto simp: refl split: option.split)
  qed
qed

lemma expand_line_keeps:
  assumes "\<And>st. R st st" "\<And>a b c. R a b \<Longrightarrow> R b c \<Longrightarrow> R a c" "\<And>st c. R st (fst (ex st c))"
  shows "R st (fst (expand_line \<lparr>ctx_cwd = w, ctx_cmd_sub = Some ex\<rparr> st input))"
  unfolding expand_line_def
  by (rule expand_of_loop [where ex = ex]) (simp_all add: assms(1) cmd_sub_loop_keeps [of R, OF assms(1,2) _ assms(3)])

text \<open>
  \<open>run_kept\<close>: directory, variables, aliases, login mode and interceptors are as they were, the registry
  and the output have grown, the input was read from, and an overflow is not forgotten. \<open>captured\<close>
  is the same with output, input and exit code as they were.
\<close>

definition settings_kept :: "'w shell \<Rightarrow> 'w shell \<Rightarrow> bool" where
  "settings_kept sh sh' \<longleftrightarrow>
     sh_cwd sh' = sh_cwd sh \<and> sh_env sh' = sh_env sh \<and> sh_aliases sh' = sh_aliases sh
     \<and> sh_login sh' = sh_login sh \<and> sh_interceptors sh' = sh_interceptors sh
     \<and> (\<forall>v. taint_has (sh_taint sh) v \<longrightarrow> taint_has (sh_taint sh') v)
     \<and> (sh_taint sh = None \<longrightarrow> sh_taint sh' = None)
     \<and> prefix (sh_err sh) (sh_err sh') \<and> (sh_overflow sh \<longrightarrow> sh_overflow sh')"

definition run_kept :: "'w shell \<Rightarrow> 'w shell \<Rightarrow> bool" where
  "run_kept sh sh' \<longleftrightarrow> settings_kept sh sh' \<and> prefix (sh_out sh) (sh_out sh') \<and> suffix (sh_stdin sh') (sh_stdin sh)"

definition captured :: "'w shell \<Rightarrow> 'w shell \<Rightarrow> bool" where
  "captured sh sh' \<longleftrightarrow> settings_kept sh sh' \<and> sh_out sh' = sh_out sh \<and> sh_stdin sh' = sh_stdin sh
     \<and> sh_last_exit sh' = sh_last_exit sh"

lemma settings_kept_refl [simp]: "settings_kept sh sh"
  by (simp add: settings_kept_def)

lemma settings_kept_trans: "settings_kept a b \<Longrightarrow> settings_kept b c \<Longrightarrow> settings_kept a c"
  by (auto simp: settings_kept_def)

lemma run_kept_refl [simp]: "run_kept sh sh"
  by (simp add: run_kept_def)

lemma run_kept_trans: "run_kept a b \<Longrightarrow> run_kept b c \<Longrightarrow> run_kept a c"
  unfolding run_kept_def using settings_kept_trans prefix_order.order_trans suffix_order.order_trans by blast

lemma captured_refl [simp]: "captured sh sh"
  by (simp add: captured_def)

lemma captured_trans: "captured a b \<Longrightarrow> captured b c \<Longrightarrow> captured a c"
  unfolding captured_def using settings_kept_trans by metis

lemma captured_kept: "captured a b \<Longrightarrow> run_kept a b"
  by (simp add: captured_def run_kept_def)

lemma run_kept_updates:
  "run_kept a b \<Longrightarrow> run_kept a (say e b)" "run_kept a b \<Longrightarrow> run_kept a (set_last_exit b code)" "run_kept a b \<Longrightarrow> run_kept a (put_out s b)"
  "run_kept a b \<Longrightarrow> run_kept a (b\<lparr>sh_world := w\<rparr>)" "run_kept a b \<Longrightarrow> run_kept a (b\<lparr>sh_overflow := True\<rparr>)"
  "run_kept a b \<Longrightarrow> run_kept a (b\<lparr>sh_world := w, sh_jobs := j\<rparr>)"
  by (auto simp: run_kept_def settings_kept_def say_def set_last_exit_def put_out_def prefix_def)

lemma taint_add_has: "taint_has reg v \<Longrightarrow> taint_has (taint_add reg u) v"
  "taint_add reg u = None \<longleftrightarrow> reg = None"
  by (auto simp: taint_has_def taint_add_def split: option.splits)

lemma hooks_before_kept: "run_kept sh (hooks_before pl line ics sh)"
proof (induction ics arbitrary: sh)
  case (Cons ic ics)
  obtain w e where b: "ic_before ic (sh_world sh) pl line = (w, e)" by fastforce
  show ?case
  proof (cases e)
    case None
    then show ?thesis using b run_kept_trans [OF run_kept_updates(4) [OF run_kept_refl] Cons.IH] by simp
  next
    case (Some m)
    then show ?thesis using b run_kept_trans [OF run_kept_updates(1) [OF run_kept_updates(4) [OF run_kept_refl]] Cons.IH] by simp
  qed
qed simp

lemma hooks_after_kept: "run_kept sh (hooks_after pl line code ms ics sh)"
  by (induction ics arbitrary: sh) (auto intro: run_kept_trans [OF run_kept_updates(4) [OF run_kept_refl]])

lemma run_background_kept: "run_kept sh (fst (run_background sys sh pl line))"
  by (auto simp: run_background_def Let_def intro!: run_kept_updates split: prod.split sum.split)

lemma run_pipeline_kept: "run_kept sh (fst (run_pipeline sys sh pl))"
proof -
  let ?r = "sy_run sys (sh_world sh) (environ (sh_env sh)) pl (sh_stdin sh)"
  let ?sh1 = "sh\<lparr>sh_world := rr_world ?r, sh_stdin := drop (rr_read ?r) (sh_stdin sh),
                 sh_out := sh_out sh @ rr_out ?r, sh_err := sh_err sh @ rr_err ?r\<rparr>"
  have "run_kept sh ?sh1" by (simp add: run_kept_def settings_kept_def suffix_drop)
  then show ?thesis by (auto simp: run_pipeline_def Let_def intro!: run_kept_updates split: option.split)
qed

lemma run_hooked_kept: "run_kept sh (run_hooked sys sh line pl)"
proof -
  note before = hooks_before_kept [of sh pl line "sh_interceptors sh"]
  have bg: "run_kept (hooks_before pl line (sh_interceptors sh) sh)
      (fst (run_background sys (hooks_before pl line (sh_interceptors sh) sh) pl line))" by (rule run_background_kept)
  have fg: "run_kept (hooks_before pl line (sh_interceptors sh) sh)
      (fst (run_pipeline sys (hooks_before pl line (sh_interceptors sh) sh) pl))" by (rule run_pipeline_kept)
  show ?thesis
    unfolding run_hooked_def Let_def
    using run_kept_trans [OF run_kept_trans [OF before bg] hooks_after_kept] run_kept_trans [OF run_kept_trans [OF before fg] hooks_after_kept]
    by (auto intro!: run_kept_updates(2) split: prod.split)
qed

lemma resolve_loop_says: "\<exists>es. fst (resolve_loop n seen sh line) = sh\<lparr>sh_err := sh_err sh @ es\<rparr>"
proof (induction n arbitrary: seen line)
  case 0
  then show ?case by (auto simp: say_def)
next
  case (Suc n)
  have "\<exists>es. sh = sh\<lparr>sh_err := sh_err sh @ es\<rparr>" by (intro exI [of _ "[]"]) simp
  moreover have "\<exists>es. say d sh = sh\<lparr>sh_err := sh_err sh @ es\<rparr>" for d by (auto simp: say_def)
  ultimately show ?case using Suc by (auto simp: Let_def split: option.split)
qed

lemma resolve_alias_kept: "run_kept sh (fst (resolve_alias sh line))"
proof -
  have "run_kept sh (sh\<lparr>sh_err := sh_err sh @ es\<rparr>)" for es by (simp add: run_kept_def settings_kept_def)
  then show ?thesis using resolve_loop_says [of 16 "[]" sh line] by (auto simp: resolve_alias_def)
qed

lemma run_substituted_kept: "run_kept sh (run_substituted sys sh line substituted)"
proof -
  obtain sh1 l where r: "resolve_alias sh substituted = (sh1, l)" by fastforce
  then have "run_kept sh sh1" using resolve_alias_kept [of sh substituted] by simp
  then show ?thesis
    using r by (auto simp: run_substituted_def intro: run_kept_updates run_kept_trans [OF _ run_hooked_kept] split: sum.split option.split)
qed

lemma run_for_capture_captured:
  assumes "\<And>sh c. run_kept sh (run sh c)"
  shows "captured sh (fst (run_for_capture run sh c))"
proof -
  have "settings_kept sh (run (sh\<lparr>sh_out := [], sh_stdin := []\<rparr>) c)"
    using assms [of "sh\<lparr>sh_out := [], sh_stdin := []\<rparr>" c] by (simp add: run_kept_def settings_kept_def)
  then show ?thesis
    by (auto simp: run_for_capture_def captured_def settings_kept_def Let_def taint_add_has)
qed

lemma run_external_kept: "run_kept sh (run_external fuel sys sh line)"
proof (induction fuel arbitrary: sh line)
  case 0
  show ?case by (simp add: run_kept_updates)
next
  case (Suc fuel)
  let ?e = "expand_line \<lparr>ctx_cwd = sh_cwd sh, ctx_cmd_sub = Some (run_for_capture (run_external fuel sys))\<rparr> sh line"
  obtain sh1 r where e: "?e = (sh1, r)" by fastforce
  have "captured sh (fst ?e)"
    by (rule expand_line_keeps [of captured]) (auto intro: captured_trans run_for_capture_captured Suc)
  then have "run_kept sh sh1" unfolding e by (simp add: captured_kept)
  then show ?case
    using e run_kept_trans [OF \<open>run_kept sh sh1\<close> run_substituted_kept] by (cases r) (auto intro!: run_kept_updates(1,2))
qed

lemma substitution_captured:
  "captured sh (fst (expand_line \<lparr>ctx_cwd = w, ctx_cmd_sub = Some (run_for_capture (run_external fuel sys))\<rparr> sh line))"
  by (rule expand_line_keeps [of captured]) (auto intro: captured_trans run_for_capture_captured run_external_kept)

end
