(* ===== verification/Plain_Lines.thy ===== *)
theory Plain_Lines
  imports Dispatch_Laws
begin

text \<open>
  Lines without quotes and special characters: how the lexer reads them, and that such a line reaches
  the executor with exactly its words.
\<close>

section \<open>Bare words\<close>

text \<open>
  A bare word has no byte that means something to the expansions or the lexer. \<open>0x5C\<close> is the
  backslash, \<open>0x22\<close> and \<open>0x27\<close> are the quotes.
\<close>

definition bare_word :: "string \<Rightarrow> bool" where
  "bare_word w \<longleftrightarrow> plain_word w
     \<and> set w \<inter> {CHR 0x27, CHR 0x22, CHR ''|'', CHR ''&'', CHR ''$'', CHR ''{'', CHR ''*'', CHR ''?'', CHR ''[''} = {}"

definition bare_command :: "command \<Rightarrow> bool" where
  "bare_command c \<longleftrightarrow> list_all bare_word (command_words c) \<and> \<not> cmd_tainted c"

definition bare_text :: "command \<Rightarrow> string" where
  "bare_text c = str_join '' '' (command_words c)"

definition bare_line :: "command list \<Rightarrow> string" where
  "bare_line cs = str_join '' | '' (map bare_text cs)"

lemma bare_word_runes:
  assumes "bare_word w" "c \<in> set w"
  shows "of_char c < (128::nat)" "of_char c \<notin> {39, 34, 124, 38::nat}" "\<not> is_blank (of_char c)"
proof -
  have a: "of_char c < (128::nat)" "\<not> is_space (of_char c)" "c \<notin> {CHR 0x27, CHR 0x22, CHR ''|'', CHR ''&''}"
    using assms by (auto simp: bare_word_def plain_word_def list_all_iff)
  have "char_of (39::nat) = CHR 0x27" "char_of (34::nat) = CHR 0x22" "char_of (124::nat) = CHR ''|''"
    "char_of (38::nat) = CHR ''&''" by code_simp+
  then have "c \<noteq> char_of (39::nat)" "c \<noteq> char_of (34::nat)" "c \<noteq> char_of (124::nat)" "c \<noteq> char_of (38::nat)" using a(3) by auto
  then show "of_char c \<notin> {39, 34, 124, 38::nat}" by (metis char_of_char empty_iff insert_iff)
  show "of_char c < (128::nat)" "\<not> is_blank (of_char c)" using a by (auto simp: is_blank_def is_space_def)
qed

lemma lex_write_write: "lex_write s (lex_write r l) = lex_write (r @ s) l"
  by (simp add: lex_write_def)

lemma tokenize_bare_chars:
  "w \<noteq> [] \<Longrightarrow> \<forall>c \<in> set w. of_char c < (128::nat) \<and> of_char c \<notin> {39, 34, 124, 38::nat} \<and> \<not> is_blank (of_char c) \<Longrightarrow>
     tokenize_loop l (map of_char w @ rs) = tokenize_loop (lex_write w l) rs"
proof (induction w arbitrary: l rule: induct_list012)
  case (2 c)
  then show ?case by (simp add: tokenize_loop.simps(2) encode_rune_ascii)
next
  case (3 c d w)
  then have "tokenize_loop l (map of_char (c # d # w) @ rs) = tokenize_loop (lex_write [c] l) (map of_char (d # w) @ rs)"
    by (simp add: tokenize_loop.simps(2) [of l] encode_rune_ascii del: map_append)
  with 3 show ?case by (simp add: lex_write_write)
qed simp

lemma tokenize_bare: "bare_word w \<Longrightarrow> tokenize_loop l (map of_char w @ rs) = tokenize_loop (lex_write w l) rs"
  using bare_word_runes by (intro tokenize_bare_chars) (auto simp: bare_word_def plain_word_def)

text \<open>A rest of the line that starts with a separator, or no rest.\<close>

lemma tokenize_bare_words:
  "list_all bare_word ws \<Longrightarrow> ws \<noteq> [] \<Longrightarrow> at_rest l \<Longrightarrow>
     tokenize_loop l (map of_char (str_join '' '' ws) @ rs)
       = tokenize_loop (lex_write (last ws) (add_tokens (map (Token TokWord) (butlast ws)) l)) rs"
proof (induction ws arbitrary: l rule: induct_list012)
  case (2 w)
  then show ?case by (simp add: tokenize_bare)
next
  case (3 w v ws)
  have b: "is_blank 32" "of_char (CHR '' '') = (32::nat)" by (simp_all add: is_blank_def)
  have "tokenize_loop l (map of_char (str_join '' '' (w # v # ws)) @ rs)
      = tokenize_loop (add_token (Token TokWord w) l) (map of_char (str_join '' '' (v # ws)) @ rs)"
    using 3(3,5) b by (simp add: tokenize_bare tokenize_blank)
  with 3 show ?case by simp
qed simp

lemma command_tokens_last:
  "map (Token TokWord) (butlast (command_words c)) @ [Token TokWord (last (command_words c))] = command_tokens c"
proof -
  have "command_words c \<noteq> []" by (simp add: command_words_def)
  then have "map (Token TokWord) (butlast (command_words c) @ [last (command_words c)]) = command_tokens c"
    unfolding command_tokens_def by (simp add: command_words_def del: last.simps butlast.simps)
  then show ?thesis by simp
qed

lemma tokenize_bare_text:
  assumes "bare_command c" "at_rest l"
  obtains l' where "\<And>rs. tokenize_loop l (map of_char (bare_text c) @ rs) = tokenize_loop l' rs"
    and "lex_flush l' = add_tokens (command_tokens c) l"
proof -
  let ?ws = "command_words c"
  have "list_all bare_word ?ws" "?ws \<noteq> []" using assms(1) by (simp_all add: bare_command_def command_words_def)
  note words = tokenize_bare_words [OF this assms(2)]
  have "lex_flush (lex_write (last ?ws) (add_tokens (map (Token TokWord) (butlast ?ws)) l)) = add_tokens (command_tokens c) l"
    using assms(2) by (simp add: command_tokens_last)
  with words show thesis by (intro that) (simp add: bare_text_def)
qed

lemma tokenize_bare_line:
  "list_all bare_command cs \<Longrightarrow> cs \<noteq> [] \<Longrightarrow> at_rest l \<Longrightarrow>
     tokenize_loop l (map of_char (bare_line cs)) = Inr (lex_tokens l @ pipeline_tokens cs)"
proof (induction cs arbitrary: l rule: pipeline_tokens.induct)
  case (2 c)
  have "bare_command c" using 2 by simp
  from tokenize_bare_text [OF this 2(3)] obtain l' where l': "\<And>rs. tokenize_loop l (map of_char (bare_text c) @ rs) = tokenize_loop l' rs"
    "lex_flush l' = add_tokens (command_tokens c) l" by blast
  then show ?case using l'(1) [of "[]"] by (simp add: bare_line_def)
next
  case (3 c d cs)
  have "bare_command c" using 3 by simp
  from tokenize_bare_text [OF this 3(4)] obtain l' where l': "\<And>rs. tokenize_loop l (map of_char (bare_text c) @ rs) = tokenize_loop l' rs"
    "lex_flush l' = add_tokens (command_tokens c) l" by blast
  have b: "is_blank 32" "of_char (CHR '' '') = (32::nat)" "of_char (CHR ''|'') = (124::nat)" by (simp_all add: is_blank_def)
  have "bare_line (c # d # cs) = bare_text c @ '' | '' @ bare_line (d # cs)" by (simp add: bare_line_def)
  then have "tokenize_loop l (map of_char (bare_line (c # d # cs)))
      = tokenize_loop (add_tokens (command_tokens c @ [Token TokPipe []]) l) (map of_char (bare_line (d # cs)))"
    using l' b 3(4) by (simp add: tokenize_blank tokenize_pipe)
  then show ?case using 3 by simp
qed simp

lemma ascii_str_join: "list_all ascii ws \<Longrightarrow> ascii sep \<Longrightarrow> ascii (str_join sep ws)"
  by (induction sep ws rule: str_join.induct) (auto simp: ascii_def)

lemma bare_word_ascii: "bare_word w \<Longrightarrow> ascii w"
  by (auto simp: bare_word_def plain_word_def ascii_def list_all_iff)

lemma bare_line_ascii: "list_all bare_command cs \<Longrightarrow> ascii (bare_line cs)"
proof -
  assume "list_all bare_command cs"
  then have "list_all ascii (command_words c)" if "c \<in> set cs" for c
    using that by (auto simp: list_all_iff bare_command_def bare_word_ascii)
  moreover have "ascii '' ''" "ascii '' | ''" by (simp_all add: ascii_def)
  ultimately show "ascii (bare_line cs)"
    unfolding bare_line_def bare_text_def by (intro ascii_str_join) (auto simp: list_all_iff intro!: ascii_str_join)
qed

lemma parse_bare_line:
  assumes "list_all bare_command cs" "cs \<noteq> []"
  shows "parse_line (bare_line cs) = Inr \<lparr>commands = cs, background = False, tainted = False\<rparr>"
proof -
  have "tokenize (bare_line cs) = Inr (pipeline_tokens cs)"
    using tokenize_bare_line [OF assms at_rest_simps(1)] bare_line_ascii [OF assms(1)]
    by (simp add: tokenize_def runes_of_ascii) (simp add: lex_start_def)
  moreover have "map stage_command (map command_words (butlast cs) @ [command_words (last cs)]) = cs"
  proof -
    have "map command_words (butlast cs) @ [command_words (last cs)] = map command_words cs"
      using assms(2) by (metis append_butlast_last_id list.simps(8) list.simps(9) map_append)
    moreover have "stage_command (command_words c) = c" if "c \<in> set cs" for c
      using assms(1) that by (auto simp: stage_command_def command_words_def bare_command_def list_all_iff)
    ultimately show ?thesis by (simp add: map_idI)
  qed
  ultimately show ?thesis
    using assms(2) peel_amp_none [OF pipeline_tokens_no_amp] split_stages_pipeline [OF assms(2)] pipeline_tokens_not_Nil [OF assms(2)]
    by (auto simp: parse_line_def parse_tokens_def command_words_def)
qed

section \<open>From the line to the executor\<close>

lemma bare_line_free:
  assumes "list_all bare_command cs" "c \<in> set (bare_line cs)"
  shows "c \<notin> {CHR ''$'', CHR 0x27, CHR 0x22}"
proof -
  have "d \<notin> {CHR ''$'', CHR 0x27, CHR 0x22}" if "d \<in> set (bare_text x)" "x \<in> set cs" for d x
  proof -
    have "d \<in> set '' '' \<or> (\<exists>w \<in> set (command_words x). d \<in> set w)"
      using set_str_join_subset [of d "'' ''" "command_words x"] that(1) by (auto simp: bare_text_def)
    then show ?thesis using assms(1) that(2) by (auto simp: list_all_iff bare_command_def bare_word_def)
  qed
  moreover have "c \<in> set '' | '' \<or> (\<exists>x \<in> set cs. c \<in> set (bare_text x))"
    using set_str_join_subset [of c "'' | ''" "map bare_text cs"] assms(2) by (auto simp: bare_line_def)
  ultimately show ?thesis by auto
qed

lemma bare_line_head:
  assumes "list_all bare_command (c # cs)"
  obtains rest where "bare_line (c # cs) = cmd_name c @ rest" "blank_tail rest" "plain_word (cmd_name c)"
proof -
  have "plain_word (cmd_name c)" using assms by (simp add: bare_command_def command_words_def bare_word_def)
  moreover obtain r where r: "bare_text c = cmd_name c @ r" "blank_tail r"
    by (cases "cmd_args c") (auto simp: bare_text_def command_words_def)
  moreover have "\<exists>rest. bare_line (c # cs) = cmd_name c @ rest \<and> blank_tail rest"
    using r by (cases cs) (auto simp: bare_line_def intro: blank_tail_append)
  ultimately show thesis using that by blast
qed

lemma expand_bare_line: "list_all bare_command cs \<Longrightarrow> expand e (bare_line cs) x = bare_line cs"
proof -
  assume "list_all bare_command cs"
  then have "\<not> contains_any (bare_line cs) [CHR ''$'', CHR 0x27, CHR 0x22]"
    using bare_line_free by (auto simp: contains_any_def list_ex_iff List.member_iff)
  then show ?thesis by (simp add: expand_def)
qed

lemma expand_line_no_dollar: "CHR ''$'' \<notin> set s \<Longrightarrow> expand_line ctx st s = (st, Inr s)"
proof -
  assume "CHR ''$'' \<notin> set s"
  then have "\<not> sublist ''$('' s" by (auto simp: sublist_def)
  then show ?thesis by (simp add: expand_line_def expand_cmd_sub.simps)
qed

lemma resolve_alias_none:
  assumes "plain_word t" "blank_tail rest" "alias_get sh t = None"
  shows "resolve_alias sh (t @ rest) = (sh, t @ rest)"
proof (cases "sh_aliases sh = []")
  case False
  have "t \<noteq> []" using assms(1) by (simp add: plain_word_def)
  then have "resolve_loop (Suc n) [] sh (t @ rest) = (sh, t @ rest)" for n
    using first_token_word [OF assms(1,2)] assms(3) by (simp add: Let_def)
  from this [of 15] show ?thesis by (simp add: resolve_alias_def eval_nat_numeral)
qed (simp add: resolve_alias_def)

lemma run_substituted_bare:
  assumes "list_all bare_command cs" "cs \<noteq> []" "alias_get sh (cmd_name (hd cs)) = None"
  shows "run_substituted sys sh line (bare_line cs)
     = run_hooked sys sh line (tag_pipeline_taint \<lparr>commands = cs, background = False, tainted = False\<rparr> (sh_taint sh))"
proof -
  obtain c cs' where cs: "cs = c # cs'" using assms(2) by (cases cs) auto
  obtain rest where rest: "bare_line cs = cmd_name c @ rest" "blank_tail rest" "plain_word (cmd_name c)"
    using bare_line_head [of c cs'] assms(1) cs by blast
  have "resolve_alias sh (bare_line cs) = (sh, bare_line cs)"
    using resolve_alias_none [OF rest(3,2)] rest(1) assms(3) cs by simp
  moreover have "expand_pipeline glob cwd \<lparr>commands = cs, background = False, tainted = False\<rparr>
      = Some \<lparr>commands = cs, background = False, tainted = False\<rparr>" for glob cwd
  proof -
    have "\<not> contains_any a ''{*?[''" if "c \<in> set cs" "a \<in> set (cmd_args c)" for c a
      using assms(1) that by (auto simp: list_all_iff bare_command_def command_words_def bare_word_def contains_any_def list_ex_iff)
    then have "list_all (\<lambda>c. list_all (\<lambda>a. \<not> contains_any a ''{*?['') (cmd_args c)) cs" by (simp add: list_all_iff)
    then show ?thesis by (simp add: expand_pipeline_def expand_commands_clean)
  qed
  ultimately show ?thesis using assms(2) parse_bare_line [OF assms(1,2)] by (simp add: run_substituted_def)
qed

lemma run_external_bare:
  assumes "list_all bare_command cs" "cs \<noteq> []" "alias_get sh (cmd_name (hd cs)) = None"
  shows "run_external (Suc fuel) sys sh (bare_line cs)
     = run_hooked sys sh (bare_line cs) (tag_pipeline_taint \<lparr>commands = cs, background = False, tainted = False\<rparr> (sh_taint sh))"
proof -
  have "CHR ''$'' \<notin> set (bare_line cs)" using bare_line_free [OF assms(1)] by auto
  then show ?thesis by (simp add: expand_line_no_dollar run_substituted_bare [OF assms])
qed

section \<open>Built-ins and the first word\<close>

lemma is_word_first: "plain_word w \<Longrightarrow> is_word line w \<Longrightarrow> first_token line = w"
  using first_token_word [of w "[]"] first_token_word [of w "CHR '' '' # _"] first_token_word [of w "CHR 0x09 # _"]
  by (auto simp: is_word_def has_args_def prefix_def)

lemma has_args_is_word: "has_args line w \<Longrightarrow> is_word line w"
  by (simp add: is_word_def)

lemma is_word_head: "blank_tail rest \<Longrightarrow> is_word (t @ rest) t"
  by (cases rest) (auto simp: is_word_def has_args_def prefix_def)

lemma has_args_head: "blank_tail rest \<Longrightarrow> rest \<noteq> [] \<Longrightarrow> has_args (t @ rest) t"
  by (cases rest) (auto simp: has_args_def prefix_def)

lemma has_args_bare: "\<not> has_args t t"
  by (auto simp: has_args_def prefix_def)

lemma resolver_names_plain: "list_all plain_word resolver_names"
  by code_simp

lemma dispatch_names:
  "set (map fst builtin_table) \<union> {''cd'', ''export'', ''restore'', ''logout'', ''alias'', ''set'', ''exec''} = set resolver_names"
  by (auto simp: builtin_table_def resolver_names_def)

lemma not_is_word:
  assumes "w \<in> set resolver_names" "first_token line \<noteq> w"
  shows "\<not> is_word line w"
  using assms resolver_names_plain is_word_first by (auto simp: list_all_iff)

lemma find_builtin_none:
  "(\<forall>w \<in> set (map fst builtin_table). \<not> is_word line w) \<Longrightarrow> find (\<lambda>wb. is_word line (fst wb)) builtin_table = None"
  by (auto simp: find_None_iff)

lemma dispatch_line_tiers:
  assumes "\<forall>w \<in> set resolver_names - {''export'', ''restore''}. \<not> is_word line w"
    and "\<not> has_args line ''export''" "\<not> has_args line ''restore''"
  shows "dispatch_line fuel sys sh line = (run_tiers fuel sys sh line, None)"
proof -
  have "\<forall>w \<in> set (map fst builtin_table). \<not> is_word line w"
    using assms(1) by (auto simp: builtin_table_def resolver_names_def)
  moreover have "\<not> is_word line ''cd''" "\<not> is_word line ''logout''" "\<not> is_word line ''alias''" "\<not> is_word line ''set''" "\<not> is_word line ''exec''"
    using assms(1) by (auto simp: resolver_names_def)
  ultimately show ?thesis using assms(2,3) find_builtin_none [of line] by (simp add: dispatch_line_def)
qed

end
