(* ===== verification/Script_Ast.thy ===== *)
theory Script_Ast
  imports Go_Strings
begin

text \<open>
  Scripts of foreign shells: the syntax tree of \<^verbatim>\<open>shell/internal/translate/ast.go\<close>, its rendering
  by \<^verbatim>\<open>explain.go\<close> and \<^verbatim>\<open>migrate.go\<close>, and the detection of the dialect in \<^verbatim>\<open>translate.go\<close>.
\<close>

section \<open>The syntax tree\<close>

datatype dialect = D_bash | D_zsh | D_fish | D_powershell | D_cmd

datatype redirect_op = Redirect_in | Redirect_out | Redirect_append | Redirect_err_out | Redirect_err_to_out

record redirect =
  rd_op :: redirect_op
  rd_target :: string

record script_command =
  sc_line :: nat
  sc_name :: string
  sc_args :: "string list"
  sc_redirects :: "redirect list"

text \<open>The first component is the line; a \<open>Loop\<close> is one of two constructors by its kind.\<close>

datatype stmt =
    S_comment nat string
  | S_assign nat string string bool
  | S_command script_command
  | S_pipe nat "script_command list"
  | S_cond nat "(stmt \<times> stmt list) list" "stmt list"
  | S_for nat string "string list" "stmt list"
  | S_while nat stmt "stmt list"
  | S_case nat string "(string list \<times> stmt list) list"
  | S_func nat string "stmt list"
  | S_unknown nat string string

record script =
  sp_dialect :: dialect
  sp_statements :: "stmt list"

fun stmt_line :: "stmt \<Rightarrow> nat" where
  "stmt_line (S_comment l _) = l"
| "stmt_line (S_assign l _ _ _) = l"
| "stmt_line (S_command c) = sc_line c"
| "stmt_line (S_pipe l _) = l"
| "stmt_line (S_cond l _ _) = l"
| "stmt_line (S_for l _ _ _) = l"
| "stmt_line (S_while l _ _) = l"
| "stmt_line (S_case l _ _) = l"
| "stmt_line (S_func l _ _) = l"
| "stmt_line (S_unknown l _ _) = l"

section \<open>Rendering\<close>

definition redirect_string :: "redirect \<Rightarrow> string" where
  "redirect_string r = (case rd_op r of
      Redirect_in \<Rightarrow> ''< '' @ rd_target r
    | Redirect_out \<Rightarrow> ''> '' @ rd_target r
    | Redirect_append \<Rightarrow> ''>> '' @ rd_target r
    | Redirect_err_out \<Rightarrow> ''2> '' @ rd_target r
    | Redirect_err_to_out \<Rightarrow> ''2>&1'')"

definition in_double_quotes :: "string \<Rightarrow> string" where
  "in_double_quotes s = [CHR 0x22] @ replace_all s [CHR 0x22] [CHR 0x5C, CHR 0x22] @ [CHR 0x22]"

definition maybe_quote :: "string \<Rightarrow> string" where
  "maybe_quote s =
     (if s = [] then [CHR 0x22, CHR 0x22]
      else if contains_any s [CHR '' '', CHR 0x09, CHR ''|'', CHR ''<'', CHR ''>'', CHR '';''] then in_double_quotes s
      else s)"

definition format_command :: "script_command \<Rightarrow> string" where
  "format_command c = str_join '' '' (sc_name c # map maybe_quote (sc_args c) @ map redirect_string (sc_redirects c))"

definition format_command_no_redirect :: "script_command \<Rightarrow> string" where
  "format_command_no_redirect c = str_join '' '' (sc_name c # map maybe_quote (sc_args c))"

definition format_pipe :: "script_command list \<Rightarrow> string" where
  "format_pipe cs = str_join '' | '' (map format_command cs)"

fun format_test :: "stmt \<Rightarrow> string" where
  "format_test (S_command c) = format_command c"
| "format_test (S_pipe l cs) = format_pipe cs"
| "format_test (S_unknown l reason src) = ''(unsupported: '' @ reason @ '')''"
| "format_test _ = ''(complex test)''"

section \<open>Migrate\<close>

definition quote_for_migrate :: "string \<Rightarrow> string" where
  "quote_for_migrate s =
     (if s = [] then [CHR 0x22, CHR 0x22]
      else if contains_any s [CHR '' '', CHR 0x09, CHR 0x22, CHR 0x27, CHR ''$'', CHR ''|'', CHR ''<'', CHR ''>'',
                CHR '';'', CHR ''('', CHR '')''] then in_double_quotes s
      else s)"

definition repeat_blanks :: "nat \<Rightarrow> string" where
  "repeat_blanks n = concat (replicate n ''  '')"

text \<open>
  \<open>writeMigrateStmt\<close> gives lines, without their newlines. The dash in the comment for an unknown
  statement is the three bytes of U+2014.
\<close>

definition todo_dash :: string where
  "todo_dash = [CHR 0xE2, CHR 0x80, CHR 0x94]"

fun migrate_stmt :: "nat \<Rightarrow> stmt \<Rightarrow> string list"
  and migrate_block :: "nat \<Rightarrow> stmt list \<Rightarrow> string list"
  and migrate_branches :: "nat \<Rightarrow> string \<Rightarrow> (stmt \<times> stmt list) list \<Rightarrow> string list"
  and migrate_arms :: "nat \<Rightarrow> (string list \<times> stmt list) list \<Rightarrow> string list" where
  "migrate_stmt n (S_comment l t) = [repeat_blanks n @ t]"
| "migrate_stmt n (S_assign l name value exported) =
     [repeat_blanks n @ (if exported then ''export '' else []) @ name @ ''='' @ quote_for_migrate value]"
| "migrate_stmt n (S_command c) = [repeat_blanks n @ format_command c]"
| "migrate_stmt n (S_pipe l cs) = [repeat_blanks n @ format_pipe cs]"
| "migrate_stmt n (S_cond l brs els) =
     migrate_branches n ''if'' brs
     @ (if els \<noteq> [] then (repeat_blanks n @ ''else'') # migrate_block (Suc n) els else [])
     @ [repeat_blanks n @ ''fi'']"
| "migrate_stmt n (S_for l var ws body) =
     (repeat_blanks n @ ''for '' @ var @ '' in '' @ str_join '' '' (map quote_for_migrate ws) @ ''; do'')
     # migrate_block (Suc n) body @ [repeat_blanks n @ ''done'']"
| "migrate_stmt n (S_while l test body) =
     (repeat_blanks n @ ''while '' @ format_test test @ ''; do'') # migrate_block (Suc n) body @ [repeat_blanks n @ ''done'']"
| "migrate_stmt n (S_case l word arms) =
     (repeat_blanks n @ ''case '' @ quote_for_migrate word @ '' in'') # migrate_arms n arms @ [repeat_blanks n @ ''esac'']"
| "migrate_stmt n (S_func l name body) =
     (repeat_blanks n @ name @ ''() {'') # migrate_block (Suc n) body @ [repeat_blanks n @ ''}'']"
| "migrate_stmt n (S_unknown l reason src) =
     [repeat_blanks n @ ''# aish: MIGRATE-TODO: '' @ reason @ '' '' @ todo_dash @ '' '' @ src]"
| "migrate_block n [] = []"
| "migrate_block n (s # ss) = migrate_stmt n s @ migrate_block n ss"
| "migrate_branches n kw [] = []"
| "migrate_branches n kw ((t, body) # brs) =
     (repeat_blanks n @ kw @ '' '' @ format_test t @ ''; then'') # migrate_block (Suc n) body @ migrate_branches n ''elif'' brs"
| "migrate_arms n [] = []"
| "migrate_arms n ((pats, body) # arms) =
     (repeat_blanks n @ ''  '' @ str_join ''|'' pats @ '')'') # migrate_block (Suc (Suc n)) body
     @ (repeat_blanks n @ ''  ;;'') # migrate_arms n arms"

definition dialect_name :: "dialect \<Rightarrow> string" where
  "dialect_name d = (case d of D_bash \<Rightarrow> ''bash'' | D_zsh \<Rightarrow> ''zsh'' | D_fish \<Rightarrow> ''fish''
     | D_powershell \<Rightarrow> ''powershell'' | D_cmd \<Rightarrow> ''cmd'')"

definition migrate_lines :: "script \<Rightarrow> string list" where
  "migrate_lines sp = ''#!/usr/bin/env aish'' # (''# aish: migrated from '' @ dialect_name (sp_dialect sp))
     # migrate_block 0 (sp_statements sp)"

definition migrate :: "script \<Rightarrow> string" where
  "migrate sp = concat (map (\<lambda>l. l @ [CHR 0x0A]) (migrate_lines sp))"

section \<open>Explain\<close>

text \<open>
  The numbered lines of \<open>Explain\<close>: indentation, number, source line and what the line says. The words
  around the data and Go's quoting of strings are left out.
\<close>

datatype explanation =
    Ex_comment string
  | Ex_assign string string bool
  | Ex_run string
  | Ex_pipeline string
  | Ex_if string
  | Ex_else_if string
  | Ex_otherwise
  | Ex_for string string
  | Ex_while string
  | Ex_match string
  | Ex_pattern string
  | Ex_function string
  | Ex_unsupported string string

type_synonym explain_line = "nat \<times> nat \<times> nat option \<times> explanation"

fun explain_stmt :: "nat \<Rightarrow> nat \<Rightarrow> stmt \<Rightarrow> explain_line list"
  and explain_block :: "nat \<Rightarrow> nat \<Rightarrow> stmt list \<Rightarrow> explain_line list"
  and explain_branches :: "nat \<Rightarrow> nat \<Rightarrow> nat \<Rightarrow> bool \<Rightarrow> (stmt \<times> stmt list) list \<Rightarrow> explain_line list"
  and explain_arms :: "nat \<Rightarrow> nat \<Rightarrow> (string list \<times> stmt list) list \<Rightarrow> explain_line list" where
  "explain_stmt k n (S_comment l t) = [(n, k, Some l, Ex_comment t)]"
| "explain_stmt k n (S_assign l name value exported) = [(n, k, Some l, Ex_assign name value exported)]"
| "explain_stmt k n (S_command c) = [(n, k, Some (sc_line c), Ex_run (format_command c))]"
| "explain_stmt k n (S_pipe l cs) = [(n, k, Some l, Ex_pipeline (format_pipe cs))]"
| "explain_stmt k n (S_cond l brs els) =
     (let out = explain_branches k n l True brs
      in if els \<noteq> []
         then out @ (n, k + length out, Some l, Ex_otherwise) # explain_block (Suc (k + length out)) (Suc n) els
         else out)"
| "explain_stmt k n (S_for l var ws body) = (n, k, Some l, Ex_for var (str_join '' '' ws)) # explain_block (Suc k) (Suc n) body"
| "explain_stmt k n (S_while l test body) = (n, k, Some l, Ex_while (format_test test)) # explain_block (Suc k) (Suc n) body"
| "explain_stmt k n (S_case l word arms) = (n, k, Some l, Ex_match word) # explain_arms (Suc k) n arms"
| "explain_stmt k n (S_func l name body) = (n, k, Some l, Ex_function name) # explain_block (Suc k) (Suc n) body"
| "explain_stmt k n (S_unknown l reason src) = [(n, k, Some l, Ex_unsupported reason src)]"
| "explain_block k n [] = []"
| "explain_block k n (s # ss) = (let out = explain_stmt k n s in out @ explain_block (k + length out) n ss)"
| "explain_branches k n l fst_branch [] = []"
| "explain_branches k n l fst_branch ((t, body) # brs) =
     (let out = (n, k, Some l, (if fst_branch then Ex_if else Ex_else_if) (format_test t)) # explain_block (Suc k) (Suc n) body
      in out @ explain_branches (k + length out) n l False brs)"
| "explain_arms k n [] = []"
| "explain_arms k n ((pats, body) # arms) =
     (let out = (Suc n, k, None, Ex_pattern (str_join '' | '' pats)) # explain_block (Suc k) (Suc (Suc n)) body
      in out @ explain_arms (k + length out) n arms)"

definition explain :: "script \<Rightarrow> explain_line list" where
  "explain sp = explain_block 1 0 (sp_statements sp)"

fun numbered :: "nat \<Rightarrow> explain_line list \<Rightarrow> bool" where
  "numbered k [] = True"
| "numbered k (x # xs) = (fst (snd x) = k \<and> numbered (Suc k) xs)"

lemma numbered_append: "numbered k (xs @ ys) \<longleftrightarrow> numbered k xs \<and> numbered (k + length xs) ys"
  by (induction xs arbitrary: k) auto

lemma explain_numbered:
  "numbered k (explain_stmt k n s)" "numbered k (explain_block k n ss)"
  "numbered k (explain_branches k n l b brs)" "numbered k (explain_arms k n arms)"
  by (induction k n s and k n ss and k n l b brs and k n arms rule: explain_stmt_explain_block_explain_branches_explain_arms.induct)
     (simp_all add: Let_def numbered_append)

lemma numbered_upt: "numbered k xs \<Longrightarrow> map (\<lambda>x. fst (snd x)) xs = [k ..< k + length xs]"
  by (induction xs arbitrary: k) (auto simp: upt_conv_Cons simp del: upt_Suc)

text \<open>The lines of an explanation are numbered from one without gaps.\<close>

theorem explain_steps: "map (\<lambda>x. fst (snd x)) (explain sp) = [1 ..< Suc (length (explain sp))]"
  using numbered_upt [OF explain_numbered(2)] by (simp add: explain_def)

section \<open>Detecting the dialect\<close>

definition dialect_from_shebang :: "string \<Rightarrow> dialect option" where
  "dialect_from_shebang src =
     (if \<not> has_prefix src ''#!'' then None
      else
        (let line = takeWhile (\<lambda>c. c \<noteq> CHR 0x0A) src
         in if str_contains line ''pwsh'' \<or> str_contains line ''powershell'' then Some D_powershell
            else if str_contains line ''fish'' then Some D_fish
            else if str_contains line ''zsh'' then Some D_zsh
            else if str_contains line ''bash'' \<or> str_contains line ''/sh'' then Some D_bash
            else None))"

definition fish_score :: "string \<Rightarrow> nat" where
  "fish_score line =
     (let t = trim_space line
      in if t = ''end'' then 2
         else if has_prefix t ''set -l '' \<or> has_prefix t ''set -g '' \<or> has_prefix t ''set -x '' then 2
         else if has_prefix t ''function '' \<and> str_contains line '' '' then 1 else 0)"

definition looks_like_fish :: "string \<Rightarrow> bool" where
  "looks_like_fish src \<longleftrightarrow> 2 \<le> sum_list (map fish_score (split_byte CHR 0x0A src))"

text \<open>
  \<open>strings.ToLower\<close> as far as a test against ASCII bytes can tell: besides the ASCII capitals only
  U+0130 and U+212A have an ASCII lower case; the other runes are left.
\<close>

definition lower_rune :: "rune \<Rightarrow> rune" where
  "lower_rune r = (if 65 \<le> r \<and> r \<le> 90 then r + 32 else if r = 304 then 105 else if r = 8490 then 107 else r)"

definition lower_case :: "string \<Rightarrow> string" where
  "lower_case s = string_of_runes (map lower_rune (runes_of s))"

text \<open>\<open>filepath.Ext\<close>: from the last dot of the last element.\<close>

definition path_ext :: "string \<Rightarrow> string" where
  "path_ext p =
     (let base = take_tail (\<lambda>c. c \<noteq> CHR ''/'') p
      in case last_index_of base ''.'' of None \<Rightarrow> [] | Some i \<Rightarrow> drop i base)"

definition looks_like_powershell :: "string \<Rightarrow> bool" where
  "looks_like_powershell src \<longleftrightarrow>
     2 \<le> (if str_contains (lower_case src) ''write-host'' then 2 else 0 :: nat)
       + (if str_contains (lower_case src) ''write-output'' then 2 else 0)
       + (if str_contains (lower_case src) ''get-service'' \<or> str_contains (lower_case src) ''get-process'' then 2 else 0)
       + (if str_contains src ''<#'' \<or> str_contains src ''#>'' then 2 else 0)
       + (if str_contains src ''param('' then 1 else 0)"

definition cmd_score :: "string \<Rightarrow> nat" where
  "cmd_score line =
     (let t = lower_case (trim_space line)
      in if has_prefix t ''@echo '' then 2
         else if has_prefix t ''rem '' then 1
         else if has_prefix t ''::'' then 1
         else if has_prefix t ''set '' \<and> str_contains t ''='' then 1
         else if str_contains t ''%errorlevel%'' then 2
         else if has_prefix t ''goto '' then 1 else 0)"

definition looks_like_cmd :: "string \<Rightarrow> bool" where
  "looks_like_cmd src \<longleftrightarrow> 2 \<le> sum_list (map (cmd_score) (split_byte CHR 0x0A src))"

definition dialect_from_ext :: "string \<Rightarrow> dialect option" where
  "dialect_from_ext path =
     (let ext = lower_case (path_ext path)
      in if ext = ''.fish'' then Some D_fish
         else if ext = ''.zsh'' then Some D_zsh
         else if ext \<in> {''.sh'', ''.bash''} then Some D_bash
         else if ext \<in> {''.ps1'', ''.psm1''} then Some D_powershell
         else if ext \<in> {''.bat'', ''.cmd''} then Some D_cmd else None)"

definition detect :: "string \<Rightarrow> string \<Rightarrow> dialect" where
  "detect path src =
     (case dialect_from_shebang src of
        Some d \<Rightarrow> d
      | None \<Rightarrow>
          (case dialect_from_ext path of
             Some d \<Rightarrow> d
           | None \<Rightarrow>
               if looks_like_fish src then D_fish
               else if looks_like_powershell src then D_powershell
               else if looks_like_cmd src then D_cmd
               else D_bash))"

end
