(* ===== verification/Bash_Reader.thy ===== *)
theory Bash_Reader
  imports Script_Ast
begin

text \<open>
  The reader of bash scripts, \<^verbatim>\<open>shell/internal/translate/reader/bash.go\<close>. The lines that are still to
  be read are a list of line numbers and texts; the parsers of the source never go back, so the slice
  and the index into it are the rest of that list. The block parser has fuel: a block within a block
  consumes a line, so the number of bytes and lines is enough, and \<open>read_bash_total\<close> shows it.
\<close>

type_synonym source_line = "nat \<times> string"

section \<open>Lines\<close>

definition ends_with_continuation :: "string \<Rightarrow> bool" where
  "ends_with_continuation s \<longleftrightarrow> odd (length (take_tail (\<lambda>c. c = CHR 0x5C) s))"

fun absorb_lines :: "string \<Rightarrow> string list \<Rightarrow> string \<times> string list \<times> nat" where
  "absorb_lines ln [] = (ln, [], 0)"
| "absorb_lines ln (nx # rest) =
     (if ends_with_continuation ln
      then (case absorb_lines (butlast ln @ '' '' @ trim_right_set nx [CHR 0x0D]) rest of (l, r, k) \<Rightarrow> (l, r, Suc k))
      else (ln, nx # rest, 0))"

lemma absorb_lines_length [termination_simp]: "absorb_lines ln raw = (l, r, k) \<Longrightarrow> length r \<le> length raw"
  by (induction ln raw arbitrary: l r k rule: absorb_lines.induct) (auto split: if_splits prod.splits)

function lex_lines_from :: "nat \<Rightarrow> string list \<Rightarrow> source_line list" where
  "lex_lines_from i [] = []"
| "lex_lines_from i (ln # raw) =
     (case absorb_lines (trim_right_set ln [CHR 0x0D]) raw of
        (l, rest, k) \<Rightarrow> (i, l) # lex_lines_from (i + k + 1) rest)"
  by pat_completeness auto
termination
  by (relation "measure (\<lambda>(_, raw). length raw)") (auto simp: less_Suc_eq_le dest!: absorb_lines_length [OF sym])

definition lex_lines :: "string \<Rightarrow> source_line list" where
  "lex_lines src = lex_lines_from 1 (split_byte CHR 0x0A src)"

section \<open>Words\<close>

definition first_word :: "string \<Rightarrow> string" where
  "first_word s = takeWhile (\<lambda>c. c \<noteq> CHR '' '' \<and> c \<noteq> CHR 0x09) s"

definition ident_char :: "char \<Rightarrow> bool" where
  "ident_char c \<longleftrightarrow> c = CHR ''_'' \<or> (of_char c :: nat) \<in> {97..122} \<or> (of_char c :: nat) \<in> {65..90}"

definition is_ident :: "string \<Rightarrow> bool" where
  "is_ident s \<longleftrightarrow> (case s of [] \<Rightarrow> False | c # cs \<Rightarrow> ident_char c \<and> list_all (\<lambda>x. ident_char x \<or> is_digit x) cs)"

definition is_function_def_header :: "string \<Rightarrow> bool" where
  "is_function_def_header s =
     (case index_of s ''('' of
        None \<Rightarrow> False
      | Some i \<Rightarrow> i \<noteq> 0 \<and> index_of s '')'' = Some (i + 1) \<and> is_ident (trim_space (take i s)))"

definition classify_unsupported :: "string \<Rightarrow> string option" where
  "classify_unsupported line =
     (if str_contains line ''<<<'' then Some ''here-string (<<<) unsupported''
      else if str_contains line ''<<'' then Some ''heredoc (<<) unsupported''
      else if has_prefix line ''[['' \<or> str_contains line '' [[ '' then Some ''extended test [[ ]] unsupported''
      else if str_contains line ''$(('' then Some ''arithmetic expansion $(( )) unsupported''
      else if str_contains line ''(('' \<and> \<not> str_contains line ''$(('' then Some ''arithmetic command (( )) unsupported''
      else if str_contains line '' && '' \<or> str_contains line '' || '' then Some ''short-circuit && / || chains unsupported (MVP)''
      else if str_contains line ''<('' then Some ''process substitution <( ) unsupported''
      else if str_contains line ''>('' then Some ''process substitution >( ) unsupported''
      else if str_contains line [CHR 0x60] then Some ''backtick command substitution unsupported (use $(...))''
      else if has_prefix line ''select '' then Some ''select unsupported''
      else if has_prefix line ''trap '' then Some ''trap unsupported''
      else None)"

definition strip_quotes :: "string \<Rightarrow> string" where
  "strip_quotes s =
     (if 2 \<le> length s \<and> (hd s = CHR 0x22 \<and> last s = CHR 0x22 \<or> hd s = CHR 0x27 \<and> last s = CHR 0x27)
      then butlast (tl s) else s)"

section \<open>Tokens\<close>

datatype bash_token_kind = Bash_word | Bash_pipe | Bash_redir

type_synonym bash_token = "bash_token_kind \<times> string"

text \<open>
  The inside of a quoted piece and the rest after its closing quote; \<open>close_paren\<close> counts the
  parentheses of a substitution and keeps the last one.
\<close>

fun single_quoted :: "rune list \<Rightarrow> (rune list \<times> rune list) option" where
  "single_quoted [] = None"
| "single_quoted (r # rs) =
     (if r = 39 then Some ([], rs) else (case single_quoted rs of None \<Rightarrow> None | Some (a, b) \<Rightarrow> Some (r # a, b)))"

fun double_quoted :: "rune list \<Rightarrow> (rune list \<times> rune list) option" where
  "double_quoted [] = None"
| "double_quoted [r] = (if r = 34 then Some ([], []) else None)"
| "double_quoted (r # x # rs) =
     (if r = 92 then (case double_quoted rs of None \<Rightarrow> None | Some (a, b) \<Rightarrow> Some (r # x # a, b))
      else if r = 34 then Some ([], x # rs)
      else (case double_quoted (x # rs) of None \<Rightarrow> None | Some (a, b) \<Rightarrow> Some (r # a, b)))"

fun close_paren :: "nat \<Rightarrow> rune list \<Rightarrow> (rune list \<times> rune list) option" where
  "close_paren d [] = None"
| "close_paren d (r # rs) =
     (if r = 41 \<and> d \<le> 1 then Some ([r], rs)
      else (case close_paren (if r = 40 then Suc d else if r = 41 then d - 1 else d) rs of
              None \<Rightarrow> None
            | Some (a, b) \<Rightarrow> Some (r # a, b)))"

lemma quoted_length [termination_simp]:
  "single_quoted rs = Some (a, b) \<Longrightarrow> length b < length rs"
  "double_quoted rs = Some (a, b) \<Longrightarrow> length b < length rs"
  "close_paren d rs = Some (a, b) \<Longrightarrow> length b < length rs"
proof -
  show "single_quoted rs = Some (a, b) \<Longrightarrow> length b < length rs"
    by (induction rs arbitrary: a) (auto split: if_splits option.splits)
  show "double_quoted rs = Some (a, b) \<Longrightarrow> length b < length rs"
    by (induction rs arbitrary: a rule: double_quoted.induct) (auto split: if_splits option.splits)
  show "close_paren d rs = Some (a, b) \<Longrightarrow> length b < length rs"
    by (induction rs arbitrary: d a) (auto split: if_splits option.splits intro: less_SucI)
qed

text \<open>The word so far, when a word has begun.\<close>

definition flush_word :: "string option \<Rightarrow> bash_token list" where
  "flush_word w = (case w of None \<Rightarrow> [] | Some s \<Rightarrow> [(Bash_word, s)])"

definition add_to_word :: "string option \<Rightarrow> string \<Rightarrow> string option" where
  "add_to_word w s = Some ((case w of None \<Rightarrow> [] | Some x \<Rightarrow> x) @ s)"

definition then_tokens :: "bash_token list \<Rightarrow> string + bash_token list \<Rightarrow> string + bash_token list" where
  "then_tokens ts r = (case r of Inl e \<Rightarrow> Inl e | Inr us \<Rightarrow> Inr (ts @ us))"

function bash_tokens :: "string option \<Rightarrow> rune list \<Rightarrow> string + bash_token list" where
  "bash_tokens w [] = Inr (flush_word w)"
| "bash_tokens w (r # rs) =
     (if r = 39 then
        (case single_quoted rs of
           None \<Rightarrow> Inl ''unterminated single quote''
         | Some (inner, rest) \<Rightarrow> bash_tokens (add_to_word w (string_of_runes inner)) rest)
      else if r = 34 then
        (case double_quoted rs of
           None \<Rightarrow> Inl ''unterminated double quote''
         | Some (inner, rest) \<Rightarrow>
             bash_tokens (add_to_word w (replace_all (string_of_runes inner) [CHR 0x5C, CHR 0x22] [CHR 0x22])) rest)
      else if r = 36 \<and> rs \<noteq> [] \<and> hd rs = 40 then
        (case close_paren 1 (tl rs) of
           None \<Rightarrow> Inl ''unterminated $(...) substitution''
         | Some (inner, rest) \<Rightarrow> bash_tokens (add_to_word w (string_of_runes (r # 40 # inner))) rest)
      else if r = 124 then then_tokens (flush_word w @ [(Bash_pipe, [])]) (bash_tokens None rs)
      else if r = 62 \<and> rs \<noteq> [] \<and> hd rs = 62 then then_tokens (flush_word w @ [(Bash_redir, ''>>'')]) (bash_tokens None (tl rs))
      else if r = 62 then then_tokens (flush_word w @ [(Bash_redir, ''>'')]) (bash_tokens None rs)
      else if r = 60 then then_tokens (flush_word w @ [(Bash_redir, ''<'')]) (bash_tokens None rs)
      else if r = 50 \<and> rs \<noteq> [] \<and> hd rs = 62 then
        (if take 2 (tl rs) = [38, 49]
         then then_tokens (flush_word w @ [(Bash_redir, ''2>&1''), (Bash_word, [])]) (bash_tokens None (drop 3 rs))
         else if w = None then then_tokens [(Bash_redir, ''2>'')] (bash_tokens None (tl rs))
         else bash_tokens (add_to_word w (encode_rune r)) rs)
      else if r = 32 \<or> r = 9 then then_tokens (flush_word w) (bash_tokens None rs)
      else if r = 59 then Inr (flush_word w)
      else bash_tokens (add_to_word w (encode_rune r)) rs)"
  by pat_completeness auto
termination
  by (relation "measure (\<lambda>(_, rs). length rs)")
     (auto simp: neq_Nil_conv dest!: quoted_length)

definition tokenize_bash :: "string \<Rightarrow> string + bash_token list" where
  "tokenize_bash line = bash_tokens None (runes_of line)"

definition split_words :: "string \<Rightarrow> string list" where
  "split_words s = (case tokenize_bash s of Inl _ \<Rightarrow> [s] | Inr ts \<Rightarrow> map snd (filter (\<lambda>t. fst t = Bash_word) ts))"

section \<open>Statement lines\<close>

definition op_from_string :: "string \<Rightarrow> redirect_op" where
  "op_from_string s =
     (if s = ''<'' then Redirect_in else if s = ''>'' then Redirect_out else if s = ''>>'' then Redirect_append
      else if s = ''2>'' then Redirect_err_out else if s = ''2>&1'' then Redirect_err_to_out else Redirect_out)"

fun split_on_pipe :: "bash_token list \<Rightarrow> bash_token list \<Rightarrow> bash_token list list" where
  "split_on_pipe cur [] = (if cur \<noteq> [] then [cur] else [])"
| "split_on_pipe cur (t # ts) =
     (if fst t = Bash_pipe then (if cur \<noteq> [] then cur # split_on_pipe [] ts else split_on_pipe cur ts)
      else split_on_pipe (cur @ [t]) ts)"

fun argv_and_redirects :: "bash_token list \<Rightarrow> string + string list \<times> redirect list" where
  "argv_and_redirects [] = Inr ([], [])"
| "argv_and_redirects [(k, v)] =
     (if k = Bash_redir then Inl ''redirect operator with no target'' else Inr ([v], []))"
| "argv_and_redirects ((k, v) # t # ts) =
     (if k = Bash_redir
      then (case argv_and_redirects ts of
              Inl e \<Rightarrow> Inl e
            | Inr (av, rds) \<Rightarrow> Inr (av, \<lparr>rd_op = op_from_string v, rd_target = snd t\<rparr> # rds))
      else (case argv_and_redirects (t # ts) of Inl e \<Rightarrow> Inl e | Inr (av, rds) \<Rightarrow> Inr (v # av, rds)))"

definition tokens_to_command :: "nat \<Rightarrow> bash_token list \<Rightarrow> string + script_command" where
  "tokens_to_command line ts =
     (case argv_and_redirects ts of
        Inl e \<Rightarrow> Inl e
      | Inr ([], rds) \<Rightarrow> Inl ''command with no name''
      | Inr (name # args, rds) \<Rightarrow> Inr \<lparr>sc_line = line, sc_name = name, sc_args = args, sc_redirects = rds\<rparr>)"

fun stages_to_commands :: "nat \<Rightarrow> bash_token list list \<Rightarrow> string + script_command list" where
  "stages_to_commands line [] = Inr []"
| "stages_to_commands line (st # sts) =
     (case tokens_to_command line st of
        Inl e \<Rightarrow> Inl e
      | Inr c \<Rightarrow> (case stages_to_commands line sts of Inl e \<Rightarrow> Inl e | Inr cs \<Rightarrow> Inr (c # cs)))"

definition split_assignment :: "string \<Rightarrow> (string \<times> string) option" where
  "split_assignment tok =
     (case index_of tok ''='' of
        None \<Rightarrow> None
      | Some i \<Rightarrow> if i = 0 \<or> \<not> is_ident (take i tok) then None else Some (take i tok, strip_quotes (drop (i + 1) tok)))"

definition parse_statement_line :: "string \<Rightarrow> nat \<Rightarrow> stmt" where
  "parse_statement_line text l =
     (case tokenize_bash text of
        Inl e \<Rightarrow> S_unknown l e text
      | Inr ts \<Rightarrow>
          if ts = [] then S_unknown l ''empty statement'' text
          else
            (let stages = split_on_pipe [] ts
             in if 1 < length stages then
                  (case stages_to_commands l stages of Inl e \<Rightarrow> S_unknown l e text | Inr cs \<Rightarrow> S_pipe l cs)
                else
                  (case (if length ts = 1 then split_assignment (snd (hd ts)) else None) of
                     Some (name, v) \<Rightarrow> S_assign l name v False
                   | None \<Rightarrow> (case tokens_to_command l ts of Inl e \<Rightarrow> S_unknown l e text | Inr c \<Rightarrow> S_command c))))"

section \<open>Block headers\<close>

text \<open>
  \<open>skipKeywordLine\<close>: a line that is the keyword is dropped, one that begins with it loses it.
\<close>

definition skip_keyword_line :: "string \<Rightarrow> source_line list \<Rightarrow> source_line list" where
  "skip_keyword_line kw ls =
     (case ls of
        [] \<Rightarrow> []
      | (l, text) # rest \<Rightarrow>
          (let t = trim_space text
           in if t = kw then rest
              else if has_prefix t (kw @ '' '') \<or> has_prefix t (kw @ [CHR 0x09]) then (l, trim_space (trim_prefix t kw)) # rest
              else ls))"

definition skip_brace :: "string \<Rightarrow> source_line list \<Rightarrow> source_line list" where
  "skip_brace b ls = (case ls of [] \<Rightarrow> [] | (l, text) # rest \<Rightarrow> if trim_space text = b then rest else ls)"

text \<open>\<open>consumeUntilKeyword\<close>: the test of a header; what follows the keyword on the line is dropped.\<close>

definition header_test :: "source_line \<Rightarrow> string \<Rightarrow> string \<Rightarrow> stmt" where
  "header_test ln kw term =
     (let h = trim_space (trim_prefix (trim_space (snd ln)) kw)
      in case last_index_of h (''; '' @ term) of
           Some i \<Rightarrow> parse_statement_line (trim_space (take i h)) (fst ln)
         | None \<Rightarrow>
             if has_suffix h ('';'' @ term) then parse_statement_line (trim_space (trim_suffix h ('';'' @ term))) (fst ln)
             else parse_statement_line (trim_space (trim_suffix h '';'')) (fst ln))"

definition for_header :: "string \<Rightarrow> string \<times> string list" where
  "for_header text =
     (let rest0 = trim_suffix (trim_space (trim_prefix (trim_space text) ''for'')) '';'';
          rest = (case last_index_of rest0 '';'' of
                    None \<Rightarrow> rest0
                  | Some i \<Rightarrow> if trim_space (drop (i + 1) rest0) \<in> {''do'', []} then trim_space (take i rest0) else rest0)
      in case index_of rest '' in '' of
           None \<Rightarrow> (rest, [])
         | Some i \<Rightarrow> (trim_space (take i rest), split_words (trim_space (drop (i + 4) rest))))"

section \<open>Case\<close>

fun case_body :: "source_line list \<Rightarrow> stmt list \<times> source_line list" where
  "case_body [] = ([], [])"
| "case_body ((l, text) # ls) =
     (let t = trim_space text
      in if t = '';;'' then ([], ls)
         else if has_suffix t '';;'' then
           (let inner = trim_space (trim_suffix t '';;'')
            in (if inner \<noteq> [] then [parse_statement_line inner l] else [], ls))
         else if first_word t = ''esac'' then ([], (l, text) # ls)
         else (case case_body ls of (body, rest) \<Rightarrow> (parse_statement_line t l # body, rest)))"

definition case_arm :: "source_line \<Rightarrow> source_line list \<Rightarrow> (string list \<times> stmt list) \<times> source_line list" where
  "case_arm ln ls =
     (let h = trim_space (snd ln)
      in case index_of h '')'' of
           None \<Rightarrow> (([h], [S_unknown (fst ln) ''case arm without closing )'' h]), ls)
         | Some i \<Rightarrow>
             (let pats = map trim_space (split_byte CHR ''|'' (take i h)); body_rest = trim_space (drop (i + 1) h)
              in if has_suffix body_rest '';;'' then
                   (let inner = trim_space (trim_suffix body_rest '';;'')
                    in ((pats, if inner \<noteq> [] then [parse_statement_line inner (fst ln)] else []), ls))
                 else
                   (case case_body ls of (body, rest) \<Rightarrow>
                      ((pats, (if body_rest \<noteq> [] then [parse_statement_line body_rest (fst ln)] else []) @ body), rest))))"

lemma case_body_length: "length (snd (case_body ls)) \<le> length ls"
  by (induction ls rule: case_body.induct) (auto simp: Let_def split: prod.splits)

lemma case_arm_length [termination_simp]: "case_arm ln ls = (arm, rest) \<Longrightarrow> length rest \<le> length ls"
  using case_body_length [of ls] by (auto simp: case_arm_def Let_def split: option.splits if_splits prod.splits)

function case_arms :: "source_line list \<Rightarrow> (string list \<times> stmt list) list \<times> source_line list" where
  "case_arms [] = ([], [])"
| "case_arms (ln # ls) =
     (if first_word (trim_space (snd ln)) = ''esac'' then ([], skip_keyword_line ''esac'' (ln # ls))
      else (case case_arm ln ls of (arm, rest) \<Rightarrow> (case case_arms rest of (arms, rest') \<Rightarrow> (arm # arms, rest'))))"
  by pat_completeness auto
termination
  by (relation "measure length") (auto simp: less_Suc_eq_le dest!: case_arm_length [OF sym])

definition case_word :: "string \<Rightarrow> string" where
  "case_word text =
     (let rest = trim_space (trim_prefix (trim_space text) ''case'')
      in strip_quotes (case index_of rest '' in'' of None \<Rightarrow> rest | Some i \<Rightarrow> trim_space (take i rest)))"

section \<open>Blocks\<close>

type_synonym block_parser = "string list \<Rightarrow> source_line list \<Rightarrow> (stmt list \<times> source_line list) option"

definition set_last_body :: "(stmt \<times> stmt list) list \<Rightarrow> stmt list \<Rightarrow> (stmt \<times> stmt list) list" where
  "set_last_body brs body = butlast brs @ [(fst (last brs), body)]"

text \<open>The loop of \<open>parseIf\<close>: every round sets the body of the last branch.\<close>

primrec if_loop ::
  "nat \<Rightarrow> block_parser \<Rightarrow> (stmt \<times> stmt list) list \<Rightarrow> stmt list \<Rightarrow> source_line list \<Rightarrow>
     ((stmt \<times> stmt list) list \<times> stmt list \<times> source_line list) option" where
  "if_loop 0 pb brs els ls = None"
| "if_loop (Suc n) pb brs els ls =
     (if ls = [] then Some (brs, els, [])
      else case pb [''elif'', ''else'', ''fi''] (skip_keyword_line ''then'' ls) of
        None \<Rightarrow> None
      | Some (body, ls1) \<Rightarrow>
          (let brs1 = set_last_body brs body
           in case ls1 of
                [] \<Rightarrow> Some (brs1, els, [])
              | ln # rest \<Rightarrow>
                  (let h = first_word (trim_space (snd ln))
                   in if h = ''elif'' then if_loop n pb (brs1 @ [(header_test ln ''elif'' ''then'', [])]) els rest
                      else if h = ''else'' then
                        (case pb [''fi''] (skip_keyword_line ''else'' ls1) of
                           None \<Rightarrow> None
                         | Some (body', ls2) \<Rightarrow> if_loop n pb brs1 body' ls2)
                      else if h = ''fi'' then Some (brs1, els, skip_keyword_line ''fi'' ls1)
                      else Some (brs1, els, ls1))))"

definition parse_if :: "nat \<Rightarrow> block_parser \<Rightarrow> source_line \<Rightarrow> source_line list \<Rightarrow> (stmt \<times> source_line list) option" where
  "parse_if n pb ln ls =
     (case if_loop n pb [(header_test ln ''if'' ''then'', [])] [] ls of
        None \<Rightarrow> None
      | Some (brs, els, rest) \<Rightarrow> Some (S_cond (fst ln) brs els, rest))"

definition do_block :: "block_parser \<Rightarrow> source_line list \<Rightarrow> (stmt list \<times> source_line list) option" where
  "do_block pb ls =
     (case pb [''done''] (skip_keyword_line ''do'' ls) of
        None \<Rightarrow> None
      | Some (body, rest) \<Rightarrow> Some (body, skip_keyword_line ''done'' rest))"

definition parse_for :: "block_parser \<Rightarrow> source_line \<Rightarrow> source_line list \<Rightarrow> (stmt \<times> source_line list) option" where
  "parse_for pb ln ls =
     (case do_block pb ls of
        None \<Rightarrow> None
      | Some (body, rest) \<Rightarrow> (case for_header (snd ln) of (var, ws) \<Rightarrow> Some (S_for (fst ln) var ws body, rest)))"

definition parse_while :: "block_parser \<Rightarrow> source_line \<Rightarrow> source_line list \<Rightarrow> (stmt \<times> source_line list) option" where
  "parse_while pb ln ls =
     (case do_block pb ls of
        None \<Rightarrow> None
      | Some (body, rest) \<Rightarrow> Some (S_while (fst ln) (header_test ln ''while'' ''do'') body, rest))"

definition brace_block :: "block_parser \<Rightarrow> source_line list \<Rightarrow> (stmt list \<times> source_line list) option" where
  "brace_block pb ls =
     (case pb [''}''] (skip_brace ''{'' ls) of None \<Rightarrow> None | Some (body, rest) \<Rightarrow> Some (body, skip_brace ''}'' rest))"

definition parse_function_keyword :: "block_parser \<Rightarrow> source_line \<Rightarrow> source_line list \<Rightarrow> (stmt \<times> source_line list) option" where
  "parse_function_keyword pb ln ls =
     (let rest0 = trim_space (trim_prefix (trim_space (snd ln)) ''function'');
          name = (if contains_any rest0 ''({ '' then trim_space (takeWhile (\<lambda>c. \<not> List.member ''({ '' c) rest0) else rest0)
      in case brace_block pb ls of None \<Rightarrow> None | Some (body, rest) \<Rightarrow> Some (S_func (fst ln) name body, rest))"

definition parse_function_parens :: "block_parser \<Rightarrow> source_line \<Rightarrow> source_line list \<Rightarrow> (stmt \<times> source_line list) option" where
  "parse_function_parens pb ln ls =
     (case brace_block pb ls of
        None \<Rightarrow> None
      | Some (body, rest) \<Rightarrow>
          Some (S_func (fst ln) (trim_space (takeWhile (\<lambda>c. c \<noteq> CHR ''('') (trim_space (snd ln)))) body, rest))"

definition parse_case :: "source_line \<Rightarrow> source_line list \<Rightarrow> stmt \<times> source_line list" where
  "parse_case ln ls = (case case_arms ls of (arms, rest) \<Rightarrow> (S_case (fst ln) (case_word (snd ln)) arms, rest))"

text \<open>One statement of \<open>parseBlock\<close>, from a line that is neither blank nor a comment nor a terminator.\<close>

definition block_statement :: "nat \<Rightarrow> block_parser \<Rightarrow> source_line \<Rightarrow> source_line list \<Rightarrow> (stmt \<times> source_line list) option" where
  "block_statement n pb ln ls =
     (let t = trim_space (snd ln); w = first_word t
      in if w = ''if'' then parse_if n pb ln ls
         else if w = ''for'' then parse_for pb ln ls
         else if w = ''while'' then parse_while pb ln ls
         else if w = ''case'' then Some (parse_case ln ls)
         else if w = ''function'' then parse_function_keyword pb ln ls
         else if is_function_def_header t then parse_function_parens pb ln ls
         else (case classify_unsupported t of
                 Some reason \<Rightarrow> Some (S_unknown (fst ln) reason t, ls)
               | None \<Rightarrow> Some (parse_statement_line t (fst ln), ls)))"

primrec parse_block :: "nat \<Rightarrow> block_parser" where
  "parse_block 0 terms ls = None"
| "parse_block (Suc n) terms ls =
     (case ls of
        [] \<Rightarrow> Some ([], [])
      | ln # rest \<Rightarrow>
          (let t = trim_space (snd ln)
           in if t = [] then parse_block n terms rest
              else if has_prefix t ''#'' then
                map_option (\<lambda>(ss, r). (S_comment (fst ln) t # ss, r)) (parse_block n terms rest)
              else if List.member terms (first_word t) then Some ([], ls)
              else (case block_statement n (parse_block n) ln rest of
                      None \<Rightarrow> None
                    | Some (s, rest') \<Rightarrow> map_option (\<lambda>(ss, r). (s # ss, r)) (parse_block n terms rest'))))"

text \<open>The bytes and lines that are left.\<close>

definition source_size :: "source_line list \<Rightarrow> nat" where
  "source_size ls = sum_list (map (\<lambda>ln. Suc (length (snd ln))) ls)"

definition read_bash :: "string \<Rightarrow> script option" where
  "read_bash src =
     (let ls = lex_lines src
      in case parse_block (Suc (source_size ls)) [] ls of
           None \<Rightarrow> None
         | Some (stmts, _) \<Rightarrow> Some \<lparr>sp_dialect = D_bash, sp_statements = stmts\<rparr>)"
section \<open>The fuel suffices\<close>

lemma length_trim_left: "length (trim_left s) \<le> length s"
proof (induction s rule: trim_left.induct)
  case (2 c cs)
  obtain r n where rn: "decode_rune (c # cs) = (r, n)" by fastforce
  have "length (trim_left (drop (n - 1) cs)) \<le> length (drop (n - 1) cs)" if "is_space r" using 2 rn that by simp
  then show ?case using rn by fastforce
qed simp

lemma length_trim_right: "length (trim_right s) \<le> length s"
proof (induction s rule: trim_right.induct)
  case (1 s)
  obtain r n where rn: "decode_last s = (r, n)" by fastforce
  show ?case
  proof (cases "s \<noteq> [] \<and> is_space r \<and> 0 < n")
    case True
    then have "trim_right s = trim_right (take (length s - n) s)" using rn by (subst trim_right.simps) simp
    moreover have "length (trim_right (take (length s - n) s)) \<le> length (take (length s - n) s)"
      using 1 True rn by (metis prod.inject)
    ultimately show ?thesis by simp
  next
    case False
    then show ?thesis using rn by (subst trim_right.simps) auto
  qed
qed

lemma length_trim_space: "length (trim_space s) \<le> length s"
  unfolding trim_space_def using length_trim_left [of s] length_trim_right [of "trim_left s"] by linarith

lemma source_size_simps [simp]: "source_size [] = 0" "source_size (ln # ls) = Suc (length (snd ln)) + source_size ls"
  by (simp_all add: source_size_def)

lemma skip_keyword_size:
  "source_size (skip_keyword_line kw ls) \<le> source_size ls"
  "ls \<noteq> [] \<Longrightarrow> first_word (trim_space (snd (hd ls))) = kw \<Longrightarrow> kw \<noteq> [] \<Longrightarrow> source_size (skip_keyword_line kw ls) < source_size ls"
proof -
  have le: "length (trim_space (trim_prefix (trim_space t) kw)) \<le> length t - (if has_prefix (trim_space t) kw then length kw else 0)" for t
    using length_trim_space [of "trim_prefix (trim_space t) kw"] length_trim_space [of t]
    by (auto simp: trim_prefix_def)
  have le': "length (trim_space (trim_prefix (trim_space t) kw)) \<le> length t" for t using le [of t] by linarith
  show "source_size (skip_keyword_line kw ls) \<le> source_size ls"
    using le' by (auto simp: skip_keyword_line_def Let_def split: list.splits)
  assume a: "ls \<noteq> []" "first_word (trim_space (snd (hd ls))) = kw" "kw \<noteq> []"
  obtain l tx rest where ls: "ls = (l, tx) # rest" using a(1) by (cases ls) auto
  let ?t = "trim_space tx"
  have w: "takeWhile (\<lambda>c. c \<noteq> CHR '' '' \<and> c \<noteq> CHR 0x09) ?t = kw" using a(2) ls by (simp add: first_word_def)
  have "?t = kw \<or> has_prefix ?t (kw @ '' '') \<or> has_prefix ?t (kw @ [CHR 0x09])"
  proof (cases "dropWhile (\<lambda>c. c \<noteq> CHR '' '' \<and> c \<noteq> CHR 0x09) ?t")
    case Nil
    then show ?thesis using w by (metis append_Nil2 takeWhile_dropWhile_id)
  next
    case (Cons c cs)
    then have "c = CHR '' '' \<or> c = CHR 0x09" using dropWhile_Cons_hd by fastforce
    moreover have "?t = (kw @ [c]) @ cs" using w Cons by (metis append.assoc append_Cons append_Nil takeWhile_dropWhile_id)
    ultimately show ?thesis by (metis prefixI)
  qed
  moreover have "length (trim_space (trim_prefix ?t kw)) < length tx" if "has_prefix ?t (kw @ x)" "x \<noteq> []" for x
  proof -
    have "has_prefix ?t kw" using that(1) by (rule append_prefixD)
    moreover have "length kw \<le> length tx" using that(1) length_trim_space [of tx] by (auto dest: prefix_length_le)
    ultimately show ?thesis using le [of tx] a(3) by (cases kw) auto
  qed
  ultimately show "source_size (skip_keyword_line kw ls) < source_size ls"
    unfolding skip_keyword_line_def ls by (auto simp: Let_def)
qed

lemma skip_brace_size: "source_size (skip_brace b ls) \<le> source_size ls"
  by (auto simp: skip_brace_def split: list.splits)

lemma case_body_size: "source_size (snd (case_body ls)) \<le> source_size ls"
  by (induction ls rule: case_body.induct) (auto simp: Let_def split: prod.splits)

lemma case_arm_size: "source_size (snd (case_arm ln ls)) \<le> source_size ls"
  using case_body_size [of ls] by (auto simp: case_arm_def Let_def split: option.splits prod.splits)

lemma case_arms_size: "source_size (snd (case_arms ls)) \<le> source_size ls"
proof (induction ls rule: case_arms.induct)
  case (2 ln ls)
  obtain pats body rest where a: "case_arm ln ls = ((pats, body), rest)" by (metis prod.collapse)
  obtain arms r where r: "case_arms rest = (arms, r)" by fastforce
  have "source_size rest \<le> source_size ls" using case_arm_size [of ln ls] a by simp
  then show ?case using 2 a r skip_keyword_size(1) [of "''esac''" "ln # ls"] by (auto simp: Let_def)
qed simp

text \<open>A block parser that answers on all inputs up to a size, with no more left than it was given.\<close>

definition answers :: "nat \<Rightarrow> block_parser \<Rightarrow> bool" where
  "answers n pb \<longleftrightarrow> (\<forall>terms ls. source_size ls < n \<longrightarrow> (\<exists>ss r. pb terms ls = Some (ss, r) \<and> source_size r \<le> source_size ls))"

lemma if_loop_answers:
  "answers n pb \<Longrightarrow> source_size ls < n \<Longrightarrow> source_size ls < k \<Longrightarrow>
     \<exists>brs' els' r. if_loop k pb brs els ls = Some (brs', els', r) \<and> source_size r \<le> source_size ls"
proof (induction k arbitrary: brs els ls)
  case (Suc k)
  show ?case
  proof (cases "ls = []")
    case False
    let ?s = "skip_keyword_line ''then'' ls"
    have s: "source_size ?s \<le> source_size ls" by (rule skip_keyword_size(1))
    obtain body ls1 where b: "pb [''elif'', ''else'', ''fi''] ?s = Some (body, ls1)" "source_size ls1 \<le> source_size ?s"
      using Suc.prems(1,2) s unfolding answers_def by (meson le_less_trans)
    show ?thesis
    proof (cases ls1)
      case (Cons ln rest)
      consider (elif) "first_word (trim_space (snd ln)) = ''elif''" | (els) "first_word (trim_space (snd ln)) = ''else''"
        | (other) "first_word (trim_space (snd ln)) \<notin> {''elif'', ''else''}" by blast
      then show ?thesis
      proof cases
        case elif
        have "source_size rest < source_size ls" using s b(2) Cons by simp
        then show ?thesis using Suc.IH [OF Suc.prems(1), of rest "set_last_body brs body @ [(header_test ln ''elif'' ''then'', [])]" els]
            Suc.prems b(1) Cons elif False by (fastforce simp: Let_def)
      next
        case els
        let ?e = "skip_keyword_line ''else'' ls1"
        have e: "source_size ?e < source_size ls1" using skip_keyword_size(2) [of ls1 "''else''"] els Cons by simp
        then obtain body' ls2 where b': "pb [''fi''] ?e = Some (body', ls2)" "source_size ls2 \<le> source_size ?e"
          using Suc.prems(1,2) s b(2) unfolding answers_def by (meson le_less_trans less_imp_le)
        have "source_size ls2 < source_size ls" using e b'(2) b(2) s by linarith
        then show ?thesis using Suc.IH [OF Suc.prems(1), of ls2 "set_last_body brs body" body'] Suc.prems b(1) b'(1) Cons els False
          by (fastforce simp: Let_def)
      next
        case other
        then show ?thesis using b s Cons False skip_keyword_size(1) [of "''fi''" ls1]
          by (auto simp: Let_def intro: le_trans)
      qed
    qed (use b False in auto)
  qed simp
qed simp

lemma block_statement_answers:
  assumes "answers n pb" "source_size ls < n"
  shows "\<exists>s r. block_statement n pb ln ls = Some (s, r) \<and> source_size r \<le> source_size ls"
proof -
  have pb: "\<exists>ss r. pb terms ls' = Some (ss, r) \<and> source_size r \<le> source_size ls" if "source_size ls' \<le> source_size ls" for terms ls'
    using assms that unfolding answers_def by (meson le_less_trans le_trans)
  have "\<exists>s r. parse_if n pb ln ls = Some (s, r) \<and> source_size r \<le> source_size ls"
  proof -
    obtain brs els r where "if_loop n pb [(header_test ln ''if'' ''then'', [])] [] ls = Some (brs, els, r)" "source_size r \<le> source_size ls"
      using if_loop_answers [OF assms assms(2)] by metis
    then show ?thesis by (simp add: parse_if_def)
  qed
  moreover have d: "\<exists>ss r. do_block pb ls = Some (ss, r) \<and> source_size r \<le> source_size ls"
  proof -
    obtain ss r where r: "pb [''done''] (skip_keyword_line ''do'' ls) = Some (ss, r)" "source_size r \<le> source_size ls"
      using pb [OF skip_keyword_size(1)] by blast
    then show ?thesis using le_trans [OF skip_keyword_size(1) r(2)] by (simp add: do_block_def)
  qed
  then have "\<exists>s r. parse_for pb ln ls = Some (s, r) \<and> source_size r \<le> source_size ls"
    "\<exists>s r. parse_while pb ln ls = Some (s, r) \<and> source_size r \<le> source_size ls"
    by (auto simp: parse_for_def parse_while_def split: prod.split)
  moreover have "\<exists>ss r. brace_block pb ls = Some (ss, r) \<and> source_size r \<le> source_size ls"
  proof -
    obtain ss r where r: "pb [''}''] (skip_brace ''{'' ls) = Some (ss, r)" "source_size r \<le> source_size ls"
      using pb [OF skip_brace_size] by blast
    then show ?thesis using le_trans [OF skip_brace_size r(2)] by (simp add: brace_block_def)
  qed
  then have "\<exists>s r. parse_function_keyword pb ln ls = Some (s, r) \<and> source_size r \<le> source_size ls"
    "\<exists>s r. parse_function_parens pb ln ls = Some (s, r) \<and> source_size r \<le> source_size ls"
    by (auto simp: parse_function_keyword_def parse_function_parens_def Let_def)
  moreover have "source_size (snd (parse_case ln ls)) \<le> source_size ls"
    using case_arms_size [of ls] by (auto simp: parse_case_def split: prod.split)
  ultimately show ?thesis unfolding block_statement_def Let_def
    by (simp split: option.split) (metis prod.collapse)
qed

lemma parse_block_answers: "answers n (parse_block n)"
proof (induction n)
  case (Suc n)
  show ?case unfolding answers_def
  proof (intro allI impI)
    fix terms ls
    assume size: "source_size ls < Suc n"
    show "\<exists>ss r. parse_block (Suc n) terms ls = Some (ss, r) \<and> source_size r \<le> source_size ls"
    proof (cases ls)
      case (Cons ln rest)
      have rest: "source_size rest < n" using size Cons by simp
      have IH: "\<exists>ss r. parse_block n terms r' = Some (ss, r) \<and> source_size r \<le> source_size rest"
        if "source_size r' \<le> source_size rest" for r'
        using Suc that rest unfolding answers_def by (meson le_less_trans le_trans)
      obtain s r' where s: "block_statement n (parse_block n) ln rest = Some (s, r')" "source_size r' \<le> source_size rest"
        using block_statement_answers [OF Suc rest] by blast
      show ?thesis using IH [OF order_refl] IH [OF s(2)] s(1) Cons by (auto simp: Let_def intro: le_SucI trans_le_add2)
    qed simp
  qed
qed (simp add: answers_def)

text \<open>
  The reader of bash scripts returns on every input: the fuel it is given is enough.
\<close>

lemma read_bash_total: "\<exists>stmts. read_bash src = Some \<lparr>sp_dialect = D_bash, sp_statements = stmts\<rparr>"
proof -
  have "\<exists>ss r. parse_block (Suc (source_size (lex_lines src))) [] (lex_lines src) = Some (ss, r)"
    using parse_block_answers [of "Suc (source_size (lex_lines src))"] unfolding answers_def by blast
  then show ?thesis by (auto simp: read_bash_def Let_def simp del: parse_block.simps)
qed

end
