(* ===== verification/Fish_Reader.thy ===== *)
theory Fish_Reader
  imports Bash_Reader
begin

text \<open>
  The readers of fish and zsh scripts, \<^verbatim>\<open>shell/internal/translate/reader/fish.go\<close> and
  \<^verbatim>\<open>zsh.go\<close>. They share the lines, the tokens and the single-line statements of the bash reader.
\<close>

section \<open>Single lines\<close>

text \<open>The flags of \<open>set\<close>: whether it exports, and the words after them; \<open>None\<close> for an erase or a query.\<close>

fun fish_flags :: "bool \<Rightarrow> string list \<Rightarrow> (bool \<times> string list) option" where
  "fish_flags x [] = Some (x, [])"
| "fish_flags x (p # ps) =
     (if \<not> has_prefix p ''-'' then Some (x, p # ps)
      else if str_contains p ''e'' \<or> str_contains p ''q'' then None
      else fish_flags (x \<or> str_contains p ''x'') ps)"

definition parse_fish_set :: "string \<Rightarrow> nat \<Rightarrow> stmt" where
  "parse_fish_set line l =
     (case fish_flags False (split_words (trim_space (trim_prefix line ''set''))) of
        None \<Rightarrow> S_unknown l ''fish `set -e` / `set -q` unsupported'' line
      | Some (x, []) \<Rightarrow> S_unknown l ''fish `set` without variable name'' line
      | Some (x, name # vs) \<Rightarrow> S_assign l name (str_join '' '' vs) x)"

definition classify_fish_unsupported :: "string \<Rightarrow> string option" where
  "classify_fish_unsupported line =
     (if has_prefix line ''begin'' then Some ''fish `begin` block unsupported''
      else if has_prefix line ''string '' then Some ''fish `string` builtin unsupported (MVP)''
      else classify_unsupported line)"

section \<open>Blocks\<close>

text \<open>What follows the keyword of a header.\<close>

definition fish_header :: "string \<Rightarrow> source_line \<Rightarrow> string" where
  "fish_header kw ln = trim_space (trim_prefix (trim_space (snd ln)) kw)"

definition skip_end :: "source_line list \<Rightarrow> source_line list" where
  "skip_end ls = (case ls of [] \<Rightarrow> [] | ln # rest \<Rightarrow> if first_word (trim_space (snd ln)) = ''end'' then rest else ls)"

text \<open>The loop of \<open>parseFishIf\<close>; it has the shape of the bash reader's, with \<open>else if\<close>.\<close>

primrec fish_if_loop ::
  "nat \<Rightarrow> block_parser \<Rightarrow> (stmt \<times> stmt list) list \<Rightarrow> stmt list \<Rightarrow> source_line list \<Rightarrow>
     ((stmt \<times> stmt list) list \<times> stmt list \<times> source_line list) option" where
  "fish_if_loop 0 pb brs els ls = None"
| "fish_if_loop (Suc n) pb brs els ls =
     (if ls = [] then Some (brs, els, [])
      else case pb [''else'', ''end''] ls of
        None \<Rightarrow> None
      | Some (body, ls1) \<Rightarrow>
          (let brs1 = set_last_body brs body
           in case ls1 of
                [] \<Rightarrow> Some (brs1, els, [])
              | ln # rest \<Rightarrow>
                  (let h = first_word (trim_space (snd ln)); t = fish_header ''else'' ln
                   in if h = ''else'' then
                        (if has_prefix t ''if''
                         then fish_if_loop n pb (brs1 @ [(parse_statement_line (trim_space (trim_prefix t ''if'')) (fst ln), [])]) els rest
                         else (case pb [''end''] rest of
                                 None \<Rightarrow> None
                               | Some (body', ls2) \<Rightarrow> fish_if_loop n pb brs1 body' ls2))
                      else if h = ''end'' then Some (brs1, els, rest)
                      else Some (brs1, els, ls1))))"

definition parse_fish_if :: "nat \<Rightarrow> block_parser \<Rightarrow> source_line \<Rightarrow> source_line list \<Rightarrow> (stmt \<times> source_line list) option" where
  "parse_fish_if n pb ln ls =
     (case fish_if_loop n pb [(parse_statement_line (fish_header ''if'' ln) (fst ln), [])] [] ls of
        None \<Rightarrow> None
      | Some (brs, els, rest) \<Rightarrow> Some (S_cond (fst ln) brs els, rest))"

definition end_block :: "block_parser \<Rightarrow> source_line list \<Rightarrow> (stmt list \<times> source_line list) option" where
  "end_block pb ls = (case pb [''end''] ls of None \<Rightarrow> None | Some (body, rest) \<Rightarrow> Some (body, skip_end rest))"

definition parse_fish_for :: "block_parser \<Rightarrow> source_line \<Rightarrow> source_line list \<Rightarrow> (stmt \<times> source_line list) option" where
  "parse_fish_for pb ln ls =
     (let h = fish_header ''for'' ln;
          (var, ws) = (case index_of h '' in '' of
                         None \<Rightarrow> (h, [])
                       | Some i \<Rightarrow> (trim_space (take i h), split_words (trim_space (drop (i + 4) h))))
      in case end_block pb ls of None \<Rightarrow> None | Some (body, rest) \<Rightarrow> Some (S_for (fst ln) var ws body, rest))"

definition parse_fish_while :: "block_parser \<Rightarrow> source_line \<Rightarrow> source_line list \<Rightarrow> (stmt \<times> source_line list) option" where
  "parse_fish_while pb ln ls =
     (case end_block pb ls of
        None \<Rightarrow> None
      | Some (body, rest) \<Rightarrow> Some (S_while (fst ln) (parse_statement_line (fish_header ''while'' ln) (fst ln)) body, rest))"

definition parse_fish_function :: "block_parser \<Rightarrow> source_line \<Rightarrow> source_line list \<Rightarrow> (stmt \<times> source_line list) option" where
  "parse_fish_function pb ln ls =
     (let h = fish_header ''function'' ln;
          name = (if contains_any h [CHR '' '', CHR 0x09] then trim_space (first_word h) else h)
      in case end_block pb ls of None \<Rightarrow> None | Some (body, rest) \<Rightarrow> Some (S_func (fst ln) name body, rest))"

primrec fish_arms ::
  "nat \<Rightarrow> block_parser \<Rightarrow> source_line list \<Rightarrow> ((string list \<times> stmt list) list \<times> source_line list) option" where
  "fish_arms 0 pb ls = None"
| "fish_arms (Suc n) pb ls =
     (case ls of
        [] \<Rightarrow> Some ([], [])
      | ln # rest \<Rightarrow>
          (let h = first_word (trim_space (snd ln))
           in if h = ''end'' then Some ([], rest)
              else if h = ''case'' then
                (case pb [''case'', ''end''] rest of
                   None \<Rightarrow> None
                 | Some (body, ls1) \<Rightarrow>
                     map_option (\<lambda>(arms, r). ((split_words (fish_header ''case'' ln), body) # arms, r)) (fish_arms n pb ls1))
              else fish_arms n pb rest))"

definition parse_fish_switch :: "nat \<Rightarrow> block_parser \<Rightarrow> source_line \<Rightarrow> source_line list \<Rightarrow> (stmt \<times> source_line list) option" where
  "parse_fish_switch n pb ln ls =
     (case fish_arms n pb ls of
        None \<Rightarrow> None
      | Some (arms, rest) \<Rightarrow> Some (S_case (fst ln) (strip_quotes (fish_header ''switch'' ln)) arms, rest))"

definition fish_statement :: "nat \<Rightarrow> block_parser \<Rightarrow> source_line \<Rightarrow> source_line list \<Rightarrow> (stmt \<times> source_line list) option" where
  "fish_statement n pb ln ls =
     (let t = trim_space (snd ln); w = first_word t
      in if w = ''if'' then parse_fish_if n pb ln ls
         else if w = ''for'' then parse_fish_for pb ln ls
         else if w = ''while'' then parse_fish_while pb ln ls
         else if w = ''function'' then parse_fish_function pb ln ls
         else if w = ''switch'' then parse_fish_switch n pb ln ls
         else if w = ''set'' then Some (parse_fish_set t (fst ln), ls)
         else (case classify_fish_unsupported t of
                 Some reason \<Rightarrow> Some (S_unknown (fst ln) reason t, ls)
               | None \<Rightarrow> Some (parse_statement_line t (fst ln), ls)))"

primrec parse_fish_block :: "nat \<Rightarrow> block_parser" where
  "parse_fish_block 0 terms ls = None"
| "parse_fish_block (Suc n) terms ls =
     (case ls of
        [] \<Rightarrow> Some ([], [])
      | ln # rest \<Rightarrow>
          (let t = trim_space (snd ln)
           in if t = [] then parse_fish_block n terms rest
              else if has_prefix t ''#'' then
                map_option (\<lambda>(ss, r). (S_comment (fst ln) t # ss, r)) (parse_fish_block n terms rest)
              else if List.member terms (first_word t) then Some ([], ls)
              else (case fish_statement n (parse_fish_block n) ln rest of
                      None \<Rightarrow> None
                    | Some (s, rest') \<Rightarrow> map_option (\<lambda>(ss, r). (s # ss, r)) (parse_fish_block n terms rest'))))"

text \<open>A block of fish never rewrites a line, so the number of lines is enough fuel.\<close>

definition read_fish :: "string \<Rightarrow> script option" where
  "read_fish src =
     (let ls = lex_lines src
      in case parse_fish_block (Suc (length ls)) [] ls of
           None \<Rightarrow> None
         | Some (stmts, _) \<Rightarrow> Some \<lparr>sp_dialect = D_fish, sp_statements = stmts\<rparr>)"

section \<open>Zsh\<close>

definition has_zsh_proc_sub :: "script_command \<Rightarrow> bool" where
  "has_zsh_proc_sub c \<longleftrightarrow> list_ex (\<lambda>a. str_contains a ''=('') (sc_args c)"

definition zsh_statement :: "stmt \<Rightarrow> stmt" where
  "zsh_statement s =
     (case s of
        S_command c \<Rightarrow>
          if has_zsh_proc_sub c
          then S_unknown (sc_line c) ''zsh process substitution =( ) unsupported'' (str_join '' '' (sc_name c # sc_args c))
          else s
      | _ \<Rightarrow> s)"

definition read_zsh :: "string \<Rightarrow> script option" where
  "read_zsh src =
     map_option (\<lambda>sp. sp\<lparr>sp_dialect := D_zsh, sp_statements := map zsh_statement (sp_statements sp)\<rparr>) (read_bash src)"

section \<open>The fuel suffices\<close>

definition fish_answers :: "nat \<Rightarrow> block_parser \<Rightarrow> bool" where
  "fish_answers n pb \<longleftrightarrow> (\<forall>terms ls. length ls < n \<longrightarrow> (\<exists>ss r. pb terms ls = Some (ss, r) \<and> length r \<le> length ls))"

lemma fish_answersE:
  assumes "fish_answers n pb" "length ls < n"
  obtains ss r where "pb terms ls = Some (ss, r)" "length r \<le> length ls"
  using assms unfolding fish_answers_def by meson

lemma fish_if_loop_answers:
  "fish_answers n pb \<Longrightarrow> length ls < n \<Longrightarrow> length ls < k \<Longrightarrow>
     \<exists>brs' els' r. fish_if_loop k pb brs els ls = Some (brs', els', r) \<and> length r \<le> length ls"
proof (induction k arbitrary: brs els ls)
  case (Suc k)
  show ?case
  proof (cases "ls = []")
    case False
    obtain body ls1 where b: "pb [''else'', ''end''] ls = Some (body, ls1)" "length ls1 \<le> length ls"
      using Suc.prems(1,2) by (rule fish_answersE)
    show ?thesis
    proof (cases ls1)
      case (Cons ln rest)
      have rest: "length rest < length ls" using b(2) Cons by simp
      obtain body' ls2 where b': "pb [''end''] rest = Some (body', ls2)" "length ls2 \<le> length rest"
        using Suc.prems(1) order_less_trans [OF rest Suc.prems(2)] by (rule fish_answersE)
      have IH: "\<exists>brs'' els'' r. fish_if_loop k pb brs' els' ls' = Some (brs'', els'', r) \<and> length r \<le> length ls"
        if "length ls' \<le> length rest" for brs' els' ls'
        using Suc.IH [OF Suc.prems(1), of ls' brs' els'] Suc.prems(2,3) rest that by fastforce
      show ?thesis
        using b b' Cons False IH [OF order_refl] IH [OF b'(2)] rest by (auto simp: Let_def)
    qed (use b False in auto)
  qed simp
qed simp

lemma fish_arms_answers:
  "fish_answers n pb \<Longrightarrow> length ls < n \<Longrightarrow> length ls < k \<Longrightarrow>
     \<exists>arms r. fish_arms k pb ls = Some (arms, r) \<and> length r \<le> length ls"
proof (induction k arbitrary: ls)
  case (Suc k)
  show ?case
  proof (cases ls)
    case (Cons ln rest)
    obtain body ls1 where b: "pb [''case'', ''end''] rest = Some (body, ls1)" "length ls1 \<le> length rest"
      using fish_answersE [OF Suc.prems(1), of rest] Suc.prems(2) Cons by auto
    have IH: "\<exists>arms r. fish_arms k pb ls' = Some (arms, r) \<and> length r \<le> length rest" if "length ls' \<le> length rest" for ls'
      using Suc.IH [OF Suc.prems(1), of ls'] Suc.prems(2,3) Cons that by fastforce
    show ?thesis using b Cons IH [OF order_refl] IH [OF b(2)] by (auto simp: Let_def)
  qed simp
qed simp

lemma fish_statement_answers:
  assumes "fish_answers n pb" "length ls < n"
  shows "\<exists>s r. fish_statement n pb ln ls = Some (s, r) \<and> length r \<le> length ls"
proof -
  obtain body r where b: "pb [''end''] ls = Some (body, r)" "length r \<le> length ls" using assms by (rule fish_answersE)
  have e: "end_block pb ls = Some (body, skip_end r)" "length (skip_end r) \<le> length ls"
    using b by (auto simp: end_block_def skip_end_def split: list.splits)
  obtain brs els r1 where i: "fish_if_loop n pb [(parse_statement_line (fish_header ''if'' ln) (fst ln), [])] [] ls = Some (brs, els, r1)"
    "length r1 \<le> length ls" using fish_if_loop_answers [OF assms assms(2)] by metis
  obtain arms r2 where s: "fish_arms n pb ls = Some (arms, r2)" "length r2 \<le> length ls"
    using fish_arms_answers [OF assms assms(2)] by metis
  show ?thesis
    using e i s
    by (auto simp: fish_statement_def Let_def parse_fish_if_def parse_fish_for_def parse_fish_while_def parse_fish_function_def
        parse_fish_switch_def split: option.split prod.split)
qed

lemma parse_fish_block_answers: "fish_answers n (parse_fish_block n)"
proof (induction n)
  case (Suc n)
  show ?case unfolding fish_answers_def
  proof (intro allI impI)
    fix terms and ls :: "source_line list"
    assume size: "length ls < Suc n"
    show "\<exists>ss r. parse_fish_block (Suc n) terms ls = Some (ss, r) \<and> length r \<le> length ls"
    proof (cases ls)
      case (Cons ln rest)
      have rest: "length rest < n" using size Cons by simp
      have IH: "\<exists>ss r. parse_fish_block n terms r' = Some (ss, r) \<and> length r \<le> length rest" if "length r' \<le> length rest" for r'
        using Suc that rest unfolding fish_answers_def by (meson le_less_trans le_trans)
      obtain s r' where s: "fish_statement n (parse_fish_block n) ln rest = Some (s, r')" "length r' \<le> length rest"
        using fish_statement_answers [OF Suc rest] by blast
      show ?thesis using IH [OF order_refl] IH [OF s(2)] s(1) Cons by (auto simp: Let_def intro: le_SucI)
    qed simp
  qed
qed (simp add: fish_answers_def)

lemma read_fish_returns: "\<exists>stmts. read_fish src = Some \<lparr>sp_dialect = D_fish, sp_statements = stmts\<rparr>"
proof -
  have "\<exists>ss r. parse_fish_block (Suc (length (lex_lines src))) [] (lex_lines src) = Some (ss, r)"
    using parse_fish_block_answers [of "Suc (length (lex_lines src))"] unfolding fish_answers_def by blast
  then show ?thesis by (auto simp: read_fish_def Let_def simp del: parse_fish_block.simps)
qed

lemma read_zsh_returns: "\<exists>stmts. read_zsh src = Some \<lparr>sp_dialect = D_zsh, sp_statements = stmts\<rparr>"
  using read_bash_total [of src] by (auto simp: read_zsh_def)

end
