(* ===== verification/Windows_Readers.thy ===== *)
theory Windows_Readers
  imports Bash_Reader
begin

text \<open>
  The readers of batch files and PowerShell scripts, \<^verbatim>\<open>shell/internal/translate/reader/cmd.go\<close>
  and \<^verbatim>\<open>powershell.go\<close>. Batch files are read line by line. The PowerShell reader works on index
  ranges of the lines; a block within a block is a smaller range, so the number of lines is enough fuel.
\<close>

section \<open>Parentheses and pipes\<close>

text \<open>\<open>cmdMatchParen\<close> and \<open>psMatchParen\<close>, and the two functions that split at bars, are the same code.\<close>

fun match_paren_from :: "nat \<Rightarrow> nat \<Rightarrow> string \<Rightarrow> nat option" where
  "match_paren_from d i [] = None"
| "match_paren_from d i (c # cs) =
     (if c = CHR ''('' then match_paren_from (Suc d) (Suc i) cs
      else if c = CHR '')'' then (if d \<le> 1 then Some i else match_paren_from (d - 1) (Suc i) cs)
      else match_paren_from d (Suc i) cs)"

definition match_paren :: "string \<Rightarrow> nat \<Rightarrow> nat option" where
  "match_paren s i = (if i < length s \<and> s ! i = CHR ''('' then match_paren_from 0 i (drop i s) else None)"

fun split_on_bar :: "string list \<Rightarrow> string list \<Rightarrow> string list list" where
  "split_on_bar cur [] = (if cur \<noteq> [] then [cur] else [])"
| "split_on_bar cur (t # ts) =
     (if t = ''|'' then (if cur \<noteq> [] then cur # split_on_bar [] ts else split_on_bar cur ts)
      else split_on_bar (cur @ [t]) ts)"

definition words_command :: "nat \<Rightarrow> string list \<Rightarrow> script_command" where
  "words_command l ws = \<lparr>sc_line = l, sc_name = hd ws, sc_args = tl ws, sc_redirects = []\<rparr>"

definition flush_plain :: "string option \<Rightarrow> string list" where
  "flush_plain w = (case w of None \<Rightarrow> [] | Some s \<Rightarrow> [s])"

definition then_words :: "string list \<Rightarrow> string + string list \<Rightarrow> string + string list" where
  "then_words ts r = (case r of Inl e \<Rightarrow> Inl e | Inr us \<Rightarrow> Inr (ts @ us))"

section \<open>Batch files\<close>

fun until_quote :: "rune list \<Rightarrow> (rune list \<times> rune list) option" where
  "until_quote [] = None"
| "until_quote (r # rs) =
     (if r = 34 then Some ([], rs) else (case until_quote rs of None \<Rightarrow> None | Some (a, b) \<Rightarrow> Some (r # a, b)))"

lemma until_quote_length [termination_simp]: "until_quote rs = Some (a, b) \<Longrightarrow> length b < length rs"
  by (induction rs arbitrary: a) (auto split: if_splits option.splits)

function cmd_tokens :: "string option \<Rightarrow> rune list \<Rightarrow> string + string list" where
  "cmd_tokens w [] = Inr (flush_plain w)"
| "cmd_tokens w (r # rs) =
     (if r = 34 then
        (case until_quote rs of
           None \<Rightarrow> Inl ''unterminated double quote''
         | Some (inner, rest) \<Rightarrow> cmd_tokens (add_to_word w (string_of_runes inner)) rest)
      else if r = 124 then then_words (flush_plain w @ [''|'']) (cmd_tokens None rs)
      else if r = 32 \<or> r = 9 then then_words (flush_plain w) (cmd_tokens None rs)
      else cmd_tokens (add_to_word w (encode_rune r)) rs)"
  by pat_completeness auto
termination
  by (relation "measure (\<lambda>(_, rs). length rs)") (auto dest!: until_quote_length)

definition cmd_statement_line :: "string \<Rightarrow> nat \<Rightarrow> stmt" where
  "cmd_statement_line line l =
     (case cmd_tokens None (runes_of line) of
        Inl e \<Rightarrow> S_unknown l e line
      | Inr ts \<Rightarrow>
          if ts = [] then S_unknown l ''empty statement'' line
          else if 1 < length (split_on_bar [] ts) then S_pipe l (map (words_command l) (split_on_bar [] ts))
          else S_command (words_command l ts))"

definition cmd_split_assignment :: "string \<Rightarrow> (string \<times> string) option" where
  "cmd_split_assignment rest =
     (case index_of rest ''='' of
        None \<Rightarrow> None
      | Some i \<Rightarrow>
          if i = 0 \<or> trim_space (take i rest) = [] then None
          else Some (trim_space (take i rest), strip_quotes (trim_space (drop (i + 1) rest))))"

definition cmd_else :: "string \<Rightarrow> nat \<Rightarrow> stmt list" where
  "cmd_else tail l =
     (if has_prefix (lower_case tail) ''else''
      then (let t = trim_space (drop 4 tail)
            in case (if has_prefix t ''('' then match_paren t 0 else None) of
                 None \<Rightarrow> []
               | Some e \<Rightarrow>
                   (let body = trim_space (take (e - 1) (drop 1 t)) in if body \<noteq> [] then [cmd_statement_line body l] else []))
      else [])"

definition cmd_if_line :: "string \<Rightarrow> nat \<Rightarrow> stmt" where
  "cmd_if_line line l =
     (case index_of line ''('' of
        None \<Rightarrow> S_unknown l ''multi-line `if` blocks unsupported (MVP)'' line
      | Some i \<Rightarrow>
          (let h = trim_space (drop 2 (trim_space (take i line)));
               negate = has_prefix (lower_case h) ''not '';
               cond = (if negate then trim_space (drop 4 h) else h);
               test = S_command \<lparr>sc_line = l, sc_name = ''if'', sc_args = (if negate then [''not'', cond] else [cond]),
                                 sc_redirects = []\<rparr>
           in case match_paren line i of
                None \<Rightarrow> S_unknown l ''if body missing closing `)`'' line
              | Some c \<Rightarrow>
                  (let body = trim_space (take (c - (i + 1)) (drop (i + 1) line))
                   in S_cond l [(test, if body \<noteq> [] then [cmd_statement_line body l] else [])]
                        (cmd_else (trim_space (drop (c + 1) line)) l))))"

definition cmd_classify_unsupported :: "string \<Rightarrow> string \<Rightarrow> string option" where
  "cmd_classify_unsupported lower original =
     (if has_prefix lower ''for '' then Some ''for loops unsupported (MVP)''
      else if has_prefix lower ''call '' then Some ''call unsupported (MVP)''
      else if has_prefix lower ''setlocal'' \<or> has_prefix lower ''endlocal'' then Some ''setlocal/endlocal unsupported (MVP)''
      else if has_prefix original '':'' \<and> \<not> has_prefix original ''::'' then Some ''labels unsupported (MVP)''
      else None)"

definition is_rem :: "string \<Rightarrow> bool" where
  "is_rem lower \<longleftrightarrow> has_prefix lower ''rem'' \<and> (length lower = 3 \<or> lower ! 3 = CHR '' '' \<or> lower ! 3 = CHR 0x09)"

text \<open>The statement of a line that is not blank; \<open>t\<close> is the line without its \<open>@\<close>.\<close>

definition cmd_goto :: "string \<Rightarrow> nat \<Rightarrow> stmt" where
  "cmd_goto t l =
     (if lower_case (trim_space (drop 5 t)) = '':eof''
      then S_command \<lparr>sc_line = l, sc_name = ''goto'', sc_args = ['':EOF''], sc_redirects = []\<rparr>
      else S_unknown l ''goto labels other than :EOF unsupported (MVP)'' t)"

definition cmd_other :: "string \<Rightarrow> nat \<Rightarrow> stmt" where
  "cmd_other t l =
     (let lower = lower_case t
      in if has_prefix lower ''if '' \<or> has_prefix lower ''if('' then cmd_if_line t l
         else if has_prefix lower ''goto '' then cmd_goto t l
         else (case cmd_classify_unsupported lower t of
                 Some reason \<Rightarrow> S_unknown l reason t
               | None \<Rightarrow> cmd_statement_line t l))"

definition cmd_statement :: "string \<Rightarrow> nat \<Rightarrow> stmt" where
  "cmd_statement t l =
     (let lower = lower_case t
      in if is_rem lower \<or> has_prefix t ''::'' then S_comment l t
         else (case (if has_prefix lower ''set '' then cmd_split_assignment (trim_space (drop 4 t)) else None) of
                 Some (name, v) \<Rightarrow> S_assign l name v False
               | None \<Rightarrow> cmd_other t l))"

definition cmd_line :: "nat \<Rightarrow> string \<Rightarrow> stmt list" where
  "cmd_line l raw =
     (let t = trim_space (trim_right_set raw [CHR 0x0D])
      in if t = [] then []
         else [cmd_statement (if has_prefix t ''@'' then trim_space (tl t) else t) l])"

fun cmd_lines :: "nat \<Rightarrow> string list \<Rightarrow> stmt list" where
  "cmd_lines l [] = []"
| "cmd_lines l (raw # rest) = cmd_line l raw @ cmd_lines (Suc l) rest"

definition read_cmd :: "string \<Rightarrow> script" where
  "read_cmd src = \<lparr>sp_dialect = D_cmd, sp_statements = cmd_lines 1 (split_byte CHR 0x0A src)\<rparr>"

section \<open>PowerShell: lines\<close>

definition ps_continues :: "string \<Rightarrow> bool" where
  "ps_continues s \<longleftrightarrow> has_suffix (trim_right_set s [CHR '' '', CHR 0x09]) [CHR 0x60]"

fun ps_absorb :: "string \<Rightarrow> string list \<Rightarrow> string \<times> string list \<times> nat" where
  "ps_absorb ln [] = (ln, [], 0)"
| "ps_absorb ln (nx # rest) =
     (if ps_continues ln
      then (case ps_absorb (butlast ln @ '' '' @ trim_right_set nx [CHR 0x0D]) rest of (l, r, k) \<Rightarrow> (l, r, Suc k))
      else (ln, nx # rest, 0))"

fun ps_comment :: "string \<Rightarrow> string list \<Rightarrow> string \<times> string list \<times> nat" where
  "ps_comment acc [] = (acc, [], 0)"
| "ps_comment acc (nx # rest) =
     (let t = trim_right_set nx [CHR 0x0D]; acc' = acc @ [CHR 0x0A] @ t
      in if str_contains t ''#>'' then (acc', rest, 1)
         else (case ps_comment acc' rest of (l, r, k) \<Rightarrow> (l, r, Suc k)))"

lemma ps_absorb_length: "ps_absorb ln raw = (l, r, k) \<Longrightarrow> length r \<le> length raw"
  by (induction ln raw arbitrary: l r k rule: ps_absorb.induct) (auto split: if_splits prod.splits)

lemma ps_comment_length: "ps_comment ln raw = (l, r, k) \<Longrightarrow> length r \<le> length raw"
  by (induction raw arbitrary: ln l r k) (auto simp: Let_def intro: le_SucI split: if_splits prod.splits)

function ps_lines_from :: "nat \<Rightarrow> string list \<Rightarrow> source_line list" where
  "ps_lines_from i [] = []"
| "ps_lines_from i (raw # rest) =
     (let ln = trim_right_set raw [CHR 0x0D]
      in case (if str_contains ln ''<#'' \<and> \<not> str_contains ln ''#>'' then ps_comment ln rest else ps_absorb ln rest) of
           (l, rest', k) \<Rightarrow> (i, l) # ps_lines_from (i + k + 1) rest')"
  by pat_completeness auto
termination
  by (relation "measure (\<lambda>(_, raw). length raw)")
     (auto simp: less_Suc_eq_le dest!: ps_absorb_length [OF sym] ps_comment_length [OF sym] split: if_splits)

definition ps_logical_lines :: "string \<Rightarrow> source_line list" where
  "ps_logical_lines src = ps_lines_from 1 (split_byte CHR 0x0A src)"

section \<open>PowerShell: statements\<close>

fun backtick_quoted :: "rune list \<Rightarrow> (rune list \<times> rune list) option" where
  "backtick_quoted [] = None"
| "backtick_quoted [r] = (if r = 34 then Some ([], []) else None)"
| "backtick_quoted (r # x # rs) =
     (if r = 96 then (case backtick_quoted rs of None \<Rightarrow> None | Some (a, b) \<Rightarrow> Some (r # x # a, b))
      else if r = 34 then Some ([], x # rs)
      else (case backtick_quoted (x # rs) of None \<Rightarrow> None | Some (a, b) \<Rightarrow> Some (r # a, b)))"

lemma backtick_quoted_length: "backtick_quoted rs = Some (a, b) \<Longrightarrow> length b < length rs"
  by (induction rs arbitrary: a rule: backtick_quoted.induct) (auto split: if_splits option.splits)

function ps_tokens :: "string option \<Rightarrow> rune list \<Rightarrow> string + string list" where
  "ps_tokens w [] = Inr (flush_plain w)"
| "ps_tokens w (r # rs) =
     (if r = 39 then
        (case single_quoted rs of
           None \<Rightarrow> Inl ''unterminated single quote''
         | Some (inner, rest) \<Rightarrow> ps_tokens (add_to_word w (string_of_runes inner)) rest)
      else if r = 34 then
        (case backtick_quoted rs of
           None \<Rightarrow> Inl ''unterminated double quote''
         | Some (inner, rest) \<Rightarrow>
             ps_tokens (add_to_word w (replace_all (string_of_runes inner) [CHR 0x60, CHR 0x22] [CHR 0x22])) rest)
      else if r = 124 then then_words (flush_plain w @ [''|'']) (ps_tokens None rs)
      else if r = 32 \<or> r = 9 then then_words (flush_plain w) (ps_tokens None rs)
      else ps_tokens (add_to_word w (encode_rune r)) rs)"
  by pat_completeness auto
termination
  by (relation "measure (\<lambda>(_, rs). length rs)") (auto dest!: backtick_quoted_length quoted_length)

definition ps_classify_unsupported :: "string \<Rightarrow> string option" where
  "ps_classify_unsupported line =
     (let t = trim_space line
      in if str_contains line '' += '' then Some ''compound assignment += unsupported (MVP)''
         else if str_contains line '' -= '' then Some ''compound assignment -= unsupported (MVP)''
         else if str_contains line '' *= '' then Some ''compound assignment *= unsupported (MVP)''
         else if str_contains line '' /= '' then Some ''compound assignment /= unsupported (MVP)''
         else if has_prefix t ''try '' \<or> has_prefix t ''try{'' then Some ''try/catch unsupported (MVP)''
         else if has_prefix t ''param('' then Some ''param() blocks unsupported (MVP)'' else None)"

definition ps_statement_line :: "string \<Rightarrow> nat \<Rightarrow> stmt" where
  "ps_statement_line line l =
     (case ps_classify_unsupported line of
        Some reason \<Rightarrow> S_unknown l reason line
      | None \<Rightarrow>
          (case ps_tokens None (runes_of line) of
             Inl e \<Rightarrow> S_unknown l e line
           | Inr ts \<Rightarrow>
               if ts = [] then S_unknown l ''empty statement'' line
               else if 1 < length (split_on_bar [] ts) then S_pipe l (map (words_command l) (split_on_bar [] ts))
               else S_command (words_command l ts)))"

definition ps_split_assignment :: "string \<Rightarrow> (string \<times> string) option" where
  "ps_split_assignment line =
     (let rest = (if has_prefix line ''['' then
                    (case index_of line '']'' of None \<Rightarrow> line | Some i \<Rightarrow> trim_space (drop (i + 1) line)) else line)
      in if \<not> has_prefix rest ''$'' then None
         else (case index_of rest ''='' of
                 None \<Rightarrow> None
               | Some i \<Rightarrow>
                   (let name = trim_prefix (trim_space (take i rest)) ''$''
                    in if i = 0 \<or> i + 1 < length rest \<and> rest ! (i + 1) = CHR ''='' then None
                       else if List.member ''+-*/!<>'' (rest ! (i - 1)) then None
                       else if \<not> has_prefix (trim_space (take i rest)) ''$'' \<or> \<not> is_ident name then None
                       else Some (name, strip_quotes (trim_space (drop (i + 1) rest))))))"

section \<open>PowerShell: blocks\<close>

text \<open>\<open>close_brace\<close> is the depth after a line, or \<open>None\<close> when a closing brace brings it to zero.\<close>

fun close_brace :: "int \<Rightarrow> string \<Rightarrow> int option" where
  "close_brace d [] = Some d"
| "close_brace d (c # cs) =
     (if c = CHR ''{'' then close_brace (d + 1) cs
      else if c = CHR ''}'' then (if d = 1 then None else close_brace (d - 1) cs)
      else close_brace d cs)"

fun closing_line :: "int \<Rightarrow> nat \<Rightarrow> string list \<Rightarrow> nat option" where
  "closing_line d j [] = None"
| "closing_line d j (t # ts) = (case close_brace d t of None \<Rightarrow> Some j | Some d' \<Rightarrow> closing_line d' (Suc j) ts)"

definition find_braced :: "source_line list \<Rightarrow> nat \<Rightarrow> nat \<Rightarrow> (nat \<times> nat) option" where
  "find_braced ls i e =
     (let seg = map snd (drop i (take e ls)); k = length (takeWhile (\<lambda>t. \<not> str_contains t ''{'') seg)
      in if k = length seg then None else map_option (\<lambda>j. (i + k + 1, j)) (closing_line 0 (i + k) (drop k seg)))"

fun after_first_close :: "int \<Rightarrow> string \<Rightarrow> string" where
  "after_first_close d [] = []"
| "after_first_close d (c # cs) =
     (if c = CHR ''{'' then after_first_close (d + 1) cs
      else if c = CHR ''}'' then (if d \<le> 0 then cs else after_first_close (d - 1) cs)
      else after_first_close d cs)"

type_synonym range_parser = "source_line list \<Rightarrow> nat \<Rightarrow> nat \<Rightarrow> stmt list option"

definition ps_function_name :: "string \<Rightarrow> string" where
  "ps_function_name header =
     (let rest = trim_space (trim_prefix header ''function'')
      in if list_ex (List.member [CHR '' '', CHR ''('', CHR ''{'', CHR 0x09]) rest
         then trim_space (takeWhile (\<lambda>c. \<not> List.member [CHR '' '', CHR ''('', CHR ''{'', CHR 0x09] c) rest) else rest)"

definition ps_function :: "range_parser \<Rightarrow> source_line list \<Rightarrow> nat \<Rightarrow> nat \<Rightarrow> (stmt \<times> nat) option" where
  "ps_function pb ls i e =
     (let header = trim_space (snd (ls ! i))
      in case find_braced ls i e of
           None \<Rightarrow> Some (S_unknown (fst (ls ! i)) ''function body without `{`'' header, i + 1)
         | Some (b, c) \<Rightarrow>
             (case pb ls b c of
                None \<Rightarrow> None
              | Some body \<Rightarrow> Some (S_func (fst (ls ! i)) (ps_function_name header) body, c + 1)))"

definition is_else :: "string \<Rightarrow> bool" where
  "is_else t \<longleftrightarrow> t = ''else'' \<or> has_prefix t ''else '' \<or> has_prefix t ''else{''"

text \<open>
  The end of \<open>psParseIf\<close>: an \<open>else\<close> on the line of the closing brace, which is rewritten for the
  search, then one on the line after it. The rewritten line is never read again.
\<close>

definition ps_else_below :: "range_parser \<Rightarrow> source_line list \<Rightarrow> nat \<Rightarrow> nat \<Rightarrow> nat \<Rightarrow> (stmt list \<Rightarrow> stmt) \<Rightarrow> (stmt \<times> nat) option" where
  "ps_else_below pb ls i c e cond =
     (if e \<le> c + 1 then Some (cond [], c + 1)
      else
        (let nt = trim_space (snd (ls ! (c + 1)))
         in if is_else nt then
              (case find_braced ls (c + 1) e of
                 None \<Rightarrow> Some (cond [], c + 1)
               | Some (b', c') \<Rightarrow> map_option (\<lambda>els. (cond els, c' + 1)) (pb ls b' c'))
            else if has_prefix nt ''elseif'' then
              Some (S_unknown (fst (ls ! i)) ''elseif chains unsupported (MVP)'' (trim_space (snd (ls ! i))), c + 2)
            else Some (cond [], c + 1)))"

definition ps_else :: "range_parser \<Rightarrow> source_line list \<Rightarrow> nat \<Rightarrow> nat \<Rightarrow> nat \<Rightarrow> (stmt list \<Rightarrow> stmt) \<Rightarrow> (stmt \<times> nat) option" where
  "ps_else pb ls i c e cond =
     (let a = trim_space (after_first_close 0 (trim_space (snd (ls ! c)))); ls' = ls[c := (fst (ls ! c), a)]
      in if is_else a then
           (case find_braced ls' c e of
              Some (b', c') \<Rightarrow> map_option (\<lambda>els. (cond els, c' + 1)) (pb ls' b' c')
            | None \<Rightarrow> ps_else_below pb ls' i c e cond)
         else if has_prefix a ''elseif'' then
           Some (S_unknown (fst (ls ! i)) ''elseif chains unsupported (MVP)'' (trim_space (snd (ls ! i))), c + 1)
         else ps_else_below pb ls i c e cond)"

definition ps_if :: "range_parser \<Rightarrow> source_line list \<Rightarrow> nat \<Rightarrow> nat \<Rightarrow> (stmt \<times> nat) option" where
  "ps_if pb ls i e =
     (let l = fst (ls ! i); header = trim_space (snd (ls ! i)); op = index_of header ''(''
      in case (case op of None \<Rightarrow> None | Some p \<Rightarrow> match_paren header p) of
           None \<Rightarrow> Some (S_unknown l ''if without `(TEST)` parens'' header, i + 1)
         | Some q \<Rightarrow>
             (let test = trim_space (take (q - (the op + 1)) (drop (the op + 1) header))
              in case find_braced ls i e of
                   None \<Rightarrow> Some (S_unknown l ''if without `{ BODY }`'' header, i + 1)
                 | Some (b, c) \<Rightarrow>
                     (case pb ls b c of
                        None \<Rightarrow> None
                      | Some body \<Rightarrow> ps_else pb ls i c e (S_cond l [(ps_statement_line test l, body)]))))"

definition ps_statement :: "range_parser \<Rightarrow> source_line list \<Rightarrow> nat \<Rightarrow> nat \<Rightarrow> (stmt \<times> nat) option" where
  "ps_statement pb ls i e =
     (let l = fst (ls ! i); t = trim_space (snd (ls ! i))
      in if has_prefix t ''<#'' \<or> has_prefix t ''#'' then Some (S_comment l t, i + 1)
         else if has_prefix t ''function '' \<or> has_prefix t (''function'' @ [CHR 0x09]) then ps_function pb ls i e
         else if has_prefix t ''if '' \<or> has_prefix t ''if('' then ps_if pb ls i e
         else if has_prefix t ''elseif'' then Some (S_unknown l ''elseif chains unsupported (MVP)'' t, i + 1)
         else (case ps_split_assignment t of
                 Some (name, v) \<Rightarrow> Some (S_assign l name v False, i + 1)
               | None \<Rightarrow> Some (ps_statement_line t l, i + 1)))"

primrec ps_block :: "nat \<Rightarrow> range_parser" where
  "ps_block 0 ls i e = None"
| "ps_block (Suc n) ls i e =
     (if e \<le> i then Some []
      else if trim_space (snd (ls ! i)) = [] then ps_block n ls (i + 1) e
      else (case ps_statement (ps_block n) ls i e of
              None \<Rightarrow> None
            | Some (s, i') \<Rightarrow> map_option (\<lambda>ss. s # ss) (ps_block n ls i' e)))"

definition read_powershell :: "string \<Rightarrow> script option" where
  "read_powershell src =
     (let ls = ps_logical_lines src
      in case ps_block (Suc (length ls)) ls 0 (length ls) of
           None \<Rightarrow> None
         | Some ss \<Rightarrow> Some \<lparr>sp_dialect = D_powershell, sp_statements = ss\<rparr>)"

section \<open>No line of a batch file is lost\<close>

lemma words_command_line [simp]: "sc_line (words_command l ws) = l"
  by (simp add: words_command_def)

lemma cmd_statement_line_line: "stmt_line (cmd_statement_line t l) = l"
  by (auto simp: cmd_statement_line_def split: sum.splits)

lemma cmd_if_line_line: "stmt_line (cmd_if_line t l) = l"
  by (auto simp: cmd_if_line_def Let_def split: option.splits)

lemma cmd_statement_keeps_line: "stmt_line (cmd_statement t l) = l"
  by (auto simp: cmd_statement_def cmd_other_def cmd_goto_def Let_def cmd_statement_line_line cmd_if_line_line split: option.splits)

lemma cmd_lines_keep: "map stmt_line (cmd_lines k raws) = map fst (filter (\<lambda>(l, t). trim_space (trim_right_set t [CHR 0x0D]) \<noteq> []) (enumerate k raws))"
  by (induction raws arbitrary: k) (auto simp: cmd_line_def Let_def cmd_statement_keeps_line)

text \<open>
  Every line of a batch file that is not blank gives one statement, which carries its number, in the
  order of the file.
\<close>

theorem read_cmd_keeps_lines:
  "map stmt_line (sp_statements (read_cmd src)) =
     map fst (filter (\<lambda>(l, t). trim_space (trim_right_set t [CHR 0x0D]) \<noteq> []) (enumerate 1 (split_byte CHR 0x0A src)))"
  by (simp add: read_cmd_def cmd_lines_keep)

section \<open>The PowerShell reader returns\<close>

lemma closing_line_bounds: "closing_line d j ts = Some c \<Longrightarrow> j \<le> c \<and> c < j + length ts"
  by (induction ts arbitrary: d j) (fastforce split: option.splits)+

lemma find_braced_bounds: "find_braced ls i e = Some (b, c) \<Longrightarrow> i < b \<and> b \<le> c + 1 \<and> i \<le> c \<and> c < e"
proof -
  assume f: "find_braced ls i e = Some (b, c)"
  define seg where "seg = map snd (drop i (take e ls))"
  define k where "k = length (takeWhile (\<lambda>t. \<not> str_contains t ''{'') seg)"
  have b: "b = i + k + 1" "closing_line 0 (i + k) (drop k seg) = Some c"
    using f unfolding find_braced_def seg_def [symmetric] Let_def k_def [symmetric] by (auto split: if_splits)
  have "k \<le> length seg" unfolding k_def by (rule length_takeWhile_le)
  moreover have "length seg \<le> e - i" by (simp add: seg_def)
  ultimately show ?thesis using closing_line_bounds [OF b(2)] b(1) by simp linarith
qed

definition range_answers :: "nat \<Rightarrow> range_parser \<Rightarrow> bool" where
  "range_answers n pb \<longleftrightarrow> (\<forall>ls i e. e - i < n \<longrightarrow> (\<exists>ss. pb ls i e = Some ss))"

lemma braced_answers:
  assumes "range_answers n pb" "find_braced ls i e = Some (b, c)" "e - i \<le> n"
  obtains ss where "pb ls' b c = Some ss" "i < c + 1"
proof -
  have "i < b" "i \<le> c" "c < e" using find_braced_bounds [OF assms(2)] by auto
  then have "c - b < n" using assms(3) by linarith
  then show thesis using assms(1) that \<open>i \<le> c\<close> unfolding range_answers_def by (metis less_Suc_eq_le Suc_eq_plus1)
qed

lemma ps_else_below_answers:
  assumes a: "range_answers n pb" and "i \<le> c" "e - i \<le> n"
  shows "\<exists>s k. ps_else_below pb ls i c e cond = Some (s, k) \<and> i < k"
proof (cases "c + 1 < e \<and> is_else (trim_space (snd (ls ! (c + 1))))")
  case True
  show ?thesis
  proof (cases "find_braced ls (c + 1) e")
    case None
    then show ?thesis using True assms(2) by (simp add: ps_else_below_def)
  next
    case (Some bc)
    obtain b' c' where bc: "bc = (b', c')" by fastforce
    obtain ss where "pb ls b' c' = Some ss" "c + 1 < c' + 1"
      by (rule braced_answers [OF a Some [unfolded bc]]) (use assms(2,3) in linarith)
    then show ?thesis using True Some bc assms(2) by (simp add: ps_else_below_def)
  qed
next
  case False
  then show ?thesis using assms(2) by (auto simp: ps_else_below_def Let_def)
qed

lemma ps_else_answers:
  assumes a: "range_answers n pb" and "i \<le> c" "e - i \<le> n"
  shows "\<exists>s k. ps_else pb ls i c e cond = Some (s, k) \<and> i < k"
proof -
  let ?a = "trim_space (after_first_close 0 (trim_space (snd (ls ! c))))"
  let ?ls = "ls[c := (fst (ls ! c), ?a)]"
  show ?thesis
  proof (cases "is_else ?a")
    case True
    show ?thesis
    proof (cases "find_braced ?ls c e")
      case None
      then show ?thesis using True ps_else_below_answers [OF assms, of ?ls cond] by (simp add: ps_else_def Let_def)
    next
      case (Some bc)
      obtain b' c' where bc: "bc = (b', c')" by fastforce
      obtain ss where "pb ?ls b' c' = Some ss" "c < c' + 1"
        by (rule braced_answers [OF a Some [unfolded bc]]) (use assms(2,3) in linarith)
      then show ?thesis using True Some bc assms(2) by (simp add: ps_else_def Let_def)
    qed
  next
    case False
    then show ?thesis using ps_else_below_answers [OF assms, of ls cond] assms(2) by (auto simp: ps_else_def Let_def)
  qed
qed

lemma ps_statement_answers:
  assumes a: "range_answers n pb" and e: "e - i \<le> n"
  shows "\<exists>s k. ps_statement pb ls i e = Some (s, k) \<and> i < k"
proof -
  have b: "\<exists>ss. pb ls b c = Some ss \<and> i \<le> c" if "find_braced ls i e = Some (b, c)" for b c
    using braced_answers [OF a that e] by (metis less_Suc_eq_le Suc_eq_plus1)
  have f: "\<exists>s k. ps_function pb ls i e = Some (s, k) \<and> i < k"
    by (cases "find_braced ls i e") (use b in \<open>fastforce simp: ps_function_def Let_def\<close>)+
  have i: "\<exists>s k. ps_if pb ls i e = Some (s, k) \<and> i < k"
  proof (cases "find_braced ls i e")
    case None
    then show ?thesis by (auto simp: ps_if_def Let_def split: option.split)
  next
    case (Some bc)
    obtain b' c where bc: "bc = (b', c)" by fastforce
    obtain ss where "pb ls b' c = Some ss" "i \<le> c" using b Some bc by blast
    then show ?thesis using ps_else_answers [OF a _ e, of c ls] Some bc by (auto simp: ps_if_def Let_def split: option.split)
  qed
  show ?thesis unfolding ps_statement_def Let_def using f i by (simp split: option.split)
qed

lemma ps_block_answers: "range_answers n (ps_block n)"
proof (induction n)
  case (Suc n)
  show ?case unfolding range_answers_def
  proof (intro allI impI)
    fix ls and i e :: nat
    assume lt: "e - i < Suc n"
    show "\<exists>ss. ps_block (Suc n) ls i e = Some ss"
    proof (cases "i < e")
      case True
      have next_ok: "\<exists>ss. ps_block n ls k e = Some ss" if "i < k" for k
        using Suc lt that True unfolding range_answers_def by (metis diff_less_mono2 less_Suc_eq_le less_le_trans)
      obtain s k where "ps_statement (ps_block n) ls i e = Some (s, k)" "i < k"
        using ps_statement_answers [OF Suc] lt by (metis less_Suc_eq_le)
      then show ?thesis using next_ok [of k] next_ok [of "i + 1"] True by auto
    qed simp
  qed
qed (simp add: range_answers_def)

lemma read_powershell_returns: "\<exists>stmts. read_powershell src = Some \<lparr>sp_dialect = D_powershell, sp_statements = stmts\<rparr>"
  using ps_block_answers [of "Suc (length (ps_logical_lines src))"] unfolding range_answers_def read_powershell_def Let_def
  by (metis diff_le_self le_imp_less_Suc option.simps(5))

end
