(* ===== verification/Script_Run.thy ===== *)
theory Script_Run
  imports Script_Ast
begin

text \<open>
  The run engine of \<^verbatim>\<open>shell/internal/translate/run.go\<close>: statements are executed over a world, through
  a runner for command lines and the file calls of redirects, both parameters. A big-step semantics of
  scripts is the reference it is compared with.
\<close>

section \<open>The engine\<close>

record 'h streams =
  sr_in :: 'h
  sr_out :: 'h
  sr_err :: 'h

datatype run_notice =
    Redirect_failed nat string
  | Inner_redirects nat
  | Cannot_translate nat string

datatype run_error = Runner_failed string | Iteration_cap

type_synonym 'w run_outcome = "'w \<times> int \<times> run_error option"

text \<open>
  \<open>en_open\<close>, \<open>en_create\<close> and \<open>en_append\<close> open a file and return a stream or the error, \<open>en_close\<close> closes
  it; \<open>en_set_var\<close> is \<open>EnvSet\<close> and \<open>en_report\<close> a line on stderr.
\<close>

record ('w, 'h) engine =
  en_open :: "'w \<Rightarrow> string \<Rightarrow> 'w \<times> (string + 'h)"
  en_create :: "'w \<Rightarrow> string \<Rightarrow> 'w \<times> (string + 'h)"
  en_append :: "'w \<Rightarrow> string \<Rightarrow> 'w \<times> (string + 'h)"
  en_close :: "'w \<Rightarrow> 'h \<Rightarrow> 'w"
  en_run :: "'w \<Rightarrow> string \<Rightarrow> 'h streams \<Rightarrow> 'w \<times> int \<times> string option"
  en_set_var :: "'w \<Rightarrow> string \<Rightarrow> string \<Rightarrow> 'w"
  en_report :: "'w \<Rightarrow> run_notice \<Rightarrow> 'w"

definition close_all :: "('w, 'h) engine \<Rightarrow> 'h list \<Rightarrow> 'w \<Rightarrow> 'w" where
  "close_all en hs w = foldl (en_close en) w hs"

definition open_redirect :: "('w, 'h) engine \<Rightarrow> redirect_op \<Rightarrow> 'w \<Rightarrow> string \<Rightarrow> 'w \<times> (string + 'h)" where
  "open_redirect en x w target =
     (if x = Redirect_in then en_open en w target else if x = Redirect_append then en_append en w target
      else en_create en w target)"

definition redirect_to :: "redirect_op \<Rightarrow> 'h \<Rightarrow> 'h streams \<Rightarrow> 'h streams" where
  "redirect_to x h io =
     (if x = Redirect_in then io\<lparr>sr_in := h\<rparr> else if x = Redirect_err_out then io\<lparr>sr_err := h\<rparr> else io\<lparr>sr_out := h\<rparr>)"

fun apply_redirects ::
  "('w, 'h) engine \<Rightarrow> redirect list \<Rightarrow> 'h list \<Rightarrow> 'h streams \<Rightarrow> 'w \<Rightarrow> 'w \<times> (string + 'h streams \<times> 'h list)" where
  "apply_redirects en [] opened io w = (w, Inr (io, opened))"
| "apply_redirects en (r # rs) opened io w =
     (if rd_op r = Redirect_err_to_out then apply_redirects en rs opened (io\<lparr>sr_err := sr_out io\<rparr>) w
      else (case open_redirect en (rd_op r) w (rd_target r) of
              (w1, Inl e) \<Rightarrow> (close_all en opened w1, Inl e)
            | (w1, Inr h) \<Rightarrow> apply_redirects en rs (opened @ [h]) (redirect_to (rd_op r) h io) w1))"

definition run_line :: "('w, 'h) engine \<Rightarrow> string \<Rightarrow> 'h streams \<Rightarrow> 'h list \<Rightarrow> 'w \<Rightarrow> 'w run_outcome" where
  "run_line en line io opened w =
     (case en_run en w line io of (w1, code, err) \<Rightarrow> (close_all en opened w1, code, map_option Runner_failed err))"

definition run_command :: "('w, 'h) engine \<Rightarrow> 'h streams \<Rightarrow> script_command \<Rightarrow> 'w \<Rightarrow> 'w run_outcome" where
  "run_command en io c w =
     (case apply_redirects en (sc_redirects c) [] io w of
        (w1, Inl e) \<Rightarrow> (en_report en w1 (Redirect_failed (sc_line c) e), 1, None)
      | (w1, Inr (io', opened)) \<Rightarrow> run_line en (format_command_no_redirect c) io' opened w1)"

text \<open>Redirects are applied for the last stage only; the others are reported.\<close>

definition warn_inner :: "('w, 'h) engine \<Rightarrow> script_command list \<Rightarrow> 'w \<Rightarrow> 'w" where
  "warn_inner en cs w =
     foldl (\<lambda>w c. if sc_redirects c \<noteq> [] then en_report en w (Inner_redirects (sc_line c)) else w) w (butlast cs)"

definition run_pipe :: "('w, 'h) engine \<Rightarrow> 'h streams \<Rightarrow> script_command list \<Rightarrow> 'w \<Rightarrow> 'w run_outcome" where
  "run_pipe en io cs w =
     (let line = str_join '' | '' (map format_command_no_redirect cs); w1 = warn_inner en cs w
      in if cs = [] then run_line en line io [] w1
         else (case apply_redirects en (sc_redirects (last cs)) [] io w1 of
                 (w2, Inl e) \<Rightarrow> (en_report en w2 (Redirect_failed (sc_line (last cs)) e), 1, None)
               | (w2, Inr (io', opened)) \<Rightarrow> run_line en line io' opened w2))"

definition trim_stars :: "string \<Rightarrow> string" where
  "trim_stars s = trim_left_set (trim_right_set s ''*'') ''*''"

definition match_case_pattern :: "string \<Rightarrow> string \<Rightarrow> bool" where
  "match_case_pattern pat0 word =
     (let pat = trim_space pat0
      in if pat = ''*'' then True
         else if has_prefix pat ''*'' \<and> has_suffix pat ''*'' then str_contains word (trim_stars pat)
         else if has_suffix pat ''*'' then has_prefix word (trim_suffix pat ''*'')
         else if has_prefix pat ''*'' then has_suffix word (trim_prefix pat ''*'')
         else pat = word)"

text \<open>The two loops; a \<open>while\<close> loop ends with an error after ten thousand rounds.\<close>

fun for_rounds :: "('w \<Rightarrow> string \<Rightarrow> 'w) \<Rightarrow> ('w \<Rightarrow> 'w run_outcome) \<Rightarrow> string list \<Rightarrow> int \<Rightarrow> 'w \<Rightarrow> 'w run_outcome" where
  "for_rounds bind body [] last_code w = (w, last_code, None)"
| "for_rounds bind body (x # xs) last_code w =
     (case body (bind w x) of
        (w1, code, Some e) \<Rightarrow> (w1, code, Some e)
      | (w1, code, None) \<Rightarrow> for_rounds bind body xs code w1)"

primrec while_rounds :: "nat \<Rightarrow> ('w \<Rightarrow> 'w run_outcome) \<Rightarrow> ('w \<Rightarrow> 'w run_outcome) \<Rightarrow> int \<Rightarrow> 'w \<Rightarrow> 'w run_outcome" where
  "while_rounds 0 test body last_code w = (w, last_code, Some Iteration_cap)"
| "while_rounds (Suc n) test body last_code w =
     (case test w of
        (w1, code, Some e) \<Rightarrow> (w1, code, Some e)
      | (w1, code, None) \<Rightarrow>
          if code \<noteq> 0 then (w1, last_code, None)
          else (case body w1 of
                  (w2, code', Some e) \<Rightarrow> (w2, code', Some e)
                | (w2, code', None) \<Rightarrow> while_rounds n test body code' w2))"

definition is_unknown :: "stmt \<Rightarrow> bool" where
  "is_unknown s = (case s of S_unknown _ _ _ \<Rightarrow> True | _ \<Rightarrow> False)"

text \<open>What \<open>runStatements\<close> does after a statement, and a branch of a condition.\<close>

definition after_statement :: "bool \<Rightarrow> 'w run_outcome \<Rightarrow> (int \<Rightarrow> 'w \<Rightarrow> 'w run_outcome) \<Rightarrow> 'w run_outcome" where
  "after_statement stop r rest =
     (case r of
        (w1, code, Some e) \<Rightarrow> (w1, code, Some e)
      | (w1, code, None) \<Rightarrow> if stop then (w1, code, None) else rest code w1)"

definition branch :: "'w run_outcome \<Rightarrow> ('w \<Rightarrow> 'w run_outcome) \<Rightarrow> ('w \<Rightarrow> 'w run_outcome) \<Rightarrow> 'w run_outcome" where
  "branch r body rest =
     (case r of
        (w1, code, Some e) \<Rightarrow> (w1, code, Some e)
      | (w1, code, None) \<Rightarrow> if code = 0 then body w1 else rest w1)"

definition max_rounds :: nat where
  "max_rounds = 10000"

function run_one :: "('w, 'h) engine \<Rightarrow> 'h streams \<Rightarrow> stmt \<Rightarrow> 'w \<Rightarrow> 'w run_outcome"
  and run_statements :: "('w, 'h) engine \<Rightarrow> 'h streams \<Rightarrow> stmt list \<Rightarrow> int \<Rightarrow> 'w \<Rightarrow> 'w run_outcome"
  and run_branches :: "('w, 'h) engine \<Rightarrow> 'h streams \<Rightarrow> (stmt \<times> stmt list) list \<Rightarrow> ('w \<Rightarrow> 'w run_outcome) \<Rightarrow> 'w \<Rightarrow> 'w run_outcome"
  and run_arms :: "('w, 'h) engine \<Rightarrow> 'h streams \<Rightarrow> (string list \<times> stmt list) list \<Rightarrow> string \<Rightarrow> 'w \<Rightarrow> 'w run_outcome" where
  "run_one en io (S_comment l t) = (\<lambda>w. (w, 0, None))"
| "run_one en io (S_assign l name value exported) = (\<lambda>w. (en_set_var en w name value, 0, None))"
| "run_one en io (S_command c) = run_command en io c"
| "run_one en io (S_pipe l cs) = run_pipe en io cs"
| "run_one en io (S_cond l brs els) = run_branches en io brs (run_statements en io els 0)"
| "run_one en io (S_for l var ws body) =
     for_rounds (\<lambda>w x. en_set_var en w var x) (run_statements en io body 0) ws 0"
| "run_one en io (S_while l test body) = while_rounds max_rounds (run_one en io test) (run_statements en io body 0) 0"
| "run_one en io (S_case l word arms) = run_arms en io arms word"
| "run_one en io (S_func l name body) = (\<lambda>w. (w, 0, None))"
| "run_one en io (S_unknown l reason src) = (\<lambda>w. (en_report en w (Cannot_translate l reason), 2, None))"
| "run_statements en io [] = (\<lambda>last_code w. (w, last_code, None))"
| "run_statements en io (s # ss) =
     (\<lambda>last_code w. after_statement (is_unknown s) (run_one en io s w) (run_statements en io ss))"
| "run_branches en io [] = (\<lambda>els. els)"
| "run_branches en io ((test, body) # brs) =
     (\<lambda>els w. branch (run_one en io test w) (run_statements en io body 0) (run_branches en io brs els))"
| "run_arms en io [] = (\<lambda>word w. (w, 0, None))"
| "run_arms en io ((pats, body) # arms) =
     (\<lambda>word. if list_ex (\<lambda>p. match_case_pattern p word) pats then run_statements en io body 0 else run_arms en io arms word)"
  by pat_completeness auto

termination
  by (relation "measure (\<lambda>x. case x of
        Inl (Inl (en, io, s)) \<Rightarrow> size s
      | Inl (Inr (en, io, ss)) \<Rightarrow> size_list size ss
      | Inr (Inl (en, io, brs)) \<Rightarrow> size_list (size_prod size (size_list size)) brs
      | Inr (Inr (en, io, arms)) \<Rightarrow> size_list (size_prod (\<lambda>_. 0) (size_list size)) arms)") auto

definition run_script :: "('w, 'h) engine \<Rightarrow> 'h streams \<Rightarrow> script \<Rightarrow> 'w \<Rightarrow> 'w run_outcome" where
  "run_script en io sp = run_statements en io (sp_statements sp) 0"

section \<open>A big-step semantics\<close>

text \<open>
  Runs that end without an error. \<open>steps_to en io (s, w) (w', code)\<close> for a statement; blocks carry the
  code of the statement before them, loops the code of the round before.
\<close>

inductive steps_to :: "('w, 'h) engine \<Rightarrow> 'h streams \<Rightarrow> stmt \<times> 'w \<Rightarrow> 'w \<times> int \<Rightarrow> bool"
  and block_to :: "('w, 'h) engine \<Rightarrow> 'h streams \<Rightarrow> int \<times> stmt list \<times> 'w \<Rightarrow> 'w \<times> int \<Rightarrow> bool"
  and for_to :: "('w, 'h) engine \<Rightarrow> 'h streams \<Rightarrow> string \<Rightarrow> stmt list \<Rightarrow> int \<times> string list \<times> 'w \<Rightarrow> 'w \<times> int \<Rightarrow> bool"
  and while_to :: "('w, 'h) engine \<Rightarrow> 'h streams \<Rightarrow> stmt \<Rightarrow> stmt list \<Rightarrow> int \<times> 'w \<Rightarrow> 'w \<times> int \<Rightarrow> bool"
  for en :: "('w, 'h) engine" and io :: "'h streams" where
  Comment: "steps_to en io (S_comment l t, w) (w, 0)"
| Assign: "steps_to en io (S_assign l name v x, w) (en_set_var en w name v, 0)"
| Command: "run_command en io c w = (w', code, None) \<Longrightarrow> steps_to en io (S_command c, w) (w', code)"
| Pipe: "run_pipe en io cs w = (w', code, None) \<Longrightarrow> steps_to en io (S_pipe l cs, w) (w', code)"
| Else: "block_to en io (0, els, w) r \<Longrightarrow> steps_to en io (S_cond l [] els, w) r"
| Then: "steps_to en io (test, w) (w1, 0) \<Longrightarrow> block_to en io (0, body, w1) r \<Longrightarrow> steps_to en io (S_cond l ((test, body) # brs) els, w) r"
| Elif: "steps_to en io (test, w) (w1, code) \<Longrightarrow> code \<noteq> 0 \<Longrightarrow> steps_to en io (S_cond l brs els, w1) r \<Longrightarrow>
    steps_to en io (S_cond l ((test, body) # brs) els, w) r"
| For: "for_to en io var body (0, ws, w) r \<Longrightarrow> steps_to en io (S_for l var ws body, w) r"
| While: "while_to en io test body (0, w) r \<Longrightarrow> steps_to en io (S_while l test body, w) r"
| No_arm: "steps_to en io (S_case l word [], w) (w, 0)"
| Arm: "\<exists>p \<in> set pats. match_case_pattern p word \<Longrightarrow> block_to en io (0, body, w) r \<Longrightarrow>
    steps_to en io (S_case l word ((pats, body) # arms), w) r"
| Next_arm: "\<not> (\<exists>p \<in> set pats. match_case_pattern p word) \<Longrightarrow> steps_to en io (S_case l word arms, w) r \<Longrightarrow>
    steps_to en io (S_case l word ((pats, body) # arms), w) r"
| Func: "steps_to en io (S_func l name body, w) (w, 0)"
| Unknown: "steps_to en io (S_unknown l reason src, w) (en_report en w (Cannot_translate l reason), 2)"
| Block_end: "block_to en io (code, [], w) (w, code)"
| Block_stop: "steps_to en io (s, w) r \<Longrightarrow> is_unknown s \<Longrightarrow> block_to en io (code, s # ss, w) r"
| Block_next: "steps_to en io (s, w) (w1, code1) \<Longrightarrow> \<not> is_unknown s \<Longrightarrow> block_to en io (code1, ss, w1) r \<Longrightarrow>
    block_to en io (code, s # ss, w) r"
| For_end: "for_to en io var body (code, [], w) (w, code)"
| For_round: "block_to en io (0, body, en_set_var en w var x) (w1, code1) \<Longrightarrow> for_to en io var body (code1, xs, w1) r \<Longrightarrow>
    for_to en io var body (code, x # xs, w) r"
| While_end: "steps_to en io (test, w) (w1, code1) \<Longrightarrow> code1 \<noteq> 0 \<Longrightarrow> while_to en io test body (code, w) (w1, code)"
| While_round: "steps_to en io (test, w) (w1, 0) \<Longrightarrow> block_to en io (0, body, w1) (w2, code2) \<Longrightarrow>
    while_to en io test body (code2, w2) r \<Longrightarrow> while_to en io test body (code, w) r"

lemmas step_intros = steps_to_block_to_for_to_while_to.intros

lemma for_rounds_sound:
  assumes "\<And>w w' code. body w = (w', code, None) \<Longrightarrow> block_to en io (0, ss, w) (w', code)"
  shows "for_rounds (\<lambda>w x. en_set_var en w var x) body xs code w = (w', code', None) \<Longrightarrow> for_to en io var ss (code, xs, w) (w', code')"
proof (induction xs arbitrary: code w)
  case (Cons x xs)
  then obtain w1 code1 where "body (en_set_var en w var x) = (w1, code1, None)"
    "for_rounds (\<lambda>w x. en_set_var en w var x) body xs code1 w1 = (w', code', None)"
    by (auto split: prod.splits option.splits)
  then show ?case using assms Cons.IH by (blast intro: For_round)
qed (simp add: For_end)

lemma while_rounds_sound:
  assumes "\<And>w w' code. test w = (w', code, None) \<Longrightarrow> steps_to en io (t, w) (w', code)"
    and "\<And>w w' code. body w = (w', code, None) \<Longrightarrow> block_to en io (0, ss, w) (w', code)"
  shows "while_rounds n test body code w = (w', code', None) \<Longrightarrow> while_to en io t ss (code, w) (w', code')"
proof (induction n arbitrary: code w)
  case (Suc n)
  obtain w1 code1 e1 where t: "test w = (w1, code1, e1)" by (cases "test w") auto
  then have e1: "e1 = None" using Suc.prems by (auto split: option.splits)
  show ?case
  proof (cases "code1 = 0")
    case True
    obtain w2 code2 e2 where b: "body w1 = (w2, code2, e2)" by (cases "body w1") auto
    then have "e2 = None" "while_rounds n test body code2 w2 = (w', code', None)"
      using Suc.prems t e1 True by (auto split: option.splits)
    then show ?thesis using assms(1) [of w w1 0] assms(2) [of w1 w2 code2] t e1 True b Suc.IH by (blast intro: While_round)
  next
    case False
    then have "w' = w1" "code' = code" using Suc.prems t e1 by auto
    then show ?thesis using False assms(1) [of w w1 code1] t e1 by (blast intro: While_end)
  qed
qed simp

lemma run_sound:
  "run_one en io s w = (w', code, None) \<Longrightarrow> steps_to en io (s, w) (w', code)"
  "run_statements en io ss c0 w = (w', code, None) \<Longrightarrow> block_to en io (c0, ss, w) (w', code)"
  "(\<And>w w' code. els w = (w', code, None) \<Longrightarrow> steps_to en io (S_cond l [] e, w) (w', code)) \<Longrightarrow> run_branches en io brs els w = (w', code, None) \<Longrightarrow>
     steps_to en io (S_cond l brs e, w) (w', code)"
  "run_arms en io arms word w = (w', code, None) \<Longrightarrow> steps_to en io (S_case l word arms, w) (w', code)"
proof (induction en io s and en io ss and en io brs and en io arms
    arbitrary: w w' code and w w' code c0 and w w' code els l e and w w' code word l
    rule: run_one_run_statements_run_branches_run_arms.induct)
  case (5 en io l brs els)
  have "steps_to en io (S_cond l [] els, w) (w', code)" if "run_statements en io els 0 w = (w', code, None)" for w w' code
    using that 5(2) by (blast intro: Else)
  then show ?case using 5(1) [of "run_statements en io els 0" l els] 5(3) by simp
next
  case (6 en io l var ws body)
  have "for_to en io var body (0, ws, w) (w', code)"
    by (rule for_rounds_sound [of "run_statements en io body 0"]) (use 6 in simp_all)
  then show ?case by (rule For)
next
  case (7 en io l test body)
  have "while_to en io test body (0, w) (w', code)"
    by (rule while_rounds_sound [of "run_one en io test" _ _ _ "run_statements en io body 0"]) (use 7 in simp_all)
  then show ?case by (rule While)
next
  case (12 en io s ss)
  obtain w1 c1 e where r: "run_one en io s w = (w1, c1, e)" by (metis prod_cases3)
  then have e: "e = None" using 12(3) by (auto simp: after_statement_def split: option.splits)
  show ?case
  proof (cases "is_unknown s")
    case True
    then show ?thesis using 12(1,3) r e by (auto simp: after_statement_def intro: Block_stop)
  next
    case False
    then have "run_statements en io ss c1 w1 = (w', code, None)" using 12(3) r e by (auto simp: after_statement_def)
    then show ?thesis using 12(1) [of w w1 c1] 12(2) r e False by (blast intro: Block_next)
  qed
next
  case (14 en io test body brs)
  obtain w1 c1 er where r: "run_one en io test w = (w1, c1, er)" by (metis prod_cases3)
  then have er: "er = None" using 14(5) by (auto simp: branch_def split: option.splits)
  have t: "steps_to en io (test, w) (w1, c1)" using 14(1) r er by blast
  show ?case
  proof (cases "c1 = 0")
    case True
    then have "block_to en io (0, body, w1) (w', code)" using 14(2,5) r er by (auto simp: branch_def)
    then show ?thesis using t True by (blast intro: Then)
  next
    case False
    then have "run_branches en io brs els w1 = (w', code, None)" using 14(5) r er by (auto simp: branch_def)
    then show ?thesis using t False 14(3) [OF 14(4)] by (blast intro: Elif)
  qed
next
  case (16 en io pats body arms)
  show ?case
  proof (cases "list_ex (\<lambda>p. match_case_pattern p word) pats")
    case True
    then show ?thesis using 16(1) [OF True] 16(3) by (auto simp: list_ex_iff intro: Arm)
  next
    case False
    then have "steps_to en io (S_case l word arms, w) (w', code)" using 16(2) [OF False] 16(3) by auto
    then show ?thesis using False by (auto simp: list_ex_iff intro: Next_arm)
  qed
qed (auto intro: step_intros)

text \<open>Conversely the engine finds every run, unless a loop has more rounds than it allows.\<close>

definition gives :: "'w run_outcome \<Rightarrow> 'w \<times> int \<Rightarrow> bool" where
  "gives out r \<longleftrightarrow> out = (fst r, snd r, None) \<or> snd (snd out) = Some Iteration_cap"

lemma gives_cases:
  assumes "gives out (w, code)"
  obtains "out = (w, code, None)" | w1 c1 where "out = (w1, c1, Some Iteration_cap)"
  using assms by (cases out) (auto simp: gives_def)

lemma gives_same [simp]: "gives (w, code, None) (w, code)"
  by (simp add: gives_def)

lemma gives_cap [simp]: "gives (w, code, Some Iteration_cap) r"
  by (simp add: gives_def)

lemma run_complete:
  "steps_to en io sw r \<Longrightarrow> gives (run_one en io (fst sw) (snd sw)) r"
  "block_to en io csw r \<Longrightarrow> gives (run_statements en io (fst (snd csw)) (fst csw) (snd (snd csw))) r"
  "for_to en io var body cxw r \<Longrightarrow>
     gives (for_rounds (\<lambda>w x. en_set_var en w var x) (run_statements en io body 0) (fst (snd cxw)) (fst cxw) (snd (snd cxw))) r"
  "while_to en io test body cw r \<Longrightarrow> gives (while_rounds n (run_one en io test) (run_statements en io body 0) (fst cw) (snd cw)) r"
proof (induction arbitrary: and and and n rule: steps_to_block_to_for_to_while_to.inducts)
  case (Then test w w1 body r l brs els)
  then show ?case by (auto simp: branch_def elim!: gives_cases)
next
  case (Elif test w w1 code l brs els r)
  then show ?case by (auto simp: branch_def elim!: gives_cases)
next
  case (Block_stop s w r ss code)
  then show ?case by (cases r) (auto simp: after_statement_def elim!: gives_cases)
next
  case (Block_next s w w1 code1 ss r code)
  then show ?case by (auto simp: after_statement_def elim!: gives_cases)
next
  case (For_round body w x w1 code1 xs r code)
  then show ?case by (auto elim!: gives_cases)
next
  case (While_end test w w1 code1 body code)
  then show ?case by (cases n) (auto elim!: gives_cases)
next
  case (While_round test w w1 body w2 code2 r code)
  show ?case
  proof (cases n)
    case (Suc m)
    have "gives (while_rounds m (run_one en io test) (run_statements en io body 0) code2 w2) r"
      using While_round(6) by simp
    then show ?thesis using While_round(2,4) Suc by (auto elim!: gives_cases)
  qed simp
qed (auto simp: list_ex_iff)

text \<open>
  C14. The run engine computes the big-step semantics of scripts: a run of the engine that reports no error
  is a run of the semantics, and a run of the semantics is the engine's, unless a loop passes the engine's
  cap on rounds.
\<close>

theorem run_engine_correct:
  "(run_script en io sp w = (w', code, None) \<longrightarrow> block_to en io (0, sp_statements sp, w) (w', code)) \<and>
   (block_to en io (0, sp_statements sp, w) (w', code) \<longrightarrow>
      run_script en io sp w = (w', code, None) \<or> snd (snd (run_script en io sp w)) = Some Iteration_cap)"
  using run_sound(2) [of en io "sp_statements sp" 0 w w' code] run_complete(2) [of en io "(0, sp_statements sp, w)" "(w', code)"]
  by (auto simp: run_script_def gives_def)

text \<open>An engine that counts the commands; \<open>test\<close> succeeds while the count is below two.\<close>

definition counting_engine :: "(nat, unit) engine" where
  "counting_engine =
     \<lparr>en_open = \<lambda>w p. (w, Inl ''no''), en_create = \<lambda>w p. (w, Inr ()), en_append = \<lambda>w p. (w, Inr ()), en_close = \<lambda>w h. w,
      en_run = \<lambda>w line io. (w + 1, if line = ''test'' \<and> 2 \<le> w then 1 else 0, None), en_set_var = \<lambda>w n v. w, en_report = \<lambda>w n. w\<rparr>"

definition counted :: "string \<Rightarrow> stmt" where
  "counted name = S_command \<lparr>sc_line = 1, sc_name = name, sc_args = [], sc_redirects = []\<rparr>"

definition counted_script :: script where
  "counted_script = \<lparr>sp_dialect = D_bash, sp_statements =
     [S_for 1 ''x'' [''a'', ''b''] [counted ''step''], S_cond 2 [(counted ''test'', [counted ''no''])] [counted ''yes'', counted ''yes'']]\<rparr>"

theorem run_engine_correct_witness:
  "block_to counting_engine \<lparr>sr_in = (), sr_out = (), sr_err = ()\<rparr> (0, sp_statements counted_script, 0) (5, 0)"
proof -
  have "run_script counting_engine \<lparr>sr_in = (), sr_out = (), sr_err = ()\<rparr> counted_script 0 = (5, 0, None)" by code_simp
  then show ?thesis by (rule mp [OF conjunct1 [OF run_engine_correct]])
qed

end
