(* ===== verification/Script_Builtin.thy ===== *)
theory Script_Builtin
  imports Plain_Lines Fish_Reader Windows_Readers Script_Run "HOL-Library.Multiset"
begin

text \<open>
  The built-ins \<open>run\<close>, \<open>explain\<close> and \<open>migrate\<close> of \<^verbatim>\<open>shell/internal/shell/builtin_script.go\<close>:
  the dispatch to the readers, and the runner that hands the command lines of a script to the executor.
\<close>

section \<open>Readers\<close>

definition read_script :: "dialect \<Rightarrow> string \<Rightarrow> script option" where
  "read_script d src = (case d of
      D_bash \<Rightarrow> read_bash src
    | D_zsh \<Rightarrow> read_zsh src
    | D_fish \<Rightarrow> read_fish src
    | D_powershell \<Rightarrow> read_powershell src
    | D_cmd \<Rightarrow> Some (read_cmd src))"

lemma read_script_total: "\<exists>stmts. read_script d src = Some \<lparr>sp_dialect = d, sp_statements = stmts\<rparr>"
  using read_bash_total [of src] read_zsh_returns [of src] read_fish_returns [of src] read_powershell_returns [of src]
  by (cases d) (auto simp: read_script_def read_cmd_def)

section \<open>The runner\<close>

text \<open>
  The calls on files, and \<open>runPipeline\<close>, which runs a pipeline with an environment on given streams.
\<close>

record ('w, 'h) file_calls =
  fc_load :: "'w \<Rightarrow> string \<Rightarrow> string + string"
  fc_open :: "'w \<Rightarrow> string \<Rightarrow> 'w \<times> (string + 'h)"
  fc_create :: "'w \<Rightarrow> string \<Rightarrow> 'w \<times> (string + 'h)"
  fc_append :: "'w \<Rightarrow> string \<Rightarrow> 'w \<times> (string + 'h)"
  fc_close :: "'w \<Rightarrow> 'h \<Rightarrow> 'w"
  fc_exec :: "'w \<Rightarrow> string list \<Rightarrow> pipeline \<Rightarrow> 'h streams \<Rightarrow> 'w \<times> int \<times> string option"

datatype script_diag =
    Sd_usage
  | Sd_load string
  | Sd_no_enricher
  | Sd_notice run_notice
  | Sd_parse parse_error
  | Sd_resolve string
  | Sd_failed run_error

text \<open>
  \<open>ss_env\<close> is \<open>localEnv\<close>. \<open>ss_open\<close> is not in the code: the streams that are open.
\<close>

record ('w, 'h) script_state =
  ss_world :: 'w
  ss_env :: env
  ss_open :: "'h list"
  ss_err :: "script_diag list"

definition script_say :: "script_diag \<Rightarrow> ('w, 'h) script_state \<Rightarrow> ('w, 'h) script_state" where
  "script_say d st = st\<lparr>ss_err := ss_err st @ [d]\<rparr>"

definition opened_with ::
  "('w \<Rightarrow> string \<Rightarrow> 'w \<times> (string + 'h)) \<Rightarrow> ('w, 'h) script_state \<Rightarrow> string \<Rightarrow> ('w, 'h) script_state \<times> (string + 'h)" where
  "opened_with f st path =
     (case f (ss_world st) path of
        (w, Inl e) \<Rightarrow> (st\<lparr>ss_world := w\<rparr>, Inl e)
      | (w, Inr h) \<Rightarrow> (st\<lparr>ss_world := w, ss_open := h # ss_open st\<rparr>, Inr h))"

definition closed_with :: "('w \<Rightarrow> 'h \<Rightarrow> 'w) \<Rightarrow> ('w, 'h) script_state \<Rightarrow> 'h \<Rightarrow> ('w, 'h) script_state" where
  "closed_with f st h = st\<lparr>ss_world := f (ss_world st) h, ss_open := remove1 h (ss_open st)\<rparr>"

definition exec_line ::
  "('w, 'h) file_calls \<Rightarrow> ('w, 'h) script_state \<Rightarrow> string \<Rightarrow> 'h streams \<Rightarrow> ('w, 'h) script_state \<times> int \<times> string option" where
  "exec_line fc st cmdline io =
     (case parse_line cmdline of
        Inl e \<Rightarrow> (script_say (Sd_parse e) st, 2, None)
      | Inr pl \<Rightarrow>
          if commands pl = [] then (st, 0, None)
          else (case fc_exec fc (ss_world st) (environ (ss_env st)) pl io of
                  (w, code, err) \<Rightarrow> (st\<lparr>ss_world := w\<rparr>, code, err)))"

text \<open>\<open>last_exit\<close> is the \<open>lastExit\<close> of the shell, which a script does not change.\<close>

definition shell_runner ::
  "'w system \<Rightarrow> ('w, 'h) file_calls \<Rightarrow> int \<Rightarrow> ('w, 'h) script_state \<Rightarrow> string \<Rightarrow> 'h streams \<Rightarrow>
     ('w, 'h) script_state \<times> int \<times> string option" where
  "shell_runner sys fc last_exit st cmdline io =
     (if cmdline = [] then (st, 0, None)
      else
        (let expanded = expand (ss_env st) cmdline last_exit; first = first_token expanded
         in if first \<noteq> [] \<and> is_known_binary sys (ss_world st) first (ss_env st) then exec_line fc st expanded io
            else
              (case sy_resolve sys of
                 None \<Rightarrow> exec_line fc st expanded io
               | Some resolve \<Rightarrow>
                   (case resolve (ss_world st) cmdline of
                      (w, Inr invocation) \<Rightarrow> exec_line fc (st\<lparr>ss_world := w\<rparr>) invocation io
                    | (w, Inl No_plugin) \<Rightarrow> exec_line fc (st\<lparr>ss_world := w\<rparr>) expanded io
                    | (w, Inl (Resolve_failed e)) \<Rightarrow> (script_say (Sd_resolve e) (st\<lparr>ss_world := w\<rparr>), 127, None)))))"

definition set_local :: "('w, 'h) script_state \<Rightarrow> string \<Rightarrow> string \<Rightarrow> ('w, 'h) script_state" where
  "set_local st name value = (case env_set (ss_env st) name value of Inl _ \<Rightarrow> st | Inr e \<Rightarrow> st\<lparr>ss_env := e\<rparr>)"

definition script_engine :: "'w system \<Rightarrow> ('w, 'h) file_calls \<Rightarrow> int \<Rightarrow> (('w, 'h) script_state, 'h) engine" where
  "script_engine sys fc last_exit =
     \<lparr>en_open = opened_with (fc_open fc), en_create = opened_with (fc_create fc), en_append = opened_with (fc_append fc),
      en_close = closed_with (fc_close fc), en_run = shell_runner sys fc last_exit, en_set_var = set_local,
      en_report = (\<lambda>st n. script_say (Sd_notice n) st)\<rparr>"

section \<open>The built-ins\<close>

text \<open>
  \<open>run\<close>: the script works on a copy of the environment. The fuel of the readers suffices
  (\<open>read_script_total\<close>), so the branch for \<open>None\<close> is not taken.
\<close>

definition run_script_builtin ::
  "'w system \<Rightarrow> ('w, 'h) file_calls \<Rightarrow> int \<Rightarrow> env \<Rightarrow> 'w \<Rightarrow> string list \<Rightarrow> 'h streams \<Rightarrow> ('w, 'h) script_state \<times> int" where
  "run_script_builtin sys fc last_exit e w args io =
     (let st = \<lparr>ss_world = w, ss_env = from_slice (environ e), ss_open = [], ss_err = []\<rparr>
      in if length args \<noteq> 1 then (script_say Sd_usage st, 2)
         else
           (case fc_load fc w (hd args) of
              Inl err \<Rightarrow> (script_say (Sd_load err) st, 1)
            | Inr src \<Rightarrow>
                (case read_script (detect (hd args) src) src of
                   None \<Rightarrow> (st, 1)
                 | Some sp \<Rightarrow>
                     (case run_script (script_engine sys fc last_exit) io sp st of
                        (st', code, Some err) \<Rightarrow> (script_say (Sd_failed err) st', 1)
                      | (st', code, None) \<Rightarrow> (st', code)))))"

definition migrate_builtin :: "('w, 'h) file_calls \<Rightarrow> 'w \<Rightarrow> string list \<Rightarrow> string \<times> script_diag list \<times> int" where
  "migrate_builtin fc w args =
     (if length args \<noteq> 1 then ([], [Sd_usage], 2)
      else
        (case fc_load fc w (hd args) of
           Inl err \<Rightarrow> ([], [Sd_load err], 1)
         | Inr src \<Rightarrow>
             (case read_script (detect (hd args) src) src of
                None \<Rightarrow> ([], [], 1)
              | Some sp \<Rightarrow> (migrate sp, [], 0))))"

text \<open>
  \<open>explain\<close>: the steps, and whether a summary is asked for. \<open>plugin\<close> says that the inference plugin
  runs; the enrichment itself is a call of the plugin.
\<close>

definition explain_builtin ::
  "('w, 'h) file_calls \<Rightarrow> env \<Rightarrow> bool \<Rightarrow> 'w \<Rightarrow> string list \<Rightarrow> explain_line list \<times> bool \<times> script_diag list \<times> int" where
  "explain_builtin fc e plugin w args =
     (let with_llm = List.member args ''--with-llm''; rest = filter (\<lambda>a. a \<noteq> ''--with-llm'') args
      in if length rest \<noteq> 1 then ([], False, [Sd_usage], 2)
         else
           (case fc_load fc w (hd rest) of
              Inl err \<Rightarrow> ([], False, [Sd_load err], 1)
            | Inr src \<Rightarrow>
                (case read_script (detect (hd rest) src) src of
                   None \<Rightarrow> ([], False, [], 1)
                 | Some sp \<Rightarrow>
                     (let enrich = with_llm \<and> value_or_empty e ''ANTHROPIC_API_KEY'' \<noteq> [] \<and> plugin
                      in (explain sp, enrich, if with_llm \<and> \<not> enrich then [Sd_no_enricher] else [], 0)))))"

end
