(* ===== verification/Script_Laws.thy ===== *)
theory Script_Laws
  imports Script_Run "HOL-Library.Multiset"
begin

text \<open>
  What a run keeps, for any engine: the streams that redirects open are closed again on every path, and
  an invariant of the runner holds after every statement.
\<close>

section \<open>The contract of an engine\<close>

text \<open>\<open>held\<close> are the open streams, \<open>ok\<close> is an invariant of the world.\<close>

locale stream_engine =
  fixes en :: "('w, 'h) engine"
    and held :: "'w \<Rightarrow> 'h multiset"
    and ok :: "'w \<Rightarrow> bool"
  assumes open_law: "ok w \<Longrightarrow> open_redirect en x w t = (w', r) \<Longrightarrow>
      ok w' \<and> held w' = (case r of Inl _ \<Rightarrow> held w | Inr h \<Rightarrow> add_mset h (held w))"
    and close_law: "ok w \<Longrightarrow> ok (en_close en w h) \<and> held (en_close en w h) = held w - {#h#}"
    and run_law: "ok w \<Longrightarrow> en_run en w line io = (w', code, err) \<Longrightarrow> ok w' \<and> held w' = held w"
    and set_law: "ok w \<Longrightarrow> ok (en_set_var en w name v) \<and> held (en_set_var en w name v) = held w"
    and report_law: "ok w \<Longrightarrow> ok (en_report en w n) \<and> held (en_report en w n) = held w"
begin

definition keeps :: "('w \<Rightarrow> 'w \<times> 'r) \<Rightarrow> bool" where
  "keeps f \<longleftrightarrow> (\<forall>w. ok w \<longrightarrow> ok (fst (f w)) \<and> held (fst (f w)) = held w)"

lemma keepsI: "(\<And>w w' r. ok w \<Longrightarrow> f w = (w', r) \<Longrightarrow> ok w' \<and> held w' = held w) \<Longrightarrow> keeps f"
  unfolding keeps_def by (metis prod.collapse)

lemma keepsD: "keeps f \<Longrightarrow> ok w \<Longrightarrow> f w = (w', r) \<Longrightarrow> ok w' \<and> held w' = held w"
  unfolding keeps_def by (metis fst_conv)

lemma close_all_held: "ok w \<Longrightarrow> ok (close_all en hs w) \<and> held (close_all en hs w) = held w - mset hs"
proof (induction hs arbitrary: w)
  case (Cons h hs)
  have "ok (en_close en w h)" "held (en_close en w h) = held w - {#h#}" using close_law [OF Cons.prems] by auto
  then show ?case using Cons.IH [of "en_close en w h"] by (simp add: close_all_def diff_diff_add_mset)
qed (simp add: close_all_def)

lemma redirects_held:
  "ok w \<Longrightarrow> held w = H + mset opened \<Longrightarrow> apply_redirects en rs opened io w = (w', r) \<Longrightarrow>
     ok w' \<and> held w' = H + (case r of Inl _ \<Rightarrow> {#} | Inr (io', hs) \<Rightarrow> mset hs)"
proof (induction rs arbitrary: opened io w)
  case (Cons x rs)
  show ?case
  proof (cases "rd_op x = Redirect_err_to_out")
    case True
    then show ?thesis using Cons by simp
  next
    case False
    obtain w1 a where a: "open_redirect en (rd_op x) w (rd_target x) = (w1, a)" by fastforce
    note o = open_law [OF Cons.prems(1) a]
    show ?thesis
    proof (cases a)
      case (Inl e)
      then show ?thesis using False a o Cons.prems close_all_held [of w1 opened] by auto
    next
      case (Inr h)
      then have "held w1 = H + mset (opened @ [h])" using o Cons.prems(2) by simp
      then show ?thesis using Cons.IH [of w1 "opened @ [h]"] False a Inr o Cons.prems(3) by simp
    qed
  qed
qed auto

lemma line_held:
  assumes "ok w" "held w = H + mset opened" "run_line en line io opened w = (w', r)"
  shows "ok w' \<and> held w' = H"
proof -
  obtain w1 c e where r: "en_run en w line io = (w1, c, e)" by (metis prod_cases3)
  have "ok w1" "held w1 = H + mset opened" using run_law [OF assms(1) r] assms(2) by auto
  then show ?thesis using close_all_held [of w1 opened] assms(3) r by (auto simp: run_line_def)
qed

text \<open>The common tail of commands and pipelines.\<close>

lemma redirected_held:
  assumes "ok w" "held w = H"
    and "(case apply_redirects en rs [] io w of
            (w1, Inl e) \<Rightarrow> (en_report en w1 (Redirect_failed l e), 1, None)
          | (w1, Inr (io', opened)) \<Rightarrow> run_line en line io' opened w1) = (w', r)"
  shows "ok w' \<and> held w' = H"
proof -
  obtain w1 a where a: "apply_redirects en rs [] io w = (w1, a)" by fastforce
  have h: "ok w1" "held w1 = H + (case a of Inl _ \<Rightarrow> {#} | Inr (io', hs) \<Rightarrow> mset hs)"
    using redirects_held [OF assms(1) _ a, of H] assms(2) by auto
  show ?thesis
  proof (cases a)
    case (Inl e)
    then show ?thesis using h assms(3) a report_law [OF h(1)] by auto
  next
    case (Inr p)
    obtain io' hs where p: "p = (io', hs)" by fastforce
    have "run_line en line io' hs w1 = (w', r)" using assms(3) a Inr p by simp
    then show ?thesis using line_held [OF h(1)] h(2) Inr p by simp
  qed
qed

lemma command_keeps: "keeps (run_command en io c)"
  unfolding run_command_def by (rule keepsI) (rule redirected_held [OF _ refl])

lemma warn_held: "ok w \<Longrightarrow> ok (warn_inner en cs w) \<and> held (warn_inner en cs w) = held w"
proof -
  have "ok (foldl (\<lambda>w c. if sc_redirects c \<noteq> [] then en_report en w (Inner_redirects (sc_line c)) else w) w ds)
     \<and> held (foldl (\<lambda>w c. if sc_redirects c \<noteq> [] then en_report en w (Inner_redirects (sc_line c)) else w) w ds) = held w"
    if "ok w" for w ds
    using that by (induction ds arbitrary: w) (auto simp: report_law)
  then show "ok w \<Longrightarrow> ?thesis" by (simp add: warn_inner_def)
qed

lemma pipe_keeps: "keeps (run_pipe en io cs)"
proof (rule keepsI)
  fix w w' r
  assume ok: "ok w" and run: "run_pipe en io cs w = (w', r)"
  let ?w = "warn_inner en cs w"
  have w: "ok ?w" "held ?w = held w" using warn_held [OF ok] by auto
  show "ok w' \<and> held w' = held w"
  proof (cases "cs = []")
    case True
    then have "run_line en (str_join '' | '' []) io [] ?w = (w', r)"
      using run unfolding run_pipe_def Let_def by (simp only: if_True refl list.map)
    then show ?thesis by (rule line_held [OF w(1), of "held w" "[]", rotated 1]) (use w(2) in simp)
  next
    case False
    show ?thesis
      by (rule redirected_held [OF w]) (use run False in \<open>simp only: run_pipe_def Let_def if_False\<close>)
  qed
qed

lemma for_keeps: "keeps body \<Longrightarrow> keeps (for_rounds (\<lambda>w x. en_set_var en w var x) body xs code)"
proof (induction xs arbitrary: code)
  case (Cons x xs)
  show ?case
  proof (rule keepsI)
    fix w w' r
    assume ok: "ok w" and run: "for_rounds (\<lambda>w x. en_set_var en w var x) body (x # xs) code w = (w', r)"
    obtain w1 c1 e1 where b: "body (en_set_var en w var x) = (w1, c1, e1)" by (metis prod_cases3)
    have "ok w1" "held w1 = held w" using keepsD [OF Cons.prems _ b] set_law [OF ok] by auto
    then show "ok w' \<and> held w' = held w"
      using run b keepsD [OF Cons.IH [OF Cons.prems], of w1 c1] by (cases e1) auto
  qed
qed (auto simp: keeps_def)

lemma while_keeps: "keeps test \<Longrightarrow> keeps body \<Longrightarrow> keeps (while_rounds n test body code)"
proof (induction n arbitrary: code)
  case (Suc n)
  show ?case
  proof (rule keepsI)
    fix w w' r
    assume ok: "ok w" and run: "while_rounds (Suc n) test body code w = (w', r)"
    obtain w1 c1 e1 where t: "test w = (w1, c1, e1)" by (metis prod_cases3)
    have w1: "ok w1" "held w1 = held w" using keepsD [OF Suc.prems(1) ok t] by auto
    obtain w2 c2 e2 where b: "body w1 = (w2, c2, e2)" by (metis prod_cases3)
    have w2: "ok w2" "held w2 = held w" using keepsD [OF Suc.prems(2) w1(1) b] w1 by auto
    show "ok w' \<and> held w' = held w"
      using run t b w1 w2 keepsD [OF Suc.IH [OF Suc.prems], of w2 c2]
      by (cases e1; cases e2; cases "c1 = 0") auto
  qed
qed (auto simp: keeps_def)

lemma after_keeps: "keeps f \<Longrightarrow> (\<And>code. keeps (rest code)) \<Longrightarrow> keeps (\<lambda>w. after_statement stop (f w) rest)"
  unfolding after_statement_def
  by (rule keepsI) (fastforce dest: keepsD split: prod.splits option.splits if_splits)

lemma branch_keeps: "keeps f \<Longrightarrow> keeps body \<Longrightarrow> keeps rest \<Longrightarrow> keeps (\<lambda>w. branch (f w) body rest)"
  unfolding branch_def
  by (rule keepsI) (fastforce dest: keepsD split: prod.splits option.splits if_splits)

lemma pure_keeps: "(\<And>w. ok w \<Longrightarrow> ok (g w) \<and> held (g w) = held w) \<Longrightarrow> keeps (\<lambda>w. (g w, r))"
  by (simp add: keeps_def)

lemma run_keeps_from:
  "en' = en \<Longrightarrow> keeps (run_one en' io s)" "en' = en \<Longrightarrow> keeps (run_statements en' io ss code)"
  "en' = en \<Longrightarrow> keeps els \<Longrightarrow> keeps (run_branches en' io brs els)" "en' = en \<Longrightarrow> keeps (run_arms en' io arms word)"
  by (induction en' io s and en' io ss and en' io brs and en' io arms arbitrary: and code and els and word
      rule: run_one_run_statements_run_branches_run_arms.induct)
     (auto simp: command_keeps pipe_keeps for_keeps while_keeps after_keeps branch_keeps set_law report_law pure_keeps)

lemma script_keeps: "keeps (run_script en io sp)"
  unfolding run_script_def by (rule run_keeps_from) (rule refl)

end

end
