(* ===== verification/Dispatch_Props.thy ===== *)
theory Dispatch_Props
  imports Plain_Lines
begin

text \<open>
  The properties of dispatch: which lines are built-ins, that a plain line reaches the executor as
  typed with the interceptors around it, and what sub-commands can and cannot do to a line.
\<close>

section \<open>Built-ins\<close>

lemma resolve_tier_builtin: "resolve_tier sys sh t = Tier_builtin \<longleftrightarrow> t \<in> set resolver_names"
  by (simp add: resolve_tier_def)

text \<open>Some test of the chain holds for a built-in line.\<close>

definition builtin_test :: "string \<Rightarrow> bool" where
  "builtin_test line \<longleftrightarrow> is_word line ''cd'' \<or> has_args line ''export'' \<or> has_args line ''restore'' \<or> is_word line ''logout''
     \<or> is_word line ''alias'' \<or> is_word line ''set'' \<or> is_word line ''exec''
     \<or> find (\<lambda>wb. is_word line (fst wb)) builtin_table \<noteq> None"

lemma builtin_line_no_run:
  assumes "builtin_test line"
  shows "dispatch_line fuel sys sh line
     = dispatch_line fuel' (sys\<lparr>sy_run := run', sy_spawn := spawn', sy_resolve := resolve'\<rparr>) sh line"
proof -
  let ?sys = "sys\<lparr>sy_run := run', sy_spawn := spawn', sy_resolve := resolve'\<rparr>"
  have "cd_line ?sys = cd_line sys" "run_builtin ?sys = run_builtin sys" "exec_builtin ?sys = exec_builtin sys"
    "sy_builtin ?sys = sy_builtin sys"
    by (simp_all add: fun_eq_iff cd_line_def run_builtin_def exec_builtin_def look_path_in_shell_env_def
        split: list.split option.split)
  with assms show ?thesis by (auto simp: builtin_test_def dispatch_line_def split: sum.split)
qed

definition word_tests :: "string list" where
  "word_tests = [''cd'', ''logout'', ''alias'', ''set'', ''exec'']"

definition arg_tests :: "string list" where
  "arg_tests = [''export'', ''restore'']"

lemma resolver_names_split:
  "set resolver_names = set (map fst builtin_table) \<union> set word_tests \<union> set arg_tests"
  by (auto simp: builtin_table_def resolver_names_def word_tests_def arg_tests_def)

lemma builtin_test_word:
  assumes "t \<in> set resolver_names" "blank_tail rest" "\<not> (rest = [] \<and> t \<in> set arg_tests)"
  shows "builtin_test (t @ rest)"
proof -
  have w: "is_word (t @ rest) t" using assms(2) by (rule is_word_head)
  consider (args) "t \<in> set arg_tests" | (test) "t \<in> set word_tests" | (table) "t \<in> set (map fst builtin_table)"
    using assms(1) unfolding resolver_names_split Un_iff by blast
  then show ?thesis
  proof cases
    case args
    then have "has_args (t @ rest) t" using assms(2,3) by (intro has_args_head) auto
    then show ?thesis using args by (auto simp: builtin_test_def arg_tests_def)
  next
    case test
    then show ?thesis using w by (auto simp: builtin_test_def word_tests_def)
  next
    case table
    then have "find (\<lambda>wb. is_word (t @ rest) (fst wb)) builtin_table \<noteq> None"
      using w by (auto simp: find_None_iff)
    then show ?thesis unfolding builtin_test_def by blast
  qed
qed

text \<open>
  C25. Dispatch and the highlighter agree on built-ins: a line whose first word the resolver calls a
  built-in never starts a pipeline, whatever the executor, the cache and the fuel, and any other line
  goes to the tiers - but the bare words \<open>export\<close> and \<open>restore\<close>, which the resolver calls built-ins,
  go to the tiers too, and so does every line that begins with a blank.
\<close>

theorem tiers_agree:
  assumes "plain_word t" "blank_tail rest"
  shows "(if resolve_tier sys sh t = Tier_builtin \<and> \<not> (rest = [] \<and> t \<in> {''export'', ''restore''})
      then dispatch_line fuel sys sh (t @ rest)
        = dispatch_line fuel' (sys\<lparr>sy_run := run', sy_spawn := spawn', sy_resolve := resolve'\<rparr>) sh (t @ rest)
      else dispatch_line fuel sys sh (t @ rest) = (run_tiers fuel sys sh (t @ rest), None))
    \<and> dispatch_line fuel sys sh (CHR '' '' # t @ rest) = (run_tiers fuel sys sh (CHR '' '' # t @ rest), None)"
proof (intro conjI)
  have first: "first_token (t @ rest) = t" using assms by (rule first_token_word)
  show "if resolve_tier sys sh t = Tier_builtin \<and> \<not> (rest = [] \<and> t \<in> {''export'', ''restore''})
      then dispatch_line fuel sys sh (t @ rest)
        = dispatch_line fuel' (sys\<lparr>sy_run := run', sy_spawn := spawn', sy_resolve := resolve'\<rparr>) sh (t @ rest)
      else dispatch_line fuel sys sh (t @ rest) = (run_tiers fuel sys sh (t @ rest), None)"
  proof (split if_split, intro conjI impI, goal_cases)
    case 1
    then have "t \<in> set resolver_names" "\<not> (rest = [] \<and> t \<in> set arg_tests)"
      unfolding resolve_tier_builtin arg_tests_def by auto
    then show ?case using builtin_test_word [OF _ assms(2)] builtin_line_no_run by blast
  next
    case 2
    show ?case
    proof (rule dispatch_line_tiers)
      have nt: "t \<notin> set resolver_names - {''export'', ''restore''}"
        using 2 unfolding resolve_tier_builtin by blast
      show "\<forall>w \<in> set resolver_names - {''export'', ''restore''}. \<not> is_word (t @ rest) w"
      proof
        fix w assume w: "w \<in> set resolver_names - {''export'', ''restore''}"
        then have "first_token (t @ rest) \<noteq> w" unfolding first using nt by blast
        then show "\<not> is_word (t @ rest) w" using w not_is_word by blast
      qed
      have "\<not> has_args (t @ rest) w" if "w \<in> {''export'', ''restore''}" for w
      proof (cases "w = t")
        case True
        then have "rest = []" using 2 that unfolding resolve_tier_builtin by (auto simp: resolver_names_def)
        then show ?thesis using True has_args_bare by simp
      next
        case False
        have "w \<in> set resolver_names" using that by (auto simp: resolver_names_def)
        then show ?thesis using not_is_word [of w "t @ rest"] first False has_args_is_word by blast
      qed
      then show "\<not> has_args (t @ rest) ''export''" "\<not> has_args (t @ rest) ''restore''" by auto
    qed
  qed
  have "\<not> is_word (CHR '' '' # l) w" if "w \<in> set resolver_names" for w l
    using resolver_names_plain that plain_word_not_blank [of w "hd w"]
    by (cases w) (auto simp: is_word_def has_args_def list_all_iff plain_word_def)
  then have no: "\<not> is_word (CHR '' '' # t @ rest) w" if "w \<in> set resolver_names" for w using that by blast
  have "''export'' \<in> set resolver_names" "''restore'' \<in> set resolver_names" by (simp_all add: resolver_names_def)
  then have "\<not> has_args (CHR '' '' # t @ rest) ''export''" "\<not> has_args (CHR '' '' # t @ rest) ''restore''"
    using no has_args_is_word by blast+
  with no show "dispatch_line fuel sys sh (CHR '' '' # t @ rest) = (run_tiers fuel sys sh (CHR '' '' # t @ rest), None)"
    by (intro dispatch_line_tiers ballI) blast+
qed

text \<open>A system whose world is the log of what was run; \<open>echo\<close> writes its arguments, \<open>cat\<close> the text it is given.\<close>

definition demo_run :: "string \<Rightarrow> string list \<Rightarrow> string list \<Rightarrow> pipeline \<Rightarrow> string \<Rightarrow> string list run_result" where
  "demo_run file w vs pl inp =
     \<lparr>rr_world = w @ map cmd_name (commands pl), rr_read = 0,
      rr_out = (case commands pl of c # _ \<Rightarrow> (if cmd_name c = ''cat'' then file else str_join '' '' (cmd_args c)) | [] \<Rightarrow> []),
      rr_err = [], rr_exit = 3, rr_error = None, rr_ms = 1\<rparr>"

definition demo_system :: "string \<Rightarrow> string list system" where
  "demo_system file =
     \<lparr>sy_dirs = \<lparr>dc_stat = \<lambda>w p. Inl ''no'', dc_chdir = \<lambda>w p. Inl ''no'', dc_getwd = \<lambda>w. None\<rparr>,
      sy_glob = \<lambda>w p. None, sy_run = demo_run file, sy_spawn = \<lambda>w vs pl. (w, Inl ''no''),
      sy_path_exists = \<lambda>w p. False, sy_look_path = \<lambda>w p f. None, sy_process_path = [], sy_resolve = None,
      sy_exec = \<lambda>w b a v. False, sy_read = \<lambda>w p. Inl (True, []), sy_toml = \<lambda>r. Inl [], sy_builtin = \<lambda>b sh a. (sh, 0)\<rparr>"

definition log_hook :: "string \<Rightarrow> string list interceptor" where
  "log_hook n = \<lparr>ic_before = \<lambda>w pl line. (w @ [n @ ''+''], None), ic_after = \<lambda>w pl line code ms. w @ [n @ ''-'']\<rparr>"

definition demo_session :: "string list shell" where
  "demo_session = \<lparr>sh_cwd = ''/d'', sh_env = env_new, sh_last_exit = 0, sh_aliases = [], sh_taint = None, sh_login = False,
     sh_jobs = new_job_table, sh_interceptors = [log_hook ''a'', log_hook ''b''], sh_stdin = [], sh_out = [], sh_err = [],
     sh_world = [], sh_overflow = False\<rparr>"

theorem tiers_agree_witness:
  "dispatch_line 0 (demo_system []) demo_session ''restore'' = (run_tiers 0 (demo_system []) demo_session ''restore'', None)
     \<and> dispatch_line 0 (demo_system []) demo_session '' cd f'' = (run_tiers 0 (demo_system []) demo_session '' cd f'', None)"
proof -
  have "plain_word ''restore''" "plain_word ''cd''" "blank_tail []" "blank_tail '' f''" by code_simp+
  from tiers_agree [OF this(1,3), of "demo_system []" demo_session 0] tiers_agree [OF this(2,4), of "demo_system []" demo_session 0]
  show ?thesis by simp
qed

section \<open>A plain line\<close>

lemma hooks_before_state:
  "\<exists>es. hooks_before pl line ics sh
     = sh\<lparr>sh_world := foldl (\<lambda>w ic. fst (ic_before ic w pl line)) (sh_world sh) ics, sh_err := sh_err sh @ es\<rparr>"
proof (induction ics arbitrary: sh)
  case Nil
  show ?case by (intro exI [of _ "[]"]) simp
next
  case (Cons ic ics)
  obtain w e where b: "ic_before ic (sh_world sh) pl line = (w, e)" by fastforce
  show ?case
  proof (cases e)
    case None
    then show ?thesis using b Cons [of "sh\<lparr>sh_world := w\<rparr>"] by auto
  next
    case (Some m)
    then show ?thesis using b Cons [of "say (Interceptor_error m) (sh\<lparr>sh_world := w\<rparr>)"] by (auto simp: say_def)
  qed
qed

lemma hooks_after_state:
  "hooks_after pl line code ms ics sh
     = sh\<lparr>sh_world := foldl (\<lambda>w ic. ic_after ic w pl line code ms) (sh_world sh) ics\<rparr>"
  by (induction ics arbitrary: sh) simp_all

text \<open>
  A foreground pipeline is run between the interceptors: \<open>Before\<close> of each in order, then the pipeline
  once, then \<open>After\<close> of each in reverse order, with the exit code that the shell takes.
\<close>

lemma run_hooked_foreground:
  assumes "\<not> background pl"
    and "r = sy_run sys (foldl (\<lambda>w ic. fst (ic_before ic w pl line)) (sh_world sh) (sh_interceptors sh))
           (environ (sh_env sh)) pl (sh_stdin sh)"
    and "code = (case rr_error r of None \<Rightarrow> rr_exit r | Some _ \<Rightarrow> 127)"
  obtains es where "run_hooked sys sh line pl = sh\<lparr>
      sh_world := foldl (\<lambda>w ic. ic_after ic w pl line code (rr_ms r)) (rr_world r) (rev (sh_interceptors sh)),
      sh_last_exit := code, sh_out := sh_out sh @ rr_out r, sh_stdin := drop (rr_read r) (sh_stdin sh),
      sh_err := sh_err sh @ es\<rparr>"
proof -
  obtain es where b: "hooks_before pl line (sh_interceptors sh) sh
     = sh\<lparr>sh_world := foldl (\<lambda>w ic. fst (ic_before ic w pl line)) (sh_world sh) (sh_interceptors sh), sh_err := sh_err sh @ es\<rparr>"
    using hooks_before_state by blast
  show thesis
  proof (cases "rr_error r")
    case None
    then show thesis
      using assms b by (intro that [of "es @ rr_err r"])
        (simp add: run_hooked_def run_pipeline_def Let_def hooks_after_state set_last_exit_def)
  next
    case (Some e)
    then show thesis
      using assms b by (intro that [of "es @ rr_err r @ [Run_error e]"])
        (simp add: run_hooked_def run_pipeline_def Let_def hooks_after_state set_last_exit_def say_def)
  qed
qed

lemma tag_nothing:
  assumes "\<forall>c \<in> set cs. \<not> is_secret_get_stage c"
  shows "tag_pipeline_taint \<lparr>commands = cs, background = b, tainted = t\<rparr> (Some {}) = \<lparr>commands = cs, background = b, tainted = t\<rparr>"
proof -
  have "\<not> command_hit (Some {}) c" if "c \<in> set cs" for c
    using assms that by (simp add: command_hit_def taint_has_def)
  then show ?thesis by (auto simp: tag_pipeline_taint_def tag_commands_map list_ex_iff map_idI)
qed

lemma dispatch_bare_line:
  assumes "list_all bare_command cs" "cs \<noteq> []" "cmd_name (hd cs) \<notin> set resolver_names"
    and "alias_get sh (cmd_name (hd cs)) = None" "\<forall>c \<in> set cs. \<not> is_secret_get_stage c"
    and "is_known_binary sys (sh_world sh) (cmd_name (hd cs)) (sh_env sh) \<or> sy_resolve sys = None"
  shows "dispatch (Suc fuel) sys sh (bare_line cs)
    = ((run_hooked sys (sh\<lparr>sh_taint := Some {}\<rparr>) (bare_line cs) \<lparr>commands = cs, background = False, tainted = False\<rparr>)
        \<lparr>sh_taint := None\<rparr>, None)"
proof -
  let ?sh = "sh\<lparr>sh_taint := Some {}\<rparr>"
  obtain c cs' where cs: "cs = c # cs'" using assms(2) by (cases cs) auto
  obtain rest where rest: "bare_line cs = cmd_name c @ rest" "blank_tail rest" "plain_word (cmd_name c)"
    using bare_line_head [of c cs'] assms(1) cs by blast
  have first: "first_token (bare_line cs) = cmd_name c" unfolding rest(1) by (rule first_token_word [OF rest(3,2)])
  have no: "\<not> is_word (bare_line cs) w" if "w \<in> set resolver_names" for w
  proof -
    have "first_token (bare_line cs) \<noteq> w" using first assms(3) that cs by auto
    then show ?thesis by (rule not_is_word [OF that])
  qed
  have "''export'' \<in> set resolver_names" "''restore'' \<in> set resolver_names" by (simp_all add: resolver_names_def)
  then have "\<not> has_args (bare_line cs) ''export''" "\<not> has_args (bare_line cs) ''restore''"
    using no has_args_is_word by blast+
  then have "dispatch_line (Suc fuel) sys ?sh (bare_line cs) = (run_tiers (Suc fuel) sys ?sh (bare_line cs), None)"
    using no by (intro dispatch_line_tiers ballI) blast+
  moreover have "run_tiers (Suc fuel) sys ?sh (bare_line cs) = run_external (Suc fuel) sys ?sh (bare_line cs)"
    using assms(1,6) cs first rest(3)
    by (auto simp: run_tiers_def Let_def expand_bare_line plain_word_def simp del: run_external.simps)
  moreover have "run_external (Suc fuel) sys ?sh (bare_line cs)
      = run_hooked sys ?sh (bare_line cs) \<lparr>commands = cs, background = False, tainted = False\<rparr>"
    using run_external_bare [OF assms(1,2), of ?sh fuel sys] assms(4) tag_nothing [OF assms(5)]
    by (simp add: alias_get_def del: run_external.simps)
  moreover have "trim_space (bare_line cs) \<noteq> []" using first rest(3) by (auto simp: first_token_def plain_word_def)
  ultimately show ?thesis by (simp add: dispatch_def new_tainted_registry_def)
qed

text \<open>
  C3. A line of bare words and pipes whose first word is neither a built-in nor an alias, and which the
  cache does not answer, runs exactly the pipeline that it spells: the interceptors see it first, in
  order, then it runs once on the session's variables and the rest of the input, then the
  interceptors see its exit code in reverse order. The exit code becomes \<open>$?\<close>, its output is
  appended, and directory, variables and aliases stay.
\<close>

theorem plain_line_runs:
  assumes "list_all bare_command cs" "cs \<noteq> []" "cmd_name (hd cs) \<notin> set resolver_names"
    and "alias_get sh (cmd_name (hd cs)) = None" "\<forall>c \<in> set cs. \<not> is_secret_get_stage c"
    and "is_known_binary sys (sh_world sh) (cmd_name (hd cs)) (sh_env sh) \<or> sy_resolve sys = None"
    and "pl = \<lparr>commands = cs, background = False, tainted = False\<rparr>" "line = bare_line cs"
    and "r = sy_run sys (foldl (\<lambda>w ic. fst (ic_before ic w pl line)) (sh_world sh) (sh_interceptors sh))
           (environ (sh_env sh)) pl (sh_stdin sh)"
    and "code = (case rr_error r of None \<Rightarrow> rr_exit r | Some _ \<Rightarrow> 127)"
  shows "\<exists>es. dispatch (Suc fuel) sys sh line = (sh\<lparr>
      sh_world := foldl (\<lambda>w ic. ic_after ic w pl line code (rr_ms r)) (rr_world r) (rev (sh_interceptors sh)),
      sh_last_exit := code, sh_out := sh_out sh @ rr_out r, sh_stdin := drop (rr_read r) (sh_stdin sh),
      sh_err := sh_err sh @ es, sh_taint := None\<rparr>, None)"
proof -
  let ?sh = "sh\<lparr>sh_taint := Some {}\<rparr>"
  have bg: "\<not> background pl" by (simp add: assms(7))
  have r: "r = sy_run sys (foldl (\<lambda>w ic. fst (ic_before ic w pl line)) (sh_world ?sh) (sh_interceptors ?sh))
      (environ (sh_env ?sh)) pl (sh_stdin ?sh)" by (simp add: assms(9))
  from run_hooked_foreground [OF bg r assms(10)] obtain es where "run_hooked sys ?sh line pl = ?sh\<lparr>
      sh_world := foldl (\<lambda>w ic. ic_after ic w pl line code (rr_ms r)) (rr_world r) (rev (sh_interceptors ?sh)),
      sh_last_exit := code, sh_out := sh_out ?sh @ rr_out r, sh_stdin := drop (rr_read r) (sh_stdin ?sh),
      sh_err := sh_err ?sh @ es\<rparr>" by metis
  then show ?thesis
    using dispatch_bare_line [OF assms(1-6)] assms(7,8) by (intro exI [of _ es]) simp
qed

theorem plain_line_runs_witness:
  "sh_world (fst (dispatch 1 (demo_system []) demo_session ''echo x | wc'')) = [''a+'', ''b+'', ''echo'', ''wc'', ''b-'', ''a-'']
     \<and> sh_last_exit (fst (dispatch 1 (demo_system []) demo_session ''echo x | wc'')) = 3"
proof -
  let ?cs = "[\<lparr>cmd_name = ''echo'', cmd_args = [''x''], cmd_tainted = False\<rparr>,
              \<lparr>cmd_name = ''wc'', cmd_args = [], cmd_tainted = False\<rparr>]"
  have facts: "list_all bare_command ?cs" "?cs \<noteq> []" "cmd_name (hd ?cs) \<notin> set resolver_names"
    "alias_get demo_session (cmd_name (hd ?cs)) = None" "\<forall>c \<in> set ?cs. \<not> is_secret_get_stage c" by code_simp+
  have sys: "is_known_binary (demo_system []) (sh_world demo_session) (cmd_name (hd ?cs)) (sh_env demo_session)
      \<or> sy_resolve (demo_system []) = None" by (simp add: demo_system_def)
  have line: "bare_line ?cs = ''echo x | wc''" by code_simp
  from plain_line_runs [OF facts sys refl refl refl refl, of 0] show ?thesis
    unfolding line by (auto simp: demo_system_def demo_session_def demo_run_def log_hook_def)
qed

section \<open>Sub-commands\<close>

text \<open>
  C4. Sub-commands are isolated: whatever the sub-commands of a line are and however deep they nest, the
  substitution pass leaves directory, variables, aliases, \<open>$?\<close>, the output and the rest of the input
  as they were; and a whole line that runs outside processes keeps directory, variables and aliases.
\<close>

theorem substitution_isolated:
  "case expand_line \<lparr>ctx_cwd = w, ctx_cmd_sub = Some (run_for_capture (run_external fuel sys))\<rparr> sh line of
     (sh', r) \<Rightarrow> sh_cwd sh' = sh_cwd sh \<and> sh_env sh' = sh_env sh \<and> sh_aliases sh' = sh_aliases sh
       \<and> sh_last_exit sh' = sh_last_exit sh \<and> sh_out sh' = sh_out sh \<and> sh_stdin sh' = sh_stdin sh
       \<and> prefix (sh_err sh) (sh_err sh')
   \<and> (let sh'' = run_external fuel sys sh line in sh_cwd sh'' = sh_cwd sh \<and> sh_env sh'' = sh_env sh
       \<and> sh_aliases sh'' = sh_aliases sh \<and> prefix (sh_out sh) (sh_out sh'') \<and> suffix (sh_stdin sh'') (sh_stdin sh))"
proof -
  obtain sh' r where e: "expand_line \<lparr>ctx_cwd = w, ctx_cmd_sub = Some (run_for_capture (run_external fuel sys))\<rparr> sh line = (sh', r)"
    by fastforce
  show ?thesis
    using substitution_captured [of sh w fuel sys line] run_external_kept [of sh fuel sys line]
    unfolding e captured_def run_kept_def settings_kept_def Let_def by simp
qed

text \<open>The parts of a line around one substitution.\<close>

definition sub_free :: "string \<Rightarrow> bool" where
  "sub_free s \<longleftrightarrow> ascii s \<and> set (map of_char s) \<inter> {34, 36, 39, 40, 41, 92::nat} = {}"

lemma expand_one_substitution:
  assumes "sub_free a" "sub_free c" "ctx_cmd_sub ctx = Some ex" "ex st c = (st', Inr out)"
  shows "expand_line ctx st (a @ ''$('' @ c @ '')'') = (st', Inr (a @ trim_right_set out [CHR 0x0A]))"
proof -
  let ?ps = "[Plain (map of_char a), Sub [Plain (map of_char c)]]"
  have s: "string_of_runes (map of_char a) = a" "string_of_runes (map of_char c) = c"
    using assms(1,2) by (simp_all add: sub_free_def string_of_runes_ascii)
  have "encode_rune 36 = ''$''" "encode_rune 40 = ''(''" "encode_rune 41 = '')''"
    by (simp_all add: encode_rune_ascii) code_simp+
  then have line: "string_of_runes (sub_renders ?ps) = a @ ''$('' @ c @ '')''" using s by simp
  have "runes_ok ?ps" using assms(1,2) by (auto simp: runes_ok_def sub_free_def ascii_def valid_rune_def list_all_iff)
  moreover have "list_all sub_ok ?ps" using assms(1,2) by (simp add: sub_free_def)
  ultimately have "expand_cmd_sub ctx 0 st (string_of_runes (sub_renders ?ps)) = run_pieces ex st ?ps"
    using assms(3) by (intro expand_cmd_sub_of_loop cmd_sub_loop_pieces) (simp_all add: max_cmd_sub_depth_def)
  then show ?thesis using line s assms(4) by (simp add: expand_line_def)
qed

lemma trim_newlines:
  "s = [] \<or> last s \<noteq> CHR 0x0A \<Longrightarrow> trim_right_set (s @ replicate n (CHR 0x0A)) [CHR 0x0A] = s"
proof -
  assume s: "s = [] \<or> last s \<noteq> CHR 0x0A"
  have "dropWhile (\<lambda>c. c = CHR 0x0A) (replicate n (CHR 0x0A) @ rev s) = dropWhile (\<lambda>c. c = CHR 0x0A) (rev s)"
    by (induction n) simp_all
  also have "\<dots> = rev s" using s by (cases s rule: rev_cases) simp_all
  finally show ?thesis by (simp add: trim_right_set_def drop_tail_def List.member_iff)
qed

lemma bare_line_last:
  assumes "list_all bare_command (d # ds)"
  shows "bare_line (d # ds) \<noteq> [] \<and> last (bare_line (d # ds)) \<noteq> CHR 0x0A"
proof -
  have word: "w \<noteq> [] \<and> last w \<noteq> CHR 0x0A" if "bare_word w" for w
  proof -
    have "\<not> is_space (of_char (last w))" "w \<noteq> []"
      using that by (auto simp: bare_word_def plain_word_def list_all_iff)
    then show ?thesis by (auto simp: is_space_def)
  qed
  have join: "ws \<noteq> [] \<Longrightarrow> \<forall>w \<in> set ws. w \<noteq> [] \<and> last w \<noteq> CHR 0x0A \<Longrightarrow> str_join sep ws \<noteq> [] \<and> last (str_join sep ws) \<noteq> CHR 0x0A"
    for sep ws by (induction ws rule: induct_list012) auto
  have "bare_text x \<noteq> [] \<and> last (bare_text x) \<noteq> CHR 0x0A" if "x \<in> set (d # ds)" for x
    unfolding bare_text_def using assms that word by (intro join) (auto simp: list_all_iff bare_command_def command_words_def)
  then show ?thesis unfolding bare_line_def by (intro join) auto
qed

lemma is_secret_get_invocation_cat: "\<not> is_secret_get_invocation ''cat''"
  by code_simp

lemma substituted_line:
  assumes "bare_word w" "sub_free w" "sub_free c" "alias_get sh w = None"
    and "list_all bare_command (d # ds)"
    and "sh_out (run_external fuel sys (sh\<lparr>sh_out := [], sh_stdin := []\<rparr>) c) = bare_line (d # ds) @ replicate n (CHR 0x0A)"
    and "sh' = fst (run_for_capture (run_external fuel sys) sh c)"
  shows "run_external (Suc fuel) sys sh (w @ '' $('' @ c @ '')'')
    = run_hooked sys sh' (w @ '' $('' @ c @ '')'')
        (tag_pipeline_taint \<lparr>commands = \<lparr>cmd_name = w, cmd_args = command_words d, cmd_tainted = False\<rparr> # ds,
           background = False, tainted = False\<rparr> (sh_taint sh'))"
proof -
  let ?cs = "\<lparr>cmd_name = w, cmd_args = command_words d, cmd_tainted = False\<rparr> # ds"
  let ?ctx = "\<lparr>ctx_cwd = sh_cwd sh, ctx_cmd_sub = Some (run_for_capture (run_external fuel sys))\<rparr>"
  let ?out = "bare_line (d # ds) @ replicate n (CHR 0x0A)"
  have cap: "run_for_capture (run_external fuel sys) sh c = (sh', Inr ?out)"
    using assms(6,7) by (simp add: run_for_capture_def Let_def)
  have free: "sub_free (w @ '' '')" using assms(2) by (auto simp: sub_free_def ascii_def)
  have "expand_line ?ctx sh ((w @ '' '') @ ''$('' @ c @ '')'') = (sh', Inr ((w @ '' '') @ trim_right_set ?out [CHR 0x0A]))"
    using expand_one_substitution [OF free assms(3), of ?ctx "run_for_capture (run_external fuel sys)"] cap by simp
  moreover have "trim_right_set ?out [CHR 0x0A] = bare_line (d # ds)"
    using trim_newlines bare_line_last [OF assms(5)] by blast
  moreover have "w @ '' '' @ bare_line (d # ds) = bare_line ?cs"
    by (cases ds) (simp_all add: bare_line_def bare_text_def command_words_def)
  ultimately have e: "expand_line ?ctx sh (w @ '' $('' @ c @ '')'') = (sh', Inr (bare_line ?cs))" by simp
  have "alias_get sh' w = None"
    using run_for_capture_captured [of "run_external fuel sys" sh c, OF run_external_kept] assms(4,7)
    by (simp add: captured_def settings_kept_def alias_get_def)
  moreover have "list_all bare_command ?cs" using assms(1,5) by (simp add: bare_command_def command_words_def)
  ultimately have "run_substituted sys sh' (w @ '' $('' @ c @ '')'') (bare_line ?cs)
      = run_hooked sys sh' (w @ '' $('' @ c @ '')'') (tag_pipeline_taint \<lparr>commands = ?cs, background = False, tainted = False\<rparr> (sh_taint sh'))"
    by (intro run_substituted_bare) simp_all
  then show ?thesis using e by simp
qed

section \<open>Captured secrets\<close>

text \<open>The words of a stage that reads a secret, as a sub-command needs them and as a stage of a line.\<close>

definition reads_secret :: "command \<Rightarrow> bool" where
  "reads_secret c \<longleftrightarrow> take 2 (command_words c) = [''secret'', ''get'']"

definition captures_secret :: "command \<Rightarrow> bool" where
  "captures_secret c \<longleftrightarrow> reads_secret c \<and> 2 < length (command_words c)"

lemma secret_stage_words: "is_secret_get_stage c \<longleftrightarrow> reads_secret c"
  by (cases "cmd_args c") (auto simp: is_secret_get_stage_def reads_secret_def command_words_def)

lemma bare_no_blank: "bare_word w \<Longrightarrow> CHR '' '' \<notin> set w \<and> CHR 0x09 \<notin> set w \<and> CHR 0x0A \<notin> set w \<and> w \<noteq> []"
proof -
  assume w: "bare_word w"
  have "\<not> is_space (of_char c)" if "c \<in> set w" for c using w that by (auto simp: bare_word_def plain_word_def list_all_iff)
  moreover have "is_space (of_char CHR '' '')" "is_space (of_char CHR 0x09)" "is_space (of_char CHR 0x0A)" by (simp_all add: is_space_def)
  moreover have "w \<noteq> []" using w by (simp add: bare_word_def plain_word_def)
  ultimately show ?thesis by blast
qed

lemma bare_join_trim: "list_all bare_word ws \<Longrightarrow> trim_space (str_join '' '' ws) = str_join '' '' ws"
proof (cases ws)
  case (Cons v vs)
  assume ws: "list_all bare_word ws"
  have ends: "xs \<noteq> [] \<Longrightarrow> list_all bare_word xs \<Longrightarrow>
      str_join '' '' xs \<noteq> [] \<and> hd (str_join '' '' xs) \<in> set (hd xs) \<and> last (str_join '' '' xs) \<in> set (last xs)" for xs
    by (induction xs rule: induct_list012) (auto simp: bare_no_blank)
  have ok: "of_char c < (128::nat) \<and> \<not> is_space (of_char c)" if "x \<in> set ws" "c \<in> set x" for c x
    using ws that by (auto simp: bare_word_def plain_word_def list_all_iff)
  have "ws \<noteq> []" using Cons by simp
  then show ?thesis
    using ends [OF _ ws] ok [OF hd_in_set, of "hd (str_join '' '' ws)"] ok [OF last_in_set, of "last (str_join '' '' ws)"]
    by (intro trim_space_id) auto
next
  case Nil
  have "trim_space [] = []" by code_simp
  then show ?thesis using Nil by simp
qed

lemma join_word:
  assumes "list_all bare_word (v # vs)" "list_all (\<lambda>c. c \<noteq> CHR '' '') k"
  shows "has_prefix (str_join '' '' (v # vs)) k \<and> take 1 (drop (length k) (str_join '' '' (v # vs))) = '' '' \<longleftrightarrow> v = k \<and> vs \<noteq> []"
proof -
  have v: "CHR '' '' \<notin> set v" and k: "CHR '' '' \<notin> set k" using assms bare_no_blank by (auto simp: list_all_iff)
  let ?s = "str_join '' '' (v # vs)"
  obtain r where r: "?s = v @ r" "r = [] \<longleftrightarrow> vs = []" "r \<noteq> [] \<longrightarrow> hd r = CHR '' ''" by (cases vs) auto
  show ?thesis
  proof
    assume a: "has_prefix ?s k \<and> take 1 (drop (length k) ?s) = '' ''"
    then obtain t where t: "?s = k @ t" "take 1 t = '' ''" by (auto simp: prefix_def)
    then have "takeWhile (\<lambda>c. c \<noteq> CHR '' '') ?s = k" using k by (cases t) (auto simp: takeWhile_append2)
    moreover have "takeWhile (\<lambda>c. c \<noteq> CHR '' '') ?s = v" using r v by (cases r) (auto simp: takeWhile_append2)
    ultimately show "v = k \<and> vs \<noteq> []" using t r by auto
  next
    assume "v = k \<and> vs \<noteq> []"
    then show "has_prefix ?s k \<and> take 1 (drop (length k) ?s) = '' ''" using r by (cases r) auto
  qed
qed

lemma captures_secret_text:
  assumes "bare_command s"
  shows "is_secret_get_invocation (bare_text s) \<longleftrightarrow> captures_secret s"
proof -
  obtain nm as where s: "command_words s = nm # as" by (simp add: command_words_def)
  let ?t = "str_join '' '' (nm # as)"
  have ws: "list_all bare_word (nm # as)" using assms s by (simp add: bare_command_def)
  have noTab: "CHR 0x09 \<notin> set ?t" using ws bare_no_blank set_str_join_subset [of "CHR 0x09" "'' ''" "nm # as"] by (auto simp: list_all_iff)
  have first: "has_prefix ?t ''secret'' \<and> take 1 (drop 6 ?t) = '' '' \<longleftrightarrow> nm = ''secret'' \<and> as \<noteq> []"
    using join_word [OF ws, of "''secret''"] by (simp add: eval_nat_numeral)
  have one: "(case x of [] \<Rightarrow> False | b # _ \<Rightarrow> b = CHR '' '' \<or> b = CHR 0x09) \<longleftrightarrow> take 1 x = '' ''" if "CHR 0x09 \<notin> set x" for x
    using that by (cases x) auto
  have inv: "is_secret_get_invocation (bare_text s) \<longleftrightarrow> has_prefix ?t ''secret'' \<and> take 1 (drop 6 ?t) = '' ''
      \<and> (let rest = trim_left_set (drop 6 ?t) ('' '' @ [CHR 0x09]) in has_prefix rest ''get'' \<and> take 1 (drop 3 rest) = '' '')"
  proof -
    have "CHR 0x09 \<notin> set (drop 6 ?t)" "CHR 0x09 \<notin> set (drop 3 (trim_left_set (drop 6 ?t) ('' '' @ [CHR 0x09])))"
      using noTab by (auto dest!: in_set_dropD simp: trim_left_set_def dest: set_dropWhileD)
    then show ?thesis
      unfolding is_secret_get_invocation_def bare_text_def s bare_join_trim [OF ws] Let_def
      by (cases "drop 6 ?t") (auto simp: one)
  qed
  show ?thesis
  proof (cases "nm = ''secret'' \<and> as \<noteq> []")
    case True
    then obtain a as' where as: "as = a # as'" by (cases as) auto
    have wa: "list_all bare_word (a # as')" using ws as by simp
    obtain x xs where x: "str_join '' '' (a # as') = x # xs" "x \<noteq> CHR '' ''" "x \<noteq> CHR 0x09"
      using wa bare_no_blank [of a] by (cases a; cases as') auto
    have "drop 6 ?t = CHR '' '' # str_join '' '' (a # as')" using True as by simp
    then have "trim_left_set (drop 6 ?t) ('' '' @ [CHR 0x09]) = str_join '' '' (a # as')"
      using x by (simp add: trim_left_set_def)
    moreover have "has_prefix (str_join '' '' (a # as')) ''get'' \<and> take 1 (drop 3 (str_join '' '' (a # as'))) = '' '' \<longleftrightarrow> a = ''get'' \<and> as' \<noteq> []"
      using join_word [OF wa, of "''get''"] by (simp add: eval_nat_numeral)
    ultimately show ?thesis using inv first True as s
      by (auto simp: captures_secret_def reads_secret_def Let_def)
  next
    case False
    then show ?thesis using inv first s by (auto simp: captures_secret_def reads_secret_def Let_def)
  qed
qed

lemma run_hooked_taint:
  assumes "\<not> background pl"
  shows "sh_taint (run_hooked sys sh line pl) = sh_taint sh"
  by (rule run_hooked_foreground [OF assms refl refl, where sys = sys and sh = sh and line = line]) simp

text \<open>Tagging a line of one command when no value is registered, and when the one value \<open>v\<close> and its raw form are.\<close>

lemma tag_one:
  "tag_pipeline_taint \<lparr>commands = [c], background = False, tainted = False\<rparr> reg
     = \<lparr>commands = [if command_hit reg c then c\<lparr>cmd_tainted := True\<rparr> else c], background = False, tainted = command_hit reg c\<rparr>"
  by (simp add: tag_pipeline_taint_def tag_commands_map)

text \<open>
  C26. A line that captures a secret is marked before the interceptors and the executor see it. For
  \<open>w $(s)\<close>, whose sub-command \<open>s\<close> is one command of bare words and writes the words \<open>ws\<close> and newlines: the
  sub-command runs as a marked pipeline exactly if it begins with the words \<open>secret get\<close>; the line then
  runs once, as the command \<open>w\<close> with the arguments \<open>ws\<close>, and it is marked exactly if the sub-command was
  \<open>secret get\<close> with a name and wrote a single word. So a secret of several words, and the confirmation
  that \<open>secret get\<close> prints (\<^verbatim>\<open>secret: value copied to clipboard\<close> and the name), leave the line unmarked,
  although the code says that the captured text must be kept out of the history in either case.
\<close>

theorem captured_secret_is_tainted:
  assumes "bare_word w" "sub_free w" "w \<noteq> ''secret''" "alias_get sh w = None" "sh_taint sh = Some {}"
    and "bare_command s" "sub_free (bare_text s)" "alias_get sh (cmd_name s) = None"
    and "list_all bare_word ws" "ws \<noteq> []"
    and "sub = sh\<lparr>sh_out := [], sh_stdin := []\<rparr>"
    and "sh_out (run_external (Suc fuel) sys sub (bare_text s)) = str_join '' '' ws @ replicate n (CHR 0x0A)"
    and "sh' = fst (run_for_capture (run_external (Suc fuel) sys) sh (bare_text s))"
    and "line = w @ '' $('' @ bare_text s @ '')''"
    and "hit \<longleftrightarrow> captures_secret s \<and> length ws = 1"
  shows "run_external (Suc fuel) sys sub (bare_text s)
      = run_hooked sys sub (bare_text s) \<lparr>commands = [s\<lparr>cmd_tainted := reads_secret s\<rparr>], background = False, tainted = reads_secret s\<rparr>
    \<and> run_external (Suc (Suc fuel)) sys sh line
      = run_hooked sys sh' line \<lparr>commands = [\<lparr>cmd_name = w, cmd_args = ws, cmd_tainted = hit\<rparr>], background = False, tainted = hit\<rparr>"
proof -
  let ?d = "\<lparr>cmd_name = hd ws, cmd_args = tl ws, cmd_tainted = False\<rparr>"
  let ?c = "\<lparr>cmd_name = w, cmd_args = ws, cmd_tainted = False\<rparr>"
  have s: "\<not> cmd_tainted s" "list_all bare_command [s]" "bare_line [s] = bare_text s" using assms(6) by (simp_all add: bare_command_def bare_line_def)
  have hit0: "command_hit (Some {}) s \<longleftrightarrow> reads_secret s" by (simp add: command_hit_def taint_has_def secret_stage_words)
  have same: "s = s\<lparr>cmd_tainted := False\<rparr>" using s(1) by (cases s) simp
  have sub: "run_external (Suc fuel) sys sub (bare_text s)
      = run_hooked sys sub (bare_text s) \<lparr>commands = [s\<lparr>cmd_tainted := reads_secret s\<rparr>], background = False, tainted = reads_secret s\<rparr>"
    using run_external_bare [OF s(2), of sub fuel sys] assms(5,8,11) s(3) same
    by (auto simp: tag_one hit0 alias_get_def simp del: run_external.simps)
  have taint: "sh_taint (run_external (Suc fuel) sys sub (bare_text s)) = Some {}"
    unfolding sub using assms(5,11) by (simp add: run_hooked_taint)
  have words: "command_words ?d = ws" "bare_line [?d] = str_join '' '' ws" "list_all bare_command [?d]"
    using assms(9,10) by (simp_all add: command_words_def bare_line_def bare_text_def bare_command_def)
  let ?out = "str_join '' '' ws @ replicate n (CHR 0x0A)"
  have run: "run_external (Suc (Suc fuel)) sys sh line
      = run_hooked sys sh' line (tag_pipeline_taint \<lparr>commands = [?c], background = False, tainted = False\<rparr> (sh_taint sh'))"
    using substituted_line [OF assms(1,2,7,4) words(3), of "Suc fuel" sys n sh'] assms(11-14) words(1,2) by simp
  have trim: "trim_right_set ?out [CHR 0x0A] = str_join '' '' ws"
    using trim_newlines bare_line_last [OF words(3)] words(2) by metis
  have ne: "str_join '' '' ws \<noteq> []" using bare_line_last [OF words(3)] words(2) by simp
  have reg: "sh_taint sh' = Some (if captures_secret s then {?out, str_join '' '' ws} else {})"
    using assms(11-13) taint captures_secret_text [OF assms(6)] trim ne
    by (auto simp: run_for_capture_def Let_def taint_add_def)
  have one: "length ws = 1" if "bare_word v" "v = ?out \<or> v = str_join '' '' ws" for v
  proof (rule ccontr)
    assume "length ws \<noteq> 1"
    then obtain x y zs where "ws = x # y # zs" using assms(10) by (cases ws rule: remdups_adj.cases) auto
    then have "CHR '' '' \<in> set v" using that(2) by auto
    then show False using bare_no_blank [OF that(1)] by simp
  qed
  have single: "ws = [str_join '' '' ws]" if "length ws = 1" using that by (cases ws) auto
  have "(\<exists>v \<in> set (w # ws). v = ?out \<or> v = str_join '' '' ws) \<longleftrightarrow> length ws = 1"
    using one assms(1,9) single by (auto simp: list_all_iff) (metis list.set_intros(1))
  then have "command_hit (sh_taint sh') ?c \<longleftrightarrow> hit"
    using assms(1,3,9,15) bare_no_blank unfolding reg
    by (auto simp: command_hit_def is_secret_get_stage_def taint_has_def list_all_iff)
  then show ?thesis using sub run by (simp add: tag_one)
qed

text \<open>A system whose programs write a secret of one word, followed by a newline.\<close>

definition secret_system :: "string list system" where
  "secret_system = (demo_system [])\<lparr>sy_run := (\<lambda>w vs pl inp.
     \<lparr>rr_world = w @ map cmd_name (commands pl), rr_read = 0, rr_out = ''pw'' @ [CHR 0x0A], rr_err = [], rr_exit = 0, rr_error = None, rr_ms = 1\<rparr>)\<rparr>"

theorem captured_secret_is_tainted_witness:
  "\<exists>sh'. run_external 2 secret_system (demo_session\<lparr>sh_interceptors := [], sh_taint := Some {}\<rparr>) ''echo $(secret get k)''
     = run_hooked secret_system sh' ''echo $(secret get k)''
         \<lparr>commands = [\<lparr>cmd_name = ''echo'', cmd_args = [''pw''], cmd_tainted = True\<rparr>], background = False, tainted = True\<rparr>"
proof -
  let ?sh = "demo_session\<lparr>sh_interceptors := [], sh_taint := Some {}\<rparr>"
  let ?s = "\<lparr>cmd_name = ''secret'', cmd_args = [''get'', ''k''], cmd_tainted = False\<rparr>"
  have facts: "bare_word ''echo''" "sub_free ''echo''" "''echo'' \<noteq> ''secret''" "alias_get ?sh ''echo'' = None" "sh_taint ?sh = Some {}"
    "bare_command ?s" "sub_free (bare_text ?s)" "alias_get ?sh (cmd_name ?s) = None" "list_all bare_word [''pw'']" "[''pw''] \<noteq> []"
    by code_simp+
  have s: "list_all bare_command [?s]" "[?s] \<noteq> []" "bare_line [?s] = bare_text ?s" "bare_text ?s = ''secret get k''"
    "captures_secret ?s \<and> length [''pw''] = 1" by code_simp+
  have out: "sh_out (run_external (Suc 0) secret_system (?sh\<lparr>sh_out := [], sh_stdin := []\<rparr>) (bare_text ?s))
      = str_join '' '' [''pw''] @ replicate 1 (CHR 0x0A)"
    using run_external_bare [OF s(1,2), of "?sh\<lparr>sh_out := [], sh_stdin := []\<rparr>" 0 secret_system] s(3)
    by (simp add: alias_get_def demo_session_def tag_one run_hooked_def run_pipeline_def secret_system_def demo_system_def Let_def
        set_last_exit_def del: run_external.simps)
  from captured_secret_is_tainted [OF facts refl out refl refl refl, THEN conjunct2] s(4,5) show ?thesis
    by (simp add: numeral_2_eq_2 del: run_external.simps) blast
qed

text \<open>
  C28. What a sub-command writes is read again as part of the line: a pipe sign in its output ends the
  command around it, and the words after the pipe are run as further commands.
\<close>

theorem substitution_output_is_syntax:
  assumes "bare_word w" "sub_free w" "sub_free c" "alias_get sh w = None"
    and "list_all bare_command (d # ds)"
    and "sh_out (run_external fuel sys (sh\<lparr>sh_out := [], sh_stdin := []\<rparr>) c) = bare_line (d # ds) @ replicate n (CHR 0x0A)"
    and "sh' = fst (run_for_capture (run_external fuel sys) sh c)"
  shows "run_external (Suc fuel) sys sh (w @ '' $('' @ c @ '')'')
    = run_hooked sys sh' (w @ '' $('' @ c @ '')'')
        (tag_pipeline_taint \<lparr>commands = \<lparr>cmd_name = w, cmd_args = command_words d, cmd_tainted = False\<rparr> # ds,
           background = False, tainted = False\<rparr> (sh_taint sh'))"
  using assms by (rule substituted_line)

theorem substitution_output_is_syntax_witness:
  "sh_world (run_external 2 (demo_system (''x | rm y'' @ [CHR 0x0A])) (demo_session\<lparr>sh_interceptors := []\<rparr>) ''echo $(cat)'')
     = [''cat'', ''echo'', ''rm'']"
proof -
  let ?sys = "demo_system (''x | rm y'' @ [CHR 0x0A])" let ?sh = "demo_session\<lparr>sh_interceptors := []\<rparr>"
  let ?d = "\<lparr>cmd_name = ''x'', cmd_args = [], cmd_tainted = False\<rparr>"
  let ?r = "\<lparr>cmd_name = ''rm'', cmd_args = [''y''], cmd_tainted = False\<rparr>"
  let ?cat = "[\<lparr>cmd_name = ''cat'', cmd_args = [], cmd_tainted = False\<rparr>]"
  have facts: "bare_word ''echo''" "sub_free ''echo''" "sub_free ''cat''" "alias_get ?sh ''echo'' = None"
    "list_all bare_command [?d, ?r]" by code_simp+
  have cat: "list_all bare_command ?cat" "?cat \<noteq> []" "bare_line ?cat = ''cat''" "bare_line [?d, ?r] = ''x | rm y''" by code_simp+
  have run: "run_external (Suc 0) ?sys (?sh\<lparr>sh_out := [], sh_stdin := []\<rparr>) ''cat''
      = ?sh\<lparr>sh_out := ''x | rm y'' @ [CHR 0x0A], sh_stdin := [], sh_world := [''cat''], sh_last_exit := 3\<rparr>"
    using run_external_bare [OF cat(1,2), of "?sh\<lparr>sh_out := [], sh_stdin := []\<rparr>" 0 ?sys]
    by (simp add: cat(3) alias_get_def demo_session_def tag_pipeline_taint_def is_secret_get_stage_def argv_matches_tainted_def
        taint_has_def run_hooked_def run_pipeline_def demo_system_def demo_run_def Let_def set_last_exit_def del: run_external.simps)
  have out: "sh_out (run_external (Suc 0) ?sys (?sh\<lparr>sh_out := [], sh_stdin := []\<rparr>) ''cat'') = bare_line [?d, ?r] @ replicate 1 (CHR 0x0A)"
    unfolding run cat(4) by simp
  note eq = substitution_output_is_syntax [OF facts out refl]
  have "fst (run_for_capture (run_external (Suc 0) ?sys) ?sh ''cat'') = ?sh\<lparr>sh_world := [''cat'']\<rparr>"
    unfolding run_for_capture_def run Let_def by (simp add: demo_session_def is_secret_get_invocation_cat)
  then show ?thesis using eq
    by (simp add: numeral_2_eq_2 demo_session_def tag_pipeline_taint_def is_secret_get_stage_def argv_matches_tainted_def
        taint_has_def run_hooked_def run_pipeline_def demo_system_def demo_run_def Let_def set_last_exit_def command_words_def
        del: run_external.simps)
qed

text \<open>A line with a sub-command inside a sub-command.\<close>

definition loop_text :: "string \<Rightarrow> string" where
  "loop_text c = ''$( $('' @ c @ '') )''"

definition loop_pieces :: "string \<Rightarrow> string \<Rightarrow> string \<Rightarrow> sub_piece list" where
  "loop_pieces a c b = [Plain (map of_char a), Sub [Plain [32], Sub [Plain (map of_char c)], Plain [32]], Plain (map of_char b)]"

lemma expand_loop_text:
  assumes "sub_free a" "sub_free b" "sub_free c" "ctx_cmd_sub ctx = Some ex"
  shows "expand_line ctx st (a @ loop_text c @ b) = run_pieces ex st (loop_pieces a c b)"
proof -
  have s: "string_of_runes (map of_char x) = x" if "sub_free x" for x using that by (simp add: sub_free_def string_of_runes_ascii)
  have "encode_rune 36 = ''$''" "encode_rune 40 = ''(''" "encode_rune 41 = '')''" "encode_rune 32 = '' ''"
    by (simp_all add: encode_rune_ascii) code_simp+
  then have line: "string_of_runes (sub_renders (loop_pieces a c b)) = a @ loop_text c @ b"
    using s assms(1-3) by (simp add: loop_pieces_def loop_text_def)
  have "runes_ok (loop_pieces a c b)"
    using assms(1-3) by (auto simp: loop_pieces_def runes_ok_def sub_free_def ascii_def valid_rune_def list_all_iff)
  moreover have "list_all sub_ok (loop_pieces a c b)" using assms(1-3) by (simp add: loop_pieces_def sub_free_def)
  moreover have "subs_depth (loop_pieces a c b) \<le> max_cmd_sub_depth" by (simp add: loop_pieces_def max_cmd_sub_depth_def)
  ultimately have "expand_cmd_sub ctx 0 st (string_of_runes (sub_renders (loop_pieces a c b))) = run_pieces ex st (loop_pieces a c b)"
    using assms(4) by (intro expand_cmd_sub_of_loop cmd_sub_loop_pieces) simp_all
  then show ?thesis using line by (simp add: expand_line_def)
qed

lemma s_of_plain: "sub_free c \<Longrightarrow> string_of_runes (map of_char c) = c"
  by (simp add: sub_free_def string_of_runes_ascii)

lemma run_external_overflow:
  assumes "sh_overflow (fst (expand_line \<lparr>ctx_cwd = sh_cwd sh, ctx_cmd_sub = Some (run_for_capture (run_external fuel sys))\<rparr> sh line))"
  shows "sh_overflow (run_external (Suc fuel) sys sh line)"
proof -
  obtain sh1 r where e: "expand_line \<lparr>ctx_cwd = sh_cwd sh, ctx_cmd_sub = Some (run_for_capture (run_external fuel sys))\<rparr> sh line = (sh1, r)"
    by fastforce
  show ?thesis
  proof (cases r)
    case (Inl err)
    then show ?thesis using e assms by (simp add: say_def set_last_exit_def)
  next
    case (Inr s)
    then show ?thesis
      using e assms run_substituted_kept [of sh1 sys line s] by (simp add: run_kept_def settings_kept_def)
  qed
qed

lemma capture_fields:
  "sh_overflow (fst (run_for_capture run sh c)) = sh_overflow (run (sh\<lparr>sh_out := [], sh_stdin := []\<rparr>) c)"
  "sh_aliases (fst (run_for_capture run sh c)) = sh_aliases (run (sh\<lparr>sh_out := [], sh_stdin := []\<rparr>) c)"
  "snd (run_for_capture run sh c) = Inr (sh_out (run (sh\<lparr>sh_out := [], sh_stdin := []\<rparr>) c))"
  by (simp_all add: run_for_capture_def Let_def)

lemma run_hooked_out:
  "\<not> background pl \<Longrightarrow> sh_out (run_hooked sys sh line pl) = sh_out sh @ rr_out
     (sy_run sys (foldl (\<lambda>w ic. fst (ic_before ic w pl line)) (sh_world sh) (sh_interceptors sh)) (environ (sh_env sh)) pl (sh_stdin sh))"
  by (rule run_hooked_foreground [OF _ refl refl, of pl sys sh line]) simp_all

lemma run_command_out:
  assumes "bare_word c" "alias_get sh c = None" "sh_out sh = []"
    and "\<forall>w vs pl inp. map cmd_name (commands pl) = [c] \<longrightarrow> rr_out (sy_run sys w vs pl inp) = text0"
  shows "sh_out (run_external (Suc fuel) sys sh c) = text0"
proof -
  let ?c = "\<lparr>cmd_name = c, cmd_args = [], cmd_tainted = False\<rparr>"
  let ?pl = "tag_pipeline_taint \<lparr>commands = [?c], background = False, tainted = False\<rparr> (sh_taint sh)"
  have "list_all bare_command [?c]" "bare_line [?c] = c"
    using assms(1) by (simp_all add: bare_command_def command_words_def bare_line_def bare_text_def)
  then have "run_external (Suc fuel) sys sh c = run_hooked sys sh c ?pl"
    using run_external_bare [of "[?c]" sh fuel sys] assms(2) by (simp del: run_external.simps)
  moreover have "\<not> background ?pl" "map cmd_name (commands ?pl) = [c]"
    by (simp_all add: tag_pipeline_taint_def tag_commands_map)
  ultimately show ?thesis using assms(3,4) by (simp add: run_hooked_out)
qed

lemma loop_text_overflows:
  assumes "bare_word c" "sub_free c"
    and out: "\<forall>w vs pl inp. map cmd_name (commands pl) = [c] \<longrightarrow> rr_out (sy_run sys w vs pl inp) = loop_text c"
  shows "sub_free a \<Longrightarrow> sub_free b \<Longrightarrow> alias_get sh c = None \<Longrightarrow> sh_overflow (run_external fuel sys sh (a @ loop_text c @ b))"
proof (induction fuel arbitrary: a b sh)
  case 0
  show ?case by simp
next
  case (Suc fuel)
  let ?ex = "run_for_capture (run_external fuel sys)"
  let ?sh = "\<lambda>sh. sh\<lparr>sh_out := [], sh_stdin := []\<rparr>"
  have blank: "sub_free '' ''" by code_simp
  obtain sh1 where sh1: "?ex sh c = (sh1, Inr (sh_out (run_external fuel sys (?sh sh) c)))"
    using capture_fields(3) [of "run_external fuel sys" sh c] by (metis prod.collapse)
  have "captured sh (fst (?ex sh c))" by (rule run_for_capture_captured) (rule run_external_kept)
  then have alias1: "alias_get sh1 c = None" using sh1 Suc.prems(3) by (simp add: captured_def settings_kept_def alias_get_def)
  have "sh_overflow (fst (run_pieces ?ex sh (loop_pieces a c b)))"
  proof (cases fuel)
    case 0
    have o1: "sh_overflow sh1" using capture_fields(1) [of "run_external fuel sys" sh c] sh1 0 by simp
    have "sh_overflow (fst (?ex sh1 s))" for s by (simp add: capture_fields(1) 0)
    then show ?thesis
      using sh1 s_of_plain [OF assms(2)] by (auto simp: loop_pieces_def run_for_capture_def Let_def 0 split: prod.split sum.split)
  next
    case (Suc k)
    have "sh_out (run_external fuel sys (?sh sh) c) = loop_text c"
      unfolding Suc by (rule run_command_out [OF assms(1) _ _ out]) (use Suc.prems in \<open>simp_all add: alias_get_def\<close>)
    moreover have "trim_right_set (loop_text c) [CHR 0x0A] = loop_text c"
      using trim_newlines [of "loop_text c" 0] by (simp add: loop_text_def)
    moreover have "sh_overflow (fst (?ex sh1 ('' '' @ loop_text c @ '' '')))"
      unfolding capture_fields(1) by (rule Suc.IH) (use alias1 blank in \<open>simp_all add: alias_get_def\<close>)
    ultimately show ?thesis
      using sh1 s_of_plain [OF assms(2)] capture_fields(3)
      by (auto simp: loop_pieces_def encode_rune_ascii char_of_blank split: prod.split sum.split)
  qed
  then show ?case
    using expand_loop_text [OF Suc.prems(1,2) assms(2), of "\<lparr>ctx_cwd = sh_cwd sh, ctx_cmd_sub = Some ?ex\<rparr>" ?ex sh]
    by (intro run_external_overflow) simp
qed

text \<open>
  C29. The nesting limit of sixteen counts the substitutions that are written in a line; the text of a
  sub-command is expanded again when it runs. A line \<open>$( $(c) )\<close> where \<open>c\<close> writes that very line
  therefore never returns: no amount of fuel suffices, although the line nests only twice.
\<close>

theorem self_reproducing_substitution:
  assumes "bare_word c" "sub_free c" "alias_get sh c = None"
    and "\<forall>w vs pl inp. map cmd_name (commands pl) = [c] \<longrightarrow> rr_out (sy_run sys w vs pl inp) = loop_text c"
  shows "sh_overflow (run_external fuel sys sh (loop_text c)) \<and> subs_depth (loop_pieces [] c []) = 2"
proof -
  have "sub_free []" by (simp add: sub_free_def ascii_def)
  then have "sh_overflow (run_external fuel sys sh ([] @ loop_text c @ []))"
    using loop_text_overflows [OF assms(1,2,4)] assms(3) by blast
  then show ?thesis by (simp add: loop_pieces_def)
qed

theorem self_reproducing_substitution_witness:
  "\<forall>fuel. sh_overflow (run_external fuel (demo_system (loop_text ''cat'')) demo_session ''$( $(cat) )'')"
proof
  fix fuel
  have "bare_word ''cat''" "sub_free ''cat''" "alias_get demo_session ''cat'' = None" by code_simp+
  moreover have "\<forall>w vs pl inp. map cmd_name (commands pl) = [''cat''] \<longrightarrow>
      rr_out (sy_run (demo_system (loop_text ''cat'')) w vs pl inp) = loop_text ''cat''"
    by (auto simp: demo_system_def demo_run_def split: list.split)
  moreover have "loop_text ''cat'' = ''$( $(cat) )''" by (simp add: loop_text_def)
  ultimately show "sh_overflow (run_external fuel (demo_system (loop_text ''cat'')) demo_session ''$( $(cat) )'')"
    using self_reproducing_substitution [of "''cat''" demo_session "demo_system (loop_text ''cat'')" fuel] by simp
qed

end
