(* ===== verification/Script_Props.thy ===== *)
theory Script_Props
  imports Script_Builtin Script_Laws Dispatch_Props
begin

text \<open>
  The properties of the built-ins \<open>run\<close>, \<open>explain\<close> and \<open>migrate\<close>: the readers always return, a run
  gives back the streams it opened, an unknown statement stops a script, and the words of a command
  reach the executor as the reader found them.
\<close>

section \<open>Readers\<close>

text \<open>
  C17. Every reader returns on every source text with a script of its dialect: the built-ins never fail
  to parse, whatever the file holds.
\<close>

theorem readers_return: "\<exists>stmts. read_script (detect path src) src = Some \<lparr>sp_dialect = detect path src, sp_statements = stmts\<rparr>"
  by (rule read_script_total)

section \<open>Streams\<close>

lemma opened_with_law:
  "opened_with f st t = (st', r) \<Longrightarrow>
     ss_env st' = ss_env st \<and> mset (ss_open st') = (case r of Inl _ \<Rightarrow> mset (ss_open st) | Inr h \<Rightarrow> add_mset h (mset (ss_open st)))"
  by (auto simp: opened_with_def split: prod.splits sum.splits)

lemma exec_line_law:
  "exec_line fc st line io = (st', r) \<Longrightarrow> ss_env st' = ss_env st \<and> ss_open st' = ss_open st"
  by (auto simp: exec_line_def script_say_def split: prod.splits sum.splits if_splits)

lemma shell_runner_law:
  "shell_runner sys fc last_exit st line io = (st', r) \<Longrightarrow> ss_env st' = ss_env st \<and> ss_open st' = ss_open st"
  by (auto simp: shell_runner_def Let_def script_say_def dest!: exec_line_law
      split: prod.splits sum.splits if_splits option.splits resolve_error.splits)

interpretation shell_scripts: stream_engine "script_engine sys fc last_exit" "\<lambda>st. mset (ss_open st)" "\<lambda>st. True"
  for sys :: "'w system" and fc :: "('w, 'h) file_calls" and last_exit
proof unfold_locales
  fix st st' :: "('w, 'h) script_state" and x t r line io code err name v n h
  show "True \<and> mset (ss_open st') = (case r of Inl _ \<Rightarrow> mset (ss_open st) | Inr h \<Rightarrow> add_mset h (mset (ss_open st)))"
    if "open_redirect (script_engine sys fc last_exit) x st t = (st', r)"
    using that by (auto simp: open_redirect_def script_engine_def dest!: opened_with_law split: if_splits)
  show "True \<and> mset (ss_open (en_close (script_engine sys fc last_exit) st h)) = mset (ss_open st) - {#h#}"
    by (simp add: script_engine_def closed_with_def)
  show "True \<and> mset (ss_open st') = mset (ss_open st)"
    if "en_run (script_engine sys fc last_exit) st line io = (st', code, err)"
    using shell_runner_law [of sys fc last_exit st line io st'] that by (simp add: script_engine_def)
  show "True \<and> mset (ss_open (en_set_var (script_engine sys fc last_exit) st name v)) = mset (ss_open st)"
    by (simp add: script_engine_def set_local_def split: sum.split)
  show "True \<and> mset (ss_open (en_report (script_engine sys fc last_exit) st n)) = mset (ss_open st)"
    by (simp add: script_engine_def script_say_def)
qed

text \<open>
  C15. A run of a script gives back every stream that its redirects opened, also when an open fails in
  the middle, a command fails or a loop is cut off.
\<close>

theorem run_releases_streams: "ss_open (fst (run_script_builtin sys fc last_exit e w args io)) = []"
proof -
  let ?st = "\<lparr>ss_world = w, ss_env = from_slice (environ e), ss_open = [], ss_err = []\<rparr>"
  have run: "ss_open st' = []" if "run_script (script_engine sys fc last_exit) io sp ?st = (st', r)" for sp st' r
    using shell_scripts.keepsD [OF shell_scripts.script_keeps TrueI that] by simp
  then show ?thesis
    by (auto simp: run_script_builtin_def Let_def script_say_def split: sum.splits option.splits prod.splits)
qed

section \<open>Unknown statements\<close>

lemma run_after_unknown:
  "run_statements en io (ss @ S_unknown l reason src # rest) code w = run_statements en io (ss @ [S_unknown l reason src]) code w"
  by (induction ss arbitrary: code w) (auto simp: after_statement_def is_unknown_def split: prod.split option.split)

lemma unknown_code: "is_unknown s \<Longrightarrow> run_one en io s w = (w', code, None) \<Longrightarrow> code = 2"
  by (auto simp: is_unknown_def split: stmt.splits)

lemma run_to_unknown:
  "run_statements en io (ss @ [S_unknown l reason src]) code w = (w', code', None) \<Longrightarrow> code' = 2"
proof (induction ss arbitrary: code w)
  case (Cons s ss)
  obtain w1 c1 e1 where r: "run_one en io s w = (w1, c1, e1)" by (metis prod_cases3)
  then show ?case using Cons unknown_code [of s en io w w1 c1] by (auto simp: after_statement_def split: option.splits if_splits)
qed (auto simp: after_statement_def is_unknown_def)

text \<open>
  C18. No statement after an unknown one at the top level of a script runs: cutting the script off behind
  it changes nothing; and unless the runner or a loop reports an error, the script ends with code 2.
\<close>

theorem unknown_stops_script:
  "run_script en io (sp\<lparr>sp_statements := ss @ S_unknown l reason src # rest\<rparr>) w
     = run_script en io (sp\<lparr>sp_statements := ss @ [S_unknown l reason src]\<rparr>) w \<and>
   (snd (snd (run_script en io (sp\<lparr>sp_statements := ss @ S_unknown l reason src # rest\<rparr>) w)) = None \<longrightarrow>
      fst (snd (run_script en io (sp\<lparr>sp_statements := ss @ S_unknown l reason src # rest\<rparr>) w)) = 2)"
proof -
  obtain w' code' e where r: "run_statements en io (ss @ [S_unknown l reason src]) 0 w = (w', code', e)" by (metis prod_cases3)
  then show ?thesis using run_to_unknown [of en io ss l reason src 0 w w' code']
    by (auto simp: run_script_def run_after_unknown [of en io ss l reason src rest])
qed

text \<open>Within a condition an unknown statement stops its block only.\<close>

lemma nested_unknown_runs_on:
  assumes "run_one en io test w = (w1, 0, None)"
  shows "run_statements en io [S_cond l [(test, [S_unknown l' reason src])] els, s] code w
     = run_statements en io [s] 2 (en_report en w1 (Cannot_translate l' reason))"
  using assms by (simp add: after_statement_def is_unknown_def branch_def)

section \<open>Words\<close>

text \<open>
  Words that survive \<open>maybeQuote\<close> and the lexer of the shell: no quotes, no dollar, no ampersand and no
  line end; blanks, bars, redirects and semicolons are quoted.
\<close>

definition script_word :: "string \<Rightarrow> bool" where
  "script_word w \<longleftrightarrow> list_all (\<lambda>c. of_char c < (128::nat)
     \<and> c \<notin> {CHR 0x27, CHR 0x22, CHR ''$'', CHR ''&'', CHR 0x0A, CHR 0x0D}) w"

definition script_words :: "script_command \<Rightarrow> bool" where
  "script_words c \<longleftrightarrow> bare_word (sc_name c) \<and> list_all script_word (sc_args c)"

definition as_command :: "script_command \<Rightarrow> command" where
  "as_command c = \<lparr>cmd_name = sc_name c, cmd_args = sc_args c, cmd_tainted = False\<rparr>"

lemma script_word_runes:
  assumes "script_word w" "c \<in> set w"
  shows "of_char c < (128::nat)" "of_char c \<notin> {39, 34, 36, 38, 10, 13::nat}"
proof -
  have a: "of_char c < (128::nat)" "c \<notin> {CHR 0x27, CHR 0x22, CHR ''$'', CHR ''&'', CHR 0x0A, CHR 0x0D}"
    using assms by (auto simp: script_word_def list_all_iff)
  have "char_of (39::nat) = CHR 0x27" "char_of (34::nat) = CHR 0x22" "char_of (36::nat) = CHR ''$''"
    "char_of (38::nat) = CHR ''&''" "char_of (10::nat) = CHR 0x0A" "char_of (13::nat) = CHR 0x0D" by code_simp+
  then have "\<forall>n \<in> {39, 34, 36, 38, 10, 13::nat}. c \<noteq> char_of n" using a(2) by auto
  then show "of_char c \<notin> {39, 34, 36, 38, 10, 13::nat}" by (metis char_of_char)
  show "of_char c < (128::nat)" using a by simp
qed

lemma in_double_quotes_plain: "CHR 0x22 \<notin> set w \<Longrightarrow> in_double_quotes w = CHR 0x22 # w @ [CHR 0x22]"
proof -
  have "CHR 0x22 \<notin> set v \<Longrightarrow> replace_all v [CHR 0x22] new = v" for v new by (induction v) auto
  then show "CHR 0x22 \<notin> set w \<Longrightarrow> ?thesis" by (simp add: in_double_quotes_def)
qed

text \<open>\<open>lexes t w\<close>: the text \<open>t\<close> writes the word \<open>w\<close>, wherever it stands.\<close>

definition lexes :: "string \<Rightarrow> string \<Rightarrow> bool" where
  "lexes t w \<longleftrightarrow> ascii t \<and> (\<forall>l rs. tokenize_loop l (map of_char t @ rs) = tokenize_loop (lex_write w l) rs)"

lemma bare_lexes: "bare_word w \<Longrightarrow> lexes w w"
  by (simp add: lexes_def bare_word_ascii tokenize_bare)

lemma quoted_lexes:
  assumes "script_word w"
  shows "lexes (maybe_quote w) w"
proof -
  note r = script_word_runes [OF assms]
  have asc: "ascii w" using r(1) by (auto simp: ascii_def list_all_iff)
  have q: "CHR 0x22 \<notin> set w" using r(2) by fastforce
  have dq: "lexes (CHR 0x22 # w @ [CHR 0x22]) w"
  proof -
    have "34 \<notin> set (map of_char w :: nat list)" using r(2) by fastforce
    then have "tokenize_loop l (34 # map of_char w @ 34 # rs) = tokenize_loop (lex_write w l) rs" for l rs
      using asc by (simp add: tokenize_double string_of_runes_ascii ascii_def)
    then show ?thesis using asc by (simp add: lexes_def ascii_def)
  qed
  consider (empty) "w = []" | (quoted) "w \<noteq> []" "contains_any w [CHR '' '', CHR 0x09, CHR ''|'', CHR ''<'', CHR ''>'', CHR '';'']"
    | (plain) "w \<noteq> []" "\<not> contains_any w [CHR '' '', CHR 0x09, CHR ''|'', CHR ''<'', CHR ''>'', CHR '';'']" by blast
  then show ?thesis
  proof cases
    case empty
    then show ?thesis using dq by (simp add: maybe_quote_def)
  next
    case quoted
    then show ?thesis using dq by (simp add: maybe_quote_def in_double_quotes_plain [OF q])
  next
    case plain
    have c: "c \<notin> {CHR '' '', CHR 0x09, CHR ''|''}" if "c \<in> set w" for c
      using plain(2) that by (auto simp: contains_any_def list_ex_iff)
    have "of_char c \<notin> {124, 32, 9::nat}" if "c \<in> set w" for c
    proof -
      have "char_of (124::nat) = CHR ''|''" "char_of (32::nat) = CHR '' ''" "char_of (9::nat) = CHR 0x09" by code_simp+
      then have "\<forall>n \<in> {124, 32, 9::nat}. c \<noteq> char_of n" using c [OF that] by auto
      then show ?thesis by (metis char_of_char)
    qed
    then have "\<forall>c \<in> set w. of_char c < (128::nat) \<and> of_char c \<notin> {39, 34, 124, 38::nat} \<and> \<not> is_blank (of_char c)"
      using r by (fastforce simp: is_blank_def)
    then show ?thesis using plain asc by (simp add: lexes_def maybe_quote_def tokenize_bare_chars)
  qed
qed

lemma lexesD: "lexes t w \<Longrightarrow> tokenize_loop l (map of_char t @ rs) = tokenize_loop (lex_write w l) rs"
  by (simp add: lexes_def)

text \<open>A text of words, before a separator: all but the last word are tokens, the last one is written.\<close>

lemma tokenize_lexed_words:
  "list_all (\<lambda>(t, w). lexes t w) tws \<Longrightarrow> tws \<noteq> [] \<Longrightarrow> at_rest l \<Longrightarrow>
     tokenize_loop l (map of_char (str_join '' '' (map fst tws)) @ rs)
       = tokenize_loop (lex_write (snd (last tws)) (add_tokens (map (Token TokWord) (map snd (butlast tws))) l)) rs"
proof (induction tws arbitrary: l rule: induct_list012)
  case (2 tw)
  then show ?case by (cases tw) (simp add: lexesD)
next
  case (3 tw uw tws)
  have b: "is_blank 32" "of_char (CHR '' '') = (32::nat)" by (simp_all add: is_blank_def)
  obtain t w where tw: "tw = (t, w)" by fastforce
  have "tokenize_loop l (map of_char (str_join '' '' (map fst (tw # uw # tws))) @ rs)
      = tokenize_loop (add_token (Token TokWord w) l) (map of_char (str_join '' '' (map fst (uw # tws))) @ rs)"
    using lexesD [of t w l] 3(3,5) b tw by (simp add: tokenize_blank)
  with 3 tw show ?case by simp
qed simp

definition command_texts :: "script_command \<Rightarrow> (string \<times> string) list" where
  "command_texts c = (sc_name c, sc_name c) # map (\<lambda>a. (maybe_quote a, a)) (sc_args c)"

lemma command_texts_lex: "script_words c \<Longrightarrow> list_all (\<lambda>(t, w). lexes t w) (command_texts c)"
  using bare_lexes quoted_lexes by (auto simp: script_words_def list_all_iff command_texts_def)

lemma format_command_texts: "format_command_no_redirect c = str_join '' '' (map fst (command_texts c))"
  by (simp add: format_command_no_redirect_def command_texts_def comp_def)

lemma command_texts_words: "map snd (command_texts c) = command_words (as_command c)"
  by (simp add: command_words_def as_command_def comp_def command_texts_def)

lemma tokenize_script_command:
  assumes "script_words c" "at_rest l"
  obtains l' where "\<And>rs. tokenize_loop l (map of_char (format_command_no_redirect c) @ rs) = tokenize_loop l' rs"
    and "lex_flush l' = add_tokens (command_tokens (as_command c)) l"
proof -
  let ?t = "command_texts c"
  have ne: "?t \<noteq> []" by (simp add: command_texts_def)
  have "map (Token TokWord) (map snd (butlast ?t)) @ [Token TokWord (snd (last ?t))] = map (Token TokWord) (map snd ?t)"
    using ne by (metis append_butlast_last_id list.simps(8,9) map_append)
  then have f: "lex_flush (lex_write (snd (last ?t)) (add_tokens (map (Token TokWord) (map snd (butlast ?t))) l))
      = add_tokens (command_tokens (as_command c)) l"
    using assms(2) by (simp add: command_texts_words command_tokens_def command_words_def)
  show thesis
    by (rule that [OF _ f]) (simp only: format_command_texts tokenize_lexed_words [OF command_texts_lex [OF assms(1)] ne assms(2)])
qed

definition script_pipe_line :: "script_command list \<Rightarrow> string" where
  "script_pipe_line cs = str_join '' | '' (map format_command_no_redirect cs)"

lemma tokenize_script_pipe:
  "list_all script_words cs \<Longrightarrow> cs \<noteq> [] \<Longrightarrow> at_rest l \<Longrightarrow>
     tokenize_loop l (map of_char (script_pipe_line cs)) = Inr (lex_tokens l @ pipeline_tokens (map as_command cs))"
proof (induction cs arbitrary: l rule: induct_list012)
  case (2 c)
  have "script_words c" using 2 by simp
  from tokenize_script_command [OF this 2(3)] obtain l' where
    l': "\<And>rs. tokenize_loop l (map of_char (format_command_no_redirect c) @ rs) = tokenize_loop l' rs"
    "lex_flush l' = add_tokens (command_tokens (as_command c)) l" by blast
  then show ?case using l'(1) [of "[]"] by (simp add: script_pipe_line_def)
next
  case (3 c d cs)
  have "script_words c" using 3 by simp
  from tokenize_script_command [OF this 3(5)] obtain l' where
    l': "\<And>rs. tokenize_loop l (map of_char (format_command_no_redirect c) @ rs) = tokenize_loop l' rs"
    "lex_flush l' = add_tokens (command_tokens (as_command c)) l" by blast
  have b: "is_blank 32" "of_char (CHR '' '') = (32::nat)" "of_char (CHR ''|'') = (124::nat)" by (simp_all add: is_blank_def)
  have "script_pipe_line (c # d # cs) = format_command_no_redirect c @ '' | '' @ script_pipe_line (d # cs)"
    by (simp add: script_pipe_line_def)
  then have "tokenize_loop l (map of_char (script_pipe_line (c # d # cs)))
      = tokenize_loop (add_tokens (command_tokens (as_command c) @ [Token TokPipe []]) l) (map of_char (script_pipe_line (d # cs)))"
    using l' b 3(5) by (simp add: tokenize_blank tokenize_pipe)
  then show ?case using 3 by simp
qed simp

lemma script_pipe_ascii: "list_all script_words cs \<Longrightarrow> ascii (script_pipe_line cs)"
proof -
  assume cs: "list_all script_words cs"
  have "list_all ascii (map format_command_no_redirect cs)"
    unfolding format_command_texts using cs command_texts_lex
    by (auto simp: list_all_iff lexes_def split_beta intro!: ascii_str_join) (simp add: ascii_def)
  then show ?thesis unfolding script_pipe_line_def by (rule ascii_str_join) (simp add: ascii_def)
qed

lemma parse_script_pipe:
  assumes "list_all script_words cs" "cs \<noteq> []"
  shows "parse_line (script_pipe_line cs) = Inr \<lparr>commands = map as_command cs, background = False, tainted = False\<rparr>"
proof -
  let ?cs = "map as_command cs"
  have ne: "?cs \<noteq> []" using assms(2) by simp
  have "tokenize (script_pipe_line cs) = Inr (pipeline_tokens ?cs)"
    using tokenize_script_pipe [OF assms at_rest_simps(1)] script_pipe_ascii [OF assms(1)]
    by (simp add: tokenize_def runes_of_ascii) (simp add: lex_start_def)
  moreover have "map stage_command (map command_words (butlast ?cs) @ [command_words (last ?cs)]) = ?cs"
  proof -
    have "map command_words (butlast ?cs) @ [command_words (last ?cs)] = map command_words ?cs"
      using ne by (metis append_butlast_last_id list.simps(8) list.simps(9) map_append)
    moreover have "stage_command (command_words (as_command c)) = as_command c" for c
      by (simp add: stage_command_def command_words_def as_command_def)
    ultimately show ?thesis by simp
  qed
  ultimately show ?thesis
    using ne peel_amp_none [OF pipeline_tokens_no_amp] split_stages_pipeline [OF ne] pipeline_tokens_not_Nil [OF ne]
    by (auto simp: parse_line_def parse_tokens_def command_words_def)
qed


lemma expand_no_dollar: "ascii s \<Longrightarrow> CHR ''$'' \<notin> set s \<Longrightarrow> expand e s x = s"
proof -
  have loop: "36 \<notin> set rs \<Longrightarrow> expand_loop e x inS inD rs = string_of_runes rs" for inS inD rs
    by (induction rs arbitrary: inS inD) (auto simp: expand_loop.simps(2))
  assume a: "ascii s" "CHR ''$'' \<notin> set s"
  have "36 \<notin> set (map of_char s :: nat list)"
  proof
    assume "36 \<in> set (map of_char s :: nat list)"
    then obtain c where c: "c \<in> set s" "of_char c = (36::nat)" by auto
    have "char_of (36::nat) = CHR ''$''" by code_simp
    then show False using c a(2) by (metis char_of_char)
  qed
  then show ?thesis using a by (simp add: expand_def runes_of_ascii loop string_of_runes_ascii ascii_def)
qed

lemma script_pipe_no_dollar: "list_all script_words cs \<Longrightarrow> CHR ''$'' \<notin> set (script_pipe_line cs)"
proof -
  assume cs: "list_all script_words cs"
  have w: "CHR ''$'' \<notin> set (maybe_quote w)" if "script_word w" for w
  proof -
    have "CHR 0x22 \<notin> set w" "CHR ''$'' \<notin> set w" using that by (auto simp: script_word_def list_all_iff)
    then show ?thesis by (simp add: maybe_quote_def in_double_quotes_plain)
  qed
  have "CHR ''$'' \<notin> set (format_command_no_redirect c)" if "c \<in> set cs" for c
  proof
    assume "CHR ''$'' \<in> set (format_command_no_redirect c)"
    then have "\<exists>u \<in> set (sc_name c # map maybe_quote (sc_args c)). CHR ''$'' \<in> set u"
      using set_str_join_subset [of "CHR ''$''" "'' ''"] unfolding format_command_no_redirect_def by fastforce
    then show False using cs that w by (auto simp: list_all_iff script_words_def bare_word_def)
  qed
  then show ?thesis
    using set_str_join_subset [of "CHR ''$''" "'' | ''" "map format_command_no_redirect cs"] by (auto simp: script_pipe_line_def)
qed

lemma script_pipe_head:
  assumes "list_all script_words (c # cs)"
  shows "first_token (script_pipe_line (c # cs)) = sc_name c"
proof -
  have p: "plain_word (sc_name c)" using assms by (simp add: script_words_def bare_word_def)
  obtain r where r: "format_command_no_redirect c = sc_name c @ r" "blank_tail r"
    by (cases "sc_args c") (auto simp: format_command_no_redirect_def)
  have "\<exists>rest. script_pipe_line (c # cs) = sc_name c @ rest \<and> blank_tail rest"
    using r by (cases cs) (auto simp: script_pipe_line_def intro: blank_tail_append)
  then show ?thesis using first_token_word [OF p] by auto
qed

lemma run_pipe_plain:
  assumes "list_all (\<lambda>c. sc_redirects c = []) cs" "cs \<noteq> []"
  shows "run_pipe en io cs w = run_line en (script_pipe_line cs) io [] w"
proof -
  have "foldl (\<lambda>w c. if sc_redirects c \<noteq> [] then en_report en w (Inner_redirects (sc_line c)) else w) w ds = w"
    if "list_all (\<lambda>c. sc_redirects c = []) ds" for ds
    using that by (induction ds) auto
  moreover have "list_all (\<lambda>c. sc_redirects c = []) (butlast cs)" using assms(1) by (auto simp: list_all_iff dest: in_set_butlastD)
  ultimately have "warn_inner en cs w = w" by (simp add: warn_inner_def)
  moreover have "sc_redirects (last cs) = []" using assms by (auto simp: list_all_iff)
  ultimately show ?thesis using assms(2) by (simp add: run_pipe_def script_pipe_line_def Let_def)
qed

lemma run_command_pipe: "run_command en io c w = run_pipe en io [c] w"
  by (simp add: run_command_def run_pipe_def warn_inner_def)

text \<open>
  C16. The words of a pipeline whose first command is a known program, or of any pipeline in a shell
  without an intent cache, reach the executor as the reader
  found them, one argument each, blanks, bars, redirects and semicolons included, with the variables of the
  script; the words have no quotes, dollars, ampersands or line ends.
\<close>

theorem script_words_reach_exec:
  assumes "list_all script_words cs" "cs \<noteq> []" "list_all (\<lambda>c. sc_redirects c = []) cs"
    and "is_known_binary sys (ss_world st) (sc_name (hd cs)) (ss_env st) \<or> sy_resolve sys = None"
  shows "run_one (script_engine sys fc last_exit) io (S_pipe l cs) st
     = (case fc_exec fc (ss_world st) (environ (ss_env st)) \<lparr>commands = map as_command cs, background = False, tainted = False\<rparr> io of
          (w, code, err) \<Rightarrow> (st\<lparr>ss_world := w\<rparr>, code, map_option Runner_failed err))"
proof -
  obtain c ds where cs: "cs = c # ds" using assms(2) by (cases cs) auto
  have first: "first_token (script_pipe_line cs) = sc_name (hd cs)" using script_pipe_head assms(1) cs by simp
  have ne: "sc_name (hd cs) \<noteq> []" using assms(1) cs by (simp add: script_words_def bare_word_def plain_word_def)
  have "script_pipe_line cs \<noteq> []"
  proof -
    have "trim_space [] = []" by code_simp
    then show "script_pipe_line cs \<noteq> []" using ne first by (auto simp: first_token_def)
  qed
  moreover have "expand e (script_pipe_line cs) x = script_pipe_line cs" for e x
    by (rule expand_no_dollar [OF script_pipe_ascii [OF assms(1)] script_pipe_no_dollar [OF assms(1)]])
  ultimately have "shell_runner sys fc last_exit st (script_pipe_line cs) io = exec_line fc st (script_pipe_line cs) io"
    using first ne assms(4) by (auto simp: shell_runner_def Let_def)
  then show ?thesis
    using parse_script_pipe [OF assms(1,2)] assms(2)
    by (simp add: run_pipe_plain [OF assms(3,2)] run_line_def script_engine_def exec_line_def close_all_def split: prod.split)
qed

definition demo_files :: "(string list, unit) file_calls" where
  "demo_files =
     \<lparr>fc_load = \<lambda>w p. Inl ''no'', fc_open = \<lambda>w p. (w, Inl ''no''), fc_create = \<lambda>w p. (w, Inr ()), fc_append = \<lambda>w p. (w, Inr ()),
      fc_close = \<lambda>w h. w, fc_exec = \<lambda>w vs pl io. (w @ concat (map (\<lambda>c. cmd_name c # cmd_args c) (commands pl)), 3, None)\<rparr>"

definition demo_state :: "(string list, unit) script_state" where
  "demo_state = \<lparr>ss_world = [], ss_env = env_new, ss_open = [], ss_err = []\<rparr>"

definition demo_streams :: "unit streams" where
  "demo_streams = \<lparr>sr_in = (), sr_out = (), sr_err = ()\<rparr>"

theorem script_words_reach_exec_witness:
  "run_one (script_engine (demo_system []) demo_files 0) demo_streams
     (S_pipe 1 [\<lparr>sc_line = 1, sc_name = ''echo'', sc_args = [''a b|c'', []], sc_redirects = []\<rparr>,
                \<lparr>sc_line = 1, sc_name = ''wc'', sc_args = [], sc_redirects = []\<rparr>]) demo_state
   = (demo_state\<lparr>ss_world := [''echo'', ''a b|c'', [], ''wc'']\<rparr>, 3, None)"
proof -
  let ?cs = "[\<lparr>sc_line = 1, sc_name = ''echo'', sc_args = [''a b|c'', []], sc_redirects = []\<rparr>,
                \<lparr>sc_line = 1, sc_name = ''wc'', sc_args = [], sc_redirects = []\<rparr>]"
  have facts: "list_all script_words ?cs" "?cs \<noteq> []" "list_all (\<lambda>c. sc_redirects c = []) ?cs" by code_simp+
  have "is_known_binary (demo_system []) (ss_world demo_state) (sc_name (hd ?cs)) (ss_env demo_state) \<or> sy_resolve (demo_system []) = None"
    by (simp add: demo_system_def)
  from script_words_reach_exec [OF facts this, of demo_files 0 demo_streams 1]
  show ?thesis by (simp add: demo_files_def demo_state_def as_command_def)
qed

definition demo_script :: script where
  "demo_script = \<lparr>sp_dialect = D_bash, sp_statements = []\<rparr>"

theorem unknown_stops_script_witness:
  "fst (snd (run_script (script_engine (demo_system []) demo_files 0) demo_streams
     (demo_script\<lparr>sp_statements := [S_assign 1 ''x'' ''1'' False] @ S_unknown 2 ''no'' ''y'' # [S_assign 3 ''x'' ''2'' False]\<rparr>) demo_state)) = 2"
  by (rule mp [OF conjunct2 [OF unknown_stops_script]])
     (simp add: demo_script_def run_script_def after_statement_def is_unknown_def)

end
