(* ===== verification/Plain_Scripts.thy ===== *)
theory Plain_Scripts
  imports Bash_Reader
begin

text \<open>
  Scripts of plain words, what their single statements are printed as, and how the tokenizer, the
  statement parser and the block parser read such a line.
\<close>

section \<open>Plain scripts\<close>

text \<open>
  Plain characters have no meaning for the tokenizer and for \<open>classifyUnsupported\<close>: printable ASCII
  without quotes, backslash, backtick, dollar, bar, ampersand, angle brackets, semicolon, parentheses
  and the opening bracket.
\<close>

definition plain_char :: "char \<Rightarrow> bool" where
  "plain_char c \<longleftrightarrow> 32 < (of_char c :: nat) \<and> (of_char c :: nat) < 127
     \<and> c \<notin> {CHR 0x22, CHR 0x27, CHR 0x5C, CHR 0x60, CHR ''$'', CHR ''|'', CHR ''&'', CHR ''<'', CHR ''>'', CHR '';'', CHR ''('', CHR '')'', CHR ''[''}"

definition plain_text :: "string \<Rightarrow> bool" where
  "plain_text w \<longleftrightarrow> w \<noteq> [] \<and> list_all plain_char w"

definition plain_arg :: "string \<Rightarrow> bool" where
  "plain_arg w \<longleftrightarrow> list_all (\<lambda>c. plain_char c \<or> c = CHR '' '') w"

definition reserved :: "string list" where
  "reserved = [''if'', ''then'', ''elif'', ''else'', ''fi'', ''for'', ''while'', ''do'', ''done'', ''case'', ''esac'', ''function'',
     ''{'', ''}'', ''select'', ''trap'']"

definition plain_name :: "string \<Rightarrow> bool" where
  "plain_name w \<longleftrightarrow> plain_text w \<and> CHR ''='' \<notin> set w \<and> hd w \<noteq> CHR ''#'' \<and> \<not> List.member reserved w"

definition plain_redirect :: "redirect \<Rightarrow> bool" where
  "plain_redirect r \<longleftrightarrow> (if rd_op r = Redirect_err_to_out then rd_target r = [] else plain_text (rd_target r))"

definition plain_command :: "script_command \<Rightarrow> bool" where
  "plain_command c \<longleftrightarrow> plain_name (sc_name c) \<and> list_all plain_arg (sc_args c) \<and> list_all plain_redirect (sc_redirects c)"

definition plain_comment :: "string \<Rightarrow> bool" where
  "plain_comment t \<longleftrightarrow> has_prefix t ''#'' \<and> list_all (\<lambda>c. 32 \<le> (of_char c :: nat) \<and> (of_char c :: nat) < 127) t
     \<and> last t \<noteq> CHR '' '' \<and> \<not> ends_with_continuation t"

fun plain_simple :: "stmt \<Rightarrow> bool" where
  "plain_simple (S_assign l n v x) \<longleftrightarrow> \<not> x \<and> is_ident n \<and> plain_arg v"
| "plain_simple (S_command c) \<longleftrightarrow> plain_command c"
| "plain_simple (S_pipe l cs) \<longleftrightarrow> 2 \<le> length cs \<and> list_all plain_command cs"
| "plain_simple s \<longleftrightarrow> False"

definition plain_test :: "stmt \<Rightarrow> bool" where
  "plain_test s \<longleftrightarrow> plain_simple s \<and> (case s of S_assign _ _ _ _ \<Rightarrow> False | _ \<Rightarrow> True)"

fun plain_stmt :: "stmt \<Rightarrow> bool"
  and plain_block :: "stmt list \<Rightarrow> bool"
  and plain_branches :: "(stmt \<times> stmt list) list \<Rightarrow> bool"
  and plain_arms :: "(string list \<times> stmt list) list \<Rightarrow> bool" where
  "plain_stmt (S_comment l t) \<longleftrightarrow> plain_comment t"
| "plain_stmt (S_cond l brs els) \<longleftrightarrow> brs \<noteq> [] \<and> plain_branches brs \<and> plain_block els"
| "plain_stmt (S_for l var ws body) \<longleftrightarrow> plain_text var \<and> ws \<noteq> [] \<and> list_all plain_arg ws \<and> plain_block body"
| "plain_stmt (S_while l test body) \<longleftrightarrow> plain_test test \<and> plain_block body"
| "plain_stmt (S_case l word arms) \<longleftrightarrow> plain_text word \<and> plain_arms arms"
| "plain_stmt (S_func l name body) \<longleftrightarrow> is_ident name \<and> plain_block body"
| "plain_stmt s \<longleftrightarrow> plain_simple s"
| "plain_block [] \<longleftrightarrow> True"
| "plain_block (s # ss) \<longleftrightarrow> plain_stmt s \<and> plain_block ss"
| "plain_branches [] \<longleftrightarrow> True"
| "plain_branches ((t, body) # brs) \<longleftrightarrow> plain_test t \<and> plain_block body \<and> plain_branches brs"
| "plain_arms [] \<longleftrightarrow> True"
| "plain_arms ((pats, body) # arms) \<longleftrightarrow> pats \<noteq> [] \<and> list_all plain_text pats \<and> list_all plain_simple body \<and> plain_arms arms"

text \<open>A script without its line numbers.\<close>

definition no_line :: "script_command \<Rightarrow> script_command" where
  "no_line c = c\<lparr>sc_line := 0\<rparr>"

primrec no_lines :: "stmt \<Rightarrow> stmt" where
  "no_lines (S_comment l t) = S_comment 0 t"
| "no_lines (S_assign l n v x) = S_assign 0 n v x"
| "no_lines (S_command c) = S_command (no_line c)"
| "no_lines (S_pipe l cs) = S_pipe 0 (map no_line cs)"
| "no_lines (S_cond l brs els) = S_cond 0 (map (map_prod no_lines (map no_lines)) brs) (map no_lines els)"
| "no_lines (S_for l var ws body) = S_for 0 var ws (map no_lines body)"
| "no_lines (S_while l test body) = S_while 0 (no_lines test) (map no_lines body)"
| "no_lines (S_case l word arms) = S_case 0 word (map (map_prod (\<lambda>p. p) (map no_lines)) arms)"
| "no_lines (S_func l name body) = S_func 0 name (map no_lines body)"
| "no_lines (S_unknown l reason src) = S_unknown 0 reason src"

text \<open>
  What the bash reader makes of a statement that \<open>migrate\<close> printed, without its line numbers: the same
  statement, but in a conditional with an \<open>else\<close> the block before the \<open>else\<close> is empty, because
  \<open>parseIf\<close> goes back to the top of its loop after the \<open>else\<close> block and sets the body of the last branch
  once more.
\<close>

definition empty_last :: "('a \<times> 'b list) list \<Rightarrow> ('a \<times> 'b list) list" where
  "empty_last bs = (if bs = [] then [] else butlast bs @ [(fst (last bs), [])])"

primrec as_read :: "stmt \<Rightarrow> stmt" where
  "as_read (S_comment l t) = S_comment 0 t"
| "as_read (S_assign l n v x) = S_assign 0 n v x"
| "as_read (S_command c) = S_command (no_line c)"
| "as_read (S_pipe l cs) = S_pipe 0 (map no_line cs)"
| "as_read (S_cond l brs els) =
     S_cond 0 ((if els = [] then \<lambda>b. b else empty_last) (map (map_prod as_read (map as_read)) brs)) (map as_read els)"
| "as_read (S_for l var ws body) = S_for 0 var ws (map as_read body)"
| "as_read (S_while l test body) = S_while 0 (as_read test) (map as_read body)"
| "as_read (S_case l word arms) = S_case 0 word (map (map_prod (\<lambda>p. p) (map as_read)) arms)"
| "as_read (S_func l name body) = S_func 0 name (map as_read body)"
| "as_read (S_unknown l reason src) = S_unknown 0 reason src"

primrec has_else :: "stmt \<Rightarrow> bool" where
  "has_else (S_comment l t) = False"
| "has_else (S_assign l n v x) = False"
| "has_else (S_command c) = False"
| "has_else (S_pipe l cs) = False"
| "has_else (S_cond l brs els) \<longleftrightarrow>
     els \<noteq> [] \<or> list_ex (\<lambda>(t, b). t \<or> list_ex (\<lambda>h. h) b) (map (map_prod has_else (map has_else)) brs)"
| "has_else (S_for l var ws body) = list_ex (\<lambda>h. h) (map has_else body)"
| "has_else (S_while l test body) = (has_else test \<or> list_ex (\<lambda>h. h) (map has_else body))"
| "has_else (S_case l word arms) = list_ex (\<lambda>(ps, b). list_ex (\<lambda>h. h) b) (map (map_prod (\<lambda>p. p) (map has_else)) arms)"
| "has_else (S_func l name body) = list_ex (\<lambda>h. h) (map has_else body)"
| "has_else (S_unknown l reason src) = False"

lemma as_read_no_else: "\<not> has_else s \<Longrightarrow> as_read s = no_lines s"
  by (induction s) (force simp: list_ex_iff)+

lemma plain_simple_no_else: "plain_simple s \<Longrightarrow> \<not> has_else s"
  by (cases s) auto

section \<open>Tokens\<close>

lemma plain_char_code:
  assumes "plain_char c"
  shows "of_char c < (128::nat)"
    "(of_char c :: nat) \<notin> {34, 39, 92, 96, 36, 124, 38, 60, 62, 59, 40, 41, 91, 32, 9, 10, 13}"
proof -
  have a: "32 < (of_char c :: nat)" "(of_char c :: nat) < 127"
    "c \<notin> {CHR 0x22, CHR 0x27, CHR 0x5C, CHR 0x60, CHR ''$'', CHR ''|'', CHR ''&'', CHR ''<'', CHR ''>'', CHR '';'', CHR ''('', CHR '')'', CHR ''[''}"
    using assms by (auto simp: plain_char_def)
  have "char_of (34::nat) = CHR 0x22" "char_of (39::nat) = CHR 0x27" "char_of (92::nat) = CHR 0x5C" "char_of (96::nat) = CHR 0x60"
    "char_of (36::nat) = CHR ''$''" "char_of (124::nat) = CHR ''|''" "char_of (38::nat) = CHR ''&''" "char_of (60::nat) = CHR ''<''"
    "char_of (62::nat) = CHR ''>''" "char_of (59::nat) = CHR '';''" "char_of (40::nat) = CHR ''(''" "char_of (41::nat) = CHR '')''"
    "char_of (91::nat) = CHR ''[''" by code_simp+
  then have "\<forall>n \<in> {34, 39, 92, 96, 36, 124, 38, 60, 62, 59, 40, 41, 91::nat}. c \<noteq> char_of n" using a(3) by auto
  then have "(of_char c :: nat) \<notin> {34, 39, 92, 96, 36, 124, 38, 60, 62, 59, 40, 41, 91}" by (metis char_of_char)
  then show "(of_char c :: nat) \<notin> {34, 39, 92, 96, 36, 124, 38, 60, 62, 59, 40, 41, 91, 32, 9, 10, 13}" using a(1) by auto
  show "of_char c < (128::nat)" using a(2) by simp
qed

lemma add_to_word_add [simp]: "add_to_word (add_to_word w a) b = add_to_word w (a @ b)"
  by (simp add: add_to_word_def)

lemma then_tokens_simps [simp]:
  "then_tokens [] r = r" "then_tokens ts (then_tokens us r) = then_tokens (ts @ us) r" "then_tokens ts (Inr us) = Inr (ts @ us)"
  by (auto simp: then_tokens_def split: sum.split)

declare bash_tokens.simps(2) [simp del]

lemma tokens_blank: "bash_tokens w (32 # rs) = then_tokens (flush_word w) (bash_tokens None rs)"
  by (simp add: bash_tokens.simps(2))

lemma tokens_plain_rune:
  assumes "r < 128" "r \<notin> {34, 39, 36, 124, 60, 62, 59, 32, 9}" "rs = [] \<or> hd rs \<noteq> 62" "rs = [] \<or> hd rs \<noteq> 40 \<or> r \<noteq> 36"
  shows "bash_tokens w (r # rs) = bash_tokens (add_to_word w (encode_rune r)) rs"
  unfolding bash_tokens.simps(2) using assms by auto

lemma tokens_plain_char:
  assumes "plain_char c" "rs = [] \<or> hd rs \<noteq> 62"
  shows "bash_tokens w (of_char c # rs) = bash_tokens (add_to_word w [c]) rs"
proof -
  note c = plain_char_code [OF assms(1)]
  have n: "(of_char c :: nat) \<notin> {34, 39, 36, 124, 60, 62, 59, 32, 9}" using c(2) by blast
  have "bash_tokens w (of_char c # rs) = bash_tokens (add_to_word w (encode_rune (of_char c))) rs"
    using n by (intro tokens_plain_rune [OF c(1) n assms(2)]) simp
  then show ?thesis using c(1) by (simp add: encode_rune_ascii)
qed

lemma tokens_plain_chars:
  "list_all plain_char p \<Longrightarrow> p \<noteq> [] \<Longrightarrow> rs = [] \<or> hd rs \<noteq> 62 \<Longrightarrow>
     bash_tokens w (map of_char p @ rs) = bash_tokens (add_to_word w p) rs"
proof (induction p arbitrary: w rule: induct_list012)
  case (2 c)
  then show ?case by (simp add: tokens_plain_char)
next
  case (3 c d p)
  have "(of_char d :: nat) \<noteq> 62" using 3(3) plain_char_code [of d] by auto
  then show ?case using 3 by (simp add: tokens_plain_char)
qed simp

lemma double_quoted_plain: "34 \<notin> set rs \<Longrightarrow> 92 \<notin> set rs \<Longrightarrow> double_quoted (rs @ 34 # rest) = Some (rs, rest)"
proof (induction rs)
  case Nil
  then show ?case by (cases rest) auto
next
  case (Cons r rs)
  obtain x xs where e: "rs @ 34 # rest = x # xs" by (cases rs) auto
  have "double_quoted (x # xs) = Some (rs, rest)" using Cons e by simp
  then have "double_quoted (r # x # xs) = Some (r # rs, rest)" using Cons.prems by simp
  then show ?case by (simp only: append_Cons e)
qed

lemma replace_all_absent: "x \<notin> set s \<Longrightarrow> replace_all s (x # old) new = s"
  by (induction s) auto

lemma plain_arg_code:
  assumes "plain_arg a" "c \<in> set a"
  shows "of_char c < (128::nat)" "(of_char c :: nat) \<notin> {34, 39, 92, 96, 36, 124, 38, 60, 62, 59, 40, 41, 91, 9, 10, 13}"
proof -
  have "c = CHR '' '' \<or> plain_char c" using assms by (auto simp: plain_arg_def list_all_iff)
  then have "of_char c < (128::nat) \<and> (of_char c :: nat) \<notin> {34, 39, 92, 96, 36, 124, 38, 60, 62, 59, 40, 41, 91, 9, 10, 13}"
  proof
    assume "c = CHR '' ''"
    then show ?thesis by simp
  next
    assume "plain_char c"
    then show ?thesis using plain_char_code by blast
  qed
  then show "of_char c < (128::nat)" "(of_char c :: nat) \<notin> {34, 39, 92, 96, 36, 124, 38, 60, 62, 59, 40, 41, 91, 9, 10, 13}" by blast+
qed

lemma tokens_quoted:
  assumes "plain_arg a"
  shows "bash_tokens w (34 # map of_char a @ 34 # rs) = bash_tokens (add_to_word w a) rs"
proof -
  have q: "double_quoted (map of_char a @ 34 # rs) = Some (map of_char a, rs)"
    using plain_arg_code(2) [OF assms] by (intro double_quoted_plain) fastforce+
  have asc: "ascii a" using plain_arg_code(1) [OF assms] by (simp add: ascii_def list_all_iff)
  have "CHR 0x5C \<notin> set a" using plain_arg_code(2) [OF assms, of "CHR 0x5C"] by auto
  then show ?thesis using q asc
    by (simp add: bash_tokens.simps(2) string_of_runes_ascii replace_all_absent ascii_def)
qed

lemma contains_blank: "contains_any s cs \<longleftrightarrow> (\<exists>c \<in> set s. c \<in> set cs)"
  by (simp add: contains_any_def list_ex_iff List.member_iff)

text \<open>How an argument is written: in quotes when it is empty or has a blank.\<close>

lemma quotes_of_arg:
  assumes "plain_arg a"
  shows "maybe_quote a = (if a = [] \<or> CHR '' '' \<in> set a then CHR 0x22 # a @ [CHR 0x22] else a)"
    and "quote_for_migrate a = maybe_quote a"
proof -
  have n: "c \<notin> {CHR 0x22, CHR 0x27, CHR 0x5C, CHR ''$'', CHR ''|'', CHR ''<'', CHR ''>'', CHR '';'', CHR ''('', CHR '')'', CHR 0x09}" if "c \<in> set a" for c
    using plain_arg_code(2) [OF assms that] by auto
  then have q: "CHR 0x22 \<notin> set a" by auto
  have dq: "in_double_quotes a = CHR 0x22 # a @ [CHR 0x22]" using q by (simp add: in_double_quotes_def replace_all_absent)
  have c: "contains_any a [CHR '' '', CHR 0x09, CHR ''|'', CHR ''<'', CHR ''>'', CHR '';''] \<longleftrightarrow> CHR '' '' \<in> set a"
    "contains_any a [CHR '' '', CHR 0x09, CHR 0x22, CHR 0x27, CHR ''$'', CHR ''|'', CHR ''<'', CHR ''>'', CHR '';'', CHR ''('', CHR '')''] \<longleftrightarrow> CHR '' '' \<in> set a"
    unfolding contains_blank using n by auto
  show "maybe_quote a = (if a = [] \<or> CHR '' '' \<in> set a then CHR 0x22 # a @ [CHR 0x22] else a)"
    "quote_for_migrate a = maybe_quote a"
    by (auto simp: maybe_quote_def quote_for_migrate_def c dq)
qed

lemma plain_arg_no_blank: "plain_arg a \<Longrightarrow> CHR '' '' \<notin> set a \<Longrightarrow> list_all plain_char a"
  by (auto simp: plain_arg_def list_all_iff)

lemma tokens_arg:
  assumes "plain_arg a" "rs = [] \<or> hd rs \<noteq> 62"
  shows "bash_tokens w (map of_char (maybe_quote a) @ rs) = bash_tokens (add_to_word w a) rs"
  using assms tokens_quoted [of a w rs] tokens_plain_chars [of a rs w] plain_arg_no_blank [of a]
  by (auto simp: quotes_of_arg)

text \<open>\<open>tokens_as p ts\<close>: before a blank or at the end of the line the text \<open>p\<close> gives the tokens \<open>ts\<close>.\<close>

definition tokens_as :: "string \<Rightarrow> bash_token list \<Rightarrow> bool" where
  "tokens_as p ts \<longleftrightarrow> (\<forall>rs. rs = [] \<or> hd rs = 32 \<longrightarrow> bash_tokens None (map of_char p @ rs) = then_tokens ts (bash_tokens None rs))"

lemma tokens_as_word:
  assumes "\<And>rs. rs = [] \<or> hd rs \<noteq> 62 \<Longrightarrow> bash_tokens None (map of_char p @ rs) = bash_tokens (Some w) rs"
  shows "tokens_as p [(Bash_word, w)]"
  unfolding tokens_as_def
proof (intro allI impI)
  fix rs :: "rune list"
  assume rs: "rs = [] \<or> hd rs = 32"
  then show "bash_tokens None (map of_char p @ rs) = then_tokens [(Bash_word, w)] (bash_tokens None rs)"
    using assms [of rs] by (cases rs) (auto simp: flush_word_def tokens_blank)
qed

lemma tokens_as_arg: "plain_arg a \<Longrightarrow> tokens_as (maybe_quote a) [(Bash_word, a)]"
  using tokens_arg [of a _ None] by (intro tokens_as_word) (auto simp: add_to_word_def)

lemma tokens_as_text: "plain_text p \<Longrightarrow> tokens_as p [(Bash_word, p)]"
  using tokens_plain_chars [of p _ None] by (intro tokens_as_word) (auto simp: plain_text_def add_to_word_def)

lemma tokens_as_join:
  "list_all2 tokens_as ps tss \<Longrightarrow> tokens_as (str_join '' '' ps) (concat tss)"
proof (induction ps arbitrary: tss rule: induct_list012)
  case 1
  then show ?case by (simp add: tokens_as_def)
next
  case (2 p)
  then show ?case by (cases tss) auto
next
  case (3 p q ps)
  obtain ts uss where t: "tss = ts # uss" "tokens_as p ts" "list_all2 tokens_as (q # ps) uss" using 3(3) by (cases tss) auto
  have "tokens_as (str_join '' '' (q # ps)) (concat uss)" using 3 t by blast
  then show ?case using t(1,2) by (simp add: tokens_as_def tokens_blank flush_word_def)
qed

definition redirect_tokens :: "redirect \<Rightarrow> bash_token list" where
  "redirect_tokens r = (case rd_op r of
      Redirect_in \<Rightarrow> [(Bash_redir, ''<''), (Bash_word, rd_target r)]
    | Redirect_out \<Rightarrow> [(Bash_redir, ''>''), (Bash_word, rd_target r)]
    | Redirect_append \<Rightarrow> [(Bash_redir, ''>>''), (Bash_word, rd_target r)]
    | Redirect_err_out \<Rightarrow> [(Bash_redir, ''2>''), (Bash_word, rd_target r)]
    | Redirect_err_to_out \<Rightarrow> [(Bash_redir, ''2>&1''), (Bash_word, [])])"

lemma tokens_as_redirect: "plain_redirect r \<Longrightarrow> tokens_as (redirect_string r) (redirect_tokens r)"
  using tokens_as_text [of "rd_target r"]
  by (auto simp: plain_redirect_def redirect_string_def redirect_tokens_def tokens_as_def bash_tokens.simps(2) flush_word_def
      split: redirect_op.splits if_splits)

section \<open>Commands\<close>

definition word_tokens :: "string list \<Rightarrow> bash_token list" where
  "word_tokens ws = map (\<lambda>w. (Bash_word, w)) ws"

definition script_tokens :: "script_command \<Rightarrow> bash_token list" where
  "script_tokens c = word_tokens (sc_name c # sc_args c) @ concat (map redirect_tokens (sc_redirects c))"

lemma tokens_as_words: "list_all plain_arg as \<Longrightarrow> list_all2 tokens_as (map maybe_quote as) (map (\<lambda>a. [(Bash_word, a)]) as)"
  by (induction as) (auto simp: tokens_as_arg)

lemma tokens_as_redirects: "list_all plain_redirect rs \<Longrightarrow> list_all2 tokens_as (map redirect_string rs) (map redirect_tokens rs)"
  by (induction rs) (auto simp: tokens_as_redirect)

lemma tokens_as_command:
  assumes "plain_command c"
  shows "tokens_as (format_command c) (script_tokens c)"
proof -
  have "list_all2 tokens_as (sc_name c # map maybe_quote (sc_args c) @ map redirect_string (sc_redirects c))
      ([(Bash_word, sc_name c)] # map (\<lambda>a. [(Bash_word, a)]) (sc_args c) @ map redirect_tokens (sc_redirects c))"
    using assms tokens_as_text [of "sc_name c"] tokens_as_words tokens_as_redirects
    by (auto simp: plain_command_def plain_name_def intro!: list_all2_appendI)
  from tokens_as_join [OF this] show ?thesis
    by (simp add: format_command_def script_tokens_def word_tokens_def concat_map_singleton)
qed

lemma op_from_string_of [simp]:
  "op_from_string ''<'' = Redirect_in" "op_from_string ''>'' = Redirect_out" "op_from_string ''>>'' = Redirect_append"
  "op_from_string ''2>'' = Redirect_err_out" "op_from_string ''2>&1'' = Redirect_err_to_out"
  by (simp_all add: op_from_string_def)

lemma argv_of_redirects: "list_all plain_redirect rs \<Longrightarrow> argv_and_redirects (concat (map redirect_tokens rs)) = Inr ([], rs)"
proof (induction rs)
  case (Cons r rs)
  then show ?case by (cases r) (auto simp: redirect_tokens_def plain_redirect_def split: redirect_op.split)
qed simp

lemma argv_of_tokens:
  assumes "list_all plain_redirect rs"
  shows "argv_and_redirects (word_tokens ws @ concat (map redirect_tokens rs)) = Inr (ws, rs)"
proof (induction ws)
  case Nil
  then show ?case using argv_of_redirects [OF assms] by (simp add: word_tokens_def)
next
  case (Cons w ws)
  have step: "argv_and_redirects ((Bash_word, w) # ts) = Inr (w # ws, rs)" if "argv_and_redirects ts = Inr (ws, rs)" for ts
    using that by (cases ts) auto
  show ?case using step [OF Cons.IH] by (simp add: word_tokens_def)
qed

lemma command_of_tokens: "plain_command c \<Longrightarrow> tokens_to_command l (script_tokens c) = Inr (c\<lparr>sc_line := l\<rparr>)"
  using argv_of_tokens [of "sc_redirects c" "sc_name c # sc_args c"]
  by (cases c) (auto simp: tokens_to_command_def script_tokens_def plain_command_def)

lemma redirect_tokens_no_pipe: "t \<in> set (redirect_tokens r) \<Longrightarrow> fst t \<noteq> Bash_pipe"
  by (cases "rd_op r") (auto simp: redirect_tokens_def)

lemma script_tokens_no_pipe: "t \<in> set (script_tokens c) \<Longrightarrow> fst t \<noteq> Bash_pipe"
  using redirect_tokens_no_pipe [of t] by (cases t) (auto simp: script_tokens_def word_tokens_def)

lemma script_tokens_not_Nil [simp]: "script_tokens c \<noteq> []"
  by (simp add: script_tokens_def word_tokens_def)

fun piped_tokens :: "script_command list \<Rightarrow> bash_token list" where
  "piped_tokens [] = []"
| "piped_tokens [c] = script_tokens c"
| "piped_tokens (c # d # cs) = script_tokens c @ (Bash_pipe, []) # piped_tokens (d # cs)"

lemma tokens_as_pipe:
  assumes "tokens_as p ts" "tokens_as q us"
  shows "tokens_as (p @ '' | '' @ q) (ts @ (Bash_pipe, []) # us)"
proof -
  have bar: "bash_tokens None (124 # rs) = then_tokens [(Bash_pipe, [])] (bash_tokens None rs)" for rs
    by (simp add: bash_tokens.simps(2) flush_word_def)
  show ?thesis using assms by (simp add: tokens_as_def tokens_blank flush_word_def bar)
qed

lemma tokens_as_commands: "list_all plain_command cs \<Longrightarrow> cs \<noteq> [] \<Longrightarrow> tokens_as (format_pipe cs) (piped_tokens cs)"
proof (induction cs rule: piped_tokens.induct)
  case (3 c d cs)
  then show ?case using tokens_as_pipe [OF tokens_as_command, of c "format_pipe (d # cs)"] by (simp add: format_pipe_def)
qed (auto simp: format_pipe_def tokens_as_command)

lemma split_on_pipe_plain:
  "(\<And>t. t \<in> set ts \<Longrightarrow> fst t \<noteq> Bash_pipe) \<Longrightarrow> split_on_pipe cur (ts @ us) = split_on_pipe (cur @ ts) us"
  by (induction ts arbitrary: cur) auto

lemma split_piped: "cs \<noteq> [] \<Longrightarrow> split_on_pipe [] (piped_tokens cs) = map script_tokens cs"
proof (induction cs rule: piped_tokens.induct)
  case (2 c)
  then show ?case using split_on_pipe_plain [of "script_tokens c" "[]" "[]"] script_tokens_no_pipe by simp
next
  case (3 c d cs)
  then show ?case using split_on_pipe_plain [of "script_tokens c" "[]"] script_tokens_no_pipe by simp
qed simp

lemma stages_of_commands:
  "list_all plain_command cs \<Longrightarrow> stages_to_commands l (map script_tokens cs) = Inr (map (\<lambda>c. c\<lparr>sc_line := l\<rparr>) cs)"
  by (induction cs) (auto simp: command_of_tokens)

section \<open>Characters of a line\<close>

definition line_char :: "char \<Rightarrow> bool" where
  "line_char c \<longleftrightarrow> 32 \<le> (of_char c :: nat) \<and> (of_char c :: nat) < 127
     \<and> c \<notin> {CHR 0x27, CHR 0x5C, CHR 0x60, CHR ''$'', CHR '';'', CHR ''('', CHR '')'', CHR ''[''}"

text \<open>\<open>twice c s\<close>: the character stands twice in a row.\<close>

fun twice :: "char \<Rightarrow> string \<Rightarrow> bool" where
  "twice c (x # y # zs) \<longleftrightarrow> x = c \<and> y = c \<or> twice c (y # zs)"
| "twice c s \<longleftrightarrow> False"

lemma twice_sublist: "sublist [c, c] s \<Longrightarrow> twice c s"
proof (induction c s rule: twice.induct)
  case (1 c x y zs)
  then show ?case by (auto simp: sublist_Cons_right)
qed (auto simp: sublist_Cons_right)

lemma twice_append: "twice c (a @ b) \<longleftrightarrow> twice c a \<or> twice c b \<or> (a \<noteq> [] \<and> b \<noteq> [] \<and> last a = c \<and> hd b = c)"
proof (induction a rule: induct_list012)
  case (2 x)
  then show ?case by (cases b) auto
qed auto

lemma twice_absent: "c \<notin> set s \<Longrightarrow> \<not> twice c s"
  by (induction c s rule: twice.induct) auto

lemma twice_other: "x \<noteq> c \<Longrightarrow> twice c (x # s) \<longleftrightarrow> twice c s"
  by (cases s) auto

lemma twice_join: "c \<noteq> CHR '' '' \<Longrightarrow> (\<And>p. p \<in> set ps \<Longrightarrow> \<not> twice c p) \<Longrightarrow> \<not> twice c (str_join '' '' ps)"
proof (induction "'' ''" ps rule: str_join.induct)
  case (3 x y zs)
  then show ?case by (auto simp: twice_append twice_other)
qed auto

lemma twice_join_bar:
  "c \<noteq> CHR '' '' \<Longrightarrow> (\<And>p. p \<in> set ps \<Longrightarrow> \<not> twice c p) \<Longrightarrow> \<not> twice c (str_join '' | '' ps)"
proof (induction "'' | ''" ps rule: str_join.induct)
  case (3 x y zs)
  then show ?case by (auto simp: twice_append twice_other)
qed auto

lemma join_chars: "list_all P sep \<Longrightarrow> (\<And>p. p \<in> set ps \<Longrightarrow> list_all P p) \<Longrightarrow> list_all P (str_join sep ps)"
  by (induction sep ps rule: str_join.induct) auto

text \<open>A single statement's line.\<close>

definition good_line :: "string \<Rightarrow> bool" where
  "good_line t \<longleftrightarrow> t \<noteq> [] \<and> list_all line_char t \<and> hd t \<noteq> CHR '' '' \<and> hd t \<noteq> CHR ''#'' \<and> last t \<noteq> CHR '' ''
     \<and> \<not> List.member reserved (first_word t) \<and> \<not> twice CHR ''<'' t \<and> \<not> twice CHR ''|'' t \<and> \<not> twice CHR ''&'' t"

lemma plain_line_char: "plain_char c \<Longrightarrow> line_char c"
  by (simp add: plain_char_def line_char_def)

lemma plain_not_special: "plain_char c \<Longrightarrow> c \<notin> {CHR '' '', CHR ''<'', CHR ''|'', CHR ''&'', CHR 0x22, CHR 0x27}"
proof -
  have "\<not> plain_char CHR '' ''" "\<not> plain_char CHR ''<''" "\<not> plain_char CHR ''|''" "\<not> plain_char CHR ''&''" "\<not> plain_char CHR 0x22"
    "\<not> plain_char CHR 0x27" by code_simp+
  then show "plain_char c \<Longrightarrow> ?thesis" by blast
qed

lemma line_char_blank [simp]: "line_char CHR '' ''" "line_char CHR 0x22" "line_char CHR ''|'' " "line_char CHR ''<''" "line_char CHR ''>''"
  "line_char CHR ''2''" "line_char CHR ''&''" "line_char CHR ''1''" "line_char CHR ''=''"
  by code_simp+

lemma last_plain: "list_all plain_char w \<Longrightarrow> w \<noteq> [] \<Longrightarrow> last w \<noteq> CHR '' ''"
  using last_in_set [of w] plain_not_special [of "last w"] by (auto simp: list_all_iff)

lemma twice_plain: "list_all plain_char w \<Longrightarrow> c \<in> {CHR ''<'', CHR ''|'', CHR ''&''} \<Longrightarrow> \<not> twice c w"
  using plain_not_special [of c] by (intro twice_absent) (auto simp: list_all_iff)

lemma arg_text:
  assumes "plain_arg a"
  shows "list_all line_char (maybe_quote a)" "c \<in> {CHR ''<'', CHR ''|'', CHR ''&''} \<Longrightarrow> \<not> twice c (maybe_quote a)"
    "maybe_quote a \<noteq> []" "last (maybe_quote a) \<noteq> CHR '' ''"
proof -
  have a: "list_all line_char a" using assms by (auto simp: plain_arg_def list_all_iff plain_line_char)
  then show "list_all line_char (maybe_quote a)" by (simp add: quotes_of_arg(1) [OF assms])
  have "c \<notin> set a" if "c \<in> {CHR ''<'', CHR ''|'', CHR ''&''}" for c
    using assms that plain_not_special by (fastforce simp: plain_arg_def list_all_iff)
  then show "c \<in> {CHR ''<'', CHR ''|'', CHR ''&''} \<Longrightarrow> \<not> twice c (maybe_quote a)"
    by (intro twice_absent) (auto simp: quotes_of_arg(1) [OF assms])
  show "maybe_quote a \<noteq> []" "last (maybe_quote a) \<noteq> CHR '' ''"
    by (auto simp: quotes_of_arg(1) [OF assms] dest: last_in_set)
qed

lemma redirect_text:
  assumes "plain_redirect r"
  shows "list_all line_char (redirect_string r)" "c \<in> {CHR ''<'', CHR ''|'', CHR ''&''} \<Longrightarrow> \<not> twice c (redirect_string r)"
    "redirect_string r \<noteq> []" "last (redirect_string r) \<noteq> CHR '' ''"
proof -
  have t: "list_all plain_char (rd_target r)" using assms by (auto simp: plain_redirect_def plain_text_def split: if_splits)
  then have n: "\<not> twice c (rd_target r)" "c \<notin> set (rd_target r)" if "c \<in> {CHR ''<'', CHR ''|'', CHR ''&''}" for c
    using that plain_not_special twice_absent [of c "rd_target r"] by (fastforce simp: list_all_iff)+
  show "list_all line_char (redirect_string r)" "redirect_string r \<noteq> []"
    using t by (auto simp: redirect_string_def list_all_iff plain_line_char split: redirect_op.split)
  show "c \<in> {CHR ''<'', CHR ''|'', CHR ''&''} \<Longrightarrow> \<not> twice c (redirect_string r)"
    using n [of c] by (cases "rd_target r") (auto simp: redirect_string_def split: redirect_op.split)
  show "last (redirect_string r) \<noteq> CHR '' ''"
    using assms last_plain [OF t]
    by (auto simp: redirect_string_def plain_redirect_def plain_text_def split: redirect_op.split if_splits)
qed

lemma command_text:
  assumes "plain_command c"
  shows "list_all line_char (format_command c)" "x \<in> {CHR ''<'', CHR ''|'', CHR ''&''} \<Longrightarrow> \<not> twice x (format_command c)"
    "\<exists>r. format_command c = sc_name c @ r \<and> (r = [] \<or> hd r = CHR '' '')" "last (format_command c) \<noteq> CHR '' ''"
proof -
  let ?ps = "sc_name c # map maybe_quote (sc_args c) @ map redirect_string (sc_redirects c)"
  have name: "list_all plain_char (sc_name c)" "sc_name c \<noteq> []" using assms by (auto simp: plain_command_def plain_name_def plain_text_def)
  have nm: "list_all line_char (sc_name c)" "last (sc_name c) \<noteq> CHR '' ''"
    using last_plain [OF name] name(1) by (auto simp: list_all_iff plain_line_char)
  have args: "list_all plain_arg (sc_args c)" "list_all plain_redirect (sc_redirects c)" using assms by (auto simp: plain_command_def)
  show "list_all line_char (format_command c)"
    unfolding format_command_def using nm(1) args arg_text(1) redirect_text(1) by (intro join_chars) (auto simp: list_all_iff)
  show "\<not> twice x (format_command c)" if "x \<in> {CHR ''<'', CHR ''|'', CHR ''&''}"
    unfolding format_command_def using twice_plain [OF name(1) that] args that arg_text(2) redirect_text(2) by (intro twice_join) (auto simp: list_all_iff)
  show "\<exists>r. format_command c = sc_name c @ r \<and> (r = [] \<or> hd r = CHR '' '')"
    unfolding format_command_def by (cases "map maybe_quote (sc_args c) @ map redirect_string (sc_redirects c)") auto
  have "last (str_join '' '' ps) \<noteq> CHR '' ''" if "ps \<noteq> []" "\<And>p. p \<in> set ps \<Longrightarrow> p \<noteq> [] \<and> last p \<noteq> CHR '' ''" for ps
  proof -
    have "str_join '' '' ps \<noteq> [] \<and> last (str_join '' '' ps) \<noteq> CHR '' ''" using that
      by (induction "'' ''" ps rule: str_join.induct) auto
    then show ?thesis by simp
  qed
  moreover have "p \<noteq> [] \<and> last p \<noteq> CHR '' ''" if "p \<in> set ?ps" for p
    using that nm(2) name(2) args arg_text(3,4) redirect_text(3,4) by (auto simp: list_all_iff)
  ultimately show "last (format_command c) \<noteq> CHR '' ''" unfolding format_command_def by blast
qed

section \<open>Single statements\<close>

definition text_of :: "stmt \<Rightarrow> string" where
  "text_of s = (case s of S_assign l n v x \<Rightarrow> n @ ''='' @ quote_for_migrate v | _ \<Rightarrow> format_test s)"

lemma command_text_not_Nil: "plain_command c \<Longrightarrow> format_command c \<noteq> []"
  using command_text(3) [of c] by (auto simp: plain_command_def plain_name_def plain_text_def)

lemma pipe_text:
  assumes "list_all plain_command cs" "cs \<noteq> []"
  shows "list_all line_char (format_pipe cs)" "x \<in> {CHR ''<'', CHR ''|'', CHR ''&''} \<Longrightarrow> \<not> twice x (format_pipe cs)"
    "\<exists>r. format_pipe cs = sc_name (hd cs) @ r \<and> (r = [] \<or> hd r = CHR '' '')" "last (format_pipe cs) \<noteq> CHR '' ''"
proof -
  have c: "plain_command c" if "c \<in> set cs" for c using assms(1) that by (simp add: list_all_iff)
  show "list_all line_char (format_pipe cs)"
    unfolding format_pipe_def using c command_text(1) by (auto intro!: join_chars)
  show "\<not> twice x (format_pipe cs)" if x: "x \<in> {CHR ''<'', CHR ''|'', CHR ''&''}"
    unfolding format_pipe_def using c command_text(2) [OF _ x] x by (intro twice_join_bar) auto
  show "\<exists>r. format_pipe cs = sc_name (hd cs) @ r \<and> (r = [] \<or> hd r = CHR '' '')"
  proof (cases cs)
    case (Cons d ds)
    then obtain r where "format_command d = sc_name d @ r" "r = [] \<or> hd r = CHR '' ''" using c command_text(3) by (metis list.set_intros(1))
    then show ?thesis using Cons by (cases ds; cases r) (auto simp: format_pipe_def)
  qed (use assms in simp)
  show "last (format_pipe cs) \<noteq> CHR '' ''"
    using assms
  proof (induction cs rule: piped_tokens.induct)
    case (3 c d cs)
    have "format_pipe (d # cs) \<noteq> []"
      using 3(2) by (cases cs) (auto simp: format_pipe_def command_text_not_Nil)
    then show ?case using 3 by (auto simp: format_pipe_def)
  qed (auto simp: format_pipe_def command_text)
qed

lemma first_word_name:
  assumes "plain_text w" "r = [] \<or> hd r = CHR '' ''"
  shows "first_word (w @ r) = w"
proof -
  have "c \<noteq> CHR '' '' \<and> c \<noteq> CHR 0x09" if "c \<in> set w" for c
    using assms(1) that plain_char_code [of c] by (auto simp: plain_text_def list_all_iff)
  then show ?thesis using assms(2) by (cases r) (auto simp: first_word_def)
qed

lemma named_good_line:
  assumes "plain_name w" "t = w @ r" "r = [] \<or> hd r = CHR '' ''" "list_all line_char t" "last t \<noteq> CHR '' ''"
    "\<And>x. x \<in> {CHR ''<'', CHR ''|'', CHR ''&''} \<Longrightarrow> \<not> twice x t"
  shows "good_line t"
proof -
  have w: "plain_text w" "w \<noteq> []" "hd w \<noteq> CHR ''#''" "\<not> List.member reserved w" using assms(1) by (auto simp: plain_name_def plain_text_def)
  have "hd w \<noteq> CHR '' ''" using w(1,2) plain_not_special [of "hd w"] by (cases w) (auto simp: plain_text_def)
  then show ?thesis using assms(2-6) w first_word_name [OF w(1) assms(3)] by (auto simp: good_line_def)
qed

lemma ident_plain:
  assumes "is_ident n"
  shows "plain_text n" "CHR ''='' \<notin> set n" "hd n \<noteq> CHR ''#''"
proof -
  have i: "ident_char c \<or> is_digit c" if "c \<in> set n" for c
    using assms that by (cases n) (auto simp: is_ident_def list_all_iff)
  have p: "plain_char c \<and> c \<noteq> CHR ''='' \<and> c \<noteq> CHR ''#''" if "ident_char c \<or> is_digit c" for c
  proof -
    have "c = CHR ''_'' \<or> (of_char c :: nat) \<in> {97..122} \<or> (of_char c :: nat) \<in> {65..90} \<or> (of_char c :: nat) \<in> {48..57}"
      using that by (auto simp: ident_char_def is_digit_def)
    moreover have "plain_char CHR ''_'' \<and> CHR ''_'' \<noteq> CHR ''='' \<and> CHR ''_'' \<noteq> CHR ''#''" by code_simp
    moreover have "plain_char c \<and> c \<noteq> CHR ''='' \<and> c \<noteq> CHR ''#''"
      if "(of_char c :: nat) \<in> {97..122} \<or> (of_char c :: nat) \<in> {65..90} \<or> (of_char c :: nat) \<in> {48..57}"
      using that unfolding plain_char_def by auto
    ultimately show ?thesis by blast
  qed
  show "plain_text n" "CHR ''='' \<notin> set n" "hd n \<noteq> CHR ''#''"
    using i p assms by (auto simp: plain_text_def list_all_iff is_ident_def split: list.splits)
qed

lemma simple_good:
  assumes "plain_simple s"
  shows "good_line (text_of s)"
proof (cases s)
  case (S_assign l n v x)
  then have n: "is_ident n" and v: "plain_arg v" using assms by auto
  let ?q = "quote_for_migrate v"
  have q: "list_all line_char ?q" "?q \<noteq> []" "last ?q \<noteq> CHR '' ''" "\<And>x. x \<in> {CHR ''<'', CHR ''|'', CHR ''&''} \<Longrightarrow> \<not> twice x ?q"
    using arg_text [OF v] quotes_of_arg(2) [OF v] by auto
  note n' = ident_plain [OF n]
  have nn: "n \<noteq> []" "list_all plain_char n" using n'(1) by (auto simp: plain_text_def)
  have tw: "\<not> twice x (n @ ''='' @ ?q)" if "x \<in> {CHR ''<'', CHR ''|'', CHR ''&''}" for x
  proof -
    have "CHR ''='' \<noteq> x" using that by auto
    then show ?thesis using q(4) [OF that] twice_plain [OF nn(2) that] by (simp add: twice_append twice_other)
  qed
  have hd: "hd n \<noteq> CHR '' ''" using nn plain_not_special [of "hd n"] by (cases n) auto
  have "CHR ''='' \<in> set (first_word (n @ ''='' @ ?q))"
  proof -
    have "c \<noteq> CHR '' '' \<and> c \<noteq> CHR 0x09" if "c \<in> set n" for c
      using nn(2) that plain_char_code [of c] by (auto simp: list_all_iff)
    then show ?thesis by (simp add: first_word_def)
  qed
  moreover have "\<forall>w \<in> set reserved. CHR ''='' \<notin> set w" by code_simp
  ultimately have "\<not> List.member reserved (first_word (n @ ''='' @ ?q))" unfolding List.member_iff by blast
  then show ?thesis
    using S_assign nn n'(3) hd q tw by (auto simp: text_of_def good_line_def list_all_iff plain_line_char)
next
  case (S_command c)
  then have c: "plain_command c" using assms by simp
  obtain r where "format_command c = sc_name c @ r" "r = [] \<or> hd r = CHR '' ''" using command_text(3) [OF c] by blast
  then show ?thesis using named_good_line command_text [OF c] c S_command by (auto simp: text_of_def plain_command_def)
next
  case (S_pipe l cs)
  then have cs: "list_all plain_command cs" "cs \<noteq> []" using assms by auto
  obtain r where "format_pipe cs = sc_name (hd cs) @ r" "r = [] \<or> hd r = CHR '' ''" using pipe_text(3) [OF cs] by blast
  moreover have "plain_name (sc_name (hd cs))" using cs by (cases cs) (auto simp: plain_command_def)
  ultimately show ?thesis using named_good_line pipe_text [OF cs] S_pipe by (auto simp: text_of_def)
qed (use assms in auto)

lemma line_char_ascii: "line_char c \<Longrightarrow> of_char c < (128::nat)"
  by (simp add: line_char_def)

lemma line_text_ascii: "list_all line_char t \<Longrightarrow> ascii t"
  by (auto simp: list_all_iff line_char_ascii ascii_def)

lemma tokenize_text:
  assumes "list_all line_char t" "tokens_as t ts"
  shows "tokenize_bash t = Inr ts"
  using assms(2) [unfolded tokens_as_def, rule_format, of "[]"] line_text_ascii [OF assms(1)]
  by (simp add: tokenize_bash_def runes_of_ascii flush_word_def)

lemma strip_plain_arg: "plain_arg v \<Longrightarrow> strip_quotes v = v"
proof -
  assume v: "plain_arg v"
  have "CHR 0x22 \<notin> set v" "CHR 0x27 \<notin> set v" using plain_arg_code(2) [OF v, of "CHR 0x22"] plain_arg_code(2) [OF v, of "CHR 0x27"] by auto
  then show ?thesis by (cases v) (auto simp: strip_quotes_def)
qed

lemma simple_parse:
  assumes "plain_simple s"
  shows "no_lines (parse_statement_line (text_of s) l) = no_lines s"
proof (cases s)
  case (S_assign l' n v x)
  then have n: "is_ident n" and v: "plain_arg v" using assms by auto
  let ?t = "n @ ''='' @ quote_for_migrate v"
  note n' = ident_plain [OF n]
  have ch: "list_all plain_char (n @ ''='')" using n'(1) by (simp add: plain_text_def) code_simp
  have hdq: "hd (map of_char (maybe_quote v) @ rs :: nat list) \<noteq> 62" if "rs = [] \<or> hd rs \<noteq> 62" for rs
  proof -
    have "list_all line_char (maybe_quote v)" "maybe_quote v \<noteq> []" using arg_text [OF v] by auto
    moreover have "c \<noteq> CHR ''>''" if "c \<in> set (maybe_quote v)" for c
      using that plain_arg_code(2) [OF v, of c] by (auto simp: quotes_of_arg(1) [OF v] split: if_splits)
    moreover have "char_of (62::nat) = CHR ''>''" by code_simp
    ultimately show ?thesis by (cases "maybe_quote v") (auto dest: arg_cong [of _ _ char_of])
  qed
  have "bash_tokens None (map of_char ?t @ rs) = bash_tokens (Some (n @ ''='' @ v)) rs" if "rs = [] \<or> hd rs \<noteq> 62" for rs
    using tokens_plain_chars [OF ch, of "map of_char (maybe_quote v) @ rs" None] hdq [OF that] tokens_arg [OF v that]
    by (simp add: quotes_of_arg(2) [OF v] add_to_word_def)
  then have "tokens_as ?t [(Bash_word, n @ ''='' @ v)]" by (rule tokens_as_word)
  moreover have "list_all line_char ?t" using simple_good [OF assms] S_assign by (simp add: text_of_def good_line_def)
  ultimately have "tokenize_bash ?t = Inr [(Bash_word, n @ ''='' @ v)]" by (intro tokenize_text)
  moreover have "split_assignment (n @ ''='' @ v) = Some (n, v)"
    using n' n by (auto simp: split_assignment_def index_of_append_byte strip_plain_arg [OF v] plain_text_def)
  ultimately show ?thesis using S_assign assms by (simp add: parse_statement_line_def text_of_def)
next
  case (S_command c)
  then have c: "plain_command c" using assms by simp
  have tk: "tokenize_bash (format_command c) = Inr (script_tokens c)"
    using tokenize_text [OF command_text(1) [OF c] tokens_as_command [OF c]] .
  have "split_on_pipe [] (script_tokens c) = [script_tokens c]"
    using split_on_pipe_plain [of "script_tokens c" "[]" "[]"] script_tokens_no_pipe by simp
  moreover have "split_assignment (snd (hd (script_tokens c))) = None"
  proof -
    have "CHR ''='' \<notin> set (sc_name c)" using c by (simp add: plain_command_def plain_name_def)
    then have "index_of (sc_name c) ''='' = None" by (rule iffD2 [OF index_of_byte_None])
    then show ?thesis by (simp add: script_tokens_def word_tokens_def split_assignment_def)
  qed
  ultimately show ?thesis
    using S_command tk command_of_tokens [OF c] by (simp add: parse_statement_line_def text_of_def no_line_def)
next
  case (S_pipe l' cs)
  then have cs: "list_all plain_command cs" "cs \<noteq> []" "2 \<le> length cs" using assms by auto
  have tk: "tokenize_bash (format_pipe cs) = Inr (piped_tokens cs)"
    using tokenize_text [OF pipe_text(1) [OF cs(1,2)] tokens_as_commands [OF cs(1,2)]] .
  have "piped_tokens cs \<noteq> []" using cs(2) by (cases cs rule: piped_tokens.cases) auto
  then show ?thesis
    using S_pipe tk split_piped [OF cs(2)] stages_of_commands [OF cs(1)] cs(3)
    by (simp add: parse_statement_line_def text_of_def no_line_def)
qed (use assms in auto)

section \<open>Lines\<close>

lemma line_char_space: "line_char c \<Longrightarrow> c \<noteq> CHR '' '' \<Longrightarrow> of_char c < (128::nat) \<and> \<not> is_space (of_char c)"
proof -
  assume "line_char c" "c \<noteq> CHR '' ''"
  moreover have "char_of (32::nat) = CHR '' ''" by code_simp
  ultimately have "(of_char c :: nat) \<noteq> 32" "32 \<le> (of_char c :: nat)" "(of_char c :: nat) < 127"
    by (auto simp: line_char_def) (metis char_of_char)
  then show ?thesis by (simp add: is_space_def)
qed

text \<open>A text between blanks; \<open>solid\<close> says that it begins and ends with something else.\<close>

definition solid :: "string \<Rightarrow> bool" where
  "solid t \<longleftrightarrow> t \<noteq> [] \<and> (\<forall>c \<in> {hd t, last t}. of_char c < (128::nat) \<and> \<not> is_space (of_char c))"

lemma trim_left_blanks: "list_all (\<lambda>c. c = CHR '' '') b \<Longrightarrow> trim_left (b @ t) = trim_left t"
  by (induction b) (auto simp: decode_rune_ascii is_space_def)

lemma trim_solid: "solid t \<Longrightarrow> trim_space t = t"
  by (simp add: solid_def trim_space_id)

lemma trim_lead: "solid t \<Longrightarrow> list_all (\<lambda>c. c = CHR '' '') b \<Longrightarrow> trim_space (b @ t) = t"
  using trim_solid [of t] by (simp add: trim_space_def trim_left_blanks)

lemma blank_lead [simp]: "list_all (\<lambda>c. c = CHR '' '') (repeat_blanks n)"
  by (auto simp: repeat_blanks_def list_all_iff)

lemma solid_append: "a \<noteq> [] \<Longrightarrow> b \<noteq> [] \<Longrightarrow> of_char (hd a) < (128::nat) \<Longrightarrow> \<not> is_space (of_char (hd a))
    \<Longrightarrow> of_char (last b) < (128::nat) \<Longrightarrow> \<not> is_space (of_char (last b)) \<Longrightarrow> solid (a @ b)"
  by (simp add: solid_def)

lemma good_solid: "good_line t \<Longrightarrow> solid t"
  using line_char_space [of "hd t"] line_char_space [of "last t"]
  by (auto simp: good_line_def solid_def list_all_iff)

lemma plain_text_solid: "plain_text w \<Longrightarrow> solid w"
  using line_char_space [OF plain_line_char, of "hd w"] line_char_space [OF plain_line_char, of "last w"]
    plain_not_special [of "hd w"] plain_not_special [of "last w"]
  by (auto simp: plain_text_def solid_def list_all_iff)

lemma sublist_absent: "sublist p s \<Longrightarrow> c \<in> set p \<Longrightarrow> c \<in> set s"
  using set_mono_sublist by blast

lemma line_char_absent: "list_all line_char t \<Longrightarrow> \<not> line_char c \<Longrightarrow> c \<notin> set t"
  by (auto simp: list_all_iff)

lemma not_line_chars: "\<not> line_char CHR ''[''" "\<not> line_char CHR ''(''" "\<not> line_char CHR 0x60"
    "\<not> line_char CHR '';''" "\<not> line_char CHR 0x0A" "\<not> line_char CHR 0x0D" "\<not> line_char CHR 0x5C"
  by code_simp+

lemma good_classify:
  assumes "good_line t"
  shows "classify_unsupported t = None"
proof -
  have ch: "list_all line_char t" and tw: "\<not> twice CHR ''<'' t" "\<not> twice CHR ''|'' t" "\<not> twice CHR ''&'' t"
    and w: "\<not> List.member reserved (first_word t)" using assms by (auto simp: good_line_def)
  have "\<not> sublist ''<<'' t" "\<not> sublist ''&&'' t" "\<not> sublist ''||'' t" using tw twice_sublist by blast+
  moreover have "sublist ''<<'' ''<<<''" "sublist ''&&'' '' && ''" "sublist ''||'' '' || ''" by code_simp+
  ultimately have c1: "\<not> sublist ''<<<'' t" "\<not> sublist ''<<'' t" "\<not> sublist '' && '' t" "\<not> sublist '' || '' t"
    using sublist_order.order_trans by blast+
  have a: "CHR ''['' \<notin> set t" "CHR ''('' \<notin> set t" "CHR 0x60 \<notin> set t" using line_char_absent [OF ch] not_line_chars by blast+
  have c2: "\<not> sublist '' [[ '' t" "\<not> sublist ''$(('' t" "\<not> sublist ''(('' t" "\<not> sublist ''<('' t" "\<not> sublist ''>('' t" "\<not> sublist [CHR 0x60] t"
    using a sublist_absent [of _ t] by (meson list.set_intros)+
  have c3: "\<not> has_prefix t ''[[''" using a(1) by (auto simp: prefix_def)
  have "first_word t = u" if "has_prefix t (u @ '' '')" "u \<in> {''select'', ''trap''}" for u
    using that by (auto simp: prefix_def first_word_def)
  then have c4: "\<not> has_prefix t ''select ''" "\<not> has_prefix t ''trap ''"
    using w by (auto simp: reserved_def List.member_iff)
  show ?thesis using c1 c2 c3 c4 by (simp add: classify_unsupported_def)
qed

lemma good_no_parens: "good_line t \<Longrightarrow> \<not> is_function_def_header t"
proof -
  assume "good_line t"
  then have "CHR ''('' \<notin> set t" using line_char_absent [of t] not_line_chars(2) by (simp add: good_line_def)
  then have "index_of t ''('' = None" by (rule iffD2 [OF index_of_byte_None])
  then show ?thesis by (simp add: is_function_def_header_def)
qed

section \<open>Reading\<close>

text \<open>\<open>reads terms ls ss r\<close>: the block parser reads the statements \<open>ss\<close> and stops before \<open>r\<close>.\<close>

definition reads :: "string list \<Rightarrow> source_line list \<Rightarrow> stmt list \<Rightarrow> source_line list \<Rightarrow> bool" where
  "reads terms ls ss r \<longleftrightarrow> (\<forall>n. source_size ls < n \<longrightarrow> parse_block n terms ls = Some (ss, r))"

lemma readsD: "reads terms ls ss r \<Longrightarrow> source_size ls < n \<Longrightarrow> parse_block n terms ls = Some (ss, r)"
  by (simp add: reads_def)

lemma reads_nil: "reads terms [] [] []"
  by (auto simp: reads_def gr0_conv_Suc)

lemma reads_blank: "trim_space (snd ln) = [] \<Longrightarrow> reads terms ls ss r \<Longrightarrow> reads terms (ln # ls) ss r"
  unfolding reads_def by (auto simp: less_Suc_eq_0_disj Suc_less_eq2)

lemma reads_end:
  assumes "trim_space (snd ln) = t" "t \<noteq> []" "hd t \<noteq> CHR ''#''" "first_word t \<in> set terms"
  shows "reads terms (ln # ls) [] (ln # ls)"
proof -
  have "\<not> has_prefix t ''#''" using assms(2,3) by (cases t) auto
  then show ?thesis using assms by (auto simp: reads_def Suc_less_eq2 List.member_iff Let_def)
qed

lemma reads_comment:
  assumes "trim_space (snd ln) = t" "has_prefix t ''#''" "reads terms ls ss r"
  shows "reads terms (ln # ls) (S_comment (fst ln) t # ss) r"
proof -
  have "t \<noteq> []" using assms(2) by auto
  then show ?thesis using assms by (auto simp: reads_def Suc_less_eq2 Let_def)
qed

lemma reads_statement:
  assumes t: "trim_space (snd ln) = t" "t \<noteq> []" "hd t \<noteq> CHR ''#''" "first_word t \<notin> set terms"
    and s: "\<And>n. source_size rest < n \<Longrightarrow> block_statement n (parse_block n) ln rest = Some (s, rest')"
    and r: "reads terms rest' ss r" "source_size rest' \<le> source_size rest"
  shows "reads terms (ln # rest) (s # ss) r"
proof -
  have "\<not> has_prefix t ''#''" using t(2,3) by (cases t) auto
  moreover have "parse_block n terms rest' = Some (ss, r)" if "source_size rest < n" for n
    using readsD [OF r(1)] r(2) that by simp
  ultimately show ?thesis using t s by (auto simp: reads_def Suc_less_eq2 List.member_iff Let_def)
qed

lemma reads_simple:
  assumes "plain_simple s" "snd ln = repeat_blanks n @ text_of s" "set terms \<subseteq> set reserved" "reads terms ls ss r"
  shows "reads terms (ln # ls) (parse_statement_line (text_of s) (fst ln) # ss) r"
proof -
  let ?t = "text_of s"
  have g: "good_line ?t" using assms(1) by (rule simple_good)
  then have w: "\<not> List.member reserved (first_word ?t)" "?t \<noteq> []" "hd ?t \<noteq> CHR ''#''" by (auto simp: good_line_def)
  have t: "trim_space (snd ln) = ?t" using assms(2) trim_lead [OF good_solid [OF g]] by simp
  have "block_statement m pb ln ls = Some (parse_statement_line ?t (fst ln), ls)" for m pb
    using w(1) good_classify [OF g] good_no_parens [OF g]
    by (auto simp: block_statement_def t Let_def reserved_def List.member_iff)
  then show ?thesis
    using w assms(3,4) by (intro reads_statement [OF t]) (auto simp: List.member_iff)
qed

end
