(* ===== verification/Script_Roundtrip.thy ===== *)
theory Script_Roundtrip
  imports Plain_Scripts
begin

text \<open>
  What \<open>migrate\<close> prints for a plain script is read back by the bash reader as the same script: the headers
  of the compound statements, the arms of a case, blocks by induction on the script, and the lines of the text.
\<close>

section \<open>Headers\<close>

lemma index_of_own_prefix: "index_of (p @ r) p = Some 0"
  by (cases "p @ r") (auto, metis prefixI)

lemma last_index_of_suffix: "last_index_of (t @ p) p = Some (length t)"
  by (simp add: last_index_of_def index_of_own_prefix)

lemma last_index_of_byte: "c \<notin> set b \<Longrightarrow> last_index_of (a @ c # b) [c] = Some (length a)"
  using index_of_append_byte [of c "rev b" "rev a"] by (simp add: last_index_of_def)

lemma index_of_append_first: "hd p \<notin> set a \<Longrightarrow> p \<noteq> [] \<Longrightarrow> index_of (a @ p @ r) p = Some (length a)"
proof (induction a)
  case Nil
  then show ?case using index_of_own_prefix by simp
next
  case (Cons c a)
  then have "\<not> prefix p (c # a @ p @ r)" by (cases p) auto
  then show ?case using Cons by simp
qed

lemma trim_prefix_append [simp]: "trim_prefix (p @ r) p = r"
  by (simp add: trim_prefix_def)

lemma trim_prefix_append_append [simp]: "trim_prefix ((p @ q) @ r) (p @ q) = r" "trim_prefix (p @ q @ r) (p @ q) = r"
  by (simp_all add: trim_prefix_def)

text \<open>A word of the shell's grammar at the start of a line, and the text after it.\<close>

definition keyword :: "string \<Rightarrow> bool" where
  "keyword k \<longleftrightarrow> k \<noteq> [] \<and> list_all (\<lambda>c. 97 \<le> (of_char c :: nat) \<and> (of_char c :: nat) \<le> 122) k"

lemma letter_space: "97 \<le> (of_char c :: nat) \<Longrightarrow> (of_char c :: nat) \<le> 126 \<Longrightarrow> of_char c < (128::nat) \<and> \<not> is_space (of_char c)"
  by (simp add: is_space_def)

lemma keyword_solid: "keyword k \<Longrightarrow> solid k"
proof -
  assume k: "keyword k"
  then have "of_char c < (128::nat) \<and> \<not> is_space (of_char c)" if "c \<in> set k" for c
    using that letter_space [of c] by (force simp: keyword_def list_all_iff)
  then show ?thesis using k by (simp add: keyword_def solid_def)
qed

lemma keyword_first_word:
  assumes "keyword k" "r = [] \<or> hd r = CHR '' '' \<or> hd r = CHR 0x09"
  shows "first_word (k @ r) = k"
proof -
  have "of_char CHR '' '' = (32::nat)" "of_char CHR 0x09 = (9::nat)" by simp_all
  then have "c \<noteq> CHR '' '' \<and> c \<noteq> CHR 0x09" if "c \<in> set k" for c
    using assms(1) that by (fastforce simp: keyword_def list_all_iff)
  then have "takeWhile (\<lambda>c. c \<noteq> CHR '' '' \<and> c \<noteq> CHR 0x09) (k @ r) = k @ takeWhile (\<lambda>c. c \<noteq> CHR '' '' \<and> c \<noteq> CHR 0x09) r"
    by (intro takeWhile_append2) auto
  then show ?thesis using assms(2) by (cases r) (auto simp: first_word_def)
qed

lemma keyword_hd: "keyword k \<Longrightarrow> hd (k @ r) \<noteq> CHR ''#''"
  using of_char_of [of 35] by (cases k) (auto simp: keyword_def)

lemma solid_between: "solid a \<Longrightarrow> solid b \<Longrightarrow> solid (a @ m @ b)"
  by (auto simp: solid_def)

lemma solid_pair: "solid a \<Longrightarrow> solid b \<Longrightarrow> solid (a @ b)"
  by (auto simp: solid_def)

lemma keyword_line:
  assumes "keyword k" "solid b" "snd ln = repeat_blanks n @ k @ '' '' @ b"
  shows "trim_space (snd ln) = k @ '' '' @ b" "first_word (trim_space (snd ln)) = k"
    "trim_space (trim_prefix (trim_space (snd ln)) k) = b"
proof -
  show t: "trim_space (snd ln) = k @ '' '' @ b"
    unfolding assms(3) using solid_between [OF keyword_solid [OF assms(1)] assms(2), of "'' ''"] by (intro trim_lead) auto
  show "first_word (trim_space (snd ln)) = k" unfolding t using keyword_first_word [OF assms(1)] by simp
  show "trim_space (trim_prefix (trim_space (snd ln)) k) = b"
    unfolding t using trim_lead [OF assms(2), of "'' ''"] by simp
qed

lemma keyword_alone:
  assumes "keyword k" "snd ln = repeat_blanks n @ k"
  shows "trim_space (snd ln) = k" "first_word (trim_space (snd ln)) = k"
proof -
  show t: "trim_space (snd ln) = k" unfolding assms(2) using keyword_solid [OF assms(1)] by (intro trim_lead) auto
  show "first_word (trim_space (snd ln)) = k" unfolding t using keyword_first_word [OF assms(1), of "[]"] by simp
qed

lemma keyword_words: "list_all keyword [''if'', ''then'', ''elif'', ''else'', ''fi'', ''for'', ''while'', ''do'', ''done'', ''case'', ''esac'', ''in'']"
  by code_simp

lemma test_text: "plain_test s \<Longrightarrow> text_of s = format_test s" "plain_test s \<Longrightarrow> plain_simple s"
  by (auto simp: plain_test_def text_of_def split: stmt.splits)

lemma header_test_line:
  assumes "plain_test s" "keyword kw" "keyword term" "snd ln = repeat_blanks n @ kw @ '' '' @ format_test s @ ''; '' @ term"
  shows "header_test ln kw term = parse_statement_line (text_of s) (fst ln)"
    "trim_space (snd ln) = kw @ '' '' @ format_test s @ ''; '' @ term" "first_word (trim_space (snd ln)) = kw"
proof -
  have t: "solid (format_test s)" using good_solid [OF simple_good [OF test_text(2) [OF assms(1)]]] test_text(1) [OF assms(1)] by simp
  then have b: "solid (format_test s @ ''; '' @ term)" using keyword_solid [OF assms(3)] by (rule solid_between)
  note l = keyword_line [OF assms(2) b assms(4)]
  show "trim_space (snd ln) = kw @ '' '' @ format_test s @ ''; '' @ term" "first_word (trim_space (snd ln)) = kw" using l by auto
  have "last_index_of (format_test s @ ''; '' @ term) (''; '' @ term) = Some (length (format_test s))" by (rule last_index_of_suffix)
  then show "header_test ln kw term = parse_statement_line (text_of s) (fst ln)"
    by (simp add: header_test_def Let_def l(3) trim_solid [OF t] test_text(1) [OF assms(1)] del: append.simps append_assoc)
qed

lemma solid_join: "ps \<noteq> [] \<Longrightarrow> (\<And>p. p \<in> set ps \<Longrightarrow> solid p) \<Longrightarrow> solid (str_join sep ps)"
proof (induction sep ps rule: str_join.induct)
  case (3 sep x y zs)
  then show ?case using solid_between [of x "str_join sep (y # zs)" sep] by auto
qed auto

lemma plain_arg_solid: "plain_arg a \<Longrightarrow> solid (maybe_quote a)"
proof (cases "a = [] \<or> CHR '' '' \<in> set a")
  assume a: "plain_arg a"
  case True
  have "of_char CHR 0x22 < (128::nat)" "\<not> is_space (of_char CHR 0x22)" by (simp_all add: is_space_def)
  then show ?thesis using True quotes_of_arg(1) [OF a] by (simp add: solid_def)
next
  assume a: "plain_arg a"
  case False
  then have "plain_text a" using plain_arg_no_blank [OF a] by (simp add: plain_text_def)
  then show ?thesis using False quotes_of_arg(1) [OF a] plain_text_solid by simp
qed

lemma tokenize_args:
  assumes "list_all plain_arg ws"
  shows "split_words (str_join '' '' (map quote_for_migrate ws)) = ws"
proof -
  have q: "map quote_for_migrate ws = map maybe_quote ws" using assms quotes_of_arg(2) by (auto simp: list_all_iff)
  have "tokens_as (str_join '' '' (map maybe_quote ws)) (concat (map (\<lambda>a. [(Bash_word, a)]) ws))"
    by (rule tokens_as_join [OF tokens_as_words [OF assms]])
  moreover have "list_all line_char (str_join '' '' (map maybe_quote ws))"
    using assms arg_text(1) by (intro join_chars) (auto simp: list_all_iff)
  ultimately have "tokenize_bash (str_join '' '' (map quote_for_migrate ws)) = Inr (map (\<lambda>a. (Bash_word, a)) ws)"
    using tokenize_text by (simp add: q concat_map_singleton)
  then show ?thesis by (simp add: split_words_def comp_def)
qed

lemma plain_text_no_blank: "plain_text w \<Longrightarrow> CHR '' '' \<notin> set w"
  using plain_not_special by (auto simp: plain_text_def list_all_iff)

lemma for_header_of:
  assumes "trim_space (trim_prefix (trim_space text) ''for'') = h @ ''; do''" "trim_space h = h"
  shows "for_header text = (case index_of h '' in '' of None \<Rightarrow> (h, [])
    | Some i \<Rightarrow> (trim_space (take i h), split_words (trim_space (drop (i + 4) h))))"
proof -
  define x where "x = h @ CHR '';'' # '' do''"
  have s: "trim_suffix x '';'' = x" by (auto simp: x_def trim_suffix_def suffix_def)
  have i: "last_index_of x '';'' = Some (length h)" unfolding x_def by (rule last_index_of_byte) simp
  have t: "take (length h) x = h" "drop (length h + 1) x = '' do''" by (simp_all add: x_def)
  have d: "trim_space '' do'' = ''do''" by code_simp
  have x: "trim_space (trim_prefix (trim_space text) ''for'') = x" using assms(1) by (simp add: x_def)
  show ?thesis unfolding for_header_def Let_def x s i option.case t d assms(2) by simp
qed

lemma for_header_line:
  assumes "plain_text var" "ws \<noteq> []" "list_all plain_arg ws"
    "snd ln = repeat_blanks n @ ''for '' @ var @ '' in '' @ str_join '' '' (map quote_for_migrate ws) @ ''; do''"
  shows "for_header (snd ln) = (var, ws)" "first_word (trim_space (snd ln)) = ''for''"
    "trim_space (snd ln) = ''for '' @ var @ '' in '' @ str_join '' '' (map quote_for_migrate ws) @ ''; do''"
proof -
  let ?w = "str_join '' '' (map quote_for_migrate ws)"
  have v: "solid var" using assms(1) by (rule plain_text_solid)
  have w: "solid ?w" using assms(2,3) plain_arg_solid quotes_of_arg(2) by (intro solid_join) (auto simp: list_all_iff)
  have vw: "solid (var @ '' in '' @ ?w)" using v w by (rule solid_between)
  have k: "keyword ''for''" "keyword ''do''" using keyword_words by auto
  have b: "solid ((var @ '' in '' @ ?w) @ ''; '' @ ''do'')" using vw keyword_solid [OF k(2)] by (rule solid_between)
  note l = keyword_line [OF k(1) b, of ln n]
  have s: "snd ln = repeat_blanks n @ ''for'' @ '' '' @ (var @ '' in '' @ ?w) @ ''; '' @ ''do''" using assms(4) by simp
  show "first_word (trim_space (snd ln)) = ''for''"
    "trim_space (snd ln) = ''for '' @ var @ '' in '' @ ?w @ ''; do''" using l(1,2) s by auto
  have j: "index_of (var @ '' in '' @ ?w) '' in '' = Some (length var)"
    using plain_text_no_blank [OF assms(1)] by (intro index_of_append_first) auto
  have "trim_space (trim_prefix (trim_space (snd ln)) ''for'') = (var @ '' in '' @ ?w) @ ''; do''" using l(3) [OF s] by simp
  from for_header_of [OF this trim_solid [OF vw]] show "for_header (snd ln) = (var, ws)"
    using j tokenize_args [OF assms(3)] trim_solid [OF v] trim_solid [OF w] by simp
qed

lemma case_word_line:
  assumes "plain_text w" "snd ln = repeat_blanks n @ ''case '' @ quote_for_migrate w @ '' in''"
  shows "case_word (snd ln) = w" "first_word (trim_space (snd ln)) = ''case''"
    "trim_space (snd ln) = ''case '' @ w @ '' in''"
proof -
  have a: "plain_arg w" using assms(1) by (auto simp: plain_text_def plain_arg_def list_all_iff)
  have q: "quote_for_migrate w = w"
    using quotes_of_arg [OF a] plain_text_no_blank [OF assms(1)] assms(1) by (simp add: plain_text_def)
  have k: "keyword ''case''" "keyword ''in''" using keyword_words by auto
  have w: "solid w" using assms(1) by (rule plain_text_solid)
  have b: "solid (w @ '' '' @ ''in'')" using w keyword_solid [OF k(2)] by (rule solid_between)
  have s: "snd ln = repeat_blanks n @ ''case'' @ '' '' @ w @ '' '' @ ''in''" using assms(2) q by simp
  note l = keyword_line [OF k(1) b s]
  show "first_word (trim_space (snd ln)) = ''case''" "trim_space (snd ln) = ''case '' @ w @ '' in''" using l(1,2) by auto
  have "index_of (w @ '' in'' @ []) '' in'' = Some (length w)"
    using plain_text_no_blank [OF assms(1)] by (intro index_of_append_first) auto
  then show "case_word (snd ln) = w"
    using l(3) trim_solid [OF w] strip_plain_arg [OF a] by (simp add: case_word_def Let_def)
qed

section \<open>Arms\<close>

lemma simple_lines: "plain_simple s \<Longrightarrow> migrate_stmt n s = [repeat_blanks n @ text_of s]"
  by (cases s) (auto simp: text_of_def)

lemma simple_block: "list_all plain_simple b \<Longrightarrow> migrate_block n b = map (\<lambda>s. repeat_blanks n @ text_of s) b"
  by (induction b) (auto simp: simple_lines)

lemma trim_simple: "plain_simple s \<Longrightarrow> trim_space (repeat_blanks n @ text_of s) = text_of s"
  using good_solid [OF simple_good] by (intro trim_lead) auto

lemma simple_no_semicolon: "plain_simple s \<Longrightarrow> CHR '';'' \<notin> set (text_of s)"
  using line_char_absent [of "text_of s" "CHR '';''"] not_line_chars(4) simple_good [of s] by (auto simp: good_line_def)

lemma simple_not_esac: "plain_simple s \<Longrightarrow> first_word (text_of s) \<noteq> ''esac''"
  using simple_good [of s] by (auto simp: good_line_def reserved_def)

lemma case_body_simple:
  assumes "snd e = repeat_blanks m @ ''  ;;''"
  shows "list_all plain_simple body \<Longrightarrow> map snd ls = map (\<lambda>s. repeat_blanks n @ text_of s) body \<Longrightarrow>
     \<exists>body'. case_body (ls @ e # r) = (body', r) \<and> map no_lines body' = map no_lines body"
proof (induction body arbitrary: ls)
  case Nil
  obtain l tx where e: "e = (l, tx)" by fastforce
  have "solid '';;''" by (simp add: solid_def is_space_def)
  then have "trim_space ((repeat_blanks m @ ''  '') @ '';;'') = '';;''" by (rule trim_lead) auto
  then have "trim_space tx = '';;''" using assms e by simp
  then show ?case using Nil e by simp
next
  case (Cons s body)
  then obtain l tx ls' where ls: "ls = (l, tx) # ls'" "tx = repeat_blanks n @ text_of s"
    "map snd ls' = map (\<lambda>s. repeat_blanks n @ text_of s) body" by auto
  have s: "plain_simple s" "list_all plain_simple body" using Cons.prems(1) by auto
  obtain body' where b: "case_body (ls' @ e # r) = (body', r)" "map no_lines body' = map no_lines body"
    using Cons.IH [OF s(2) ls(3)] by blast
  have "\<not> has_suffix (text_of s) '';;''" "text_of s \<noteq> '';;''"
    using simple_no_semicolon [OF s(1)] by (auto simp: suffix_def)
  then have "case_body (ls @ e # r) = (parse_statement_line (text_of s) l # body', r)"
    using b(1) ls(1,2) trim_simple [OF s(1)] simple_not_esac [OF s(1)] by (simp add: Let_def)
  then show ?case using b(2) simple_parse [OF s(1)] by auto
qed

lemma patterns_text:
  assumes "pats \<noteq> []" "list_all plain_text pats"
  shows "split_byte CHR ''|'' (str_join ''|'' pats) = pats" "map trim_space pats = pats"
    "solid (str_join ''|'' pats)" "list_all (\<lambda>c. plain_char c \<or> c = CHR ''|'') (str_join ''|'' pats)"
proof -
  have c: "plain_char c" if "p \<in> set pats" "c \<in> set p" for p c using assms(2) that by (auto simp: plain_text_def list_all_iff)
  have bar: "CHR ''|'' \<notin> set p" if "p \<in> set pats" for p using c [OF that] plain_not_special by blast
  show "split_byte CHR ''|'' (str_join ''|'' pats) = pats" using assms(1) bar by (intro split_join_byte) auto
  have s: "solid p" if "p \<in> set pats" for p using that assms(2) plain_text_solid by (auto simp: list_all_iff)
  then show "map trim_space pats = pats" by (simp add: map_idI trim_solid)
  show "solid (str_join ''|'' pats)" using assms(1) s by (intro solid_join) auto
  show "list_all (\<lambda>c. plain_char c \<or> c = CHR ''|'') (str_join ''|'' pats)"
    using c by (intro join_chars) (auto simp: list_all_iff)
qed

lemma arm_header:
  assumes "pats \<noteq> []" "list_all plain_text pats" "snd ln = repeat_blanks n @ ''  '' @ str_join ''|'' pats @ '')''"
  shows "trim_space (snd ln) = str_join ''|'' pats @ '')''" "first_word (trim_space (snd ln)) \<noteq> ''esac''"
    "index_of (str_join ''|'' pats @ '')'') '')'' = Some (length (str_join ''|'' pats))"
proof -
  let ?j = "str_join ''|'' pats"
  note p = patterns_text [OF assms(1,2)]
  have "solid '')''" by (simp add: solid_def is_space_def)
  then have b: "solid (?j @ '')'')" by (rule solid_pair [OF p(3)])
  have "trim_space ((repeat_blanks n @ ''  '') @ ?j @ '')'') = ?j @ '')''" using b by (rule trim_lead) auto
  then show t: "trim_space (snd ln) = ?j @ '')''" by (simp add: assms(3))
  have n: "\<not> plain_char CHR '' ''" "\<not> plain_char CHR 0x09" "\<not> plain_char CHR '')''" by code_simp+
  have bar: "CHR ''|'' \<noteq> CHR '' ''" "CHR ''|'' \<noteq> CHR 0x09" "CHR ''|'' \<noteq> CHR '')''" by simp_all
  have c: "c \<noteq> CHR '' '' \<and> c \<noteq> CHR 0x09 \<and> c \<noteq> CHR '')''" if "c \<in> set ?j" for c
  proof -
    have "plain_char c \<or> c = CHR ''|''" using p(4) that by (simp add: list_all_iff)
    then show ?thesis using n bar by blast
  qed
  then have "first_word (?j @ '')'') = ?j @ '')''" by (simp add: first_word_def)
  moreover have "last (?j @ '')'') \<noteq> last ''esac''" by simp
  ultimately show "first_word (trim_space (snd ln)) \<noteq> ''esac''" unfolding t by metis
  show "index_of (?j @ '')'') '')'' = Some (length ?j)" using c by (intro index_of_append_byte) blast
qed

lemma case_arms_plain:
  assumes "trim_space (snd e) = ''esac''"
  shows "plain_arms arms \<Longrightarrow> map snd ls = migrate_arms n arms \<Longrightarrow>
     \<exists>arms'. case_arms (ls @ e # r) = (arms', r) \<and> map (map_prod (\<lambda>p. p) (map no_lines)) arms' = map (map_prod (\<lambda>p. p) (map no_lines)) arms"
proof (induction arms arbitrary: ls)
  case Nil
  obtain l tx where e: "e = (l, tx)" by fastforce
  have "first_word ''esac'' = ''esac''" by code_simp
  then show ?case using Nil assms e by (simp add: skip_keyword_line_def)
next
  case (Cons arm arms)
  obtain pats body where arm: "arm = (pats, body)" by fastforce
  have p: "pats \<noteq> []" "list_all plain_text pats" "list_all plain_simple body" "plain_arms arms" using Cons.prems(1) arm by auto
  obtain h b d t where ls: "ls = h # b @ d # t" "snd h = repeat_blanks n @ ''  '' @ str_join ''|'' pats @ '')''"
      "map snd b = migrate_block (Suc (Suc n)) body" "snd d = repeat_blanks n @ ''  ;;''" "map snd t = migrate_arms n arms"
    using Cons.prems(2) arm by (auto simp: map_eq_Cons_conv map_eq_append_conv)
  obtain arms' where a: "case_arms (t @ e # r) = (arms', r)"
    "map (map_prod (\<lambda>p. p) (map no_lines)) arms' = map (map_prod (\<lambda>p. p) (map no_lines)) arms"
    using Cons.IH [OF p(4) ls(5)] by blast
  obtain body' where b: "case_body (b @ d # t @ e # r) = (body', t @ e # r)" "map no_lines body' = map no_lines body"
    using case_body_simple [OF ls(4) p(3), of b "Suc (Suc n)" "t @ e # r"] ls(3) simple_block [OF p(3)] by auto
  note hd = arm_header [OF p(1,2) ls(2)]
  have "trim_space [] = []" by code_simp
  then have "case_arm h (b @ d # t @ e # r) = ((pats, body'), t @ e # r)"
    using hd(3) b(1) patterns_text [OF p(1,2)] by (simp add: case_arm_def hd(1) Let_def)
  then show ?case using hd(2) a b(2) ls(1) arm by simp
qed

section \<open>Blocks\<close>

text \<open>The next line does not open a block with a keyword of its own.\<close>

definition quiet :: "source_line list \<Rightarrow> bool" where
  "quiet ls \<longleftrightarrow> ls = [] \<or> first_word (trim_space (snd (hd ls))) \<notin> {''then'', ''do'', ''{''}"

lemma quiet_skip: "quiet ls \<Longrightarrow> keyword kw \<Longrightarrow> kw \<in> {''then'', ''do''} \<Longrightarrow> skip_keyword_line kw ls = ls"
proof (cases ls)
  case (Cons ln r)
  assume q: "quiet ls" "keyword kw" "kw \<in> {''then'', ''do''}"
  let ?t = "trim_space (snd ln)"
  have w: "first_word ?t \<noteq> kw" using q(1,3) Cons by (auto simp: quiet_def)
  have "?t \<noteq> kw" using w keyword_first_word [OF q(2), of "[]"] by auto
  moreover have "\<not> has_prefix ?t (kw @ [c])" if "c = CHR '' '' \<or> c = CHR 0x09" for c
    using w keyword_first_word [OF q(2), of "c # _"] that by (auto simp: prefix_def)
  ultimately show ?thesis using Cons by (cases ln) (simp add: skip_keyword_line_def Let_def)
qed (simp add: skip_keyword_line_def)

lemma quiet_brace: "quiet ls \<Longrightarrow> skip_brace ''{'' ls = ls"
proof (cases ls)
  case (Cons ln r)
  assume q: "quiet ls"
  have "first_word ''{'' = ''{''" by code_simp
  then have "trim_space (snd ln) \<noteq> ''{''" using q Cons by (auto simp: quiet_def)
  then show ?thesis using Cons by (cases ln) (simp add: skip_brace_def)
qed (simp add: skip_brace_def)

lemma skip_closing: "trim_space (snd d) = kw \<Longrightarrow> skip_keyword_line kw (d # r) = r" "trim_space (snd d) = kw \<Longrightarrow> skip_brace kw (d # r) = r"
  by (cases d; simp add: skip_keyword_line_def skip_brace_def)+

lemma func_header:
  assumes "is_ident name" "snd ln = repeat_blanks n @ name @ ''() {''"
  shows "trim_space (snd ln) = name @ ''() {''" "first_word (trim_space (snd ln)) = name @ ''()''"
    "is_function_def_header (trim_space (snd ln))" "hd (name @ ''() {'') \<noteq> CHR ''#''"
    "trim_space (takeWhile (\<lambda>c. c \<noteq> CHR ''('') (trim_space (snd ln))) = name"
proof -
  note p = ident_plain [OF assms(1)]
  have n: "solid name" using p(1) by (rule plain_text_solid)
  have "solid ''() {''" by (simp add: solid_def is_space_def)
  then have "solid (name @ ''() {'')" by (rule solid_pair [OF n])
  then show t: "trim_space (snd ln) = name @ ''() {''" unfolding assms(2) by (intro trim_lead) auto
  have pc: "\<not> plain_char CHR '' ''" "\<not> plain_char CHR 0x09" "\<not> plain_char CHR ''(''" "\<not> plain_char CHR '')''" by code_simp+
  have c: "c \<noteq> CHR '' '' \<and> c \<noteq> CHR 0x09" "c \<noteq> CHR ''(''" "c \<noteq> CHR '')''" if "c \<in> set name" for c
    using pc p(1) that by (auto simp: plain_text_def list_all_iff)
  show "first_word (trim_space (snd ln)) = name @ ''()''" unfolding t first_word_def using c(1) by (subst takeWhile_append2) auto
  have "index_of (name @ CHR ''('' # '') {'') ''('' = Some (length name)" using c(2) by (intro index_of_append_byte) blast
  moreover have "index_of ((name @ ''('') @ CHR '')'' # '' {'') '')'' = Some (length (name @ ''(''))"
    using c(3) by (intro index_of_append_byte) auto
  moreover have "name \<noteq> []" using p(1) by (simp add: plain_text_def)
  ultimately show "is_function_def_header (trim_space (snd ln))"
    using trim_solid [OF n] assms(1) by (simp add: t is_function_def_header_def)
  show "hd (name @ ''() {'') \<noteq> CHR ''#''" using p(1,3) by (simp add: plain_text_def)
  have "takeWhile (\<lambda>c. c \<noteq> CHR ''('') (name @ ''() {'') = name" using c(2) by (subst takeWhile_append2) auto
  then show "trim_space (takeWhile (\<lambda>c. c \<noteq> CHR ''('') (trim_space (snd ln))) = name" using trim_solid [OF n] by (simp add: t)
qed

lemma comment_line:
  assumes "plain_comment t"
  shows "trim_space (repeat_blanks n @ t) = t" "has_prefix t ''#''"
proof -
  show "has_prefix t ''#''" using assms by (simp add: plain_comment_def)
  then obtain u where t: "t = CHR ''#'' # u" by (auto simp: prefix_def)
  have "char_of (32::nat) = CHR '' ''" by code_simp
  then have "(of_char (last t) :: nat) \<noteq> 32" using assms by (metis plain_comment_def char_of_char)
  moreover have "last t \<in> set t" using t by simp
  ultimately have "32 < (of_char (last t) :: nat)" "(of_char (last t) :: nat) < 127"
    using assms unfolding plain_comment_def list_all_iff by (metis le_neq_implies_less, blast)
  then have "solid t" using t by (simp add: solid_def is_space_def)
  then show "trim_space (repeat_blanks n @ t) = t" by (rule trim_lead) simp
qed

definition closers :: "string list" where
  "closers = [''elif'', ''else'', ''fi'', ''done'', ''}'']"

lemma closers_reserved: "set closers \<subseteq> set reserved"
  by (simp add: closers_def reserved_def)

lemma keyword_list:
  "keyword ''if''" "keyword ''then''" "keyword ''elif''" "keyword ''else''" "keyword ''fi''" "keyword ''for''" "keyword ''while''"
  "keyword ''do''" "keyword ''done''" "keyword ''case''" "keyword ''esac''" "keyword ''in''"
  using keyword_words by simp_all

lemma first_word_brace: "trim_space (repeat_blanks n @ ''}'') = ''}''" "first_word ''}'' = ''}''"
proof -
  show "trim_space (repeat_blanks n @ ''}'') = ''}''" by (rule trim_lead) (simp_all add: solid_def is_space_def)
  show "first_word ''}'' = ''}''" by code_simp
qed

lemma first_word_hash: "has_prefix t ''#'' \<Longrightarrow> hd (first_word t) = CHR ''#''" 
  by (auto simp: prefix_def first_word_def)

text \<open>The first line of a statement.\<close>

lemma stmt_opens:
  assumes "plain_stmt s"
  shows "\<exists>l ls. migrate_stmt n s = l # ls \<and> first_word (trim_space l) \<notin> {''then'', ''do'', ''{''}"
proof (cases "plain_simple s")
  case True
  then show ?thesis using simple_lines [OF True] trim_simple [OF True] simple_good [OF True]
    by (auto simp: good_line_def reserved_def)
next
  case False
  then show ?thesis
  proof (cases s)
    case (S_comment l t)
    have c: "trim_space (repeat_blanks n @ t) = t" "has_prefix t ''#''" using comment_line assms S_comment by auto
    have "first_word t \<notin> {''then'', ''do'', ''{''}" using first_word_hash [OF c(2)] by auto
    then show ?thesis using S_comment c(1) by simp
  next
    case (S_cond l brs els)
    then obtain t body brs' where b: "brs = (t, body) # brs'" "plain_test t" using assms by (cases brs) auto
    show ?thesis using header_test_line(3) [OF b(2) keyword_list(1,2), of "(0, repeat_blanks n @ ''if'' @ '' '' @ format_test t @ ''; '' @ ''then'')" n]
      by (simp add: S_cond b(1))
  next
    case (S_for l var ws body)
    then show ?thesis using for_header_line(2) [of var ws "(0, repeat_blanks n @ ''for '' @ var @ '' in '' @ str_join '' '' (map quote_for_migrate ws) @ ''; do'')" n] assms
      by simp
  next
    case (S_while l t body)
    then show ?thesis using header_test_line(3) [of t "''while''" "''do''" "(0, repeat_blanks n @ ''while'' @ '' '' @ format_test t @ ''; '' @ ''do'')" n]
        assms keyword_list by simp
  next
    case (S_case l word arms)
    then show ?thesis using case_word_line(2) [of word "(0, repeat_blanks n @ ''case '' @ quote_for_migrate word @ '' in'')" n] assms by simp
  next
    case (S_func l name body)
    have "last (name @ ''()'') = CHR '')''" by simp
    then have "name @ ''()'' \<notin> {''then'', ''do'', ''{''}" by auto
    then show ?thesis using S_func func_header(2) [of name "(0, repeat_blanks n @ name @ ''() {'')" n] assms by simp
  qed (use assms False in auto)
qed

lemma block_quiet:
  assumes "plain_block b" "map snd ls = migrate_block n b" "first_word (trim_space (snd d)) \<notin> {''then'', ''do'', ''{''}"
  shows "quiet (ls @ d # r)"
proof (cases b)
  case Nil
  then show ?thesis using assms by (simp add: quiet_def)
next
  case (Cons s ss)
  then obtain l t where "migrate_stmt n s = l # t" "first_word (trim_space l) \<notin> {''then'', ''do'', ''{''}"
    using stmt_opens assms(1) by fastforce
  then show ?thesis using assms(2) Cons by (cases ls) (auto simp: quiet_def)
qed

text \<open>What a statement, a block and the branches of a conditional are read back as.\<close>

definition stmt_back :: "stmt \<Rightarrow> bool" where
  "stmt_back s \<longleftrightarrow> (\<forall>n ls terms rest ss r. map snd ls = migrate_stmt n s \<longrightarrow> set terms \<subseteq> set closers \<longrightarrow> reads terms rest ss r
     \<longrightarrow> (\<exists>s'. reads terms (ls @ rest) (s' # ss) r \<and> no_lines s' = as_read s))"

definition block_back :: "stmt list \<Rightarrow> bool" where
  "block_back b \<longleftrightarrow> (\<forall>n ls terms rest ss r. map snd ls = migrate_block n b \<longrightarrow> set terms \<subseteq> set closers \<longrightarrow> reads terms rest ss r
     \<longrightarrow> (\<exists>b'. reads terms (ls @ rest) (b' @ ss) r \<and> map no_lines b' = map as_read b))"

definition else_lines :: "nat \<Rightarrow> stmt list \<Rightarrow> string list" where
  "else_lines n els = (if els \<noteq> [] then (repeat_blanks n @ ''else'') # migrate_block (Suc n) els else [])"

abbreviation cut_else :: "stmt list \<Rightarrow> (stmt \<times> stmt list) list \<Rightarrow> (stmt \<times> stmt list) list" where
  "cut_else els \<equiv> (if els = [] then \<lambda>b. b else empty_last)"

definition branches_back :: "(stmt \<times> stmt list) list \<Rightarrow> bool" where
  "branches_back brs \<longleftrightarrow> (\<forall>n kw h ls w els f rest. map snd (h # ls) = migrate_branches n kw brs \<longrightarrow> kw \<in> {''if'', ''elif''}
     \<longrightarrow> map snd w = else_lines n els \<longrightarrow> plain_block els \<longrightarrow> block_back els \<longrightarrow> trim_space (snd f) = ''fi''
     \<longrightarrow> (\<exists>brs' els'. map (map_prod no_lines (map no_lines)) brs' = cut_else els (map (map_prod as_read (map as_read)) brs)
        \<and> map no_lines els' = map as_read els
        \<and> (\<forall>k m acc. source_size (ls @ w @ f # rest) < k \<longrightarrow> source_size (ls @ w @ f # rest) < m \<longrightarrow>
              if_loop k (parse_block m) (acc @ [(header_test h kw ''then'', [])]) [] (ls @ w @ f # rest) = Some (acc @ brs', els', rest))))"

lemma test_back: "plain_test t \<Longrightarrow> no_lines (parse_statement_line (text_of t) l) = as_read t"
  using simple_parse [OF test_text(2)] as_read_no_else [OF plain_simple_no_else [OF test_text(2)]] by metis

lemma arms_as_read:
  "plain_arms arms \<Longrightarrow> map (map_prod (\<lambda>p. p) (map as_read)) arms = map (map_prod (\<lambda>p. p) (map no_lines)) arms"
proof (induction arms)
  case (Cons arm arms)
  then show ?case using as_read_no_else [OF plain_simple_no_else] by (cases arm) (auto simp: list_all_iff)
qed simp

lemma block_backD:
  assumes "block_back b" "map snd ls = migrate_block n b" "set terms \<subseteq> set closers" "reads terms rest [] rest"
  obtains b' where "reads terms (ls @ rest) b' rest" "map no_lines b' = map as_read b"
  using assms unfolding block_back_def by (metis append_Nil2)

lemma closer_line:
  assumes "trim_space (snd d) = k" "k \<in> set closers" "k \<in> set terms"
  shows "reads terms (d # r) [] (d # r)"
proof -
  have "list_all (\<lambda>k. k \<noteq> [] \<and> hd k \<noteq> CHR ''#'' \<and> first_word k = k) closers" by code_simp
  then have "k \<noteq> [] \<and> hd k \<noteq> CHR ''#'' \<and> first_word k = k" using assms(2) by (simp add: list_all_iff)
  then show ?thesis using assms by (intro reads_end) auto
qed

lemma block_Nil_back: "block_back []"
  by (simp add: block_back_def)

lemma block_Cons_back:
  assumes "stmt_back s" "block_back b"
  shows "block_back (s # b)"
  unfolding block_back_def
proof (intro allI impI)
  fix n terms rest ss r and ls :: "source_line list"
  assume a: "map snd ls = migrate_block n (s # b)" "set terms \<subseteq> set closers" "reads terms rest ss r"
  obtain l1 l2 where ls: "ls = l1 @ l2" "map snd l1 = migrate_stmt n s" "map snd l2 = migrate_block n b"
    using a(1) by (auto simp: map_eq_append_conv)
  obtain b' where b': "reads terms (l2 @ rest) (b' @ ss) r" "map no_lines b' = map as_read b"
    using assms(2) ls(3) a(2,3) unfolding block_back_def by metis
  obtain s' where "reads terms (l1 @ l2 @ rest) (s' # b' @ ss) r" "no_lines s' = as_read s"
    using assms(1) ls(2) a(2) b'(1) unfolding stmt_back_def by metis
  then show "\<exists>b'. reads terms (ls @ rest) (b' @ ss) r \<and> map no_lines b' = map as_read (s # b)"
    using b'(2) ls(1) by (intro exI [of _ "s' # b'"]) simp
qed

lemma reads_compound:
  assumes "trim_space (snd h) = t" "t \<noteq> []" "hd t \<noteq> CHR ''#''" "first_word t \<notin> set closers" "set terms \<subseteq> set closers"
    and "\<And>m. source_size (ls @ rest) < m \<Longrightarrow> block_statement m (parse_block m) h (ls @ rest) = Some (s, rest)" "reads terms rest ss r"
  shows "reads terms ((h # ls) @ rest) (s # ss) r"
proof -
  have "source_size rest \<le> source_size (ls @ rest)" by (simp add: source_size_def)
  then show ?thesis using assms by (auto intro: reads_statement)
qed

lemma do_block_back:
  assumes "plain_block body" "block_back body" "map snd b = migrate_block n body" "snd d = repeat_blanks k @ ''done''"
  obtains body' where "map no_lines body' = map as_read body"
    "\<And>m. source_size (b @ d # rest) < m \<Longrightarrow> do_block (parse_block m) (b @ d # rest) = Some (body', rest)"
proof -
  have d: "trim_space (snd d) = ''done''" "first_word (trim_space (snd d)) = ''done''"
    using keyword_alone [OF keyword_list(9) assms(4)] by auto
  obtain body' where b: "reads [''done''] (b @ d # rest) body' (d # rest)" "map no_lines body' = map as_read body"
    using block_backD [OF assms(2,3), of "[''done'']" "d # rest"] closer_line [OF d(1), of "[''done'']" rest] by (auto simp: closers_def)
  have "skip_keyword_line ''do'' (b @ d # rest) = b @ d # rest"
    using block_quiet [OF assms(1,3)] d(2) keyword_list(8) by (intro quiet_skip) auto
  then have "do_block (parse_block m) (b @ d # rest) = Some (body', rest)" if "source_size (b @ d # rest) < m" for m
    using readsD [OF b(1) that] skip_closing(1) [OF d(1)] by (simp add: do_block_def)
  then show ?thesis using that b(2) by blast
qed

lemma simple_back:
  assumes "plain_simple s"
  shows "stmt_back s"
  unfolding stmt_back_def
proof (intro allI impI)
  fix n terms rest ss r and ls :: "source_line list"
  assume a: "map snd ls = migrate_stmt n s" "set terms \<subseteq> set closers" "reads terms rest ss r"
  then obtain ln where ln: "ls = [ln]" "snd ln = repeat_blanks n @ text_of s" using simple_lines [OF assms] by auto
  then show "\<exists>s'. reads terms (ls @ rest) (s' # ss) r \<and> no_lines s' = as_read s"
    using reads_simple [OF assms ln(2) _ a(3)] simple_parse [OF assms] as_read_no_else [OF plain_simple_no_else [OF assms]] a(2) closers_reserved by auto
qed

lemma comment_back:
  assumes "plain_comment t"
  shows "stmt_back (S_comment l t)"
  unfolding stmt_back_def
proof (intro allI impI)
  fix n terms rest ss r and ls :: "source_line list"
  assume a: "map snd ls = migrate_stmt n (S_comment l t)" "set terms \<subseteq> set closers" "reads terms rest ss r"
  then obtain ln where ln: "ls = [ln]" "snd ln = repeat_blanks n @ t" by auto
  then show "\<exists>s'. reads terms (ls @ rest) (s' # ss) r \<and> no_lines s' = as_read (S_comment l t)"
    using reads_comment [of ln t] comment_line [OF assms] a(3) by fastforce
qed

lemma for_back:
  assumes "plain_text var" "ws \<noteq> []" "list_all plain_arg ws" "plain_block body" "block_back body"
  shows "stmt_back (S_for l var ws body)"
  unfolding stmt_back_def
proof (intro allI impI)
  fix n terms rest ss r and ls :: "source_line list"
  assume a: "map snd ls = migrate_stmt n (S_for l var ws body)" "set terms \<subseteq> set closers" "reads terms rest ss r"
  obtain h b d where ls: "ls = h # b @ [d]" "map snd b = migrate_block (Suc n) body" "snd d = repeat_blanks n @ ''done''"
    and h: "snd h = repeat_blanks n @ ''for '' @ var @ '' in '' @ str_join '' '' (map quote_for_migrate ws) @ ''; do''"
    using a(1) by (auto simp: map_eq_Cons_conv map_eq_append_conv)
  note f = for_header_line [OF assms(1-3) h]
  obtain body' where b: "map no_lines body' = map as_read body"
      "\<And>m. source_size (b @ d # rest) < m \<Longrightarrow> do_block (parse_block m) (b @ d # rest) = Some (body', rest)"
    using do_block_back [OF assms(4,5) ls(2,3)] by blast
  have "reads terms ((h # b @ [d]) @ rest) (S_for (fst h) var ws body' # ss) r"
    using f b(2) a(2,3) by (intro reads_compound [OF refl]) (auto simp: block_statement_def parse_for_def Let_def closers_def)
  then show "\<exists>s'. reads terms (ls @ rest) (s' # ss) r \<and> no_lines s' = as_read (S_for l var ws body)"
    unfolding ls(1) using b(1) by (intro exI [of _ "S_for (fst h) var ws body'"]) simp
qed

lemma while_back:
  assumes "plain_test t" "plain_block body" "block_back body"
  shows "stmt_back (S_while l t body)"
  unfolding stmt_back_def
proof (intro allI impI)
  fix n terms rest ss r and ls :: "source_line list"
  assume a: "map snd ls = migrate_stmt n (S_while l t body)" "set terms \<subseteq> set closers" "reads terms rest ss r"
  obtain h b d where ls: "ls = h # b @ [d]" "map snd b = migrate_block (Suc n) body" "snd d = repeat_blanks n @ ''done''"
    and h: "snd h = repeat_blanks n @ ''while'' @ '' '' @ format_test t @ ''; '' @ ''do''"
    using a(1) by (auto simp: map_eq_Cons_conv map_eq_append_conv)
  note f = header_test_line [OF assms(1) keyword_list(7,8) h]
  obtain body' where b: "map no_lines body' = map as_read body"
      "\<And>m. source_size (b @ d # rest) < m \<Longrightarrow> do_block (parse_block m) (b @ d # rest) = Some (body', rest)"
    using do_block_back [OF assms(2,3) ls(2,3)] by blast
  have "reads terms ((h # b @ [d]) @ rest) (S_while (fst h) (parse_statement_line (text_of t) (fst h)) body' # ss) r"
    using f b(2) a(2,3) by (intro reads_compound [OF refl]) (auto simp: block_statement_def parse_while_def Let_def closers_def)
  then show "\<exists>s'. reads terms (ls @ rest) (s' # ss) r \<and> no_lines s' = as_read (S_while l t body)"
    unfolding ls(1) using b(1) test_back [OF assms(1)]
    by (intro exI [of _ "S_while (fst h) (parse_statement_line (text_of t) (fst h)) body'"]) simp
qed

lemma case_back:
  assumes "plain_text word" "plain_arms arms"
  shows "stmt_back (S_case l word arms)"
  unfolding stmt_back_def
proof (intro allI impI)
  fix n terms rest ss r and ls :: "source_line list"
  assume a: "map snd ls = migrate_stmt n (S_case l word arms)" "set terms \<subseteq> set closers" "reads terms rest ss r"
  obtain h b d where ls: "ls = h # b @ [d]" "map snd b = migrate_arms n arms" "snd d = repeat_blanks n @ ''esac''"
    and h: "snd h = repeat_blanks n @ ''case '' @ quote_for_migrate word @ '' in''"
    using a(1) by (auto simp: map_eq_Cons_conv map_eq_append_conv)
  note f = case_word_line [OF assms(1) h]
  obtain arms' where b: "case_arms (b @ d # rest) = (arms', rest)"
      "map (map_prod (\<lambda>p. p) (map no_lines)) arms' = map (map_prod (\<lambda>p. p) (map no_lines)) arms"
    using case_arms_plain [OF keyword_alone(1) [OF keyword_list(11) ls(3)] assms(2) ls(2)] by blast
  have "reads terms ((h # b @ [d]) @ rest) (S_case (fst h) word arms' # ss) r"
    using f b(1) a(2,3) by (intro reads_compound [OF refl]) (auto simp: block_statement_def parse_case_def Let_def closers_def)
  then show "\<exists>s'. reads terms (ls @ rest) (s' # ss) r \<and> no_lines s' = as_read (S_case l word arms)"
    unfolding ls(1) using b(2) arms_as_read [OF assms(2)] by (intro exI [of _ "S_case (fst h) word arms'"]) simp
qed

lemma func_back:
  assumes "is_ident name" "plain_block body" "block_back body"
  shows "stmt_back (S_func l name body)"
  unfolding stmt_back_def
proof (intro allI impI)
  fix n terms rest ss r and ls :: "source_line list"
  assume a: "map snd ls = migrate_stmt n (S_func l name body)" "set terms \<subseteq> set closers" "reads terms rest ss r"
  obtain h b d where ls: "ls = h # b @ [d]" "map snd b = migrate_block (Suc n) body" "snd d = repeat_blanks n @ ''}''"
    and h: "snd h = repeat_blanks n @ name @ ''() {''"
    using a(1) by (auto simp: map_eq_Cons_conv map_eq_append_conv)
  note f = func_header [OF assms(1) h]
  have d: "trim_space (snd d) = ''}''" "first_word (trim_space (snd d)) \<notin> {''then'', ''do'', ''{''}"
    using ls(3) first_word_brace by auto
  obtain body' where b: "reads [''}''] (b @ d # rest) body' (d # rest)" "map no_lines body' = map as_read body"
    using block_backD [OF assms(3) ls(2), of "[''}'']" "d # rest"] closer_line [OF d(1), of "[''}'']" rest] by (auto simp: closers_def)
  have q: "skip_brace ''{'' (b @ d # rest) = b @ d # rest" using block_quiet [OF assms(2) ls(2) d(2)] by (rule quiet_brace)
  have s: "brace_block (parse_block m) (b @ d # rest) = Some (body', rest)" if "source_size (b @ d # rest) < m" for m
    using readsD [OF b(1) that] skip_closing(2) [OF d(1)] q by (simp add: brace_block_def)
  have w: "last (first_word (trim_space (snd h))) = CHR '')''" using f(2) by simp
  then have w': "first_word (trim_space (snd h)) \<notin> {''if'', ''for'', ''while'', ''case'', ''function''} \<union> set closers"
    by (auto simp: closers_def)
  have "reads terms ((h # b @ [d]) @ rest) (S_func (fst h) name body' # ss) r"
    using f w' s a(2,3) by (intro reads_compound [OF refl]) (auto simp: block_statement_def parse_function_parens_def Let_def)
  then show "\<exists>s'. reads terms (ls @ rest) (s' # ss) r \<and> no_lines s' = as_read (S_func l name body)"
    unfolding ls(1) using b(2) by (intro exI [of _ "S_func (fst h) name body'"]) simp
qed

lemma set_last_body_append [simp]: "set_last_body (acc @ [(t, x)]) body = acc @ [(t, body)]"
  by (simp add: set_last_body_def)

lemma empty_last_simps: "empty_last [(t, b)] = [(t, [])]" "bs \<noteq> [] \<Longrightarrow> empty_last (x # bs) = x # empty_last bs"
  by (simp_all add: empty_last_def)

text \<open>The lines after the last branch: none or an \<open>else\<close> block, and the closing line.\<close>

lemma last_branch_back:
  assumes "map snd w = else_lines n els" "plain_block els" "block_back els" "trim_space (snd f) = ''fi''"
    and body: "reads [''elif'', ''else'', ''fi''] (b @ w @ f # rest) body' (w @ f # rest)"
    and q: "skip_keyword_line ''then'' (b @ w @ f # rest) = b @ w @ f # rest"
  obtains els' where "map no_lines els' = map as_read els"
    "\<And>k m acc. source_size (b @ w @ f # rest) < k \<Longrightarrow> source_size (b @ w @ f # rest) < m \<Longrightarrow>
       if_loop k (parse_block m) (acc @ [(t, [])]) [] (b @ w @ f # rest)
         = Some (acc @ [(t, if els = [] then body' else [])], els', rest)"
proof -
  have fi: "first_word (trim_space (snd f)) = ''fi''" using assms(4) keyword_first_word [OF keyword_list(5), of "[]"] by simp
  have close: "reads [''elif'', ''else'', ''fi''] (f # rest) [] (f # rest)" "reads [''fi''] (f # rest) [] (f # rest)"
    using closer_line [OF assms(4)] by (auto simp: closers_def)
  show thesis
  proof (cases "els = []")
    case True
    then have w: "w = []" using assms(1) by (simp add: else_lines_def)
    have "if_loop k (parse_block m) (acc @ [(t, [])]) [] (b @ w @ f # rest) = Some (acc @ [(t, body')], [], rest)"
      if "source_size (b @ w @ f # rest) < k" "source_size (b @ w @ f # rest) < m" for k m acc
      using that(1) readsD [OF body that(2)] q fi skip_closing(1) [OF assms(4)] w by (cases k) (simp_all add: Let_def)
    then show thesis using True by (intro that [of "[]"]) simp_all
  next
    case False
    then obtain e v where w: "w = e # v" "snd e = repeat_blanks n @ ''else''" "map snd v = migrate_block (Suc n) els"
      using assms(1) by (auto simp: else_lines_def map_eq_Cons_conv)
    have e: "trim_space (snd e) = ''else''" "first_word (trim_space (snd e)) = ''else''"
      using keyword_alone [OF keyword_list(4) w(2)] by auto
    obtain els' where els: "reads [''fi''] (v @ f # rest) els' (f # rest)" "map no_lines els' = map as_read els"
      using block_backD [OF assms(3) w(3) _ close(2)] by (auto simp: closers_def)
    have f: "skip_keyword_line ''then'' (f # rest) = f # rest"
      using fi keyword_list(2) by (intro quiet_skip) (auto simp: quiet_def)
    have "if_loop k (parse_block m) (acc @ [(t, [])]) [] (b @ w @ f # rest) = Some (acc @ [(t, [])], els', rest)"
      if s: "source_size (b @ w @ f # rest) < k" "source_size (b @ w @ f # rest) < m" for k m acc
    proof -
      obtain j where k: "k = Suc (Suc j)" using s(1) w(1) by (cases k; cases "k - 1") (auto simp: source_size_def)
      have m: "source_size (v @ f # rest) < m" "source_size (f # rest) < m" using s(2) w(1) by (auto simp: source_size_def)
      have p: "parse_block m [''elif'', ''else'', ''fi''] (b @ e # v @ f # rest) = Some (body', e # v @ f # rest)"
        using readsD [OF body s(2)] w(1) by simp
      have last: "if_loop (Suc j) (parse_block m) (acc @ [(t, body')]) els' (f # rest) = Some (acc @ [(t, [])], els', rest)"
        using readsD [OF close(1) m(2)] f fi skip_closing(1) [OF assms(4)] by (simp add: Let_def)
      show ?thesis using last p q readsD [OF els(1) m(1)] e skip_closing(1) [OF e(1)] w(1) k by (simp add: Let_def del: if_loop.simps(2)) (simp add: Let_def)
    qed
    then show thesis using False els(2) by (intro that [of els']) simp_all
  qed
qed

lemma branches_Cons_back:
  assumes "plain_test t" "plain_block body" "block_back body" "brs = [] \<or> branches_back brs" "plain_branches brs"
  shows "branches_back ((t, body) # brs)"
  unfolding branches_back_def
proof (intro allI impI)
  fix n kw rest els and f h :: source_line and ls w :: "source_line list"
  assume a: "map snd (h # ls) = migrate_branches n kw ((t, body) # brs)" "kw \<in> {''if'', ''elif''}"
    and w: "map snd w = else_lines n els" "plain_block els" "block_back els" and f: "trim_space (snd f) = ''fi''"
  obtain b u where ls: "ls = b @ u" "map snd b = migrate_block (Suc n) body" "map snd u = migrate_branches n ''elif'' brs"
    and h: "snd h = repeat_blanks n @ kw @ '' '' @ format_test t @ ''; '' @ ''then''"
    using a(1) by (auto simp: map_eq_append_conv)
  have kw: "keyword kw" using a(2) keyword_list by auto
  let ?t = "parse_statement_line (text_of t) (fst h)"
  have test: "header_test h kw ''then'' = ?t" "no_lines ?t = as_read t"
    using header_test_line(1) [OF assms(1) kw keyword_list(2) h] test_back [OF assms(1)] by auto
  let ?terms = "[''elif'', ''else'', ''fi'']"
  have sub: "set ?terms \<subseteq> set closers" by (simp add: closers_def)
  show "\<exists>brs' els'. map (map_prod no_lines (map no_lines)) brs' = cut_else els (map (map_prod as_read (map as_read)) ((t, body) # brs))
    \<and> map no_lines els' = map as_read els
    \<and> (\<forall>k m acc. source_size (ls @ w @ f # rest) < k \<longrightarrow> source_size (ls @ w @ f # rest) < m \<longrightarrow>
      if_loop k (parse_block m) (acc @ [(header_test h kw ''then'', [])]) [] (ls @ w @ f # rest) = Some (acc @ brs', els', rest))"
  proof (cases u)
    case Nil
    have e: "ls = b" "brs = []" using ls Nil by (cases brs; fastforce)+
    obtain d x where d: "w @ f # rest = d # x" "trim_space (snd d) \<in> {''else'', ''fi''}"
      using w(1) f keyword_alone(1) [OF keyword_list(4)] by (cases "els = []") (auto simp: else_lines_def map_eq_Cons_conv)
    have d1: "first_word (trim_space (snd d)) \<in> {''else'', ''fi''}"
      using d(2) keyword_first_word [OF keyword_list(4), of "[]"] keyword_first_word [OF keyword_list(5), of "[]"] by auto
    have r: "reads ?terms (d # x) [] (d # x)" using closer_line [OF refl, of d ?terms x] d(2) by (auto simp: closers_def)
    obtain body' where b: "reads ?terms (b @ d # x) body' (d # x)" "map no_lines body' = map as_read body"
      using block_backD [OF assms(3) ls(2) sub r] by blast
    have q: "skip_keyword_line ''then'' (b @ d # x) = b @ d # x"
      using block_quiet [OF assms(2) ls(2), of d x] d1 keyword_list(2) by (intro quiet_skip) auto
    obtain els' where l: "map no_lines els' = map as_read els"
      "\<And>k m acc. source_size (b @ w @ f # rest) < k \<Longrightarrow> source_size (b @ w @ f # rest) < m \<Longrightarrow>
         if_loop k (parse_block m) (acc @ [(?t, [])]) [] (b @ w @ f # rest) = Some (acc @ [(?t, if els = [] then body' else [])], els', rest)"
      using last_branch_back [OF w f, of b rest body' ?t] b(1) q d(1) by auto
    show ?thesis using l b(2) test e
      by (intro exI [of _ "[(?t, if els = [] then body' else [])]"] exI [of _ els']) (auto simp: empty_last_simps)
  next
    case (Cons e u')
    obtain t2 body2 brs2 where brs: "brs = (t2, body2) # brs2" using ls(3) Cons by (cases brs) auto
    have e: "snd e = repeat_blanks n @ ''elif'' @ '' '' @ format_test t2 @ ''; '' @ ''then''" using ls(3) Cons brs by simp
    have "plain_test t2" using assms(5) brs by simp
    note e2 = header_test_line(2,3) [OF this keyword_list(3,2) e]
    let ?r = "u' @ w @ f # rest"
    have r0: "reads ?terms (e # ?r) [] (e # ?r)"
      using e2 by (intro reads_end [OF refl]) auto
    obtain body' where b: "reads ?terms (b @ e # ?r) body' (e # ?r)" "map no_lines body' = map as_read body"
      using block_backD [OF assms(3) ls(2) sub r0] by blast
    have q: "skip_keyword_line ''then'' (b @ e # ?r) = b @ e # ?r"
      using block_quiet [OF assms(2) ls(2)] e2(2) keyword_list(2) by (intro quiet_skip) auto
    have "branches_back brs" using assms(4) brs by auto
    then obtain brs' els' where n: "map (map_prod no_lines (map no_lines)) brs' = cut_else els (map (map_prod as_read (map as_read)) brs)"
      "map no_lines els' = map as_read els"
      "\<And>k m acc. source_size ?r < k \<Longrightarrow> source_size ?r < m \<Longrightarrow>
          if_loop k (parse_block m) (acc @ [(header_test e ''elif'' ''then'', [])]) [] ?r = Some (acc @ brs', els', rest)"
      using ls(3) Cons w f unfolding branches_back_def by (metis insertCI)
    have "if_loop k (parse_block m) (acc @ [(?t, [])]) [] (ls @ w @ f # rest) = Some (acc @ (?t, body') # brs', els', rest)"
      if s: "source_size (ls @ w @ f # rest) < k" "source_size (ls @ w @ f # rest) < m" for k m acc
    proof -
      obtain j where k: "k = Suc j" using s(1) by (cases k) auto
      have z: "source_size ?r < j" "source_size ?r < m" using s k ls(1) Cons by (auto simp: source_size_def)
      have "parse_block m ?terms (b @ e # ?r) = Some (body', e # ?r)"
        using readsD [OF b(1)] s(2) ls(1) Cons by simp
      then show ?thesis using n(3) [OF z, of "acc @ [(?t, body')]"] q e2(2) ls(1) Cons k by (simp add: Let_def)
    qed
    then show ?thesis using b(2) n(1,2) test brs
      by (intro exI [of _ "(?t, body') # brs'"] exI [of _ els']) (simp add: empty_last_simps)
  qed
qed

lemma map_splitE:
  assumes "map f ls = a @ b"
  obtains u v where "ls = u @ v" "map f u = a" "map f v = b"
  using assms by (metis append_eq_conv_conj append_take_drop_id take_map drop_map)

lemma cond_back:
  assumes "brs \<noteq> []" "branches_back brs" "plain_branches brs" "plain_block els" "block_back els"
  shows "stmt_back (S_cond l brs els)"
  unfolding stmt_back_def
proof (intro allI impI)
  fix n terms rest ss r and ls :: "source_line list"
  assume a: "map snd ls = migrate_stmt n (S_cond l brs els)" "set terms \<subseteq> set closers" "reads terms rest ss r"
  obtain t body brs2 where brs: "brs = (t, body) # brs2" "plain_test t" using assms(1,3) by (cases brs) auto
  obtain h u w d where ls: "ls = h # u @ w @ [d]" "map snd (h # u) = migrate_branches n ''if'' brs"
    "map snd w = else_lines n els" "snd d = repeat_blanks n @ ''fi''"
    and h: "snd h = repeat_blanks n @ ''if'' @ '' '' @ format_test t @ ''; '' @ ''then''"
  proof -
    have "map snd ls = migrate_branches n ''if'' brs @ else_lines n els @ [repeat_blanks n @ ''fi'']"
      using a(1) by (simp add: else_lines_def)
    from map_splitE [OF this] obtain v x where v: "ls = v @ x" "map snd v = migrate_branches n ''if'' brs"
      and x: "map snd x = else_lines n els @ [repeat_blanks n @ ''fi'']" .
    from map_splitE [OF x] obtain w y where w: "x = w @ y" "map snd w = else_lines n els" "map snd y = [repeat_blanks n @ ''fi'']" .
    obtain d where d: "y = [d]" "snd d = repeat_blanks n @ ''fi''" using w(3) by auto
    obtain h u where "v = h # u" using v(2) brs(1) by (cases v) auto
    then show ?thesis using that [of h u w d] v(1,2) w(1,2) d brs(1) by simp
  qed
  note f = header_test_line [OF brs(2) keyword_list(1,2) h]
  have d: "trim_space (snd d) = ''fi''" using keyword_alone(1) [OF keyword_list(5) ls(4)] .
  obtain brs' els' where b: "map (map_prod no_lines (map no_lines)) brs' = cut_else els (map (map_prod as_read (map as_read)) brs)"
    "map no_lines els' = map as_read els"
    "\<And>k m acc. source_size (u @ w @ d # rest) < k \<Longrightarrow> source_size (u @ w @ d # rest) < m \<Longrightarrow>
        if_loop k (parse_block m) (acc @ [(header_test h ''if'' ''then'', [])]) [] (u @ w @ d # rest) = Some (acc @ brs', els', rest)"
    using assms(2,4,5) ls(2,3) d unfolding branches_back_def by (metis insertCI)
  have "if_loop m (parse_block m) [(header_test h ''if'' ''then'', [])] [] (u @ w @ d # rest) = Some (brs', els', rest)"
    if "source_size (u @ w @ d # rest) < m" for m using b(3) [OF that that, of "[]"] by simp
  then have "reads terms ((h # u @ w @ [d]) @ rest) (S_cond (fst h) brs' els' # ss) r"
    using f(2,3) a(2,3) by (intro reads_compound [OF refl]) (auto simp: block_statement_def parse_if_def Let_def closers_def)
  then show "\<exists>s'. reads terms (ls @ rest) (s' # ss) r \<and> no_lines s' = as_read (S_cond l brs els)"
    unfolding ls(1) using b(1,2) by (intro exI [of _ "S_cond (fst h) brs' els'"]) simp
qed

lemma plain_back:
  "plain_stmt s \<Longrightarrow> stmt_back s" "plain_block b \<Longrightarrow> block_back b"
  "plain_branches brs \<Longrightarrow> brs = [] \<or> branches_back brs" "plain_arms arms \<Longrightarrow> True"
proof (induction s and b and brs and arms rule: plain_stmt_plain_block_plain_branches_plain_arms.induct)
  case (2 l brs els)
  then show ?case using cond_back by auto
qed (simp_all add: comment_back for_back while_back case_back func_back simple_back block_Nil_back block_Cons_back branches_Cons_back)

section \<open>Lines of the text\<close>

definition printable_line :: "string \<Rightarrow> bool" where
  "printable_line l \<longleftrightarrow> list_all (\<lambda>c. 32 \<le> (of_char c :: nat) \<and> (of_char c :: nat) < 127) l \<and> \<not> ends_with_continuation l"

lemma printable_no_break: "printable_line l \<Longrightarrow> CHR 0x0A \<notin> set l \<and> CHR 0x0D \<notin> set l"
proof -
  assume "printable_line l"
  moreover have "(of_char CHR 0x0A :: nat) = 10" "(of_char CHR 0x0D :: nat) = 13" by simp_all
  ultimately show ?thesis by (fastforce simp: printable_line_def list_all_iff)
qed

lemma drop_tail_none: "s = [] \<or> \<not> P (last s) \<Longrightarrow> drop_tail P s = s"
  by (cases s rule: rev_cases) (auto simp: drop_tail_def)

lemma take_tail_none: "s = [] \<or> \<not> P (last s) \<Longrightarrow> take_tail P s = []"
  by (cases s rule: rev_cases) (auto simp: take_tail_def)

lemma no_continuation: "last l \<noteq> CHR 0x5C \<Longrightarrow> \<not> ends_with_continuation l"
  using take_tail_none [of l "\<lambda>c. c = CHR 0x5C"] by (simp add: ends_with_continuation_def)

lemma lex_printable: "list_all printable_line ls \<Longrightarrow> map snd (lex_lines_from i ls) = ls"
proof (induction ls arbitrary: i)
  case (Cons l ls)
  then have "CHR 0x0D \<notin> set l" using printable_no_break by auto
  then have "trim_right_set l [CHR 0x0D] = l" unfolding trim_right_set_def by (intro drop_tail_none) (use last_in_set in fastforce)
  moreover have "absorb_lines l ls = (l, ls, 0)" using Cons by (cases ls) (auto simp: printable_line_def)
  ultimately show ?case using Cons by simp
qed simp

lemma split_lines:
  "\<forall>l \<in> set ls. CHR 0x0A \<notin> set l \<Longrightarrow> split_byte CHR 0x0A (concat (map (\<lambda>l. l @ [CHR 0x0A]) ls)) = ls @ [[]]"
  by (induction ls) (auto simp: split_byte_append)

lemma line_char_printable: "list_all line_char t \<Longrightarrow> list_all (\<lambda>c. 32 \<le> (of_char c :: nat) \<and> (of_char c :: nat) < 127) t"
  by (auto simp: line_char_def list_all_iff)

definition printable :: "string \<Rightarrow> bool" where
  "printable t \<longleftrightarrow> list_all (\<lambda>c. 32 \<le> (of_char c :: nat) \<and> (of_char c :: nat) < 127) t"

lemma printable_simps [simp]:
  "printable []" "printable (a @ b) \<longleftrightarrow> printable a \<and> printable b"
  by (auto simp: printable_def)

lemma printable_words: "list_all printable ['' '', ''  ;;'', ''fi'', ''if'', ''elif'', ''else'', ''for '', '' in '', ''; do'', ''; then'', ''done'',
    ''while '', ''case '', '' in'', ''esac'', ''() {'', ''}'', '')'', ''|'', ''  '', ''='']"
  by code_simp

lemma printable_blanks: "printable (repeat_blanks n)"
  by (induction n) (auto simp: repeat_blanks_def printable_def)

lemma printable_lineI: "printable t \<Longrightarrow> last t \<noteq> CHR 0x5C \<Longrightarrow> printable_line t"
  using no_continuation by (simp add: printable_line_def printable_def)

lemma line_char_printable_text: "list_all line_char t \<Longrightarrow> printable t"
  by (auto simp: printable_def line_char_def list_all_iff)

lemma plain_text_printable: "plain_text w \<Longrightarrow> printable w"
  using plain_line_char by (intro line_char_printable_text) (auto simp: plain_text_def list_all_iff)

lemma words_printable: "list_all plain_arg ws \<Longrightarrow> printable (str_join '' '' (map quote_for_migrate ws))"
  using arg_text(1) quotes_of_arg(2) by (intro line_char_printable_text join_chars) (auto simp: list_all_iff)

lemma simple_printable: "plain_simple s \<Longrightarrow> printable (text_of s)" "plain_simple s \<Longrightarrow> printable_line (repeat_blanks n @ text_of s)"
proof -
  assume s: "plain_simple s"
  then have g: "list_all line_char (text_of s)" "text_of s \<noteq> []" using simple_good by (auto simp: good_line_def)
  show p: "printable (text_of s)" by (rule line_char_printable_text [OF g(1)])
  have "line_char (last (text_of s))" using g by (simp add: list_all_iff)
  then have "last (text_of s) \<noteq> CHR 0x5C" using not_line_chars(7) by metis
  then show "printable_line (repeat_blanks n @ text_of s)" using p printable_blanks g(2) by (intro printable_lineI) auto
qed

lemma printable_ends:
  assumes "printable t"
  shows "printable_line (repeat_blanks n @ t @ ''; do'')" "printable_line (repeat_blanks n @ t @ ''; then'')"
    "printable_line (repeat_blanks n @ t @ '' in'')" "printable_line (repeat_blanks n @ t @ ''() {'')" "printable_line (repeat_blanks n @ t @ '')'')"
  using assms printable_words printable_blanks by (auto intro!: printable_lineI)

lemma printable_closing: "printable_line (repeat_blanks n @ ''fi'')" "printable_line (repeat_blanks n @ ''done'')"
  "printable_line (repeat_blanks n @ ''esac'')" "printable_line (repeat_blanks n @ ''}'')" "printable_line (repeat_blanks n @ ''  ;;'')"
  "printable_line (repeat_blanks n @ ''else'')"
  using printable_words printable_blanks by (auto intro!: printable_lineI)

lemma arms_printable: "plain_arms arms \<Longrightarrow> list_all printable_line (migrate_arms n arms)"
proof (induction arms)
  case (Cons arm arms)
  obtain pats body where arm: "arm = (pats, body)" by fastforce
  have p: "list_all plain_text pats" "list_all plain_simple body" "plain_arms arms" using Cons.prems arm by auto
  have "printable (str_join ''|'' pats)"
    using p(1) plain_text_printable printable_words unfolding printable_def by (intro join_chars) (auto simp: list_all_iff)
  then have "printable (''  '' @ str_join ''|'' pats)" using printable_words by (simp del: append.simps)
  then have "printable_line (repeat_blanks n @ (''  '' @ str_join ''|'' pats) @ '')'')" by (rule printable_ends)
  moreover have "list_all printable_line (migrate_block (Suc (Suc n)) body)"
    using simple_block [OF p(2)] p(2) simple_printable(2) by (auto simp: list_all_iff)
  ultimately show ?case using Cons.IH [OF p(3)] printable_closing(5) [of n] arm by simp
qed simp

lemma test_printable: "plain_test t \<Longrightarrow> printable (format_test t)"
  using simple_printable(1) test_text by metis

lemma simple_stmt_printable: "plain_simple s \<Longrightarrow> list_all printable_line (migrate_stmt n s)"
  by (simp add: simple_lines simple_printable(2))

lemma plain_printable:
  "plain_stmt s \<Longrightarrow> list_all printable_line (migrate_stmt n s)" "plain_block b \<Longrightarrow> list_all printable_line (migrate_block n b)"
  "plain_branches brs \<Longrightarrow> kw \<in> {''if'', ''elif''} \<Longrightarrow> list_all printable_line (migrate_branches n kw brs)" "plain_arms arms \<Longrightarrow> True"
proof (induction s and b and brs and arms arbitrary: n and n and n kw rule: plain_stmt_plain_block_plain_branches_plain_arms.induct)
  case (1 l t)
  then have t: "printable t" "has_prefix t ''#''" "\<not> ends_with_continuation t" by (auto simp: plain_comment_def printable_def)
  have "take_tail (\<lambda>c. c = CHR 0x5C) (b @ t) = take_tail (\<lambda>c. c = CHR 0x5C) t" for b
  proof -
    have "CHR ''#'' \<in> set (rev t)" using t(2) by (auto simp: prefix_def)
    then show ?thesis unfolding take_tail_def by (simp add: takeWhile_append1 [where x = "CHR ''#''"])
  qed
  then show ?case using t printable_blanks by (simp add: printable_line_def ends_with_continuation_def printable_def)
next
  case (3 l var ws body)
  then have "printable (''for '' @ var @ '' in '' @ str_join '' '' (map quote_for_migrate ws))"
    using plain_text_printable words_printable printable_words by (simp del: append.simps)
  then show ?case using 3 printable_ends(1) [of "''for '' @ var @ '' in '' @ str_join '' '' (map quote_for_migrate ws)" n] printable_closing by simp
next
  case (4 l t body)
  then have "printable (''while '' @ format_test t)" using test_printable printable_words by (simp del: append.simps)
  then show ?case using 4 printable_ends(1) [of "''while '' @ format_test t" n] printable_closing by simp
next
  case (5 l word arms)
  then have a: "list_all plain_arg [word]" by (auto simp: plain_text_def plain_arg_def list_all_iff)
  have "printable (''case '' @ quote_for_migrate word)" using words_printable [OF a] printable_words by (simp del: append.simps)
  then show ?case using 5 printable_ends(3) [of "''case '' @ quote_for_migrate word" n] printable_closing arms_printable by simp
next
  case (6 l name body)
  then have "printable name" using ident_plain(1) plain_text_printable by simp
  then show ?case using 6 printable_ends(4) [of name n] printable_closing by simp
next
  case (11 t body brs)
  then have "printable (kw @ '' '' @ format_test t)" using test_printable printable_words by (auto simp del: append.simps)
  then show ?case using 11 printable_ends(2) [of "kw @ '' '' @ format_test t" n] by simp
next
  case (2 l brs els)
  then show ?case using printable_closing by simp
qed (simp_all add: simple_stmt_printable printable_closing del: migrate_stmt.simps(2,3,4,10) plain_simple.simps)

section \<open>Round trip\<close>

lemma migrate_printable: "plain_block (sp_statements sp) \<Longrightarrow> list_all printable_line (migrate_lines sp)"
proof -
  have "printable_line ''#!/usr/bin/env aish''" by code_simp
  moreover have "printable_line (''# aish: migrated from '' @ dialect_name d)" for d by (induction d; code_simp)
  ultimately show "plain_block (sp_statements sp) \<Longrightarrow> ?thesis" using plain_printable(2) by (simp add: migrate_lines_def)
qed

lemma lex_migrate: "plain_block (sp_statements sp) \<Longrightarrow> map snd (lex_lines (migrate sp)) = migrate_lines sp @ [[]]"
proof -
  assume "plain_block (sp_statements sp)"
  then have p: "list_all printable_line (migrate_lines sp)" by (rule migrate_printable)
  then have "\<forall>l \<in> set (migrate_lines sp). CHR 0x0A \<notin> set l" using printable_no_break by (auto simp: list_all_iff)
  then have "split_byte CHR 0x0A (migrate sp) = migrate_lines sp @ [[]]" by (simp add: migrate_def split_lines)
  moreover have "printable_line []" by (simp add: printable_line_def ends_with_continuation_def)
  ultimately show ?thesis using p lex_printable [of "migrate_lines sp @ [[]]"] by (simp add: lex_lines_def)
qed

lemma shebang_comment: "trim_space ''#!/usr/bin/env aish'' = ''#!/usr/bin/env aish''"
  by code_simp

lemma dialect_comment: "trim_space (''# aish: migrated from '' @ dialect_name d) = ''# aish: migrated from '' @ dialect_name d"
  by (induction d; code_simp)

text \<open>
  C19. A script of plain words that is migrated is read back by the bash reader with the same statements, in
  order, at any depth of conditionals, loops and functions, after the two comment lines that \<open>migrate\<close> puts
  first. The statements are compared without their line numbers. One thing is lost: of a conditional with an
  \<open>else\<close> the reader drops the commands of the branch before it, and of nothing else; a statement without an
  \<open>else\<close> comes back as it was. The plain scripts have no unknown statements and no exported assignments
  (read back as a command \<open>export\<close>), and the arms of a case hold simple statements only, because the reader
  takes each line of an arm as a statement of its own.
\<close>

theorem migrate_reads_back:
  "plain_block (sp_statements sp) \<Longrightarrow>
     (\<exists>ss. read_bash (migrate sp) = Some \<lparr>sp_dialect = D_bash, sp_statements = ss\<rparr>
       \<and> map no_lines ss = S_comment 0 ''#!/usr/bin/env aish'' # S_comment 0 (''# aish: migrated from '' @ dialect_name (sp_dialect sp))
            # map as_read (sp_statements sp))
     \<and> (\<forall>s \<in> set (sp_statements sp). \<not> has_else s \<longrightarrow> as_read s = no_lines s)"
proof -
  assume p: "plain_block (sp_statements sp)"
  obtain h1 h2 b e where ls: "lex_lines (migrate sp) = h1 # h2 # b @ [e]" "snd h1 = ''#!/usr/bin/env aish''"
    "snd h2 = ''# aish: migrated from '' @ dialect_name (sp_dialect sp)" "map snd b = migrate_block 0 (sp_statements sp)" "snd e = []"
    using lex_migrate [OF p] by (auto simp: migrate_lines_def map_eq_Cons_conv map_eq_append_conv)
  have "trim_space [] = []" by code_simp
  then have "reads [] [e] [] []" using ls(5) by (intro reads_blank reads_nil) simp
  then obtain ss where ss: "reads [] (b @ [e]) ss []" "map no_lines ss = map as_read (sp_statements sp)"
    using plain_back(2) [OF p] ls(4) unfolding block_back_def by (metis append_Nil2 empty_subsetI list.set(1))
  have "reads [] (h1 # h2 # b @ [e]) (S_comment (fst h1) (snd h1) # S_comment (fst h2) (snd h2) # ss) []"
    using ss(1) shebang_comment dialect_comment ls(2,3) by (intro reads_comment) auto
  from readsD [OF this lessI] show ?thesis
    using ss(2) ls(1-3) as_read_no_else by (simp add: read_bash_def Let_def del: parse_block.simps)
qed

theorem migrate_reads_back_witness:
  "\<exists>ss. read_bash (migrate \<lparr>sp_dialect = D_zsh, sp_statements =
       [S_for 3 ''x'' [''a b'', ''c''] [S_cond 4 [(S_command \<lparr>sc_line = 4, sc_name = ''test'', sc_args = [''-f'', ''x''], sc_redirects = []\<rparr>,
           [S_assign 5 ''y'' ''1 2'' False])] [S_assign 7 ''z'' ''3'' False]]]\<rparr>) = Some \<lparr>sp_dialect = D_bash, sp_statements = ss\<rparr>
     \<and> map no_lines ss = [S_comment 0 ''#!/usr/bin/env aish'', S_comment 0 ''# aish: migrated from zsh'',
         S_for 0 ''x'' [''a b'', ''c''] [S_cond 0 [(S_command \<lparr>sc_line = 0, sc_name = ''test'', sc_args = [''-f'', ''x''], sc_redirects = []\<rparr>,
           [])] [S_assign 0 ''z'' ''3'' False]]]"
proof -
  let ?ss = "[S_for 3 ''x'' [''a b'', ''c''] [S_cond 4 [(S_command \<lparr>sc_line = 4, sc_name = ''test'', sc_args = [''-f'', ''x''], sc_redirects = []\<rparr>,
           [S_assign 5 ''y'' ''1 2'' False])] [S_assign 7 ''z'' ''3'' False]]]"
  have "plain_block ?ss" by code_simp
  then have "plain_block (sp_statements \<lparr>sp_dialect = D_zsh, sp_statements = ?ss\<rparr>)" by simp
  from migrate_reads_back [OF this] show ?thesis by (simp add: dialect_name_def no_line_def empty_last_def)
qed

end
