(* ===== verification/Persona_Switch.thy ===== *)
theory Persona_Switch
  imports Go_Strings
begin

text \<open>
  The transaction that switches several external tools to a persona,
  \<^verbatim>\<open>shell/internal/persona/adapter/orchestrator.go\<close>: capture all, apply in order, verify all, and roll
  back in reverse order. The adapters are records of functions on the state of the host; what an adapter
  promises is the locale \<open>switch_laws\<close>.
\<close>

section \<open>Adapters\<close>

datatype adapter_error =
    No_subsystem string
  | No_agent string
  | No_cli string
  | No_binding
  | Bad_schema string
  | Digest_changed
  | Adapter_failed string

record ('w, 'p, 's) adapter =
  ad_name :: string
  ad_capture :: "'w \<Rightarrow> 'w \<times> (adapter_error + 's)"
  ad_apply :: "'p \<Rightarrow> 'w \<Rightarrow> 'w \<times> adapter_error option"
  ad_verify :: "'p \<Rightarrow> 'w \<Rightarrow> 'w \<times> adapter_error option"
  ad_rollback :: "'s \<Rightarrow> 'w \<Rightarrow> 'w \<times> adapter_error option"

text \<open>An error of the transaction names its phase and its adapter.\<close>

datatype switch_error =
    Capture_error string adapter_error
  | Apply_error string adapter_error
  | Verify_error string adapter_error
  | Rollback_error string adapter_error

record switch_outcome =
  oc_applied :: "string list"
  oc_rolled_back :: "string list"
  oc_skipped :: "string list"
  oc_warnings :: "string list"
  oc_cause :: "switch_error option"
  oc_rollback_errors :: "switch_error list"

definition no_outcome :: switch_outcome where
  "no_outcome = \<lparr>oc_applied = [], oc_rolled_back = [], oc_skipped = [], oc_warnings = [], oc_cause = None, oc_rollback_errors = []\<rparr>"

text \<open>\<open>errors.Is(err, ErrNoSubsystem)\<close>\<close>

fun is_no_subsystem :: "adapter_error \<Rightarrow> bool" where
  "is_no_subsystem (No_subsystem _) = True"
| "is_no_subsystem _ = False"

section \<open>Phases\<close>

text \<open>The active adapters with their snapshots, or the error; and the names of the skipped ones.\<close>

fun capture_all ::
  "('w, 'p, 's) adapter list \<Rightarrow> 'w \<Rightarrow> 'w \<times> (switch_error + (('w, 'p, 's) adapter \<times> 's) list) \<times> string list" where
  "capture_all [] w = (w, Inr [], [])"
| "capture_all (a # as) w =
     (case ad_capture a w of
        (w1, Inr s) \<Rightarrow>
          (case capture_all as w1 of (w2, r, sk) \<Rightarrow> (w2, (case r of Inl e \<Rightarrow> Inl e | Inr xs \<Rightarrow> Inr ((a, s) # xs)), sk))
      | (w1, Inl e) \<Rightarrow>
          if is_no_subsystem e then (case capture_all as w1 of (w2, r, sk) \<Rightarrow> (w2, r, ad_name a # sk))
          else (w1, Inl (Capture_error (ad_name a) e), []))"

text \<open>The adapters that were applied, up to the first failure.\<close>

fun apply_all ::
  "'p \<Rightarrow> (('w, 'p, 's) adapter \<times> 's) list \<Rightarrow> 'w \<Rightarrow> 'w \<times> (('w, 'p, 's) adapter \<times> 's) list \<times> switch_error option" where
  "apply_all p [] w = (w, [], None)"
| "apply_all p ((a, s) # xs) w =
     (case ad_apply a p w of
        (w1, Some e) \<Rightarrow> (w1, [], Some (Apply_error (ad_name a) e))
      | (w1, None) \<Rightarrow> (case apply_all p xs w1 of (w2, applied, r) \<Rightarrow> (w2, (a, s) # applied, r)))"

fun verify_all :: "'p \<Rightarrow> (('w, 'p, 's) adapter \<times> 's) list \<Rightarrow> 'w \<Rightarrow> 'w \<times> switch_error option" where
  "verify_all p [] w = (w, None)"
| "verify_all p ((a, s) # xs) w =
     (case ad_verify a p w of
        (w1, Some e) \<Rightarrow> (w1, Some (Verify_error (ad_name a) e))
      | (w1, None) \<Rightarrow> verify_all p xs w1)"

text \<open>The names of the adapters that were rolled back, and the errors of the others.\<close>

fun rollback_all :: "(('w, 'p, 's) adapter \<times> 's) list \<Rightarrow> 'w \<Rightarrow> 'w \<times> string list \<times> switch_error list" where
  "rollback_all [] w = (w, [], [])"
| "rollback_all ((a, s) # xs) w =
     (case ad_rollback a s w of
        (w1, r) \<Rightarrow>
          (case rollback_all xs w1 of
             (w2, names, errs) \<Rightarrow>
               (case r of
                  None \<Rightarrow> (w2, ad_name a # names, errs)
                | Some e \<Rightarrow> (w2, names, Rollback_error (ad_name a) e # errs))))"

text \<open>\<open>Execute\<close>; the errors that are joined into the one it returns, none on success.\<close>

definition execute_switch ::
  "('w, 'p, 's) adapter list \<Rightarrow> 'p \<Rightarrow> 'w \<Rightarrow> 'w \<times> switch_outcome \<times> switch_error list" where
  "execute_switch as p w =
     (if as = [] then (w, no_outcome, [])
      else case capture_all as w of
        (w1, Inl e, sk) \<Rightarrow> (w1, no_outcome\<lparr>oc_skipped := sk, oc_cause := Some e\<rparr>, [e])
      | (w1, Inr active, sk) \<Rightarrow>
          (case apply_all p active w1 of
             (w2, applied, applyErr) \<Rightarrow>
               (case (if applyErr = None then verify_all p applied w2 else (w2, None)) of
                  (w3, verifyErr) \<Rightarrow>
                    if applyErr = None \<and> verifyErr = None
                    then (w3, no_outcome\<lparr>oc_skipped := sk, oc_applied := map (ad_name \<circ> fst) applied\<rparr>, [])
                    else
                      (let cause = (if applyErr = None then verifyErr else applyErr)
                       in case rollback_all (rev applied) w3 of
                            (w4, names, errs) \<Rightarrow>
                              (w4, no_outcome\<lparr>oc_skipped := sk, oc_cause := cause, oc_rolled_back := names, oc_rollback_errors := errs\<rparr>,
                               the cause # errs)))))"

lemma rev_at: "k < length xs \<Longrightarrow> rev xs ! (length xs - Suc k) = xs ! k"
  by (simp add: rev_nth)

section \<open>The contract of the adapters\<close>

text \<open>
  \<open>part i\<close> is the state of the subsystem of adapter \<open>i\<close>. The laws are about the adapters in \<open>sound\<close>;
  the others only have to keep out of their way. A snapshot restores the states that are \<open>plain\<close>, from
  the states that a successful \<open>Apply\<close> leads to, which are those in the relation \<open>reached\<close>.
\<close>

definition snapshot_of :: "('w, 'p, 's) adapter \<Rightarrow> 's \<Rightarrow> bool" where
  "snapshot_of a s \<longleftrightarrow> (\<exists>w w1. ad_capture a w = (w1, Inr s))"

locale switch_laws =
  fixes ad :: "'i \<Rightarrow> ('w, 'p, 's) adapter" and p :: 'p
    and part :: "'i \<Rightarrow> 'w \<Rightarrow> 'v" and plain :: "'i \<Rightarrow> 'v \<Rightarrow> bool" and sound :: "'i set"
    and recorded :: "'i \<Rightarrow> 's \<Rightarrow> 'v \<Rightarrow> bool" and reached :: "'i \<Rightarrow> 'v \<Rightarrow> 'v \<Rightarrow> bool"
  assumes capture_keeps: "j \<in> sound \<Longrightarrow> part j (fst (ad_capture (ad i) w)) = part j w"
    and capture_records: "i \<in> sound \<Longrightarrow> ad_capture (ad i) w = (w1, Inr s) \<Longrightarrow> recorded i s (part i w)"
    and apply_keeps: "j \<in> sound \<Longrightarrow> ad_apply (ad i) p w = (w1, r) \<Longrightarrow> i \<noteq> j \<or> r \<noteq> None \<Longrightarrow> part j w1 = part j w"
    and apply_reaches: "i \<in> sound \<Longrightarrow> ad_apply (ad i) p w = (w1, None) \<Longrightarrow> reached i (part i w) (part i w1)"
    and verify_keeps: "j \<in> sound \<Longrightarrow> part j (fst (ad_verify (ad i) p w)) = part j w"
    and rollback_keeps: "j \<in> sound \<Longrightarrow> i \<noteq> j \<Longrightarrow> snapshot_of (ad i) s \<Longrightarrow> part j (fst (ad_rollback (ad i) s w)) = part j w"
    and rollback_restores: "i \<in> sound \<Longrightarrow> recorded i s v \<Longrightarrow> plain i v \<Longrightarrow> reached i v (part i w) \<Longrightarrow>
        ad_rollback (ad i) s w = (w1, None) \<Longrightarrow> part i w1 = v"
begin

lemma capture_all_keeps: "j \<in> sound \<Longrightarrow> part j (fst (capture_all (map ad is) w)) = part j w"
proof (induction "is" arbitrary: w)
  case (Cons i "is")
  obtain w1 r where c: "ad_capture (ad i) w = (w1, r)" by fastforce
  then have "part j w1 = part j w" using capture_keeps [OF Cons.prems, of i w] by simp
  then show ?case using Cons.IH [OF Cons.prems(1), of w1] c by (auto split: sum.split prod.split)
qed simp

text \<open>The active adapters are some of those given, in order, each with a snapshot of its part.\<close>

lemma capture_all_records:
  "capture_all (map ad is) w = (w1, Inr active, sk) \<Longrightarrow> distinct is \<Longrightarrow>
     \<exists>js ss. active = zip (map ad js) ss \<and> length ss = length js \<and> distinct js \<and> set js \<subseteq> set is
       \<and> (\<forall>k < length js. js ! k \<in> sound \<longrightarrow> recorded (js ! k) (ss ! k) (part (js ! k) w))
       \<and> list_all2 (\<lambda>i. snapshot_of (ad i)) js ss"
proof (induction "is" arbitrary: w active sk)
  case (Cons i "is")
  obtain w2 r where c: "ad_capture (ad i) w = (w2, r)" by fastforce
  have keep: "part j w2 = part j w" if "j \<in> sound" for j using capture_keeps [OF that, of i] c by (metis fst_conv)
  show ?case
  proof (cases r)
    case (Inl e)
    then have "capture_all (map ad is) w2 = (w1, Inr active, tl sk)" using Cons.prems(1) c by (auto split: prod.splits if_splits)
    from Cons.IH [OF this] show ?thesis using keep Cons.prems(2) by (metis distinct.simps(2) set_subset_Cons subset_trans)
  next
    case (Inr s)
    then obtain xs where xs: "capture_all (map ad is) w2 = (w1, Inr xs, sk)" "active = (ad i, s) # xs"
      using Cons.prems(1) c by (auto split: prod.splits sum.splits)
    obtain js ss where js: "xs = zip (map ad js) ss" "length ss = length js" "distinct js" "set js \<subseteq> set is"
        "\<forall>k < length js. js ! k \<in> sound \<longrightarrow> recorded (js ! k) (ss ! k) (part (js ! k) w2)" "list_all2 (\<lambda>i. snapshot_of (ad i)) js ss"
      using Cons.IH [OF xs(1)] Cons.prems(2) by auto
    have "\<forall>k < length (i # js). (i # js) ! k \<in> sound \<longrightarrow> recorded ((i # js) ! k) ((s # ss) ! k) (part ((i # js) ! k) w)"
      using js(5) keep capture_records [of i w w2 s] c Inr by (auto simp: less_Suc_eq_0_disj)
    moreover have "snapshot_of (ad i) s" using c Inr by (auto simp: snapshot_of_def)
    ultimately show ?thesis using js xs(2) Cons.prems(2)
      by (intro exI [of _ "i # js"] exI [of _ "s # ss"]) auto
  qed
qed simp

lemma apply_all_prefix: "apply_all q xs w = (w1, applied, r) \<Longrightarrow> \<exists>rest. xs = applied @ rest"
  by (induction xs arbitrary: w applied) (force split: prod.splits option.splits)+

lemma apply_all_keeps:
  "j \<in> sound \<Longrightarrow> length ss = length js \<Longrightarrow> apply_all p (zip (map ad js) ss) w = (w1, applied, r) \<Longrightarrow>
     j \<notin> set (take (length applied) js) \<Longrightarrow> part j w1 = part j w"
proof (induction js ss arbitrary: w applied rule: list_induct2')
  case (4 i js s ss)
  obtain w2 e where c: "ad_apply (ad i) p w = (w2, e)" by fastforce
  show ?case
  proof (cases e)
    case None
    then obtain applied' where d: "apply_all p (zip (map ad js) ss) w2 = (w1, applied', r)" "applied = (ad i, s) # applied'"
      using "4.prems"(3) c by (auto split: prod.splits)
    then have "i \<noteq> j" "part j w1 = part j w2" using "4.IH" "4.prems" by auto
    then show ?thesis using apply_keeps [OF "4.prems"(1) c] by simp
  next
    case (Some x)
    then show ?thesis using "4.prems"(1,3) c apply_keeps by fastforce
  qed
qed auto

lemma apply_all_reaches:
  "j \<in> sound \<Longrightarrow> length ss = length js \<Longrightarrow> distinct js \<Longrightarrow> apply_all p (zip (map ad js) ss) w = (w1, applied, r) \<Longrightarrow>
     j \<in> set (take (length applied) js) \<Longrightarrow> reached j (part j w) (part j w1)"
proof (induction js ss arbitrary: w applied rule: list_induct2')
  case (4 i js s ss)
  obtain w2 e where c: "ad_apply (ad i) p w = (w2, e)" by fastforce
  have e: "e = None" using "4.prems"(4,5) c by (cases e) auto
  then obtain applied' where d: "apply_all p (zip (map ad js) ss) w2 = (w1, applied', r)" "applied = (ad i, s) # applied'"
    using "4.prems"(4) c by (auto split: prod.splits)
  show ?case
  proof (cases "i = j")
    case True
    then have "j \<notin> set (take (length applied') js)" using "4.prems"(3) by (auto dest: in_set_takeD)
    then have "part j w1 = part j w2" using apply_all_keeps [OF "4.prems"(1) _ d(1)] "4.prems"(2) by simp
    then show ?thesis using apply_reaches [of i w w2] "4.prems"(1) c e True by simp
  next
    case False
    then have "reached j (part j w2) (part j w1)" using "4.IH" [OF "4.prems"(1) _ _ d(1)] "4.prems" d(2) by simp
    then show ?thesis using apply_keeps [OF "4.prems"(1) c] False by simp
  qed
qed auto

lemma verify_all_keeps: "j \<in> sound \<Longrightarrow> part j (fst (verify_all p (zip (map ad js) ss) w)) = part j w"
proof (induction js arbitrary: ss w)
  case (Cons i js)
  show ?case
  proof (cases ss)
    case ss: (Cons s ss')
    obtain w2 e where c: "ad_verify (ad i) p w = (w2, e)" by fastforce
    then have "part j w2 = part j w" using verify_keeps [OF Cons.prems, of i w] by simp
    then show ?thesis using c ss Cons by (auto split: option.split)
  qed simp
qed simp

lemma rollback_all_keeps:
  "list_all2 (\<lambda>i. snapshot_of (ad i)) js ss \<Longrightarrow> j \<in> sound \<Longrightarrow> j \<notin> set js \<Longrightarrow> part j (fst (rollback_all (zip (map ad js) ss) w)) = part j w"
proof (induction js ss arbitrary: w rule: list_all2_induct)
  case (Cons i js s ss)
  obtain w2 e where c: "ad_rollback (ad i) s w = (w2, e)" by fastforce
  then have "part j w2 = part j w" using rollback_keeps [of j i s w] Cons by auto
  moreover have "part j (fst (rollback_all (zip (map ad js) ss) w2)) = part j w2" using Cons by simp
  ultimately show ?case using c by (auto split: option.split prod.split)
qed simp

lemma rollback_all_restores:
  "list_all2 (\<lambda>i. snapshot_of (ad i)) js ss \<Longrightarrow> distinct js \<Longrightarrow> k < length js \<Longrightarrow> js ! k = j \<Longrightarrow> j \<in> sound \<Longrightarrow> recorded j (ss ! k) v \<Longrightarrow> plain j v \<Longrightarrow>
     reached j v (part j w) \<Longrightarrow> rollback_all (zip (map ad js) ss) w = (w1, names, errs) \<Longrightarrow>
     part j w1 = v \<or> (\<exists>e. Rollback_error (ad_name (ad j)) e \<in> set errs)"
proof (induction js ss arbitrary: k w names errs rule: list_all2_induct)
  case (Cons i js s ss)
  obtain w2 e where c: "ad_rollback (ad i) s w = (w2, e)" by fastforce
  obtain names' errs' where r: "rollback_all (zip (map ad js) ss) w2 = (w1, names', errs')" "set errs' \<subseteq> set errs"
      "e \<noteq> None \<longrightarrow> Rollback_error (ad_name (ad i)) (the e) \<in> set errs"
  proof -
    obtain names' errs' where r: "rollback_all (zip (map ad js) ss) w2 = (w1, names', errs')"
      using Cons.prems(8) c by (auto split: prod.splits option.splits)
    show ?thesis using Cons.prems(8) c r by (intro that [OF r]) (auto split: option.splits)
  qed
  show ?case
  proof (cases k)
    case 0
    then have i: "i = j" "j \<notin> set js" using Cons.prems(1,3) by auto
    show ?thesis
    proof (cases e)
      case None
      then have "part j w2 = v" using rollback_restores [of j s v w w2] Cons.prems(4,5,6,7) 0 c i by simp
      then show ?thesis using rollback_all_keeps [OF Cons.hyps(2) Cons.prems(4) i(2), of w2] r(1) by simp
    next
      case (Some x)
      then show ?thesis using r(3) i by auto
    qed
  next
    case (Suc m)
    then have "i \<noteq> j" using Cons.prems(1,2,3) by (auto simp: in_set_conv_nth)
    then have "reached j v (part j w2)" using rollback_keeps [of j i s w] Cons.prems(4,7) Cons.hyps(1) c by simp
    then show ?thesis using Cons.IH [OF _ _ _ _ _ _ _ r(1), of m] Cons.prems r(2) Suc by auto
  qed
qed simp

text \<open>A switch that fails leaves every sound part as it was, or reports that its rollback failed.\<close>

lemma failed_switch_restores:
  assumes "execute_switch (map ad is) p w = (w', oc, errs)" "errs \<noteq> []" "distinct is" "j \<in> sound" "plain j (part j w)"
  shows "part j w' = part j w \<or> (\<exists>e. Rollback_error (ad_name (ad j)) e \<in> set (oc_rollback_errors oc))"
proof -
  have ne: "is \<noteq> []" using assms(1,2) by (auto simp: execute_switch_def)
  obtain w1 r sk where c: "capture_all (map ad is) w = (w1, r, sk)" by (metis prod.collapse)
  have k1: "part j w1 = part j w" using capture_all_keeps [OF assms(4), of "is" w] c by simp
  show ?thesis
  proof (cases r)
    case (Inl e)
    then show ?thesis using assms(1) ne c k1 by (auto simp: execute_switch_def)
  next
    case (Inr active)
    obtain js ss where js: "active = zip (map ad js) ss" "length ss = length js" "distinct js"
        "\<forall>k < length js. js ! k \<in> sound \<longrightarrow> recorded (js ! k) (ss ! k) (part (js ! k) w)" "list_all2 (\<lambda>i. snapshot_of (ad i)) js ss"
      using capture_all_records [OF c [unfolded Inr] assms(3)] by blast
    obtain w2 applied ae where a: "apply_all p active w1 = (w2, applied, ae)" by (metis prod.collapse)
    let ?n = "length applied"
    have az: "applied = zip (map ad (take ?n js)) (take ?n ss)"
      using apply_all_prefix [OF a] js(1) by (metis append_eq_conv_conj take_map take_zip)
    obtain w3 ve where v: "(if ae = None then verify_all p applied w2 else (w2, None)) = (w3, ve)" by fastforce
    have k3: "part j w3 = part j w2"
      using v verify_all_keeps [OF assms(4), of "take ?n js" "take ?n ss" w2] az by (auto split: if_splits)
    obtain w4 names es where b: "rollback_all (rev applied) w3 = (w4, names, es)" by (metis prod.collapse)
    have "execute_switch (map ad is) p w = (if ae = None \<and> ve = None
        then (w3, no_outcome\<lparr>oc_skipped := sk, oc_applied := map (ad_name \<circ> fst) applied\<rparr>, [])
        else (w4, no_outcome\<lparr>oc_skipped := sk, oc_cause := (if ae = None then ve else ae), oc_rolled_back := names, oc_rollback_errors := es\<rparr>,
          the (if ae = None then ve else ae) # es))"
      unfolding execute_switch_def c Inr prod.case sum.case a v Let_def b using ne by simp
    then have out: "w' = w4" "oc_rollback_errors oc = es" using assms(1,2) by (auto split: if_splits)
    have rd: "rev applied = zip (map ad (rev (take ?n js))) (rev (take ?n ss))"
      using az js(2) by (metis length_map length_take rev_map zip_rev)
    have cap: "list_all2 (\<lambda>i. snapshot_of (ad i)) (rev (take ?n js)) (rev (take ?n ss))" using js(5) by (simp add: list_all2_takeI)
    show ?thesis
    proof (cases "j \<in> set (take ?n js)")
      case False
      then have "part j w2 = part j w1" using apply_all_keeps [OF assms(4) js(2), of w1 w2 applied ae] a js(1) by simp
      then show ?thesis using rollback_all_keeps [OF cap assms(4), of w3] False rd b out k3 k1 by simp
    next
      case True
      then obtain k where k: "k < length (take ?n js)" "take ?n js ! k = j" by (metis in_set_conv_nth)
      then have "recorded j (take ?n ss ! k) (part j w)" using js(2,4) assms(4) by auto
      moreover have "reached j (part j w) (part j w3)"
        using apply_all_reaches [OF assms(4) js(2,3) a [unfolded js(1)] True] k1 k3 by simp
      moreover define m where "m = length (take ?n js) - Suc k"
      have len: "length (take ?n ss) = length (take ?n js)" using js(2) by simp
      have "m < length (rev (take ?n js))" using k(1) unfolding m_def length_rev by linarith
      moreover have "rev (take ?n js) ! m = j" using rev_at [OF k(1)] k(2) unfolding m_def by simp
      moreover have "k < length (take ?n ss)" using k(1) len by metis
      from rev_at [OF this] have "rev (take ?n ss) ! m = take ?n ss ! k" unfolding m_def len .
      ultimately show ?thesis
        using rollback_all_restores [OF cap, of m j "part j w" w3 w4 names es]
          js(3) len assms(4,5) b rd out by (simp add: distinct_take)
    qed
  qed
qed

end

end
