(* ===== verification/File_Ops.thy ===== *)
theory File_Ops
  imports File_System
begin

text \<open>
  Whole-file operations on the file tree: \<open>os.ReadFile\<close>, \<open>os.WriteFile\<close>, \<open>os.Rename\<close> of a file, and
  the write to a temporary file that is then renamed. Strings that pass through \<open>encoding/json\<close> keep
  their runes; bytes that are not UTF-8 come back as U+FFFD.
\<close>

definition os_read_file :: "os_state \<Rightarrow> string \<Rightarrow> os_error + string" where
  "os_read_file fs p = (case os_open fs p of Inl e \<Rightarrow> Inl e | Inr Dir_node \<Rightarrow> Inl Is_dir | Inr (File_node c) \<Rightarrow> Inr c)"

definition os_write_file :: "os_state \<Rightarrow> string \<Rightarrow> string \<Rightarrow> os_state \<times> os_error option" where
  "os_write_file fs p c =
     (case os_create fs p of
        (fs1, Some e) \<Rightarrow> (fs1, Some e)
      | (fs1, None) \<Rightarrow> (put_node fs1 p (File_node c), None))"

text \<open>\<open>Rename\<close> of a file; its callers rename files they have just written.\<close>

definition os_rename :: "os_state \<Rightarrow> string \<Rightarrow> string \<Rightarrow> os_state \<times> os_error option" where
  "os_rename fs a b =
     (case node_at fs a of
        None \<Rightarrow> (fs, Some Not_exist)
      | Some n \<Rightarrow>
          if List.member (fs_no_write fs) a \<or> List.member (fs_no_write fs) b then (fs, Some Permission)
          else if node_at fs b = Some Dir_node \<or> n = Dir_node then (fs, Some Is_dir)
          else if node_at fs (path_dir b) \<noteq> Some Dir_node then (fs, Some Not_exist)
          else if a = b then (fs, None)
          else (put_node (fs\<lparr>fs_nodes := filter (\<lambda>(q, _). q \<noteq> a) (fs_nodes fs)\<rparr>) b n, None))"

text \<open>\<open>ReadDir\<close>: the names in a directory in order, and which of them are directories.\<close>

definition os_read_dir :: "os_state \<Rightarrow> string \<Rightarrow> os_error + (string \<times> bool) list" where
  "os_read_dir fs p =
     (case os_open fs p of
        Inl e \<Rightarrow> Inl e
      | Inr (File_node _) \<Rightarrow> Inl Not_dir
      | Inr Dir_node \<Rightarrow>
          Inr (sort_key fst (map (\<lambda>(q, n). (path_base q, n = Dir_node)) (filter (\<lambda>(q, _). q \<noteq> p \<and> path_dir q = p) (fs_nodes fs)))))"

definition json_text :: "string \<Rightarrow> string" where
  "json_text s = string_of_runes (runes_of s)"

text \<open>The text of a file, when there is one.\<close>

definition file_text :: "os_state \<Rightarrow> string \<Rightarrow> string option" where
  "file_text fs p = (case node_at fs p of Some (File_node c) \<Rightarrow> Some c | _ \<Rightarrow> None)"

section \<open>Facts\<close>

lemma json_text_valid: "json_text s = s \<longleftrightarrow> valid_utf8 s"
  by (simp add: json_text_def valid_utf8_def)

lemma file_text_put [simp]:
  "p \<noteq> ''/'' \<Longrightarrow> file_text (put_node fs p (File_node c)) q = (if q = p then Some c else file_text fs q)"
  by (simp add: file_text_def)

lemma put_put_node: "put_node (put_node fs p m) p n = put_node fs p n"
  by (auto simp: put_node_def intro: filter_cong)

lemma os_read_file_text: "os_read_file fs p = Inr c \<Longrightarrow> file_text fs p = Some c"
  by (auto simp: os_read_file_def os_open_node file_text_def split: sum.splits node.splits)

lemma os_read_absent: "os_read_file fs p = Inl Not_exist \<Longrightarrow> file_text fs p = None"
  by (auto simp: os_read_file_def os_open_def file_text_def split: sum.splits node.splits if_splits dest: os_stat_absent)

lemma os_write_file_cases:
  assumes "os_write_file fs p c = (fs', r)"
  obtains (ok) "r = None" "fs' = put_node fs p (File_node c)" "p \<noteq> ''/''" | (failed) e where "r = Some e" "fs' = fs"
proof (cases "os_create fs p")
  case (Pair fs1 e)
  show ?thesis
  proof (cases e)
    case None
    then have "fs1 = put_node fs p (File_node [])" "node_at fs p \<noteq> Some Dir_node" using os_create_put Pair by auto
    moreover from this(2) have "p \<noteq> ''/''" by auto
    ultimately show ?thesis using assms Pair None ok by (auto simp: os_write_file_def put_put_node)
  next
    case (Some x)
    then show ?thesis using assms Pair failed os_create_err [of fs p fs1 x] by (auto simp: os_write_file_def)
  qed
qed

lemma os_write_file_text:
  "os_write_file fs p c = (fs', r) \<Longrightarrow> file_text fs' q = (if q = p \<and> r = None then Some c else file_text fs q)"
  by (erule os_write_file_cases) auto

lemma node_at_without: "node_at (fs\<lparr>fs_nodes := filter (\<lambda>(q, _). q \<noteq> a) (fs_nodes fs)\<rparr>) q =
    (if q = ''/'' then Some Dir_node else if q = a then None else node_at fs q)"
  by (simp add: node_at_def map_of_filter_key)

lemma os_rename_cases:
  assumes "os_rename fs a b = (fs', r)"
  obtains (ok) c where "r = None" "file_text fs a = Some c" "\<And>q. file_text fs' q = (if q = b then Some c else if q = a then None else file_text fs q)"
    | (failed) e where "r = Some e" "fs' = fs"
proof (cases "node_at fs a")
  case None
  then show ?thesis using assms failed by (auto simp: os_rename_def)
next
  case (Some n)
  let ?w = "fs\<lparr>fs_nodes := filter (\<lambda>(q, _). q \<noteq> a) (fs_nodes fs)\<rparr>"
  show ?thesis
  proof (cases "r = None")
    case True
    then have r: "node_at fs b \<noteq> Some Dir_node" "n \<noteq> Dir_node" "fs' = (if a = b then fs else put_node ?w b n)"
      using assms Some by (auto simp: os_rename_def split: if_splits)
    obtain c where c: "n = File_node c" using r(2) by (cases n) auto
    have b: "b \<noteq> ''/''" using r(1) by auto
    have "file_text fs a = Some c" using Some c by (simp add: file_text_def)
    moreover have "file_text fs' q = (if q = b then Some c else if q = a then None else file_text fs q)" for q
      using r(3) Some c b by (auto simp: file_text_def node_at_without)
    ultimately show ?thesis using True ok by blast
  next
    case False
    then show ?thesis using assms Some failed by (auto simp: os_rename_def split: if_splits)
  qed
qed

lemma dirs_added_text: "dirs_added D fs fs' \<Longrightarrow> file_text fs' q = file_text fs q"
proof -
  assume "dirs_added D fs fs'"
  then have "node_at fs' q = node_at fs q \<or> node_at fs q = None \<and> node_at fs' q = Some Dir_node" by (auto simp: dirs_added_def)
  then show ?thesis by (auto simp: file_text_def)
qed

lemma os_mkdir_all_text: "os_mkdir_all fs d = (fs', r) \<Longrightarrow> file_text fs' q = file_text fs q \<and> fs_no_stat fs' = fs_no_stat fs"
  unfolding os_mkdir_all_def using mkdir_each_dirs dirs_added_text by (metis dirs_added_def)

lemma os_write_file_stat: "os_write_file fs p c = (fs', r) \<Longrightarrow> fs_no_stat fs' = fs_no_stat fs"
  by (erule os_write_file_cases) auto

lemma os_write_file_seen: "os_write_file fs p c = (fs', None) \<Longrightarrow> p \<notin> set (fs_no_stat fs)"
  by (auto simp: os_write_file_def os_create_def List.member_iff split: if_splits option.splits)

lemma os_rename_stat: "os_rename fs a b = (fs', r) \<Longrightarrow> fs_no_stat fs' = fs_no_stat fs"
  by (auto simp: os_rename_def split: option.splits if_splits)

lemma os_remove_text: "file_text (os_remove fs d) q = (if q = d \<and> node_at (os_remove fs d) d = None then None else file_text fs q)"
  using node_at_remove [of fs d q] by (auto simp: file_text_def)

lemma os_remove_stat [simp]: "fs_no_stat (os_remove fs d) = fs_no_stat fs"
  by (simp add: os_remove_def)

lemma os_read_file_iff: "os_read_file fs q = Inr c \<longleftrightarrow> q \<notin> set (fs_no_stat fs) \<and> q \<notin> set (fs_no_read fs) \<and> file_text fs q = Some c"
  by (auto simp: os_read_file_def os_open_node file_text_def split: sum.splits node.splits option.splits)
    (metis Inl_not_Inr Inr_inject os_open_node)+

lemma os_write_file_read:
  assumes "os_write_file fs q c = (fs', None)" "q \<notin> set (fs_no_read fs)"
  shows "os_read_file fs' q = Inr c"
proof -
  from assms(1) have "fs' = put_node fs q (File_node c)" by (cases rule: os_write_file_cases) auto
  moreover from assms(1) have "q \<notin> set (fs_no_stat fs)" by (auto simp: os_write_file_def os_create_def List.member_iff split: if_splits option.splits)
  ultimately show ?thesis using os_write_file_text [OF assms(1), of q] assms(2) by (simp add: os_read_file_iff)
qed

lemma file_text_put_other: "q \<noteq> p \<Longrightarrow> file_text (put_node fs p n) q = file_text fs q"
  by (simp add: file_text_def)

end
