(* ===== verification/Persona_Adapters.thy ===== *)
theory Persona_Adapters
  imports Persona_Switch File_Ops "HOL-Library.Word"
begin

text \<open>
  The adapters for the SSH agent, the cloud tools, kubeconfig and git
  (\<^verbatim>\<open>shell/internal/persona/adapter\<close>), over a host whose services are parameters: the agent protocol, the
  YAML library, and the programs \<^verbatim>\<open>git\<close> and \<^verbatim>\<open>az\<close>. Files are those of the modelled tree. Snapshots pass
  through JSON.
\<close>

section \<open>Bindings of a persona\<close>

record ssh_binding =
  sb_key_label :: string
  sb_lifetime :: int

record cloud_binding =
  cb_gcloud :: string
  cb_aws :: string
  cb_azure :: string

record kube_binding =
  kb_context :: string

record git_binding =
  gb_scope :: string
  gb_user_name :: string
  gb_user_email :: string
  gb_signing_key :: string

record external_bindings =
  xb_ssh :: "ssh_binding option"
  xb_cloud :: "cloud_binding option"
  xb_kube :: "kube_binding option"
  xb_git :: "git_binding option"

section \<open>The host\<close>

text \<open>A node of the YAML library, with the fields the code looks at.\<close>

datatype yaml_kind = Y_document | Y_mapping | Y_scalar | Y_other

datatype yaml = Yaml (y_kind: yaml_kind) (y_tag: string) (y_value: string) (y_content: "yaml list")

record kube_doc =
  kd_current_context :: string
  kd_contexts :: "string list"

text \<open>\<open>ErrGitKeyNotPresent\<close>, or the text of another error.\<close>

datatype git_error = Git_key_missing | Git_error string

record ('k, 'a, 'g, 'z) services =
  sv_keys :: "(string \<Rightarrow> string + string) option"
  sv_parse_key :: "string \<Rightarrow> string + 'k"
  sv_fingerprint :: "'k \<Rightarrow> string + string"
  sv_dial :: "'a \<Rightarrow> string option"
  sv_agent_list :: "'a \<Rightarrow> string + string list"
  sv_agent_add :: "'k \<Rightarrow> 32 word \<Rightarrow> 'a \<Rightarrow> 'a \<times> string option"
  sv_agent_remove :: "string \<Rightarrow> 'a \<Rightarrow> 'a \<times> string option"
  sv_home :: string
  sv_config_path :: string
  sv_kubeconfig :: string
  sv_yaml_parse :: "string \<Rightarrow> string + yaml"
  sv_yaml_print :: "yaml \<Rightarrow> string + string"
  sv_kube_doc :: "yaml \<Rightarrow> string + kube_doc"
  sv_hash :: "string \<Rightarrow> string"
  sv_git_found :: "'g \<Rightarrow> bool"
  sv_git :: "string list \<Rightarrow> 'g \<Rightarrow> 'g \<times> (git_error + string)"
  sv_az_found :: "'z \<Rightarrow> bool"
  sv_az :: "string list \<Rightarrow> 'z \<Rightarrow> 'z \<times> string option"

record env_session =
  es_values :: "string \<Rightarrow> string option"
  es_had :: "string \<Rightarrow> bool"
  es_prior :: "string \<Rightarrow> string"

definition new_env_session :: env_session where
  "new_env_session = \<lparr>es_values = (\<lambda>_. None), es_had = (\<lambda>_. False), es_prior = (\<lambda>_. [])\<rparr>"

text \<open>The state of the host, with the fields of the adapters: the fingerprint that was added and the digest after the write.\<close>

record ('a, 'g, 'z) host =
  ho_fs :: os_state
  ho_agent :: 'a
  ho_added :: string
  ho_env :: env_session
  ho_az :: 'z
  ho_digest :: string
  ho_git :: 'g

record cloud_snapshot =
  cs_gcloud :: string
  cs_gcloud_existed :: bool
  cs_aws_prior :: string
  cs_aws_was_set :: bool

datatype tool_snapshot =
    Ssh_snapshot "string list"
  | Cloud_snapshot cloud_snapshot
  | Kube_snapshot (ks_context: string) (ks_digest: string) (ks_path: string)
  | Git_snapshot "(bool \<times> string) list"

definition fs_failed :: "string \<Rightarrow> os_error \<Rightarrow> adapter_error" where
  "fs_failed what e = Adapter_failed (what @ (case e of Not_exist \<Rightarrow> '': not exist'' | Permission \<Rightarrow> '': permission denied''
     | Not_dir \<Rightarrow> '': not a directory'' | Is_dir \<Rightarrow> '': is a directory''))"

section \<open>SSH agent\<close>

definition ssh_capture ::
  "('k, 'a, 'g, 'z) services \<Rightarrow> ('a, 'g, 'z) host \<Rightarrow> ('a, 'g, 'z) host \<times> (adapter_error + tool_snapshot)" where
  "ssh_capture sv w =
     (case sv_dial sv (ho_agent w) of
        Some e \<Rightarrow> (w, Inl (No_subsystem e))
      | None \<Rightarrow>
          (case sv_agent_list sv (ho_agent w) of
             Inl e \<Rightarrow> (w, Inl (Adapter_failed e))
           | Inr fps \<Rightarrow> (w, Inr (Ssh_snapshot fps))))"

definition ssh_lifetime :: "int \<Rightarrow> 32 word" where
  "ssh_lifetime n = (if 0 < n then word_of_int n else 0)"

definition ssh_apply ::
  "('k, 'a, 'g, 'z) services \<Rightarrow> external_bindings \<Rightarrow> ('a, 'g, 'z) host \<Rightarrow> ('a, 'g, 'z) host \<times> adapter_error option" where
  "ssh_apply sv p w =
     (case xb_ssh p of
        None \<Rightarrow> (w, Some No_binding)
      | Some b \<Rightarrow>
          if sb_key_label b = [] then (w, Some (Bad_schema ''[external.ssh].key_label is empty''))
          else (case sv_keys sv of
             None \<Rightarrow> (w, Some (Bad_schema ''no KeySource configured''))
           | Some keys \<Rightarrow>
               (case keys (sb_key_label b) of
                  Inl e \<Rightarrow> (w, Some (Adapter_failed e))
                | Inr pem \<Rightarrow>
                    (case sv_parse_key sv pem of
                       Inl e \<Rightarrow> (w, Some (Adapter_failed e))
                     | Inr k \<Rightarrow>
                         (case sv_dial sv (ho_agent w) of
                            Some e \<Rightarrow> (w, Some (No_agent e))
                          | None \<Rightarrow>
                              (case sv_agent_add sv k (ssh_lifetime (sb_lifetime b)) (ho_agent w) of
                                 (a1, Some e) \<Rightarrow> (w\<lparr>ho_agent := a1\<rparr>, Some (Adapter_failed e))
                               | (a1, None) \<Rightarrow>
                                   (case sv_fingerprint sv k of
                                      Inl e \<Rightarrow> (w\<lparr>ho_agent := a1\<rparr>, Some (Adapter_failed e))
                                    | Inr fp \<Rightarrow> (w\<lparr>ho_agent := a1, ho_added := fp\<rparr>, None))))))))"

definition ssh_verify ::
  "('k, 'a, 'g, 'z) services \<Rightarrow> external_bindings \<Rightarrow> ('a, 'g, 'z) host \<Rightarrow> ('a, 'g, 'z) host \<times> adapter_error option" where
  "ssh_verify sv p w =
     (w, if ho_added w = [] then Some (Adapter_failed ''verify: Apply did not record a fingerprint'')
         else (case sv_dial sv (ho_agent w) of
           Some e \<Rightarrow> Some (No_agent e)
         | None \<Rightarrow>
             (case sv_agent_list sv (ho_agent w) of
                Inl e \<Rightarrow> Some (Adapter_failed e)
              | Inr fps \<Rightarrow> if List.member fps (ho_added w) then None else Some (Adapter_failed ''fingerprint not present''))))"

definition ssh_rollback ::
  "('k, 'a, 'g, 'z) services \<Rightarrow> tool_snapshot \<Rightarrow> ('a, 'g, 'z) host \<Rightarrow> ('a, 'g, 'z) host \<times> adapter_error option" where
  "ssh_rollback sv s w =
     (if ho_added w = [] then (w, None)
      else case sv_dial sv (ho_agent w) of
        Some e \<Rightarrow> (w, Some (Adapter_failed e))
      | None \<Rightarrow>
          (case sv_agent_list sv (ho_agent w) of
             Inl e \<Rightarrow> (w, Some (Adapter_failed e))
           | Inr fps \<Rightarrow>
               if List.member fps (ho_added w)
               then (case sv_agent_remove sv (ho_added w) (ho_agent w) of
                       (a1, Some e) \<Rightarrow> (w\<lparr>ho_agent := a1\<rparr>, Some (Adapter_failed e))
                     | (a1, None) \<Rightarrow> (w\<lparr>ho_agent := a1, ho_added := []\<rparr>, None))
               else (w\<lparr>ho_added := []\<rparr>, None)))"

section \<open>Cloud tools\<close>

definition gcloud_dir :: "string \<Rightarrow> string" where
  "gcloud_dir home = path_join (path_join home ''.config'') ''gcloud''"

definition gcloud_active_config_path :: "string \<Rightarrow> string" where
  "gcloud_active_config_path home = (if home = [] then [] else path_join (gcloud_dir home) ''active_config'')"

definition write_gcloud_active :: "string \<Rightarrow> string \<Rightarrow> os_state \<Rightarrow> os_state \<times> adapter_error option" where
  "write_gcloud_active home v fs =
     (if home = [] then (fs, Some (Adapter_failed ''HOME unset''))
      else (case os_mkdir_all fs (gcloud_dir home) of
        (fs1, Some e) \<Rightarrow> (fs1, Some (fs_failed ''mkdir gcloud config'' e))
      | (fs1, None) \<Rightarrow>
          (case os_write_file fs1 (gcloud_active_config_path home) (v @ [CHR 0x0A]) of
             (fs2, Some e) \<Rightarrow> (fs2, Some (fs_failed ''write'' e))
           | (fs2, None) \<Rightarrow> (fs2, None))))"

definition aws_profile :: string where
  "aws_profile = ''AWS_PROFILE''"

definition cloud_capture ::
  "('k, 'a, 'g, 'z) services \<Rightarrow> ('a, 'g, 'z) host \<Rightarrow> ('a, 'g, 'z) host \<times> (adapter_error + tool_snapshot)" where
  "cloud_capture sv w =
     (let aws = es_values (ho_env w) aws_profile;
          snap = (\<lambda>text. Cloud_snapshot
            \<lparr>cs_gcloud = json_text (case text of None \<Rightarrow> [] | Some t \<Rightarrow> t), cs_gcloud_existed = (text \<noteq> None),
             cs_aws_prior = json_text (case aws of None \<Rightarrow> [] | Some v \<Rightarrow> v), cs_aws_was_set = (aws \<noteq> None)\<rparr>)
      in if sv_home sv = [] then (w, Inr (snap None))
         else (case os_read_file (ho_fs w) (gcloud_active_config_path (sv_home sv)) of
           Inr data \<Rightarrow> (w, Inr (snap (Some (trim_space data))))
         | Inl Not_exist \<Rightarrow> (w, Inr (snap None))
         | Inl e \<Rightarrow> (w, Inl (fs_failed ''capture gcloud config'' e))))"

definition cloud_apply ::
  "('k, 'a, 'g, 'z) services \<Rightarrow> external_bindings \<Rightarrow> ('a, 'g, 'z) host \<Rightarrow> ('a, 'g, 'z) host \<times> adapter_error option" where
  "cloud_apply sv p w =
     (case xb_cloud p of
        None \<Rightarrow> (w, Some No_binding)
      | Some b \<Rightarrow>
          (case (if cb_gcloud b = [] then (ho_fs w, None) else write_gcloud_active (sv_home sv) (cb_gcloud b) (ho_fs w)) of
             (fs1, Some e) \<Rightarrow> (w\<lparr>ho_fs := fs1\<rparr>, Some e)
           | (fs1, None) \<Rightarrow>
               (let es = ho_env w;
                    es1 = (if cb_aws b = [] then es
                           else \<lparr>es_values = (es_values es)(aws_profile := Some (cb_aws b)),
                                 es_had = (es_had es)(aws_profile := es_values es aws_profile \<noteq> None),
                                 es_prior = (es_prior es)(aws_profile := (case es_values es aws_profile of None \<Rightarrow> [] | Some v \<Rightarrow> v))\<rparr>);
                    w1 = w\<lparr>ho_fs := fs1, ho_env := es1\<rparr>
                in if cb_azure b = [] then (w1, None)
                   else if \<not> sv_az_found sv (ho_az w1) then (w1, Some (No_cli ''az not on PATH''))
                   else (case sv_az sv [''account'', ''set'', ''--subscription'', cb_azure b] (ho_az w1) of
                           (z1, None) \<Rightarrow> (w1\<lparr>ho_az := z1\<rparr>, None)
                         | (z1, Some e) \<Rightarrow> (w1\<lparr>ho_az := z1\<rparr>, Some (Adapter_failed e))))))"

definition cloud_verify ::
  "('k, 'a, 'g, 'z) services \<Rightarrow> external_bindings \<Rightarrow> ('a, 'g, 'z) host \<Rightarrow> ('a, 'g, 'z) host \<times> adapter_error option" where
  "cloud_verify sv p w =
     (w, case xb_cloud p of
           None \<Rightarrow> None
         | Some b \<Rightarrow>
             (case (if cb_gcloud b = [] then None
                    else (case os_read_file (ho_fs w) (gcloud_active_config_path (sv_home sv)) of
                            Inl e \<Rightarrow> Some (fs_failed ''verify gcloud read'' e)
                          | Inr raw \<Rightarrow> if trim_space raw = cb_gcloud b then None else Some (Adapter_failed ''verify gcloud''))) of
                Some e \<Rightarrow> Some e
              | None \<Rightarrow>
                  if cb_aws b \<noteq> [] \<and> es_values (ho_env w) aws_profile \<noteq> Some (cb_aws b)
                  then Some (Adapter_failed ''verify aws'') else None))"

definition gcloud_rollback :: "string \<Rightarrow> cloud_snapshot \<Rightarrow> os_state \<Rightarrow> os_state \<times> adapter_error option" where
  "gcloud_rollback home s fs =
     (let path = gcloud_active_config_path home
      in if cs_gcloud_existed s then write_gcloud_active home (cs_gcloud s) fs
         else if home \<noteq> [] \<and> is_ok (os_stat fs path)
         then (let fs1 = os_remove fs path
               in (fs1, if node_at fs1 path = None then None else Some (Adapter_failed ''gcloud rollback rm'')))
         else (fs, None))"

definition cloud_rollback ::
  "('k, 'a, 'g, 'z) services \<Rightarrow> tool_snapshot \<Rightarrow> ('a, 'g, 'z) host \<Rightarrow> ('a, 'g, 'z) host \<times> adapter_error option" where
  "cloud_rollback sv snap w =
     (case snap of
        Cloud_snapshot s \<Rightarrow>
          (case gcloud_rollback (sv_home sv) s (ho_fs w) of
             (fs1, r) \<Rightarrow>
               (let es = ho_env w
                in (w\<lparr>ho_fs := fs1,
                      ho_env := es\<lparr>es_values := (es_values es)(aws_profile :=
                        (if es_had es aws_profile then Some (es_prior es aws_profile) else None))\<rparr>\<rparr>, r)))
      | _ \<Rightarrow> (w, Some (Adapter_failed ''decode cloud snapshot'')))"

section \<open>Kubeconfig\<close>

definition resolve_config_path :: "('k, 'a, 'g, 'z) services \<Rightarrow> string" where
  "resolve_config_path sv =
     (if sv_config_path sv \<noteq> [] then sv_config_path sv
      else if sv_kubeconfig sv \<noteq> [] then sv_kubeconfig sv
      else if sv_home sv \<noteq> [] then path_join (path_join (sv_home sv) ''.kube'') ''config'' else [])"

definition parse_kubeconfig :: "('k, 'a, 'g, 'z) services \<Rightarrow> string \<Rightarrow> string + kube_doc" where
  "parse_kubeconfig sv raw = (case sv_yaml_parse sv raw of Inl e \<Rightarrow> Inl e | Inr n \<Rightarrow> sv_kube_doc sv n)"

definition yaml_text :: "string \<Rightarrow> yaml" where
  "yaml_text v = Yaml Y_scalar ''!!str'' v []"

text \<open>The keys and values of a mapping alternate; a key that is not there is appended.\<close>

fun set_pair :: "string \<Rightarrow> string \<Rightarrow> yaml list \<Rightarrow> yaml list" where
  "set_pair key v (k # x # rest) =
     (if y_kind k = Y_scalar \<and> y_value k = key then k # yaml_text v # rest else k # x # set_pair key v rest)"
| "set_pair key v ks = ks @ [yaml_text key, yaml_text v]"

definition set_mapping_scalar :: "yaml \<Rightarrow> string \<Rightarrow> string \<Rightarrow> string + yaml" where
  "set_mapping_scalar root key v =
     (case root of
        Yaml k t x (m # rest) \<Rightarrow>
          if k \<noteq> Y_document then Inl ''expected document node''
          else (case m of Yaml mk mt mx ms \<Rightarrow>
            if mk \<noteq> Y_mapping then Inl ''expected mapping node at document root''
            else Inr (Yaml k t x (Yaml mk mt mx (set_pair key v ms) # rest)))
      | _ \<Rightarrow> Inl ''expected document node'')"

definition write_kubeconfig :: "('k, 'a, 'g, 'z) services \<Rightarrow> string \<Rightarrow> string \<Rightarrow> os_state \<Rightarrow> os_state \<times> adapter_error option" where
  "write_kubeconfig sv path ctx fs =
     (case os_read_file fs path of
        Inl e \<Rightarrow> (fs, Some (fs_failed ''read for write'' e))
      | Inr raw \<Rightarrow>
          (case sv_yaml_parse sv raw of
             Inl e \<Rightarrow> (fs, Some (Adapter_failed e))
           | Inr root \<Rightarrow>
               (case set_mapping_scalar root ''current-context'' ctx of
                  Inl e \<Rightarrow> (fs, Some (Adapter_failed e))
                | Inr root1 \<Rightarrow>
                    (case sv_yaml_print sv root1 of
                       Inl e \<Rightarrow> (fs, Some (Adapter_failed e))
                     | Inr out \<Rightarrow>
                         (case os_write_file fs (path @ ''.aish-tmp'') out of
                            (fs1, Some e) \<Rightarrow> (fs1, Some (fs_failed ''write tmp'' e))
                          | (fs1, None) \<Rightarrow>
                              (case os_rename fs1 (path @ ''.aish-tmp'') path of
                                 (fs2, Some e) \<Rightarrow> (fs2, Some (fs_failed ''rename'' e))
                               | (fs2, None) \<Rightarrow> (fs2, None)))))))"

definition kube_capture ::
  "('k, 'a, 'g, 'z) services \<Rightarrow> ('a, 'g, 'z) host \<Rightarrow> ('a, 'g, 'z) host \<times> (adapter_error + tool_snapshot)" where
  "kube_capture sv w =
     (let path = resolve_config_path sv
      in (w, if path = [] then Inl (No_subsystem ''no kubeconfig path resolvable'')
             else (case os_read_file (ho_fs w) path of
               Inl Not_exist \<Rightarrow> Inl (No_subsystem ''kubeconfig absent'')
             | Inl e \<Rightarrow> Inl (fs_failed ''read kubeconfig'' e)
             | Inr raw \<Rightarrow>
                 (case parse_kubeconfig sv raw of
                    Inl e \<Rightarrow> Inl (Adapter_failed e)
                  | Inr d \<Rightarrow> Inr (Kube_snapshot (json_text (kd_current_context d)) (sv_hash sv raw) (json_text path))))))"

definition kube_apply ::
  "('k, 'a, 'g, 'z) services \<Rightarrow> external_bindings \<Rightarrow> ('a, 'g, 'z) host \<Rightarrow> ('a, 'g, 'z) host \<times> adapter_error option" where
  "kube_apply sv p w =
     (case xb_kube p of
        None \<Rightarrow> (w, Some No_binding)
      | Some b \<Rightarrow>
          if kb_context b = [] then (w, Some (Bad_schema ''[external.kube].context is empty''))
          else (let path = resolve_config_path sv
                in case os_read_file (ho_fs w) path of
                     Inl e \<Rightarrow> (w, Some (fs_failed ''read kubeconfig'' e))
                   | Inr raw \<Rightarrow>
                       (case parse_kubeconfig sv raw of
                          Inl e \<Rightarrow> (w, Some (Adapter_failed e))
                        | Inr d \<Rightarrow>
                            if \<not> List.member (kd_contexts d) (kb_context b) then (w, Some (Bad_schema ''context not defined''))
                            else (case write_kubeconfig sv path (kb_context b) (ho_fs w) of
                                    (fs1, Some e) \<Rightarrow> (w\<lparr>ho_fs := fs1\<rparr>, Some e)
                                  | (fs1, None) \<Rightarrow>
                                      (case os_read_file fs1 path of
                                         Inl _ \<Rightarrow> (w\<lparr>ho_fs := fs1\<rparr>, None)
                                       | Inr after \<Rightarrow> (w\<lparr>ho_fs := fs1, ho_digest := sv_hash sv after\<rparr>, None))))))"

definition kube_verify ::
  "('k, 'a, 'g, 'z) services \<Rightarrow> external_bindings \<Rightarrow> ('a, 'g, 'z) host \<Rightarrow> ('a, 'g, 'z) host \<times> adapter_error option" where
  "kube_verify sv p w =
     (w, case xb_kube p of
           None \<Rightarrow> None
         | Some b \<Rightarrow>
             (case os_read_file (ho_fs w) (resolve_config_path sv) of
                Inl e \<Rightarrow> Some (fs_failed ''verify read'' e)
              | Inr raw \<Rightarrow>
                  (case parse_kubeconfig sv raw of
                     Inl e \<Rightarrow> Some (Adapter_failed e)
                   | Inr d \<Rightarrow> if kd_current_context d = kb_context b then None else Some (Adapter_failed ''verify: current-context''))))"

definition kube_rollback ::
  "('k, 'a, 'g, 'z) services \<Rightarrow> tool_snapshot \<Rightarrow> ('a, 'g, 'z) host \<Rightarrow> ('a, 'g, 'z) host \<times> adapter_error option" where
  "kube_rollback sv snap w =
     (case snap of
        Kube_snapshot ctx _ sp \<Rightarrow>
          (let path = (if sp = [] then resolve_config_path sv else sp)
           in case os_read_file (ho_fs w) path of
                Inl e \<Rightarrow> (w, Some (fs_failed ''rollback read'' e))
              | Inr raw \<Rightarrow>
                  (case parse_kubeconfig sv raw of
                     Inl e \<Rightarrow> (w, Some (Adapter_failed e))
                   | Inr _ \<Rightarrow>
                       (case write_kubeconfig sv path ctx (ho_fs w) of
                          (fs1, Some e) \<Rightarrow> (w\<lparr>ho_fs := fs1\<rparr>, Some e)
                        | (fs1, None) \<Rightarrow>
                            (w\<lparr>ho_fs := fs1\<rparr>,
                             if ho_digest w \<noteq> [] \<and> sv_hash sv raw \<noteq> ho_digest w then Some Digest_changed else None))))
      | _ \<Rightarrow> (w, Some (Adapter_failed ''decode kube snapshot'')))"

section \<open>Git\<close>

definition git_keys :: "string list" where
  "git_keys = [''user.name'', ''user.email'', ''user.signingkey'']"

definition git_get :: "('k, 'a, 'g, 'z) services \<Rightarrow> string \<Rightarrow> 'g \<Rightarrow> 'g \<times> (git_error + string)" where
  "git_get sv key g = sv_git sv [''config'', ''--global'', ''--get'', key] g"

definition git_set :: "('k, 'a, 'g, 'z) services \<Rightarrow> string \<Rightarrow> string \<Rightarrow> 'g \<Rightarrow> 'g \<times> (git_error + string)" where
  "git_set sv key v g = sv_git sv [''config'', ''--global'', key, v] g"

text \<open>\<open>--unset-all\<close>; exit status 5 is taken for a key that was not there.\<close>

definition git_unset :: "('k, 'a, 'g, 'z) services \<Rightarrow> string \<Rightarrow> 'g \<Rightarrow> 'g \<times> adapter_error option" where
  "git_unset sv key g =
     (case sv_git sv [''config'', ''--global'', ''--unset-all'', key] g of
        (g1, Inr _) \<Rightarrow> (g1, None)
      | (g1, Inl Git_key_missing) \<Rightarrow> (g1, Some (Adapter_failed ''git: key not present''))
      | (g1, Inl (Git_error t)) \<Rightarrow> (g1, if str_contains t ''exit status 5'' then None else Some (Adapter_failed t)))"

definition git_failed :: "git_error \<Rightarrow> adapter_error" where
  "git_failed e = Adapter_failed (case e of Git_key_missing \<Rightarrow> ''git: key not present'' | Git_error t \<Rightarrow> t)"

fun git_capture_keys ::
  "('k, 'a, 'g, 'z) services \<Rightarrow> string list \<Rightarrow> 'g \<Rightarrow> 'g \<times> (adapter_error + (bool \<times> string) list)" where
  "git_capture_keys sv [] g = (g, Inr [])"
| "git_capture_keys sv (k # ks) g =
     (case git_get sv k g of
        (g1, Inl (Git_error t)) \<Rightarrow> (g1, Inl (Adapter_failed t))
      | (g1, r) \<Rightarrow>
          (case git_capture_keys sv ks g1 of
             (g2, Inl e) \<Rightarrow> (g2, Inl e)
           | (g2, Inr xs) \<Rightarrow>
               (g2, Inr ((case r of Inr out \<Rightarrow> (True, json_text (trim_right_set out [CHR 0x0A])) | Inl _ \<Rightarrow> (False, [])) # xs))))"

definition git_capture ::
  "('k, 'a, 'g, 'z) services \<Rightarrow> ('a, 'g, 'z) host \<Rightarrow> ('a, 'g, 'z) host \<times> (adapter_error + tool_snapshot)" where
  "git_capture sv w =
     (if \<not> sv_git_found sv (ho_git w) then (w, Inl (No_cli ''git not on PATH''))
      else case git_capture_keys sv git_keys (ho_git w) of
        (g1, Inl e) \<Rightarrow> (w\<lparr>ho_git := g1\<rparr>, Inl e)
      | (g1, Inr xs) \<Rightarrow> (w\<lparr>ho_git := g1\<rparr>, Inr (Git_snapshot xs)))"

definition validate_git_binding :: "git_binding \<Rightarrow> adapter_error option" where
  "validate_git_binding b =
     (if gb_scope b \<noteq> [] \<and> gb_scope b \<noteq> ''global'' then Some (Bad_schema ''[external.git].scope'')
      else if gb_user_name b = [] then Some (Bad_schema ''[external.git].user_name is empty'')
      else if gb_user_email b = [] then Some (Bad_schema ''[external.git].user_email is empty'')
      else None)"

definition git_apply ::
  "('k, 'a, 'g, 'z) services \<Rightarrow> external_bindings \<Rightarrow> ('a, 'g, 'z) host \<Rightarrow> ('a, 'g, 'z) host \<times> adapter_error option" where
  "git_apply sv p w =
     (case xb_git p of
        None \<Rightarrow> (w, Some No_binding)
      | Some b \<Rightarrow>
          (case validate_git_binding b of
             Some e \<Rightarrow> (w, Some e)
           | None \<Rightarrow>
               if \<not> sv_git_found sv (ho_git w) then (w, Some (No_cli ''git not on PATH''))
               else (case git_set sv ''user.name'' (gb_user_name b) (ho_git w) of
                 (g1, Inl e) \<Rightarrow> (w\<lparr>ho_git := g1\<rparr>, Some (git_failed e))
               | (g1, Inr _) \<Rightarrow>
                   (case git_set sv ''user.email'' (gb_user_email b) g1 of
                      (g2, Inl e) \<Rightarrow> (w\<lparr>ho_git := g2\<rparr>, Some (git_failed e))
                    | (g2, Inr _) \<Rightarrow>
                        if gb_signing_key b \<noteq> []
                        then (case git_set sv ''user.signingkey'' (gb_signing_key b) g2 of
                                (g3, Inl e) \<Rightarrow> (w\<lparr>ho_git := g3\<rparr>, Some (git_failed e))
                              | (g3, Inr _) \<Rightarrow> (w\<lparr>ho_git := g3\<rparr>, None))
                        else (case git_unset sv ''user.signingkey'' g2 of (g3, r) \<Rightarrow> (w\<lparr>ho_git := g3\<rparr>, r))))))"

definition git_check :: "('k, 'a, 'g, 'z) services \<Rightarrow> string \<Rightarrow> string \<Rightarrow> 'g \<Rightarrow> 'g \<times> adapter_error option" where
  "git_check sv key want g =
     (case git_get sv key g of
        (g1, Inl e) \<Rightarrow> (g1, Some (git_failed e))
      | (g1, Inr out) \<Rightarrow> (g1, if trim_right_set out [CHR 0x0A] = want then None else Some (Adapter_failed (''verify '' @ key))))"

definition git_verify ::
  "('k, 'a, 'g, 'z) services \<Rightarrow> external_bindings \<Rightarrow> ('a, 'g, 'z) host \<Rightarrow> ('a, 'g, 'z) host \<times> adapter_error option" where
  "git_verify sv p w =
     (case xb_git p of
        None \<Rightarrow> (w, None)
      | Some b \<Rightarrow>
          (case git_check sv ''user.name'' (gb_user_name b) (ho_git w) of
             (g1, Some e) \<Rightarrow> (w\<lparr>ho_git := g1\<rparr>, Some e)
           | (g1, None) \<Rightarrow>
               (case git_check sv ''user.email'' (gb_user_email b) g1 of
                  (g2, Some e) \<Rightarrow> (w\<lparr>ho_git := g2\<rparr>, Some e)
                | (g2, None) \<Rightarrow>
                    (case git_get sv ''user.signingkey'' g2 of
                       (g3, Inr out) \<Rightarrow>
                         (w\<lparr>ho_git := g3\<rparr>,
                          if gb_signing_key b = [] \<or> trim_right_set out [CHR 0x0A] \<noteq> gb_signing_key b
                          then Some (Adapter_failed ''verify signingkey'') else None)
                     | (g3, Inl Git_key_missing) \<Rightarrow>
                         (w\<lparr>ho_git := g3\<rparr>, if gb_signing_key b \<noteq> [] then Some (Adapter_failed ''verify signingkey'') else None)
                     | (g3, Inl (Git_error t)) \<Rightarrow> (w\<lparr>ho_git := g3\<rparr>, Some (Adapter_failed t))))))"

text \<open>The keys are put back in order, up to the first failure.\<close>

fun git_restore_keys ::
  "('k, 'a, 'g, 'z) services \<Rightarrow> (string \<times> bool \<times> string) list \<Rightarrow> 'g \<Rightarrow> 'g \<times> adapter_error option" where
  "git_restore_keys sv [] g = (g, None)"
| "git_restore_keys sv ((k, was_set, v) # ks) g =
     (case (if was_set
            then (case git_set sv k v g of (g1, Inl e) \<Rightarrow> (g1, Some (git_failed e)) | (g1, Inr _) \<Rightarrow> (g1, None))
            else git_unset sv k g) of
        (g1, Some e) \<Rightarrow> (g1, Some e)
      | (g1, None) \<Rightarrow> git_restore_keys sv ks g1)"

definition git_rollback ::
  "('k, 'a, 'g, 'z) services \<Rightarrow> tool_snapshot \<Rightarrow> ('a, 'g, 'z) host \<Rightarrow> ('a, 'g, 'z) host \<times> adapter_error option" where
  "git_rollback sv snap w =
     (case snap of
        Git_snapshot xs \<Rightarrow> (case git_restore_keys sv (zip git_keys xs) (ho_git w) of (g1, r) \<Rightarrow> (w\<lparr>ho_git := g1\<rparr>, r))
      | _ \<Rightarrow> (w, Some (Adapter_failed ''decode git snapshot'')))"

section \<open>The adapters of a persona\<close>

datatype subsystem = Ssh | Cloud | Kube | Git

fun host_adapter :: "('k, 'a, 'g, 'z) services \<Rightarrow> subsystem \<Rightarrow> (('a, 'g, 'z) host, external_bindings, tool_snapshot) adapter" where
  "host_adapter sv Ssh = \<lparr>ad_name = ''ssh'', ad_capture = ssh_capture sv, ad_apply = ssh_apply sv, ad_verify = ssh_verify sv, ad_rollback = ssh_rollback sv\<rparr>"
| "host_adapter sv Cloud = \<lparr>ad_name = ''cloud'', ad_capture = cloud_capture sv, ad_apply = cloud_apply sv, ad_verify = cloud_verify sv, ad_rollback = cloud_rollback sv\<rparr>"
| "host_adapter sv Kube = \<lparr>ad_name = ''kube'', ad_capture = kube_capture sv, ad_apply = kube_apply sv, ad_verify = kube_verify sv, ad_rollback = kube_rollback sv\<rparr>"
| "host_adapter sv Git = \<lparr>ad_name = ''git'', ad_capture = git_capture sv, ad_apply = git_apply sv, ad_verify = git_verify sv, ad_rollback = git_rollback sv\<rparr>"

definition bound_systems :: "external_bindings \<Rightarrow> subsystem list" where
  "bound_systems p =
     (if xb_ssh p \<noteq> None then [Ssh] else []) @ (if xb_cloud p \<noteq> None then [Cloud] else [])
     @ (if xb_kube p \<noteq> None then [Kube] else []) @ (if xb_git p \<noteq> None then [Git] else [])"

definition build_adapters ::
  "('k, 'a, 'g, 'z) services \<Rightarrow> external_bindings \<Rightarrow> (('a, 'g, 'z) host, external_bindings, tool_snapshot) adapter list" where
  "build_adapters sv p = map (host_adapter sv) (bound_systems p)"

end
