(* ===== verification/Persona_Laws.thy ===== *)
theory Persona_Laws
  imports Persona_Adapters
begin

text \<open>
  What a switch of personas leaves of the four subsystems. The agent, the YAML library and git are
  described by laws on the views \<open>keys\<close> and \<open>conf\<close>; the adapters meet the contract of \<open>Persona_Switch\<close>
  for the subsystems in \<open>sound_systems\<close>.
\<close>

section \<open>Services\<close>

text \<open>The agent holds a set of fingerprints; what fails changes nothing.\<close>

definition agent_laws :: "('k, 'a, 'g, 'z) services \<Rightarrow> ('a \<Rightarrow> string set) \<Rightarrow> bool" where
  "agent_laws sv keys \<longleftrightarrow>
     (\<forall>a fps. sv_agent_list sv a = Inr fps \<longrightarrow> set fps = keys a)
     \<and> (\<forall>k l a a' e. sv_agent_add sv k l a = (a', Some e) \<longrightarrow> keys a' = keys a)
     \<and> (\<forall>k l a a'. sv_agent_add sv k l a = (a', None) \<longrightarrow>
          (\<exists>f. sv_fingerprint sv k = Inr f \<and> f \<noteq> [] \<and> keys a' = insert f (keys a)))
     \<and> (\<forall>f a a' e. sv_agent_remove sv f a = (a', Some e) \<longrightarrow> keys a' = keys a)
     \<and> (\<forall>f a a'. sv_agent_remove sv f a = (a', None) \<longrightarrow> keys a' = keys a - {f})"

text \<open>What is printed is read back, and a new scalar changes the field of its name.\<close>

definition yaml_laws :: "('k, 'a, 'g, 'z) services \<Rightarrow> bool" where
  "yaml_laws sv \<longleftrightarrow>
     (\<forall>n out. sv_yaml_print sv n = Inr out \<longrightarrow> (\<exists>m. sv_yaml_parse sv out = Inr m \<and> sv_kube_doc sv m = sv_kube_doc sv n))
     \<and> (\<forall>n d v m. sv_kube_doc sv n = Inr d \<longrightarrow> set_mapping_scalar n ''current-context'' v = Inr m \<longrightarrow>
          sv_kube_doc sv m = Inr (d\<lparr>kd_current_context := v\<rparr>))"

text \<open>Git holds one value for a key; what fails changes nothing, and a status of 5 means that the key was not there.\<close>

definition git_laws :: "('k, 'a, 'g, 'z) services \<Rightarrow> ('g \<Rightarrow> string \<Rightarrow> string option) \<Rightarrow> bool" where
  "git_laws sv conf \<longleftrightarrow>
     (\<forall>k \<in> set git_keys. \<forall>g g' r. git_get sv k g = (g', r) \<longrightarrow> conf g' = conf g
        \<and> (\<forall>out. r = Inr out \<longrightarrow> (\<exists>v. conf g k = Some v \<and> out = v @ [CHR 0x0A])) \<and> (r = Inl Git_key_missing \<longrightarrow> conf g k = None))
     \<and> (\<forall>k \<in> set git_keys. \<forall>v g g' r. git_set sv k v g = (g', r) \<longrightarrow> conf g' = (case r of Inr _ \<Rightarrow> (conf g)(k \<mapsto> v) | Inl _ \<Rightarrow> conf g))
     \<and> (\<forall>k \<in> set git_keys. \<forall>g g' r. sv_git sv [''config'', ''--global'', ''--unset-all'', k] g = (g', r) \<longrightarrow>
          conf g' = (case r of Inr _ \<Rightarrow> (conf g)(k := None) | Inl _ \<Rightarrow> conf g)
          \<and> (\<forall>t. r = Inl (Git_error t) \<longrightarrow> str_contains t ''exit status 5'' \<longrightarrow> conf g k = None))"

text \<open>Git accepts the writes it is asked for.\<close>

definition git_writes :: "('k, 'a, 'g, 'z) services \<Rightarrow> bool" where
  "git_writes sv \<longleftrightarrow> (\<forall>k \<in> set git_keys. \<forall>v g. is_ok (snd (git_set sv k v g))) \<and> (\<forall>k \<in> set git_keys. \<forall>g. snd (git_unset sv k g) = None)"

section \<open>Views\<close>

text \<open>The key that \<open>Apply\<close> adds.\<close>

definition persona_key :: "('k, 'a, 'g, 'z) services \<Rightarrow> external_bindings \<Rightarrow> string" where
  "persona_key sv p =
     (case xb_ssh p of
        None \<Rightarrow> []
      | Some b \<Rightarrow>
          (case sv_keys sv of
             None \<Rightarrow> []
           | Some keys \<Rightarrow>
               (case keys (sb_key_label b) of
                  Inl _ \<Rightarrow> []
                | Inr pem \<Rightarrow>
                    (case sv_parse_key sv pem of
                       Inl _ \<Rightarrow> []
                     | Inr k \<Rightarrow> (case sv_fingerprint sv k of Inl _ \<Rightarrow> [] | Inr f \<Rightarrow> f)))))"

datatype part_view =
    Agent_view "string set" string
  | File_view "string option"
  | Context_view "string option"
  | Values_view "string option list"

definition seen_text :: "os_state \<Rightarrow> string \<Rightarrow> string option" where
  "seen_text fs q = (if q \<in> set (fs_no_stat fs) then None else file_text fs q)"

definition kube_context :: "('k, 'a, 'g, 'z) services \<Rightarrow> os_state \<Rightarrow> string option" where
  "kube_context sv fs =
     (case file_text fs (resolve_config_path sv) of
        None \<Rightarrow> None
      | Some raw \<Rightarrow> (case parse_kubeconfig sv raw of Inl _ \<Rightarrow> None | Inr d \<Rightarrow> Some (kd_current_context d)))"

fun host_part ::
  "('k, 'a, 'g, 'z) services \<Rightarrow> ('a \<Rightarrow> string set) \<Rightarrow> ('g \<Rightarrow> string \<Rightarrow> string option) \<Rightarrow> subsystem \<Rightarrow> ('a, 'g, 'z) host \<Rightarrow> part_view" where
  "host_part sv keys conf Ssh w = Agent_view (keys (ho_agent w)) (ho_added w)"
| "host_part sv keys conf Cloud w = File_view (seen_text (ho_fs w) (gcloud_active_config_path (sv_home sv)))"
| "host_part sv keys conf Kube w = Context_view (kube_context sv (ho_fs w))"
| "host_part sv keys conf Git w = Values_view (map (conf (ho_git w)) git_keys)"

definition clean_line :: "string \<Rightarrow> bool" where
  "clean_line v \<longleftrightarrow> valid_utf8 v \<and> trim_right_set v [CHR 0x0A] = v"

text \<open>The states that a snapshot holds without loss; the persona's key must not be in the agent already.\<close>

fun host_plain :: "('k, 'a, 'g, 'z) services \<Rightarrow> external_bindings \<Rightarrow> subsystem \<Rightarrow> part_view \<Rightarrow> bool" where
  "host_plain sv p Ssh (Agent_view ks added) \<longleftrightarrow> added = [] \<and> persona_key sv p \<notin> ks"
| "host_plain sv p Cloud (File_view (Some c)) \<longleftrightarrow> c = json_text (trim_space c) @ [CHR 0x0A]"
| "host_plain sv p Kube (Context_view (Some c)) \<longleftrightarrow> valid_utf8 c"
| "host_plain sv p Git (Values_view vs) \<longleftrightarrow> list_all (\<lambda>x. case x of None \<Rightarrow> True | Some v \<Rightarrow> clean_line v) vs"
| "host_plain sv p i v \<longleftrightarrow> True"

definition git_entry :: "string option \<Rightarrow> bool \<times> string" where
  "git_entry x = (case x of Some v \<Rightarrow> (True, json_text (trim_right_set (v @ [CHR 0x0A]) [CHR 0x0A])) | None \<Rightarrow> (False, []))"

fun host_recorded :: "('k, 'a, 'g, 'z) services \<Rightarrow> subsystem \<Rightarrow> tool_snapshot \<Rightarrow> part_view \<Rightarrow> bool" where
  "host_recorded sv Ssh s v \<longleftrightarrow> (\<exists>ks a. v = Agent_view ks a)"
| "host_recorded sv Cloud s v \<longleftrightarrow> (\<exists>cs. s = Cloud_snapshot cs \<and>
     (if cs_gcloud_existed cs then \<exists>c. v = File_view (Some c) \<and> cs_gcloud cs = json_text (trim_space c) else v = File_view None))"
| "host_recorded sv Kube s v \<longleftrightarrow> (\<exists>c h. v = Context_view (Some c) \<and> s = Kube_snapshot (json_text c) h (json_text (resolve_config_path sv)) \<and> resolve_config_path sv \<noteq> [])"
| "host_recorded sv Git s v \<longleftrightarrow> (\<exists>vs. v = Values_view vs \<and> length vs = 3
     \<and> s = Git_snapshot (map git_entry vs))"

fun host_reached :: "('k, 'a, 'g, 'z) services \<Rightarrow> external_bindings \<Rightarrow> subsystem \<Rightarrow> part_view \<Rightarrow> part_view \<Rightarrow> bool" where
  "host_reached sv p Ssh (Agent_view ks a) v \<longleftrightarrow> v = Agent_view (insert (persona_key sv p) ks) (persona_key sv p) \<and> persona_key sv p \<noteq> []"
| "host_reached sv p i u v \<longleftrightarrow> True"

text \<open>The subsystems whose services keep their promises and whose files are apart.\<close>

definition files_apart :: "('k, 'a, 'g, 'z) services \<Rightarrow> bool" where
  "files_apart sv \<longleftrightarrow> gcloud_active_config_path (sv_home sv) \<noteq> resolve_config_path sv
     \<and> gcloud_active_config_path (sv_home sv) \<noteq> resolve_config_path sv @ ''.aish-tmp''
     \<and> valid_utf8 (resolve_config_path sv)"

fun keeps_promise ::
  "('k, 'a, 'g, 'z) services \<Rightarrow> ('a \<Rightarrow> string set) \<Rightarrow> ('g \<Rightarrow> string \<Rightarrow> string option) \<Rightarrow> external_bindings \<Rightarrow> subsystem \<Rightarrow> bool" where
  "keeps_promise sv keys conf p Ssh \<longleftrightarrow> agent_laws sv keys"
| "keeps_promise sv keys conf p Cloud \<longleftrightarrow> sv_home sv \<noteq> [] \<and> files_apart sv \<and> (\<forall>b. xb_cloud p = Some b \<longrightarrow> cb_azure b = [])"
| "keeps_promise sv keys conf p Kube \<longleftrightarrow> yaml_laws sv \<and> files_apart sv"
| "keeps_promise sv keys conf p Git \<longleftrightarrow> git_laws sv conf \<and> git_writes sv"

definition sound_systems ::
  "('k, 'a, 'g, 'z) services \<Rightarrow> ('a \<Rightarrow> string set) \<Rightarrow> ('g \<Rightarrow> string \<Rightarrow> string option) \<Rightarrow> external_bindings \<Rightarrow> subsystem set" where
  "sound_systems sv keys conf p = {i. keeps_promise sv keys conf p i}"

section \<open>What each adapter leaves alone\<close>

lemma capture_frame:
  "fst (ssh_capture sv w) = w" "fst (cloud_capture sv w) = w" "fst (kube_capture sv w) = w"
  "ho_fs (fst (git_capture sv w)) = ho_fs w" "ho_agent (fst (git_capture sv w)) = ho_agent w" "ho_added (fst (git_capture sv w)) = ho_added w"
  by (simp_all add: ssh_capture_def cloud_capture_def kube_capture_def git_capture_def Let_def
      split: option.split sum.split prod.split os_error.split)

lemma apply_frame:
  "ho_fs (fst (ssh_apply sv p w)) = ho_fs w" "ho_git (fst (ssh_apply sv p w)) = ho_git w"
  "ho_agent (fst (cloud_apply sv p w)) = ho_agent w" "ho_added (fst (cloud_apply sv p w)) = ho_added w" "ho_git (fst (cloud_apply sv p w)) = ho_git w"
  "ho_agent (fst (kube_apply sv p w)) = ho_agent w" "ho_added (fst (kube_apply sv p w)) = ho_added w" "ho_git (fst (kube_apply sv p w)) = ho_git w"
  "ho_fs (fst (git_apply sv p w)) = ho_fs w" "ho_agent (fst (git_apply sv p w)) = ho_agent w" "ho_added (fst (git_apply sv p w)) = ho_added w"
  by (simp_all add: ssh_apply_def cloud_apply_def kube_apply_def git_apply_def Let_def
      split: option.split sum.split prod.split)

lemma verify_frame:
  "fst (ssh_verify sv p w) = w" "fst (cloud_verify sv p w) = w" "fst (kube_verify sv p w) = w"
  "ho_fs (fst (git_verify sv p w)) = ho_fs w" "ho_agent (fst (git_verify sv p w)) = ho_agent w" "ho_added (fst (git_verify sv p w)) = ho_added w"
  by (simp_all add: ssh_verify_def cloud_verify_def kube_verify_def git_verify_def Let_def
      split: option.split sum.split prod.split git_error.split)

lemma rollback_frame:
  "ho_fs (fst (ssh_rollback sv s w)) = ho_fs w" "ho_git (fst (ssh_rollback sv s w)) = ho_git w"
  "ho_agent (fst (cloud_rollback sv s w)) = ho_agent w" "ho_added (fst (cloud_rollback sv s w)) = ho_added w" "ho_git (fst (cloud_rollback sv s w)) = ho_git w"
  "ho_agent (fst (kube_rollback sv s w)) = ho_agent w" "ho_added (fst (kube_rollback sv s w)) = ho_added w" "ho_git (fst (kube_rollback sv s w)) = ho_git w"
  "ho_fs (fst (git_rollback sv s w)) = ho_fs w" "ho_agent (fst (git_rollback sv s w)) = ho_agent w" "ho_added (fst (git_rollback sv s w)) = ho_added w"
  by (simp_all add: ssh_rollback_def cloud_rollback_def kube_rollback_def git_rollback_def Let_def
      split: option.split sum.split prod.split tool_snapshot.split)

lemmas adapter_frames = capture_frame apply_frame verify_frame rollback_frame

section \<open>SSH\<close>

lemma ssh_apply_keys:
  assumes "agent_laws sv keys" "ssh_apply sv p w = (w1, r)"
  shows "r \<noteq> None \<Longrightarrow> keys (ho_agent w1) = keys (ho_agent w) \<and> ho_added w1 = ho_added w"
    and "r = None \<Longrightarrow> persona_key sv p \<noteq> [] \<and> keys (ho_agent w1) = insert (persona_key sv p) (keys (ho_agent w)) \<and> ho_added w1 = persona_key sv p"
proof -
  show "keys (ho_agent w1) = keys (ho_agent w) \<and> ho_added w1 = ho_added w" if "r \<noteq> None"
    using assms that unfolding agent_laws_def ssh_apply_def
    by (auto split: option.splits sum.splits prod.splits if_splits) fastforce+
  show "persona_key sv p \<noteq> [] \<and> keys (ho_agent w1) = insert (persona_key sv p) (keys (ho_agent w)) \<and> ho_added w1 = persona_key sv p" if "r = None"
    using assms that unfolding agent_laws_def ssh_apply_def persona_key_def
    by (auto split: option.splits sum.splits prod.splits if_splits) fastforce+
qed

lemma ssh_rollback_keys:
  assumes "agent_laws sv keys" "ssh_rollback sv s w = (w1, None)" "ho_added w = f" "f \<noteq> []" "keys (ho_agent w) = insert f K" "f \<notin> K"
  shows "keys (ho_agent w1) = K \<and> ho_added w1 = []"
proof -
  obtain fps where l: "sv_agent_list sv (ho_agent w) = Inr fps" "sv_dial sv (ho_agent w) = None"
    using assms(2-4) by (auto simp: ssh_rollback_def split: option.splits sum.splits)
  then have "set fps = insert f K" using assms(1,5) by (auto simp: agent_laws_def)
  then have "List.member fps f" by (simp add: List.member_iff)
  then obtain a1 where a: "sv_agent_remove sv f (ho_agent w) = (a1, None)" "w1 = w\<lparr>ho_agent := a1, ho_added := []\<rparr>"
    using assms(2-4) l by (auto simp: ssh_rollback_def split: option.splits prod.splits)
  then have "keys a1 = insert f K - {f}" using assms(1,5) by (auto simp: agent_laws_def)
  then show ?thesis using a(2) assms(6) by simp
qed

section \<open>Cloud\<close>

lemma seen_text_cong: "fs_no_stat fs' = fs_no_stat fs \<Longrightarrow> file_text fs' q = file_text fs q \<Longrightarrow> seen_text fs' q = seen_text fs q"
  by (simp add: seen_text_def)

lemma write_gcloud_active_text:
  assumes "write_gcloud_active home v fs = (fs', r)"
  shows "fs_no_stat fs' = fs_no_stat fs"
    and "file_text fs' q = (if q = gcloud_active_config_path home \<and> r = None then Some (v @ [CHR 0x0A]) else file_text fs q)"
    and "r = None \<Longrightarrow> gcloud_active_config_path home \<notin> set (fs_no_stat fs)"
proof -
  have *: "fs_no_stat fs' = fs_no_stat fs \<and> file_text fs' q = (if q = gcloud_active_config_path home \<and> r = None then Some (v @ [CHR 0x0A]) else file_text fs q)
      \<and> (r = None \<longrightarrow> gcloud_active_config_path home \<notin> set (fs_no_stat fs))"
  proof (cases "home = []")
    case False
    obtain fs1 e where m: "os_mkdir_all fs (gcloud_dir home) = (fs1, e)" by fastforce
    show ?thesis
    proof (cases e)
      case None
      obtain fs2 e2 where w: "os_write_file fs1 (gcloud_active_config_path home) (v @ [CHR 0x0A]) = (fs2, e2)" by fastforce
      have "fs' = fs2" "r = None \<longleftrightarrow> e2 = None" using assms m w None False by (auto simp: write_gcloud_active_def split: option.splits)
      then show ?thesis using os_mkdir_all_text [OF m] os_write_file_text [OF w] os_write_file_stat [OF w] os_write_file_seen [of fs1] w by auto
    next
      case (Some x)
      then show ?thesis using assms m os_mkdir_all_text [OF m] False by (auto simp: write_gcloud_active_def)
    qed
  qed (use assms in \<open>auto simp: write_gcloud_active_def\<close>)
  then show "fs_no_stat fs' = fs_no_stat fs"
    and "file_text fs' q = (if q = gcloud_active_config_path home \<and> r = None then Some (v @ [CHR 0x0A]) else file_text fs q)"
    and "r = None \<Longrightarrow> gcloud_active_config_path home \<notin> set (fs_no_stat fs)" by auto
qed

lemma cloud_apply_text:
  assumes "cloud_apply sv p w = (w1, r)"
  shows "q \<noteq> gcloud_active_config_path (sv_home sv) \<Longrightarrow> file_text (ho_fs w1) q = file_text (ho_fs w) q"
    and "fs_no_stat (ho_fs w1) = fs_no_stat (ho_fs w)"
    and "r \<noteq> None \<Longrightarrow> (\<forall>b. xb_cloud p = Some b \<longrightarrow> cb_azure b = []) \<Longrightarrow> file_text (ho_fs w1) q = file_text (ho_fs w) q"
proof -
  note written = write_gcloud_active_text(2) [where q = q]
  show "q \<noteq> gcloud_active_config_path (sv_home sv) \<Longrightarrow> file_text (ho_fs w1) q = file_text (ho_fs w) q"
    using assms written by (auto simp: cloud_apply_def Let_def split: option.splits prod.splits if_splits)
  show "fs_no_stat (ho_fs w1) = fs_no_stat (ho_fs w)"
    using assms write_gcloud_active_text(1) by (auto simp: cloud_apply_def Let_def split: option.splits prod.splits if_splits)
  show "r \<noteq> None \<Longrightarrow> (\<forall>b. xb_cloud p = Some b \<longrightarrow> cb_azure b = []) \<Longrightarrow> file_text (ho_fs w1) q = file_text (ho_fs w) q"
    using assms written by (auto simp: cloud_apply_def Let_def split: option.splits prod.splits if_splits)
qed

lemma gcloud_rollback_text:
  assumes "gcloud_rollback home s fs = (fs', r)"
  shows "q \<noteq> gcloud_active_config_path home \<Longrightarrow> file_text fs' q = file_text fs q"
    and "fs_no_stat fs' = fs_no_stat fs"
    and "r = None \<Longrightarrow> home \<noteq> [] \<Longrightarrow>
      seen_text fs' (gcloud_active_config_path home) = (if cs_gcloud_existed s then Some (cs_gcloud s @ [CHR 0x0A]) else None)"
proof -
  show "q \<noteq> gcloud_active_config_path home \<Longrightarrow> file_text fs' q = file_text fs q"
    using assms write_gcloud_active_text(2) [where q = q]
    by (auto simp: gcloud_rollback_def Let_def os_remove_text split: if_splits)
  show "fs_no_stat fs' = fs_no_stat fs"
    using assms write_gcloud_active_text(1) by (auto simp: gcloud_rollback_def Let_def split: if_splits)
  let ?q = "gcloud_active_config_path home"
  assume r: "r = None" "home \<noteq> []"
  show "seen_text fs' ?q = (if cs_gcloud_existed s then Some (cs_gcloud s @ [CHR 0x0A]) else None)"
  proof (cases "cs_gcloud_existed s")
    case True
    then have "write_gcloud_active home (cs_gcloud s) fs = (fs', None)" using assms r by (simp add: gcloud_rollback_def Let_def)
    from write_gcloud_active_text(1,3) [OF this] write_gcloud_active_text(2) [OF this, of ?q] True show ?thesis
      by (simp add: seen_text_def)
  next
    case False
    show ?thesis
    proof (cases "is_ok (os_stat fs ?q)")
      case True
      then have "node_at fs' ?q = None" using assms r False by (auto simp: gcloud_rollback_def Let_def split: if_splits)
      then show ?thesis using False by (simp add: seen_text_def file_text_def)
    next
      case no: False
      then have "fs' = fs" "seen_text fs ?q = None"
        using assms r False by (auto simp: gcloud_rollback_def Let_def is_ok_def seen_text_def file_text_def os_stat_def List.member_iff
            split: if_splits option.splits)
      then show ?thesis using False by simp
    qed
  qed
qed

lemma cloud_rollback_fs:
  "cloud_rollback sv (Cloud_snapshot s) w = (w1, r) \<Longrightarrow> gcloud_rollback (sv_home sv) s (ho_fs w) = (ho_fs w1, r)"
  by (auto simp: cloud_rollback_def Let_def split: prod.splits)

lemma cloud_rollback_text:
  assumes "cloud_rollback sv s w = (w1, r)"
  shows "q \<noteq> gcloud_active_config_path (sv_home sv) \<Longrightarrow> file_text (ho_fs w1) q = file_text (ho_fs w) q"
    and "fs_no_stat (ho_fs w1) = fs_no_stat (ho_fs w)"
proof -
  consider (cloud) cs where "s = Cloud_snapshot cs" | (other) "w1 = w"
    using assms by (cases s) (auto simp: cloud_rollback_def)
  then have *: "(q \<noteq> gcloud_active_config_path (sv_home sv) \<longrightarrow> file_text (ho_fs w1) q = file_text (ho_fs w) q)
      \<and> fs_no_stat (ho_fs w1) = fs_no_stat (ho_fs w)"
  proof cases
    case cloud
    from cloud_rollback_fs [OF assms [unfolded cloud]] gcloud_rollback_text(1,2) show ?thesis by blast
  qed simp
  show "q \<noteq> gcloud_active_config_path (sv_home sv) \<Longrightarrow> file_text (ho_fs w1) q = file_text (ho_fs w) q"
    and "fs_no_stat (ho_fs w1) = fs_no_stat (ho_fs w)" using * by auto
qed

section \<open>Kubeconfig\<close>

lemma write_kubeconfig_cases:
  assumes "write_kubeconfig sv path ctx fs = (fs', r)"
  obtains (failed) "r \<noteq> None" "fs_no_stat fs' = fs_no_stat fs" "\<And>q. q \<noteq> path @ ''.aish-tmp'' \<Longrightarrow> file_text fs' q = file_text fs q"
  | (ok) raw root root1 out where "r = None" "fs_no_stat fs' = fs_no_stat fs" "os_read_file fs path = Inr raw"
      "sv_yaml_parse sv raw = Inr root" "set_mapping_scalar root ''current-context'' ctx = Inr root1" "sv_yaml_print sv root1 = Inr out"
      "\<And>q. q \<noteq> path @ ''.aish-tmp'' \<Longrightarrow> file_text fs' q = (if q = path then Some out else file_text fs q)"
proof (cases "\<exists>raw root root1 out. os_read_file fs path = Inr raw \<and> sv_yaml_parse sv raw = Inr root
    \<and> set_mapping_scalar root ''current-context'' ctx = Inr root1 \<and> sv_yaml_print sv root1 = Inr out")
  case False
  then have "r \<noteq> None" "fs' = fs" using assms by (auto simp: write_kubeconfig_def split: sum.splits)
  then show ?thesis using failed by simp
next
  case True
  then obtain raw root root1 out where y: "os_read_file fs path = Inr raw" "sv_yaml_parse sv raw = Inr root"
    "set_mapping_scalar root ''current-context'' ctx = Inr root1" "sv_yaml_print sv root1 = Inr out" by blast
  let ?tmp = "path @ ''.aish-tmp''"
  obtain fs1 e1 where w: "os_write_file fs ?tmp out = (fs1, e1)" by fastforce
  obtain fs2 e2 where m: "os_rename fs1 ?tmp path = (fs2, e2)" by fastforce
  note text1 = os_write_file_text [OF w] os_write_file_stat [OF w]
  show ?thesis
  proof (cases "e1 = None \<and> e2 = None")
    case True
    then have r: "r = None" "fs' = fs2" using assms y w m by (auto simp: write_kubeconfig_def)
    from m have "file_text fs2 q = (if q = path then Some out else file_text fs q)" if "q \<noteq> ?tmp" for q
    proof (cases rule: os_rename_cases)
      case (ok c)
      then show ?thesis using text1 True that by simp
    qed (use True in simp)
    moreover have "fs_no_stat fs2 = fs_no_stat fs" using text1(2) os_rename_stat [OF m] by simp
    ultimately show ?thesis using r y by (intro ok [of raw root root1 out]) simp_all
  next
    case False
    have r: "r \<noteq> None" "fs' = (if e1 = None then fs2 else fs1)" using assms y w m False by (auto simp: write_kubeconfig_def split: option.splits)
    have "fs2 = fs1" if "e1 = None" using m False that by (cases rule: os_rename_cases) auto
    then have "fs' = fs1" using r by auto
    then show ?thesis using r(1) text1 failed by simp
  qed
qed

lemma kube_apply_text:
  assumes "kube_apply sv p w = (w1, r)" "q \<noteq> resolve_config_path sv @ ''.aish-tmp''"
  shows "q \<noteq> resolve_config_path sv \<or> r \<noteq> None \<Longrightarrow> file_text (ho_fs w1) q = file_text (ho_fs w) q"
    and "fs_no_stat (ho_fs w1) = fs_no_stat (ho_fs w)"
proof -
  consider (same) "ho_fs w1 = ho_fs w" | (wrote) ctx where "write_kubeconfig sv (resolve_config_path sv) ctx (ho_fs w) = (ho_fs w1, r)"
    using assms(1) by (auto simp: kube_apply_def Let_def split: option.splits sum.splits prod.splits if_splits)
  then have *: "(q \<noteq> resolve_config_path sv \<or> r \<noteq> None \<longrightarrow> file_text (ho_fs w1) q = file_text (ho_fs w) q)
      \<and> fs_no_stat (ho_fs w1) = fs_no_stat (ho_fs w)"
  proof cases
    case wrote
    then show ?thesis using assms(2) by (cases rule: write_kubeconfig_cases) auto
  qed simp
  show "q \<noteq> resolve_config_path sv \<or> r \<noteq> None \<Longrightarrow> file_text (ho_fs w1) q = file_text (ho_fs w) q"
    and "fs_no_stat (ho_fs w1) = fs_no_stat (ho_fs w)" using * by auto
qed

lemma kube_rollback_text:
  assumes "kube_rollback sv s w = (w1, r)" "snapshot_of (host_adapter sv Kube) s" "files_apart sv"
  shows "q \<noteq> resolve_config_path sv @ ''.aish-tmp'' \<Longrightarrow> q \<noteq> resolve_config_path sv \<Longrightarrow> file_text (ho_fs w1) q = file_text (ho_fs w) q"
    and "fs_no_stat (ho_fs w1) = fs_no_stat (ho_fs w)"
proof -
  obtain c h where s: "s = Kube_snapshot c h (resolve_config_path sv)" "resolve_config_path sv \<noteq> []"
    using assms(2,3) json_text_valid [of "resolve_config_path sv"]
    by (auto simp: snapshot_of_def kube_capture_def files_apart_def Let_def split: if_splits sum.splits os_error.splits)
  consider (same) "ho_fs w1 = ho_fs w" | (wrote) e where "write_kubeconfig sv (resolve_config_path sv) c (ho_fs w) = (ho_fs w1, e)"
    using assms(1) s by (auto simp: kube_rollback_def Let_def split: option.splits sum.splits prod.splits if_splits)
  then have *: "(q \<noteq> resolve_config_path sv @ ''.aish-tmp'' \<longrightarrow> q \<noteq> resolve_config_path sv \<longrightarrow> file_text (ho_fs w1) q = file_text (ho_fs w) q)
      \<and> fs_no_stat (ho_fs w1) = fs_no_stat (ho_fs w)"
  proof cases
    case wrote
    then show ?thesis by (cases rule: write_kubeconfig_cases) auto
  qed simp
  show "q \<noteq> resolve_config_path sv @ ''.aish-tmp'' \<Longrightarrow> q \<noteq> resolve_config_path sv \<Longrightarrow> file_text (ho_fs w1) q = file_text (ho_fs w) q"
    and "fs_no_stat (ho_fs w1) = fs_no_stat (ho_fs w)" using * by auto
qed

lemma kube_rollback_context:
  assumes "kube_rollback sv (Kube_snapshot c h (resolve_config_path sv)) w = (w1, None)" "yaml_laws sv" "resolve_config_path sv \<noteq> []"
  shows "kube_context sv (ho_fs w1) = Some c"
proof -
  let ?p = "resolve_config_path sv"
  obtain raw d where raw: "os_read_file (ho_fs w) ?p = Inr raw" "parse_kubeconfig sv raw = Inr d"
      and wr: "write_kubeconfig sv ?p c (ho_fs w) = (ho_fs w1, None)"
    using assms(1,3) by (auto simp: kube_rollback_def Let_def split: option.splits sum.splits prod.splits if_splits)
  from wr show ?thesis
  proof (cases rule: write_kubeconfig_cases)
    case (ok raw' root root1 out)
    then have "sv_kube_doc sv root = Inr d" using raw by (simp add: parse_kubeconfig_def)
    then have "sv_kube_doc sv root1 = Inr (d\<lparr>kd_current_context := c\<rparr>)" using ok(5) assms(2) by (auto simp: yaml_laws_def)
    then obtain m where "sv_yaml_parse sv out = Inr m" "sv_kube_doc sv m = Inr (d\<lparr>kd_current_context := c\<rparr>)"
      using ok(6) assms(2) unfolding yaml_laws_def by metis
    then show ?thesis using ok(7) [of ?p] by (simp add: kube_context_def parse_kubeconfig_def)
  qed simp
qed

section \<open>Git\<close>

lemma git_get_conf:
  assumes "git_laws sv conf" "k \<in> set git_keys" "git_get sv k g = (g1, r)"
  shows "conf g1 = conf g" and "r = Inr out \<Longrightarrow> \<exists>v. conf g k = Some v \<and> out = v @ [CHR 0x0A]"
    and "r = Inl Git_key_missing \<Longrightarrow> conf g k = None"
  using assms by (auto simp: git_laws_def)

lemma git_capture_keys_conf:
  "git_laws sv conf \<Longrightarrow> set ks \<subseteq> set git_keys \<Longrightarrow> git_capture_keys sv ks g = (g1, r) \<Longrightarrow>
     conf g1 = conf g \<and> (\<forall>xs. r = Inr xs \<longrightarrow> xs = map (\<lambda>k. git_entry (conf g k)) ks)"
proof (induction ks arbitrary: g g1 r)
  case (Cons k ks)
  obtain g2 o1 where c: "git_get sv k g = (g2, o1)" by fastforce
  have k: "k \<in> set git_keys" "set ks \<subseteq> set git_keys" using Cons.prems(2) by auto
  note conf = git_get_conf [OF Cons.prems(1) k(1) c]
  obtain g3 r3 where d: "git_capture_keys sv ks g2 = (g3, r3)" by fastforce
  note IH = Cons.IH [OF Cons.prems(1) k(2) d]
  consider (missing) "o1 = Inl Git_key_missing" | (failed) t where "o1 = Inl (Git_error t)" | (found) out where "o1 = Inr out"
    by (metis git_error.exhaust sum.exhaust)
  then show ?case
  proof cases
    case missing
    then show ?thesis using Cons.prems(3) c d conf IH by (auto simp: git_entry_def split: sum.splits)
  next
    case failed
    then show ?thesis using Cons.prems(3) c conf by auto
  next
    case found
    then obtain v where "conf g k = Some v" "out = v @ [CHR 0x0A]" using conf(2) by blast
    then show ?thesis using Cons.prems(3) c d conf(1) IH found by (auto simp: git_entry_def split: sum.splits)
  qed
qed auto

lemma git_check_conf: "git_laws sv conf \<Longrightarrow> k \<in> set git_keys \<Longrightarrow> git_check sv k v g = (g1, r) \<Longrightarrow> conf g1 = conf g"
  using git_get_conf(1) by (fastforce simp: git_check_def split: prod.splits sum.splits)

lemma git_verify_conf:
  assumes "git_laws sv conf"
  shows "conf (ho_git (fst (git_verify sv p w))) = conf (ho_git w)"
proof (cases "xb_git p")
  case (Some b)
  obtain g1 r1 where 1: "git_check sv ''user.name'' (gb_user_name b) (ho_git w) = (g1, r1)" by fastforce
  obtain g2 r2 where 2: "git_check sv ''user.email'' (gb_user_email b) g1 = (g2, r2)" by fastforce
  obtain g3 r3 where 3: "git_get sv ''user.signingkey'' g2 = (g3, r3)" by fastforce
  have "conf g1 = conf (ho_git w)" "conf g2 = conf g1" "conf g3 = conf g2"
    using git_check_conf [OF assms _ 1] git_check_conf [OF assms _ 2] git_get_conf(1) [OF assms _ 3] by (simp_all add: git_keys_def)
  then show ?thesis using Some 1 2 3 by (auto simp: git_verify_def split: option.split sum.split git_error.split)
qed (simp add: git_verify_def)

text \<open>When git accepts the writes, \<open>Apply\<close> either changes nothing or succeeds.\<close>

lemma git_apply_conf:
  assumes "git_laws sv conf" "git_writes sv" "git_apply sv p w = (w1, Some e)"
  shows "ho_git w1 = ho_git w"
proof -
  have s: "\<exists>g' v'. git_set sv k v g = (g', Inr v')" if "k \<in> set git_keys" for k v g
  proof (cases "git_set sv k v g")
    case (Pair g' r)
    moreover have "is_ok (snd (git_set sv k v g))" using assms(2) that by (simp add: git_writes_def)
    ultimately show ?thesis by (cases r) auto
  qed
  have u: "snd (git_unset sv k g) = None" if "k \<in> set git_keys" for k g using assms(2) that by (simp add: git_writes_def)
  show ?thesis
  proof (cases "xb_git p")
    case (Some b)
    have keys: "''user.name'' \<in> set git_keys" "''user.email'' \<in> set git_keys" "''user.signingkey'' \<in> set git_keys" by (simp_all add: git_keys_def)
    obtain g1 v1 where 1: "git_set sv ''user.name'' (gb_user_name b) (ho_git w) = (g1, Inr v1)" using s keys by blast
    obtain g2 v2 where 2: "git_set sv ''user.email'' (gb_user_email b) g1 = (g2, Inr v2)" using s keys by blast
    obtain g3 v3 where 3: "git_set sv ''user.signingkey'' (gb_signing_key b) g2 = (g3, Inr v3)" using s keys by blast
    obtain g4 where 4: "git_unset sv ''user.signingkey'' g2 = (g4, None)" using u keys by (metis prod.collapse)
    show ?thesis using assms(3) Some 1 2 3 4 by (auto simp: git_apply_def split: option.splits if_splits)
  qed (use assms(3) in \<open>simp add: git_apply_def\<close>)
qed

lemma git_unset_conf: "git_laws sv conf \<Longrightarrow> k \<in> set git_keys \<Longrightarrow> git_unset sv k g = (g1, None) \<Longrightarrow> conf g1 = (conf g)(k := None)"
proof -
  assume l: "git_laws sv conf" "k \<in> set git_keys" and u: "git_unset sv k g = (g1, None)"
  obtain g' r where c: "sv_git sv [''config'', ''--global'', ''--unset-all'', k] g = (g', r)" by fastforce
  then have law: "conf g' = (case r of Inr _ \<Rightarrow> (conf g)(k := None) | Inl _ \<Rightarrow> conf g)"
      "r = Inl (Git_error t) \<Longrightarrow> str_contains t ''exit status 5'' \<Longrightarrow> conf g k = None" for t
    using l by (auto simp: git_laws_def)
  show ?thesis
  proof (cases r)
    case (Inl e)
    then obtain t where "r = Inl (Git_error t)" "str_contains t ''exit status 5''" "g1 = g'"
      using u c by (cases e) (auto simp: git_unset_def split: if_splits)
    then show ?thesis using law by (simp add: fun_upd_idem)
  next
    case (Inr v)
    then show ?thesis using u c law(1) by (simp add: git_unset_def)
  qed
qed

lemma git_restore_keys_conf:
  "git_laws sv conf \<Longrightarrow> set ks \<subseteq> set git_keys \<Longrightarrow> distinct ks \<Longrightarrow> length xs = length ks \<Longrightarrow> git_restore_keys sv (zip ks xs) g = (g1, None) \<Longrightarrow>
     map (conf g1) ks = map (\<lambda>(s, v). if s then Some v else None) xs \<and> (\<forall>k. k \<notin> set ks \<longrightarrow> conf g1 k = conf g k)"
proof (induction ks xs arbitrary: g rule: list_induct2')
  case (4 k ks x xs)
  obtain s v where x: "x = (s, v)" by fastforce
  obtain g2 where g2: "git_restore_keys sv (zip ks xs) g2 = (g1, None)" "conf g2 = (conf g)(k := (if s then Some v else None))"
  proof (cases s)
    case True
    obtain g2 r where c: "git_set sv k v g = (g2, r)" by fastforce
    then obtain out where "r = Inr out" "git_restore_keys sv (zip ks xs) g2 = (g1, None)" using "4.prems"(5) x True by (cases r) auto
    then show ?thesis using that [of g2] "4.prems"(1,2) c True by (auto simp: git_laws_def)
  next
    case False
    then obtain g2 where "git_unset sv k g = (g2, None)" "git_restore_keys sv (zip ks xs) g2 = (g1, None)"
      using "4.prems"(5) x by (auto split: prod.splits option.splits)
    then show ?thesis using that [of g2] git_unset_conf [OF "4.prems"(1), of k] "4.prems"(2) False by simp
  qed
  from "4.IH" [OF "4.prems"(1) _ _ _ g2(1)] "4.prems"(2-4) g2(2) x show ?case by auto
qed auto

lemma git_entry_plain: "(\<forall>v. x = Some v \<longrightarrow> clean_line v) \<Longrightarrow> (\<lambda>(s, v). if s then Some v else None) (git_entry x) = x"
  by (cases x) (auto simp: git_entry_def clean_line_def json_text_valid trim_right_set_def drop_tail_def)

lemma git_rollback_conf:
  assumes "git_laws sv conf" "git_rollback sv (Git_snapshot xs) w = (w1, None)" "length xs = 3"
  shows "map (conf (ho_git w1)) git_keys = map (\<lambda>(s, v). if s then Some v else None) xs"
proof -
  have "git_restore_keys sv (zip git_keys xs) (ho_git w) = (ho_git w1, None)"
    using assms(2) by (auto simp: git_rollback_def split: prod.splits)
  from git_restore_keys_conf [OF assms(1) _ _ _ this] assms(3) show ?thesis by (simp add: git_keys_def)
qed

section \<open>The contract\<close>

lemma host_capture_keeps:
  assumes "j \<in> sound_systems sv keys conf p"
  shows "host_part sv keys conf j (fst (ad_capture (host_adapter sv i) w)) = host_part sv keys conf j w"
proof (cases i)
  case Git
  have "conf (ho_git (fst (git_capture sv w))) = conf (ho_git w)" if "git_laws sv conf"
    using git_capture_keys_conf [OF that] by (auto simp: git_capture_def split: prod.splits sum.splits)
  then show ?thesis using assms Git by (cases j) (simp_all add: sound_systems_def capture_frame)
qed (simp_all add: capture_frame)

lemma host_capture_records:
  assumes "i \<in> sound_systems sv keys conf p" "ad_capture (host_adapter sv i) w = (w1, Inr s)"
  shows "host_recorded sv i s (host_part sv keys conf i w)"
proof (cases i)
  case Cloud
  let ?q = "gcloud_active_config_path (sv_home sv)"
  have h: "sv_home sv \<noteq> []" using assms(1) Cloud by (simp add: sound_systems_def)
  consider (there) c where "os_read_file (ho_fs w) ?q = Inr c" | (absent) "os_read_file (ho_fs w) ?q = Inl Not_exist"
    using assms(2) Cloud h by (auto simp: cloud_capture_def Let_def split: sum.splits os_error.splits)
  then show ?thesis
  proof cases
    case there
    then have "seen_text (ho_fs w) ?q = Some c"
      by (auto simp: os_read_file_def os_open_node file_text_def seen_text_def split: sum.splits node.splits)
    moreover have "\<exists>cs. s = Cloud_snapshot cs \<and> cs_gcloud_existed cs \<and> cs_gcloud cs = json_text (trim_space c)"
      using assms(2) Cloud h there by (simp add: cloud_capture_def Let_def) (metis cloud_snapshot.select_convs(1,2))
    ultimately show ?thesis using Cloud by auto
  next
    case absent
    then have "seen_text (ho_fs w) ?q = None" using os_read_absent by (simp add: seen_text_def)
    moreover have "\<exists>cs. s = Cloud_snapshot cs \<and> \<not> cs_gcloud_existed cs"
      using assms(2) Cloud h absent by (simp add: cloud_capture_def Let_def) (metis cloud_snapshot.select_convs(2))
    ultimately show ?thesis using Cloud by auto
  qed
next
  case Kube
  then show ?thesis using assms(2)
    by (auto simp: kube_capture_def Let_def kube_context_def dest!: os_read_file_text split: if_splits sum.splits os_error.splits)
next
  case Git
  then have "git_laws sv conf" using assms(1) by (simp add: sound_systems_def)
  moreover obtain g1 r where c: "git_capture_keys sv git_keys (ho_git w) = (g1, r)" by fastforce
  moreover from c obtain xs where "r = Inr xs" "s = Git_snapshot xs"
    using assms(2) Git by (cases r) (simp_all add: git_capture_def split: if_splits)
  ultimately have "s = Git_snapshot (map (git_entry \<circ> conf (ho_git w)) git_keys)" using git_capture_keys_conf [of sv conf git_keys "ho_git w" g1 r] by (simp add: comp_def)
  then show ?thesis using Git by (simp add: git_keys_def)
qed simp

lemma kube_context_cong: "file_text fs' (resolve_config_path sv) = file_text fs (resolve_config_path sv) \<Longrightarrow> kube_context sv fs' = kube_context sv fs"
  by (simp add: kube_context_def)

lemma host_apply_keeps:
  assumes "j \<in> sound_systems sv keys conf p" "ad_apply (host_adapter sv i) p w = (w1, r)" "i \<noteq> j \<or> r \<noteq> None"
  shows "host_part sv keys conf j w1 = host_part sv keys conf j w"
proof (cases i)
  case Ssh
  have "w1 = fst (ssh_apply sv p w)" using assms(2) Ssh by simp
  then show ?thesis using assms Ssh apply_frame(1,2) [of sv p w] ssh_apply_keys(1) [of sv keys p w w1 r]
    by (cases j) (auto simp: sound_systems_def)
next
  case Cloud
  then have c: "cloud_apply sv p w = (w1, r)" using assms(2) by simp
  then have "w1 = fst (cloud_apply sv p w)" by simp
  then show ?thesis using assms(1,3) Cloud apply_frame(3-5) [of sv p w] cloud_apply_text [OF c]
    by (cases j) (auto simp: sound_systems_def files_apart_def intro!: seen_text_cong kube_context_cong)
next
  case Kube
  then have c: "kube_apply sv p w = (w1, r)" using assms(2) by simp
  then have "w1 = fst (kube_apply sv p w)" by simp
  then show ?thesis using assms(1,3) Kube apply_frame(6-8) [of sv p w] kube_apply_text [OF c]
    by (cases j) (auto simp: sound_systems_def files_apart_def intro!: seen_text_cong kube_context_cong)
next
  case Git
  then have c: "git_apply sv p w = (w1, r)" using assms(2) by simp
  then have "w1 = fst (git_apply sv p w)" by simp
  then show ?thesis using assms(1,3) Git c apply_frame(9-11) [of sv p w] git_apply_conf [of sv conf p w w1]
    by (cases j) (auto simp: sound_systems_def)
qed

lemma host_apply_reaches:
  assumes "i \<in> sound_systems sv keys conf p" "ad_apply (host_adapter sv i) p w = (w1, None)"
  shows "host_reached sv p i (host_part sv keys conf i w) (host_part sv keys conf i w1)"
  using assms ssh_apply_keys(2) [of sv keys p w w1 None] by (cases i) (auto simp: sound_systems_def)

lemma host_verify_keeps:
  assumes "j \<in> sound_systems sv keys conf p"
  shows "host_part sv keys conf j (fst (ad_verify (host_adapter sv i) p w)) = host_part sv keys conf j w"
  using assms git_verify_conf [of sv conf p w] by (cases i; cases j) (simp_all add: sound_systems_def verify_frame)

lemma host_rollback_keeps:
  assumes "j \<in> sound_systems sv keys conf p" "i \<noteq> j" "snapshot_of (host_adapter sv i) s"
  shows "host_part sv keys conf j (fst (ad_rollback (host_adapter sv i) s w)) = host_part sv keys conf j w"
proof -
  obtain w1 r where w1: "ad_rollback (host_adapter sv i) s w = (w1, r)" by fastforce
  then have fst: "w1 = fst (ad_rollback (host_adapter sv i) s w)" by simp
  have "host_part sv keys conf j w1 = host_part sv keys conf j w"
  proof (cases i)
    case Ssh
    then show ?thesis using fst assms(2) rollback_frame(1,2) [of sv s w] by (cases j) simp_all
  next
    case Cloud
    then have c: "cloud_rollback sv s w = (w1, r)" using w1 by simp
    show ?thesis using fst Cloud assms(1,2) rollback_frame(3-5) [of sv s w] cloud_rollback_text [OF c]
      by (cases j) (auto simp: sound_systems_def files_apart_def intro!: kube_context_cong)
  next
    case Kube
    then have c: "kube_rollback sv s w = (w1, r)" "snapshot_of (host_adapter sv Kube) s" using w1 assms(3) by simp_all
    show ?thesis using fst Kube assms(1,2) rollback_frame(6-8) [of sv s w] kube_rollback_text [OF c]
      by (cases j) (auto simp: sound_systems_def files_apart_def intro!: seen_text_cong)
  next
    case Git
    then show ?thesis using fst assms(2) rollback_frame(9-11) [of sv s w] by (cases j) simp_all
  qed
  then show ?thesis using w1 by simp
qed

lemma host_rollback_restores:
  assumes "i \<in> sound_systems sv keys conf p" "host_recorded sv i s v" "host_plain sv p i v"
    "host_reached sv p i v (host_part sv keys conf i w)" "ad_rollback (host_adapter sv i) s w = (w1, None)"
  shows "host_part sv keys conf i w1 = v"
proof (cases i)
  case Ssh
  then obtain ks a where "v = Agent_view ks a" using assms(2) by (auto simp del: host_plain.simps)
  then have v: "v = Agent_view ks []" "persona_key sv p \<notin> ks" using assms(3) Ssh by simp_all
  then show ?thesis using assms Ssh ssh_rollback_keys [of sv keys s w w1 "persona_key sv p" ks] by (auto simp: sound_systems_def)
next
  case Cloud
  then obtain cs where cs: "s = Cloud_snapshot cs" "sv_home sv \<noteq> []"
      "if cs_gcloud_existed cs then \<exists>c. v = File_view (Some c) \<and> cs_gcloud cs = json_text (trim_space c) else v = File_view None"
    using assms(1,2) by (auto simp: sound_systems_def)
  then have "cloud_rollback sv (Cloud_snapshot cs) w = (w1, None)" using assms(5) Cloud by simp
  from gcloud_rollback_text(3) [OF cloud_rollback_fs [OF this]] show ?thesis using cs assms(3) Cloud by (auto split: if_splits)
next
  case Kube
  then obtain c h where s: "v = Context_view (Some c)" "s = Kube_snapshot c h (resolve_config_path sv)" "yaml_laws sv" "resolve_config_path sv \<noteq> []"
    using assms(1,2,3) json_text_valid by (auto simp: sound_systems_def files_apart_def)
  then show ?thesis using kube_rollback_context [of sv c h w w1] assms(5) Kube by simp
next
  case Git
  then obtain vs where vs: "v = Values_view vs" "length vs = 3" "s = Git_snapshot (map git_entry vs)" "git_laws sv conf"
    using assms(1,2) by (auto simp: sound_systems_def)
  have "\<forall>x \<in> set vs. \<forall>v. x = Some v \<longrightarrow> clean_line v" using assms(3) vs(1) Git by (auto simp: list_all_iff)
  then have "map ((\<lambda>(s, v). if s then Some v else None) \<circ> git_entry) vs = vs"
    using git_entry_plain by (intro map_idI) (simp add: o_def)
  then show ?thesis using git_rollback_conf [OF vs(4), of "map git_entry vs" w w1] assms(5) Git vs by simp
qed

interpretation sw: switch_laws "host_adapter sv" p "host_part sv keys conf" "host_plain sv p" "sound_systems sv keys conf p"
    "host_recorded sv" "host_reached sv p" for sv keys conf p
  by (rule switch_laws.intro)
    (fact host_capture_keeps host_capture_records host_apply_keeps host_apply_reaches host_verify_keeps host_rollback_keeps
      host_rollback_restores)+

section \<open>Properties\<close>

lemma switch_errors: "execute_switch as p w = (w', oc, errs) \<Longrightarrow> errs \<noteq> [] \<Longrightarrow> set (oc_rollback_errors oc) \<subseteq> set errs"
  by (auto simp: execute_switch_def no_outcome_def Let_def split: if_splits prod.splits sum.splits)

lemma distinct_bound_systems: "distinct (bound_systems p)"
  by (auto simp: bound_systems_def)


section \<open>A sample host\<close>

text \<open>An agent that is a list of keys, git as a list of settings, and YAML files that hold nothing but the context.\<close>

definition sample_git :: "string list \<Rightarrow> (string \<times> string) list \<Rightarrow> (string \<times> string) list \<times> (git_error + string)" where
  "sample_git args g =
     (case args of
        [_, _, c, k] \<Rightarrow>
          if c = ''--get''
          then (g, case map_of g k of None \<Rightarrow> Inl Git_key_missing | Some v \<Rightarrow> Inr (v @ [CHR 0x0A]))
          else if c = ''--unset-all''
          then (filter (\<lambda>(q, _). q \<noteq> k) g, if map_of g k = None then Inl (Git_error ''exit status 5'') else Inr [])
          else ((c, k) # g, Inr [])
      | _ \<Rightarrow> (g, Inl (Git_error ''usage'')))"

fun scalar_pair :: "yaml list \<Rightarrow> string option" where
  "scalar_pair (k # v # rest) = (if y_kind k = Y_scalar \<and> y_value k = ''current-context'' then Some (y_value v) else scalar_pair rest)"
| "scalar_pair _ = None"

definition sample_doc :: "yaml \<Rightarrow> string + kube_doc" where
  "sample_doc n =
     (case y_content n of
        m # _ \<Rightarrow> (case scalar_pair (y_content m) of
           Some v \<Rightarrow> Inr \<lparr>kd_current_context = v, kd_contexts = [''dev'', ''prod'']\<rparr> | None \<Rightarrow> Inl ''no context'')
      | [] \<Rightarrow> Inl ''no document'')"

definition sample_services :: "(string, string list, (string \<times> string) list, unit) services" where
  "sample_services =
     \<lparr>sv_keys = Some (\<lambda>l. Inr l), sv_parse_key = Inr, sv_fingerprint = (\<lambda>k. if k = [] then Inl ''no key'' else Inr k),
      sv_dial = (\<lambda>_. None), sv_agent_list = Inr, sv_agent_add = (\<lambda>k l a. if k = [] then (a, Some ''no key'') else (k # a, None)),
      sv_agent_remove = (\<lambda>f a. (removeAll f a, None)), sv_home = ''/h'', sv_config_path = ''/h/kube'', sv_kubeconfig = [],
      sv_yaml_parse = (\<lambda>s. Inr (Yaml Y_document [] [] [Yaml Y_mapping [] [] [yaml_text ''current-context'', yaml_text s]])),
      sv_yaml_print = (\<lambda>n. map_sum id kd_current_context (sample_doc n)), sv_kube_doc = sample_doc, sv_hash = id,
      sv_git_found = (\<lambda>_. True), sv_git = sample_git, sv_az_found = (\<lambda>_. True), sv_az = (\<lambda>_ z. (z, None))\<rparr>"

definition sample_bindings :: external_bindings where
  "sample_bindings =
     \<lparr>xb_ssh = Some \<lparr>sb_key_label = ''work'', sb_lifetime = 3600\<rparr>, xb_cloud = Some \<lparr>cb_gcloud = ''work'', cb_aws = ''sso'', cb_azure = []\<rparr>,
      xb_kube = Some \<lparr>kb_context = ''gone''\<rparr>, xb_git = Some \<lparr>gb_scope = [], gb_user_name = ''A'', gb_user_email = ''a@b'', gb_signing_key = []\<rparr>\<rparr>"

definition sample_host :: "(string list, (string \<times> string) list, unit) host" where
  "sample_host =
     \<lparr>ho_fs = \<lparr>fs_nodes = [(''/h'', Dir_node), (''/h/.config'', Dir_node), (''/h/.config/gcloud'', Dir_node),
         (''/h/.config/gcloud/active_config'', File_node (''home'' @ [CHR 0x0A])), (''/h/kube'', File_node ''dev'')],
         fs_no_stat = [], fs_no_read = [], fs_no_write = [], fs_ticks = 0\<rparr>,
      ho_agent = [''own''], ho_added = [], ho_env = new_env_session, ho_az = (), ho_digest = [], ho_git = [(''user.name'', ''Me'')]\<rparr>"

lemma sample_agent_laws: "agent_laws sample_services set"
  by (auto simp: agent_laws_def sample_services_def split: if_splits)

lemma sample_set_pair: "scalar_pair (set_pair ''current-context'' v ms) = Some v \<or> scalar_pair ms = None"
  by (induction ms rule: scalar_pair.induct) (auto simp: yaml_text_def)

lemma sample_yaml_laws: "yaml_laws sample_services"
  unfolding yaml_laws_def
proof (intro conjI allI impI)
  fix n out assume "sv_yaml_print sample_services n = Inr out"
  then obtain d where "sample_doc n = Inr d" "out = kd_current_context d"
    by (cases "sample_doc n") (auto simp: sample_services_def)
  then show "\<exists>m. sv_yaml_parse sample_services out = Inr m \<and> sv_kube_doc sample_services m = sv_kube_doc sample_services n"
    by (auto simp: sample_services_def sample_doc_def yaml_text_def split: list.splits option.splits)
next
  fix n d v m assume d: "sv_kube_doc sample_services n = Inr d" and m: "set_mapping_scalar n ''current-context'' v = Inr m"
  obtain t x mt mx ms rest where n: "n = Yaml Y_document t x (Yaml Y_mapping mt mx ms # rest)"
      "m = Yaml Y_document t x (Yaml Y_mapping mt mx (set_pair ''current-context'' v ms) # rest)"
    using m by (auto simp: set_mapping_scalar_def split: yaml.splits list.splits if_splits)
  have "scalar_pair ms \<noteq> None" "d = \<lparr>kd_current_context = the (scalar_pair ms), kd_contexts = [''dev'', ''prod'']\<rparr>"
    using d n(1) by (auto simp: sample_services_def sample_doc_def split: option.splits)
  then show "sv_kube_doc sample_services m = Inr (d\<lparr>kd_current_context := v\<rparr>)"
    using n(2) sample_set_pair [of v ms] by (auto simp: sample_services_def sample_doc_def)
qed

lemma sample_git_laws: "git_laws sample_services map_of" "git_writes sample_services"
  unfolding git_laws_def git_writes_def git_get_def git_set_def git_unset_def
  by (auto simp: sample_services_def sample_git_def git_keys_def map_of_filter_key fun_eq_iff is_ok_def split: option.splits)

lemma sample_sound: "i \<in> sound_systems sample_services set map_of sample_bindings"
proof -
  have "files_apart sample_services" by code_simp
  then show ?thesis using sample_agent_laws sample_yaml_laws sample_git_laws
    by (cases i) (simp_all add: sound_systems_def sample_bindings_def, simp add: sample_services_def)
qed


section \<open>Where a switch is not undone\<close>

text \<open>
  When git refuses the address, the name it accepted before stays, and no rollback error is reported: only
  adapters that were applied are rolled back.
\<close>

lemma git_apply_not_undone:
  "(let sv = sample_services\<lparr>sv_git := (\<lambda>args g. if List.member args ''user.email'' \<and> \<not> List.member args ''--get'' then (g, Inl (Git_error ''locked'')) else sample_git args g)\<rparr>;
        p = sample_bindings\<lparr>xb_ssh := None, xb_cloud := None, xb_kube := None\<rparr>
    in case execute_switch (build_adapters sv p) p sample_host of
         (w', oc, errs) \<Rightarrow> errs = [Apply_error ''git'' (Adapter_failed ''locked'')] \<and> oc_rollback_errors oc = [] \<and> ho_git w' \<noteq> ho_git sample_host)"
  by code_simp

text \<open>A key that was in the agent before the switch is gone after its rollback.\<close>

lemma loaded_key_removed:
  "ho_agent (fst (execute_switch (build_adapters sample_services sample_bindings) sample_bindings (sample_host\<lparr>ho_agent := [''work'']\<rparr>))) = []"
  by code_simp

text \<open>A lifetime of \<open>2\<^sup>3\<^sup>2\<close> seconds is none: the agent keeps the key.\<close>

lemma lifetime_wraps: "ssh_lifetime (2 ^ 32) = 0"
  by (simp add: ssh_lifetime_def)

end
