(* ===== verification/Active_Config.thy ===== *)
theory Active_Config
  imports File_Ops Go_Scan
begin

text \<open>
  The choice of a persona and of a theme in \<^verbatim>\<open>~/.aish/config.toml\<close>
  (\<^verbatim>\<open>shell/internal/persona/config.go\<close>, \<^verbatim>\<open>shell/internal/theme/config.go\<close>): one reader and one
  merging writer, for the name of a section. What is written is read back, and the other sections read
  as before.
\<close>

section \<open>Lines of the file\<close>

text \<open>The name in a line \<open>[name]\<close>.\<close>

definition section_header :: "string \<Rightarrow> string option" where
  "section_header line =
     (if has_prefix line ''['' \<and> has_suffix line '']'' then Some (trim_space (butlast (tl line))) else None)"

definition unquote_double :: "string \<Rightarrow> string" where
  "unquote_double v = (if 2 \<le> length v \<and> hd v = CHR 0x22 \<and> last v = CHR 0x22 then butlast (tl v) else v)"

text \<open>
  The loop of \<open>ReadActivePersona\<close> and \<open>ReadActiveTheme\<close>; \<open>val\<close> is what they do to the value, and
  \<open>cur\<close> is the section.
\<close>

fun read_active_lines :: "(string \<Rightarrow> string) \<Rightarrow> string \<Rightarrow> string \<Rightarrow> string list \<Rightarrow> string" where
  "read_active_lines val sec cur [] = []"
| "read_active_lines val sec cur (raw # raws) =
     (let line = trim_space raw in
      if line = [] \<or> has_prefix line ''#'' then read_active_lines val sec cur raws
      else (case section_header line of
        Some s \<Rightarrow> read_active_lines val sec s raws
      | None \<Rightarrow>
          if cur \<noteq> sec then read_active_lines val sec cur raws
          else (case cut line ''='' of
            (k, v, found) \<Rightarrow>
              if \<not> found then read_active_lines val sec cur raws
              else if trim_space k = ''active'' then val (trim_space v)
              else read_active_lines val sec cur raws)))"

definition config_dir :: "string \<Rightarrow> string" where
  "config_dir home = path_join home ''.aish''"

definition config_path :: "string \<Rightarrow> string" where
  "config_path home = path_join (config_dir home) ''config.toml''"

definition read_active :: "(string \<Rightarrow> string) \<Rightarrow> string \<Rightarrow> os_state \<Rightarrow> string \<Rightarrow> string" where
  "read_active val sec fs home =
     (if home = [] then []
      else (case os_read_file fs (config_path home) of
        Inl _ \<Rightarrow> []
      | Inr t \<Rightarrow> read_active_lines val sec [] (fst (scan_raw_lines t))))"

definition read_active_persona :: "os_state \<Rightarrow> string \<Rightarrow> string" where
  "read_active_persona = read_active unquote_double ''persona''"

definition read_active_theme :: "os_state \<Rightarrow> string \<Rightarrow> string" where
  "read_active_theme = read_active (\<lambda>v. unquote_double (trim_space v)) ''theme''"

text \<open>The first header of the section and the first line with the key: their indices.\<close>

fun find_active :: "string \<Rightarrow> nat \<Rightarrow> string \<Rightarrow> nat option \<Rightarrow> string list \<Rightarrow> nat option \<times> nat option" where
  "find_active sec i cur start [] = (start, None)"
| "find_active sec i cur start (raw # raws) =
     (let line = trim_space raw in
      case section_header line of
        Some s \<Rightarrow> find_active sec (Suc i) s (if s = sec \<and> start = None then Some i else start) raws
      | None \<Rightarrow>
          if cur \<noteq> sec then find_active sec (Suc i) cur start raws
          else (case cut line ''='' of
            (k, _, found) \<Rightarrow>
              if \<not> found then find_active sec (Suc i) cur start raws
              else if trim_space k = ''active'' then (start, Some i)
              else find_active sec (Suc i) cur start raws))"

definition active_line :: "(rune \<Rightarrow> bool) \<Rightarrow> string \<Rightarrow> string" where
  "active_line pr name = ''active = '' @ go_quote pr name"

definition new_section :: "(rune \<Rightarrow> bool) \<Rightarrow> string \<Rightarrow> string \<Rightarrow> string" where
  "new_section pr sec name = ''['' @ sec @ '']'' @ [CHR 0x0A] @ active_line pr name @ [CHR 0x0A]"

text \<open>\<open>mergeActivePersona\<close>, \<open>mergeActiveTheme\<close>\<close>

definition merge_active :: "(rune \<Rightarrow> bool) \<Rightarrow> string \<Rightarrow> string \<Rightarrow> string \<Rightarrow> string" where
  "merge_active pr sec existing name =
     (let ls = split_byte (CHR 0x0A) existing in
      case find_active sec 0 [] None ls of
        (_, Some k) \<Rightarrow> str_join [CHR 0x0A] (ls[k := active_line pr name])
      | (Some k, None) \<Rightarrow> str_join [CHR 0x0A] (take (Suc k) ls @ active_line pr name # drop (Suc k) ls)
      | (None, None) \<Rightarrow>
          (let t1 = (if has_suffix existing [CHR 0x0A] then existing else existing @ [CHR 0x0A]);
               t2 = (if trim_space t1 \<noteq> [] then t1 @ [CHR 0x0A] else t1)
           in t2 @ new_section pr sec name))"

datatype config_error = Home_unset | Empty_name | Create_dir_failed os_error | Read_failed os_error | Write_failed os_error

text \<open>\<open>WriteActivePersona\<close> and \<open>WriteActiveTheme\<close>; \<open>hdr\<close> is the comment of a fresh file.\<close>

definition write_active ::
  "(rune \<Rightarrow> bool) \<Rightarrow> string \<Rightarrow> string \<Rightarrow> os_state \<Rightarrow> string \<Rightarrow> string \<Rightarrow> os_state \<times> config_error option" where
  "write_active pr hdr sec fs home name =
     (if home = [] then (fs, Some Home_unset)
      else if name = [] then (fs, Some Empty_name)
      else (case os_mkdir_all fs (config_dir home) of
        (fs1, Some e) \<Rightarrow> (fs1, Some (Create_dir_failed e))
      | (fs1, None) \<Rightarrow>
          (let put = (\<lambda>t. case os_write_file fs1 (config_path home) t of
                 (fs2, Some e) \<Rightarrow> (fs2, Some (Write_failed e)) | (fs2, None) \<Rightarrow> (fs2, None))
           in case os_read_file fs1 (config_path home) of
                Inl Not_exist \<Rightarrow> put (hdr @ [CHR 0x0A, CHR 0x0A] @ new_section pr sec name)
              | Inl e \<Rightarrow> (fs1, Some (Read_failed e))
              | Inr t \<Rightarrow> put (merge_active pr sec t name))))"

definition write_active_persona :: "(rune \<Rightarrow> bool) \<Rightarrow> os_state \<Rightarrow> string \<Rightarrow> string \<Rightarrow> os_state \<times> config_error option" where
  "write_active_persona pr = write_active pr ''# aish config'' ''persona''"

definition write_active_theme :: "(rune \<Rightarrow> bool) \<Rightarrow> os_state \<Rightarrow> string \<Rightarrow> string \<Rightarrow> os_state \<times> config_error option" where
  "write_active_theme pr =
     write_active pr (''# aish config '' @ [CHR 0xE2, CHR 0x80, CHR 0x94] @ '' managed by `aish theme set`'') ''theme''"

section \<open>Reading lines\<close>

lemma trim_space_Nil [simp]: "trim_space [] = []"
  by (simp add: trim_space_def trim_right.simps)

lemma trim_right_prefix: "prefix (trim_right s) s"
proof (induction s rule: trim_right.induct)
  case (1 s)
  show ?case
  proof (cases "s = []")
    case False
    obtain r n where d: "decode_last s = (r, n)" by fastforce
    show ?thesis
    proof (cases "is_space r \<and> 0 < n")
      case True
      then have "prefix (trim_right (take (length s - n) s)) (take (length s - n) s)" using 1 False d by simp
      then show ?thesis using False d True by (subst trim_right.simps) (auto intro: prefix_order.trans take_is_prefix)
    qed (use False d in \<open>subst trim_right.simps, auto\<close>)
  qed (simp add: trim_right.simps)
qed

lemma hash_key: "has_prefix line ''#'' \<Longrightarrow> cut line ''='' = (k, v, True) \<Longrightarrow> trim_space k \<noteq> ''active''"
proof -
  assume h: "has_prefix line ''#''" and c: "cut line ''='' = (k, v, True)"
  then obtain i where i: "index_of line ''='' = Some i" "k = take i line" by (auto simp: cut_def split: option.splits)
  obtain cs where line: "line = CHR ''#'' # cs" using h by (cases line) auto
  then have "i \<noteq> 0" using i(1) by auto
  then obtain m where "k = CHR ''#'' # take m cs" using i(2) line by (cases i) auto
  then have "trim_left k = k" by (simp add: trim_left_id del: trim_left.simps) (subst trim_left_id; simp add: is_space_def)
  then have "prefix (trim_space k) k" unfolding trim_space_def using trim_right_prefix by metis
  then show ?thesis using \<open>k = CHR ''#'' # take m cs\<close> by (cases "trim_space k") auto
qed

definition active_value :: "string \<Rightarrow> string option" where
  "active_value line = (case cut line ''='' of (k, v, found) \<Rightarrow> if found \<and> trim_space k = ''active'' then Some v else None)"

lemma blank_line [simp]: "section_header [] = None" "active_value [] = None"
  by (simp_all add: section_header_def active_value_def cut_def)

lemma read_active_step:
  "read_active_lines val sec cur (raw # raws) =
     (case section_header (trim_space raw) of
        Some s \<Rightarrow> read_active_lines val sec s raws
      | None \<Rightarrow> (case active_value (trim_space raw) of
          Some v \<Rightarrow> if cur = sec then val (trim_space v) else read_active_lines val sec cur raws
        | None \<Rightarrow> read_active_lines val sec cur raws))"
proof (cases "trim_space raw = [] \<or> has_prefix (trim_space raw) ''#''")
  case True
  then have "section_header (trim_space raw) = None" by (cases "trim_space raw") (auto simp: section_header_def)
  moreover have "active_value (trim_space raw) = None"
    using True hash_key by (auto simp: active_value_def cut_def split: prod.splits option.splits)
  ultimately show ?thesis using True by (simp add: Let_def)
next
  case False
  then show ?thesis by (auto simp: Let_def active_value_def split: option.splits prod.splits)
qed

lemma find_active_step:
  "find_active sec i cur start (raw # raws) =
     (case section_header (trim_space raw) of
        Some s \<Rightarrow> find_active sec (Suc i) s (if s = sec \<and> start = None then Some i else start) raws
      | None \<Rightarrow> (case active_value (trim_space raw) of
          Some v \<Rightarrow> if cur = sec then (start, Some i) else find_active sec (Suc i) cur start raws
        | None \<Rightarrow> find_active sec (Suc i) cur start raws))"
  by (auto simp: Let_def active_value_def split: option.splits prod.splits)

section \<open>The three ways to merge\<close>

text \<open>A line that sets the key, in its section.\<close>

lemma active_replaced:
  assumes "section_header (trim_space new) = None" "active_value (trim_space new) = Some nv" "sec' \<noteq> sec"
  shows "find_active sec i cur start ls = (st, Some k) \<Longrightarrow>
    i \<le> k \<and> k < i + length ls \<and> read_active_lines val sec cur (ls[k - i := new]) = val (trim_space nv)
    \<and> read_active_lines val' sec' cur (ls[k - i := new]) = read_active_lines val' sec' cur ls"
proof (induction ls arbitrary: i cur start)
  case (Cons raw raws)
  let ?line = "trim_space raw"
  consider (here) v where "section_header ?line = None" "active_value ?line = Some v" "cur = sec" "k = i"
    | (later) cur1 start1 where "find_active sec (Suc i) cur1 start1 raws = (st, Some k)"
        "\<And>val sec0 rest. (cur = sec0 \<longrightarrow> section_header ?line = None \<longrightarrow> active_value ?line = None) \<Longrightarrow>
          read_active_lines val sec0 cur (raw # rest) = read_active_lines val sec0 cur1 rest"
        "cur = sec \<longrightarrow> section_header ?line = None \<longrightarrow> active_value ?line = None"
    using Cons.prems unfolding find_active_step read_active_step
    by (cases "section_header ?line"; cases "active_value ?line"; cases "cur = sec") auto
  then show ?case
  proof cases
    case here
    then show ?thesis using assms by (simp add: read_active_step del: read_active_lines.simps)
  next
    case later
    have IH: "Suc i \<le> k" "k < Suc i + length raws" "read_active_lines val sec cur1 (raws[k - Suc i := new]) = val (trim_space nv)"
      "read_active_lines val' sec' cur1 (raws[k - Suc i := new]) = read_active_lines val' sec' cur1 raws"
      using Cons.IH [OF later(1)] by auto
    have "k - i = Suc (k - Suc i)" using IH(1) by simp
    then have upd: "(raw # raws)[k - i := new] = raw # raws[k - Suc i := new]" by simp
    have "read_active_lines val' sec' cur (raw # raws[k - Suc i := new]) = read_active_lines val' sec' cur (raw # raws)"
    proof (cases "cur = sec' \<longrightarrow> section_header ?line = None \<longrightarrow> active_value ?line = None")
      case True
      then show ?thesis using later(2) [of sec' val'] IH(4) by simp
    next
      case False
      then show ?thesis by (auto simp: read_active_step simp del: read_active_lines.simps)
    qed
    moreover have "read_active_lines val sec cur (raw # raws[k - Suc i := new]) = val (trim_space nv)"
      using later(2) [of sec val] later(3) IH(3) by simp
    ultimately show ?thesis using IH(1,2) upd by simp
  qed
qed simp

lemma find_active_start: "find_active sec i cur (Some s) ls = (st, ac) \<Longrightarrow> st = Some s"
  by (induction ls arbitrary: i cur) (auto simp: Let_def split: option.splits prod.splits if_splits)

text \<open>The key goes behind the header of its section.\<close>

lemma active_inserted:
  assumes "section_header (trim_space new) = None" "active_value (trim_space new) = Some nv" "sec' \<noteq> sec"
  shows "find_active sec i cur None ls = (Some k, None) \<Longrightarrow> cur \<noteq> sec \<Longrightarrow>
    i \<le> k \<and> k < i + length ls
    \<and> read_active_lines val sec cur (take (Suc (k - i)) ls @ new # drop (Suc (k - i)) ls) = val (trim_space nv)
    \<and> read_active_lines val' sec' cur (take (Suc (k - i)) ls @ new # drop (Suc (k - i)) ls) = read_active_lines val' sec' cur ls"
proof (induction ls arbitrary: i cur)
  case (Cons raw raws)
  note step = read_active_step [of _ _ _ raw]
  let ?line = "trim_space raw"
  show ?case
  proof (cases "section_header ?line = Some sec")
    case True
    then have "find_active sec (Suc i) sec (Some i) raws = (Some k, None)" using Cons.prems(1) by (simp add: find_active_step del: find_active.simps)
    then have "k = i" using find_active_start by blast
    then show ?thesis using assms True by (simp add: read_active_step del: read_active_lines.simps)
  next
    case False
    define cur1 where "cur1 = (case section_header ?line of Some s \<Rightarrow> s | None \<Rightarrow> cur)"
    have cur1: "cur1 \<noteq> sec" "find_active sec (Suc i) cur1 None raws = (Some k, None)"
      using False Cons.prems by (auto simp: cur1_def find_active_step simp del: find_active.simps split: option.splits)
    let ?new = "take (Suc (k - Suc i)) raws @ new # drop (Suc (k - Suc i)) raws"
    have IH: "Suc i \<le> k" "k < Suc i + length raws" "read_active_lines val sec cur1 ?new = val (trim_space nv)"
        "read_active_lines val' sec' cur1 ?new = read_active_lines val' sec' cur1 raws"
      using Cons.IH [OF cur1(2,1)] by auto
    have "read_active_lines val sec cur (raw # ?new) = read_active_lines val sec cur1 ?new"
      using Cons.prems(2) by (auto simp: step cur1_def simp del: read_active_lines.simps split: option.split)
    moreover have "read_active_lines val' sec' cur (raw # ?new) = read_active_lines val' sec' cur (raw # raws)"
      using IH(4) by (auto simp: step cur1_def simp del: read_active_lines.simps split: option.splits)
    moreover have "k - i = Suc (k - Suc i)" using IH(1) by simp
    then have "take (Suc (k - i)) (raw # raws) @ new # drop (Suc (k - i)) (raw # raws) = raw # ?new" by simp
    ultimately show ?thesis using IH(1-3) by simp
  qed
qed simp

text \<open>A new section goes behind the other lines.\<close>

lemma active_appended:
  "find_active sec i cur None ls = (None, None) \<Longrightarrow> cur \<noteq> sec \<Longrightarrow>
     \<exists>cur1. cur1 \<noteq> sec \<and> (\<forall>rest. read_active_lines val sec cur (ls @ rest) = read_active_lines val sec cur1 rest)"
proof (induction ls arbitrary: i cur)
  case (Cons raw raws)
  let ?line = "trim_space raw"
  have ns: "section_header ?line \<noteq> Some sec"
  proof
    assume "section_header ?line = Some sec"
    then have "find_active sec (Suc i) sec (Some i) raws = (None, None)" using Cons.prems(1) by (simp add: find_active_step del: find_active.simps)
    then show False using find_active_start by blast
  qed
  define cur1 where "cur1 = (case section_header ?line of Some s \<Rightarrow> s | None \<Rightarrow> cur)"
  have "cur1 \<noteq> sec" "find_active sec (Suc i) cur1 None raws = (None, None)"
    using ns Cons.prems by (auto simp: cur1_def find_active_step simp del: find_active.simps split: option.splits)
  moreover have "read_active_lines val sec cur (raw # rest) = read_active_lines val sec cur1 rest" for rest
    using Cons.prems(2) by (auto simp: read_active_step cur1_def simp del: read_active_lines.simps split: option.split)
  ultimately show ?case using Cons.IH by simp
qed auto

lemma read_active_append:
  "(\<And>c. read_active_lines val sec c rest = []) \<Longrightarrow> read_active_lines val sec cur (ls @ rest) = read_active_lines val sec cur ls"
proof (induction ls arbitrary: cur)
  case (Cons raw raws)
  then show ?case by (auto simp: read_active_step simp del: read_active_lines.simps split: option.split)
qed simp

lemma read_active_blank [simp]: "read_active_lines val sec cur (ls @ [[]]) = read_active_lines val sec cur ls"
  by (rule read_active_append) simp

lemma read_active_skip: "read_active_lines val sec cur (ls @ [] # rest) = read_active_lines val sec cur (ls @ rest)"
proof (induction ls arbitrary: cur)
  case (Cons raw raws)
  then show ?case by (auto simp: read_active_step simp del: read_active_lines.simps(2) split: option.split)
qed simp

lemma read_active_butlast: "(if last ls = [] then read_active_lines val sec cur (butlast ls) else read_active_lines val sec cur ls) = read_active_lines val sec cur ls"
  by (cases ls rule: rev_cases) auto

section \<open>Text\<close>

lemma split_byte_joint: "split_byte c (a @ c # b) = split_byte c a @ split_byte c b"
proof (induction a)
  case (Cons x a)
  show ?case
  proof (cases "split_byte c a")
    case (Cons y ys)
    with Cons.IH show ?thesis using Cons by auto
  qed simp
qed simp

definition toml_name :: "string \<Rightarrow> bool" where
  "toml_name s \<longleftrightarrow> s \<noteq> [] \<and> length s < 65000 \<and> list_all quotes_plain s"

lemma active_line_plain:
  assumes "toml_name name"
  shows "trim_space (active_line pr name) = active_line pr name" "section_header (active_line pr name) = None"
    "active_value (active_line pr name) = Some (CHR '' '' # CHR 0x22 # name @ [CHR 0x22])"
    "trim_space (CHR '' '' # CHR 0x22 # name @ [CHR 0x22]) = CHR 0x22 # name @ [CHR 0x22]"
    "set (active_line pr name) \<inter> {CHR 0x0A, CHR 0x0D} = {}" "length (active_line pr name) < max_scan_line"
proof -
  have line: "active_line pr name = ''active = '' @ CHR 0x22 # name @ [CHR 0x22]"
    using assms by (simp add: active_line_def go_quote_plain toml_name_def)
  show "trim_space (active_line pr name) = active_line pr name" unfolding line by (rule trim_space_id) (simp_all add: is_space_def)
  show "section_header (active_line pr name) = None" by (simp add: line section_header_def)
  have "trim_space ''active '' = ''active''" by code_simp
  then show "active_value (active_line pr name) = Some (CHR '' '' # CHR 0x22 # name @ [CHR 0x22])"
    by (simp add: line active_value_def cut_def)
  have "trim_left (CHR '' '' # CHR 0x22 # name @ [CHR 0x22]) = trim_left (CHR 0x22 # name @ [CHR 0x22])"
    by (simp add: decode_rune_ascii is_space_def)
  then have "trim_space (CHR '' '' # CHR 0x22 # name @ [CHR 0x22]) = trim_space (CHR 0x22 # name @ [CHR 0x22])"
    by (simp add: trim_space_def del: trim_left.simps)
  also have "\<dots> = CHR 0x22 # name @ [CHR 0x22]" by (rule trim_space_id) (simp_all add: is_space_def)
  finally show "trim_space (CHR '' '' # CHR 0x22 # name @ [CHR 0x22]) = CHR 0x22 # name @ [CHR 0x22]" .
  have "\<forall>c \<in> set name. c \<noteq> CHR 0x0A \<and> c \<noteq> CHR 0x0D" using assms by (auto simp: toml_name_def quotes_plain_def list_all_iff)
  then show "set (active_line pr name) \<inter> {CHR 0x0A, CHR 0x0D} = {}" by (auto simp: line)
  show "length (active_line pr name) < max_scan_line" using assms by (simp add: line max_scan_line_def toml_name_def)
qed

definition section_name :: "string \<Rightarrow> bool" where
  "section_name sec \<longleftrightarrow> sec \<noteq> [] \<and> section_header (trim_space (''['' @ sec @ '']'')) = Some sec
     \<and> set sec \<inter> {CHR 0x0A, CHR 0x0D} = {} \<and> length sec < 1000"

lemma section_names: "section_name ''persona''" "section_name ''theme''"
  by code_simp+

lemma read_scanned: "unescaped_text t \<Longrightarrow> read_active_lines val sec cur (fst (scan_raw_lines t)) = read_active_lines val sec cur (split_byte (CHR 0x0A) t)"
  using read_active_butlast [of "split_byte (CHR 0x0A) t" val sec cur] by (simp add: scan_plain_text Let_def split: if_splits)

lemma plain_lines_join:
  assumes "ls \<noteq> []" "\<forall>l \<in> set ls. CHR 0x0A \<notin> set l \<and> CHR 0x0D \<notin> set l \<and> length l < max_scan_line"
  shows "split_byte (CHR 0x0A) (str_join [CHR 0x0A] ls) = ls" "unescaped_text (str_join [CHR 0x0A] ls)"
proof -
  show s: "split_byte (CHR 0x0A) (str_join [CHR 0x0A] ls) = ls" using assms by (intro split_join_byte) auto
  show "unescaped_text (str_join [CHR 0x0A] ls)" using assms s by (simp add: unescaped_text_def)
qed

lemma new_section_lines:
  assumes "toml_name name" "section_name sec"
  shows "split_byte (CHR 0x0A) (new_section pr sec name) = [''['' @ sec @ '']'', active_line pr name, []]"
proof -
  have no: "CHR 0x0A \<notin> set (''['' @ sec @ '']'')" "CHR 0x0A \<notin> set (active_line pr name)"
    using assms active_line_plain(5) [OF assms(1), of pr] by (auto simp: section_name_def)
  have "new_section pr sec name = (''['' @ sec @ '']'') @ CHR 0x0A # (active_line pr name @ CHR 0x0A # [])" by (simp add: new_section_def)
  then show ?thesis by (simp only: split_byte_append [OF no(1)] split_byte_append [OF no(2)] split_byte.simps)
qed

lemma read_new_section:
  assumes "toml_name name" "section_name sec"
  shows "cur \<noteq> sec \<Longrightarrow> read_active_lines val sec cur [''['' @ sec @ '']'', active_line pr name, []] = val (CHR 0x22 # name @ [CHR 0x22])"
    and "sec' \<noteq> sec \<Longrightarrow> read_active_lines val sec' cur [''['' @ sec @ '']'', active_line pr name, []] = []"
  using assms(2) active_line_plain(1-3) [OF assms(1), of pr] active_line_plain(4) [OF assms(1)]
  by (simp_all add: read_active_step section_name_def del: read_active_lines.simps(2))

text \<open>After a merge the section gives the new name, and every other section what it gave before.\<close>

lemma merge_active_reads:
  fixes pr
  assumes "unescaped_text t" "toml_name name" "section_name sec"
  defines "ls' \<equiv> split_byte (CHR 0x0A) (merge_active pr sec t name)"
  shows "unescaped_text (merge_active pr sec t name)" and "read_active_lines val sec [] ls' = val (CHR 0x22 # name @ [CHR 0x22])"
    and "sec' \<noteq> sec \<Longrightarrow> read_active_lines val' sec' [] ls' = read_active_lines val' sec' [] (split_byte (CHR 0x0A) t)"
proof -
  let ?ls = "split_byte (CHR 0x0A) t" and ?new = "active_line pr name"
  note new = active_line_plain(1-3) [OF assms(2), of pr] active_line_plain(4) [OF assms(2)] active_line_plain(5,6) [OF assms(2), of pr]
  have ne: "[] \<noteq> sec" using assms(3) by (auto simp: section_name_def)
  have fit: "CHR 0x0A \<notin> set l \<and> CHR 0x0D \<notin> set l \<and> length l < max_scan_line" if "l \<in> set ?ls" for l
    using that assms(1) split_byte_no_sep by (auto simp: unescaped_text_def)
  have fit_new: "CHR 0x0A \<notin> set ?new \<and> CHR 0x0D \<notin> set ?new \<and> length ?new < max_scan_line" using new(5,6) by auto
  have hdr: "section_header (trim_space ?new) = None" "active_value (trim_space ?new) = Some (CHR '' '' # CHR 0x22 # name @ [CHR 0x22])"
    using new(1-3) by simp_all
  obtain st ac where f: "find_active sec 0 [] None ?ls = (st, ac)" by fastforce
  have *: "unescaped_text (merge_active pr sec t name) \<and> read_active_lines val sec [] ls' = val (CHR 0x22 # name @ [CHR 0x22])
    \<and> (sec' \<noteq> sec \<longrightarrow> read_active_lines val' sec' [] ls' = read_active_lines val' sec' [] ?ls)"
  proof (cases ac)
    case (Some k)
    let ?ls' = "?ls[k := ?new]"
    have m: "merge_active pr sec t name = str_join [CHR 0x0A] ?ls'" using f Some by (cases st) (simp_all add: merge_active_def Let_def)
    have "\<forall>l \<in> set ?ls'. CHR 0x0A \<notin> set l \<and> CHR 0x0D \<notin> set l \<and> length l < max_scan_line"
      using fit fit_new set_update_subset_insert [of ?ls k ?new] by blast
    with plain_lines_join [of ?ls'] have "unescaped_text (merge_active pr sec t name)" "ls' = ?ls'" using m by (simp_all add: ls'_def)
    then show ?thesis using active_replaced [OF hdr _ f [unfolded Some]] new(4)
        active_replaced [OF hdr _ f [unfolded Some], of "sec @ ''x''"] by simp
  next
    case None
    show ?thesis
    proof (cases st)
      case (Some k)
      let ?ls' = "take (Suc k) ?ls @ ?new # drop (Suc k) ?ls"
      have m: "merge_active pr sec t name = str_join [CHR 0x0A] ?ls'" using f None Some by (simp add: merge_active_def Let_def)
      have "\<forall>l \<in> set ?ls'. CHR 0x0A \<notin> set l \<and> CHR 0x0D \<notin> set l \<and> length l < max_scan_line"
        using fit fit_new by (auto dest: in_set_takeD in_set_dropD)
      with plain_lines_join [of ?ls'] have "unescaped_text (merge_active pr sec t name)" "ls' = ?ls'" using m by (simp_all add: ls'_def)
      then show ?thesis using active_inserted [OF hdr _ f [unfolded None Some] ne] new(4)
          active_inserted [OF hdr _ f [unfolded None Some] ne, of "sec @ ''x''"] by simp
    next
      case none: None
      define u where "u = (if has_suffix t [CHR 0x0A] then butlast t else t)"
      define t1 where "t1 = (if has_suffix t [CHR 0x0A] then t else t @ [CHR 0x0A])"
      have u: "t1 = u @ [CHR 0x0A]" by (auto simp: u_def t1_def suffix_def)
      have us: "?ls = split_byte (CHR 0x0A) u \<or> ?ls = split_byte (CHR 0x0A) u @ [[]]"
        using split_byte_joint [of "CHR 0x0A" "butlast t" "[]"] by (auto simp: u_def suffix_def)
      let ?gap = "if trim_space t1 \<noteq> [] then [[]] else []" and ?sec = "[''['' @ sec @ '']'', ?new, []]"
      have m: "merge_active pr sec t name = u @ CHR 0x0A # (if trim_space t1 \<noteq> [] then [CHR 0x0A] else []) @ new_section pr sec name"
        using f None none u by (simp add: merge_active_def t1_def [symmetric] Let_def)
      have ls': "ls' = split_byte (CHR 0x0A) u @ ?gap @ ?sec"
        unfolding ls'_def m split_byte_joint using new_section_lines [OF assms(2,3), of pr] by simp
      have sub: "set (split_byte (CHR 0x0A) u) \<subseteq> set ?ls" using us by auto
      have "unescaped_text (merge_active pr sec t name)"
        unfolding unescaped_text_def ls'_def [symmetric] ls' using sub fit fit_new assms(3)
        by (auto simp: section_name_def max_scan_line_def subset_iff)
      moreover have rd: "read_active_lines v s c ls' = read_active_lines v s c (?ls @ ?sec)" for v s c
        unfolding ls' using us read_active_skip [of v s c "split_byte (CHR 0x0A) u"] by auto
      moreover obtain cur1 where "cur1 \<noteq> sec" "read_active_lines val sec [] (?ls @ ?sec) = read_active_lines val sec cur1 ?sec"
        using active_appended [OF f [unfolded None none] ne] by blast
      ultimately show ?thesis using read_new_section(1) [OF assms(2,3)] read_new_section(2) [OF assms(2,3), of sec' val' _ pr]
          read_active_append [of val' sec' ?sec] by simp
    qed
  qed
  then show "unescaped_text (merge_active pr sec t name)" and "read_active_lines val sec [] ls' = val (CHR 0x22 # name @ [CHR 0x22])"
    and "sec' \<noteq> sec \<Longrightarrow> read_active_lines val' sec' [] ls' = read_active_lines val' sec' [] (split_byte (CHR 0x0A) t)" by auto
qed

section \<open>The file\<close>

definition comment_line :: "string \<Rightarrow> bool" where
  "comment_line h \<longleftrightarrow> section_header (trim_space h) = None \<and> active_value (trim_space h) = None
     \<and> set h \<inter> {CHR 0x0A, CHR 0x0D} = {} \<and> length h < 1000"

lemma comment_lines: "comment_line ''# aish config''"
    "comment_line (''# aish config '' @ [CHR 0xE2, CHR 0x80, CHR 0x94] @ '' managed by `aish theme set`'')"
  by code_simp+

lemma fresh_config_reads:
  fixes pr
  assumes "comment_line hdr" "toml_name name" "section_name sec"
  defines "t \<equiv> hdr @ [CHR 0x0A, CHR 0x0A] @ new_section pr sec name"
  shows "unescaped_text t" "read_active_lines val sec [] (split_byte (CHR 0x0A) t) = val (CHR 0x22 # name @ [CHR 0x22])"
    "sec' \<noteq> sec \<Longrightarrow> read_active_lines val' sec' [] (split_byte (CHR 0x0A) t) = []"
proof -
  have ls: "split_byte (CHR 0x0A) t = [hdr, [], ''['' @ sec @ '']'', active_line pr name, []]"
    using assms(1) new_section_lines [OF assms(2,3), of pr] by (simp add: t_def split_byte_append comment_line_def)
  show "unescaped_text t"
    unfolding unescaped_text_def ls using assms(1,3) active_line_plain(5,6) [OF assms(2), of pr]
    by (auto simp: comment_line_def section_name_def max_scan_line_def)
  have "[] \<noteq> sec" using assms(3) by (auto simp: section_name_def)
  then show "read_active_lines val sec [] (split_byte (CHR 0x0A) t) = val (CHR 0x22 # name @ [CHR 0x22])"
    using read_new_section(1) [OF assms(2,3), of "[]" val pr] assms(1)
    by (simp add: ls read_active_step [of _ _ _ hdr] read_active_step [of _ _ _ "[]"] comment_line_def del: read_active_lines.simps(2))
  show "sec' \<noteq> sec \<Longrightarrow> read_active_lines val' sec' [] (split_byte (CHR 0x0A) t) = []"
    using read_new_section(2) [OF assms(2,3), of sec' val' "[]" pr] assms(1)
    by (simp add: ls read_active_step [of _ _ _ hdr] read_active_step [of _ _ _ "[]"] comment_line_def del: read_active_lines.simps(2))
qed

lemma write_active_reads:
  assumes "write_active pr hdr sec fs home name = (fs', None)" "toml_name name" "section_name sec" "comment_line hdr"
    "config_path home \<notin> set (fs_no_read fs)" "\<And>t. file_text fs (config_path home) = Some t \<Longrightarrow> unescaped_text t"
  shows "read_active val sec fs' home = val (CHR 0x22 # name @ [CHR 0x22])"
    and "sec' \<noteq> sec \<Longrightarrow> read_active val' sec' fs' home = read_active val' sec' fs home"
proof -
  let ?p = "config_path home"
  obtain fs1 where h: "home \<noteq> []" "os_mkdir_all fs (config_dir home) = (fs1, None)"
    using assms(1) by (auto simp: write_active_def split: if_splits prod.splits option.splits)
  then have d: "dirs_added (set (parents_of (config_dir home) @ [config_dir home])) fs fs1"
    using mkdir_each_dirs by (fastforce simp: os_mkdir_all_def)
  have same: "file_text fs1 q = file_text fs q" for q
  proof -
    have "node_at fs1 q = node_at fs q \<or> node_at fs q = None \<and> node_at fs1 q = Some Dir_node" using d by (auto simp: dirs_added_def)
    then show ?thesis by (auto simp: file_text_def)
  qed
  have perm: "fs_no_stat fs1 = fs_no_stat fs" "fs_no_read fs1 = fs_no_read fs" using d by (simp_all add: dirs_added_def)
  obtain t where w: "os_write_file fs1 ?p t = (fs', None)"
      and t: "os_read_file fs1 ?p = Inl Not_exist \<and> t = hdr @ [CHR 0x0A, CHR 0x0A] @ new_section pr sec name
        \<or> (\<exists>old. os_read_file fs1 ?p = Inr old \<and> t = merge_active pr sec old name)"
  proof -
    let ?t = "case os_read_file fs1 ?p of Inl _ \<Rightarrow> hdr @ [CHR 0x0A, CHR 0x0A] @ new_section pr sec name | Inr old \<Rightarrow> merge_active pr sec old name"
    obtain fs2 e where w: "os_write_file fs1 ?p ?t = (fs2, e)" by fastforce
    have "name \<noteq> []" using assms(2) by (simp add: toml_name_def)
    then show ?thesis using assms(1) h w
      by (intro that [of ?t]; cases "os_read_file fs1 ?p"; cases e)
        (auto simp: write_active_def Let_def split: os_error.splits)
  qed
  have rd: "os_read_file fs' ?p = Inr t" using os_write_file_read [OF w] perm(2) assms(5) by simp
  have *: "unescaped_text t \<and> read_active_lines val sec [] (split_byte (CHR 0x0A) t) = val (CHR 0x22 # name @ [CHR 0x22])
    \<and> (sec' \<noteq> sec \<longrightarrow> read_active_lines val' sec' [] (split_byte (CHR 0x0A) t) = read_active val' sec' fs home)"
    using t
  proof (elim disjE exE conjE)
    assume a: "os_read_file fs1 ?p = Inl Not_exist" "t = hdr @ [CHR 0x0A, CHR 0x0A] @ new_section pr sec name"
    then have "file_text fs ?p = None" using os_read_absent same by metis
    then have "read_active val' sec' fs home = []" using os_read_file_text by (fastforce simp: read_active_def split: sum.split)
    then show ?thesis using fresh_config_reads [OF assms(4,2,3)] a(2) by simp
  next
    fix old assume a: "os_read_file fs1 ?p = Inr old" "t = merge_active pr sec old name"
    then have o: "os_read_file fs ?p = Inr old" "unescaped_text old"
      using same perm assms(6) by (auto simp: os_read_file_iff)
    then have "read_active val' sec' fs home = read_active_lines val' sec' [] (split_byte (CHR 0x0A) old)"
      using h(1) read_scanned by (simp add: read_active_def)
    then show ?thesis using merge_active_reads [OF o(2) assms(2,3)] a(2) by simp
  qed
  then show "read_active val sec fs' home = val (CHR 0x22 # name @ [CHR 0x22])"
    and "sec' \<noteq> sec \<Longrightarrow> read_active val' sec' fs' home = read_active val' sec' fs home"
    using rd h(1) read_scanned by (simp_all add: read_active_def)
qed

section \<open>Properties\<close>

lemma unquote_quoted: "unquote_double (CHR 0x22 # s @ [CHR 0x22]) = s"
  by (simp add: unquote_double_def)

lemma persona_choice_persists_rule:
  "write_active_persona pr fs home name = (fs', None) \<Longrightarrow> toml_name name \<Longrightarrow> config_path home \<notin> set (fs_no_read fs) \<Longrightarrow>
   (\<forall>t. file_text fs (config_path home) = Some t \<longrightarrow> unescaped_text t) \<Longrightarrow>
     read_active_persona fs' home = name \<and> read_active_theme fs' home = read_active_theme fs home"
  using write_active_reads(1) [OF _ _ section_names(1) comment_lines(1), of pr fs home name fs' unquote_double]
    write_active_reads(2) [OF _ _ section_names(1) comment_lines(1), of pr fs home name fs' "''theme''"]
  by (simp add: write_active_persona_def read_active_persona_def read_active_theme_def unquote_quoted)

text \<open>
  When the choice of a persona has been written, whatever the configuration file held before, that
  persona is read back, and the choice of the theme reads as before. The lines of the old file are
  shorter than 64 KiB and have no carriage return, and the file can be read.
\<close>

theorem persona_choice_persists:
  "write_active_persona pr fs home name = (fs', None) \<Longrightarrow> toml_name name \<Longrightarrow> config_path home \<notin> set (fs_no_read fs) \<Longrightarrow>
   (\<forall>t. file_text fs (config_path home) = Some t \<longrightarrow> unescaped_text t) \<Longrightarrow>
     read_active_persona fs' home = name \<and> read_active_theme fs' home = read_active_theme fs home"
  by (rule persona_choice_persists_rule)

definition sample_toml_config :: os_state where
  "sample_toml_config = \<lparr>fs_nodes = [(''/h'', Dir_node), (''/h/.aish'', Dir_node),
     (''/h/.aish/config.toml'', File_node (str_join [CHR 0x0A]
        [''[theme]'', ''active = nord'', ''[persona]'', ''colour = 1'', '' active = '' @ [CHR 0x22] @ ''mentor'' @ [CHR 0x22], ''x = 2'']))],
     fs_no_stat = [], fs_no_read = [], fs_no_write = [], fs_ticks = 0\<rparr>"

theorem persona_choice_persists_witness:
  "read_active_persona (fst (write_active_persona (\<lambda>_. True) sample_toml_config ''/h'' ''socratic'')) ''/h'' = ''socratic''
   \<and> read_active_theme sample_toml_config ''/h'' = ''nord''"
proof -
  have "snd (write_active_persona (\<lambda>_. True) sample_toml_config ''/h'' ''socratic'') = None" by code_simp
  then obtain fs' where w: "write_active_persona (\<lambda>_. True) sample_toml_config ''/h'' ''socratic'' = (fs', None)" by (metis prod.collapse)
  have "toml_name ''socratic''" "config_path ''/h'' \<notin> set (fs_no_read sample_toml_config)" by code_simp+
  moreover have "file_text sample_toml_config (config_path ''/h'') = Some (the (file_text sample_toml_config (config_path ''/h'')))"
      "unescaped_text (the (file_text sample_toml_config (config_path ''/h'')))" by code_simp+
  ultimately have "read_active_persona fs' ''/h'' = ''socratic''" using persona_choice_persists [OF w] by (metis option.sel)
  moreover have "read_active_theme sample_toml_config ''/h'' = ''nord''" by code_simp
  ultimately show ?thesis using w by simp
qed

end
