(* ===== verification/Persona_Bundle.thy ===== *)
theory Persona_Bundle
  imports Persona_Store
begin

text \<open>
  Signed bundles of personas (\<^verbatim>\<open>shell/internal/persona/bundle.go\<close>, \<^verbatim>\<open>trust.go\<close>): verification and
  installation. The TOML, JSON and cryptographic libraries and the clock are parameters.
\<close>

section \<open>Data\<close>

record bundle_manifest =
  bm_format_version :: int
  bm_bundle_version :: int
  bm_bundle_id :: string
  bm_created_at :: string
  bm_persona_count :: int
  bm_signer_id :: string
  bm_signature :: string
  bm_sha256 :: string

record bundle_sidecar =
  bc_bundle_version :: int
  bc_bundle_id :: string
  bc_signer_id :: string
  bc_sha256 :: string
  bc_persona_count :: int
  bc_created_at :: string
  bc_installed_at :: string
  bc_source_path :: string

record installed_bundle =
  ib_id :: string
  ib_bundle_version :: int
  ib_signer_id :: string
  ib_persona_count :: int
  ib_created_at :: string

record trust_anchor =
  ta_signer_id :: string
  ta_public_key_hex :: string
  ta_revoked :: bool
  ta_notes :: string

datatype bundle_error =
    Manifest_read os_error
  | Manifest_malformed string
  | Bundle_resolve string
  | Signer_unknown string
  | Signer_revoked string
  | Payload_open os_error
  | Hash_mismatch
  | Anchor_malformed
  | Signature_invalid
  | Row_malformed nat string
  | Row_invalid nat persona_error
  | Row_duplicate nat string
  | Row_too_long
  | Bypass_attempt
  | Count_mismatch int nat
  | Bundle_dir_failed os_error
  | Downgrade_refused int int
  | Copy_failed os_error
  | Sidecar_failed string
  | Encode_failed string string
  | Persona_write_failed string os_error

text \<open>What the code takes from libraries. \<open>bl_manifest\<close> gives the manifest and the keys left over.\<close>

record bundle_libs =
  bl_manifest :: "string \<Rightarrow> string + bundle_manifest \<times> string list"
  bl_persona :: "string \<Rightarrow> string + persona"
  bl_encode :: "persona \<Rightarrow> string + string"
  bl_sidecar :: "string \<Rightarrow> string + bundle_sidecar"
  bl_sidecar_text :: "bundle_sidecar \<Rightarrow> string + string"
  bl_base64 :: "string \<Rightarrow> string option"
  bl_sha256 :: "string \<Rightarrow> string"
  bl_verify :: "string \<Rightarrow> string \<Rightarrow> string \<Rightarrow> bool"
  bl_resolve :: "string \<Rightarrow> string + string"
  bl_now :: string

section \<open>Hexadecimal\<close>

definition hex_encode :: "string \<Rightarrow> string" where
  "hex_encode s = concat (map (\<lambda>c. go_hex_digits 2 (of_char c)) s)"

definition hex_value :: "char \<Rightarrow> nat option" where
  "hex_value c =
     (let n = of_char c in
      if 48 \<le> n \<and> n \<le> 57 then Some (n - 48)
      else if 97 \<le> n \<and> n \<le> 102 then Some (n - 87)
      else if 65 \<le> n \<and> n \<le> 70 then Some (n - 55)
      else None)"

fun hex_decode :: "string \<Rightarrow> string option" where
  "hex_decode [] = Some []"
| "hex_decode [_] = None"
| "hex_decode (a # b # cs) =
     (case (hex_value a, hex_value b) of
        (Some x, Some y) \<Rightarrow> map_option (\<lambda>s. char_of (16 * x + y) # s) (hex_decode cs)
      | _ \<Rightarrow> None)"

section \<open>Verification\<close>

definition validate_manifest :: "bundle_libs \<Rightarrow> bundle_manifest \<Rightarrow> bundle_error option" where
  "validate_manifest bl m =
     (if bm_format_version m \<le> 0 then Some (Manifest_malformed ''format_version must be > 0'')
      else if bm_bundle_version m \<le> 0 then Some (Manifest_malformed ''bundle_version must be > 0'')
      else if \<not> name_matches (bm_bundle_id m) then Some (Manifest_malformed ''bundle_id is invalid'')
      else if trim_space (bm_signer_id m) = [] then Some (Manifest_malformed ''signer_id is empty'')
      else if trim_space (bm_signature m) = [] then Some (Manifest_malformed ''signature is empty'')
      else if bl_base64 bl (bm_signature m) = None then Some (Manifest_malformed ''signature is not valid base64'')
      else if hex_decode (bm_sha256 m) = None then Some (Manifest_malformed ''sha256 is not valid hex'')
      else if trim_space (bm_created_at m) = [] then Some (Manifest_malformed ''created_at is empty'')
      else None)"

definition read_bundle_manifest :: "bundle_libs \<Rightarrow> os_state \<Rightarrow> string \<Rightarrow> bundle_error + bundle_manifest" where
  "read_bundle_manifest bl fs path =
     (case os_read_file fs path of
        Inl e \<Rightarrow> Inl (Manifest_read e)
      | Inr raw \<Rightarrow>
          (case bl_manifest bl raw of
             Inl e \<Rightarrow> Inl (Manifest_malformed e)
           | Inr (m, rest) \<Rightarrow>
               if rest \<noteq> [] then Inl (Manifest_malformed ''unknown keys'')
               else (case validate_manifest bl m of Some e \<Rightarrow> Inl e | None \<Rightarrow> Inr m)))"

text \<open>The rows, up to the first that is refused.\<close>

fun bundle_rows :: "bundle_libs \<Rightarrow> nat \<Rightarrow> string list \<Rightarrow> string list \<Rightarrow> bundle_error + persona list" where
  "bundle_rows bl n seen [] = Inr []"
| "bundle_rows bl n seen (raw # raws) =
     (let row = trim_space raw in
      if row = [] then bundle_rows bl (Suc n) seen raws
      else (case bl_persona bl row of
        Inl e \<Rightarrow> Inl (Row_malformed n e)
      | Inr p \<Rightarrow>
          (case validate_persona p of
             Some e \<Rightarrow> Inl (Row_invalid n e)
           | None \<Rightarrow>
               if List.member seen (pe_name p) then Inl (Row_duplicate n (pe_name p))
               else (case bundle_rows bl (Suc n) (pe_name p # seen) raws of Inl e \<Rightarrow> Inl e | Inr ps \<Rightarrow> Inr (p # ps)))))"

definition max_bundle_line :: nat where
  "max_bundle_line = 1024 * 1024"

definition read_bundle_personas :: "bundle_libs \<Rightarrow> os_state \<Rightarrow> string \<Rightarrow> bundle_error + persona list" where
  "read_bundle_personas bl fs path =
     (case os_open fs path of
        Inl e \<Rightarrow> Inl (Payload_open e)
      | Inr Dir_node \<Rightarrow> Inl (Payload_open Is_dir)
      | Inr (File_node t) \<Rightarrow>
          (case scan_lines max_bundle_line t of
             (ls, too_long) \<Rightarrow>
               (case bundle_rows bl 1 [] ls of
                  Inl e \<Rightarrow> Inl e
                | Inr ps \<Rightarrow> if too_long then Inl Row_too_long else Inr ps)))"

fun find_persona_anchor :: "trust_anchor list \<Rightarrow> string \<Rightarrow> trust_anchor option" where
  "find_persona_anchor [] s = None"
| "find_persona_anchor (a # as) s = (if ta_signer_id a = s then Some a else find_persona_anchor as s)"

definition decode_public_key :: "trust_anchor \<Rightarrow> string option" where
  "decode_public_key a =
     (case hex_decode (ta_public_key_hex a) of None \<Rightarrow> None | Some raw \<Rightarrow> if length raw \<noteq> 32 then None else Some raw)"

definition persona_trust_anchors :: "trust_anchor list" where
  "persona_trust_anchors =
     [\<lparr>ta_signer_id = ''aish-persona-dev'',
       ta_public_key_hex = ''52f760eaddc50581f456c30e9054adc05a96bbff8acce1844bddb35a4ddf4712'',
       ta_revoked = False,
       ta_notes = ''Development-only signing key used by tests + cmd/aish-persona. NOT for production use.''\<rparr>]"

definition hash_file :: "bundle_libs \<Rightarrow> os_state \<Rightarrow> string \<Rightarrow> bundle_error + string" where
  "hash_file bl fs path = (case os_read_file fs path of Inl e \<Rightarrow> Inl (Payload_open e) | Inr t \<Rightarrow> Inr (hex_encode (bl_sha256 bl t)))"

text \<open>An error whose text names a safety bypass is classified again; the text has the path of the file or the offending value.\<close>

definition names_bypass :: "string \<Rightarrow> bundle_error \<Rightarrow> bool" where
  "names_bypass path e =
     (case e of
        Payload_open _ \<Rightarrow> str_contains path ''safety-bypass''
      | Row_malformed _ t \<Rightarrow> str_contains t ''safety-bypass''
      | Row_invalid _ (Safety_bypass _) \<Rightarrow> True
      | Row_invalid _ (Name_invalid s) \<Rightarrow> str_contains s ''safety-bypass''
      | Row_invalid _ (Verbosity_invalid s) \<Rightarrow> str_contains s ''safety-bypass''
      | Row_invalid _ (Formality_invalid s) \<Rightarrow> str_contains s ''safety-bypass''
      | Row_duplicate _ s \<Rightarrow> str_contains s ''safety-bypass''
      | _ \<Rightarrow> False)"

definition reclassify :: "string \<Rightarrow> bundle_error \<Rightarrow> bundle_error" where
  "reclassify path e = (if names_bypass path e then Bypass_attempt else e)"

definition verify_bundle_dir ::
  "bundle_libs \<Rightarrow> trust_anchor list \<Rightarrow> os_state \<Rightarrow> string \<Rightarrow> bundle_error + bundle_manifest \<times> persona list" where
  "verify_bundle_dir bl anchors fs dir =
     (case bl_resolve bl dir of
        Inl e \<Rightarrow> Inl (Bundle_resolve e)
      | Inr canon \<Rightarrow>
          (let payload = path_join canon ''personas.jsonl''
           in case read_bundle_manifest bl fs (path_join canon ''manifest.toml'') of
                Inl e \<Rightarrow> Inl e
              | Inr m \<Rightarrow>
                  (case find_persona_anchor anchors (bm_signer_id m) of
                     None \<Rightarrow> Inl (Signer_unknown (bm_signer_id m))
                   | Some a \<Rightarrow>
                       if ta_revoked a then Inl (Signer_revoked (bm_signer_id m))
                       else (case hash_file bl fs payload of
                         Inl e \<Rightarrow> Inl e
                       | Inr got \<Rightarrow>
                           if got \<noteq> bm_sha256 m then Inl Hash_mismatch
                           else (case bl_base64 bl (bm_signature m) of
                             None \<Rightarrow> Inl (Manifest_malformed ''signature decode'')
                           | Some sig \<Rightarrow>
                               (case decode_public_key a of
                                  None \<Rightarrow> Inl Anchor_malformed
                                | Some pub \<Rightarrow>
                                    if \<not> bl_verify bl pub (case hex_decode got of None \<Rightarrow> [] | Some h \<Rightarrow> h) sig then Inl Signature_invalid
                                    else (case read_bundle_personas bl fs payload of
                                      Inl e \<Rightarrow> Inl (reclassify payload e)
                                    | Inr ps \<Rightarrow>
                                        if int (length ps) \<noteq> bm_persona_count m then Inl (Count_mismatch (bm_persona_count m) (length ps))
                                        else Inr (m, ps))))))))"

section \<open>Installation\<close>

definition read_sidecar :: "bundle_libs \<Rightarrow> os_state \<Rightarrow> string \<Rightarrow> bundle_sidecar option" where
  "read_sidecar bl fs path =
     (case os_read_file fs path of
        Inl _ \<Rightarrow> None
      | Inr raw \<Rightarrow> (case bl_sidecar bl raw of Inl _ \<Rightarrow> None | Inr sc \<Rightarrow> Some sc))"

definition write_sidecar :: "bundle_libs \<Rightarrow> os_state \<Rightarrow> string \<Rightarrow> bundle_sidecar \<Rightarrow> os_state \<times> bundle_error option" where
  "write_sidecar bl fs path sc =
     (case bl_sidecar_text bl sc of
        Inl e \<Rightarrow> (fs, Some (Sidecar_failed e))
      | Inr raw \<Rightarrow>
          (case os_write_file fs (path @ ''.tmp'') raw of
             (fs1, Some _) \<Rightarrow> (fs1, Some (Sidecar_failed ''write''))
           | (fs1, None) \<Rightarrow>
               (case os_rename fs1 (path @ ''.tmp'') path of
                  (fs2, Some _) \<Rightarrow> (fs2, Some (Sidecar_failed ''rename''))
                | (fs2, None) \<Rightarrow> (fs2, None))))"

definition copy_file_atomic :: "os_state \<Rightarrow> string \<Rightarrow> string \<Rightarrow> os_state \<times> bundle_error option" where
  "copy_file_atomic fs src dst =
     (let tmp = dst @ ''.tmp''
      in case os_open fs src of
           Inl e \<Rightarrow> (fs, Some (Copy_failed e))
         | Inr n \<Rightarrow>
             (case os_create fs tmp of
                (fs1, Some e) \<Rightarrow> (fs1, Some (Copy_failed e))
              | (fs1, None) \<Rightarrow>
                  (case n of
                     Dir_node \<Rightarrow> (os_remove fs1 tmp, Some (Copy_failed Is_dir))
                   | File_node t \<Rightarrow>
                       (case os_rename (put_node fs1 tmp (File_node t)) tmp dst of
                          (fs2, Some e) \<Rightarrow> (os_remove fs2 tmp, Some (Copy_failed e))
                        | (fs2, None) \<Rightarrow> (fs2, None)))))"

text \<open>The personas of the bundle, each unless a file of its name is there; the names that were left out.\<close>

fun install_personas :: "bundle_libs \<Rightarrow> string \<Rightarrow> persona list \<Rightarrow> os_state \<Rightarrow> os_state \<times> bundle_error option \<times> string list" where
  "install_personas bl dir [] fs = (fs, None, [])"
| "install_personas bl dir (p # ps) fs =
     (let dst = path_join dir (pe_name p @ ''.toml'')
      in if is_ok (os_stat fs dst)
         then (case install_personas bl dir ps fs of (fs1, r, skipped) \<Rightarrow> (fs1, r, pe_name p # skipped))
         else (case bl_encode bl p of
           Inl e \<Rightarrow> (fs, Some (Encode_failed (pe_name p) e), [])
         | Inr body \<Rightarrow>
             (case os_write_file fs dst body of
                (fs1, Some e) \<Rightarrow> (fs1, Some (Persona_write_failed dst e), [])
              | (fs1, None) \<Rightarrow> install_personas bl dir ps fs1)))"

definition sidecar_of :: "bundle_libs \<Rightarrow> bundle_manifest \<Rightarrow> string \<Rightarrow> bundle_sidecar" where
  "sidecar_of bl m src =
     \<lparr>bc_bundle_version = bm_bundle_version m, bc_bundle_id = bm_bundle_id m, bc_signer_id = bm_signer_id m, bc_sha256 = bm_sha256 m,
      bc_persona_count = bm_persona_count m, bc_created_at = bm_created_at m, bc_installed_at = bl_now bl, bc_source_path = src\<rparr>"

definition bundle_install_dir :: "string \<Rightarrow> string \<Rightarrow> string" where
  "bundle_install_dir dot_aish i = path_join (path_join dot_aish ''persona-bundles'') i"

definition install_bundle ::
  "bundle_libs \<Rightarrow> trust_anchor list \<Rightarrow> string \<Rightarrow> string \<Rightarrow> os_state \<Rightarrow> os_state \<times> (bundle_error + bundle_manifest) \<times> string list" where
  "install_bundle bl anchors src dot_aish fs =
     (case verify_bundle_dir bl anchors fs src of
        Inl e \<Rightarrow> (fs, Inl e, [])
      | Inr (m, ps) \<Rightarrow>
          (case os_mkdir_all fs dot_aish of
             (fs1, Some e) \<Rightarrow> (fs1, Inl (Bundle_dir_failed e), [])
           | (fs1, None) \<Rightarrow>
               (let dir = bundle_install_dir dot_aish (bm_bundle_id m)
                in case os_mkdir_all fs1 dir of
                     (fs2, Some e) \<Rightarrow> (fs2, Inl (Bundle_dir_failed e), [])
                   | (fs2, None) \<Rightarrow>
                       (let newer = (case read_sidecar bl fs2 (path_join dir ''bundle.json'') of
                              Some prev \<Rightarrow> if bm_bundle_version m < bc_bundle_version prev then Some (bc_bundle_version prev) else None
                            | None \<Rightarrow> None)
                        in case newer of
                             Some v \<Rightarrow> (fs2, Inl (Downgrade_refused v (bm_bundle_version m)), [])
                           | None \<Rightarrow>
                               (case copy_file_atomic fs2 (path_join src ''personas.jsonl'') (path_join dir ''personas.jsonl'') of
                                  (fs3, Some e) \<Rightarrow> (fs3, Inl e, [])
                                | (fs3, None) \<Rightarrow>
                                    (case write_sidecar bl fs3 (path_join dir ''bundle.json'') (sidecar_of bl m src) of
                                       (fs4, Some e) \<Rightarrow> (fs4, Inl e, [])
                                     | (fs4, None) \<Rightarrow>
                                         (case os_mkdir_all fs4 (path_join dot_aish ''personas'') of
                                            (fs5, Some e) \<Rightarrow> (fs5, Inl (Bundle_dir_failed e), [])
                                          | (fs5, None) \<Rightarrow>
                                              (case install_personas bl (path_join dot_aish ''personas'') ps fs5 of
                                                 (fs6, Some e, skipped) \<Rightarrow> (fs6, Inl e, skipped)
                                               | (fs6, None, skipped) \<Rightarrow> (fs6, Inr m, skipped)))))))))"

definition list_bundles :: "bundle_libs \<Rightarrow> os_state \<Rightarrow> string \<Rightarrow> os_error + installed_bundle list" where
  "list_bundles bl fs dot_aish =
     (let dir = path_join dot_aish ''persona-bundles''
      in case os_read_dir fs dir of
           Inl Not_exist \<Rightarrow> Inr []
         | Inl e \<Rightarrow> Inl e
         | Inr es \<Rightarrow>
             Inr (sort_key ib_id (List.map_filter
               (\<lambda>(n, is_dir). if \<not> is_dir then None
                  else map_option
                    (\<lambda>sc. \<lparr>ib_id = bc_bundle_id sc, ib_bundle_version = bc_bundle_version sc, ib_signer_id = bc_signer_id sc,
                           ib_persona_count = bc_persona_count sc, ib_created_at = bc_created_at sc\<rparr>)
                    (read_sidecar bl fs (path_join (path_join dir n) ''bundle.json'')))
               es)))"

section \<open>Verified bundles\<close>

lemma hex_value_digit: "n < 16 \<Longrightarrow> hex_value (go_hex_digit n) = Some n"
proof -
  have "\<forall>n \<in> set [0..<16]. hex_value (go_hex_digit n) = Some n" by code_simp
  then show "n < 16 \<Longrightarrow> ?thesis" by simp
qed

lemma hex_decode_encode: "hex_decode (hex_encode s) = Some s"
proof (induction s)
  case (Cons c s)
  let ?n = "of_char c :: nat"
  have n: "?n < 256" by (rule nat_of_char_less_256)
  have "hex_encode (c # s) = go_hex_digit (?n div 16) # go_hex_digit (?n mod 16) # hex_encode s"
    using n by (simp add: hex_encode_def numeral_2_eq_2 go_hex_digit_def)
  moreover have "char_of (16 * (?n div 16) + ?n mod 16) = c" by simp
  moreover have "?n div 16 < 16" using nat_of_char_less_256 [of c] by linarith
  ultimately show ?case using Cons hex_value_digit [of "?n div 16"] hex_value_digit [of "?n mod 16"] by simp
qed (simp add: hex_encode_def)

lemma bundle_rows_valid:
  "bundle_rows bl n seen ls = Inr ps \<Longrightarrow> (\<forall>p \<in> set ps. validate_persona p = None) \<and> distinct (map pe_name ps) \<and> set seen \<inter> set (map pe_name ps) = {}"
proof (induction bl n seen ls arbitrary: ps rule: bundle_rows.induct)
  case (2 bl n seen raw raws)
  show ?case
  proof (cases "trim_space raw = []")
    case True
    then show ?thesis using 2 by simp
  next
    case False
    then obtain p qs where p: "bl_persona bl (trim_space raw) = Inr p" "validate_persona p = None" "pe_name p \<notin> set seen"
        "bundle_rows bl (Suc n) (pe_name p # seen) raws = Inr qs" "ps = p # qs"
      using 2(3) by (auto simp: Let_def List.member_iff split: sum.splits option.splits if_splits)
    have "(\<forall>p \<in> set qs. validate_persona p = None) \<and> distinct (map pe_name qs) \<and> set (pe_name p # seen) \<inter> set (map pe_name qs) = {}"
      using 2(2) [of "trim_space raw" p qs] False p by (simp add: List.member_iff)
    then show ?thesis using p by auto
  qed
qed simp

lemma find_persona_anchor_in: "find_persona_anchor as s = Some a \<Longrightarrow> a \<in> set as \<and> ta_signer_id a = s"
  by (induction as) (auto split: if_splits)

lemma verify_bundle_signed:
  assumes "verify_bundle_dir bl anchors fs dir = Inr (m, ps)"
  obtains canon t a pub sig where "bl_resolve bl dir = Inr canon" "os_read_file fs (path_join canon ''personas.jsonl'') = Inr t"
    "a \<in> set anchors" "ta_signer_id a = bm_signer_id m" "\<not> ta_revoked a" "decode_public_key a = Some pub"
    "bl_base64 bl (bm_signature m) = Some sig" "bl_verify bl pub (bl_sha256 bl t) sig"
    "bm_sha256 m = hex_encode (bl_sha256 bl t)" "read_bundle_personas bl fs (path_join canon ''personas.jsonl'') = Inr ps"
    "int (length ps) = bm_persona_count m"
    "read_bundle_manifest bl fs (path_join canon ''manifest.toml'') = Inr m" "find_persona_anchor anchors (bm_signer_id m) = Some a"
proof -
  obtain canon where c: "bl_resolve bl dir = Inr canon" using assms by (auto simp: verify_bundle_dir_def split: sum.splits)
  let ?q = "path_join canon ''personas.jsonl''"
  obtain a where a: "find_persona_anchor anchors (bm_signer_id m) = Some a" "\<not> ta_revoked a"
      "read_bundle_manifest bl fs (path_join canon ''manifest.toml'') = Inr m"
    using assms c by (auto simp: verify_bundle_dir_def Let_def split: sum.splits option.splits if_splits)
  obtain t where t: "os_read_file fs ?q = Inr t" "bm_sha256 m = hex_encode (bl_sha256 bl t)"
    using assms c a by (auto simp: verify_bundle_dir_def hash_file_def Let_def split: sum.splits option.splits if_splits)
  obtain pub sig where s: "decode_public_key a = Some pub" "bl_base64 bl (bm_signature m) = Some sig"
      "bl_verify bl pub (bl_sha256 bl t) sig" "read_bundle_personas bl fs ?q = Inr ps" "int (length ps) = bm_persona_count m"
    using assms c a t by (auto simp: verify_bundle_dir_def hash_file_def Let_def hex_decode_encode split: sum.splits option.splits if_splits)
  show ?thesis using that [OF c t(1) _ _ a(2) s(1-3) t(2) s(4,5) a(3,1)] find_persona_anchor_in [OF a(1)] by blast
qed

lemma read_bundle_personas_valid:
  assumes "read_bundle_personas bl fs q = Inr ps"
  shows "(\<forall>p \<in> set ps. validate_persona p = None) \<and> distinct (map pe_name ps)"
proof -
  obtain n ls where "bundle_rows bl n [] ls = Inr ps"
    using assms by (auto simp: read_bundle_personas_def split: sum.splits node.splits prod.splits if_splits)
  then show ?thesis using bundle_rows_valid by blast
qed

text \<open>
  A bundle that passes verification has a payload whose digest is signed by the key of a trust
  anchor that is not revoked, and all its personas have passed the schema checks and have different
  names.
\<close>

theorem verified_bundle_is_signed:
  "verify_bundle_dir bl anchors fs dir = Inr (m, ps) \<Longrightarrow>
     (\<exists>canon t a pub sig. bl_resolve bl dir = Inr canon \<and> os_read_file fs (path_join canon ''personas.jsonl'') = Inr t
        \<and> a \<in> set anchors \<and> ta_signer_id a = bm_signer_id m \<and> \<not> ta_revoked a \<and> decode_public_key a = Some pub
        \<and> bl_base64 bl (bm_signature m) = Some sig \<and> bl_verify bl pub (bl_sha256 bl t) sig)
     \<and> (\<forall>p \<in> set ps. validate_persona p = None) \<and> distinct (map pe_name ps) \<and> int (length ps) = bm_persona_count m"
  by (erule verify_bundle_signed) (use read_bundle_personas_valid in blast)

section \<open>Installation and the user's files\<close>

lemma copy_file_atomic_text:
  assumes "copy_file_atomic fs src dst = (fs', r)" "q \<noteq> dst" "q \<noteq> dst @ ''.tmp''"
  shows "file_text fs' q = file_text fs q"
proof (cases "os_create fs (dst @ ''.tmp'')")
  case (Pair fs1 e)
  show ?thesis
  proof (cases "\<exists>t. os_open fs src = Inr (File_node t) \<and> e = None")
    case True
    then obtain t where t: "os_open fs src = Inr (File_node t)" "e = None" by blast
    then have "fs1 = put_node fs (dst @ ''.tmp'') (File_node [])" using os_create_put Pair by simp
    then have 1: "file_text (put_node fs1 (dst @ ''.tmp'') (File_node t)) q = file_text fs q" using assms(3) by (simp add: file_text_put_other)
    obtain fs2 e2 where m: "os_rename (put_node fs1 (dst @ ''.tmp'') (File_node t)) (dst @ ''.tmp'') dst = (fs2, e2)" by fastforce
    then have "file_text fs2 q = file_text fs q" using 1 assms(2,3) by (cases rule: os_rename_cases) simp_all
    then show ?thesis using assms t m Pair by (auto simp: copy_file_atomic_def Let_def os_remove_text split: option.splits)
  next
    case False
    then show ?thesis using assms Pair os_create_err [of fs "dst @ ''.tmp''" fs1] os_create_put [of fs "dst @ ''.tmp''" fs1]
      by (auto simp: copy_file_atomic_def Let_def os_remove_text file_text_put_other split: sum.splits option.splits node.splits)
  qed
qed

lemma write_sidecar_text:
  assumes "write_sidecar bl fs path sc = (fs', r)" "q \<noteq> path" "q \<noteq> path @ ''.tmp''"
  shows "file_text fs' q = file_text fs q"
proof (cases "bl_sidecar_text bl sc")
  case (Inr raw)
  obtain fs1 e1 where w: "os_write_file fs (path @ ''.tmp'') raw = (fs1, e1)" by fastforce
  then have 1: "file_text fs1 q = file_text fs q" using assms(3) os_write_file_text by simp
  obtain fs2 e2 where m: "os_rename fs1 (path @ ''.tmp'') path = (fs2, e2)" by fastforce
  then have "file_text fs2 q = file_text fs q" using 1 assms(2,3) by (cases rule: os_rename_cases) simp_all
  then show ?thesis using assms(1) Inr w m 1 by (auto simp: write_sidecar_def split: option.splits)
qed (use assms in \<open>simp add: write_sidecar_def\<close>)

lemma install_personas_text:
  "install_personas bl dir ps fs = (fs', r, sk) \<Longrightarrow>
     file_text fs' q = file_text fs q \<or>
     file_text fs q = None \<and> (\<exists>p \<in> set ps. \<exists>body. bl_encode bl p = Inr body \<and> q = path_join dir (pe_name p @ ''.toml'') \<and> file_text fs' q = Some body)"
proof (induction ps arbitrary: fs sk)
  case (Cons p ps)
  let ?dst = "path_join dir (pe_name p @ ''.toml'')"
  show ?case
  proof (cases "is_ok (os_stat fs ?dst)")
    case True
    then obtain sk1 where "install_personas bl dir ps fs = (fs', r, sk1)" using Cons.prems by (auto simp: Let_def split: prod.splits)
    from Cons.IH [OF this] show ?thesis by auto
  next
    case False
    show ?thesis
    proof (cases "bl_encode bl p")
      case (Inl e)
      then show ?thesis using Cons.prems False by (simp add: Let_def)
    next
      case (Inr body)
      obtain fs1 e where w: "os_write_file fs ?dst body = (fs1, e)" by fastforce
      show ?thesis
      proof (cases e)
        case (Some x)
        then have "fs' = fs1" using Cons.prems False Inr w by (simp add: Let_def)
        then show ?thesis using os_write_file_text [OF w, of q] Some by simp
      next
        case None
        then have i: "install_personas bl dir ps fs1 = (fs', r, sk)" using Cons.prems False Inr w by (simp add: Let_def)
        have "?dst \<notin> set (fs_no_stat fs)" using os_write_file_seen w None by blast
        then have absent: "file_text fs ?dst = None"
          using False by (auto simp: os_stat_def file_text_def is_ok_def List.member_iff split: option.splits)
        have one: "file_text fs1 q = (if q = ?dst then Some body else file_text fs q)" using os_write_file_text [OF w, of q] None by simp
        show ?thesis using Cons.IH [OF i] one absent Inr by (cases "q = ?dst") auto
      qed
    qed
  qed
qed simp

lemma not_toml: "\<not> has_suffix (a @ ''personas.jsonl'') ''.toml''" "\<not> has_suffix (a @ ''bundle.json'') ''.toml''" "\<not> has_suffix (a @ ''.tmp'') ''.toml''"
  by (simp_all add: suffix_to_prefix)

lemma name_matches_proper:
  assumes "name_matches s"
  shows "proper_name s" "proper_name (s @ ''.toml'')"
proof -
  have 1: "s \<noteq> []" "list_all (\<lambda>x. name_start x \<or> x = CHR ''-'') s" using assms by (auto simp: name_matches_def split: list.splits)
  have "\<not> (name_start c \<or> c = CHR ''-'')" if "c = CHR ''/'' \<or> c = CHR ''.''" for c using that by (auto simp: name_start_def is_digit_def)
  then have "CHR ''/'' \<notin> set s" "CHR ''.'' \<notin> set s" using 1(2) unfolding list_all_iff by blast+
  then show "proper_name s" "proper_name (s @ ''.toml'')" using 1(1) by (auto simp: proper_name_def)
qed

text \<open>
  C22. Installing a bundle never changes a file of the user: whatever its outcome, a \<^verbatim>\<open>.toml\<close> file that was
  there is as it was, and a new one is the encoding of a persona of the verified bundle, under its name.
\<close>

theorem bundle_install_keeps_files:
  "proper_names cs \<Longrightarrow> cs \<noteq> [] \<Longrightarrow> has_suffix q ''.toml'' \<Longrightarrow> install_bundle bl anchors src (path_of cs) fs = (fs', r, skipped) \<Longrightarrow>
     file_text fs' q = file_text fs q \<or>
     file_text fs q = None \<and> (\<exists>m ps p body. verify_bundle_dir bl anchors fs src = Inr (m, ps) \<and> p \<in> set ps \<and> bl_encode bl p = Inr body
        \<and> q = path_of (cs @ [''personas'', pe_name p @ ''.toml'']) \<and> file_text fs' q = Some body)"
proof -
  assume cs: "proper_names cs" "cs \<noteq> []" and q: "has_suffix q ''.toml''"
    and i: "install_bundle bl anchors src (path_of cs) fs = (fs', r, skipped)"
  have pn: "proper_name ''persona-bundles''" "proper_name ''personas''" "proper_name ''personas.jsonl''" "proper_name ''bundle.json''"
    by code_simp+
  show ?thesis
  proof (cases "verify_bundle_dir bl anchors fs src")
    case (Inl e)
    then show ?thesis using i by (simp add: install_bundle_def)
  next
    case (Inr mps)
    obtain m ps where v: "verify_bundle_dir bl anchors fs src = Inr (m, ps)" using Inr by (cases mps) simp
    have id: "proper_name (bm_bundle_id m)"
      using v name_matches_proper(1)
      by (auto simp: verify_bundle_dir_def read_bundle_manifest_def validate_manifest_def Let_def split: sum.splits option.splits if_splits)
    have dir: "bundle_install_dir (path_of cs) (bm_bundle_id m) = path_of (cs @ [''persona-bundles'', bm_bundle_id m])" (is "?d = _")
      using cs id pn(1) path_join_path_of [of "cs @ [''persona-bundles'']" "bm_bundle_id m"]
      by (simp add: bundle_install_dir_def path_join_path_of del: path_of_append)
    have sub: "path_join ?d c = path_of (cs @ [''persona-bundles'', bm_bundle_id m, c])" if "proper_name c" for c
      using cs id pn(1) that path_join_path_of [of "cs @ [''persona-bundles'', bm_bundle_id m]" c] by (simp add: dir del: path_of_append)
    have no: "path_join ?d c = (path_of (cs @ [''persona-bundles'', bm_bundle_id m]) @ ''/'') @ c" if "proper_name c" for c
      using sub [OF that] by simp
    have other: "q \<noteq> path_join ?d ''personas.jsonl''" "q \<noteq> path_join ?d ''personas.jsonl'' @ ''.tmp''"
        "q \<noteq> path_join ?d ''bundle.json''" "q \<noteq> path_join ?d ''bundle.json'' @ ''.tmp''"
      unfolding no [OF pn(3)] no [OF pn(4)] using q not_toml by metis+
    let ?same = "\<lambda>f. file_text f q = file_text fs q"
    obtain fs1 e1 where m1: "os_mkdir_all fs (path_of cs) = (fs1, e1)" by fastforce
    obtain fs2 e2 where m2: "os_mkdir_all fs1 ?d = (fs2, e2)" by fastforce
    obtain fs3 e3 where c3: "copy_file_atomic fs2 (path_join src ''personas.jsonl'') (path_join ?d ''personas.jsonl'') = (fs3, e3)" by fastforce
    obtain fs4 e4 where c4: "write_sidecar bl fs3 (path_join ?d ''bundle.json'') (sidecar_of bl m src) = (fs4, e4)" by fastforce
    obtain fs5 e5 where m5: "os_mkdir_all fs4 (path_join (path_of cs) ''personas'') = (fs5, e5)" by fastforce
    have s: "?same fs1" "?same fs2" "?same fs3" "?same fs4" "?same fs5"
      using os_mkdir_all_text [OF m1, of q] os_mkdir_all_text [OF m2, of q] os_mkdir_all_text [OF m5, of q]
        copy_file_atomic_text [OF c3 other(1,2)] write_sidecar_text [OF c4 other(3,4)] by simp_all
    consider (same) "fs' \<in> {fs1, fs2, fs3, fs4, fs5}"
      | (personas) "\<exists>r'. install_personas bl (path_join (path_of cs) ''personas'') ps fs5 = (fs', r', skipped)"
      using i v m1 m2 c3 c4 m5 by (auto simp: install_bundle_def Let_def split: option.splits if_splits prod.splits)
    then show ?thesis
    proof cases
      case personas
      have pd: "path_join (path_of cs) ''personas'' = path_of (cs @ [''personas''])" using cs pn(2) by (rule path_join_path_of)
      have "\<forall>p \<in> set ps. path_join (path_of (cs @ [''personas''])) (pe_name p @ ''.toml'') = path_of (cs @ [''personas'', pe_name p @ ''.toml''])"
      proof
        fix p assume "p \<in> set ps"
        then have "validate_persona p = None" using verified_bundle_is_signed [OF v] by blast
        then have "proper_name (pe_name p @ ''.toml'')" using name_matches_proper(2) by (auto simp: validate_persona_def split: if_splits)
        then show "path_join (path_of (cs @ [''personas''])) (pe_name p @ ''.toml'') = path_of (cs @ [''personas'', pe_name p @ ''.toml''])"
          using cs pn(2) path_join_path_of [of "cs @ [''personas'']" "pe_name p @ ''.toml''"] by (simp del: path_of_append)
      qed
      moreover obtain r' where "install_personas bl (path_join (path_of cs) ''personas'') ps fs5 = (fs', r', skipped)" using personas by blast
      ultimately show ?thesis using install_personas_text [of bl _ ps fs5 fs' r' skipped q] s(5) v unfolding pd by metis
    qed (use s in auto)
  qed
qed

section \<open>A sample\<close>

definition sample_persona :: "string \<Rightarrow> persona" where
  "sample_persona n = empty_persona\<lparr>pe_name := n, pe_version := 1, pe_system_prompt := ''Be brief.'',
     pe_tone := \<lparr>to_verbosity = ''terse'', to_formality = ''casual'', to_emoji = False\<rparr>\<rparr>"

definition sample_manifest :: bundle_manifest where
  "sample_manifest = \<lparr>bm_format_version = 1, bm_bundle_version = 2, bm_bundle_id = ''zen'', bm_created_at = ''2026'', bm_persona_count = 2,
     bm_signer_id = ''aish-persona-dev'', bm_signature = ''c2ln'', bm_sha256 = ''64''\<rparr>"

definition sample_libs :: bundle_libs where
  "sample_libs = \<lparr>bl_manifest = (\<lambda>_. Inr (sample_manifest, [])), bl_persona = (\<lambda>s. Inr (sample_persona s)), bl_encode = (\<lambda>p. Inr (pe_name p)),
     bl_sidecar = (\<lambda>_. Inl ''syntax''), bl_sidecar_text = (\<lambda>_. Inr ''{}''), bl_base64 = (\<lambda>s. if s = ''c2ln'' then Some ''sig'' else None),
     bl_sha256 = (\<lambda>s. if hd s = CHR ''m'' then ''d'' else ''e''), bl_verify = (\<lambda>pub msg sig. length pub = 32 \<and> msg = ''d'' \<and> sig = ''sig''),
     bl_resolve = Inr, bl_now = ''2026''\<rparr>"

definition sample_bundle :: os_state where
  "sample_bundle = \<lparr>fs_nodes = [(''/src'', Dir_node), (''/src/manifest.toml'', File_node []),
     (''/src/personas.jsonl'', File_node (str_join [CHR 0x0A] [''mentor'', [], ''zen'', []])),
     (''/h'', Dir_node), (''/h/personas'', Dir_node), (''/h/personas/mentor.toml'', File_node ''mine'')],
     fs_no_stat = [], fs_no_read = [], fs_no_write = [], fs_ticks = 0\<rparr>"

lemma sample_verified:
  "verify_bundle_dir sample_libs persona_trust_anchors sample_bundle ''/src'' = Inr (sample_manifest, [sample_persona ''mentor'', sample_persona ''zen''])"
  by code_simp

theorem verified_bundle_is_signed_witness:
  "bl_verify sample_libs (the (decode_public_key (hd persona_trust_anchors))) (bl_sha256 sample_libs ''m'') ''sig''
   \<and> distinct (map pe_name [sample_persona ''mentor'', sample_persona ''zen''])"
  using verified_bundle_is_signed [OF sample_verified] by (auto simp: persona_trust_anchors_def sample_libs_def)

theorem bundle_install_keeps_files_witness:
  "file_text (fst (install_bundle sample_libs persona_trust_anchors ''/src'' ''/h'' sample_bundle)) ''/h/personas/mentor.toml'' = Some ''mine''
   \<and> file_text (fst (install_bundle sample_libs persona_trust_anchors ''/src'' ''/h'' sample_bundle)) ''/h/personas/zen.toml'' = Some ''zen''"
proof -
  obtain fs' r sk where i: "install_bundle sample_libs persona_trust_anchors ''/src'' (path_of [''h'']) sample_bundle = (fs', r, sk)"
    by (metis prod.collapse)
  have "proper_names [''h'']" "has_suffix ''/h/personas/mentor.toml'' ''.toml''" by code_simp+
  moreover have "file_text sample_bundle ''/h/personas/mentor.toml'' = Some ''mine''" by code_simp
  ultimately have "file_text fs' ''/h/personas/mentor.toml'' = Some ''mine''"
    using bundle_install_keeps_files [OF _ _ _ i, of "''/h/personas/mentor.toml''"] by auto
  moreover have "file_text (fst (install_bundle sample_libs persona_trust_anchors ''/src'' ''/h'' sample_bundle)) ''/h/personas/zen.toml'' = Some ''zen''"
    by code_simp
  ultimately show ?thesis using i by simp
qed

section \<open>What the signature does not cover\<close>

lemma verify_bundle_dir_ok:
  "bl_resolve bl dir = Inr canon \<Longrightarrow> read_bundle_manifest bl fs (path_join canon ''manifest.toml'') = Inr m \<Longrightarrow>
   find_persona_anchor anchors (bm_signer_id m) = Some a \<Longrightarrow> \<not> ta_revoked a \<Longrightarrow> os_read_file fs (path_join canon ''personas.jsonl'') = Inr t \<Longrightarrow>
   bm_sha256 m = hex_encode (bl_sha256 bl t) \<Longrightarrow> bl_base64 bl (bm_signature m) = Some sig \<Longrightarrow> decode_public_key a = Some pub \<Longrightarrow>
   bl_verify bl pub (bl_sha256 bl t) sig \<Longrightarrow> read_bundle_personas bl fs (path_join canon ''personas.jsonl'') = Inr ps \<Longrightarrow>
   int (length ps) = bm_persona_count m \<Longrightarrow> verify_bundle_dir bl anchors fs dir = Inr (m, ps)"
  by (simp add: verify_bundle_dir_def hash_file_def hex_decode_encode Let_def)

text \<open>
  The version of a bundle, which the check against downgrades compares, is outside of the signature: with
  any other positive version in its manifest a verified bundle verifies too.
\<close>

lemma version_not_signed:
  assumes "verify_bundle_dir bl anchors fs dir = Inr (m, ps)" "0 < v"
  shows "verify_bundle_dir (bl\<lparr>bl_manifest := (\<lambda>s. case bl_manifest bl s of Inl e \<Rightarrow> Inl e | Inr (m, r) \<Rightarrow> Inr (m\<lparr>bm_bundle_version := v\<rparr>, r))\<rparr>) anchors fs dir
    = Inr (m\<lparr>bm_bundle_version := v\<rparr>, ps)"
proof -
  let ?bl = "bl\<lparr>bl_manifest := (\<lambda>s. case bl_manifest bl s of Inl e \<Rightarrow> Inl e | Inr (m, r) \<Rightarrow> Inr (m\<lparr>bm_bundle_version := v\<rparr>, r))\<rparr>"
  have rows: "bundle_rows ?bl n seen ls = bundle_rows bl n seen ls" for n seen ls
    by (induction ls arbitrary: n seen) (simp_all add: Let_def split: sum.split option.split)
  have man: "read_bundle_manifest bl fs q = Inr m \<Longrightarrow> read_bundle_manifest ?bl fs q = Inr (m\<lparr>bm_bundle_version := v\<rparr>)" for q
    using assms(2) by (auto simp: read_bundle_manifest_def validate_manifest_def split: sum.splits if_splits)
  have per: "read_bundle_personas ?bl fs q = read_bundle_personas bl fs q" for q unfolding read_bundle_personas_def rows ..
  obtain canon t a pub sig where f: "bl_resolve bl dir = Inr canon" "os_read_file fs (path_join canon ''personas.jsonl'') = Inr t"
    "a \<in> set anchors" "ta_signer_id a = bm_signer_id m" "\<not> ta_revoked a" "decode_public_key a = Some pub"
    "bl_base64 bl (bm_signature m) = Some sig" "bl_verify bl pub (bl_sha256 bl t) sig"
    "bm_sha256 m = hex_encode (bl_sha256 bl t)" "read_bundle_personas bl fs (path_join canon ''personas.jsonl'') = Inr ps"
    "int (length ps) = bm_persona_count m"
    "read_bundle_manifest bl fs (path_join canon ''manifest.toml'') = Inr m" "find_persona_anchor anchors (bm_signer_id m) = Some a"
    by (rule verify_bundle_signed [OF assms(1)])
  have "verify_bundle_dir ?bl anchors fs dir = Inr (m\<lparr>bm_bundle_version := v\<rparr>, ps)"
  proof (rule verify_bundle_dir_ok [where canon = canon and t = t and a = a and pub = pub and sig = sig])
    show "read_bundle_manifest ?bl fs (path_join canon ''manifest.toml'') = Inr (m\<lparr>bm_bundle_version := v\<rparr>)" by (rule man [OF f(12)])
    show "read_bundle_personas ?bl fs (path_join canon ''personas.jsonl'') = Inr ps" unfolding per by (rule f(10))
  qed (use f in simp_all)
  then show ?thesis .
qed

end
