(* ===== verification/Persona_Use.thy ===== *)
theory Persona_Use
  imports Persona_Laws Active_Config Persona_Bundle Env Recall
begin

text \<open>
  The persona built-in of the shell (\<^verbatim>\<open>shell/internal/shell/builtin_persona.go\<close>,
  \<^verbatim>\<open>builtin_persona_atomic.go\<close>, \<^verbatim>\<open>builtin_persona_history.go\<close>): choosing a persona, with the switch of the
  tools it binds, and creating, installing and listing personas.
\<close>

section \<open>State\<close>

datatype persona_note =
    Persona_usage
  | Registry_missing
  | Subcommand_unknown string
  | Name_missing string
  | Persona_unknown string
  | Home_not_set
  | Sentinel_recent
  | Switch_failed "switch_error list"
  | Config_failed config_error
  | Config_warning config_error
  | Switch_warning string
  | Persona_exists string
  | Prompt_for string
  | Persona_refused persona_error
  | Persona_file_failed string
  | Install_usage
  | Install_failed bundle_error
  | Bundles_failed os_error
  | Persona_skipped string
  | Bundle_installed string

record use_event =
  ue_command :: string
  ue_exit :: int

text \<open>
  The fields of \<open>Shell\<close> that the built-in works on; \<open>pl_log\<close> holds the events of personas in the history,
  when there is one (an event that cannot be written is dropped by the code and kept here).
\<close>

record ('a, 'g, 'z) persona_shell =
  pl_registry :: "registry option"
  pl_active :: string
  pl_env :: env
  pl_host :: "('a, 'g, 'z) host"
  pl_log :: "use_event list option"
  pl_out :: string
  pl_err :: "persona_note list"

text \<open>What the built-in takes from libraries and from the build.\<close>

record ('k, 'a, 'g, 'z) persona_libs =
  pb_services :: "('k, 'a, 'g, 'z) services"
  pb_toml :: persona_toml
  pb_bundled :: "(string \<times> string) list"
  pb_bundle :: bundle_libs
  pb_anchors :: "trust_anchor list"
  pb_printable :: "rune \<Rightarrow> bool"
  pb_lower :: "rune \<Rightarrow> rune"
  pb_sentinel_age :: "string \<Rightarrow> os_state \<Rightarrow> int option"
  pb_outcome_json :: "string \<Rightarrow> switch_outcome \<Rightarrow> switch_error list \<Rightarrow> string option"

definition say_out :: "string \<Rightarrow> ('a, 'g, 'z) persona_shell \<Rightarrow> ('a, 'g, 'z) persona_shell" where
  "say_out t sh = sh\<lparr>pl_out := pl_out sh @ t @ [CHR 0x0A]\<rparr>"

definition say_err :: "persona_note \<Rightarrow> ('a, 'g, 'z) persona_shell \<Rightarrow> ('a, 'g, 'z) persona_shell" where
  "say_err n sh = sh\<lparr>pl_err := pl_err sh @ [n]\<rparr>"

definition set_fs :: "os_state \<Rightarrow> ('a, 'g, 'z) persona_shell \<Rightarrow> ('a, 'g, 'z) persona_shell" where
  "set_fs fs sh = sh\<lparr>pl_host := (pl_host sh)\<lparr>ho_fs := fs\<rparr>\<rparr>"

definition shell_fs :: "('a, 'g, 'z) persona_shell \<Rightarrow> os_state" where
  "shell_fs sh = ho_fs (pl_host sh)"

section \<open>Events\<close>

definition log_use :: "string \<Rightarrow> int \<Rightarrow> ('a, 'g, 'z) persona_shell \<Rightarrow> ('a, 'g, 'z) persona_shell" where
  "log_use cmd code sh = sh\<lparr>pl_log := map_option (\<lambda>es. es @ [\<lparr>ue_command = cmd, ue_exit = code\<rparr>]) (pl_log sh)\<rparr>"

definition record_persona_use :: "string \<Rightarrow> ('a, 'g, 'z) persona_shell \<Rightarrow> ('a, 'g, 'z) persona_shell" where
  "record_persona_use name sh = log_use (''persona use '' @ name) 0 sh"

definition record_persona_use_with_outcome ::
  "('k, 'a, 'g, 'z) persona_libs \<Rightarrow> string \<Rightarrow> switch_outcome \<Rightarrow> switch_error list \<Rightarrow> ('a, 'g, 'z) persona_shell \<Rightarrow> ('a, 'g, 'z) persona_shell" where
  "record_persona_use_with_outcome pb name oc errs sh =
     (case pb_outcome_json pb name oc errs of
        None \<Rightarrow> record_persona_use name sh
      | Some json \<Rightarrow> log_use (''persona use '' @ name @ [CHR 0x00] @ json) (if errs = [] then 0 else 1) sh)"

section \<open>Choosing a persona\<close>

definition transactions_dir :: "string \<Rightarrow> string" where
  "transactions_dir home = path_join (config_dir home) ''persona-transactions''"

definition sentinel_path :: "string \<Rightarrow> string" where
  "sentinel_path home = path_join (transactions_dir home) ''.lock''"

text \<open>Times are not part of the tree, so \<open>Chtimes\<close> changes nothing of a file that is there; errors are dropped.\<close>

definition touch_sentinel :: "string \<Rightarrow> os_state \<Rightarrow> os_state" where
  "touch_sentinel home fs =
     (case os_mkdir_all fs (transactions_dir home) of
        (fs1, Some _) \<Rightarrow> fs1
      | (fs1, None) \<Rightarrow>
          (case os_stat fs1 (sentinel_path home) of
             Inl Not_exist \<Rightarrow> fst (os_create fs1 (sentinel_path home))
           | _ \<Rightarrow> fs1))"

definition sentinel_max_age :: int where
  "sentinel_max_age = 30"

definition recent_sentinel :: "('k, 'a, 'g, 'z) persona_libs \<Rightarrow> string \<Rightarrow> os_state \<Rightarrow> bool" where
  "recent_sentinel pb home fs =
     (case pb_sentinel_age pb (sentinel_path home) fs of None \<Rightarrow> False | Some a \<Rightarrow> 0 \<le> a \<and> a < sentinel_max_age)"

definition persona_cloud_env :: "env \<Rightarrow> env_session" where
  "persona_cloud_env e =
     (case env_get e aws_profile of
        None \<Rightarrow> new_env_session
      | Some v \<Rightarrow> new_env_session\<lparr>es_values := (es_values new_env_session)(aws_profile := Some v)\<rparr>)"

definition merge_env_session :: "env_session \<Rightarrow> env \<Rightarrow> env" where
  "merge_env_session es e =
     (case es_values es aws_profile of
        None \<Rightarrow> e
      | Some v \<Rightarrow> (case env_set e aws_profile v of Inl _ \<Rightarrow> e | Inr e1 \<Rightarrow> e1))"

definition has_any_external_binding :: "external_bindings \<Rightarrow> bool" where
  "has_any_external_binding b \<longleftrightarrow> xb_ssh b \<noteq> None \<or> xb_cloud b \<noteq> None \<or> xb_kube b \<noteq> None \<or> xb_git b \<noteq> None"

text \<open>The adapters are made anew for every switch.\<close>

definition fresh_adapters :: "env \<Rightarrow> ('a, 'g, 'z) host \<Rightarrow> ('a, 'g, 'z) host" where
  "fresh_adapters e w = w\<lparr>ho_added := [], ho_env := persona_cloud_env e, ho_digest := []\<rparr>"

definition persona_set_atomic ::
  "('k, 'a, 'g, 'z) persona_libs \<Rightarrow> registry \<Rightarrow> string \<Rightarrow> ('a, 'g, 'z) persona_shell \<Rightarrow> ('a, 'g, 'z) persona_shell \<times> int" where
  "persona_set_atomic pb reg name sh =
     (case registry_get reg name of
        None \<Rightarrow> (say_err (Persona_unknown name) sh, 1)
      | Some p \<Rightarrow>
          (let home = home_dir (pl_env sh)
           in if home = [] then (say_err Home_not_set sh, 1)
              else
                (let sh1 = (if recent_sentinel pb home (shell_fs sh) then say_err Sentinel_recent sh else sh);
                     sh2 = set_fs (touch_sentinel home (shell_fs sh1)) sh1;
                     w = fresh_adapters (pl_env sh2) (pl_host sh2)
                 in case execute_switch (build_adapters (pb_services pb) (pe_external p)) (pe_external p) w of
                      (w1, oc, errs) \<Rightarrow>
                        (let sh3 = sh2\<lparr>pl_host := w1\<rparr>
                         in if errs \<noteq> []
                            then (record_persona_use_with_outcome pb name oc errs (say_err (Switch_failed errs) sh3), 1)
                            else
                              (case write_active_persona (pb_printable pb) (shell_fs sh3) home name of
                                 (fs4, r) \<Rightarrow>
                                   (let sh4 = set_fs fs4 sh3;
                                        sh5 = (case r of None \<Rightarrow> sh4 | Some e \<Rightarrow> say_err (Config_warning e) sh4);
                                        sh6 = sh5\<lparr>pl_active := name, pl_env := merge_env_session (ho_env w1) (pl_env sh5)\<rparr>;
                                        sh7 = say_out (''persona: active = '' @ name) sh6;
                                        sh8 = (if oc_skipped oc \<noteq> []
                                               then say_out (''persona: skipped (subsystem absent): ['' @ str_join '' '' (oc_skipped oc) @ '']'') sh7 else sh7);
                                        sh9 = sh8\<lparr>pl_err := pl_err sh8 @ map Switch_warning (oc_warnings oc)\<rparr>
                                    in (record_persona_use_with_outcome pb name oc [] sh9, 0)))))))"

definition persona_set ::
  "('k, 'a, 'g, 'z) persona_libs \<Rightarrow> registry \<Rightarrow> string list \<Rightarrow> ('a, 'g, 'z) persona_shell \<Rightarrow> ('a, 'g, 'z) persona_shell \<times> int" where
  "persona_set pb reg args sh =
     (case args of
        [] \<Rightarrow> (say_err (Name_missing ''set'') sh, 2)
      | name # _ \<Rightarrow>
          (case registry_get reg name of
             None \<Rightarrow> (say_err (Persona_unknown name) sh, 1)
           | Some p \<Rightarrow>
               if has_any_external_binding (pe_external p) then persona_set_atomic pb reg name sh
               else
                 (let home = home_dir (pl_env sh)
                  in if home = [] then (say_err Home_not_set sh, 1)
                     else (case write_active_persona (pb_printable pb) (shell_fs sh) home name of
                       (fs1, Some e) \<Rightarrow> (say_err (Config_failed e) (set_fs fs1 sh), 1)
                     | (fs1, None) \<Rightarrow>
                         (record_persona_use name (say_out (''persona: active = '' @ name) ((set_fs fs1 sh)\<lparr>pl_active := name\<rparr>)), 0)))))"

section \<open>Listing and showing\<close>

text \<open>\<open>%-16s\<close> counts runes.\<close>

definition pad_to :: "nat \<Rightarrow> string \<Rightarrow> string" where
  "pad_to n s = s @ replicate (n - length (runes_of s)) CHR '' ''"

definition active_name :: "('a, 'g, 'z) persona_shell \<Rightarrow> string" where
  "active_name sh = (if pl_active sh \<noteq> [] then pl_active sh else ''default'')"

definition persona_list :: "registry \<Rightarrow> ('a, 'g, 'z) persona_shell \<Rightarrow> ('a, 'g, 'z) persona_shell \<times> int" where
  "persona_list reg sh =
     (fold (\<lambda>p. say_out ((if pe_name p = active_name sh then ''* '' else ''  '') @ pad_to 16 (pe_name p) @ '' '' @ pe_description p))
        (registry_list reg) sh, 0)"

definition persona_active :: "('a, 'g, 'z) persona_shell \<Rightarrow> ('a, 'g, 'z) persona_shell \<times> int" where
  "persona_active sh = (say_out (active_name sh) sh, 0)"

definition show_bool :: "bool \<Rightarrow> string" where
  "show_bool b = (if b then ''true'' else ''false'')"

definition persona_card :: "(rune \<Rightarrow> bool) \<Rightarrow> persona \<Rightarrow> string list" where
  "persona_card pr p =
     [''name:          '' @ pe_name p,
      ''version:       '' @ itoa (pe_version p),
      ''description:   '' @ pe_description p,
      ''voice:         '' @ pe_voice p,
      ''tone:          verbosity='' @ to_verbosity (pe_tone p) @ '' formality='' @ to_formality (pe_tone p) @ '' emoji='' @ show_bool (to_emoji (pe_tone p)),
      ''capability gates:'',
      ''  refuse_when_no_files_provided:        '' @ show_bool (cg_files (pe_gates p)),
      ''  refuse_to_write_code:                 '' @ show_bool (cg_code (pe_gates p)),
      ''  no_direct_answers_to_ambiguous_intents: '' @ show_bool (cg_ambiguous (pe_gates p)),
      ''prompt overrides:'',
      ''  greeting_glyph: '' @ go_quote pr (po_glyph (pe_overrides p)),
      ''  voice_phrase:   '' @ go_quote pr (po_phrase (pe_overrides p)),
      ''  accent_char:    '' @ go_quote pr (po_accent (pe_overrides p)),
      ''system_prompt:'']
     @ map (\<lambda>l. ''  '' @ l) (split_byte (CHR 0x0A) (trim_right_set (pe_system_prompt p) [CHR 0x0A]))"

definition persona_show ::
  "('k, 'a, 'g, 'z) persona_libs \<Rightarrow> registry \<Rightarrow> string list \<Rightarrow> ('a, 'g, 'z) persona_shell \<Rightarrow> ('a, 'g, 'z) persona_shell \<times> int" where
  "persona_show pb reg args sh =
     (case args of
        [] \<Rightarrow> (say_err (Name_missing ''show'') sh, 2)
      | name # _ \<Rightarrow>
          (case registry_get reg name of
             None \<Rightarrow> (say_err (Persona_unknown name) sh, 1)
           | Some p \<Rightarrow> (fold say_out (persona_card (pb_printable pb) p) sh, 0)))"

text \<open>\<open>Persona\<close> and \<open>personaSystemPromptForInfer\<close>\<close>

definition shell_persona :: "('a, 'g, 'z) persona_shell \<Rightarrow> persona" where
  "shell_persona sh =
     (case pl_registry sh of
        None \<Rightarrow> empty_persona
      | Some reg \<Rightarrow>
          (case (if pl_active sh = [] then None else registry_get reg (pl_active sh)) of
             Some p \<Rightarrow> p
           | None \<Rightarrow> default_persona reg))"

definition persona_system_prompt_for_infer :: "('a, 'g, 'z) persona_shell \<Rightarrow> string" where
  "persona_system_prompt_for_infer sh =
     (if pl_registry sh = None then []
      else ''<persona-system>'' @ [CHR 0x0A] @ system_prompt_for (shell_persona sh) @ ''</persona-system>'')"

section \<open>Opening, creating, installing\<close>

definition persona_dir :: "string \<Rightarrow> string" where
  "persona_dir home = path_join (config_dir home) ''personas''"

text \<open>\<open>openPersona\<close>, the registry and the choice; a loader error leaves what was there.\<close>

definition open_persona :: "('k, 'a, 'g, 'z) persona_libs \<Rightarrow> ('a, 'g, 'z) persona_shell \<Rightarrow> ('a, 'g, 'z) persona_shell" where
  "open_persona pb sh =
     (let home = home_dir (pl_env sh);
          dir = (if home \<noteq> [] then persona_dir home else [])
      in case new_loader (pb_toml pb) (pb_bundled pb) (shell_fs sh) dir of
           Inl _ \<Rightarrow> sh
         | Inr reg \<Rightarrow>
             (let name = (if home \<noteq> [] then read_active_persona (shell_fs sh) home else [])
              in sh\<lparr>pl_registry := Some reg,
                    pl_active := (if name \<noteq> [] \<and> registry_get reg name \<noteq> None then name else pl_active sh)\<rparr>))"

text \<open>\<open>readSingleLine\<close>: a line and the rest of the input.\<close>

definition read_single_line :: "string \<Rightarrow> string \<times> string" where
  "read_single_line inp =
     (let l = takeWhile (\<lambda>c. c \<noteq> CHR 0x0A) inp
      in (trim_suffix l [CHR 0x0D], drop (Suc (length l)) inp))"

definition draft_persona :: "string \<Rightarrow> persona" where
  "draft_persona name =
     empty_persona\<lparr>pe_name := name, pe_version := schema_version,
       pe_tone := \<lparr>to_verbosity = ''medium'', to_formality = ''neutral'', to_emoji = False\<rparr>,
       pe_system_prompt := ''You are a helpful assistant inside the aish shell.''\<rparr>"

definition persona_prompts :: "persona_note list" where
  "persona_prompts = map Prompt_for [''description'', ''voice'', ''verbosity'', ''formality'', ''system_prompt'']"

text \<open>The five answers.\<close>

definition fill_persona :: "(rune \<Rightarrow> rune) \<Rightarrow> persona \<Rightarrow> string \<Rightarrow> persona" where
  "fill_persona low p inp =
     (case read_single_line inp of (l1, i1) \<Rightarrow>
     (case read_single_line i1 of (l2, i2) \<Rightarrow>
     (case read_single_line i2 of (l3, i3) \<Rightarrow>
     (case read_single_line i3 of (l4, i4) \<Rightarrow>
     (case read_single_line i4 of (l5, _) \<Rightarrow>
       (let v = str_to_lower low (trim_space l3); f = str_to_lower low (trim_space l4); s = trim_space l5
        in p\<lparr>pe_description := trim_space l1, pe_voice := trim_space l2,
             pe_tone := (pe_tone p)\<lparr>to_verbosity := (if v \<noteq> [] then v else to_verbosity (pe_tone p)),
                                    to_formality := (if f \<noteq> [] then f else to_formality (pe_tone p))\<rparr>,
             pe_system_prompt := (if s \<noteq> [] then s else pe_system_prompt p)\<rparr>))))))"

definition persona_create ::
  "('k, 'a, 'g, 'z) persona_libs \<Rightarrow> registry \<Rightarrow> string list \<Rightarrow> string option \<Rightarrow> ('a, 'g, 'z) persona_shell \<Rightarrow> ('a, 'g, 'z) persona_shell \<times> int" where
  "persona_create pb reg args stdin sh =
     (case args of
        [name] \<Rightarrow>
          (let home = home_dir (pl_env sh)
           in if home = [] then (say_err Home_not_set sh, 1)
              else if registry_get reg name \<noteq> None then (say_err (Persona_exists name) sh, 1)
              else
                (let p = (case stdin of None \<Rightarrow> draft_persona name | Some inp \<Rightarrow> fill_persona (pb_lower pb) (draft_persona name) inp);
                     sh1 = (if stdin = None then sh else sh\<lparr>pl_err := pl_err sh @ persona_prompts\<rparr>)
                 in case validate_persona p of
                      Some e \<Rightarrow> (say_err (Persona_refused e) sh1, 1)
                    | None \<Rightarrow>
                        (case os_mkdir_all (shell_fs sh1) (persona_dir home) of
                           (fs1, Some _) \<Rightarrow> (say_err (Persona_file_failed ''create dir'') (set_fs fs1 sh1), 1)
                         | (fs1, None) \<Rightarrow>
                             (let path = path_join (persona_dir home) (name @ ''.toml''); sh2 = set_fs fs1 sh1
                              in if is_ok (os_stat fs1 path) then (say_err (Persona_file_failed ''already exists'') sh2, 1)
                                 else (case bl_encode (pb_bundle pb) p of
                                   Inl _ \<Rightarrow> (say_err (Persona_file_failed ''encode'') sh2, 1)
                                 | Inr body \<Rightarrow>
                                     (case os_write_file fs1 path body of
                                        (fs2, Some _) \<Rightarrow> (say_err (Persona_file_failed ''write'') (set_fs fs2 sh2), 1)
                                      | (fs2, None) \<Rightarrow>
                                          (say_out (''persona: created '' @ name @ '' at '' @ path) (open_persona pb (set_fs fs2 sh2)), 0)))))))
      | _ \<Rightarrow> (say_err Persona_usage sh, 2))"

definition persona_install ::
  "('k, 'a, 'g, 'z) persona_libs \<Rightarrow> string list \<Rightarrow> ('a, 'g, 'z) persona_shell \<Rightarrow> ('a, 'g, 'z) persona_shell \<times> int" where
  "persona_install pb args sh =
     (case args of
        [src] \<Rightarrow>
          (let home = home_dir (pl_env sh)
           in if home = [] then (say_err Home_not_set sh, 1)
              else (case install_bundle (pb_bundle pb) (pb_anchors pb) src (config_dir home) (shell_fs sh) of
                (fs1, r, skipped) \<Rightarrow>
                  (let sh1 = (set_fs fs1 sh)\<lparr>pl_err := pl_err sh @ map Persona_skipped skipped\<rparr>
                   in case r of
                        Inl e \<Rightarrow> (say_err (Install_failed e) sh1, 1)
                      | Inr m \<Rightarrow>
                          (say_out (''persona install: installed bundle '' @ bm_bundle_id m @ '' v'' @ itoa (bm_bundle_version m) @ '' ('' @
                             itoa (bm_persona_count m) @ '' personas, signer='' @ bm_signer_id m @ '')'') (open_persona pb (say_err (Bundle_installed (bm_bundle_id m)) sh1)), 0))))
      | _ \<Rightarrow> (say_err Install_usage sh, 2))"

definition persona_bundles ::
  "('k, 'a, 'g, 'z) persona_libs \<Rightarrow> ('a, 'g, 'z) persona_shell \<Rightarrow> ('a, 'g, 'z) persona_shell \<times> int" where
  "persona_bundles pb sh =
     (let home = home_dir (pl_env sh)
      in if home = [] then (say_err Home_not_set sh, 1)
         else (case list_bundles (pb_bundle pb) (shell_fs sh) (config_dir home) of
           Inl e \<Rightarrow> (say_err (Bundles_failed e) sh, 1)
         | Inr [] \<Rightarrow> (say_out ''(no persona bundles installed)'' sh, 0)
         | Inr bs \<Rightarrow>
             (fold (\<lambda>b. say_out (pad_to 24 (ib_id b) @ ''  v'' @ pad_to 3 (itoa (ib_bundle_version b)) @ ''  '' @
                pad_to 20 (ib_signer_id b) @ ''  '' @ itoa (ib_persona_count b) @ '' personas'')) bs sh, 0)))"

definition persona_builtin ::
  "('k, 'a, 'g, 'z) persona_libs \<Rightarrow> string list \<Rightarrow> string option \<Rightarrow> ('a, 'g, 'z) persona_shell \<Rightarrow> ('a, 'g, 'z) persona_shell \<times> int" where
  "persona_builtin pb args stdin sh =
     (case args of
        [] \<Rightarrow> (say_err Persona_usage sh, 2)
      | arg # rest \<Rightarrow>
          (case pl_registry sh of
             None \<Rightarrow> (say_err Registry_missing sh, 1)
           | Some reg \<Rightarrow>
               (let sub = str_to_lower (pb_lower pb) arg
                in if sub = ''list'' then persona_list reg sh
                   else if sub = ''show'' then persona_show pb reg rest sh
                   else if sub = ''set'' \<or> sub = ''use'' then persona_set pb reg rest sh
                   else if sub = ''active'' then persona_active sh
                   else if sub = ''create'' then persona_create pb reg rest stdin sh
                   else if sub = ''install'' then persona_install pb rest sh
                   else if sub = ''bundles'' then persona_bundles pb sh
                   else (say_err (Subcommand_unknown sub) sh, 2))))"

section \<open>Facts\<close>

lemma say_frame [simp]:
  "pl_active (say_out t sh) = pl_active sh" "pl_env (say_out t sh) = pl_env sh" "pl_registry (say_out t sh) = pl_registry sh"
  "pl_host (say_out t sh) = pl_host sh" "pl_log (say_out t sh) = pl_log sh" "pl_err (say_out t sh) = pl_err sh"
  "pl_active (say_err n sh) = pl_active sh" "pl_env (say_err n sh) = pl_env sh" "pl_registry (say_err n sh) = pl_registry sh"
  "pl_host (say_err n sh) = pl_host sh" "pl_log (say_err n sh) = pl_log sh" "pl_err (say_err n sh) = pl_err sh @ [n]"
  by (simp_all add: say_out_def say_err_def)

lemma set_fs_frame [simp]:
  "pl_active (set_fs fs sh) = pl_active sh" "pl_env (set_fs fs sh) = pl_env sh" "pl_registry (set_fs fs sh) = pl_registry sh"
  "pl_log (set_fs fs sh) = pl_log sh" "pl_err (set_fs fs sh) = pl_err sh" "shell_fs (set_fs fs sh) = fs"
  by (simp_all add: set_fs_def shell_fs_def)

lemma record_frame [simp]:
  "pl_active (record_persona_use n sh) = pl_active sh" "pl_env (record_persona_use n sh) = pl_env sh"
  "pl_registry (record_persona_use n sh) = pl_registry sh" "pl_host (record_persona_use n sh) = pl_host sh" "pl_err (record_persona_use n sh) = pl_err sh"
  "pl_active (record_persona_use_with_outcome pb n oc errs sh) = pl_active sh"
  "pl_env (record_persona_use_with_outcome pb n oc errs sh) = pl_env sh"
  "pl_registry (record_persona_use_with_outcome pb n oc errs sh) = pl_registry sh"
  "pl_host (record_persona_use_with_outcome pb n oc errs sh) = pl_host sh"
  "pl_err (record_persona_use_with_outcome pb n oc errs sh) = pl_err sh"
  by (simp_all add: record_persona_use_def record_persona_use_with_outcome_def log_use_def split: option.split)

lemma persona_set_atomic_fails:
  assumes "persona_set_atomic pb reg name sh = (sh', code)" "code \<noteq> 0"
  shows "pl_active sh' = pl_active sh \<and> pl_env sh' = pl_env sh \<and> pl_registry sh' = pl_registry sh"
  using assms by (auto simp: persona_set_atomic_def Let_def split: option.splits prod.splits if_splits)

text \<open>
  A \<^verbatim>\<open>persona use\<close> that returns an error leaves the chosen persona, the variables of the shell and the
  registry as they were; one that returns 0 makes the named persona, which is in the registry, the chosen
  one, and changes no variable but \<^verbatim>\<open>AWS_PROFILE\<close>.
\<close>

theorem persona_use_all_or_nothing:
  "persona_set pb reg args sh = (sh', code) \<Longrightarrow>
     (if code = 0
      then args \<noteq> [] \<and> registry_get reg (hd args) \<noteq> None \<and> pl_active sh' = hd args
        \<and> (pl_env sh' = pl_env sh \<or> (\<exists>v. env_set (pl_env sh) aws_profile v = Inr (pl_env sh')))
      else pl_active sh' = pl_active sh \<and> pl_env sh' = pl_env sh)
     \<and> pl_registry sh' = pl_registry sh"
  by (auto simp: persona_set_def persona_set_atomic_def merge_env_session_def Let_def split: list.splits option.splits prod.splits if_splits sum.splits)

section \<open>A sample shell\<close>

definition sample_persona_libs :: "(string, string list, (string \<times> string) list, unit) persona_libs" where
  "sample_persona_libs =
     \<lparr>pb_services = sample_services, pb_toml = (\<lambda>s. Inr (sample_persona s, [])), pb_bundled = [(''default.toml'', ''default''), (''zen.toml'', ''zen'')],
      pb_bundle = sample_libs, pb_anchors = persona_trust_anchors, pb_printable = (\<lambda>_. True), pb_lower = id,
      pb_sentinel_age = (\<lambda>_ _. None), pb_outcome_json = (\<lambda>_ _ _. Some ''{}'')\<rparr>"

definition sample_registry :: registry where
  "sample_registry = [(''default'', sample_persona ''default''), (''zen'', sample_persona ''zen''),
     (''work'', (sample_persona ''work'')\<lparr>pe_external := sample_bindings\<rparr>)]"

definition sample_persona_shell :: "(string list, (string \<times> string) list, unit) persona_shell" where
  "sample_persona_shell =
     \<lparr>pl_registry = Some sample_registry, pl_active = ''default'', pl_env = \<lparr>vars = [''HOME=/h'']\<rparr>, pl_host = sample_host, pl_log = Some [],
      pl_out = [], pl_err = []\<rparr>"

theorem persona_use_all_or_nothing_witness:
  "pl_active (fst (persona_set sample_persona_libs sample_registry [''work''] sample_persona_shell)) = ''default''
   \<and> pl_active (fst (persona_set sample_persona_libs sample_registry [''zen''] sample_persona_shell)) = ''zen''"
proof -
  have codes: "snd (persona_set sample_persona_libs sample_registry [''work''] sample_persona_shell) = 1"
      "snd (persona_set sample_persona_libs sample_registry [''zen''] sample_persona_shell) = 0"
    by code_simp+
  have "pl_active sample_persona_shell = ''default''" by code_simp
  then show ?thesis
    using persona_use_all_or_nothing [OF prod.collapse [symmetric], of sample_persona_libs sample_registry "[''work'']" sample_persona_shell]
      persona_use_all_or_nothing [OF prod.collapse [symmetric], of sample_persona_libs sample_registry "[''zen'']" sample_persona_shell] codes
    by simp
qed

section \<open>The choice after a restart\<close>

lemma name_matches_plain: "name_matches s \<Longrightarrow> toml_name s"
proof -
  assume s: "name_matches s"
  have "quotes_plain c" if "name_start c \<or> c = CHR ''-''" for c
    using that by (auto simp: quotes_plain_def name_start_def is_digit_def)
  then show ?thesis using s by (auto simp: name_matches_def toml_name_def list_all_iff split: list.splits)
qed

text \<open>
  The persona that \<^verbatim>\<open>persona use\<close> has chosen, one that binds no tools, is the chosen one in a shell that
  starts later on the same files, if its registry still has the name.
\<close>

theorem persona_choice_survives_restart:
  "persona_set pb reg [name] sh = (sh', 0) \<Longrightarrow> registry_get reg name = Some p \<Longrightarrow> validate_persona p = None \<and> pe_name p = name \<Longrightarrow>
   \<not> has_any_external_binding (pe_external p) \<Longrightarrow> config_path (home_dir (pl_env sh)) \<notin> set (fs_no_read (shell_fs sh)) \<Longrightarrow>
   (\<forall>t. file_text (shell_fs sh) (config_path (home_dir (pl_env sh))) = Some t \<longrightarrow> unescaped_text t) \<Longrightarrow>
   shell_fs sh2 = shell_fs sh' \<and> home_dir (pl_env sh2) = home_dir (pl_env sh) \<Longrightarrow>
   new_loader (pb_toml pb) (pb_bundled pb) (shell_fs sh') (persona_dir (home_dir (pl_env sh))) = Inr reg2 \<Longrightarrow>
   registry_get reg2 name \<noteq> None \<Longrightarrow>
     pl_active (open_persona pb sh2) = name \<and> pl_registry (open_persona pb sh2) = Some reg2"
proof -
  assume s: "persona_set pb reg [name] sh = (sh', 0)" and p: "registry_get reg name = Some p" "validate_persona p = None \<and> pe_name p = name"
    "\<not> has_any_external_binding (pe_external p)" and f: "config_path (home_dir (pl_env sh)) \<notin> set (fs_no_read (shell_fs sh))"
    "\<forall>t. file_text (shell_fs sh) (config_path (home_dir (pl_env sh))) = Some t \<longrightarrow> unescaped_text t"
    and sh2: "shell_fs sh2 = shell_fs sh' \<and> home_dir (pl_env sh2) = home_dir (pl_env sh)"
    and reg2: "new_loader (pb_toml pb) (pb_bundled pb) (shell_fs sh') (persona_dir (home_dir (pl_env sh))) = Inr reg2" "registry_get reg2 name \<noteq> None"
  let ?h = "home_dir (pl_env sh)"
  have "name_matches name" "name \<noteq> []" using p(2) by (auto simp: validate_persona_def split: if_splits)
  then have plain: "toml_name name" using name_matches_plain by blast
  obtain fs1 where w: "?h \<noteq> []" "write_active_persona (pb_printable pb) (shell_fs sh) ?h name = (fs1, None)" "shell_fs sh' = fs1"
    using s p by (auto simp: persona_set_def Let_def record_persona_use_def log_use_def say_out_def set_fs_def shell_fs_def
        split: if_splits prod.splits option.splits)
  have "read_active_persona fs1 ?h = name" using persona_choice_persists_rule [OF w(2) plain f] by blast
  then show ?thesis using sh2 reg2 w \<open>name \<noteq> []\<close> by (simp add: open_persona_def Let_def)
qed

theorem persona_choice_survives_restart_witness:
  "pl_active (open_persona sample_persona_libs
     (set_fs (shell_fs (fst (persona_set sample_persona_libs sample_registry [''zen''] sample_persona_shell))) sample_persona_shell)) = ''zen''"
proof -
  obtain sh' where s: "persona_set sample_persona_libs sample_registry [''zen''] sample_persona_shell = (sh', 0)"
  proof -
    have "snd (persona_set sample_persona_libs sample_registry [''zen''] sample_persona_shell) = 0" by code_simp
    then show ?thesis using that by (metis prod.collapse)
  qed
  obtain reg2 where reg2: "new_loader (pb_toml sample_persona_libs) (pb_bundled sample_persona_libs) (shell_fs sh')
      (persona_dir (home_dir (pl_env sample_persona_shell))) = Inr reg2" "registry_get reg2 ''zen'' \<noteq> None"
  proof -
    have "(case new_loader (pb_toml sample_persona_libs) (pb_bundled sample_persona_libs)
        (shell_fs (fst (persona_set sample_persona_libs sample_registry [''zen''] sample_persona_shell)))
        (persona_dir (home_dir (pl_env sample_persona_shell))) of Inl _ \<Rightarrow> False | Inr r \<Rightarrow> registry_get r ''zen'' \<noteq> None)" by code_simp
    then show ?thesis using that s by (auto split: sum.splits)
  qed
  have "registry_get sample_registry ''zen'' = Some (sample_persona ''zen'')" by code_simp
  moreover have "validate_persona (sample_persona ''zen'') = None \<and> pe_name (sample_persona ''zen'') = ''zen''" by code_simp
  moreover have "\<not> has_any_external_binding (pe_external (sample_persona ''zen''))" by code_simp
  moreover have "config_path (home_dir (pl_env sample_persona_shell)) \<notin> set (fs_no_read (shell_fs sample_persona_shell))" by code_simp
  moreover have "file_text (shell_fs sample_persona_shell) (config_path (home_dir (pl_env sample_persona_shell))) = None" by code_simp
  ultimately show ?thesis
    using persona_choice_survives_restart [OF s, of "sample_persona ''zen''" "set_fs (shell_fs sh') sample_persona_shell" reg2] reg2 s by simp
qed

end
