(* ===== verification/Spec2Isabelle.thy ===== *)
theory Spec2Isabelle
  imports Editor Undo_Moves History_Queries Script_Props Script_Roundtrip Persona_Use
begin

text \<open>
  \<^bold>\<open>A verification library for aish\<close>, the interactive shell of this repository.

  \<^bold>\<open>Parts.\<close> The user types into the line editor (\<^verbatim>\<open>shell/internal/term\<close>): bytes become keys,
  keys edit a cursor buffer, and history recall, search, ghost text, completion and highlighting
  work on that buffer. The line then goes through variable expansion (\<^verbatim>\<open>shell/internal/env\<close>),
  command substitution, parsing into a pipeline, and brace and glob expansion
  (\<^verbatim>\<open>shell/internal/parser\<close>). Before a destructive pipeline runs, its targets are snapshotted
  and an event is logged; \<open>undo\<close> and \<open>restore\<close> replay the snapshots
  (\<^verbatim>\<open>shell/internal/history\<close>). Background pipelines are kept in the job table
  (\<^verbatim>\<open>shell/internal/jobs\<close>). Foreign scripts are read and run by \<^verbatim>\<open>shell/internal/translate\<close>, and
  \<open>persona use\<close> switches the assistant's persona together with the SSH agent, gcloud, the kubeconfig
  and git (\<^verbatim>\<open>shell/internal/persona\<close>).

  \<^bold>\<open>Theories.\<close>
  \<^item> \<open>Prelude\<close>, \<open>Go_Strings\<close>, \<open>Go_Path\<close>: Go's errors, strings, runes, \<open>strings\<close>, \<open>strconv\<close> and
    \<open>path/filepath\<close> as far as they are used, with the lemmas shared by all components.
  \<^item> \<open>Env\<close>: the variable table is a list of \<open>name=value\<close> entries; it refines a finite map.
  \<^item> \<open>Parser\<close>: tokenizer and pipeline parser, with a printer and the round trip.
  \<^item> \<open>Line_Expand\<close>: \<open>ExpandLine\<close> over an executor that threads a state, and \<open>ExpandPipeline\<close>.
  \<^item> \<open>Line_Buffer\<close>, \<open>Keys\<close>, \<open>Recall\<close>, \<open>Screen\<close>, \<open>Complete\<close>, \<open>Editor\<close>: the line editor. The
    interface of the history source and the contract of a completer are locales, interpreted on
    the in-memory source and on the production completer.
  \<^item> \<open>Jobs\<close>: the job table, whose operations are steps of a relation with an invariant, the reaper
    and the built-ins \<open>jobs\<close>, \<open>bg\<close> and \<open>fg\<close>. The interface of the table is a locale.
  \<^item> \<open>Destructive\<close>, \<open>File_System\<close>, \<open>Snapshots\<close>, \<open>Undo_Log\<close>: which paths a command destroys, a file
    tree with permission faults, snapshots and restores on it, and the event log with \<open>undo\<close>.
    \<open>Undo_Moves\<close>: undoing an overwriting move. \<open>Log_Invariant\<close>: commands, checkpoints and other
    programs in any order as a step relation, with the invariant of the log, and the rollback.
    \<open>Vector_Index\<close>: embedding events and reindexing; the interface of the vector store is a locale.
    \<open>History_Queries\<close>: listing and searching the log, and the built-in \<open>history\<close>.

  \<^item> \<open>Shell_State\<close>: the session record, aliases, variables, the taint registry and the start-up files.
    \<open>Dispatch\<close>: from a line to a pipeline between its interceptors, and the stream loop;
    \<open>Dispatch_Laws\<close> what every run keeps, \<open>Plain_Lines\<close> and \<open>Dispatch_Props\<close> what the lines run.

  \<^item> \<open>Script_Ast\<close>: the syntax tree of foreign scripts (\<^verbatim>\<open>shell/internal/translate\<close>), its rendering by
    \<open>explain\<close> and \<open>migrate\<close>, the detection of the dialect. \<open>Bash_Reader\<close>, \<open>Fish_Reader\<close> (with zsh) and
    \<open>Windows_Readers\<close> (batch files and PowerShell): the readers. \<open>Script_Run\<close>: the run engine and a
    big-step semantics; \<open>Script_Laws\<close>: the contract of an engine as a locale and what every run keeps.
    \<open>Script_Builtin\<close>: the built-ins and the runner, which \<open>Script_Props\<close> shows to satisfy the contract.
    \<open>Plain_Scripts\<close> and \<open>Script_Roundtrip\<close>: what the reader makes of a migrated script, statement by
    statement, with the one thing that is lost.
  \<^item> \<open>Go_Scan\<close>, \<open>File_Ops\<close>: \<open>bufio.Scanner\<close>, \<open>%q\<close> and the calls of package \<open>os\<close>. \<open>Persona_Switch\<close>: the
    transaction over adapters (\<^verbatim>\<open>persona/adapter/orchestrator.go\<close>), and the contract of an adapter as a
    locale; \<open>Persona_Adapters\<close>: the four adapters, \<open>Persona_Laws\<close>: their interpretation, from laws on the
    agent, the YAML library and git. \<open>Active_Config\<close>: the chosen persona and theme in
    \<^verbatim>\<open>~/.aish/config.toml\<close>. \<open>Persona_Store\<close>: schema, refused phrases and the registry;
    \<open>Persona_Bundle\<close>: verification and installation of signed bundles; \<open>Persona_Use\<close>: the built-in.

  \<^bold>\<open>Loops.\<close> Scanners recurse on the rest of their input and terminate by its length; the editor
  loop by the bytes still to be read. The brace counter is a 64-bit word and its loop is an option:
  \<open>None\<close> is a brace group without a result, a loop that does not return or, for a range too long to
  allocate, the panic of \<open>make\<close> before it. A sub-command runs through the same path as the line, so
  \<open>run_external\<close> has fuel, one unit for each level of sub-commands; \<open>sh_overflow\<close> records that it did
  not suffice, and a line without substitution needs one unit. The readers of scripts have the bytes and
  lines of the source as fuel, which \<open>readers_return\<close> shows to be enough; a \<open>while\<close> of a script has the
  ten thousand rounds of the code.

  \<^bold>\<open>Parameters.\<close> Digests, signatures, the clock, directory listings, the full-text index, the embedding
  model, TOML, YAML, JSON and base64, the SSH agent and the programs git and az are arguments of the
  definitions that use them; what a property needs of them is among its hypotheses.

  \<^bold>\<open>Simplified.\<close> In \<open>Finalize\<close> and \<open>Checkpoint\<close> the two SQL statements of an event are one step, so a
  failure of the second alone does not occur; \<open>Reindex\<close> is not cancelled and its metadata queries do not
  fail; \<open>SetStatus\<close> sends its notice in the same step. The undo properties take the stamps of the clock
  for distinct.

  \<^bold>\<open>Not modelled.\<close> Process creation, terminals and signals (system calls); the SQLite, Ed25519,
  embedding and HTTP libraries and what rests on them (event signing, cache, secrets, telemetry,
  community, theme data); the table of identities and the attribution of events to personas; the cloud
  plugin; the wire types and program entry points. Symbolic links, file modes and modification times are
  not part of the file tree.
\<close>

end
